(* ===== verification/Prelude.thy ===== *)
theory Prelude
  imports
    Main
    "HOL-Library.Word"
    "HOL-Library.Char_ord"
    "HOL-Library.List_Lexorder"
    "HOL-Library.Product_Lexorder"
    "HOL-Library.Finite_Map"
    "HOL-Library.Monad_Syntax"
begin

text \<open>
  Shared vocabulary of the development.  Byte strings (\<open>std::string\<close>, \<open>CDataStream\<close>,
  \<open>leveldb::Slice\<close>) are \<open>string\<close>, a list of 8-bit characters, ordered lexicographically by
  unsigned byte as \<open>memcmp\<close> does.  \<open>std::map\<close> is the type \<open>std_map\<close>, a finite map, so
  that equality is extensional; \<open>sm_items\<close> are its items in key order, the order in which
  the code iterates.  A C++ exception or a failed \<open>assert\<close> is the value \<open>None\<close> of an option.
\<close>

named_theorems sm_simps \<open>equations of the operations of std_map\<close>
named_theorems kv_defs \<open>definitions of the cache operations that proofs unfold\<close>

section \<open>Machine integers\<close>

type_synonym uint8 = "8 word"
type_synonym uint16 = "16 word"
type_synonym uint32 = "32 word"
type_synonym uint64 = "64 word"

lemma unat_add_no_wrap:
  fixes a b :: "'n::len word"
  assumes "unat a + unat b < 2 ^ LENGTH('n)"
  shows "unat (a + b) = unat a + unat b"
  using assms by (simp add: unat_word_ariths)

lemma unat_sub_le:
  fixes a b :: "'n::len word"
  assumes "unat b \<le> unat a"
  shows "unat (a - b) = unat a - unat b"
  using assms by (simp add: unat_sub word_le_nat_alt)

section \<open>Ordered maps\<close>

text \<open>Strictly sorted association lists, and insertion and deletion in them.\<close>

definition sorted_keys :: "('k::linorder \<times> 'v) list \<Rightarrow> bool" where
  "sorted_keys xs \<longleftrightarrow> sorted_wrt (<) (map fst xs)"

fun al_set :: "'k::linorder \<Rightarrow> 'v \<Rightarrow> ('k \<times> 'v) list \<Rightarrow> ('k \<times> 'v) list" where
  "al_set k v [] = [(k, v)]"
| "al_set k v ((a, b) # xs) =
     (if k < a then (k, v) # (a, b) # xs
      else if k = a then (k, v) # xs
      else (a, b) # al_set k v xs)"

definition al_erase :: "'k \<Rightarrow> ('k \<times> 'v) list \<Rightarrow> ('k \<times> 'v) list" where
  "al_erase k xs = filter (\<lambda>(a, b). a \<noteq> k) xs"

lemma sorted_keys_Nil [simp]: "sorted_keys []"
  by (simp add: sorted_keys_def)

lemma sorted_keys_Cons:
  "sorted_keys ((a, b) # xs) \<longleftrightarrow> (\<forall>p \<in> set xs. a < fst p) \<and> sorted_keys xs"
  by (auto simp: sorted_keys_def)

lemma sorted_keys_distinct: "sorted_keys xs \<Longrightarrow> distinct (map fst xs)"
  unfolding sorted_keys_def by (induction xs) auto

lemma fst_set_al_set: "fst ` set (al_set k v xs) = insert k (fst ` set xs)"
  by (induction k v xs rule: al_set.induct) auto

lemma set_al_set_subset: "set (al_set k v xs) \<subseteq> insert (k, v) (set xs)"
  by (induction k v xs rule: al_set.induct) auto

lemma sorted_al_set: "sorted_keys xs \<Longrightarrow> sorted_keys (al_set k v xs)"
proof (induction k v xs rule: al_set.induct)
  case (2 k v a b xs)
  show ?case
  proof (cases "k \<le> a")
    case True
    with 2 show ?thesis
      by (auto simp: sorted_keys_Cons dest: order.strict_trans)
  next
    case False
    then have "sorted_keys (al_set k v xs)"
      using 2 by (auto simp: sorted_keys_Cons)
    moreover have "\<forall>p \<in> set (al_set k v xs). a < fst p"
      using 2(2) False set_al_set_subset [of k v xs] by (auto simp: sorted_keys_Cons)
    ultimately show ?thesis
      using False by (auto simp: sorted_keys_Cons)
  qed
qed (simp add: sorted_keys_Cons)

lemma sorted_al_erase: "sorted_keys xs \<Longrightarrow> sorted_keys (al_erase k xs)"
  unfolding al_erase_def by (induction xs) (auto simp: sorted_keys_Cons)

lemma map_of_al_set: "sorted_keys xs \<Longrightarrow> map_of (al_set k v xs) = (map_of xs)(k \<mapsto> v)"
  by (induction k v xs rule: al_set.induct) (auto simp: sorted_keys_Cons fun_eq_iff)

lemma map_of_al_erase: "map_of (al_erase k xs) = (map_of xs)(k := None)"
  unfolding al_erase_def by (induction xs) (auto simp: fun_eq_iff)

lemma sorted_keys_map_of_eq:
  assumes "sorted_keys xs" and "sorted_keys ys" and "map_of xs = map_of ys"
  shows "xs = ys"
proof -
  have d: "distinct (map fst xs)" "distinct (map fst ys)"
    using assms sorted_keys_distinct by auto
  have s: "set xs = set ys"
    using map_of_inject_set [OF d] assms(3) by blast
  have "inj_on fst (set xs \<union> set ys)"
    using d s by (simp add: distinct_map)
  moreover have "sorted (map fst xs)" "sorted (map fst ys)"
    using assms(1,2) unfolding sorted_keys_def by (auto simp: strict_sorted_iff)
  ultimately show ?thesis
    using d s by (intro map_sorted_distinct_set_unique [of fst]) auto
qed

section \<open>std::map\<close>

type_synonym ('k, 'v) std_map = "('k, 'v) fmap"

definition sm_empty :: "('k, 'v) std_map" where
  "sm_empty = fmempty"

definition sm_find :: "('k, 'v) std_map \<Rightarrow> 'k \<Rightarrow> 'v option" where
  "sm_find m k = fmlookup m k"

definition sm_set :: "'k \<Rightarrow> 'v \<Rightarrow> ('k, 'v) std_map \<Rightarrow> ('k, 'v) std_map" where
  "sm_set k v m = fmupd k v m"

definition sm_erase :: "'k \<Rightarrow> ('k, 'v) std_map \<Rightarrow> ('k, 'v) std_map" where
  "sm_erase k m = fmdrop k m"

definition sm_items :: "('k::linorder, 'v) std_map \<Rightarrow> ('k \<times> 'v) list" where
  "sm_items m = map (\<lambda>k. (k, the (fmlookup m k))) (sorted_list_of_fset (fmdom m))"

lemma fst_sm_items: "map fst (sm_items m) = sorted_list_of_fset (fmdom m)"
  by (simp add: sm_items_def comp_def)

lemma sorted_sm_items [simp]: "sorted_keys (sm_items m)"
  unfolding sorted_keys_def fst_sm_items
  by (simp add: sorted_list_of_fset.rep_eq)

lemma map_of_sm_items [simp]: "map_of (sm_items m) = sm_find m"
proof
  fix k
  have "map_of (sm_items m) k = (if k |\<in>| fmdom m then Some (the (fmlookup m k)) else None)"
    unfolding sm_items_def
    by (simp add: map_of_map_keys sorted_list_of_fset.rep_eq map_of_map_restrict restrict_map_def)
  then show "map_of (sm_items m) k = sm_find m k"
    by (auto simp: sm_find_def fmdom_notI dest: fmdomI split: if_splits)
qed

text \<open>Iterators at \<open>lower_bound(k)\<close> and \<open>upper_bound(k)\<close>, as the items still ahead.\<close>

definition sm_lower_bound :: "('k::linorder, 'v) std_map \<Rightarrow> 'k \<Rightarrow> ('k \<times> 'v) list" where
  "sm_lower_bound m k = dropWhile (\<lambda>p. fst p < k) (sm_items m)"

definition sm_upper_bound :: "('k::linorder, 'v) std_map \<Rightarrow> 'k \<Rightarrow> ('k \<times> 'v) list" where
  "sm_upper_bound m k = dropWhile (\<lambda>p. fst p \<le> k) (sm_items m)"

lemma sm_find_empty [simp, sm_simps]: "sm_find sm_empty k = None"
  by (simp add: sm_find_def sm_empty_def)

lemma sm_find_set [simp, sm_simps]:
  "sm_find (sm_set k v m) k' = (if k' = k then Some v else sm_find m k')"
  by (simp add: sm_find_def sm_set_def)

lemma sm_find_erase [simp, sm_simps]:
  "sm_find (sm_erase k m) k' = (if k' = k then None else sm_find m k')"
  by (simp add: sm_find_def sm_erase_def)

lemma std_map_eqI: "(\<And>k. sm_find m k = sm_find m' k) \<Longrightarrow> m = m'"
  by (auto simp: sm_find_def intro: fmap_ext)

lemma sm_items_unique:
  "sorted_keys xs \<Longrightarrow> map_of xs = sm_find m \<Longrightarrow> sm_items m = xs"
  by (rule sorted_keys_map_of_eq) auto

lemma sm_items_empty [simp, sm_simps]: "sm_items sm_empty = []"
  by (rule sm_items_unique) (auto simp: fun_eq_iff)

lemma sm_items_set [sm_simps]: "sm_items (sm_set k v m) = al_set k v (sm_items m)"
  by (rule sm_items_unique) (auto simp: sorted_al_set map_of_al_set fun_eq_iff)

lemma sm_items_erase [sm_simps]: "sm_items (sm_erase k m) = al_erase k (sm_items m)"
  by (rule sm_items_unique) (auto simp: sorted_al_erase map_of_al_erase fun_eq_iff)

lemma distinct_sm_items [simp]: "distinct (map fst (sm_items m))"
  by (rule sorted_keys_distinct) simp

lemma in_sm_items_iff: "(k, v) \<in> set (sm_items m) \<longleftrightarrow> sm_find m k = Some v"
  using map_of_eq_Some_iff [OF distinct_sm_items, of m k v] by simp

lemma sm_set_set [simp]: "sm_set k v' (sm_set k v m) = sm_set k v' m"
  by (rule std_map_eqI) simp

lemma sm_set_same: "sm_find m k = Some v \<Longrightarrow> sm_set k v m = m"
  by (rule std_map_eqI) simp

lemma sm_items_Nil_iff: "sm_items m = [] \<longleftrightarrow> m = sm_empty"
proof
  assume "sm_items m = []"
  then have "sm_find m k = None" for k
    using map_of_sm_items [of m] by (metis map_of.simps(1))
  then show "m = sm_empty"
    by (intro std_map_eqI) simp
qed simp

text \<open>\<open>sm_of\<close> builds a map from an initialiser list; a later pair does not replace an
  earlier one (\<open>std::map\<close>'s constructor inserts).\<close>

fun sm_of :: "('k::linorder \<times> 'v) list \<Rightarrow> ('k, 'v) std_map" where
  "sm_of [] = sm_empty"
| "sm_of ((k, v) # xs) = sm_set k v (sm_of xs)"

lemma sm_find_sm_of [simp]: "sm_find (sm_of xs) k = map_of xs k"
  by (induction xs rule: sm_of.induct) auto

section \<open>Loops in the option monad\<close>

text \<open>A loop over a list whose body may throw.\<close>

fun fold_opt :: "('a \<Rightarrow> 's \<Rightarrow> 's option) \<Rightarrow> 'a list \<Rightarrow> 's \<Rightarrow> 's option" where
  "fold_opt f [] s = Some s"
| "fold_opt f (x # xs) s = (case f x s of None \<Rightarrow> None | Some s' \<Rightarrow> fold_opt f xs s')"

lemma fold_opt_append:
  "fold_opt f (xs @ ys) s = (case fold_opt f xs s of None \<Rightarrow> None | Some s' \<Rightarrow> fold_opt f ys s')"
  by (induction xs arbitrary: s) (auto split: option.splits)

lemma fold_opt_inv:
  assumes "\<And>x s s'. x \<in> set xs \<Longrightarrow> P s \<Longrightarrow> f x s = Some s' \<Longrightarrow> P s'"
    and "P s" and "fold_opt f xs s = Some s'"
  shows "P s'"
  using assms by (induction xs arbitrary: s) (auto split: option.splits)

lemma fold_opt_Some:
  assumes "\<And>x s. x \<in> set xs \<Longrightarrow> P s \<Longrightarrow> \<exists>s'. f x s = Some s' \<and> P s'" and "P s"
  shows "\<exists>s'. fold_opt f xs s = Some s' \<and> P s'"
  using assms by (induction xs arbitrary: s) (fastforce split: option.splits)+

section \<open>Lists in key order\<close>

lemma sorted_keys_dropWhile: "sorted_keys xs \<Longrightarrow> sorted_keys (dropWhile P xs)"
  by (induction xs) (auto simp: sorted_keys_Cons)

lemma dropWhile_lt_eq_filter:
  "sorted_keys xs \<Longrightarrow> dropWhile (\<lambda>p. fst p < k) xs = filter (\<lambda>p. k \<le> fst p) xs"
proof (induction xs)
  case (Cons p xs)
  show ?case
  proof (cases "fst p < k")
    case False
    then have "\<forall>q \<in> set xs. k \<le> fst q"
      using Cons.prems by (cases p) (fastforce simp: sorted_keys_Cons)
    with False show ?thesis by simp
  qed (use Cons in \<open>cases p, auto simp: sorted_keys_Cons\<close>)
qed simp

lemma dropWhile_le_eq_filter:
  "sorted_keys xs \<Longrightarrow> dropWhile (\<lambda>p. fst p \<le> k) xs = filter (\<lambda>p. k < fst p) xs"
proof (induction xs)
  case (Cons p xs)
  show ?case
  proof (cases "fst p \<le> k")
    case False
    then have "\<forall>q \<in> set xs. k < fst q"
      using Cons.prems by (cases p) (fastforce simp: sorted_keys_Cons)
    with False show ?thesis by simp
  qed (use Cons in \<open>cases p, auto simp: sorted_keys_Cons\<close>)
qed simp

lemma sorted_keys_filter: "sorted_keys xs \<Longrightarrow> sorted_keys (filter P xs)"
  by (induction xs) (auto simp: sorted_keys_Cons)

end
