(* ===== verification/Db_Conf.thy ===== *)
theory Db_Conf
  imports Prelude "HOL-Library.Sublist"
begin

text \<open>
  \<open>dbconf.h\<close>: the databases and their cache sizes, the key prefixes with the database
  each lives in, the composition and parsing of database keys, and \<open>CDBTailKey\<close>.
  Serialisation of key elements (\<open>basics/serialize.h\<close>, not in the repository) is a
  parameter of \<open>GenDbKey\<close> and \<open>ParseDbKey\<close>: \<open>ser\<close> gives the bytes \<open><<\<close> writes and
  \<open>unser\<close> the value \<open>>>\<close> reads from a stream that holds exactly those bytes, \<open>None\<close>
  when it throws.  Database names carry the prefix \<open>DB_\<close>, since two of them are also
  names of key prefixes.
\<close>

section \<open>Databases\<close>

datatype DBNameType =
    DB_SYSPARAM | DB_ACCOUNT | DB_ASSET | DB_BLOCK | DB_CONTRACT | DB_DELEGATE | DB_CDP |
    DB_CLOSEDCDP | DB_DEX | DB_LOG | DB_RECEIPT | DB_UTXO | DB_SYSGOVERN | DB_PRICEFEED |
    DB_AXC | DB_NAME_COUNT

text \<open>\<open>DB_NAME_LIST\<close>: enumerator, directory name and default cache size.\<close>

definition db_name_list :: "(DBNameType \<times> string \<times> uint32) list" where
  "db_name_list =
    [(DB_SYSPARAM, ''params'', 51200),
     (DB_ACCOUNT, ''accounts'', 52428800),
     (DB_ASSET, ''assets'', 102400),
     (DB_BLOCK, ''blocks'', 512000),
     (DB_CONTRACT, ''contracts'', 52428800),
     (DB_DELEGATE, ''delegates'', 102400),
     (DB_CDP, ''cdps'', 52428800),
     (DB_CLOSEDCDP, ''closedcdps'', 1048576),
     (DB_DEX, ''dexes'', 52428800),
     (DB_LOG, ''logs'', 102400),
     (DB_RECEIPT, ''receipts'', 102400),
     (DB_UTXO, ''utxo'', 52428800),
     (DB_SYSGOVERN, ''governs'', 102400),
     (DB_PRICEFEED, ''pricefeed'', 51200),
     (DB_AXC, ''axc'', 51200),
     (DB_NAME_COUNT, '''', 0)]"

definition kDbNames :: "DBNameType \<Rightarrow> string" where
  "kDbNames t = (case map_of db_name_list t of Some (n, _) \<Rightarrow> n | None \<Rightarrow> [])"

definition kDBCacheSizeMap :: "DBNameType \<Rightarrow> uint32" where
  "kDBCacheSizeMap t = (case map_of db_name_list t of Some (_, s) \<Rightarrow> s | None \<Rightarrow> 0)"

definition MAX_DB_CACHE_SIZE :: uint32 where
  "MAX_DB_CACHE_SIZE = push_bit 30 1"

definition GetDbName :: "DBNameType \<Rightarrow> string option" where
  "GetDbName t = (if t = DB_NAME_COUNT then None else Some (kDbNames t))"

section \<open>Key prefixes\<close>

datatype PrefixType =
    EMPTY | SYS_PARAM | PRODUCER_FEE | CDP_PARAM | CDP_INTEREST_PARAMS | TOTAL_BPS_SIZE |
    NEW_TOTAL_BPS_SIZE | SYS_GOVERN | GOVN_PROP | GOVN_APPROVAL_LIST |
    AXCOUT_PROPOSAL_TXUID | ASSET | AXC_COIN_PEERTOSELF | AXC_COIN_SELFTOPEER |
    BLOCK_INDEX | BLOCKFILE_NUM_INFO | LAST_BLOCKFILE | REINDEX | FINALITY_BLOCK | FLAG |
    BEST_BLOCKHASH | TXID_DISKINDEX | BLOCK_INFLATED_REWARD | REGID_KEYID | KEYID_ACCOUNT |
    CONTRACT_DEF | CONTRACT_DATA | CONTRACT_ACCOUNT | CONTRACT_TRACES | VOTE |
    LAST_VOTE_HEIGHT | PENDING_DELEGATES | ACTIVE_DELEGATES | REGID_VOTE | CDP | CDP_INR |
    USER_CDP | CDP_RATIO_INDEX | CDP_HEIGHT_INDEX | CDP_GLOBAL_DATA | CLOSED_CDP_TX |
    CLOSED_TX_CDP | DEX_ACTIVE_ORDER | DEX_BLOCK_ORDERS | DEX_OPERATOR_LAST_ID |
    DEX_OPERATOR_DETAIL | DEX_OPERATOR_OWNER_MAP | DEX_OPERATOR_TRADE_PAIR |
    DEX_QUOTE_COIN_SYMBOL | TX_EXECUTE_FAIL | TX_RECEIPT | BLOCK_RECEIPT | TX_UTXO |
    UTXO_PWSDPRF | MEDIAN_PRICES | PRICE_FEED_COIN_PAIRS | PRICE_FEEDERS | AXC_SWAP_IN |
    PREFIX_COUNT

text \<open>
  \<open>DBK_PREFIX_LIST\<close> expanded as \<open>kPrefixNames\<close>, as \<open>kDbPrefix2DbName\<close>, and as the
  list of the enumerators in their order.
\<close>

fun kPrefixNames :: "PrefixType \<Rightarrow> string" where
  "kPrefixNames EMPTY = ''''"
| "kPrefixNames SYS_PARAM = ''sysp''"
| "kPrefixNames PRODUCER_FEE = ''minf''"
| "kPrefixNames CDP_PARAM = ''cdpp''"
| "kPrefixNames CDP_INTEREST_PARAMS = ''cips''"
| "kPrefixNames TOTAL_BPS_SIZE = ''bpsi''"
| "kPrefixNames NEW_TOTAL_BPS_SIZE = ''nbps''"
| "kPrefixNames SYS_GOVERN = ''govn''"
| "kPrefixNames GOVN_PROP = ''pgvn''"
| "kPrefixNames GOVN_APPROVAL_LIST = ''galt''"
| "kPrefixNames AXCOUT_PROPOSAL_TXUID = ''aptu''"
| "kPrefixNames ASSET = ''asst''"
| "kPrefixNames AXC_COIN_PEERTOSELF = ''acps''"
| "kPrefixNames AXC_COIN_SELFTOPEER = ''acsp''"
| "kPrefixNames BLOCK_INDEX = ''bidx''"
| "kPrefixNames BLOCKFILE_NUM_INFO = ''bfni''"
| "kPrefixNames LAST_BLOCKFILE = ''ltbf''"
| "kPrefixNames REINDEX = ''ridx''"
| "kPrefixNames FINALITY_BLOCK = ''finb''"
| "kPrefixNames FLAG = ''flag''"
| "kPrefixNames BEST_BLOCKHASH = ''bbkh''"
| "kPrefixNames TXID_DISKINDEX = ''tidx''"
| "kPrefixNames BLOCK_INFLATED_REWARD = ''bird''"
| "kPrefixNames REGID_KEYID = ''rkey''"
| "kPrefixNames KEYID_ACCOUNT = ''idac''"
| "kPrefixNames CONTRACT_DEF = ''ucon''"
| "kPrefixNames CONTRACT_DATA = ''cdat''"
| "kPrefixNames CONTRACT_ACCOUNT = ''cacc''"
| "kPrefixNames CONTRACT_TRACES = ''ctrs''"
| "kPrefixNames VOTE = ''vote''"
| "kPrefixNames LAST_VOTE_HEIGHT = ''lvht''"
| "kPrefixNames PENDING_DELEGATES = ''pdds''"
| "kPrefixNames ACTIVE_DELEGATES = ''atds''"
| "kPrefixNames REGID_VOTE = ''ridv''"
| "kPrefixNames CDP = ''cid''"
| "kPrefixNames CDP_INR = ''cbcn''"
| "kPrefixNames USER_CDP = ''ucdp''"
| "kPrefixNames CDP_RATIO_INDEX = ''crid''"
| "kPrefixNames CDP_HEIGHT_INDEX = ''chid''"
| "kPrefixNames CDP_GLOBAL_DATA = ''cgdt''"
| "kPrefixNames CLOSED_CDP_TX = ''ctx''"
| "kPrefixNames CLOSED_TX_CDP = ''txc''"
| "kPrefixNames DEX_ACTIVE_ORDER = ''dato''"
| "kPrefixNames DEX_BLOCK_ORDERS = ''dbos''"
| "kPrefixNames DEX_OPERATOR_LAST_ID = ''doli''"
| "kPrefixNames DEX_OPERATOR_DETAIL = ''dode''"
| "kPrefixNames DEX_OPERATOR_OWNER_MAP = ''doom''"
| "kPrefixNames DEX_OPERATOR_TRADE_PAIR = ''dotp''"
| "kPrefixNames DEX_QUOTE_COIN_SYMBOL = ''dqcs''"
| "kPrefixNames TX_EXECUTE_FAIL = ''txef''"
| "kPrefixNames TX_RECEIPT = ''txrc''"
| "kPrefixNames BLOCK_RECEIPT = ''bkrc''"
| "kPrefixNames TX_UTXO = ''utxo''"
| "kPrefixNames UTXO_PWSDPRF = ''pwdp''"
| "kPrefixNames MEDIAN_PRICES = ''mdps''"
| "kPrefixNames PRICE_FEED_COIN_PAIRS = ''pfcp''"
| "kPrefixNames PRICE_FEEDERS = ''pfdr''"
| "kPrefixNames AXC_SWAP_IN = ''axci''"
| "kPrefixNames PREFIX_COUNT = ''''"

fun kDbPrefix2DbName :: "PrefixType \<Rightarrow> DBNameType" where
  "kDbPrefix2DbName EMPTY = DB_NAME_COUNT"
| "kDbPrefix2DbName SYS_PARAM = DB_SYSPARAM"
| "kDbPrefix2DbName PRODUCER_FEE = DB_SYSPARAM"
| "kDbPrefix2DbName CDP_PARAM = DB_SYSPARAM"
| "kDbPrefix2DbName CDP_INTEREST_PARAMS = DB_SYSPARAM"
| "kDbPrefix2DbName TOTAL_BPS_SIZE = DB_SYSPARAM"
| "kDbPrefix2DbName NEW_TOTAL_BPS_SIZE = DB_SYSPARAM"
| "kDbPrefix2DbName SYS_GOVERN = DB_SYSGOVERN"
| "kDbPrefix2DbName GOVN_PROP = DB_SYSGOVERN"
| "kDbPrefix2DbName GOVN_APPROVAL_LIST = DB_SYSGOVERN"
| "kDbPrefix2DbName AXCOUT_PROPOSAL_TXUID = DB_SYSGOVERN"
| "kDbPrefix2DbName ASSET = DB_ASSET"
| "kDbPrefix2DbName AXC_COIN_PEERTOSELF = DB_ASSET"
| "kDbPrefix2DbName AXC_COIN_SELFTOPEER = DB_ASSET"
| "kDbPrefix2DbName BLOCK_INDEX = DB_BLOCK"
| "kDbPrefix2DbName BLOCKFILE_NUM_INFO = DB_BLOCK"
| "kDbPrefix2DbName LAST_BLOCKFILE = DB_BLOCK"
| "kDbPrefix2DbName REINDEX = DB_BLOCK"
| "kDbPrefix2DbName FINALITY_BLOCK = DB_BLOCK"
| "kDbPrefix2DbName FLAG = DB_BLOCK"
| "kDbPrefix2DbName BEST_BLOCKHASH = DB_BLOCK"
| "kDbPrefix2DbName TXID_DISKINDEX = DB_BLOCK"
| "kDbPrefix2DbName BLOCK_INFLATED_REWARD = DB_BLOCK"
| "kDbPrefix2DbName REGID_KEYID = DB_ACCOUNT"
| "kDbPrefix2DbName KEYID_ACCOUNT = DB_ACCOUNT"
| "kDbPrefix2DbName CONTRACT_DEF = DB_CONTRACT"
| "kDbPrefix2DbName CONTRACT_DATA = DB_CONTRACT"
| "kDbPrefix2DbName CONTRACT_ACCOUNT = DB_CONTRACT"
| "kDbPrefix2DbName CONTRACT_TRACES = DB_CONTRACT"
| "kDbPrefix2DbName VOTE = DB_DELEGATE"
| "kDbPrefix2DbName LAST_VOTE_HEIGHT = DB_DELEGATE"
| "kDbPrefix2DbName PENDING_DELEGATES = DB_DELEGATE"
| "kDbPrefix2DbName ACTIVE_DELEGATES = DB_DELEGATE"
| "kDbPrefix2DbName REGID_VOTE = DB_DELEGATE"
| "kDbPrefix2DbName CDP = DB_CDP"
| "kDbPrefix2DbName CDP_INR = DB_CDP"
| "kDbPrefix2DbName USER_CDP = DB_CDP"
| "kDbPrefix2DbName CDP_RATIO_INDEX = DB_CDP"
| "kDbPrefix2DbName CDP_HEIGHT_INDEX = DB_CDP"
| "kDbPrefix2DbName CDP_GLOBAL_DATA = DB_CDP"
| "kDbPrefix2DbName CLOSED_CDP_TX = DB_CLOSEDCDP"
| "kDbPrefix2DbName CLOSED_TX_CDP = DB_CLOSEDCDP"
| "kDbPrefix2DbName DEX_ACTIVE_ORDER = DB_DEX"
| "kDbPrefix2DbName DEX_BLOCK_ORDERS = DB_DEX"
| "kDbPrefix2DbName DEX_OPERATOR_LAST_ID = DB_DEX"
| "kDbPrefix2DbName DEX_OPERATOR_DETAIL = DB_DEX"
| "kDbPrefix2DbName DEX_OPERATOR_OWNER_MAP = DB_DEX"
| "kDbPrefix2DbName DEX_OPERATOR_TRADE_PAIR = DB_DEX"
| "kDbPrefix2DbName DEX_QUOTE_COIN_SYMBOL = DB_DEX"
| "kDbPrefix2DbName TX_EXECUTE_FAIL = DB_LOG"
| "kDbPrefix2DbName TX_RECEIPT = DB_RECEIPT"
| "kDbPrefix2DbName BLOCK_RECEIPT = DB_RECEIPT"
| "kDbPrefix2DbName TX_UTXO = DB_UTXO"
| "kDbPrefix2DbName UTXO_PWSDPRF = DB_UTXO"
| "kDbPrefix2DbName MEDIAN_PRICES = DB_PRICEFEED"
| "kDbPrefix2DbName PRICE_FEED_COIN_PAIRS = DB_PRICEFEED"
| "kDbPrefix2DbName PRICE_FEEDERS = DB_PRICEFEED"
| "kDbPrefix2DbName AXC_SWAP_IN = DB_AXC"
| "kDbPrefix2DbName PREFIX_COUNT = DB_NAME_COUNT"

definition all_prefixes :: "PrefixType list" where
  "all_prefixes =
    [EMPTY, SYS_PARAM, PRODUCER_FEE, CDP_PARAM, CDP_INTEREST_PARAMS, TOTAL_BPS_SIZE,
     NEW_TOTAL_BPS_SIZE, SYS_GOVERN, GOVN_PROP, GOVN_APPROVAL_LIST, AXCOUT_PROPOSAL_TXUID,
     ASSET, AXC_COIN_PEERTOSELF, AXC_COIN_SELFTOPEER, BLOCK_INDEX, BLOCKFILE_NUM_INFO,
     LAST_BLOCKFILE, REINDEX, FINALITY_BLOCK, FLAG, BEST_BLOCKHASH, TXID_DISKINDEX,
     BLOCK_INFLATED_REWARD, REGID_KEYID, KEYID_ACCOUNT, CONTRACT_DEF, CONTRACT_DATA,
     CONTRACT_ACCOUNT, CONTRACT_TRACES, VOTE, LAST_VOTE_HEIGHT, PENDING_DELEGATES,
     ACTIVE_DELEGATES, REGID_VOTE, CDP, CDP_INR, USER_CDP, CDP_RATIO_INDEX,
     CDP_HEIGHT_INDEX, CDP_GLOBAL_DATA, CLOSED_CDP_TX, CLOSED_TX_CDP, DEX_ACTIVE_ORDER,
     DEX_BLOCK_ORDERS, DEX_OPERATOR_LAST_ID, DEX_OPERATOR_DETAIL, DEX_OPERATOR_OWNER_MAP,
     DEX_OPERATOR_TRADE_PAIR, DEX_QUOTE_COIN_SYMBOL, TX_EXECUTE_FAIL, TX_RECEIPT,
     BLOCK_RECEIPT, TX_UTXO, UTXO_PWSDPRF, MEDIAN_PRICES, PRICE_FEED_COIN_PAIRS,
     PRICE_FEEDERS, AXC_SWAP_IN, PREFIX_COUNT]"

text \<open>\<open>gPrefixNameMap\<close> is initialised from pairs; the first pair with a name stays.\<close>

definition gPrefixNameMap :: "string \<Rightarrow> PrefixType option" where
  "gPrefixNameMap = map_of (map (\<lambda>p. (kPrefixNames p, p)) all_prefixes)"

definition GetKeyPrefix :: "PrefixType \<Rightarrow> string" where
  "GetKeyPrefix p = kPrefixNames p"

definition GetDbNameEnumByPrefix :: "PrefixType \<Rightarrow> DBNameType option" where
  "GetDbNameEnumByPrefix p = (if p = EMPTY then None else Some (kDbPrefix2DbName p))"

definition ParseKeyPrefixType :: "string \<Rightarrow> PrefixType" where
  "ParseKeyPrefixType s = (case gPrefixNameMap s of Some p \<Rightarrow> p | None \<Rightarrow> EMPTY)"

definition GenDbKey :: "('k \<Rightarrow> string) \<Rightarrow> PrefixType \<Rightarrow> 'k \<Rightarrow> string option" where
  "GenDbKey ser p k = (if p = EMPTY then None else Some (GetKeyPrefix p @ ser k))"

text \<open>
  \<open>ParseDbKey\<close>: the outer option is the failed assertion or an exception of \<open>>>\<close>, the
  inner one the result \<open>false\<close>.
\<close>

definition ParseDbKey :: "(string \<Rightarrow> 'k option) \<Rightarrow> string \<Rightarrow> PrefixType \<Rightarrow> 'k option option" where
  "ParseDbKey unser sl p =
     (if sl = [] then None
      else let pre = GetKeyPrefix p in
        if pre = [] \<or> \<not> prefix pre sl then Some None
        else map_option Some (unser (drop (length pre) sl)))"

section \<open>CDBTailKey\<close>

text \<open>
  A string key that must be the last element of a composed key: it is written without a
  length and read up to the end of the stream.  The template argument is \<open>max_size\<close>.
\<close>

record CDBTailKey =
  tail_key :: string

definition CDBTailKey_make :: "nat \<Rightarrow> string \<Rightarrow> CDBTailKey option" where
  "CDBTailKey_make max_size s =
     (if length s \<le> max_size then Some \<lparr>tail_key = s\<rparr> else None)"

text \<open>\<open>key.compare(0, n, prefix) == 0\<close> compares the first \<open>n\<close> characters of the key.\<close>

definition StartWith :: "CDBTailKey \<Rightarrow> CDBTailKey \<Rightarrow> bool" where
  "StartWith k pre \<longleftrightarrow> take (length (tail_key pre)) (tail_key k) = tail_key pre"

definition TailKey_GetSerializeSize :: "CDBTailKey \<Rightarrow> uint32" where
  "TailKey_GetSerializeSize k = of_nat (length (tail_key k))"

definition TailKey_Serialize :: "CDBTailKey \<Rightarrow> string" where
  "TailKey_Serialize k = tail_key k"

definition TailKey_Unserialize :: "nat \<Rightarrow> string \<Rightarrow> CDBTailKey option" where
  "TailKey_Unserialize max_size s =
     (if length s > max_size then None else Some \<lparr>tail_key = s\<rparr>)"

definition TailKey_IsEmpty :: "CDBTailKey \<Rightarrow> bool" where
  "TailKey_IsEmpty k \<longleftrightarrow> tail_key k = []"

definition TailKey_SetEmpty :: "CDBTailKey \<Rightarrow> CDBTailKey" where
  "TailKey_SetEmpty k = k\<lparr>tail_key := []\<rparr>"

text \<open>\<open>operator<\<close> is the order of the strings.\<close>

instantiation CDBTailKey_ext :: (linorder) linorder
begin

definition less_eq_CDBTailKey_ext :: "'a CDBTailKey_scheme \<Rightarrow> 'a CDBTailKey_scheme \<Rightarrow> bool" where
  "less_eq_CDBTailKey_ext a b \<longleftrightarrow> (tail_key a, CDBTailKey.more a) \<le> (tail_key b, CDBTailKey.more b)"

definition less_CDBTailKey_ext :: "'a CDBTailKey_scheme \<Rightarrow> 'a CDBTailKey_scheme \<Rightarrow> bool" where
  "less_CDBTailKey_ext a b \<longleftrightarrow> (tail_key a, CDBTailKey.more a) < (tail_key b, CDBTailKey.more b)"

instance
  by intro_classes
    (auto simp: less_eq_CDBTailKey_ext_def less_CDBTailKey_ext_def intro: CDBTailKey.equality)

end

section \<open>Properties of the tables and of database keys\<close>

definition is_data_prefix :: "PrefixType \<Rightarrow> bool" where
  "is_data_prefix p \<longleftrightarrow> p \<noteq> EMPTY \<and> p \<noteq> PREFIX_COUNT"

definition short_prefixes :: "PrefixType list" where
  "short_prefixes = [CDP, CLOSED_CDP_TX, CLOSED_TX_CDP]"

lemma all_prefixes_complete: "p \<in> set all_prefixes"
  unfolding all_prefixes_def by (cases p) simp_all

lemma name_length:
  "is_data_prefix p \<Longrightarrow> length (kPrefixNames p) = (if p \<in> set short_prefixes then 3 else 4)"
  unfolding is_data_prefix_def short_prefixes_def by (cases p) simp_all

lemma short_prefix_unique:
  "p \<in> set short_prefixes \<Longrightarrow> is_data_prefix q \<Longrightarrow> take 3 (kPrefixNames q) = kPrefixNames p \<Longrightarrow> q = p"
  unfolding is_data_prefix_def short_prefixes_def
  by (cases q) (auto simp del: char.simps)

lemma distinct_prefix_names: "distinct (map kPrefixNames (butlast all_prefixes))"
  unfolding all_prefixes_def by simp

lemma prefix_name_map:
  assumes "is_data_prefix p"
  shows "gPrefixNameMap (kPrefixNames p) = Some p"
proof -
  have "p \<in> set (butlast all_prefixes)"
    using assms unfolding is_data_prefix_def all_prefixes_def by (cases p) simp_all
  then have m: "map_of (map (\<lambda>p. (kPrefixNames p, p)) (butlast all_prefixes)) (kPrefixNames p) = Some p"
    using distinct_prefix_names by (intro map_of_is_SomeI) (auto simp: comp_def)
  have app: "all_prefixes = butlast all_prefixes @ [PREFIX_COUNT]"
    by (simp add: all_prefixes_def)
  show ?thesis
    unfolding gPrefixNameMap_def
    by (subst app, simp only: map_append map_of_append) (rule map_add_find_right, rule m)
qed

lemma data_prefix_nonempty [simp]: "is_data_prefix p \<Longrightarrow> GetKeyPrefix p \<noteq> []"
  using name_length [of p] by (auto simp: GetKeyPrefix_def split: if_splits)

lemma prefix_free:
  assumes p: "is_data_prefix p" and q: "is_data_prefix q"
    and "prefix (GetKeyPrefix p @ xs) (GetKeyPrefix q @ ys)"
  shows "p = q"
proof -
  obtain zs where eq: "kPrefixNames q @ ys = kPrefixNames p @ zs"
    using assms(3) by (auto simp: prefix_def GetKeyPrefix_def)
  have "take 3 (kPrefixNames q) = take 3 (kPrefixNames q @ ys)"
    using name_length [OF q] by simp
  also have "\<dots> = take 3 (kPrefixNames p)"
    using name_length [OF p] eq by simp
  finally have eq3: "take 3 (kPrefixNames q) = take 3 (kPrefixNames p)" .
  consider "p \<in> set short_prefixes" | "q \<in> set short_prefixes"
    | "p \<notin> set short_prefixes" "q \<notin> set short_prefixes" by blast
  then show ?thesis
  proof cases
    case 1
    then show ?thesis
      using short_prefix_unique [OF 1 q] eq3 name_length [OF p] by simp
  next
    case 2
    then show ?thesis
      using short_prefix_unique [OF 2 p] eq3 name_length [OF q] by simp
  next
    case 3
    then have "kPrefixNames q = kPrefixNames p"
      using eq name_length [OF p] name_length [OF q] by simp
    then show ?thesis
      using prefix_name_map [OF p] prefix_name_map [OF q] by simp
  qed
qed

lemma ParseKeyPrefixType_GetKeyPrefix:
  "is_data_prefix p \<Longrightarrow> ParseKeyPrefixType (GetKeyPrefix p) = p"
  using prefix_name_map [of p] by (simp add: GetKeyPrefix_def ParseKeyPrefixType_def)

lemma GetKeyPrefix_inj: "is_data_prefix p \<Longrightarrow> is_data_prefix q \<Longrightarrow> GetKeyPrefix p = GetKeyPrefix q \<longleftrightarrow> p = q"
  using ParseKeyPrefixType_GetKeyPrefix by metis

lemma GenDbKey_data [simp]:
  "is_data_prefix p \<Longrightarrow> GenDbKey ser p k = Some (GetKeyPrefix p @ ser k)"
  by (auto simp: GenDbKey_def is_data_prefix_def)

lemma ParseDbKey_append [simp]:
  "is_data_prefix p \<Longrightarrow> ParseDbKey unser (GetKeyPrefix p @ s) p = map_option Some (unser s)"
  by (simp add: ParseDbKey_def)

end
