(* ===== verification/Db_Keys.thy ===== *)
theory Db_Keys
  imports Db_Conf
begin

text \<open>
  What the key layout of \<open>dbconf.h\<close> guarantees: a database key parses back to the element it
  was generated from under its own prefix and under no other, the order of the keys of one
  prefix is the order of the serialised elements, and a \<open>CDBTailKey\<close> round trips.
\<close>

lemma list_less_append [simp]: "(xs @ ys < xs @ zs) = (ys < (zs :: 'a::linorder list))"
  by (induction xs) simp_all

lemma StartWith_iff_prefix: "StartWith k pre \<longleftrightarrow> prefix (tail_key pre) (tail_key k)"
  unfolding StartWith_def prefix_def by (metis append_eq_conv_conj append_take_drop_id)

lemma TailKey_roundtrip:
  "CDBTailKey_make n s = Some k \<Longrightarrow> TailKey_Unserialize n (TailKey_Serialize k) = Some k"
  by (auto simp: CDBTailKey_make_def TailKey_Unserialize_def TailKey_Serialize_def split: if_splits)

text \<open>The keys that start with a byte string are an interval of the key order.\<close>

lemma prefix_interval:
  fixes a b c p :: "'a::linorder list"
  shows "prefix p a \<Longrightarrow> prefix p c \<Longrightarrow> a \<le> b \<Longrightarrow> b \<le> c \<Longrightarrow> prefix p b"
proof (induction p arbitrary: a b c)
  case (Cons x p)
  obtain a' c' where ac: "a = x # a'" "c = x # c'" "prefix p a'" "prefix p c'"
    using Cons.prems by (auto simp: prefix_def)
  obtain y b' where b: "b = y # b'"
    using Cons.prems(3) ac by (cases b) auto
  have y: "y = x"
    using Cons.prems(3,4) ac b by auto
  with Cons.prems(3,4) ac b have "a' \<le> b'" "b' \<le> c'"
    by auto
  from Cons.IH [OF ac(3,4) this] show ?case
    by (simp add: b y)
qed simp

text \<open>
  Claim C13: a database key written under a prefix parses back, under that prefix, to the
  element it was generated from, and is refused under every other data prefix, whatever type
  the other prefix reads: no two tables of the database share a key.
\<close>

theorem db_key_codec:
  assumes "is_data_prefix p" and "\<And>k. unser (ser k) = Some k"
  shows "\<exists>s. GenDbKey ser p k = Some s \<and> ParseDbKey unser s p = Some (Some k) \<and>
    (\<forall>q. is_data_prefix q \<and> q \<noteq> p \<longrightarrow> ParseDbKey (unser' :: string \<Rightarrow> 'b option) s q = Some None)"
proof -
  have "ParseDbKey unser' (GetKeyPrefix p @ ser k) q = Some None"
    if q: "is_data_prefix q" "q \<noteq> p" for q
    using prefix_free [of q p "[]" "ser k"] q assms(1) by (auto simp: ParseDbKey_def Let_def)
  with assms show ?thesis by simp
qed

theorem db_key_codec_witness:
  "\<exists>s. GenDbKey (\<lambda>s. s) CDP ''id7'' = Some s \<and> ParseDbKey Some s CDP = Some (Some ''id7'') \<and>
     ParseDbKey (\<lambda>s. Some (length s)) s CDP_INR = Some None"
  using db_key_codec [of CDP Some "\<lambda>s. s" "''id7''" "\<lambda>s. Some (length s)"]
  by (auto simp: is_data_prefix_def dest: spec [of _ CDP_INR])

text \<open>
  Database keys of one prefix are ordered as the serialisations of their elements,
  and any database key between two keys with a common prefix has that prefix, so a range scan
  from a prefix stays within it until it has passed all its keys.
\<close>

theorem db_key_order:
  assumes "GenDbKey ser p a = Some s" and "GenDbKey ser p b = Some t"
  shows "(s < t \<longleftrightarrow> ser a < ser b) \<and> (s \<le> u \<and> u \<le> t \<longrightarrow> prefix (GetKeyPrefix p) u)"
proof -
  have st: "s = GetKeyPrefix p @ ser a" "t = GetKeyPrefix p @ ser b"
    using assms by (auto simp: GenDbKey_def split: if_splits)
  show ?thesis
    using prefix_interval [of "GetKeyPrefix p" s t u] by (simp add: st)
qed

theorem db_key_order_witness: "prefix ''cid'' (''cidb'' :: string)"
  using db_key_order [of "\<lambda>s. s" CDP "''a''" "''cida''" "''c''" "''cidc''" "''cidb''"]
  by (simp add: GenDbKey_def GetKeyPrefix_def)

end
