(* ===== verification/Op_Log.thy ===== *)
theory Op_Log
  imports Db_Conf
begin

text \<open>
  \<open>leveldbwrapper.h\<close> and \<open>leveldbwrapper.cpp\<close>: the LevelDB wrapper with its write
  batches and its error handling, and the operation logs kept for undo; \<open>CDBAccess\<close> of
  \<open>dbaccess.h\<close>.  The vendored LevelDB library is represented by its documented contract:
  the contents are an ordered map from byte strings to byte strings, \<open>Get\<close> answers with
  a status, \<open>Write\<close> applies a batch in order and atomically, an iterator walks the
  snapshot taken at its creation in key order.  Read and write faults of the store are
  part of its state, so that every error branch of the wrapper is a branch of the model.
\<close>

section \<open>The store\<close>

datatype Status = OK | NotFound | Corruption | IOError | OtherStatus

record leveldb =
  ldb_data :: "(string, string) std_map"
  ldb_read_fault :: "string \<Rightarrow> Status option"
  ldb_write_fault :: "Status option"

definition ldb_Get :: "leveldb \<Rightarrow> string \<Rightarrow> Status \<times> string" where
  "ldb_Get db key =
     (case ldb_read_fault db key of
        Some st \<Rightarrow> (st, [])
      | None \<Rightarrow> (case sm_find (ldb_data db) key of Some s \<Rightarrow> (OK, s) | None \<Rightarrow> (NotFound, [])))"

datatype batch_op = Put string string | Delete string

type_synonym IneryLevelDBBatch = "batch_op list"

fun apply_op :: "batch_op \<Rightarrow> (string, string) std_map \<Rightarrow> (string, string) std_map" where
  "apply_op (Put k v) m = sm_set k v m"
| "apply_op (Delete k) m = sm_erase k m"

definition apply_batch :: "IneryLevelDBBatch \<Rightarrow> (string, string) std_map \<Rightarrow> (string, string) std_map" where
  "apply_batch b m = fold apply_op b m"

definition ldb_Write :: "leveldb \<Rightarrow> IneryLevelDBBatch \<Rightarrow> Status \<times> leveldb" where
  "ldb_Write db b =
     (case ldb_write_fault db of
        Some st \<Rightarrow> (st, db)
      | None \<Rightarrow> (OK, db\<lparr>ldb_data := apply_batch b (ldb_data db)\<rparr>))"

section \<open>The wrapper\<close>

text \<open>\<open>ThrowError\<close>: the message of the exception thrown, \<open>None\<close> when it returns.\<close>

definition ThrowError :: "Status \<Rightarrow> string option" where
  "ThrowError status =
     (if status = OK then None
      else if status = Corruption then Some ''Database corrupted''
      else if status = IOError then Some ''Database I/O error''
      else if status = NotFound then Some ''Database entry missing''
      else Some ''Unknown database error'')"

definition Batch_Write :: "('v \<Rightarrow> string) \<Rightarrow> IneryLevelDBBatch \<Rightarrow> string \<Rightarrow> 'v \<Rightarrow> IneryLevelDBBatch" where
  "Batch_Write ser b key value = b @ [Put key (ser value)]"

definition Batch_Erase :: "IneryLevelDBBatch \<Rightarrow> string \<Rightarrow> IneryLevelDBBatch" where
  "Batch_Erase b key = b @ [Delete key]"

text \<open>
  \<open>Read\<close>: the outer option is the exception of \<open>ThrowError\<close>, the inner one the result
  \<open>false\<close> (no entry, or a value that does not deserialise).
\<close>

definition Wrapper_Read :: "(string \<Rightarrow> 'v option) \<Rightarrow> leveldb \<Rightarrow> string \<Rightarrow> 'v option option" where
  "Wrapper_Read unser db key =
     (case ldb_Get db key of (status, strValue) \<Rightarrow>
        if status \<noteq> OK then
          if status = NotFound then Some None
          else case ThrowError status of Some _ \<Rightarrow> None | None \<Rightarrow> Some (unser strValue)
        else Some (unser strValue))"

definition Wrapper_Exists :: "leveldb \<Rightarrow> string \<Rightarrow> bool option" where
  "Wrapper_Exists db key =
     (case ldb_Get db key of (status, _) \<Rightarrow>
        if status \<noteq> OK then
          if status = NotFound then Some False
          else case ThrowError status of Some _ \<Rightarrow> None | None \<Rightarrow> Some True
        else Some True)"

definition Wrapper_WriteBatch :: "leveldb \<Rightarrow> IneryLevelDBBatch \<Rightarrow> leveldb option" where
  "Wrapper_WriteBatch db b =
     (case ldb_Write db b of (status, db') \<Rightarrow>
        case ThrowError status of Some _ \<Rightarrow> None | None \<Rightarrow> Some db')"

definition Wrapper_Write :: "('v \<Rightarrow> string) \<Rightarrow> leveldb \<Rightarrow> string \<Rightarrow> 'v \<Rightarrow> leveldb option" where
  "Wrapper_Write ser db key value = Wrapper_WriteBatch db (Batch_Write ser [] key value)"

definition Wrapper_Erase :: "leveldb \<Rightarrow> string \<Rightarrow> leveldb option" where
  "Wrapper_Erase db key = Wrapper_WriteBatch db (Batch_Erase [] key)"

definition Wrapper_Sync :: "leveldb \<Rightarrow> leveldb option" where
  "Wrapper_Sync db = Wrapper_WriteBatch db []"

text \<open>\<open>NewIterator\<close>: the entries of the snapshot; \<open>GetDbCount\<close> walks them.\<close>

definition NewIterator :: "leveldb \<Rightarrow> (string \<times> string) list" where
  "NewIterator db = sm_items (ldb_data db)"

fun count_loop :: "(string \<times> string) list \<Rightarrow> int \<Rightarrow> int" where
  "count_loop [] ret = ret"
| "count_loop (_ # cursor) ret = count_loop cursor (ret + 1)"

definition GetDbCount :: "leveldb \<Rightarrow> int" where
  "GetDbCount db = count_loop (NewIterator db) 0"

section \<open>Database access\<close>

record CDBAccess =
  dbNameType :: DBNameType
  ldb :: leveldb

definition DbAccess_GetData ::
  "('k \<Rightarrow> string) \<Rightarrow> (string \<Rightarrow> 'v option) \<Rightarrow> CDBAccess \<Rightarrow> PrefixType \<Rightarrow> 'k \<Rightarrow> 'v option option" where
  "DbAccess_GetData ser unser d p key =
     do { keyStr \<leftarrow> GenDbKey ser p key; Wrapper_Read unser (ldb d) keyStr }"

definition DbAccess_GetData1 ::
  "(string \<Rightarrow> 'v option) \<Rightarrow> CDBAccess \<Rightarrow> PrefixType \<Rightarrow> 'v option option" where
  "DbAccess_GetData1 unser d p = Wrapper_Read unser (ldb d) (GetKeyPrefix p)"

definition DbAccess_HasData :: "('k \<Rightarrow> string) \<Rightarrow> CDBAccess \<Rightarrow> PrefixType \<Rightarrow> 'k \<Rightarrow> bool option" where
  "DbAccess_HasData ser d p key =
     do { keyStr \<leftarrow> GenDbKey ser p key; Wrapper_Exists (ldb d) keyStr }"

definition DbAccess_WriteBatch :: "CDBAccess \<Rightarrow> IneryLevelDBBatch \<Rightarrow> CDBAccess option" where
  "DbAccess_WriteBatch d b =
     do { db' \<leftarrow> Wrapper_WriteBatch (ldb d) b; Some (d\<lparr>ldb := db'\<rparr>) }"

definition DbAccess_WriteBatch1 ::
  "('v \<Rightarrow> bool) \<Rightarrow> ('v \<Rightarrow> string) \<Rightarrow> CDBAccess \<Rightarrow> PrefixType \<Rightarrow> 'v \<Rightarrow> CDBAccess option" where
  "DbAccess_WriteBatch1 is_empty ser d p value =
     (let pre = GetKeyPrefix p;
          b = (if is_empty value then Batch_Erase [] pre else Batch_Write ser [] pre value)
      in DbAccess_WriteBatch d b)"

section \<open>Operation logs\<close>

record CDbOpLog =
  log_key :: string
  log_value :: string

definition OpLog_Set :: "('k \<Rightarrow> string) \<Rightarrow> ('v \<Rightarrow> string) \<Rightarrow> 'k \<Rightarrow> 'v \<Rightarrow> CDbOpLog" where
  "OpLog_Set serk serv k v = \<lparr>log_key = serk k, log_value = serv v\<rparr>"

definition OpLog_Set1 :: "('v \<Rightarrow> string) \<Rightarrow> 'v \<Rightarrow> CDbOpLog" where
  "OpLog_Set1 serv v = \<lparr>log_key = [], log_value = serv v\<rparr>"

definition OpLog_Get :: "(string \<Rightarrow> 'k option) \<Rightarrow> (string \<Rightarrow> 'v option) \<Rightarrow> CDbOpLog \<Rightarrow> ('k \<times> 'v) option" where
  "OpLog_Get unserk unserv e =
     do { k \<leftarrow> unserk (log_key e); v \<leftarrow> unserv (log_value e); Some (k, v) }"

definition OpLog_Get1 :: "(string \<Rightarrow> 'v option) \<Rightarrow> CDbOpLog \<Rightarrow> 'v option" where
  "OpLog_Get1 unserv e = unserv (log_value e)"

definition OpLog_less :: "CDbOpLog \<Rightarrow> CDbOpLog \<Rightarrow> bool" where
  "OpLog_less a b \<longleftrightarrow> log_key a < log_key b"

type_synonym CDbOpLogs = "CDbOpLog list"

type_synonym CDBOpLogMap = "(string, CDbOpLogs) std_map"

definition GetDbOpLogsPtr :: "CDBOpLogMap \<Rightarrow> PrefixType \<Rightarrow> CDbOpLogs option option" where
  "GetDbOpLogsPtr m p = (if p = EMPTY then None else Some (sm_find m (GetKeyPrefix p)))"

definition OpLogMap_AddOpLog :: "PrefixType \<Rightarrow> CDbOpLog \<Rightarrow> CDBOpLogMap \<Rightarrow> CDBOpLogMap option" where
  "OpLogMap_AddOpLog p e m =
     (if p = EMPTY then None
      else let pre = GetKeyPrefix p;
               logs = (case sm_find m pre of Some l \<Rightarrow> l | None \<Rightarrow> [])
           in Some (sm_set pre (logs @ [e]) m))"

definition OpLogMap_Clear :: "CDBOpLogMap \<Rightarrow> CDBOpLogMap" where
  "OpLogMap_Clear m = sm_empty"

section \<open>Properties of the wrapper\<close>

definition ldb_healthy :: "leveldb \<Rightarrow> bool" where
  "ldb_healthy db \<longleftrightarrow> (\<forall>k. ldb_read_fault db k = None) \<and> ldb_write_fault db = None"

lemma Read_healthy:
  "ldb_healthy db \<Longrightarrow> Wrapper_Read unser db key =
     Some (case sm_find (ldb_data db) key of Some s \<Rightarrow> unser s | None \<Rightarrow> None)"
  by (auto simp: Wrapper_Read_def ldb_Get_def ldb_healthy_def split: option.splits)

lemma Exists_healthy:
  "ldb_healthy db \<Longrightarrow> Wrapper_Exists db key = Some (sm_find (ldb_data db) key \<noteq> None)"
  by (auto simp: Wrapper_Exists_def ldb_Get_def ldb_healthy_def split: option.splits)

lemma WriteBatch_healthy:
  "ldb_healthy db \<Longrightarrow> Wrapper_WriteBatch db b = Some (db\<lparr>ldb_data := apply_batch b (ldb_data db)\<rparr>)"
  by (auto simp: Wrapper_WriteBatch_def ldb_Write_def ldb_healthy_def ThrowError_def)

lemma healthy_data_upd [simp]: "ldb_healthy (db\<lparr>ldb_data := m\<rparr>) = ldb_healthy db"
  by (simp add: ldb_healthy_def)

lemma count_loop_eq: "count_loop xs n = n + int (length xs)"
  by (induction xs n rule: count_loop.induct) auto

text \<open>
  What a batch does to one key: the last operation on the key decides.
\<close>

fun op_key :: "batch_op \<Rightarrow> string" where
  "op_key (Put k v) = k"
| "op_key (Delete k) = k"

fun op_effect :: "batch_op \<Rightarrow> string option" where
  "op_effect (Put k v) = Some v"
| "op_effect (Delete k) = None"

lemma find_apply_op:
  "sm_find (apply_op x m) k = (if op_key x = k then op_effect x else sm_find m k)"
  by (cases x) auto

lemma find_apply_batch_other:
  "k \<notin> op_key ` set b \<Longrightarrow> sm_find (apply_batch b m) k = sm_find m k"
  unfolding apply_batch_def by (induction b arbitrary: m) (auto simp: find_apply_op)

lemma find_apply_batch_in:
  "distinct (map op_key b) \<Longrightarrow> x \<in> set b \<Longrightarrow> sm_find (apply_batch b m) (op_key x) = op_effect x"
proof (induction b arbitrary: m)
  case (Cons y b)
  show ?case
  proof (cases "x = y")
    case True
    then show ?thesis
      using Cons.prems(1) find_apply_batch_other [of "op_key x" b "apply_op y m"]
      by (simp add: apply_batch_def find_apply_op)
  next
    case False
    then show ?thesis
      using Cons by (simp add: apply_batch_def)
  qed
qed simp

lemma AddOpLog_data [simp]:
  "is_data_prefix p \<Longrightarrow> \<exists>m'. OpLogMap_AddOpLog p e m = Some m'"
  by (auto simp: OpLogMap_AddOpLog_def is_data_prefix_def Let_def)

end
