(* ===== verification/Interfaces.thy ===== *)
theory Interfaces
  imports Prelude
begin

text \<open>
  The contracts between the components, as locales.  \<open>kv_store\<close> is what the database
  classes rely on when they call a cache; \<open>write_back\<close> is what a layer promises when it
  is flushed into the layer below; \<open>undo_log\<close> is what the block undo relies on: replaying
  backwards the entries an operation logged restores what could be observed before it.
  The caches interpret them in their own theories.
\<close>

section \<open>A key-value store\<close>

locale kv_store =
  fixes inv :: "'s \<Rightarrow> bool"
    and look :: "'s \<Rightarrow> 'k \<Rightarrow> 'v option"
    and get :: "'k \<Rightarrow> 's \<Rightarrow> ('s \<times> 'v option) option"
    and has :: "'k \<Rightarrow> 's \<Rightarrow> ('s \<times> bool) option"
    and put :: "'k \<Rightarrow> 'v \<Rightarrow> 's \<Rightarrow> (bool \<times> 's) option"
    and del :: "'k \<Rightarrow> 's \<Rightarrow> (bool \<times> 's) option"
    and bad_key :: "'k \<Rightarrow> bool"
    and bad_val :: "'v \<Rightarrow> bool"
  assumes look_bad: "inv s \<Longrightarrow> bad_key k \<Longrightarrow> look s k = None"
    and get_law: "inv s \<Longrightarrow> \<exists>s'. get k s = Some (s', look s k) \<and> inv s' \<and> look s' = look s"
    and has_law: "inv s \<Longrightarrow> \<exists>s'. has k s = Some (s', look s k \<noteq> None) \<and> inv s' \<and> look s' = look s"
    and put_law: "inv s \<Longrightarrow> \<exists>s'. put k v s = Some (\<not> bad_key k, s') \<and> inv s' \<and>
       look s' = (if bad_key k then look s else (look s)(k := (if bad_val v then None else Some v)))"
    and del_law: "inv s \<Longrightarrow> \<exists>s'. del k s = Some (\<not> bad_key k, s') \<and> inv s' \<and>
       look s' = (look s)(k := None)"
begin

text \<open>Reading after a write, at the same key and at another one.\<close>

lemma put_get:
  assumes "inv s" and "put k v s = Some (r, s1)"
  shows "\<exists>s2. get k' s1 = Some (s2,
      if k' = k \<and> \<not> bad_key k then (if bad_val v then None else Some v) else look s k') \<and>
      inv s2 \<and> look s2 = look s1"
proof -
  have "inv s1" and l: "look s1 = (if bad_key k then look s
      else (look s)(k := (if bad_val v then None else Some v)))"
    using put_law [OF assms(1), of k v] assms(2) by auto
  then show ?thesis
    using get_law [of s1 k'] by auto
qed

lemma del_get:
  assumes "inv s" and "del k s = Some (r, s1)"
  shows "\<exists>s2. get k' s1 = Some (s2, if k' = k then None else look s k') \<and> inv s2 \<and> look s2 = look s1"
proof -
  have "inv s1" and l: "look s1 = (look s)(k := None)"
    using del_law [OF assms(1), of k] assms(2) by auto
  then show ?thesis
    using get_law [of s1 k'] by auto
qed

text \<open>A write that is erased again leaves no trace.\<close>

lemma put_del:
  assumes "inv s" and "look s k = None"
  shows "\<exists>s1 r1 s2 r2. put k v s = Some (r1, s1) \<and> del k s1 = Some (r2, s2) \<and> inv s2 \<and> look s2 = look s"
proof -
  obtain s1 where s1: "put k v s = Some (\<not> bad_key k, s1)" "inv s1"
      "look s1 = (if bad_key k then look s else (look s)(k := (if bad_val v then None else Some v)))"
    using put_law [OF assms(1)] by blast
  obtain s2 where "del k s1 = Some (\<not> bad_key k, s2)" "inv s2" "look s2 = (look s1)(k := None)"
    using del_law [OF s1(2)] by blast
  with s1 assms(2) show ?thesis
    by (auto simp: fun_upd_idem)
qed

lemma put_total: "inv s \<Longrightarrow> \<exists>r s'. put k v s = Some (r, s') \<and> inv s'"
  using put_law by blast

end

section \<open>A write-back layer\<close>

locale write_back =
  fixes inv :: "'c \<Rightarrow> 'b \<Rightarrow> bool"
    and upper :: "'c \<Rightarrow> 'b \<Rightarrow> 'o"
    and lower :: "'b \<Rightarrow> 'o"
    and flush :: "'c \<Rightarrow> 'b \<Rightarrow> ('c \<times> 'b) option"
    and clean :: "'c \<Rightarrow> bool"
  assumes flush_law: "inv c b \<Longrightarrow>
      \<exists>c' b'. flush c b = Some (c', b') \<and> inv c' b' \<and> clean c' \<and> lower b' = upper c b"
    and clean_law: "inv c b \<Longrightarrow> clean c \<Longrightarrow> upper c b = lower b"
begin

text \<open>
  A flush publishes exactly what the layer showed, shows the same afterwards, and a second
  flush changes nothing more.
\<close>

lemma flush_transparent:
  assumes "inv c b" and "flush c b = Some (c', b')"
  shows "upper c' b' = upper c b" "lower b' = upper c b"
  using flush_law [OF assms(1)] clean_law assms(2) by auto

lemma flush_idem:
  assumes "inv c b" and "flush c b = Some (c', b')"
  shows "\<exists>c'' b''. flush c' b' = Some (c'', b'') \<and> lower b'' = lower b'"
proof -
  have "inv c' b'" "clean c'"
    using flush_law [OF assms(1)] assms(2) by auto
  then show ?thesis
    using flush_law [of c' b'] clean_law [of c' b'] by auto
qed

end

section \<open>Undo logs\<close>

text \<open>Running operations that each return the entries they logged.\<close>

fun run_logged :: "('op \<Rightarrow> 's \<Rightarrow> ('s \<times> 'e list) option) \<Rightarrow> 'op list \<Rightarrow> 's \<Rightarrow> ('s \<times> 'e list) option" where
  "run_logged step [] s = Some (s, [])"
| "run_logged step (x # xs) s =
     (case step x s of
        None \<Rightarrow> None
      | Some (s1, es) \<Rightarrow>
          (case run_logged step xs s1 of None \<Rightarrow> None | Some (s2, fs) \<Rightarrow> Some (s2, es @ fs)))"

locale undo_log =
  fixes inv :: "'s \<Rightarrow> bool"
    and obs :: "'s \<Rightarrow> 'o"
    and step :: "'op \<Rightarrow> 's \<Rightarrow> ('s \<times> 'e list) option"
    and undo :: "'e \<Rightarrow> 's \<Rightarrow> 's option"
  assumes step_law: "inv s \<Longrightarrow> \<exists>s' es. step x s = Some (s', es) \<and> inv s'"
    and undo_law: "inv s \<Longrightarrow> step x s = Some (s', es) \<Longrightarrow> inv t \<Longrightarrow> obs t = obs s' \<Longrightarrow>
      \<exists>t'. fold_opt undo (rev es) t = Some t' \<and> inv t' \<and> obs t' = obs s"
begin

lemma run_total: "inv s \<Longrightarrow> \<exists>s' es. run_logged step xs s = Some (s', es) \<and> inv s'"
proof (induction xs arbitrary: s)
  case (Cons x xs)
  obtain s1 es where s1: "step x s = Some (s1, es)" "inv s1"
    using step_law [OF Cons.prems] by blast
  obtain s2 fs where "run_logged step xs s1 = Some (s2, fs)" "inv s2"
    using Cons.IH [OF s1(2)] by blast
  with s1 show ?case by simp
qed simp

text \<open>
  Undoing the whole log backwards restores the observation, from any state that looks like
  the final one.
\<close>

lemma run_undo:
  assumes "inv s" and "run_logged step xs s = Some (s', es)" and "inv t" and "obs t = obs s'"
  shows "\<exists>t'. fold_opt undo (rev es) t = Some t' \<and> inv t' \<and> obs t' = obs s"
  using assms
proof (induction xs arbitrary: s s' es t)
  case (Cons x xs)
  obtain s1 e1 where s1: "step x s = Some (s1, e1)" "inv s1"
    using step_law [OF Cons.prems(1)] by blast
  obtain s2 e2 where s2: "run_logged step xs s1 = Some (s2, e2)"
    using run_total [OF s1(2)] by blast
  have es: "s' = s2" "es = e1 @ e2"
    using Cons.prems(2) s1 s2 by auto
  obtain t1 where t1: "fold_opt undo (rev e2) t = Some t1" "inv t1" "obs t1 = obs s1"
    using Cons.IH [OF s1(2) s2 Cons.prems(3)] Cons.prems(4) es by auto
  obtain t2 where "fold_opt undo (rev e1) t1 = Some t2" "inv t2" "obs t2 = obs s"
    using undo_law [OF Cons.prems(1) s1(1) t1(2,3)] by blast
  with es t1 show ?case
    by (auto simp: fold_opt_append)
qed auto

end

end
