(* ===== verification/Kv_Cache.thy ===== *)
theory Kv_Cache
  imports Op_Log Interfaces
begin

text \<open>
  \<open>IneryCompositeKVCache\<close> of \<open>dbaccess.h\<close>: a write-back cache over another cache or over
  a database.  A cache object with everything below it is a value of \<open>kvcache\<close>: it has a
  base cache (\<open>SubCache\<close>), a database (\<open>DbCache\<close>), or neither yet (\<open>FreeCache\<close>).  Reads
  copy what they find into every layer they pass, so they return a new state as well.

  The template arguments and what the code uses of them are the record \<open>kvops\<close>: the
  prefix, the \<open>IsEmpty\<close> and \<open>SetEmpty\<close> functions of \<open>db_util\<close>, serialisation and
  serialised sizes.  \<open>kv_wf\<close> states the documented behaviour of the types' functions
  that the cache relies on.  The pointer \<open>pDbOpLogMap\<close> is an argument: the log it points
  to, or \<open>None\<close> for the null pointer.
\<close>

section \<open>The cache and its template arguments\<close>

record ('k, 'v) kvops =
  prefix_type :: PrefixType
  key_empty :: "'k \<Rightarrow> bool"
  val_empty :: "'v \<Rightarrow> bool"
  empty_val :: 'v
  set_empty :: "'v \<Rightarrow> 'v"
  ser_key :: "'k \<Rightarrow> string"
  unser_key :: "string \<Rightarrow> 'k option"
  ser_val :: "'v \<Rightarrow> string"
  unser_val :: "string \<Rightarrow> 'v option"
  key_size :: "'k \<Rightarrow> uint32"
  val_size :: "'v \<Rightarrow> uint32"

record ('k, 'v) cache_node =
  mapData :: "('k::linorder, 'v) std_map"
  is_calc_size :: bool
  csize :: uint32

datatype ('k, 'v) kvcache =
    FreeCache "('k::linorder, 'v) cache_node"
  | DbCache "('k::linorder, 'v) cache_node"
  | SubCache "('k::linorder, 'v) cache_node" "('k, 'v) kvcache"

fun node_of :: "('k::linorder, 'v) kvcache \<Rightarrow> ('k, 'v) cache_node" where
  "node_of (FreeCache n) = n"
| "node_of (DbCache n) = n"
| "node_of (SubCache n b) = n"

fun with_node :: "('k::linorder, 'v) kvcache \<Rightarrow> ('k, 'v) cache_node \<Rightarrow> ('k, 'v) kvcache" where
  "with_node (FreeCache _) n = FreeCache n"
| "with_node (DbCache _) n = DbCache n"
| "with_node (SubCache _ b) n = SubCache n b"

text \<open>The constructors, \<open>SetBase\<close>, and the accessors of the two pointers.\<close>

definition empty_node :: "bool \<Rightarrow> ('k::linorder, 'v) cache_node" where
  "empty_node calc = \<lparr>mapData = sm_empty, is_calc_size = calc, csize = 0\<rparr>"

definition new_free :: "('k::linorder, 'v) kvcache" where
  "new_free = FreeCache (empty_node False)"

definition new_on_base :: "('k::linorder, 'v) kvcache \<Rightarrow> ('k, 'v) kvcache" where
  "new_on_base base = SubCache (empty_node False) base"

definition new_on_db :: "('k, 'v) kvops \<Rightarrow> CDBAccess \<Rightarrow> ('k::linorder, 'v) kvcache option" where
  "new_on_db T d =
     (if GetDbNameEnumByPrefix (prefix_type T) = Some (dbNameType d)
      then Some (DbCache (empty_node True)) else None)"

fun SetBase :: "('k::linorder, 'v) kvcache \<Rightarrow> ('k, 'v) kvcache \<Rightarrow> ('k, 'v) kvcache option" where
  "SetBase base (DbCache n) = None"
| "SetBase base (FreeCache n) = (if mapData n = sm_empty then Some (SubCache n base) else None)"
| "SetBase base (SubCache n _) = (if mapData n = sm_empty then Some (SubCache n base) else None)"

fun has_db :: "('k::linorder, 'v) kvcache \<Rightarrow> bool" where
  "has_db (FreeCache n) = False"
| "has_db (DbCache n) = True"
| "has_db (SubCache n b) = has_db b"

definition GetCacheSize :: "('k::linorder, 'v) kvcache \<Rightarrow> uint32" where
  "GetCacheSize c = csize (node_of c)"

section \<open>Size accounting\<close>

definition IncDataSize2 ::
  "('k, 'v) kvops \<Rightarrow> 'k \<Rightarrow> 'v \<Rightarrow> ('k::linorder, 'v) cache_node \<Rightarrow> ('k, 'v) cache_node" where
  "IncDataSize2 T k v n =
     (if is_calc_size n then n\<lparr>csize := csize n + key_size T k + val_size T v\<rparr> else n)"

definition IncDataSize1 :: "('k, 'v) kvops \<Rightarrow> 'v \<Rightarrow> ('k::linorder, 'v) cache_node \<Rightarrow> ('k, 'v) cache_node" where
  "IncDataSize1 T v n = (if is_calc_size n then n\<lparr>csize := csize n + val_size T v\<rparr> else n)"

definition DecDataSize :: "('k, 'v) kvops \<Rightarrow> 'v \<Rightarrow> ('k::linorder, 'v) cache_node \<Rightarrow> ('k, 'v) cache_node" where
  "DecDataSize T v n =
     (if is_calc_size n
      then let sz = val_size T v in n\<lparr>csize := (if csize n > sz then csize n - sz else 0)\<rparr>
      else n)"

definition UpdateDataSize ::
  "('k, 'v) kvops \<Rightarrow> 'v \<Rightarrow> 'v \<Rightarrow> ('k::linorder, 'v) cache_node \<Rightarrow> ('k, 'v) cache_node" where
  "UpdateDataSize T old new n =
     (if is_calc_size n
      then let s = csize n + val_size T new; oldSz = val_size T old
           in n\<lparr>csize := (if s > oldSz then s - oldSz else 0)\<rparr>
      else n)"

section \<open>Operations\<close>

text \<open>\<open>AddDataToMap\<close> emplaces and throws when the key is already there.\<close>

definition AddDataToMap ::
  "('k, 'v) kvops \<Rightarrow> 'k \<Rightarrow> 'v \<Rightarrow> ('k::linorder, 'v) cache_node \<Rightarrow> ('k, 'v) cache_node option" where
  "AddDataToMap T k v n =
     (case sm_find (mapData n) k of
        Some _ \<Rightarrow> None
      | None \<Rightarrow> Some (IncDataSize2 T k v (n\<lparr>mapData := sm_set k v (mapData n)\<rparr>)))"

text \<open>\<open>GetDataIt\<close>: the new state of the layers and the value at the iterator, if any.\<close>

fun GetDataIt ::
  "('k, 'v) kvops \<Rightarrow> CDBAccess \<Rightarrow> 'k \<Rightarrow> ('k::linorder, 'v) kvcache \<Rightarrow>
     (('k, 'v) kvcache \<times> 'v option) option" where
  "GetDataIt T d k (FreeCache n) = Some (FreeCache n, sm_find (mapData n) k)"
| "GetDataIt T d k (DbCache n) =
     (case sm_find (mapData n) k of
        Some v \<Rightarrow> Some (DbCache n, Some v)
      | None \<Rightarrow>
          do { r \<leftarrow> DbAccess_GetData (ser_key T) (unser_val T) d (prefix_type T) k;
               case r of
                 None \<Rightarrow> Some (DbCache n, None)
               | Some v \<Rightarrow> do { n' \<leftarrow> AddDataToMap T k v n; Some (DbCache n', Some v) } })"
| "GetDataIt T d k (SubCache n b) =
     (case sm_find (mapData n) k of
        Some v \<Rightarrow> Some (SubCache n b, Some v)
      | None \<Rightarrow>
          do { (b', r) \<leftarrow> GetDataIt T d k b;
               case r of
                 None \<Rightarrow> Some (SubCache n b', None)
               | Some v \<Rightarrow> do { n' \<leftarrow> AddDataToMap T k v n; Some (SubCache n' b', Some v) } })"

definition AddOpLog ::
  "('k, 'v) kvops \<Rightarrow> 'k \<Rightarrow> 'v \<Rightarrow> CDBOpLogMap option \<Rightarrow> CDBOpLogMap option option" where
  "AddOpLog T k old lg =
     (case lg of
        None \<Rightarrow> Some None
      | Some m \<Rightarrow> map_option Some
          (OpLogMap_AddOpLog (prefix_type T) (OpLog_Set (ser_key T) (ser_val T) k old) m))"

definition GetData ::
  "('k, 'v) kvops \<Rightarrow> CDBAccess \<Rightarrow> 'k \<Rightarrow> ('k::linorder, 'v) kvcache \<Rightarrow>
     (('k, 'v) kvcache \<times> 'v option) option" where
  "GetData T d k c =
     (if key_empty T k then Some (c, None)
      else do { (c', r) \<leftarrow> GetDataIt T d k c;
                case r of
                  Some v \<Rightarrow> if \<not> val_empty T v then Some (c', Some v) else Some (c', None)
                | None \<Rightarrow> Some (c', None) })"

definition HasData ::
  "('k, 'v) kvops \<Rightarrow> CDBAccess \<Rightarrow> 'k \<Rightarrow> ('k::linorder, 'v) kvcache \<Rightarrow>
     (('k, 'v) kvcache \<times> bool) option" where
  "HasData T d k c =
     (if key_empty T k then Some (c, False)
      else do { (c', r) \<leftarrow> GetDataIt T d k c;
                Some (c', (case r of Some v \<Rightarrow> \<not> val_empty T v | None \<Rightarrow> False)) })"

definition SetData ::
  "('k, 'v) kvops \<Rightarrow> CDBAccess \<Rightarrow> 'k \<Rightarrow> 'v \<Rightarrow> ('k::linorder, 'v) kvcache \<Rightarrow> CDBOpLogMap option \<Rightarrow>
     (bool \<times> ('k, 'v) kvcache \<times> CDBOpLogMap option) option" where
  "SetData T d k v c lg =
     (if key_empty T k then Some (False, c, lg)
      else do { (c1, r) \<leftarrow> GetDataIt T d k c;
                case r of
                  None \<Rightarrow>
                    do { lg' \<leftarrow> AddOpLog T k (empty_val T) lg;
                         n' \<leftarrow> AddDataToMap T k v (node_of c1);
                         Some (True, with_node c1 n', lg') }
                | Some old \<Rightarrow>
                    do { lg' \<leftarrow> AddOpLog T k old lg;
                         let n = UpdateDataSize T old v (node_of c1);
                         Some (True, with_node c1 (n\<lparr>mapData := sm_set k v (mapData n)\<rparr>), lg') } })"

definition EraseData ::
  "('k, 'v) kvops \<Rightarrow> CDBAccess \<Rightarrow> 'k \<Rightarrow> ('k::linorder, 'v) kvcache \<Rightarrow> CDBOpLogMap option \<Rightarrow>
     (bool \<times> ('k, 'v) kvcache \<times> CDBOpLogMap option) option" where
  "EraseData T d k c lg =
     (if key_empty T k then Some (False, c, lg)
      else do { (c1, r) \<leftarrow> GetDataIt T d k c;
                case r of
                  None \<Rightarrow> Some (True, c1, lg)
                | Some old \<Rightarrow>
                    if val_empty T old then Some (True, c1, lg)
                    else do { let n = DecDataSize T old (node_of c1);
                              lg' \<leftarrow> AddOpLog T k old lg;
                              let new = set_empty T old;
                              let n1 = IncDataSize1 T new (n\<lparr>mapData := sm_set k new (mapData n)\<rparr>);
                              Some (True, with_node c1 n1, lg') } })"

definition Clear_node :: "('k::linorder, 'v) cache_node \<Rightarrow> ('k, 'v) cache_node" where
  "Clear_node n = n\<lparr>mapData := sm_empty, csize := 0\<rparr>"

definition Clear :: "('k::linorder, 'v) kvcache \<Rightarrow> ('k, 'v) kvcache" where
  "Clear c = with_node c (Clear_node (node_of c))"

definition SetDataToSelf ::
  "('k, 'v) kvops \<Rightarrow> 'k \<Rightarrow> 'v \<Rightarrow> ('k::linorder, 'v) kvcache \<Rightarrow> ('k, 'v) kvcache option" where
  "SetDataToSelf T k v c =
     (case sm_find (mapData (node_of c)) k of
        Some old \<Rightarrow>
          (let n = UpdateDataSize T old v (node_of c)
           in Some (with_node c (n\<lparr>mapData := sm_set k v (mapData n)\<rparr>)))
      | None \<Rightarrow> do { n' \<leftarrow> AddDataToMap T k v (node_of c); Some (with_node c n') })"

text \<open>The batch \<open>Flush\<close> writes to the database.\<close>

fun flush_batch ::
  "('k, 'v) kvops \<Rightarrow> ('k \<times> 'v) list \<Rightarrow> IneryLevelDBBatch \<Rightarrow> IneryLevelDBBatch option" where
  "flush_batch T [] b = Some b"
| "flush_batch T ((k, v) # xs) b =
     do { key \<leftarrow> GenDbKey (ser_key T) (prefix_type T) k;
          flush_batch T xs (if val_empty T v then Batch_Erase b key
                            else Batch_Write (ser_val T) b key v) }"

fun Flush ::
  "('k, 'v) kvops \<Rightarrow> CDBAccess \<Rightarrow> ('k::linorder, 'v) kvcache \<Rightarrow>
     (CDBAccess \<times> ('k, 'v) kvcache) option" where
  "Flush T d (FreeCache n) = None"
| "Flush T d (SubCache n b) =
     do { b' \<leftarrow> fold_opt (\<lambda>(k, v). SetDataToSelf T k v) (sm_items (mapData n)) b;
          Some (d, SubCache (Clear_node n) b') }"
| "Flush T d (DbCache n) =
     do { b \<leftarrow> flush_batch T (sm_items (mapData n)) [];
          d' \<leftarrow> DbAccess_WriteBatch d b;
          Some (d', DbCache (Clear_node n)) }"

definition UndoData ::
  "('k, 'v) kvops \<Rightarrow> CDbOpLog \<Rightarrow> ('k::linorder, 'v) kvcache \<Rightarrow> ('k, 'v) kvcache option" where
  "UndoData T e c =
     do { (k, v) \<leftarrow> OpLog_Get (unser_key T) (unser_val T) e; SetDataToSelf T k v c }"

definition UndoDataList ::
  "('k, 'v) kvops \<Rightarrow> CDbOpLogs \<Rightarrow> ('k::linorder, 'v) kvcache \<Rightarrow> ('k, 'v) kvcache option" where
  "UndoDataList T logs c = fold_opt (UndoData T) (rev logs) c"

section \<open>What the cache promises\<close>

text \<open>
  Hypotheses on the template arguments: the empty values are empty and serialisation
  round trips.  \<open>access_ok\<close> adds that the database answers without faults.
\<close>

definition kv_wf :: "('k, 'v) kvops \<Rightarrow> bool" where
  "kv_wf T \<longleftrightarrow> is_data_prefix (prefix_type T) \<and> val_empty T (empty_val T) \<and>
     (\<forall>v. val_empty T (set_empty T v)) \<and>
     (\<forall>k. unser_key T (ser_key T k) = Some k) \<and> (\<forall>v. unser_val T (ser_val T v) = Some v)"

definition access_ok :: "('k, 'v) kvops \<Rightarrow> CDBAccess \<Rightarrow> bool" where
  "access_ok T d \<longleftrightarrow> kv_wf T \<and> ldb_healthy (ldb d)"

lemma kv_wfD [simp]:
  assumes "kv_wf T"
  shows "is_data_prefix (prefix_type T)" "val_empty T (empty_val T)"
    "val_empty T (set_empty T v)" "unser_key T (ser_key T k) = Some k"
    "unser_val T (ser_val T v) = Some v"
  using assms by (auto simp: kv_wf_def)

lemma access_okD [simp]:
  assumes "access_ok T d"
  shows "kv_wf T" "ldb_healthy (ldb d)"
  using assms by (auto simp: access_ok_def)

lemma ser_key_inj: "kv_wf T \<Longrightarrow> ser_key T k = ser_key T k' \<longleftrightarrow> k = k'"
  by (metis kv_wfD(4) option.inject)

text \<open>The entry a lookup finds, and the value a client sees.\<close>

definition db_val :: "('k, 'v) kvops \<Rightarrow> CDBAccess \<Rightarrow> 'k \<Rightarrow> 'v option" where
  "db_val T d k =
     (case sm_find (ldb_data (ldb d)) (GetKeyPrefix (prefix_type T) @ ser_key T k) of
        Some s \<Rightarrow> unser_val T s | None \<Rightarrow> None)"

fun raw :: "('k, 'v) kvops \<Rightarrow> CDBAccess \<Rightarrow> ('k::linorder, 'v) kvcache \<Rightarrow> 'k \<Rightarrow> 'v option" where
  "raw T d (FreeCache n) k = sm_find (mapData n) k"
| "raw T d (DbCache n) k =
     (case sm_find (mapData n) k of Some v \<Rightarrow> Some v | None \<Rightarrow> db_val T d k)"
| "raw T d (SubCache n b) k =
     (case sm_find (mapData n) k of Some v \<Rightarrow> Some v | None \<Rightarrow> raw T d b k)"

definition visible :: "('k, 'v) kvops \<Rightarrow> ('k \<Rightarrow> 'v option) \<Rightarrow> 'k \<Rightarrow> 'v option" where
  "visible T f k =
     (if key_empty T k then None
      else case f k of None \<Rightarrow> None | Some v \<Rightarrow> if val_empty T v then None else Some v)"

definition view :: "('k, 'v) kvops \<Rightarrow> CDBAccess \<Rightarrow> ('k::linorder, 'v) kvcache \<Rightarrow> 'k \<Rightarrow> 'v option" where
  "view T d c = visible T (raw T d c)"

lemma visible_upd:
  "visible T (f(k \<mapsto> v)) =
     (if key_empty T k then visible T f
      else (visible T f)(k := (if val_empty T v then None else Some v)))"
  by (auto simp: visible_def fun_eq_iff)

lemma raw_node: "sm_find (mapData (node_of c)) k = Some v \<Longrightarrow> raw T d c k = Some v"
  by (cases c) auto

lemma node_of_with_node [simp]: "node_of (with_node c n) = n"
  by (cases c) auto

lemma with_node_same [simp]: "with_node c (node_of c) = c"
  by (cases c) auto

lemma raw_with_node_upd:
  assumes "mapData n = sm_set k v (mapData (node_of c))"
  shows "raw T d (with_node c n) = (raw T d c)(k \<mapsto> v)"
  using assms by (cases c) (auto simp: fun_eq_iff)

text \<open>The size functions touch the size only.\<close>

lemma size_frame [simp]:
  "mapData (IncDataSize2 T k v n) = mapData n"
  "mapData (IncDataSize1 T v n) = mapData n"
  "mapData (DecDataSize T v n) = mapData n"
  "mapData (UpdateDataSize T v w n) = mapData n"
  "is_calc_size (IncDataSize2 T k v n) = is_calc_size n"
  "is_calc_size (IncDataSize1 T v n) = is_calc_size n"
  "is_calc_size (DecDataSize T v n) = is_calc_size n"
  "is_calc_size (UpdateDataSize T v w n) = is_calc_size n"
  by (auto simp: IncDataSize2_def IncDataSize1_def DecDataSize_def UpdateDataSize_def Let_def)

lemma AddDataToMap_absent:
  "sm_find (mapData n) k = None \<Longrightarrow>
     \<exists>n'. AddDataToMap T k v n = Some n' \<and> mapData n' = sm_set k v (mapData n) \<and>
          is_calc_size n' = is_calc_size n"
  by (auto simp: AddDataToMap_def)

lemma DbAccess_GetData_ok:
  "access_ok T d \<Longrightarrow>
     DbAccess_GetData (ser_key T) (unser_val T) d (prefix_type T) k = Some (db_val T d k)"
  by (simp add: DbAccess_GetData_def Read_healthy db_val_def)

text \<open>A lookup finds \<open>raw\<close>, leaves the top layer with it, and changes no lookup.\<close>

lemma GetDataIt_ok:
  assumes "access_ok T d"
  shows "\<exists>c'. GetDataIt T d k c = Some (c', raw T d c k) \<and> raw T d c' = raw T d c \<and>
           sm_find (mapData (node_of c')) k = raw T d c k \<and> has_db c' = has_db c"
proof (induction c)
  case (FreeCache n)
  then show ?case by auto
next
  case (DbCache n)
  show ?case
  proof (cases "sm_find (mapData n) k")
    case None
    then obtain n' where
      "db_val T d k = Some v \<Longrightarrow> AddDataToMap T k v n = Some n' \<and>
         mapData n' = sm_set k v (mapData n)" for v
      using AddDataToMap_absent [of n k] by (cases "db_val T d k") fastforce+
    with None assms show ?thesis
      by (cases "db_val T d k") (auto simp: DbAccess_GetData_ok intro!: ext split: option.split)
  qed (auto intro!: ext split: option.split)
next
  case (SubCache n b)
  then obtain b' where b': "GetDataIt T d k b = Some (b', raw T d b k)" "raw T d b' = raw T d b"
      "has_db b' = has_db b"
    by auto
  show ?case
  proof (cases "sm_find (mapData n) k")
    case None
    then obtain n' where
      "raw T d b k = Some v \<Longrightarrow> AddDataToMap T k v n = Some n' \<and>
         mapData n' = sm_set k v (mapData n)" for v
      using AddDataToMap_absent [of n k] by (cases "raw T d b k") fastforce+
    with None b' show ?thesis
      by (cases "raw T d b k") (auto intro!: ext split: option.split)
  qed (auto intro!: ext split: option.split)
qed

text \<open>
  The successful runs as equations: \<open>memo\<close>, \<open>put_cache\<close> and \<open>del_cache\<close> name the cache an
  operation returns, \<open>logged\<close> the log with one more entry.
\<close>

definition memo :: "('k, 'v) kvops \<Rightarrow> CDBAccess \<Rightarrow> 'k \<Rightarrow> ('k::linorder, 'v) kvcache \<Rightarrow> ('k, 'v) kvcache" where
  "memo T d k c = fst (the (GetDataIt T d k c))"

definition put_cache ::
  "('k, 'v) kvops \<Rightarrow> CDBAccess \<Rightarrow> 'k \<Rightarrow> 'v \<Rightarrow> ('k::linorder, 'v) kvcache \<Rightarrow> ('k, 'v) kvcache" where
  "put_cache T d k v c = fst (snd (the (SetData T d k v c None)))"

definition del_cache :: "('k, 'v) kvops \<Rightarrow> CDBAccess \<Rightarrow> 'k \<Rightarrow> ('k::linorder, 'v) kvcache \<Rightarrow> ('k, 'v) kvcache" where
  "del_cache T d k c = fst (snd (the (EraseData T d k c None)))"

definition old_val :: "('k, 'v) kvops \<Rightarrow> CDBAccess \<Rightarrow> 'k \<Rightarrow> ('k::linorder, 'v) kvcache \<Rightarrow> 'v" where
  "old_val T d k c = (case raw T d c k of Some v \<Rightarrow> v | None \<Rightarrow> empty_val T)"

definition logs_of :: "PrefixType \<Rightarrow> CDBOpLogMap \<Rightarrow> CDbOpLogs" where
  "logs_of p m = (case sm_find m (GetKeyPrefix p) of Some l \<Rightarrow> l | None \<Rightarrow> [])"

definition logged :: "('k, 'v) kvops \<Rightarrow> 'k \<Rightarrow> 'v \<Rightarrow> CDBOpLogMap \<Rightarrow> CDBOpLogMap" where
  "logged T k old m =
     sm_set (GetKeyPrefix (prefix_type T))
       (logs_of (prefix_type T) m @ [OpLog_Set (ser_key T) (ser_val T) k old]) m"

lemma GetDataIt_memo:
  assumes "access_ok T d"
  shows "GetDataIt T d k c = Some (memo T d k c, raw T d c k) \<and>
    raw T d (memo T d k c) = raw T d c \<and>
    sm_find (mapData (node_of (memo T d k c))) k = raw T d c k \<and>
    has_db (memo T d k c) = has_db c"
proof -
  obtain c' where c': "GetDataIt T d k c = Some (c', raw T d c k)" "raw T d c' = raw T d c"
      "sm_find (mapData (node_of c')) k = raw T d c k" "has_db c' = has_db c"
    using GetDataIt_ok [OF assms] by blast
  then have "memo T d k c = c'"
    by (simp add: memo_def)
  with c' show ?thesis by blast
qed

lemma GetDataIt_eq:
  "access_ok T d \<Longrightarrow> GetDataIt T d k c = Some (memo T d k c, raw T d c k)"
  using GetDataIt_memo by blast

lemma memo_simps [simp]:
  assumes "access_ok T d"
  shows "raw T d (memo T d k c) = raw T d c"
    "sm_find (mapData (node_of (memo T d k c))) k = raw T d c k"
    "view T d (memo T d k c) = view T d c"
    "has_db (memo T d k c) = has_db c"
proof -
  show r: "raw T d (memo T d k c) = raw T d c"
    and "sm_find (mapData (node_of (memo T d k c))) k = raw T d c k"
    and "has_db (memo T d k c) = has_db c"
    using GetDataIt_memo [OF assms, of k c] by blast+
  show "view T d (memo T d k c) = view T d c"
    unfolding view_def r ..
qed

lemma AddOpLog_eq:
  assumes "kv_wf T"
  shows "AddOpLog T k old lg = Some (map_option (logged T k old) lg)"
proof -
  have "prefix_type T \<noteq> EMPTY"
    using kv_wfD(1) [OF assms] by (simp add: is_data_prefix_def)
  then show ?thesis
    by (cases lg) (simp_all add: AddOpLog_def OpLogMap_AddOpLog_def logged_def logs_of_def Let_def)
qed

lemma GetData_eq:
  assumes "access_ok T d"
  shows "GetData T d k c = Some (if key_empty T k then c else memo T d k c, view T d c k)"
  using assms by (simp add: GetData_def GetDataIt_eq view_def visible_def split: option.split)

lemma HasData_eq:
  assumes "access_ok T d"
  shows "HasData T d k c = Some (if key_empty T k then c else memo T d k c, view T d c k \<noteq> None)"
  using assms by (simp add: HasData_def GetDataIt_eq view_def visible_def split: option.split)

lemma put_cases:
  assumes ok: "access_ok T d" and k: "\<not> key_empty T k"
  shows "\<exists>c'. (\<forall>lg. SetData T d k v c lg = Some (True, c', map_option (logged T k (old_val T d k c)) lg)) \<and>
           raw T d c' = (raw T d c)(k \<mapsto> v) \<and> has_db c' = has_db c"
proof (cases "raw T d c k")
  case None
  let ?c1 = "memo T d k c"
  obtain n' where n': "AddDataToMap T k v (node_of ?c1) = Some n'"
      "mapData n' = sm_set k v (mapData (node_of ?c1))"
    using AddDataToMap_absent [of "node_of ?c1" k] None ok by fastforce
  have "raw T d (with_node ?c1 n') = (raw T d c)(k \<mapsto> v)"
    using raw_with_node_upd [OF n'(2)] ok by simp
  moreover have "has_db (with_node ?c1 n') = has_db c"
    using memo_simps(4) [OF ok, of k c] by (cases ?c1) auto
  ultimately show ?thesis
    using ok k None n' by (auto simp: SetData_def GetDataIt_eq AddOpLog_eq old_val_def)
next
  case (Some old)
  let ?c1 = "memo T d k c"
  let ?n = "UpdateDataSize T old v (node_of ?c1)"
  let ?n' = "?n\<lparr>mapData := sm_set k v (mapData ?n)\<rparr>"
  have "raw T d (with_node ?c1 ?n') = (raw T d c)(k \<mapsto> v)"
    using raw_with_node_upd [of ?n' k v ?c1 T d] ok by simp
  moreover have "has_db (with_node ?c1 ?n') = has_db c"
    using memo_simps(4) [OF ok, of k c] by (cases ?c1) auto
  ultimately show ?thesis
    using ok k Some by (auto simp: SetData_def GetDataIt_eq AddOpLog_eq old_val_def Let_def)
qed

lemma SetData_eq:
  assumes "access_ok T d" and "\<not> key_empty T k"
  shows "SetData T d k v c lg =
    Some (True, put_cache T d k v c, map_option (logged T k (old_val T d k c)) lg)"
  using put_cases [OF assms, of v c] by (auto simp: put_cache_def)

lemma SetData_empty_key [simp]: "key_empty T k \<Longrightarrow> SetData T d k v c lg = Some (False, c, lg)"
  by (simp add: SetData_def)

lemma raw_put [simp]:
  assumes "access_ok T d" and "\<not> key_empty T k"
  shows "raw T d (put_cache T d k v c) = (raw T d c)(k \<mapsto> v)"
    "has_db (put_cache T d k v c) = has_db c"
  using put_cases [OF assms, of v c] by (auto simp: put_cache_def)

lemma view_put [simp]:
  assumes "access_ok T d" and "\<not> key_empty T k"
  shows "view T d (put_cache T d k v c) =
    (view T d c)(k := (if val_empty T v then None else Some v))"
  using assms by (simp add: view_def visible_upd)

lemma del_cases:
  assumes ok: "access_ok T d" and k: "\<not> key_empty T k"
  shows "\<exists>c'. (\<forall>lg. EraseData T d k c lg =
             Some (True, c', (if view T d c k = None then lg
                              else map_option (logged T k (old_val T d k c)) lg))) \<and>
           raw T d c' = (if view T d c k = None then raw T d c
                         else (raw T d c)(k \<mapsto> set_empty T (old_val T d k c))) \<and>
           has_db c' = has_db c"
proof (cases "view T d c k")
  case None
  then show ?thesis
    using ok k
    by (auto simp: EraseData_def GetDataIt_eq view_def visible_def split: option.splits if_splits)
next
  case (Some old)
  then have old: "raw T d c k = Some old" "\<not> val_empty T old" "old_val T d k c = old"
    by (auto simp: view_def visible_def old_val_def split: option.splits if_splits)
  let ?c1 = "memo T d k c" and ?new = "set_empty T old"
  let ?n = "DecDataSize T old (node_of ?c1)"
  let ?n' = "IncDataSize1 T ?new (?n\<lparr>mapData := sm_set k ?new (mapData ?n)\<rparr>)"
  have "raw T d (with_node ?c1 ?n') = (raw T d c)(k \<mapsto> ?new)"
    using raw_with_node_upd [of ?n' k ?new ?c1 T d] ok by simp
  moreover have "has_db (with_node ?c1 ?n') = has_db c"
    using memo_simps(4) [OF ok, of k c] by (cases ?c1) auto
  ultimately show ?thesis
    using ok k old Some by (auto simp: EraseData_def GetDataIt_eq AddOpLog_eq Let_def)
qed

lemma EraseData_eq:
  assumes "access_ok T d" and "\<not> key_empty T k"
  shows "EraseData T d k c lg =
    Some (True, del_cache T d k c,
          (if view T d c k = None then lg else map_option (logged T k (old_val T d k c)) lg))"
  using del_cases [OF assms, of c] by (auto simp: del_cache_def)

lemma EraseData_empty_key [simp]: "key_empty T k \<Longrightarrow> EraseData T d k c lg = Some (False, c, lg)"
  by (simp add: EraseData_def)

lemma raw_del:
  assumes "access_ok T d" and "\<not> key_empty T k"
  shows "raw T d (del_cache T d k c) =
      (if view T d c k = None then raw T d c
       else (raw T d c)(k \<mapsto> set_empty T (old_val T d k c)))"
    "has_db (del_cache T d k c) = has_db c"
  using del_cases [OF assms, of c] by (auto simp: del_cache_def)

lemma view_del [simp]:
  assumes "access_ok T d" and "\<not> key_empty T k"
  shows "view T d (del_cache T d k c) = (view T d c)(k := None)"
proof (cases "view T d c k")
  case None
  then have "raw T d (del_cache T d k c) = raw T d c"
    using raw_del(1) [OF assms, of c] by simp
  with None show ?thesis by (auto simp: view_def)
next
  case (Some v)
  then have "raw T d (del_cache T d k c) = (raw T d c)(k \<mapsto> set_empty T (old_val T d k c))"
    using raw_del(1) [OF assms, of c] by simp
  then show ?thesis
    using assms by (simp add: visible_upd view_def)
qed

section \<open>Flush\<close>

lemma SetDataToSelf_ok:
  "\<exists>c'. SetDataToSelf T k v c = Some c' \<and> raw T d c' = (raw T d c)(k \<mapsto> v) \<and> has_db c' = has_db c"
proof (cases "sm_find (mapData (node_of c)) k")
  case None
  then obtain n' where n': "AddDataToMap T k v (node_of c) = Some n'"
      "mapData n' = sm_set k v (mapData (node_of c))"
    using AddDataToMap_absent [OF None, of T v] by auto
  have "has_db (with_node c n') = has_db c"
    by (cases c) auto
  then show ?thesis
    using None n' raw_with_node_upd [OF n'(2)] by (simp add: SetDataToSelf_def)
next
  case (Some old)
  let ?n = "UpdateDataSize T old v (node_of c)"
  let ?n' = "?n\<lparr>mapData := sm_set k v (mapData ?n)\<rparr>"
  have "has_db (with_node c ?n') = has_db c"
    by (cases c) auto
  then show ?thesis
    using Some raw_with_node_upd [of ?n' k v c T d] by (simp add: SetDataToSelf_def Let_def)
qed

lemma fold_SetDataToSelf:
  assumes "distinct (map fst xs)"
  shows "\<exists>c'. fold_opt (\<lambda>(k, v). SetDataToSelf T k v) xs c = Some c' \<and>
    raw T d c' = raw T d c ++ map_of xs \<and> has_db c' = has_db c"
  using assms
proof (induction xs arbitrary: c)
  case (Cons p xs)
  obtain k v where p: "p = (k, v)" by (cases p)
  obtain c1 where c1: "SetDataToSelf T k v c = Some c1" "raw T d c1 = (raw T d c)(k \<mapsto> v)"
      "has_db c1 = has_db c"
    using SetDataToSelf_ok [of T k v c d] by auto
  have "map_of xs k = None"
    using Cons.prems p by (auto simp: map_of_eq_None_iff)
  then have eq: "(raw T d c)(k \<mapsto> v) ++ map_of xs = raw T d c ++ map_of (p # xs)"
    using p by (auto simp: map_add_def fun_eq_iff split: option.split)
  obtain c2 where c2: "fold_opt (\<lambda>(k, v). SetDataToSelf T k v) xs c1 = Some c2"
    "raw T d c2 = raw T d c1 ++ map_of xs" "has_db c2 = has_db c1"
    using Cons.IH [of c1] Cons.prems by auto
  have "raw T d c2 = raw T d c ++ map_of (p # xs)"
    using c2(2) c1(2) eq by (simp only:)
  moreover have "fold_opt (\<lambda>(k, v). SetDataToSelf T k v) (p # xs) c = Some c2"
    using c1(1) c2(1) p by simp
  ultimately show ?case
    using c1(3) c2(3) by metis
qed simp

lemma flush_batch_eq:
  assumes "kv_wf T"
  shows "flush_batch T xs b = Some (b @ map (\<lambda>(k, v).
     if val_empty T v then Delete (GetKeyPrefix (prefix_type T) @ ser_key T k)
     else Put (GetKeyPrefix (prefix_type T) @ ser_key T k) (ser_val T v)) xs)"
  using assms
  by (induction T xs b rule: flush_batch.induct) (auto simp: Batch_Erase_def Batch_Write_def)

text \<open>Writing a layer's items to the database: its own keys, and everybody else's.\<close>

lemma flush_db:
  assumes ok: "access_ok T d"
  obtains d' where "Flush T d (DbCache n) = Some (d', DbCache (Clear_node n))"
    "access_ok T d'" "dbNameType d' = dbNameType d"
    "\<And>k. db_val T d' k = (case sm_find (mapData n) k of
        Some v \<Rightarrow> if val_empty T v then None else Some v | None \<Rightarrow> db_val T d k)"
    "\<And>key. (\<forall>k. key \<noteq> GetKeyPrefix (prefix_type T) @ ser_key T k) \<Longrightarrow>
       sm_find (ldb_data (ldb d')) key = sm_find (ldb_data (ldb d)) key"
proof -
  let ?key = "\<lambda>k. GetKeyPrefix (prefix_type T) @ ser_key T k"
  let ?op = "\<lambda>(k, v). if val_empty T v then Delete (?key k) else Put (?key k) (ser_val T v)"
  let ?xs = "sm_items (mapData n)"
  let ?b = "map ?op ?xs"
  let ?d' = "d\<lparr>ldb := (ldb d)\<lparr>ldb_data := apply_batch ?b (ldb_data (ldb d))\<rparr>\<rparr>"
  have wf: "kv_wf T" using ok by simp
  have key: "op_key (?op p) = ?key (fst p)" for p
    by (cases p) simp
  have keys: "map op_key ?b = map ?key (map fst ?xs)"
    using key by (simp add: comp_def case_prod_unfold)
  have dist: "distinct (map op_key ?b)"
    unfolding keys by (rule distinct_map [THEN iffD2])
      (auto simp: inj_on_def ser_key_inj [OF wf])
  have find: "sm_find (ldb_data (ldb ?d')) (?key k) = (case sm_find (mapData n) k of
      Some v \<Rightarrow> if val_empty T v then None else Some (ser_val T v)
    | None \<Rightarrow> sm_find (ldb_data (ldb d)) (?key k))" for k
  proof (cases "sm_find (mapData n) k")
    case None
    then have "?key k \<notin> op_key ` set ?b"
      using key ser_key_inj [OF wf] by (auto simp: in_sm_items_iff image_iff split: if_splits)
    with None show ?thesis
      by (simp add: find_apply_batch_other)
  next
    case (Some v)
    then have "(k, v) \<in> set ?xs"
      by (simp add: in_sm_items_iff)
    then have "?op (k, v) \<in> set ?b"
      unfolding set_map by (rule imageI)
    from find_apply_batch_in [OF dist this, of "ldb_data (ldb d)"] Some show ?thesis
      by (auto split: if_splits)
  qed
  have fb: "flush_batch T ?xs [] = Some ?b"
    using flush_batch_eq [OF wf, of ?xs "[]"] by simp
  have wb: "DbAccess_WriteBatch d ?b = Some ?d'"
    using access_okD(2) [OF ok] by (simp add: DbAccess_WriteBatch_def WriteBatch_healthy)
  show thesis
  proof
    show "Flush T d (DbCache n) = Some (?d', DbCache (Clear_node n))"
      by (simp add: fb wb)
    show "access_ok T ?d'" "dbNameType ?d' = dbNameType d"
      using access_okD [OF ok] by (simp_all add: access_ok_def del: access_okD)
    show "db_val T ?d' k = (case sm_find (mapData n) k of
        Some v \<Rightarrow> if val_empty T v then None else Some v | None \<Rightarrow> db_val T d k)" for k
      unfolding db_val_def find using wf by (auto split: option.splits)
    show "sm_find (ldb_data (ldb ?d')) key = sm_find (ldb_data (ldb d)) key"
      if no: "\<forall>k. key \<noteq> ?key k" for key
    proof -
      have "op_key ` set ?b = ?key ` fst ` set ?xs"
        using arg_cong [OF keys, of set] by (simp only: set_map)
      then have "key \<notin> op_key ` set ?b"
        using no by (simp only:) blast
      from find_apply_batch_other [OF this, of "ldb_data (ldb d)"] show ?thesis by simp
    qed
  qed
qed

lemma flush_sub:
  "\<exists>b'. Flush T d (SubCache n b) = Some (d, SubCache (Clear_node n) b') \<and>
     raw T d b' = raw T d (SubCache n b) \<and> has_db b' = has_db b"
proof -
  obtain b' where "fold_opt (\<lambda>(k, v). SetDataToSelf T k v) (sm_items (mapData n)) b = Some b'"
      "raw T d b' = raw T d b ++ sm_find (mapData n)" "has_db b' = has_db b"
    using fold_SetDataToSelf [of "sm_items (mapData n)" T b d] by auto
  moreover have "raw T d b ++ sm_find (mapData n) = raw T d (SubCache n b)"
    by (auto simp: map_add_def split: option.split)
  ultimately show ?thesis by simp
qed

lemma Clear_node_simps [simp]:
  "mapData (Clear_node n) = sm_empty" "csize (Clear_node n) = 0"
  "is_calc_size (Clear_node n) = is_calc_size n"
  by (auto simp: Clear_node_def)

section \<open>Writes with a log, and their undo\<close>

datatype ('k, 'v) kv_write = WSet 'k 'v | WErase 'k

fun run_write ::
  "('k, 'v) kvops \<Rightarrow> CDBAccess \<Rightarrow> ('k, 'v) kv_write \<Rightarrow> ('k::linorder, 'v) kvcache \<times> CDBOpLogMap option \<Rightarrow>
     (('k, 'v) kvcache \<times> CDBOpLogMap option) option" where
  "run_write T d (WSet k v) (c, lg) = map_option snd (SetData T d k v c lg)"
| "run_write T d (WErase k) (c, lg) = map_option snd (EraseData T d k c lg)"

text \<open>The entries one write appends to the log of its prefix.\<close>

fun entries ::
  "('k, 'v) kvops \<Rightarrow> CDBAccess \<Rightarrow> ('k, 'v) kv_write \<Rightarrow> ('k::linorder, 'v) kvcache \<Rightarrow> CDbOpLogs" where
  "entries T d (WSet k v) c =
     (if key_empty T k then []
      else [OpLog_Set (ser_key T) (ser_val T) k (old_val T d k c)])"
| "entries T d (WErase k) c =
     (if key_empty T k \<or> view T d c k = None then []
      else [OpLog_Set (ser_key T) (ser_val T) k (old_val T d k c)])"

fun write_result ::
  "('k, 'v) kvops \<Rightarrow> CDBAccess \<Rightarrow> ('k, 'v) kv_write \<Rightarrow> ('k::linorder, 'v) kvcache \<Rightarrow> ('k, 'v) kvcache" where
  "write_result T d (WSet k v) c = (if key_empty T k then c else put_cache T d k v c)"
| "write_result T d (WErase k) c = (if key_empty T k then c else del_cache T d k c)"

fun after_write :: "('k, 'v) kvops \<Rightarrow> ('k, 'v) kv_write \<Rightarrow> ('k \<Rightarrow> 'v option) \<Rightarrow> 'k \<Rightarrow> 'v option" where
  "after_write T (WSet k v) f =
     (if key_empty T k then f else f(k := (if val_empty T v then None else Some v)))"
| "after_write T (WErase k) f = f(k := None)"

definition append_logs :: "PrefixType \<Rightarrow> CDbOpLogs \<Rightarrow> CDBOpLogMap \<Rightarrow> CDBOpLogMap" where
  "append_logs p es m = (if es = [] then m else sm_set (GetKeyPrefix p) (logs_of p m @ es) m)"

lemma logs_of_append_logs:
  "is_data_prefix p \<Longrightarrow> is_data_prefix q \<Longrightarrow>
     logs_of q (append_logs p es m) = (if q = p then logs_of p m @ es else logs_of q m)"
  by (auto simp: append_logs_def logs_of_def GetKeyPrefix_inj)

lemma append_logs_append [simp]:
  "append_logs p fs (append_logs p es m) = append_logs p (es @ fs) m"
  by (auto simp: append_logs_def logs_of_def)

lemma logs_of_empty [simp]: "logs_of p sm_empty = []"
  by (simp add: logs_of_def)

lemma view_empty_key: "key_empty T k \<Longrightarrow> view T d c k = None"
  by (simp add: view_def visible_def)

lemma run_write_eq:
  assumes "access_ok T d"
  shows "run_write T d w (c, lg) =
    Some (write_result T d w c, map_option (append_logs (prefix_type T) (entries T d w c)) lg)"
  using assms
  by (cases w; cases lg)
    (auto simp: SetData_eq EraseData_eq logged_def append_logs_def view_empty_key)

lemma view_write_result:
  assumes "access_ok T d"
  shows "view T d (write_result T d w c) = after_write T w (view T d c)"
  using assms by (cases w) (auto simp: view_empty_key fun_upd_idem)

lemma view_old_val:
  "\<not> key_empty T k \<Longrightarrow> access_ok T d \<Longrightarrow>
     view T d c k = (if val_empty T (old_val T d k c) then None else Some (old_val T d k c))"
  by (auto simp: view_def visible_def old_val_def split: option.split)

lemma UndoData_eq:
  assumes "kv_wf T"
  shows "UndoData T (OpLog_Set (ser_key T) (ser_val T) k v) c = SetDataToSelf T k v c"
  using assms by (simp add: UndoData_def OpLog_Get_def OpLog_Set_def)

lemma undo_entry:
  assumes ok: "access_ok T d" and k: "\<not> key_empty T k"
    and obs: "\<And>k'. k' \<noteq> k \<Longrightarrow> view T d t k' = view T d c k'"
  shows "\<exists>t'. UndoData T (OpLog_Set (ser_key T) (ser_val T) k (old_val T d k c)) t = Some t' \<and>
    view T d t' = view T d c"
proof -
  obtain t' where t': "SetDataToSelf T k (old_val T d k c) t = Some t'"
      "raw T d t' = (raw T d t)(k \<mapsto> old_val T d k c)"
    using SetDataToSelf_ok [of T k "old_val T d k c" t d] by auto
  have "view T d t' = view T d c"
    using k obs view_old_val [OF k ok, of c]
    by (auto simp: fun_eq_iff view_def t'(2) visible_upd)
  with t' ok show ?thesis
    by (auto simp: UndoData_eq)
qed

definition kv_step ::
  "('k, 'v) kvops \<Rightarrow> CDBAccess \<Rightarrow> ('k, 'v) kv_write \<Rightarrow> ('k::linorder, 'v) kvcache \<Rightarrow>
     (('k, 'v) kvcache \<times> CDbOpLogs) option" where
  "kv_step T d w c =
     (case run_write T d w (c, Some sm_empty) of
        Some (c', Some m) \<Rightarrow> Some (c', logs_of (prefix_type T) m) | _ \<Rightarrow> None)"

lemma kv_step_eq:
  "access_ok T d \<Longrightarrow> kv_step T d w c = Some (write_result T d w c, entries T d w c)"
  by (simp add: kv_step_def run_write_eq logs_of_append_logs)

interpretation composite_undo:
  undo_log "\<lambda>_. access_ok T d" "view T d" "kv_step T d" "UndoData T" for T d
proof (unfold_locales, goal_cases)
  case (1 s x)
  then show ?case by (simp add: kv_step_eq)
next
  case (2 s x s' es t)
  then have eq: "s' = write_result T d x s" "es = entries T d x s"
    by (auto simp: kv_step_eq)
  have obs: "view T d t = after_write T x (view T d s)"
    using 2 eq view_write_result by metis
  show ?case
  proof (cases "es = []")
    case True
    then have "after_write T x (view T d s) = view T d s"
      using eq 2(1)
      by (cases x) (auto simp: view_empty_key fun_upd_idem split: if_splits)
    with True 2 obs show ?thesis by auto
  next
    case False
    then obtain k where k: "\<not> key_empty T k"
        "es = [OpLog_Set (ser_key T) (ser_val T) k (old_val T d k s)]"
        "\<And>k'. k' \<noteq> k \<Longrightarrow> view T d t k' = view T d s k'"
      using eq obs by (cases x) (auto split: if_splits)
    with undo_entry [OF 2(1) k(1,3)] 2(1) show ?thesis
      by auto
  qed
qed

end
