(* ===== verification/Kv_Cache_Laws.thy ===== *)
theory Kv_Cache_Laws
  imports Kv_Cache
begin

text \<open>
  What the composite cache promises its clients: it is a key-value store (\<open>kv_store\<close>), a
  write-back layer over another cache and over the database (\<open>write_back\<close>), its logged
  writes can be undone (\<open>undo_log\<close>), and its size counter equals the serialised size of
  what it holds as long as the counter cannot wrap.
\<close>

section \<open>The contracts, on the model\<close>

definition get_op ::
  "('k, 'v) kvops \<Rightarrow> CDBAccess \<Rightarrow> 'k \<Rightarrow> ('k::linorder, 'v) kvcache \<times> CDBOpLogMap option \<Rightarrow>
     ((('k, 'v) kvcache \<times> CDBOpLogMap option) \<times> 'v option) option" where
  "get_op T d k s = map_option (\<lambda>(c, r). ((c, snd s), r)) (GetData T d k (fst s))"

definition has_op ::
  "('k, 'v) kvops \<Rightarrow> CDBAccess \<Rightarrow> 'k \<Rightarrow> ('k::linorder, 'v) kvcache \<times> CDBOpLogMap option \<Rightarrow>
     ((('k, 'v) kvcache \<times> CDBOpLogMap option) \<times> bool) option" where
  "has_op T d k s = map_option (\<lambda>(c, r). ((c, snd s), r)) (HasData T d k (fst s))"

definition put_op ::
  "('k, 'v) kvops \<Rightarrow> CDBAccess \<Rightarrow> 'k \<Rightarrow> 'v \<Rightarrow> ('k::linorder, 'v) kvcache \<times> CDBOpLogMap option \<Rightarrow>
     (bool \<times> (('k, 'v) kvcache \<times> CDBOpLogMap option)) option" where
  "put_op T d k v s = SetData T d k v (fst s) (snd s)"

definition del_op ::
  "('k, 'v) kvops \<Rightarrow> CDBAccess \<Rightarrow> 'k \<Rightarrow> ('k::linorder, 'v) kvcache \<times> CDBOpLogMap option \<Rightarrow>
     (bool \<times> (('k, 'v) kvcache \<times> CDBOpLogMap option)) option" where
  "del_op T d k s = EraseData T d k (fst s) (snd s)"

interpretation composite: kv_store
  "\<lambda>_. access_ok T d" "\<lambda>s. view T d (fst s)" "get_op T d" "has_op T d" "put_op T d" "del_op T d"
  "key_empty T" "val_empty T" for T d
proof (unfold_locales, goal_cases)
  case (1 s k)
  then show ?case by (simp add: view_empty_key)
next
  case (2 s k)
  then show ?case by (simp add: get_op_def GetData_eq)
next
  case (3 s k)
  then show ?case by (simp add: has_op_def HasData_eq)
next
  case (4 s k v)
  then show ?case by (cases "key_empty T k") (simp_all add: put_op_def SetData_eq)
next
  case (5 s k)
  then show ?case
    by (cases "key_empty T k") (simp_all add: del_op_def EraseData_eq view_empty_key fun_upd_idem)
qed

definition flush_to_base ::
  "('k, 'v) kvops \<Rightarrow> CDBAccess \<Rightarrow> ('k::linorder, 'v) cache_node \<Rightarrow> ('k, 'v) kvcache \<Rightarrow>
     (('k, 'v) cache_node \<times> ('k, 'v) kvcache) option" where
  "flush_to_base T d n b =
     (case Flush T d (SubCache n b) of Some (_, SubCache n' b') \<Rightarrow> Some (n', b') | _ \<Rightarrow> None)"

definition flush_to_db ::
  "('k, 'v) kvops \<Rightarrow> ('k::linorder, 'v) cache_node \<Rightarrow> CDBAccess \<Rightarrow>
     (('k, 'v) cache_node \<times> CDBAccess) option" where
  "flush_to_db T n d =
     (case Flush T d (DbCache n) of Some (d', DbCache n') \<Rightarrow> Some (n', d') | _ \<Rightarrow> None)"

interpretation over_base: write_back
  "\<lambda>_ _. access_ok T d" "\<lambda>n b. view T d (SubCache n b)" "view T d" "flush_to_base T d"
  "\<lambda>n. mapData n = sm_empty" for T d
proof (unfold_locales, goal_cases)
  case (1 n b)
  obtain b' where "Flush T d (SubCache n b) = Some (d, SubCache (Clear_node n) b')"
      "raw T d b' = raw T d (SubCache n b)"
    using flush_sub [of T d n b] by blast
  with 1 show ?case by (simp add: flush_to_base_def view_def)
next
  case (2 n b)
  then have "raw T d (SubCache n b) = raw T d b"
    by (intro ext) simp
  then show ?case by (simp add: view_def)
qed

interpretation over_db: write_back
  "\<lambda>_ d. access_ok T d" "\<lambda>n d. view T d (DbCache n)" "\<lambda>d. visible T (db_val T d)" "flush_to_db T"
  "\<lambda>n. mapData n = sm_empty" for T
proof (unfold_locales, goal_cases)
  case (1 n d)
  obtain d' where d': "Flush T d (DbCache n) = Some (d', DbCache (Clear_node n))"
    "access_ok T d'"
    "\<And>k. db_val T d' k = (case sm_find (mapData n) k of
        Some v \<Rightarrow> if val_empty T v then None else Some v | None \<Rightarrow> db_val T d k)"
    using flush_db [OF 1, of n] by metis
  have "visible T (db_val T d') = view T d (DbCache n)"
    by (auto simp: visible_def view_def fun_eq_iff d'(3) split: option.split)
  with d' show ?case by (simp add: flush_to_db_def)
next
  case (2 n d)
  then have "raw T d (DbCache n) = db_val T d"
    by (intro ext) simp
  then show ?case by (simp add: view_def)
qed

section \<open>Size accounting\<close>

definition item_size :: "('k, 'v) kvops \<Rightarrow> 'k \<times> 'v \<Rightarrow> nat" where
  "item_size T p = unat (key_size T (fst p)) + unat (val_size T (snd p))"

definition total_size :: "('k, 'v) kvops \<Rightarrow> ('k::linorder, 'v) cache_node \<Rightarrow> nat" where
  "total_size T n = sum_list (map (item_size T) (sm_items (mapData n)))"

definition size_ok :: "('k, 'v) kvops \<Rightarrow> ('k::linorder, 'v) cache_node \<Rightarrow> bool" where
  "size_ok T n \<longleftrightarrow> (is_calc_size n \<longrightarrow> unat (csize n) = total_size T n)"

lemma sum_al_set:
  "sorted_keys xs \<Longrightarrow>
     sum_list (map (item_size T) (al_set k v xs)) + (case map_of xs k of Some w \<Rightarrow> item_size T (k, w) | None \<Rightarrow> 0)
       = sum_list (map (item_size T) xs) + item_size T (k, v)"
proof (induction k v xs rule: al_set.induct)
  case (2 k v a b xs)
  have "map_of xs k = None" if "k < a"
    using 2(2) that by (fastforce simp: sorted_keys_Cons map_of_eq_None_iff)
  with 2 show ?case
    by (auto simp: sorted_keys_Cons split: option.splits)
qed simp

lemma total_size_set:
  "total_size T (n\<lparr>mapData := sm_set k v (mapData n)\<rparr>) +
     (case sm_find (mapData n) k of Some w \<Rightarrow> item_size T (k, w) | None \<Rightarrow> 0)
     = total_size T n + item_size T (k, v)"
  using sum_al_set [OF sorted_sm_items, of T k v "mapData n"] by (simp add: total_size_def sm_items_set)

lemma total_size_ge: "sm_find (mapData n) k = Some v \<Longrightarrow> item_size T (k, v) \<le> total_size T n"
  by (auto simp: total_size_def in_sm_items_iff intro!: member_le_sum_list)

lemma total_size_frame [simp]:
  "total_size T (n\<lparr>csize := x\<rparr>) = total_size T n"
  by (simp add: total_size_def)

text \<open>
  The counter through the primitive updates.  \<open>old_item\<close> is what a lookup may copy into the
  layer before it is overwritten.
\<close>

definition old_item :: "('k, 'v) kvops \<Rightarrow> 'k \<Rightarrow> 'v option \<Rightarrow> nat" where
  "old_item T k r = (case r of Some w \<Rightarrow> item_size T (k, w) | None \<Rightarrow> 0)"

lemma AddDataToMap_size:
  fixes n :: "('k::linorder, 'v) cache_node"
  assumes "AddDataToMap T k v n = Some n'" and "size_ok T n"
    and "total_size T n + item_size T (k, v) < 2 ^ 32"
  shows "size_ok T n'" "total_size T n' = total_size T n + item_size T (k, v)"
proof -
  have none: "sm_find (mapData n) k = None"
    and n': "n' = IncDataSize2 T k v (n\<lparr>mapData := sm_set k v (mapData n)\<rparr>)"
    using assms(1) by (auto simp: AddDataToMap_def split: option.splits)
  show tot: "total_size T n' = total_size T n + item_size T (k, v)"
    using total_size_set [of T k v n] none unfolding n' by (simp add: IncDataSize2_def)
  show "size_ok T n'"
  proof (cases "is_calc_size n")
    case True
    then have "unat (csize n) = total_size T n"
      using assms(2) by (simp add: size_ok_def)
    then have "unat (csize n + key_size T k + val_size T v) = total_size T n + item_size T (k, v)"
      using assms(3) by (simp add: item_size_def unat_add_no_wrap)
    with True tot show ?thesis
      by (simp add: size_ok_def n' IncDataSize2_def)
  qed (simp add: size_ok_def n' IncDataSize2_def)
qed

lemma unat_clamped_sub:
  "unat b \<le> unat a \<Longrightarrow> unat (if a > b then a - b else (0 :: 'n::len word)) = unat a - unat b"
  by (auto simp: unat_sub_le word_less_nat_alt)

lemma UpdateDataSize_size:
  fixes n :: "('k::linorder, 'v) cache_node"
  assumes "sm_find (mapData n) k = Some old" and "size_ok T n"
    and "total_size T n + unat (val_size T v) < 2 ^ 32"
  shows "size_ok T ((UpdateDataSize T old v n)\<lparr>mapData := sm_set k v (mapData n)\<rparr>)"
proof (cases "is_calc_size n")
  case True
  then have c: "unat (csize n) = total_size T n"
    using assms(2) by (simp add: size_ok_def)
  have s: "unat (csize n + val_size T v) = total_size T n + unat (val_size T v)"
    using assms(3) c by (simp add: unat_add_no_wrap)
  have ge: "item_size T (k, old) \<le> total_size T n"
    using total_size_ge [OF assms(1)] .
  have "unat (if csize n + val_size T v > val_size T old then csize n + val_size T v - val_size T old else 0)
      = total_size T n + unat (val_size T v) - unat (val_size T old)"
    using ge s by (subst unat_clamped_sub) (simp_all add: item_size_def)
  moreover have "total_size T (n\<lparr>mapData := sm_set k v (mapData n)\<rparr>) =
      total_size T n + unat (val_size T v) - unat (val_size T old)"
    using total_size_set [of T k v n] assms(1) ge by (simp add: item_size_def)
  ultimately show ?thesis
    using True by (simp add: size_ok_def UpdateDataSize_def Let_def total_size_def)
qed (simp add: size_ok_def UpdateDataSize_def)

lemma DecDataSize_size:
  fixes n :: "('k::linorder, 'v) cache_node"
  assumes "sm_find (mapData n) k = Some old" and "size_ok T n"
    and "total_size T n + unat (val_size T v) < 2 ^ 32"
  shows "size_ok T (IncDataSize1 T v ((DecDataSize T old n)\<lparr>mapData := sm_set k v (mapData n)\<rparr>))"
proof (cases "is_calc_size n")
  case True
  then have c: "unat (csize n) = total_size T n"
    using assms(2) by (simp add: size_ok_def)
  have ge: "item_size T (k, old) \<le> total_size T n"
    using total_size_ge [OF assms(1)] .
  have "unat (if csize n > val_size T old then csize n - val_size T old else 0)
      = total_size T n - unat (val_size T old)"
    using ge c by (subst unat_clamped_sub) (simp_all add: item_size_def)
  then have "unat ((if csize n > val_size T old then csize n - val_size T old else 0) + val_size T v)
      = total_size T n - unat (val_size T old) + unat (val_size T v)"
    using assms(3) by (subst unat_add_no_wrap) auto
  moreover have "total_size T (n\<lparr>mapData := sm_set k v (mapData n)\<rparr>) =
      total_size T n - unat (val_size T old) + unat (val_size T v)"
    using total_size_set [of T k v n] assms(1) ge by (simp add: item_size_def)
  ultimately show ?thesis
    using True by (simp add: size_ok_def DecDataSize_def IncDataSize1_def Let_def total_size_def)
qed (simp add: size_ok_def DecDataSize_def IncDataSize1_def)

text \<open>A lookup copies at most the entry it found.\<close>

lemma node_GetDataIt:
  "GetDataIt T d k c = Some (c', r) \<Longrightarrow> node_of c' = node_of c \<or>
    (\<exists>v. r = Some v \<and> AddDataToMap T k v (node_of c) = Some (node_of c'))"
  by (cases c) (auto split: option.splits Option.bind_splits)

lemma memo_size:
  fixes c :: "('k::linorder, 'v) kvcache"
  assumes "access_ok T d" and "size_ok T (node_of c)"
    and "total_size T (node_of c) + old_item T k (raw T d c k) < 2 ^ 32"
  shows "size_ok T (node_of (memo T d k c))"
    "total_size T (node_of (memo T d k c)) \<le> total_size T (node_of c) + old_item T k (raw T d c k)"
  using node_GetDataIt [OF GetDataIt_eq [OF assms(1)], of k c] assms(2,3)
  by (auto simp: old_item_def dest: AddDataToMap_size)

lemma size_ok_with_node [simp]: "size_ok T (node_of (with_node c n)) = size_ok T n"
  by simp

lemma SetData_size_ok:
  fixes c :: "('k::linorder, 'v) kvcache"
  assumes ok: "access_ok T d" and sz: "size_ok T (node_of c)"
    and room: "total_size T (node_of c) + old_item T k (raw T d c k) + item_size T (k, v) < 2 ^ 32"
    and run: "SetData T d k v c lg = Some (r, c', lg')"
  shows "size_ok T (node_of c')"
proof (cases "key_empty T k")
  case False
  let ?n = "node_of (memo T d k c)"
  have n: "size_ok T ?n" "total_size T ?n \<le> total_size T (node_of c) + old_item T k (raw T d c k)"
    using memo_size [OF ok sz, of k] room by auto
  show ?thesis
  proof (cases "raw T d c k")
    case None
    with run False ok obtain n' where "AddDataToMap T k v ?n = Some n'" "c' = with_node (memo T d k c) n'"
      by (auto simp: SetData_def GetDataIt_eq AddOpLog_eq split: Option.bind_splits)
    with n room show ?thesis
      by (auto dest: AddDataToMap_size(1))
  next
    case (Some old)
    have "size_ok T ((UpdateDataSize T old v ?n)\<lparr>mapData := sm_set k v (mapData ?n)\<rparr>)"
      using n room Some ok by (intro UpdateDataSize_size) (auto simp: item_size_def)
    with run False ok Some show ?thesis
      by (auto simp: SetData_def GetDataIt_eq AddOpLog_eq Let_def)
  qed
qed (use run sz in simp)

lemma EraseData_size_ok:
  fixes c :: "('k::linorder, 'v) kvcache"
  assumes ok: "access_ok T d" and sz: "size_ok T (node_of c)"
    and room: "total_size T (node_of c) + old_item T k (raw T d c k) +
      unat (val_size T (set_empty T (old_val T d k c))) < 2 ^ 32"
    and run: "EraseData T d k c lg = Some (r, c', lg')"
  shows "size_ok T (node_of c')"
proof (cases "key_empty T k \<or> view T d c k = None")
  case True
  then have "c' = c \<or> c' = memo T d k c"
    using run ok by (cases "raw T d c k")
      (auto simp: EraseData_def GetDataIt_eq view_def visible_def split: if_splits)
  then show ?thesis
    using memo_size(1) [OF ok sz, of k] sz room by auto
next
  case False
  then obtain old where old: "raw T d c k = Some old" "\<not> val_empty T old" "old_val T d k c = old"
    by (auto simp: view_def visible_def old_val_def split: option.splits if_splits)
  let ?n = "node_of (memo T d k c)"
  have n: "size_ok T ?n" "total_size T ?n \<le> total_size T (node_of c) + old_item T k (raw T d c k)"
    using memo_size [OF ok sz, of k] room by auto
  have "size_ok T (IncDataSize1 T (set_empty T old)
      ((DecDataSize T old ?n)\<lparr>mapData := sm_set k (set_empty T old) (mapData ?n)\<rparr>))"
    using n room old ok by (intro DecDataSize_size) auto
  with run False ok old show ?thesis
    by (auto simp: EraseData_def GetDataIt_eq AddOpLog_eq Let_def)
qed

lemma SetDataToSelf_size_ok:
  fixes c :: "('k::linorder, 'v) kvcache"
  assumes "size_ok T (node_of c)"
    and "total_size T (node_of c) + item_size T (k, v) < 2 ^ 32"
    and "SetDataToSelf T k v c = Some c'"
  shows "size_ok T (node_of c')"
  using assms UpdateDataSize_size [of "node_of c" k _ T v]
  by (auto simp: SetDataToSelf_def Let_def item_size_def dest: AddDataToMap_size(1)
      split: option.splits Option.bind_splits)

lemma Clear_size_ok: "size_ok T (node_of (Clear c))" "GetCacheSize (Clear c) = 0"
  by (simp_all add: Clear_def size_ok_def total_size_def GetCacheSize_def)

section \<open>Replaying the log of a run of writes\<close>

lemma run_writes_logged:
  assumes "access_ok T d"
  shows "\<exists>c' es. run_logged (kv_step T d) ws c = Some (c', es) \<and>
    fold_opt (run_write T d) ws (c, Some m) = Some (c', Some (append_logs (prefix_type T) es m))"
proof (induction ws arbitrary: c m)
  case Nil
  then show ?case by (simp add: append_logs_def)
next
  case (Cons w ws)
  let ?c1 = "write_result T d w c" and ?e1 = "entries T d w c"
  obtain c' es where "run_logged (kv_step T d) ws ?c1 = Some (c', es)"
    "fold_opt (run_write T d) ws (?c1, Some (append_logs (prefix_type T) ?e1 m)) =
       Some (c', Some (append_logs (prefix_type T) es (append_logs (prefix_type T) ?e1 m)))"
    using Cons.IH by blast
  with kv_step_eq [OF assms, of w c] run_write_eq [OF assms, of w c "Some m"] show ?case
    by (intro exI [of _ c'] exI [of _ "?e1 @ es"]) simp
qed

section \<open>An instance on byte strings\<close>

text \<open>Keys and values that are their own serialisation, over an empty accounts database.\<close>

definition bytes_ops :: "PrefixType \<Rightarrow> (string, string) kvops" where
  "bytes_ops p = \<lparr>prefix_type = p, key_empty = (\<lambda>k. k = []), val_empty = (\<lambda>v. v = []),
     empty_val = [], set_empty = (\<lambda>_. []), ser_key = (\<lambda>k. k), unser_key = Some,
     ser_val = (\<lambda>v. v), unser_val = Some,
     key_size = (\<lambda>k. of_nat (length k)), val_size = (\<lambda>v. of_nat (length v))\<rparr>"

definition empty_db :: "DBNameType \<Rightarrow> CDBAccess" where
  "empty_db t = \<lparr>dbNameType = t,
     ldb = \<lparr>ldb_data = sm_empty, ldb_read_fault = (\<lambda>_. None), ldb_write_fault = None\<rparr>\<rparr>"

lemma bytes_ops_simps [simp]:
  "prefix_type (bytes_ops p) = p" "key_empty (bytes_ops p) k = (k = [])"
  "val_empty (bytes_ops p) v = (v = [])" "empty_val (bytes_ops p) = []"
  "set_empty (bytes_ops p) v = []" "ser_key (bytes_ops p) k = k" "unser_key (bytes_ops p) k = Some k"
  "ser_val (bytes_ops p) v = v" "unser_val (bytes_ops p) v = Some v"
  "key_size (bytes_ops p) k = of_nat (length k)" "val_size (bytes_ops p) v = of_nat (length v)"
  by (simp_all add: bytes_ops_def)

lemma empty_db_simps [simp]:
  "dbNameType (empty_db t) = t" "ldb_data (ldb (empty_db t)) = sm_empty"
  by (simp_all add: empty_db_def)

lemma bytes_access_ok [simp]: "is_data_prefix p \<Longrightarrow> access_ok (bytes_ops p) (empty_db t)"
  by (simp add: access_ok_def kv_wf_def empty_db_def ldb_healthy_def)

lemma bytes_ok [simp]: "access_ok (bytes_ops KEYID_ACCOUNT) (empty_db t)"
  by (simp add: is_data_prefix_def)

lemma bytes_GetData [simp]:
  "DbAccess_GetData (ser_key (bytes_ops KEYID_ACCOUNT)) (unser_val (bytes_ops KEYID_ACCOUNT))
     (empty_db t) KEYID_ACCOUNT k = Some None"
  using DbAccess_GetData_ok [OF bytes_ok [of t], of k] by (simp add: db_val_def)

section \<open>Properties\<close>

text \<open>
  Claim C1: a successful \<open>SetData\<close> on the composite cache, over any stack of layers, is seen
  by every later \<open>GetData\<close>: the written key reads the new value (nothing when the value is
  empty, which is how deletion is stored) and every other key reads what it read before.
  An empty key is refused and nothing changes.
\<close>

theorem composite_set_get:
  fixes c :: "('k::linorder, 'v) kvcache"
  assumes "access_ok T d"
  shows "\<exists>c1 lg1. SetData T d k v c lg = Some (\<not> key_empty T k, c1, lg1) \<and>
    (\<forall>k'. \<exists>c2. GetData T d k' c1 = Some (c2,
       if k' = k \<and> \<not> key_empty T k then (if val_empty T v then None else Some v) else view T d c k'))"
proof -
  obtain r s1 where s1: "put_op T d k v (c, lg) = Some (r, s1)"
    using composite.put_total [OF assms] by blast
  have r: "r = (\<not> key_empty T k)"
    using composite.put_law [OF assms, of k v "(c, lg)"] s1 by auto
  have "\<exists>c2. GetData T d k' (fst s1) = Some (c2,
      if k' = k \<and> \<not> key_empty T k then (if val_empty T v then None else Some v) else view T d c k')" for k'
    using composite.put_get [OF assms s1, of k'] by (auto simp: get_op_def)
  with s1 r show ?thesis
    by (cases s1) (auto simp: put_op_def)
qed

theorem composite_set_get_witness:
  "\<exists>c1 lg1. SetData (bytes_ops KEYID_ACCOUNT) (empty_db DB_ACCOUNT) ''k'' ''v'' (new_on_base new_free) None =
       Some (True, c1, lg1) \<and>
     (\<exists>c2. GetData (bytes_ops KEYID_ACCOUNT) (empty_db DB_ACCOUNT) ''k'' c1 = Some (c2, Some ''v''))"
  using composite_set_get [OF bytes_ok [of DB_ACCOUNT], of "''k''" "''v''"
      "new_on_base new_free" None]
  by (auto dest!: spec [of _ "''k''"])

text \<open>
  After \<open>EraseData\<close> the erased key reads as absent through every layer, also when
  the database below still holds it, and every other key reads what it read before; \<open>HasData\<close>
  agrees with \<open>GetData\<close>.
\<close>

theorem composite_erase_get:
  fixes c :: "('k::linorder, 'v) kvcache"
  assumes "access_ok T d"
  shows "\<exists>c1 lg1. EraseData T d k c lg = Some (\<not> key_empty T k, c1, lg1) \<and>
    (\<forall>k'. \<exists>c2. GetData T d k' c1 = Some (c2, if k' = k then None else view T d c k') \<and>
                HasData T d k' c1 = Some (c2, k' \<noteq> k \<and> view T d c k' \<noteq> None))"
proof -
  obtain s1 where s1: "del_op T d k (c, lg) = Some (\<not> key_empty T k, s1)"
    using composite.del_law [OF assms] by blast
  have v: "view T d (fst s1) = (view T d c)(k := None)"
    using composite.del_law [OF assms, of k "(c, lg)"] s1 by auto
  show ?thesis
    using s1 GetData_eq [OF assms] HasData_eq [OF assms] v
    by (cases s1) (auto simp: del_op_def)
qed

theorem composite_erase_get_witness:
  "\<exists>c1 lg1. EraseData (bytes_ops KEYID_ACCOUNT) (empty_db DB_ACCOUNT) ''k''
       (SubCache (empty_node False) (DbCache ((empty_node True)\<lparr>mapData := sm_set ''k'' ''v'' sm_empty\<rparr>))) None =
       Some (True, c1, lg1) \<and>
     (\<exists>c2. GetData (bytes_ops KEYID_ACCOUNT) (empty_db DB_ACCOUNT) ''k'' c1 = Some (c2, None))"
  using composite_erase_get [OF bytes_ok [of DB_ACCOUNT], of "''k''"
      "SubCache (empty_node False) (DbCache ((empty_node True)\<lparr>mapData := sm_set ''k'' ''v'' sm_empty\<rparr>))" None]
  by (auto dest!: spec [of _ "''k''"])

text \<open>
  Claim C2: flushing a cache into its base cache empties it, leaves the database alone, makes
  the base show exactly what the cache showed, and leaves the cache's own reads unchanged.
\<close>

theorem composite_flush_base:
  assumes "access_ok T d"
  shows "\<exists>b'. Flush T d (SubCache n b) = Some (d, SubCache (Clear_node n) b') \<and>
    mapData (Clear_node n) = sm_empty \<and>
    view T d b' = view T d (SubCache n b) \<and>
    view T d (SubCache (Clear_node n) b') = view T d (SubCache n b)"
proof -
  obtain b' where b': "Flush T d (SubCache n b) = Some (d, SubCache (Clear_node n) b')"
    using flush_sub by blast
  then have "flush_to_base T d n b = Some (Clear_node n, b')"
    by (simp add: flush_to_base_def)
  from over_base.flush_transparent [OF assms this] b' show ?thesis
    by auto
qed

theorem composite_flush_base_witness:
  "\<exists>b'. Flush (bytes_ops KEYID_ACCOUNT) (empty_db DB_ACCOUNT)
       (SubCache ((empty_node False)\<lparr>mapData := sm_set ''k'' ''v'' sm_empty\<rparr>) new_free) =
       Some (empty_db DB_ACCOUNT, SubCache (empty_node False) b') \<and>
     view (bytes_ops KEYID_ACCOUNT) (empty_db DB_ACCOUNT) b' ''k'' = Some ''v''"
proof -
  let ?n = "(empty_node False)\<lparr>mapData := sm_set ''k'' ''v'' sm_empty\<rparr>"
  obtain b' where b': "Flush (bytes_ops KEYID_ACCOUNT) (empty_db DB_ACCOUNT) (SubCache ?n new_free) =
        Some (empty_db DB_ACCOUNT, SubCache (Clear_node ?n) b')"
      "view (bytes_ops KEYID_ACCOUNT) (empty_db DB_ACCOUNT) b' =
        view (bytes_ops KEYID_ACCOUNT) (empty_db DB_ACCOUNT) (SubCache ?n new_free)"
    using composite_flush_base [OF bytes_ok [of DB_ACCOUNT], of ?n new_free] by blast
  have "view (bytes_ops KEYID_ACCOUNT) (empty_db DB_ACCOUNT) (SubCache ?n new_free) ''k'' = Some ''v''"
    by (simp add: view_def visible_def)
  moreover have "Clear_node ?n = empty_node False"
    by (simp add: Clear_node_def empty_node_def)
  ultimately show ?thesis
    using b' by (metis)
qed

text \<open>
  Claim C3: flushing a cache into the database writes exactly what the cache showed: a reader
  of the database alone then sees what the cache showed, an empty value having deleted its
  key, and every database key of another prefix keeps its value, since no prefix is a prefix
  of another.
\<close>

theorem composite_flush_db:
  assumes "access_ok T d"
  shows "\<exists>d'. Flush T d (DbCache n) = Some (d', DbCache (Clear_node n)) \<and>
    visible T (db_val T d') = view T d (DbCache n) \<and>
    view T d' (DbCache (Clear_node n)) = view T d (DbCache n) \<and>
    (\<forall>q key. is_data_prefix q \<and> q \<noteq> prefix_type T \<longrightarrow>
       sm_find (ldb_data (ldb d')) (GetKeyPrefix q @ key) = sm_find (ldb_data (ldb d)) (GetKeyPrefix q @ key))"
proof -
  obtain d' where d': "Flush T d (DbCache n) = Some (d', DbCache (Clear_node n))"
    "\<And>key. (\<forall>k. key \<noteq> GetKeyPrefix (prefix_type T) @ ser_key T k) \<Longrightarrow>
       sm_find (ldb_data (ldb d')) key = sm_find (ldb_data (ldb d)) key"
    using flush_db [OF assms, of n] by metis
  then have "flush_to_db T n d = Some (Clear_node n, d')"
    by (simp add: flush_to_db_def)
  note over_db.flush_transparent [OF assms this]
  moreover have "GetKeyPrefix q @ key \<noteq> GetKeyPrefix (prefix_type T) @ ser_key T k"
    if "is_data_prefix q" "q \<noteq> prefix_type T" for q key k
    using that prefix_free [of q "prefix_type T" key "ser_key T k"] assms by auto
  ultimately show ?thesis
    using d' by auto
qed

theorem composite_flush_db_witness:
  "\<exists>d'. Flush (bytes_ops KEYID_ACCOUNT) (empty_db DB_ACCOUNT)
       (DbCache ((empty_node True)\<lparr>mapData := sm_set ''k'' ''v'' sm_empty\<rparr>)) =
       Some (d', DbCache (empty_node True)) \<and>
     db_val (bytes_ops KEYID_ACCOUNT) d' ''k'' = Some ''v''"
proof -
  let ?n = "(empty_node True)\<lparr>mapData := sm_set ''k'' ''v'' sm_empty\<rparr>"
  obtain d' where d': "Flush (bytes_ops KEYID_ACCOUNT) (empty_db DB_ACCOUNT) (DbCache ?n) =
        Some (d', DbCache (Clear_node ?n))"
      "visible (bytes_ops KEYID_ACCOUNT) (db_val (bytes_ops KEYID_ACCOUNT) d') =
        view (bytes_ops KEYID_ACCOUNT) (empty_db DB_ACCOUNT) (DbCache ?n)"
    using composite_flush_db [OF bytes_ok [of DB_ACCOUNT], of ?n] by blast
  have "view (bytes_ops KEYID_ACCOUNT) (empty_db DB_ACCOUNT) (DbCache ?n) ''k'' = Some ''v''"
    by (simp add: view_def visible_def)
  then have "db_val (bytes_ops KEYID_ACCOUNT) d' ''k'' = Some ''v''"
    using fun_cong [OF d'(2), of "''k''"] by (auto simp: visible_def split: option.splits if_splits)
  moreover have "Clear_node ?n = empty_node True"
    by (simp add: Clear_node_def empty_node_def)
  ultimately show ?thesis
    using d'(1) by metis
qed

text \<open>
  Claim C6: any run of \<open>SetData\<close> and \<open>EraseData\<close> calls with a log attached succeeds, and
  replaying the entries it logged for the prefix with \<open>UndoDataList\<close> restores every
  reading of the cache before the run.
\<close>

theorem composite_undo_run:
  assumes "access_ok T d"
  shows "\<exists>c' m c''. fold_opt (run_write T d) ws (c, Some sm_empty) = Some (c', Some m) \<and>
    UndoDataList T (logs_of (prefix_type T) m) c' = Some c'' \<and> view T d c'' = view T d c"
proof -
  obtain c' es where run: "run_logged (kv_step T d) ws c = Some (c', es)"
      "fold_opt (run_write T d) ws (c, Some sm_empty) = Some (c', Some (append_logs (prefix_type T) es sm_empty))"
    using run_writes_logged [OF assms] by blast
  have "logs_of (prefix_type T) (append_logs (prefix_type T) es sm_empty) = es"
    using assms by (simp add: logs_of_append_logs)
  with run composite_undo.run_undo [OF assms run(1) assms refl] show ?thesis
    by (auto simp: UndoDataList_def)
qed

theorem composite_undo_run_witness:
  "\<exists>c' m c''. fold_opt (run_write (bytes_ops KEYID_ACCOUNT) (empty_db DB_ACCOUNT))
       [WSet ''k'' ''v'', WErase ''k'', WSet ''k'' ''w''] (new_free, Some sm_empty) = Some (c', Some m) \<and>
     UndoDataList (bytes_ops KEYID_ACCOUNT) (logs_of KEYID_ACCOUNT m) c' = Some c'' \<and>
     view (bytes_ops KEYID_ACCOUNT) (empty_db DB_ACCOUNT) c'' =
       view (bytes_ops KEYID_ACCOUNT) (empty_db DB_ACCOUNT) new_free"
  using composite_undo_run [OF bytes_ok [of DB_ACCOUNT]]
  by (simp del: fold_opt.simps)

text \<open>
  The size counter of a layer that counts stays equal to the sum of the serialised
  sizes of the keys and values it holds, through \<open>SetData\<close>, as long as the entries fit the
  counter's 32 bits; the counter of a cleared cache is zero.
\<close>

theorem composite_size_counter:
  fixes c :: "('k::linorder, 'v) kvcache"
  assumes "access_ok T d" and "size_ok T (node_of c)"
    and "total_size T (node_of c) + old_item T k (raw T d c k) + item_size T (k, v) < 2 ^ 32"
    and "SetData T d k v c lg = Some (r, c', lg')" and "is_calc_size (node_of c')"
  shows "unat (GetCacheSize c') = total_size T (node_of c') \<and> GetCacheSize (Clear c') = 0"
  using SetData_size_ok [OF assms(1-4)] assms(5)
  by (simp_all add: size_ok_def GetCacheSize_def Clear_def)

theorem composite_size_counter_witness:
  "unat (GetCacheSize (fst (snd (the (SetData (bytes_ops KEYID_ACCOUNT) (empty_db DB_ACCOUNT) ''key'' ''v''
     (DbCache (empty_node True)) None))))) = 4"
proof -
  let ?T = "bytes_ops KEYID_ACCOUNT" and ?d = "empty_db DB_ACCOUNT"
  let ?c' = "DbCache ((empty_node True)\<lparr>mapData := sm_set ''key'' ''v'' sm_empty, csize := 4\<rparr>)"
  have run: "SetData ?T ?d ''key'' ''v'' (DbCache (empty_node True)) None = Some (True, ?c', None)"
    by (simp add: SetData_def DbAccess_GetData_ok AddOpLog_def
        AddDataToMap_def IncDataSize2_def db_val_def empty_node_def)
  have "unat (GetCacheSize ?c') = total_size ?T (node_of ?c')"
    by (rule composite_size_counter [OF bytes_ok _ _ run, THEN conjunct1])
      (simp_all add: size_ok_def total_size_def empty_node_def old_item_def db_val_def
        item_size_def)
  then show ?thesis
    using run by (simp add: total_size_def sm_simps item_size_def)
qed

end
