(* ===== verification/Simple_Cache.thy ===== *)
theory Simple_Cache
  imports Kv_Cache_Laws
begin

text \<open>
  \<open>InerySimpleKVCache\<close> of \<open>dbaccess.h\<close>: the cache of a single value, stored in the database
  under the bare prefix.  The layers are \<open>SFree\<close> (no base yet), \<open>SDb\<close> (over a database) and
  \<open>SSub\<close> (over another cache); the option is the pointer \<open>ptrData\<close>.  The template arguments
  are a \<open>kvops\<close> whose key type is \<open>unit\<close>.  \<open>GetDataPtr\<close> asserts that a value read from the
  database is not empty; \<open>simple_ok\<close> says that the database meets the assertion, and every
  flush keeps it.
\<close>

section \<open>Operations\<close>

datatype 'v simple_cache = SFree "'v option" | SDb "'v option" | SSub "'v option" "'v simple_cache"

fun ptrData :: "'v simple_cache \<Rightarrow> 'v option" where
  "ptrData (SFree p) = p"
| "ptrData (SDb p) = p"
| "ptrData (SSub p b) = p"

fun set_ptrData :: "'v option \<Rightarrow> 'v simple_cache \<Rightarrow> 'v simple_cache" where
  "set_ptrData p (SFree _) = SFree p"
| "set_ptrData p (SDb _) = SDb p"
| "set_ptrData p (SSub _ b) = SSub p b"

text \<open>The constructors do not check that the database matches the prefix.\<close>

definition simple_new_free :: "'v simple_cache" where
  "simple_new_free = SFree None"

definition simple_new_on_base :: "'v simple_cache \<Rightarrow> 'v simple_cache" where
  "simple_new_on_base base = SSub None base"

definition simple_new_on_db :: "'v simple_cache" where
  "simple_new_on_db = SDb None"

fun Simple_SetBase :: "'v simple_cache \<Rightarrow> 'v simple_cache \<Rightarrow> 'v simple_cache option" where
  "Simple_SetBase base (SDb p) = None"
| "Simple_SetBase base (SFree p) = (if p = None then Some (SSub p base) else None)"
| "Simple_SetBase base (SSub p _) = (if p = None then Some (SSub p base) else None)"

definition Simple_GetCacheSize :: "(unit, 'v) kvops \<Rightarrow> 'v simple_cache \<Rightarrow> uint32" where
  "Simple_GetCacheSize T c = (case ptrData c of None \<Rightarrow> 0 | Some v \<Rightarrow> val_size T v)"

fun GetDataPtr ::
  "(unit, 'v) kvops \<Rightarrow> CDBAccess \<Rightarrow> 'v simple_cache \<Rightarrow> ('v simple_cache \<times> 'v option) option" where
  "GetDataPtr T d (SFree p) = Some (SFree p, p)"
| "GetDataPtr T d (SDb p) =
     (case p of
        Some v \<Rightarrow> Some (SDb p, Some v)
      | None \<Rightarrow>
          do { r \<leftarrow> DbAccess_GetData1 (unser_val T) d (prefix_type T);
               case r of
                 None \<Rightarrow> Some (SDb None, None)
               | Some v \<Rightarrow> if val_empty T v then None else Some (SDb (Some v), Some v) })"
| "GetDataPtr T d (SSub p b) =
     (case p of
        Some v \<Rightarrow> Some (SSub p b, Some v)
      | None \<Rightarrow>
          do { (b', r) \<leftarrow> GetDataPtr T d b;
               Some (SSub r b', r) })"

definition Simple_AddOpLog ::
  "(unit, 'v) kvops \<Rightarrow> 'v \<Rightarrow> CDBOpLogMap option \<Rightarrow> CDBOpLogMap option option" where
  "Simple_AddOpLog T old lg =
     (case lg of
        None \<Rightarrow> Some None
      | Some m \<Rightarrow> map_option Some (OpLogMap_AddOpLog (prefix_type T) (OpLog_Set1 (ser_val T) old) m))"

definition Simple_GetData ::
  "(unit, 'v) kvops \<Rightarrow> CDBAccess \<Rightarrow> 'v simple_cache \<Rightarrow> ('v simple_cache \<times> 'v option) option" where
  "Simple_GetData T d c =
     do { (c', r) \<leftarrow> GetDataPtr T d c;
          case r of
            Some v \<Rightarrow> if \<not> val_empty T v then Some (c', Some v) else Some (c', None)
          | None \<Rightarrow> Some (c', None) }"

definition Simple_SetData ::
  "(unit, 'v) kvops \<Rightarrow> CDBAccess \<Rightarrow> 'v \<Rightarrow> 'v simple_cache \<Rightarrow> CDBOpLogMap option \<Rightarrow>
     (bool \<times> 'v simple_cache \<times> CDBOpLogMap option) option" where
  "Simple_SetData T d v c lg =
     do { (c1, _) \<leftarrow> GetDataPtr T d c;
          let old = (case ptrData c1 of None \<Rightarrow> empty_val T | Some w \<Rightarrow> w);
          lg' \<leftarrow> Simple_AddOpLog T old lg;
          Some (True, set_ptrData (Some v) c1, lg') }"

definition Simple_HasData ::
  "(unit, 'v) kvops \<Rightarrow> CDBAccess \<Rightarrow> 'v simple_cache \<Rightarrow> ('v simple_cache \<times> bool) option" where
  "Simple_HasData T d c =
     do { (c', r) \<leftarrow> GetDataPtr T d c;
          Some (c', (case r of Some v \<Rightarrow> \<not> val_empty T v | None \<Rightarrow> False)) }"

definition Simple_EraseData ::
  "(unit, 'v) kvops \<Rightarrow> CDBAccess \<Rightarrow> 'v simple_cache \<Rightarrow> CDBOpLogMap option \<Rightarrow>
     (bool \<times> 'v simple_cache \<times> CDBOpLogMap option) option" where
  "Simple_EraseData T d c lg =
     do { (c1, r) \<leftarrow> GetDataPtr T d c;
          case r of
            None \<Rightarrow> Some (True, c1, lg)
          | Some v \<Rightarrow>
              if val_empty T v then Some (True, c1, lg)
              else do { lg' \<leftarrow> Simple_AddOpLog T v lg;
                        Some (True, set_ptrData (Some (set_empty T v)) c1, lg') } }"

definition Simple_Clear :: "'v simple_cache \<Rightarrow> 'v simple_cache" where
  "Simple_Clear c = set_ptrData None c"

fun Simple_Flush ::
  "(unit, 'v) kvops \<Rightarrow> CDBAccess \<Rightarrow> 'v simple_cache \<Rightarrow> (CDBAccess \<times> 'v simple_cache) option" where
  "Simple_Flush T d (SFree p) = None"
| "Simple_Flush T d (SSub p b) =
     (case p of
        None \<Rightarrow> Some (d, SSub None b)
      | Some v \<Rightarrow> Some (d, SSub None (set_ptrData (Some v) b)))"
| "Simple_Flush T d (SDb p) =
     (case p of
        None \<Rightarrow> Some (d, SDb None)
      | Some v \<Rightarrow>
          do { d' \<leftarrow> DbAccess_WriteBatch1 (val_empty T) (ser_val T) d (prefix_type T) v;
               Some (d', SDb None) })"

text \<open>\<open>UndoData\<close> reads the logged value into \<open>*ptrData\<close>; the key of the entry is not used.\<close>

definition Simple_UndoData :: "(unit, 'v) kvops \<Rightarrow> CDbOpLog \<Rightarrow> 'v simple_cache \<Rightarrow> 'v simple_cache option" where
  "Simple_UndoData T e c = do { v \<leftarrow> OpLog_Get1 (unser_val T) e; Some (set_ptrData (Some v) c) }"

definition Simple_UndoDataList ::
  "(unit, 'v) kvops \<Rightarrow> CDbOpLogs \<Rightarrow> 'v simple_cache \<Rightarrow> 'v simple_cache option" where
  "Simple_UndoDataList T logs c = fold_opt (Simple_UndoData T) (rev logs) c"

section \<open>What a client sees\<close>

definition sdb_val :: "(unit, 'v) kvops \<Rightarrow> CDBAccess \<Rightarrow> 'v option" where
  "sdb_val T d =
     (case sm_find (ldb_data (ldb d)) (GetKeyPrefix (prefix_type T)) of
        Some s \<Rightarrow> unser_val T s | None \<Rightarrow> None)"

definition simple_ok :: "(unit, 'v) kvops \<Rightarrow> CDBAccess \<Rightarrow> bool" where
  "simple_ok T d \<longleftrightarrow> access_ok T d \<and> (case sdb_val T d of Some v \<Rightarrow> \<not> val_empty T v | None \<Rightarrow> True)"

fun sraw :: "(unit, 'v) kvops \<Rightarrow> CDBAccess \<Rightarrow> 'v simple_cache \<Rightarrow> 'v option" where
  "sraw T d (SFree p) = p"
| "sraw T d (SDb p) = (case p of Some v \<Rightarrow> Some v | None \<Rightarrow> sdb_val T d)"
| "sraw T d (SSub p b) = (case p of Some v \<Rightarrow> Some v | None \<Rightarrow> sraw T d b)"

definition nonempty :: "(unit, 'v) kvops \<Rightarrow> 'v option \<Rightarrow> 'v option" where
  "nonempty T r = (case r of Some v \<Rightarrow> if val_empty T v then None else Some v | None \<Rightarrow> None)"

definition sview :: "(unit, 'v) kvops \<Rightarrow> CDBAccess \<Rightarrow> 'v simple_cache \<Rightarrow> 'v option" where
  "sview T d c = nonempty T (sraw T d c)"

lemma simple_okD [simp]:
  assumes "simple_ok T d"
  shows "access_ok T d" "kv_wf T"
  using assms access_okD(1) by (auto simp: simple_ok_def)

lemma GetData1_ok: "access_ok T d \<Longrightarrow> DbAccess_GetData1 (unser_val T) d (prefix_type T) = Some (sdb_val T d)"
  by (simp add: DbAccess_GetData1_def Read_healthy sdb_val_def)

lemma sraw_set_ptrData [simp]:
  "sraw T d (set_ptrData (Some v) c) = Some v" "ptrData (set_ptrData p c) = p"
  by (cases c; simp)+

lemma sraw_ptrData: "ptrData c = Some v \<Longrightarrow> sraw T d c = Some v"
  by (cases c) auto

lemma GetDataPtr_ok:
  assumes "simple_ok T d"
  shows "\<exists>c'. GetDataPtr T d c = Some (c', sraw T d c) \<and> sraw T d c' = sraw T d c \<and>
    ptrData c' = sraw T d c"
proof (induction c)
  case (SDb p)
  show ?case
    using assms by (cases p; cases "sdb_val T d") (auto simp: GetData1_ok simple_ok_def)
next
  case (SSub p b)
  then obtain b' where "GetDataPtr T d b = Some (b', sraw T d b)" "sraw T d b' = sraw T d b"
    by blast
  then show ?case
    by (cases p; cases "sraw T d b") auto
qed auto

lemma GetDataPtr_obtain:
  assumes "simple_ok T d"
  obtains c' where "GetDataPtr T d c = Some (c', sraw T d c)" "sraw T d c' = sraw T d c"
    "ptrData c' = sraw T d c"
  using GetDataPtr_ok [OF assms] by blast

lemma Simple_AddOpLog_ok:
  assumes "kv_wf T"
  shows "Simple_AddOpLog T old lg =
    Some (map_option (append_logs (prefix_type T) [OpLog_Set1 (ser_val T) old]) lg)"
proof -
  have "prefix_type T \<noteq> EMPTY"
    using kv_wfD(1) [OF assms] by (simp add: is_data_prefix_def)
  then show ?thesis
    by (cases lg)
      (simp_all add: Simple_AddOpLog_def OpLogMap_AddOpLog_def append_logs_def logs_of_def Let_def)
qed

section \<open>The contracts, on the model\<close>

lemma Simple_GetData_spec:
  assumes "simple_ok T d"
  shows "\<exists>c'. Simple_GetData T d c = Some (c', sview T d c) \<and>
    Simple_HasData T d c = Some (c', sview T d c \<noteq> None) \<and> sview T d c' = sview T d c"
proof -
  obtain c' where "GetDataPtr T d c = Some (c', sraw T d c)" "sraw T d c' = sraw T d c"
    using GetDataPtr_obtain [OF assms] by metis
  then show ?thesis
    by (auto simp: Simple_GetData_def Simple_HasData_def sview_def nonempty_def split: option.split)
qed

lemma Simple_SetData_spec:
  assumes "simple_ok T d"
  shows "\<exists>c'. (\<forall>lg. Simple_SetData T d v c lg = Some (True, c',
       map_option (append_logs (prefix_type T)
         [OpLog_Set1 (ser_val T) (case sraw T d c of None \<Rightarrow> empty_val T | Some w \<Rightarrow> w)]) lg)) \<and>
    sview T d c' = nonempty T (Some v)"
proof -
  obtain c1 where "GetDataPtr T d c = Some (c1, sraw T d c)" "ptrData c1 = sraw T d c"
    using GetDataPtr_obtain [OF assms] by metis
  with assms show ?thesis
    by (auto simp: Simple_SetData_def Simple_AddOpLog_ok sview_def)
qed

lemma Simple_EraseData_spec:
  assumes "simple_ok T d"
  shows "\<exists>c'. (\<forall>lg. Simple_EraseData T d c lg = Some (True, c',
       (case sview T d c of
          None \<Rightarrow> lg
        | Some w \<Rightarrow> map_option (append_logs (prefix_type T) [OpLog_Set1 (ser_val T) w]) lg))) \<and>
    sview T d c' = None"
proof -
  obtain c1 where c1: "GetDataPtr T d c = Some (c1, sraw T d c)" "sraw T d c1 = sraw T d c"
    using GetDataPtr_obtain [OF assms] by metis
  show ?thesis
  proof (cases "sview T d c")
    case None
    with c1 show ?thesis
      by (auto simp: Simple_EraseData_def sview_def nonempty_def split: option.splits if_splits)
  next
    case (Some w)
    then have "sraw T d c = Some w" "\<not> val_empty T w"
      by (auto simp: sview_def nonempty_def split: option.splits if_splits)
    with c1 Some assms show ?thesis
      by (auto simp: Simple_EraseData_def Simple_AddOpLog_ok sview_def nonempty_def)
  qed
qed

definition sget_op ::
  "(unit, 'v) kvops \<Rightarrow> CDBAccess \<Rightarrow> unit \<Rightarrow> 'v simple_cache \<times> CDBOpLogMap option \<Rightarrow>
     (('v simple_cache \<times> CDBOpLogMap option) \<times> 'v option) option" where
  "sget_op T d k s = map_option (\<lambda>(c, r). ((c, snd s), r)) (Simple_GetData T d (fst s))"

definition shas_op ::
  "(unit, 'v) kvops \<Rightarrow> CDBAccess \<Rightarrow> unit \<Rightarrow> 'v simple_cache \<times> CDBOpLogMap option \<Rightarrow>
     (('v simple_cache \<times> CDBOpLogMap option) \<times> bool) option" where
  "shas_op T d k s = map_option (\<lambda>(c, r). ((c, snd s), r)) (Simple_HasData T d (fst s))"

definition sput_op ::
  "(unit, 'v) kvops \<Rightarrow> CDBAccess \<Rightarrow> unit \<Rightarrow> 'v \<Rightarrow> 'v simple_cache \<times> CDBOpLogMap option \<Rightarrow>
     (bool \<times> ('v simple_cache \<times> CDBOpLogMap option)) option" where
  "sput_op T d k v s = Simple_SetData T d v (fst s) (snd s)"

definition sdel_op ::
  "(unit, 'v) kvops \<Rightarrow> CDBAccess \<Rightarrow> unit \<Rightarrow> 'v simple_cache \<times> CDBOpLogMap option \<Rightarrow>
     (bool \<times> ('v simple_cache \<times> CDBOpLogMap option)) option" where
  "sdel_op T d k s = Simple_EraseData T d (fst s) (snd s)"

interpretation simple: kv_store
  "\<lambda>_. simple_ok T d" "\<lambda>s _. sview T d (fst s)" "sget_op T d" "shas_op T d" "sput_op T d" "sdel_op T d"
  "\<lambda>_. False" "val_empty T" for T d
proof (unfold_locales, goal_cases)
  case (2 s k)
  then show ?case using Simple_GetData_spec [OF 2, of "fst s"] by (auto simp: sget_op_def)
next
  case (3 s k)
  then show ?case using Simple_GetData_spec [OF 3, of "fst s"] by (auto simp: shas_op_def)
next
  case (4 s k v)
  then show ?case
    using Simple_SetData_spec [OF 4, of v "fst s"] by (auto simp: sput_op_def nonempty_def fun_eq_iff)
next
  case (5 s k)
  then show ?case
    using Simple_EraseData_spec [OF 5, of "fst s"] by (auto simp: sdel_op_def fun_eq_iff)
qed simp

definition sflush_to_base ::
  "(unit, 'v) kvops \<Rightarrow> CDBAccess \<Rightarrow> 'v option \<Rightarrow> 'v simple_cache \<Rightarrow> ('v option \<times> 'v simple_cache) option" where
  "sflush_to_base T d p b =
     (case Simple_Flush T d (SSub p b) of Some (_, SSub p' b') \<Rightarrow> Some (p', b') | _ \<Rightarrow> None)"

definition sflush_to_db ::
  "(unit, 'v) kvops \<Rightarrow> 'v option \<Rightarrow> CDBAccess \<Rightarrow> ('v option \<times> CDBAccess) option" where
  "sflush_to_db T p d =
     (case Simple_Flush T d (SDb p) of Some (d', SDb p') \<Rightarrow> Some (p', d') | _ \<Rightarrow> None)"

interpretation simple_over_base: write_back
  "\<lambda>_ _. simple_ok T d" "\<lambda>p b. sview T d (SSub p b)" "sview T d" "sflush_to_base T d"
  "\<lambda>p. p = None" for T d
  by unfold_locales (auto simp: sflush_to_base_def sview_def split: option.splits)

text \<open>Writing the value to the database, or erasing it when it is empty.\<close>

lemma simple_flush_db:
  assumes "simple_ok T d"
  shows "\<exists>d'. Simple_Flush T d (SDb p) = Some (d', SDb None) \<and> simple_ok T d' \<and>
    sdb_val T d' = sview T d (SDb p) \<and>
    (\<forall>key. key \<noteq> GetKeyPrefix (prefix_type T) \<longrightarrow>
       sm_find (ldb_data (ldb d')) key = sm_find (ldb_data (ldb d)) key)"
proof (cases p)
  case None
  with assms show ?thesis
    by (auto simp: sview_def nonempty_def simple_ok_def split: option.splits)
next
  case (Some v)
  let ?pre = "GetKeyPrefix (prefix_type T)"
  let ?b = "if val_empty T v then [Delete ?pre] else [Put ?pre (ser_val T v)]"
  let ?d' = "d\<lparr>ldb := (ldb d)\<lparr>ldb_data := apply_batch ?b (ldb_data (ldb d))\<rparr>\<rparr>"
  have ok: "access_ok T d" and wf: "kv_wf T"
    using assms by auto
  then have h: "ldb_healthy (ldb d)"
    by simp
  have wb: "DbAccess_WriteBatch1 (val_empty T) (ser_val T) d (prefix_type T) v = Some ?d'"
    using h by (simp add: DbAccess_WriteBatch1_def DbAccess_WriteBatch_def WriteBatch_healthy
        Batch_Write_def Batch_Erase_def Let_def)
  have acc: "access_ok T ?d'"
    using wf h by (simp add: access_ok_def del: access_okD)
  have val: "sdb_val T ?d' = sview T d (SDb p)"
    using wf Some by (simp add: sdb_val_def sview_def nonempty_def apply_batch_def)
  have "simple_ok T ?d'"
    unfolding simple_ok_def val using acc by (auto simp: sview_def nonempty_def split: option.splits)
  moreover have "sm_find (ldb_data (ldb ?d')) key = sm_find (ldb_data (ldb d)) key" if "key \<noteq> ?pre" for key
    using that by (simp add: apply_batch_def)
  ultimately show ?thesis
    using Some wb val by (intro exI [of _ ?d']) simp
qed

interpretation simple_over_db: write_back
  "\<lambda>_ d. simple_ok T d" "\<lambda>p d. sview T d (SDb p)" "\<lambda>d. nonempty T (sdb_val T d)" "sflush_to_db T"
  "\<lambda>p. p = None" for T
proof (unfold_locales, goal_cases)
  case (1 p d)
  have "nonempty T (sview T d (SDb p)) = sview T d (SDb p)"
    by (auto simp: sview_def nonempty_def split: option.splits)
  with simple_flush_db [OF 1, of p] show ?case
    by (auto simp: sflush_to_db_def)
qed (simp add: sview_def)

section \<open>Undo\<close>

datatype 'v simple_write = SSet 'v | SErase

fun simple_run ::
  "(unit, 'v) kvops \<Rightarrow> CDBAccess \<Rightarrow> 'v simple_write \<Rightarrow> 'v simple_cache \<times> CDBOpLogMap option \<Rightarrow>
     ('v simple_cache \<times> CDBOpLogMap option) option" where
  "simple_run T d (SSet v) (c, lg) = map_option snd (Simple_SetData T d v c lg)"
| "simple_run T d SErase (c, lg) = map_option snd (Simple_EraseData T d c lg)"

definition simple_step ::
  "(unit, 'v) kvops \<Rightarrow> CDBAccess \<Rightarrow> 'v simple_write \<Rightarrow> 'v simple_cache \<Rightarrow>
     ('v simple_cache \<times> CDbOpLogs) option" where
  "simple_step T d w c =
     (case simple_run T d w (c, Some sm_empty) of
        Some (c', Some m) \<Rightarrow> Some (c', logs_of (prefix_type T) m) | _ \<Rightarrow> None)"

lemma simple_run_spec:
  assumes "simple_ok T d"
  shows "\<exists>c' es. (\<forall>lg. simple_run T d w (c, lg) =
       Some (c', map_option (append_logs (prefix_type T) es) lg)) \<and>
     simple_step T d w c = Some (c', es) \<and>
     (es = [] \<and> sview T d c' = sview T d c \<or>
      (\<exists>v. es = [OpLog_Set1 (ser_val T) v] \<and> nonempty T (Some v) = sview T d c))"
proof (cases w)
  case (SSet v)
  let ?old = "case sraw T d c of None \<Rightarrow> empty_val T | Some w \<Rightarrow> w"
  have "nonempty T (Some ?old) = sview T d c"
    using assms by (auto simp: nonempty_def sview_def split: option.split)
  with SSet Simple_SetData_spec [OF assms, of v c] assms show ?thesis
    by (auto simp: simple_step_def logs_of_append_logs)
next
  case SErase
  show ?thesis
  proof (cases "sview T d c")
    case None
    obtain c' where c': "\<forall>lg. Simple_EraseData T d c lg = Some (True, c', lg)" "sview T d c' = None"
      using Simple_EraseData_spec [OF assms, of c] None by auto
    have "append_logs (prefix_type T) [] = (\<lambda>m. m)"
      by (simp add: append_logs_def fun_eq_iff)
    with SErase None c' show ?thesis
      by (intro exI [of _ c'] exI [of _ "[]"]) (simp add: simple_step_def option.map_ident)
  next
    case (Some v)
    then have "nonempty T (Some v) = sview T d c"
      by (auto simp: nonempty_def sview_def split: option.splits if_splits)
    with Some SErase Simple_EraseData_spec [OF assms, of c] assms show ?thesis
      by (auto simp: simple_step_def logs_of_append_logs)
  qed
qed

interpretation simple_undo: undo_log
  "\<lambda>_. simple_ok T d" "sview T d" "simple_step T d" "Simple_UndoData T" for T d
proof (unfold_locales, goal_cases)
  case (1 s x)
  then show ?case using simple_run_spec by metis
next
  case (2 s x s' es t)
  then have "es = [] \<and> sview T d s' = sview T d s \<or>
      (\<exists>v. es = [OpLog_Set1 (ser_val T) v] \<and> nonempty T (Some v) = sview T d s)"
    using simple_run_spec [OF 2(1), of x s] by auto
  with 2 show ?case
    by (auto simp: Simple_UndoData_def OpLog_Get1_def OpLog_Set1_def sview_def)
qed

lemma simple_runs_logged:
  assumes "simple_ok T d"
  shows "\<exists>c' es. run_logged (simple_step T d) ws c = Some (c', es) \<and>
    fold_opt (simple_run T d) ws (c, Some m) = Some (c', Some (append_logs (prefix_type T) es m))"
proof (induction ws arbitrary: c m)
  case Nil
  then show ?case by (simp add: append_logs_def)
next
  case (Cons w ws)
  obtain c1 e1 where c1: "\<forall>lg. simple_run T d w (c, lg) =
       Some (c1, map_option (append_logs (prefix_type T) e1) lg)" "simple_step T d w c = Some (c1, e1)"
    using simple_run_spec [OF assms] by metis
  obtain c' es where "run_logged (simple_step T d) ws c1 = Some (c', es)"
    "fold_opt (simple_run T d) ws (c1, Some (append_logs (prefix_type T) e1 m)) =
       Some (c', Some (append_logs (prefix_type T) es (append_logs (prefix_type T) e1 m)))"
    using Cons.IH by blast
  with c1 show ?case
    by (intro exI [of _ c'] exI [of _ "e1 @ es"]) simp
qed

section \<open>Properties\<close>

definition bytes1_ops :: "PrefixType \<Rightarrow> (unit, string) kvops" where
  "bytes1_ops p = \<lparr>prefix_type = p, key_empty = (\<lambda>_. False), val_empty = (\<lambda>v. v = []),
     empty_val = [], set_empty = (\<lambda>_. []), ser_key = (\<lambda>_. []),
     unser_key = (\<lambda>s. Some ()), ser_val = (\<lambda>v. v), unser_val = Some,
     key_size = (\<lambda>_. 0), val_size = (\<lambda>v. of_nat (length v))\<rparr>"

lemma bytes1_simps [simp]: "prefix_type (bytes1_ops p) = p" "val_empty (bytes1_ops p) v = (v = [])"
  "unser_val (bytes1_ops p) s = Some s" "ser_val (bytes1_ops p) v = v"
  by (simp_all add: bytes1_ops_def)

lemma bytes1_ok [simp]: "simple_ok (bytes1_ops BEST_BLOCKHASH) (empty_db t)"
proof -
  have "kv_wf (bytes1_ops BEST_BLOCKHASH)"
    by (simp add: kv_wf_def bytes1_ops_def is_data_prefix_def)
  then have "access_ok (bytes1_ops BEST_BLOCKHASH) (empty_db t)"
    by (simp add: access_ok_def ldb_healthy_def empty_db_def del: access_okD)
  then show ?thesis
    by (simp add: simple_ok_def sdb_val_def)
qed

text \<open>
  The single-value cache behaves as a variable over any stack of layers: after
  \<open>SetData\<close> a \<open>GetData\<close> reads the value set (nothing when it is empty), after \<open>EraseData\<close> it
  reads nothing, \<open>HasData\<close> agrees, and no call fails.
\<close>

theorem simple_set_get_erase:
  assumes "simple_ok T d"
  shows "\<exists>c1 lg1. Simple_SetData T d v c lg = Some (True, c1, lg1) \<and>
    (\<exists>c2. Simple_GetData T d c1 = Some (c2, if val_empty T v then None else Some v) \<and>
          Simple_HasData T d c1 = Some (c2, \<not> val_empty T v)) \<and>
    (\<exists>c3 lg3 c4. Simple_EraseData T d c1 lg1 = Some (True, c3, lg3) \<and>
                 Simple_GetData T d c3 = Some (c4, None))"
proof -
  obtain c1 lg1 where c1: "Simple_SetData T d v c lg = Some (True, c1, lg1)"
      "sview T d c1 = nonempty T (Some v)"
    using Simple_SetData_spec [OF assms, of v c] by blast
  obtain c3 lg3 where c3: "Simple_EraseData T d c1 lg1 = Some (True, c3, lg3)" "sview T d c3 = None"
    using Simple_EraseData_spec [OF assms, of c1] by blast
  show ?thesis
    using c1 c3 Simple_GetData_spec [OF assms, of c1] Simple_GetData_spec [OF assms, of c3]
    by (auto simp: nonempty_def)
qed

theorem simple_set_get_erase_witness:
  "\<exists>c1 lg1. Simple_SetData (bytes1_ops BEST_BLOCKHASH) (empty_db DB_BLOCK) ''h'' (SSub None (SDb None)) None =
       Some (True, c1, lg1) \<and>
     (\<exists>c2. Simple_GetData (bytes1_ops BEST_BLOCKHASH) (empty_db DB_BLOCK) c1 = Some (c2, Some ''h''))"
  using simple_set_get_erase [OF bytes1_ok [of DB_BLOCK], of "''h''" "SSub None (SDb None)" None]
  by auto

text \<open>
  Claim C14: flushing a single-value cache into its base, or into the database, leaves the
  cache empty and makes the layer below show what the cache showed; a second flush is a
  no-op for the database, every other database key keeps its value, and the database still
  meets the assertion of \<open>GetDataPtr\<close>.
\<close>

theorem simple_flush:
  assumes "simple_ok T d"
  shows "(\<exists>b'. Simple_Flush T d (SSub p b) = Some (d, SSub None b') \<and> sview T d b' = sview T d (SSub p b)) \<and>
    (\<exists>d'. Simple_Flush T d (SDb p) = Some (d', SDb None) \<and> simple_ok T d' \<and>
       nonempty T (sdb_val T d') = sview T d (SDb p) \<and>
       Simple_Flush T d' (SDb None) = Some (d', SDb None) \<and>
       (\<forall>key. key \<noteq> GetKeyPrefix (prefix_type T) \<longrightarrow>
          sm_find (ldb_data (ldb d')) key = sm_find (ldb_data (ldb d)) key))"
proof -
  obtain b' where b': "Simple_Flush T d (SSub p b) = Some (d, SSub None b')"
    by (cases p) auto
  then have "sflush_to_base T d p b = Some (None, b')"
    by (simp add: sflush_to_base_def)
  note base = simple_over_base.flush_transparent(2) [OF assms this]
  obtain d' where d': "Simple_Flush T d (SDb p) = Some (d', SDb None)" "simple_ok T d'"
    "\<forall>key. key \<noteq> GetKeyPrefix (prefix_type T) \<longrightarrow>
       sm_find (ldb_data (ldb d')) key = sm_find (ldb_data (ldb d)) key"
    using simple_flush_db [OF assms, of p] by blast
  then have "sflush_to_db T p d = Some (None, d')"
    by (simp add: sflush_to_db_def)
  from simple_over_db.flush_transparent(2) [OF assms this] base b' d' show ?thesis
    by auto
qed

theorem simple_flush_witness:
  "\<exists>d'. Simple_Flush (bytes1_ops BEST_BLOCKHASH) (empty_db DB_BLOCK) (SDb (Some ''h'')) = Some (d', SDb None) \<and>
     nonempty (bytes1_ops BEST_BLOCKHASH) (sdb_val (bytes1_ops BEST_BLOCKHASH) d') = Some ''h''"
proof -
  have "sview (bytes1_ops BEST_BLOCKHASH) (empty_db DB_BLOCK) (SDb (Some ''h'')) = Some ''h''"
    by (simp add: sview_def nonempty_def)
  with simple_flush [OF bytes1_ok [of DB_BLOCK], of "Some ''h''"] show ?thesis
    by metis
qed

text \<open>
  Any run of logged writes to a single-value cache succeeds, and
  \<open>UndoDataList\<close> on the entries it logged restores the value read before the run.
\<close>

theorem simple_undo_run:
  assumes "simple_ok T d"
  shows "\<exists>c' m c''. fold_opt (simple_run T d) ws (c, Some sm_empty) = Some (c', Some m) \<and>
    Simple_UndoDataList T (logs_of (prefix_type T) m) c' = Some c'' \<and> sview T d c'' = sview T d c"
proof -
  obtain c' es where run: "run_logged (simple_step T d) ws c = Some (c', es)"
      "fold_opt (simple_run T d) ws (c, Some sm_empty) = Some (c', Some (append_logs (prefix_type T) es sm_empty))"
    using simple_runs_logged [OF assms] by blast
  have "logs_of (prefix_type T) (append_logs (prefix_type T) es sm_empty) = es"
    using assms by (simp add: logs_of_append_logs)
  with run simple_undo.run_undo [OF assms run(1) assms refl] show ?thesis
    by (auto simp: Simple_UndoDataList_def)
qed

theorem simple_undo_run_witness:
  "\<exists>c' m c''. fold_opt (simple_run (bytes1_ops BEST_BLOCKHASH) (empty_db DB_BLOCK)) [SSet ''a'', SErase, SSet ''b'']
       (SFree (Some ''z''), Some sm_empty) = Some (c', Some m) \<and>
     Simple_UndoDataList (bytes1_ops BEST_BLOCKHASH) (logs_of BEST_BLOCKHASH m) c' = Some c'' \<and>
     sview (bytes1_ops BEST_BLOCKHASH) (empty_db DB_BLOCK) c'' = Some ''z''"
  using simple_undo_run [OF bytes1_ok [of DB_BLOCK], of "[SSet ''a'', SErase, SSet ''b'']" "SFree (Some ''z'')"]
  by (simp add: sview_def nonempty_def del: fold_opt.simps)

end
