(* ===== verification/Cache_Wrapper.thy ===== *)
theory Cache_Wrapper
  imports Simple_Cache
begin

text \<open>
  \<open>cachewrapper.h\<close>, \<open>cachewrapper.cpp\<close> and the wiring of the database classes: which caches a
  class owns, and which of them its \<open>Flush\<close>, \<open>SetBaseViewPtr\<close>, \<open>SetDbOpLogMap\<close>,
  \<open>RegisterUndoFunc\<close> and \<open>GetCacheSize\<close> reach, in the order of the code.  The wrapper's
  state has the caches by prefix, in serialised form: keys and values are byte strings, and
  the emptiness tests, sizes and codecs of the actual types are the record \<open>kvops\<close> of each
  prefix.  The pointer to the log is the same for all caches of a wrapper; it is an argument.
\<close>

section \<open>The wiring of the database classes\<close>

datatype member_kind = Composite | Simple

record db_class =
  members :: "(PrefixType \<times> member_kind) list"
  set_base :: "PrefixType list"
  set_log :: "PrefixType list"
  register_undo :: "PrefixType list"
  flushes :: "PrefixType list"
  sizes :: "PrefixType list"

definition sysParam_members :: "(PrefixType \<times> member_kind) list" where
  "sysParam_members = [(SYS_PARAM, Composite), (PRODUCER_FEE, Composite), (CDP_PARAM, Composite),
     (CDP_INTEREST_PARAMS, Composite), (TOTAL_BPS_SIZE, Simple), (NEW_TOTAL_BPS_SIZE, Simple)]"

definition InerySysParamDBCache :: db_class where
  "InerySysParamDBCache = \<lparr>members = sysParam_members,
     set_base = [SYS_PARAM, PRODUCER_FEE, CDP_PARAM, CDP_INTEREST_PARAMS, TOTAL_BPS_SIZE, NEW_TOTAL_BPS_SIZE],
     set_log = [SYS_PARAM, PRODUCER_FEE, CDP_PARAM, CDP_INTEREST_PARAMS, TOTAL_BPS_SIZE, NEW_TOTAL_BPS_SIZE],
     register_undo = [SYS_PARAM, PRODUCER_FEE, CDP_PARAM, CDP_INTEREST_PARAMS, TOTAL_BPS_SIZE, NEW_TOTAL_BPS_SIZE],
     flushes = [SYS_PARAM, PRODUCER_FEE, CDP_PARAM, CDP_INTEREST_PARAMS, TOTAL_BPS_SIZE, NEW_TOTAL_BPS_SIZE],
     sizes = [SYS_PARAM, PRODUCER_FEE, CDP_INTEREST_PARAMS, TOTAL_BPS_SIZE, NEW_TOTAL_BPS_SIZE]\<rparr>"

definition block_members :: "(PrefixType \<times> member_kind) list" where
  "block_members = [(TXID_DISKINDEX, Composite), (FLAG, Composite), (BEST_BLOCKHASH, Simple),
     (LAST_BLOCKFILE, Simple), (REINDEX, Simple), (FINALITY_BLOCK, Simple), (BLOCK_INFLATED_REWARD, Simple)]"

definition block_flush :: "PrefixType list" where
  "block_flush = [TXID_DISKINDEX, FLAG, BEST_BLOCKHASH, LAST_BLOCKFILE, REINDEX, FINALITY_BLOCK, BLOCK_INFLATED_REWARD]"

definition IneryBlockDBCache :: db_class where
  "IneryBlockDBCache = \<lparr>members = block_members,
     set_base = [TXID_DISKINDEX, FLAG, BEST_BLOCKHASH, LAST_BLOCKFILE, REINDEX, FINALITY_BLOCK, BLOCK_INFLATED_REWARD],
     set_log = [TXID_DISKINDEX, FLAG, BEST_BLOCKHASH, LAST_BLOCKFILE, REINDEX, FINALITY_BLOCK, BLOCK_INFLATED_REWARD],
     register_undo = [TXID_DISKINDEX, FLAG, BEST_BLOCKHASH, LAST_BLOCKFILE, REINDEX, FINALITY_BLOCK, BLOCK_INFLATED_REWARD],
     flushes = block_flush,
     sizes = [TXID_DISKINDEX, FLAG, BEST_BLOCKHASH, LAST_BLOCKFILE, REINDEX, FINALITY_BLOCK, BLOCK_INFLATED_REWARD]\<rparr>"

definition account_flush :: "PrefixType list" where
  "account_flush = [KEYID_ACCOUNT, REGID_KEYID]"

definition IneryAccountDBCache :: db_class where
  "IneryAccountDBCache = \<lparr>members = [(REGID_KEYID, Composite), (KEYID_ACCOUNT, Composite)],
     set_base = [KEYID_ACCOUNT, REGID_KEYID], set_log = [KEYID_ACCOUNT, REGID_KEYID],
     register_undo = [REGID_KEYID, KEYID_ACCOUNT],
     flushes = account_flush, sizes = [KEYID_ACCOUNT, REGID_KEYID]\<rparr>"

definition CAssetDbCache :: db_class where
  "CAssetDbCache = \<lparr>members = [(ASSET, Composite), (AXC_COIN_PEERTOSELF, Composite), (AXC_COIN_SELFTOPEER, Composite)],
     set_base = [ASSET, AXC_COIN_PEERTOSELF, AXC_COIN_SELFTOPEER],
     set_log = [ASSET, AXC_COIN_PEERTOSELF, AXC_COIN_SELFTOPEER],
     register_undo = [ASSET, AXC_COIN_SELFTOPEER, AXC_COIN_PEERTOSELF],
     flushes = [ASSET, AXC_COIN_PEERTOSELF, AXC_COIN_SELFTOPEER],
     sizes = [ASSET, AXC_COIN_PEERTOSELF, AXC_COIN_SELFTOPEER]\<rparr>"

definition contract_flush :: "PrefixType list" where
  "contract_flush = [CONTRACT_DEF, CONTRACT_DATA, CONTRACT_ACCOUNT, CONTRACT_TRACES]"

definition contract_sizes :: "PrefixType list" where
  "contract_sizes = [CONTRACT_DEF, CONTRACT_DATA, CONTRACT_TRACES]"

definition CContractDBCache :: db_class where
  "CContractDBCache = \<lparr>members = [(CONTRACT_DEF, Composite), (CONTRACT_DATA, Composite),
       (CONTRACT_ACCOUNT, Composite), (CONTRACT_TRACES, Composite)],
     set_base = [CONTRACT_DEF, CONTRACT_DATA, CONTRACT_ACCOUNT, CONTRACT_TRACES],
     set_log = [CONTRACT_DEF, CONTRACT_DATA, CONTRACT_ACCOUNT, CONTRACT_TRACES],
     register_undo = [CONTRACT_DEF, CONTRACT_DATA, CONTRACT_ACCOUNT, CONTRACT_TRACES],
     flushes = contract_flush, sizes = contract_sizes\<rparr>"

definition delegate_members :: "(PrefixType \<times> member_kind) list" where
  "delegate_members = [(VOTE, Composite), (REGID_VOTE, Composite), (LAST_VOTE_HEIGHT, Simple),
     (PENDING_DELEGATES, Simple), (ACTIVE_DELEGATES, Simple)]"

definition delegate_flush :: "PrefixType list" where
  "delegate_flush = [VOTE, REGID_VOTE, LAST_VOTE_HEIGHT, PENDING_DELEGATES, ACTIVE_DELEGATES]"

definition IneryDelegateDBCache :: db_class where
  "IneryDelegateDBCache = \<lparr>members = delegate_members,
     set_base = [VOTE, REGID_VOTE, LAST_VOTE_HEIGHT, PENDING_DELEGATES, ACTIVE_DELEGATES],
     set_log = [VOTE, REGID_VOTE, LAST_VOTE_HEIGHT, PENDING_DELEGATES, ACTIVE_DELEGATES],
     register_undo = [VOTE, REGID_VOTE, LAST_VOTE_HEIGHT, PENDING_DELEGATES, ACTIVE_DELEGATES],
     flushes = delegate_flush,
     sizes = [VOTE, REGID_VOTE, LAST_VOTE_HEIGHT, PENDING_DELEGATES, ACTIVE_DELEGATES]\<rparr>"

definition cdp_wiring :: "PrefixType list" where
  "cdp_wiring = [CDP_GLOBAL_DATA, CDP, CDP_INR, USER_CDP, CDP_RATIO_INDEX, CDP_HEIGHT_INDEX]"

definition IneryCdpDBCache :: db_class where
  "IneryCdpDBCache = \<lparr>members = map (\<lambda>p. (p, Composite)) cdp_wiring,
     set_base = cdp_wiring, set_log = cdp_wiring,
     register_undo = [CDP_GLOBAL_DATA, CDP, CDP_INR, USER_CDP, CDP_RATIO_INDEX, CDP_HEIGHT_INDEX],
     flushes = cdp_wiring, sizes = cdp_wiring\<rparr>"

definition CClosedCdpDBCache :: db_class where
  "CClosedCdpDBCache = \<lparr>members = [(CLOSED_CDP_TX, Composite), (CLOSED_TX_CDP, Composite)],
     set_base = [CLOSED_CDP_TX, CLOSED_TX_CDP], set_log = [CLOSED_CDP_TX, CLOSED_TX_CDP],
     register_undo = [CLOSED_CDP_TX, CLOSED_TX_CDP], flushes = [CLOSED_CDP_TX, CLOSED_TX_CDP],
     sizes = [CLOSED_CDP_TX, CLOSED_TX_CDP]\<rparr>"

definition dex_members :: "(PrefixType \<times> member_kind) list" where
  "dex_members = [(DEX_ACTIVE_ORDER, Composite), (DEX_BLOCK_ORDERS, Composite), (DEX_OPERATOR_DETAIL, Composite),
     (DEX_OPERATOR_OWNER_MAP, Composite), (DEX_OPERATOR_LAST_ID, Simple)]"

definition CDexDBCache :: db_class where
  "CDexDBCache = \<lparr>members = dex_members,
     set_base = [DEX_ACTIVE_ORDER, DEX_BLOCK_ORDERS, DEX_OPERATOR_DETAIL, DEX_OPERATOR_OWNER_MAP, DEX_OPERATOR_LAST_ID],
     set_log = [DEX_ACTIVE_ORDER, DEX_BLOCK_ORDERS, DEX_OPERATOR_DETAIL, DEX_OPERATOR_OWNER_MAP, DEX_OPERATOR_LAST_ID],
     register_undo = [DEX_ACTIVE_ORDER, DEX_BLOCK_ORDERS, DEX_OPERATOR_DETAIL, DEX_OPERATOR_OWNER_MAP, DEX_OPERATOR_LAST_ID],
     flushes = [DEX_ACTIVE_ORDER, DEX_BLOCK_ORDERS, DEX_OPERATOR_DETAIL, DEX_OPERATOR_OWNER_MAP, DEX_OPERATOR_LAST_ID],
     sizes = [DEX_ACTIVE_ORDER, DEX_BLOCK_ORDERS, DEX_OPERATOR_DETAIL, DEX_OPERATOR_OWNER_MAP, DEX_OPERATOR_LAST_ID]\<rparr>"

definition IneryTxReceiptDBCache :: db_class where
  "IneryTxReceiptDBCache = \<lparr>members = [(TX_RECEIPT, Composite), (BLOCK_RECEIPT, Composite)],
     set_base = [TX_RECEIPT, BLOCK_RECEIPT], set_log = [TX_RECEIPT, BLOCK_RECEIPT],
     register_undo = [TX_RECEIPT, BLOCK_RECEIPT], flushes = [TX_RECEIPT, BLOCK_RECEIPT],
     sizes = [TX_RECEIPT, BLOCK_RECEIPT]\<rparr>"

definition IneryTxUTXODBCache :: db_class where
  "IneryTxUTXODBCache = \<lparr>members = [(TX_UTXO, Composite), (UTXO_PWSDPRF, Composite)],
     set_base = [TX_UTXO, UTXO_PWSDPRF], set_log = [TX_UTXO, UTXO_PWSDPRF],
     register_undo = [TX_UTXO, UTXO_PWSDPRF], flushes = [TX_UTXO, UTXO_PWSDPRF],
     sizes = [TX_UTXO, UTXO_PWSDPRF]\<rparr>"

definition CAxcDBCache :: db_class where
  "CAxcDBCache = \<lparr>members = [(AXC_SWAP_IN, Composite)], set_base = [AXC_SWAP_IN], set_log = [AXC_SWAP_IN],
     register_undo = [AXC_SWAP_IN], flushes = [AXC_SWAP_IN], sizes = [AXC_SWAP_IN]\<rparr>"

text \<open>\<open>SetDbOpLogMap\<close> sets the approvals cache twice.\<close>

definition InerySysGovernDBCache :: db_class where
  "InerySysGovernDBCache = \<lparr>members = [(SYS_GOVERN, Simple), (GOVN_PROP, Composite), (GOVN_APPROVAL_LIST, Composite)],
     set_base = [SYS_GOVERN, GOVN_PROP, GOVN_APPROVAL_LIST],
     set_log = [SYS_GOVERN, GOVN_PROP, GOVN_APPROVAL_LIST, GOVN_APPROVAL_LIST],
     register_undo = [SYS_GOVERN, GOVN_PROP, GOVN_APPROVAL_LIST],
     flushes = [SYS_GOVERN, GOVN_PROP, GOVN_APPROVAL_LIST],
     sizes = [SYS_GOVERN, GOVN_PROP, GOVN_APPROVAL_LIST]\<rparr>"

definition IneryPriceFeedCache :: db_class where
  "IneryPriceFeedCache = \<lparr>members = [(PRICE_FEED_COIN_PAIRS, Simple), (MEDIAN_PRICES, Simple)],
     set_base = [PRICE_FEED_COIN_PAIRS, MEDIAN_PRICES], set_log = [PRICE_FEED_COIN_PAIRS, MEDIAN_PRICES],
     register_undo = [PRICE_FEED_COIN_PAIRS, MEDIAN_PRICES], flushes = [PRICE_FEED_COIN_PAIRS, MEDIAN_PRICES],
     sizes = [PRICE_FEED_COIN_PAIRS, MEDIAN_PRICES]\<rparr>"

definition IneryLogDBCache :: db_class where
  "IneryLogDBCache = \<lparr>members = [(TX_EXECUTE_FAIL, Composite)], set_base = [TX_EXECUTE_FAIL],
     set_log = [TX_EXECUTE_FAIL], register_undo = [TX_EXECUTE_FAIL], flushes = [TX_EXECUTE_FAIL],
     sizes = [TX_EXECUTE_FAIL]\<rparr>"

section \<open>The wrapper\<close>

text \<open>The member functions of \<open>CCacheWrapper\<close>, as the classes they call, in order.\<close>

definition cw_SetDbOpLogMap :: "db_class list" where
  "cw_SetDbOpLogMap = [InerySysParamDBCache, IneryBlockDBCache, IneryAccountDBCache, CAssetDbCache,
     CContractDBCache, IneryDelegateDBCache, IneryCdpDBCache, CClosedCdpDBCache, CDexDBCache,
     IneryTxReceiptDBCache, IneryTxUTXODBCache, CAxcDBCache, InerySysGovernDBCache, IneryPriceFeedCache]"

definition cw_RegisterUndoFunc :: "db_class list" where
  "cw_RegisterUndoFunc = [InerySysParamDBCache, IneryBlockDBCache, IneryAccountDBCache, CAssetDbCache,
     CContractDBCache, IneryDelegateDBCache, IneryCdpDBCache, CClosedCdpDBCache, CDexDBCache,
     IneryTxReceiptDBCache, IneryTxUTXODBCache, CAxcDBCache, InerySysGovernDBCache, IneryPriceFeedCache]"

text \<open>The two memory-only caches are flushed between the tables.\<close>

datatype cw_member = Table db_class | TxMem | PricePointMem

definition cw_Flush :: "cw_member list" where
  "cw_Flush = [Table InerySysParamDBCache, Table IneryBlockDBCache, Table IneryAccountDBCache,
     Table CAssetDbCache, Table CContractDBCache, Table IneryDelegateDBCache, Table IneryCdpDBCache,
     Table CClosedCdpDBCache, Table CDexDBCache, Table IneryTxReceiptDBCache, Table IneryTxUTXODBCache,
     Table CAxcDBCache, TxMem, PricePointMem, Table InerySysGovernDBCache, Table IneryPriceFeedCache]"

definition cw_SetBaseViewPtr :: "cw_member list" where
  "cw_SetBaseViewPtr = [Table InerySysParamDBCache, Table IneryBlockDBCache, Table IneryAccountDBCache,
     Table CAssetDbCache, Table CContractDBCache, Table IneryDelegateDBCache, Table IneryCdpDBCache,
     Table CClosedCdpDBCache, Table CDexDBCache, Table IneryTxReceiptDBCache, Table IneryTxUTXODBCache,
     Table CAxcDBCache, TxMem, PricePointMem, Table InerySysGovernDBCache, Table IneryPriceFeedCache]"

text \<open>\<open>CCacheDBManager\<close>: the databases it opens, with the class built on each.\<close>

definition dbm_open :: "(DBNameType \<times> db_class) list" where
  "dbm_open = [(DB_SYSPARAM, InerySysParamDBCache), (DB_ACCOUNT, IneryAccountDBCache), (DB_ASSET, CAssetDbCache),
     (DB_CONTRACT, CContractDBCache), (DB_DELEGATE, IneryDelegateDBCache), (DB_CDP, IneryCdpDBCache),
     (DB_CLOSEDCDP, CClosedCdpDBCache), (DB_DEX, CDexDBCache), (DB_BLOCK, IneryBlockDBCache),
     (DB_LOG, IneryLogDBCache), (DB_RECEIPT, IneryTxReceiptDBCache), (DB_UTXO, IneryTxUTXODBCache),
     (DB_AXC, CAxcDBCache), (DB_SYSGOVERN, InerySysGovernDBCache), (DB_PRICEFEED, IneryPriceFeedCache)]"

definition dbm_Flush :: "db_class list" where
  "dbm_Flush = [InerySysParamDBCache, IneryAccountDBCache, CAssetDbCache, CContractDBCache,
     IneryDelegateDBCache, IneryCdpDBCache, CClosedCdpDBCache, CDexDBCache, IneryBlockDBCache,
     IneryLogDBCache, IneryTxReceiptDBCache, InerySysGovernDBCache, IneryTxUTXODBCache, CAxcDBCache,
     IneryPriceFeedCache]"

text \<open>
  \<open>CreateDbAccess\<close>: the cache size of a database, \<open>arg\<close> being the configured value that
  \<open>SysCfg().GetArg\<close> returns for its option, if there is one.
\<close>

definition CreateDbAccess_cacheSize :: "(string \<Rightarrow> int option) \<Rightarrow> DBNameType \<Rightarrow> int option" where
  "CreateDbAccess_cacheSize arg t =
     do { name \<leftarrow> GetDbName t;
          let defaultCacheSize = uint (kDBCacheSizeMap t);
          let cacheSize = (case arg (''-cache_size_'' @ name) of Some v \<Rightarrow> v | None \<Rightarrow> defaultCacheSize);
          Some (if cacheSize < 0 \<or> cacheSize > uint MAX_DB_CACHE_SIZE then defaultCacheSize else cacheSize) }"

section \<open>The wiring is complete\<close>

definition all_tables :: "(PrefixType \<times> member_kind) list" where
  "all_tables = concat (map members cw_SetDbOpLogMap)"

definition logged_prefixes :: "PrefixType list" where
  "logged_prefixes = concat (map set_log cw_SetDbOpLogMap)"

definition undo_prefixes :: "PrefixType list" where
  "undo_prefixes = concat (map register_undo cw_RegisterUndoFunc)"

lemmas class_defs = InerySysParamDBCache_def IneryBlockDBCache_def IneryAccountDBCache_def CAssetDbCache_def
  CContractDBCache_def IneryDelegateDBCache_def IneryCdpDBCache_def CClosedCdpDBCache_def CDexDBCache_def
  IneryTxReceiptDBCache_def IneryTxUTXODBCache_def CAxcDBCache_def InerySysGovernDBCache_def
  IneryPriceFeedCache_def IneryLogDBCache_def sysParam_members_def block_members_def block_flush_def
  account_flush_def contract_flush_def contract_sizes_def delegate_members_def delegate_flush_def
  cdp_wiring_def dex_members_def

lemma set_logged: "set logged_prefixes = fst ` set all_tables"
  by (simp add: all_tables_def logged_prefixes_def cw_SetDbOpLogMap_def class_defs insert_commute)

lemma set_undo: "set undo_prefixes = fst ` set all_tables"
  by (simp add: all_tables_def undo_prefixes_def cw_SetDbOpLogMap_def cw_RegisterUndoFunc_def class_defs insert_commute)

definition flushed_prefixes :: "PrefixType list" where
  "flushed_prefixes = concat (map (\<lambda>m. case m of Table c \<Rightarrow> flushes c | _ \<Rightarrow> []) cw_Flush)"

definition based_prefixes :: "PrefixType list" where
  "based_prefixes = concat (map (\<lambda>m. case m of Table c \<Rightarrow> set_base c | _ \<Rightarrow> []) cw_SetBaseViewPtr)"

definition sized_prefixes :: "PrefixType list" where
  "sized_prefixes = concat (map sizes cw_SetDbOpLogMap)"

lemma set_flushed: "set flushed_prefixes = fst ` set all_tables"
  by (simp add: all_tables_def flushed_prefixes_def cw_SetDbOpLogMap_def cw_Flush_def class_defs insert_commute)

lemma distinct_tables: "distinct (map fst all_tables)"
  by (simp add: all_tables_def cw_SetDbOpLogMap_def class_defs)

lemma distinct_flushed: "distinct flushed_prefixes"
  by (simp add: flushed_prefixes_def cw_Flush_def class_defs)

lemma tables_data: "(p, k) \<in> set all_tables \<Longrightarrow> is_data_prefix p"
  by (auto simp: all_tables_def cw_SetDbOpLogMap_def class_defs is_data_prefix_def)

text \<open>
  The wiring of the wrapper has no gap.  Each table belongs to one class; every
  cache that logs its writes has its undo function registered and conversely; every cache is
  flushed and gets its base cache; and every class is opened on the database its prefixes
  belong to, so the assertion in the constructor of the caches holds.
\<close>

theorem wiring_complete:
  "distinct (map fst all_tables) \<and>
   set logged_prefixes = set undo_prefixes \<and>
   set undo_prefixes = fst ` set all_tables \<and>
   set flushed_prefixes = fst ` set all_tables \<and> distinct flushed_prefixes \<and>
   set based_prefixes = fst ` set all_tables \<and>
   list_all (\<lambda>(t, c). list_all (\<lambda>(p, _). GetDbNameEnumByPrefix p = Some t) (members c)) dbm_open \<and>
   set (map snd dbm_open) = set dbm_Flush"
proof (intro conjI)
  show "set based_prefixes = fst ` set all_tables"
    by (simp add: all_tables_def based_prefixes_def cw_SetDbOpLogMap_def cw_SetBaseViewPtr_def class_defs insert_commute)
  show "list_all (\<lambda>(t, c). list_all (\<lambda>(p, _). GetDbNameEnumByPrefix p = Some t) (members c)) dbm_open"
    by (simp add: dbm_open_def class_defs GetDbNameEnumByPrefix_def)
  show "set (map snd dbm_open) = set dbm_Flush"
    unfolding dbm_open_def dbm_Flush_def by (simp add: insert_commute)
qed (simp_all add: distinct_tables set_logged set_undo set_flushed distinct_flushed)

text \<open>
  The caches that no \<open>GetCacheSize\<close> counts are exactly the collateral parameters
  of \<open>InerySysParamDBCache\<close> and the account table of \<open>CContractDBCache\<close>.
\<close>

theorem uncounted_caches:
  "filter (\<lambda>p. p \<notin> set sized_prefixes) (map fst all_tables) = [CDP_PARAM, CONTRACT_ACCOUNT]"
  by (simp add: sized_prefixes_def all_tables_def cw_SetDbOpLogMap_def class_defs)

text \<open>
  Every database a prefix can name gets a cache size within the limit, the
  configured one when that is in range and the default one otherwise, and no other name does.
\<close>

theorem db_cache_size:
  "(case CreateDbAccess_cacheSize arg t of
      Some n \<Rightarrow> t \<noteq> DB_NAME_COUNT \<and> 0 \<le> n \<and> n \<le> uint MAX_DB_CACHE_SIZE \<and>
        (case arg (''-cache_size_'' @ kDbNames t) of
           None \<Rightarrow> n = uint (kDBCacheSizeMap t)
         | Some v \<Rightarrow> n = v \<or> n = uint (kDBCacheSizeMap t) \<and> \<not> (0 \<le> v \<and> v \<le> uint MAX_DB_CACHE_SIZE))
    | None \<Rightarrow> t = DB_NAME_COUNT)"
proof -
  have "uint (kDBCacheSizeMap t) \<le> uint MAX_DB_CACHE_SIZE"
    by (cases t) (simp_all add: kDBCacheSizeMap_def db_name_list_def MAX_DB_CACHE_SIZE_def)
  then show ?thesis
    by (auto simp: CreateDbAccess_cacheSize_def GetDbName_def Let_def not_less split: option.splits)
qed

end
