(* ===== verification/Db_Util.thy ===== *)
theory Db_Util
  imports Kv_Cache
begin

text \<open>
  \<open>db_util\<close> of \<open>dbaccess.h\<close>: what it means for a stored value to be empty, how a value is
  made empty, and how it is printed, for every type the tables use.  The overloads for one
  type are a dictionary \<open>db_type\<close>, and a template over component types is a function of their
  dictionaries.  The caches rely on one law only: a value made empty is empty.
\<close>

record 'a db_type =
  IsEmpty :: "'a \<Rightarrow> bool"
  SetEmpty :: "'a \<Rightarrow> 'a"
  ToString :: "'a \<Rightarrow> string"

section \<open>Numbers\<close>

text \<open>\<open>std::to_string\<close> prints in decimal.\<close>

definition digit_char :: "nat \<Rightarrow> char" where
  "digit_char n = char_of (48 + n)"

fun nat_to_string :: "nat \<Rightarrow> string" where
  "nat_to_string n =
     (if n < 10 then [digit_char n] else nat_to_string (n div 10) @ [digit_char (n mod 10)])"

declare nat_to_string.simps [simp del]

definition int_to_string :: "int \<Rightarrow> string" where
  "int_to_string i = (if i < 0 then ''-'' @ nat_to_string (nat (- i)) else nat_to_string (nat i))"

definition uint_db :: "('n::len word) db_type" where
  "uint_db = \<lparr>IsEmpty = (\<lambda>v. v = 0), SetEmpty = (\<lambda>_. 0), ToString = (\<lambda>v. nat_to_string (unat v))\<rparr>"

definition int32_db :: "(32 word) db_type" where
  "int32_db = \<lparr>IsEmpty = (\<lambda>v. v = 0), SetEmpty = (\<lambda>_. 0), ToString = (\<lambda>v. int_to_string (sint v))\<rparr>"

definition bool_db :: "bool db_type" where
  "bool_db = \<lparr>IsEmpty = (\<lambda>v. v = False), SetEmpty = (\<lambda>_. False),
     ToString = (\<lambda>v. if v then ''true'' else ''false'')\<rparr>"

section \<open>Strings, containers, pointers\<close>

definition string_db :: "string db_type" where
  "string_db = \<lparr>IsEmpty = (\<lambda>v. v = []), SetEmpty = (\<lambda>_. []), ToString = (\<lambda>v. v)\<rparr>"

fun to_string_loop :: "('a \<Rightarrow> string) \<Rightarrow> 'a list \<Rightarrow> string \<Rightarrow> string" where
  "to_string_loop f [] ret = ret"
| "to_string_loop f (x # xs) ret =
     to_string_loop f xs ((if ret \<noteq> [] then ret @ '','' else ret) @ ''{'' @ f x @ ''}'')"

definition vector_db :: "'a db_type \<Rightarrow> 'a list db_type" where
  "vector_db A = \<lparr>IsEmpty = (\<lambda>v. v = []), SetEmpty = (\<lambda>_. []),
     ToString = (\<lambda>v. ''['' @ to_string_loop (ToString A) v [] @ '']'')\<rparr>"

text \<open>A \<open>std::set\<close> iterates in order; it is a map from its elements to unit.\<close>

definition set_db :: "'a db_type \<Rightarrow> ('a::linorder, unit) std_map db_type" where
  "set_db A = \<lparr>IsEmpty = (\<lambda>v. v = sm_empty), SetEmpty = (\<lambda>_. sm_empty),
     ToString = (\<lambda>v. ''['' @ to_string_loop (ToString A) (map fst (sm_items v)) [] @ '']'')\<rparr>"

definition map_db :: "'k db_type \<Rightarrow> 'v db_type \<Rightarrow> ('k::linorder, 'v) std_map db_type" where
  "map_db K V = \<lparr>IsEmpty = (\<lambda>v. v = sm_empty), SetEmpty = (\<lambda>_. sm_empty),
     ToString = (\<lambda>v. ''['' @ to_string_loop (\<lambda>(a, b). ToString K a @ ''='' @ ToString V b) (sm_items v) [] @ '']'')\<rparr>"

definition optional_db :: "'a db_type \<Rightarrow> 'a option db_type" where
  "optional_db A = \<lparr>IsEmpty = (\<lambda>v. v = None), SetEmpty = (\<lambda>_. None),
     ToString = (\<lambda>v. case v of Some x \<Rightarrow> ToString A x | None \<Rightarrow> [])\<rparr>"

text \<open>\<open>shared_ptr\<close>: \<open>None\<close> is the null pointer, \<open>dflt\<close> what \<open>make_shared<T>()\<close> constructs.\<close>

definition shared_ptr_db :: "'a \<Rightarrow> 'a db_type \<Rightarrow> 'a option db_type" where
  "shared_ptr_db dflt A = \<lparr>IsEmpty = (\<lambda>v. case v of None \<Rightarrow> True | Some x \<Rightarrow> IsEmpty A x),
     SetEmpty = (\<lambda>v. case v of None \<Rightarrow> Some (SetEmpty A dflt) | Some x \<Rightarrow> Some (SetEmpty A x)),
     ToString = (\<lambda>v. case v of Some x \<Rightarrow> ToString A x | None \<Rightarrow> [])\<rparr>"

section \<open>Pairs and tuples\<close>

definition pair_db :: "'a db_type \<Rightarrow> 'b db_type \<Rightarrow> ('a \<times> 'b) db_type" where
  "pair_db A B = \<lparr>IsEmpty = (\<lambda>(a, b). IsEmpty A a \<and> IsEmpty B b),
     SetEmpty = (\<lambda>(a, b). (SetEmpty A a, SetEmpty B b)),
     ToString = (\<lambda>(a, b). ''{'' @ (''{first='' @ ToString A a @ ''}'') @
       (''{second='' @ ToString B b @ ''}'') @ ''}'')\<rparr>"

definition tuple2_db :: "'a db_type \<Rightarrow> 'b db_type \<Rightarrow> ('a \<times> 'b) db_type" where
  "tuple2_db A B = \<lparr>IsEmpty = (\<lambda>(a, b). IsEmpty A a \<and> IsEmpty B b),
     SetEmpty = (\<lambda>(a, b). (SetEmpty A a, SetEmpty B b)),
     ToString = (\<lambda>(a, b). ''{'' @ (''{0='' @ ToString A a @ ''}'') @ (''{1='' @ ToString B b @ ''}'') @ ''}'')\<rparr>"

definition tuple3_db :: "'a db_type \<Rightarrow> 'b db_type \<Rightarrow> 'c db_type \<Rightarrow> ('a \<times> 'b \<times> 'c) db_type" where
  "tuple3_db A B C = \<lparr>IsEmpty = (\<lambda>(a, b, c). IsEmpty A a \<and> IsEmpty B b \<and> IsEmpty C c),
     SetEmpty = (\<lambda>(a, b, c). (SetEmpty A a, SetEmpty B b, SetEmpty C c)),
     ToString = (\<lambda>(a, b, c). ''{'' @ (''{0='' @ ToString A a @ ''}'') @ (''{1='' @ ToString B b @ ''}'') @
       (''{2='' @ ToString C c @ ''}'') @ ''}'')\<rparr>"

definition tuple4_db ::
  "'a db_type \<Rightarrow> 'b db_type \<Rightarrow> 'c db_type \<Rightarrow> 'd db_type \<Rightarrow> ('a \<times> 'b \<times> 'c \<times> 'd) db_type" where
  "tuple4_db A B C D =
    \<lparr>IsEmpty = (\<lambda>(a, b, c, d). IsEmpty A a \<and> IsEmpty B b \<and> IsEmpty C c \<and> IsEmpty D d),
     SetEmpty = (\<lambda>(a, b, c, d). (SetEmpty A a, SetEmpty B b, SetEmpty C c, SetEmpty D d)),
     ToString = (\<lambda>(a, b, c, d). ''{'' @ (''{0='' @ ToString A a @ ''}'') @ (''{1='' @ ToString B b @ ''}'') @
       (''{2='' @ ToString C c @ ''}'') @ (''{3='' @ ToString D d @ ''}'') @ ''}'')\<rparr>"

text \<open>\<open>CDBTailKey\<close> is an object with its own \<open>IsEmpty\<close>, \<open>SetEmpty\<close> and \<open>ToString\<close>.\<close>

definition tail_key_db :: "CDBTailKey db_type" where
  "tail_key_db = \<lparr>IsEmpty = TailKey_IsEmpty, SetEmpty = TailKey_SetEmpty, ToString = tail_key\<rparr>"

definition MakeEmptyValue :: "'a db_type \<Rightarrow> 'a \<Rightarrow> 'a" where
  "MakeEmptyValue A dflt = SetEmpty A dflt"

definition to_kv_string :: "'a db_type \<Rightarrow> string \<Rightarrow> 'a \<Rightarrow> string" where
  "to_kv_string A k v = k @ ''='' @ ToString A v @ '',''"

definition to_kv_string_end :: "'a db_type \<Rightarrow> string \<Rightarrow> 'a \<Rightarrow> string" where
  "to_kv_string_end A k v = k @ ''='' @ ToString A v"

text \<open>The macro \<open>TO_KV_STRING_END2\<close> calls \<open>to_kv_string\<close>.\<close>

definition TO_KV_STRING_END2 :: "'a db_type \<Rightarrow> string \<Rightarrow> 'a \<Rightarrow> string" where
  "TO_KV_STRING_END2 A k v = to_kv_string A k v"

section \<open>The law of empty values\<close>

definition lawful :: "'a db_type \<Rightarrow> bool" where
  "lawful A \<longleftrightarrow> (\<forall>v. IsEmpty A (SetEmpty A v))"

definition canonical :: "'a db_type \<Rightarrow> bool" where
  "canonical A \<longleftrightarrow> (\<exists>e. \<forall>v. (IsEmpty A v \<longleftrightarrow> v = e) \<and> SetEmpty A v = e)"

named_theorems db_type_defs \<open>the dictionaries\<close>

lemmas [db_type_defs] = uint_db_def int32_db_def bool_db_def string_db_def vector_db_def set_db_def
  map_db_def optional_db_def shared_ptr_db_def pair_db_def tuple2_db_def tuple3_db_def tuple4_db_def

lemma canonical_lawful: "canonical A \<Longrightarrow> lawful A"
  by (auto simp: canonical_def lawful_def)

lemma canonical_base [simp]:
  "canonical (uint_db :: ('n::len word) db_type)" "canonical int32_db" "canonical bool_db"
  "canonical string_db" "canonical (vector_db A)" "canonical (set_db (S :: 'b::linorder db_type))"
  "canonical (map_db (K :: 'k::linorder db_type) V)" "canonical (optional_db A)"
  by (auto simp: canonical_def db_type_defs)

lemma canonical_tail_key [simp]: "canonical tail_key_db"
  unfolding canonical_def tail_key_db_def TailKey_IsEmpty_def TailKey_SetEmpty_def
  by (intro exI [of _ "\<lparr>tail_key = []\<rparr>"]) (auto intro: CDBTailKey.equality)

lemma canonical_pair:
  assumes "canonical A" and "canonical B"
  shows "canonical (pair_db A B)" "canonical (tuple2_db A B)"
proof -
  obtain a b where ab: "\<And>v. (IsEmpty A v \<longleftrightarrow> v = a) \<and> SetEmpty A v = a"
      "\<And>v. (IsEmpty B v \<longleftrightarrow> v = b) \<and> SetEmpty B v = b"
    using assms unfolding canonical_def by blast
  then show "canonical (pair_db A B)" "canonical (tuple2_db A B)"
    unfolding canonical_def pair_db_def tuple2_db_def by (intro exI [of _ "(a, b)"]; auto)+
qed

lemma tuple3_pair: "IsEmpty (tuple3_db A B C) = IsEmpty (pair_db A (pair_db B C))"
    "SetEmpty (tuple3_db A B C) = SetEmpty (pair_db A (pair_db B C))"
  by (auto simp: tuple3_db_def pair_db_def)

lemma tuple4_pair: "IsEmpty (tuple4_db A B C D) = IsEmpty (pair_db A (tuple3_db B C D))"
    "SetEmpty (tuple4_db A B C D) = SetEmpty (pair_db A (tuple3_db B C D))"
  by (auto simp: tuple3_db_def tuple4_db_def pair_db_def)

lemma canonical_tuple3: "canonical A \<Longrightarrow> canonical B \<Longrightarrow> canonical C \<Longrightarrow> canonical (tuple3_db A B C)"
  using canonical_pair(1) [of A "pair_db B C"] canonical_pair(1) [of B C]
  by (simp add: canonical_def tuple3_pair)

lemma canonical_tuple4:
  "canonical A \<Longrightarrow> canonical B \<Longrightarrow> canonical C \<Longrightarrow> canonical D \<Longrightarrow> canonical (tuple4_db A B C D)"
  using canonical_pair(1) [of A "tuple3_db B C D"] canonical_tuple3 [of B C D]
  by (simp add: canonical_def tuple4_pair)

lemma lawful_combine:
  "lawful A \<Longrightarrow> lawful (shared_ptr_db dflt A)"
  "lawful A \<Longrightarrow> lawful B \<Longrightarrow> lawful (pair_db A B)"
  "lawful A \<Longrightarrow> lawful B \<Longrightarrow> lawful C \<Longrightarrow> lawful (tuple3_db A B C)"
  "lawful A \<Longrightarrow> lawful B \<Longrightarrow> lawful C \<Longrightarrow> lawful D \<Longrightarrow> lawful (tuple4_db A B C D)"
  by (auto simp: lawful_def db_type_defs split: option.split)

text \<open>Decimal printing can be read back.\<close>

lemma nat_to_string_inj: "nat_to_string m = nat_to_string n \<Longrightarrow> m = n"
proof (induction m arbitrary: n rule: less_induct)
  case (less m)
  have ne: "nat_to_string k \<noteq> []" for k
    by (subst nat_to_string.simps) simp
  then have ne': "[] \<noteq> nat_to_string k" for k
    by metis
  have c: "of_char (digit_char a) = 48 + a" if "a < 10" for a
    using that by (simp add: digit_char_def take_bit_eq_mod)
  have d: "digit_char a = digit_char b \<longleftrightarrow> a = b" if "a < 10" "b < 10" for a b
    using c [OF that(1)] c [OF that(2)] by (metis add_left_cancel)
  show ?case
  proof (cases "m < 10 \<or> n < 10")
    case True
    with less.prems ne ne' d show ?thesis
      by (subst (asm) nat_to_string.simps, subst (asm) (2) nat_to_string.simps)
        (auto split: if_splits)
  next
    case False
    then have "nat_to_string (m div 10) = nat_to_string (n div 10)" "m mod 10 = n mod 10"
      using less.prems d [of "m mod 10" "n mod 10"]
      by (subst (asm) (1 2) nat_to_string.simps; simp)+
    with less.IH [of "m div 10" "n div 10"] False have "m div 10 = n div 10" "m mod 10 = n mod 10"
      by auto
    then show ?thesis
      by (metis div_mult_mod_eq)
  qed
qed

section \<open>Building the template arguments of a cache\<close>

text \<open>
  The \<open>kvops\<close> of a cache whose key and value types have the dictionaries \<open>K\<close> and \<open>V\<close>; the
  serialisation of the types is given separately.
\<close>

record ('k, 'v) codec =
  enc_key :: "'k \<Rightarrow> string"
  dec_key :: "string \<Rightarrow> 'k option"
  enc_val :: "'v \<Rightarrow> string"
  dec_val :: "string \<Rightarrow> 'v option"

definition codec_ok :: "('k, 'v) codec \<Rightarrow> bool" where
  "codec_ok S \<longleftrightarrow> (\<forall>k. dec_key S (enc_key S k) = Some k) \<and> (\<forall>v. dec_val S (enc_val S v) = Some v)"

definition cache_ops :: "PrefixType \<Rightarrow> 'k db_type \<Rightarrow> 'v db_type \<Rightarrow> 'v \<Rightarrow> ('k, 'v) codec \<Rightarrow> ('k, 'v) kvops" where
  "cache_ops p K V dflt S = \<lparr>prefix_type = p, key_empty = IsEmpty K, val_empty = IsEmpty V,
     empty_val = MakeEmptyValue V dflt, set_empty = SetEmpty V,
     ser_key = enc_key S, unser_key = dec_key S, ser_val = enc_val S, unser_val = dec_val S,
     key_size = (\<lambda>k. of_nat (length (enc_key S k))), val_size = (\<lambda>v. of_nat (length (enc_val S v)))\<rparr>"



end
