(* ===== verification/Disk.thy ===== *)
theory Disk
  imports Db_Util
begin

text \<open>
  \<open>disk.h\<close> and \<open>disk.cpp\<close>: positions in block files, the statistics of a block file, and
  opening a file at a position.  The file system is a map from names to contents with the
  set of names that cannot be opened; an open file is its name and the offset in it.
\<close>

section \<open>Positions\<close>

record IneryDiskBlockPos =
  nFile :: uint32  \<comment> \<open>an \<open>int32_t\<close>; -1 is the null position\<close>
  nPos :: uint32

definition BlockPos_SetNull :: "IneryDiskBlockPos" where
  "BlockPos_SetNull = \<lparr>nFile = - 1, nPos = 0\<rparr>"

definition BlockPos_IsNull :: "'a IneryDiskBlockPos_scheme \<Rightarrow> bool" where
  "BlockPos_IsNull p \<longleftrightarrow> nFile p = - 1"

definition BlockPos_eq :: "'a IneryDiskBlockPos_scheme \<Rightarrow> 'a IneryDiskBlockPos_scheme \<Rightarrow> bool" where
  "BlockPos_eq a b \<longleftrightarrow> nFile a = nFile b \<and> nPos a = nPos b"

text \<open>The argument \<open>fmt_d\<close> is what \<open>strprintf\<close> makes of a number under the format \<open>%d\<close>.\<close>

definition BlockPos_ToString :: "(uint32 \<Rightarrow> string) \<Rightarrow> 'a IneryDiskBlockPos_scheme \<Rightarrow> string" where
  "BlockPos_ToString fmt_d p = ''file='' @ fmt_d (nFile p) @ '', '' @ ''pos='' @ fmt_d (nPos p)"

text \<open>\<open>'cord\<close> is the type of \<open>tx_cord\<close>, declared outside the persistence layer.\<close>

record 'cord IneryDiskTxPos = IneryDiskBlockPos +
  nTxOffset :: uint32
  tx_cord :: 'cord

definition DiskTxPos_make :: "IneryDiskBlockPos \<Rightarrow> uint32 \<Rightarrow> 'cord \<Rightarrow> 'cord IneryDiskTxPos" where
  "DiskTxPos_make block off cord = \<lparr>nFile = nFile block, nPos = nPos block, nTxOffset = off, tx_cord = cord\<rparr>"

text \<open>\<open>SetNull\<close> and \<open>SetEmpty\<close> leave \<open>tx_cord\<close> alone; \<open>IsEmpty\<close> is inherited.\<close>

definition DiskTxPos_SetEmpty :: "'cord IneryDiskTxPos \<Rightarrow> 'cord IneryDiskTxPos" where
  "DiskTxPos_SetEmpty p = p\<lparr>nFile := - 1, nPos := 0, nTxOffset := 0\<rparr>"

definition DiskTxPos_db :: "(uint32 \<Rightarrow> string) \<Rightarrow> 'cord IneryDiskTxPos db_type" where
  "DiskTxPos_db fmt_d = \<lparr>IsEmpty = BlockPos_IsNull, SetEmpty = DiskTxPos_SetEmpty,
     ToString = (\<lambda>p. BlockPos_ToString fmt_d p @ '', tx_offset='' @ fmt_d (nTxOffset p))\<rparr>"

section \<open>Statistics of a block file\<close>

record IneryBlockFileInfo =
  nBlocks :: uint32
  nSize :: uint32
  nUndoSize :: uint32
  nHeightFirst :: uint32
  nHeightLast :: uint32
  nTimeFirst :: uint64
  nTimeLast :: uint64

definition BlockFileInfo_SetNull :: IneryBlockFileInfo where
  "BlockFileInfo_SetNull = \<lparr>nBlocks = 0, nSize = 0, nUndoSize = 0, nHeightFirst = 0, nHeightLast = 0,
     nTimeFirst = 0, nTimeLast = 0\<rparr>"

definition BlockFileInfo_IsEmpty :: "IneryBlockFileInfo \<Rightarrow> bool" where
  "BlockFileInfo_IsEmpty i \<longleftrightarrow> nBlocks i = 0 \<and> nSize i = 0"

definition AddBlock :: "uint32 \<Rightarrow> uint64 \<Rightarrow> IneryBlockFileInfo \<Rightarrow> IneryBlockFileInfo" where
  "AddBlock nHeightIn nTimeIn i =
     (let i1 = (if nBlocks i = 0 \<or> nHeightFirst i > nHeightIn then i\<lparr>nHeightFirst := nHeightIn\<rparr> else i);
          i2 = (if nBlocks i1 = 0 \<or> nTimeFirst i1 > nTimeIn then i1\<lparr>nTimeFirst := nTimeIn\<rparr> else i1);
          i3 = i2\<lparr>nBlocks := nBlocks i2 + 1\<rparr>;
          i4 = (if nHeightIn > nHeightLast i3 then i3\<lparr>nHeightLast := nHeightIn\<rparr> else i3)
      in if nTimeIn > nTimeLast i4 then i4\<lparr>nTimeLast := nTimeIn\<rparr> else i4)"

section \<open>Files\<close>

record file_system =
  fs_files :: "string \<Rightarrow> string option"
  fs_denied :: "string \<Rightarrow> bool"

definition pad5 :: "string \<Rightarrow> string" where
  "pad5 s = replicate (5 - length s) (CHR ''0'') @ s"

definition file_name :: "IneryDiskBlockPos \<Rightarrow> string \<Rightarrow> string" where
  "file_name pos pre = pre @ pad5 (nat_to_string (unat (nFile pos))) @ ''.dat''"

text \<open>The result is the name, the offset and the file system: opening for writing creates.\<close>

definition OpenDiskFile ::
  "IneryDiskBlockPos \<Rightarrow> string \<Rightarrow> bool \<Rightarrow> file_system \<Rightarrow> (string \<times> nat \<times> file_system) option" where
  "OpenDiskFile pos pre fReadOnly fs =
     (if BlockPos_IsNull pos then None
      else let path = file_name pos pre in
        if fs_denied fs path then None
        else case fs_files fs path of
               Some _ \<Rightarrow> Some (path, unat (nPos pos), fs)
             | None \<Rightarrow>
                 if fReadOnly then None
                 else Some (path, unat (nPos pos), fs\<lparr>fs_files := (fs_files fs)(path \<mapsto> [])\<rparr>))"

definition OpenBlockFile :: "IneryDiskBlockPos \<Rightarrow> bool \<Rightarrow> file_system \<Rightarrow> (string \<times> nat \<times> file_system) option" where
  "OpenBlockFile pos fReadOnly fs = OpenDiskFile pos ''blk'' fReadOnly fs"

text \<open>Writing at an offset past the end fills the gap with zero bytes.\<close>

definition write_at :: "nat \<Rightarrow> string \<Rightarrow> string \<Rightarrow> string" where
  "write_at off bytes content =
     take off (content @ replicate (off - length content) (CHR 0x00)) @ bytes @ drop (off + length bytes) content"

lemma drop_write_at: "drop (off + n) (write_at off (replicate n c) content) = drop (off + n) content"
  by (simp add: write_at_def)

lemma write_at_drop: "\<exists>rest. drop off (write_at off bytes content) = bytes @ rest"
  by (simp add: write_at_def)

lemma write_at_take: "off \<le> length content \<Longrightarrow> take off (write_at off bytes content) = take off content"
  by (simp add: write_at_def)

section \<open>Properties\<close>

lemma AddBlock_inv:
  assumes "AddBlock h t i = j"
  shows "nBlocks j = nBlocks i + 1"
    "nHeightFirst j = (if nBlocks i = 0 then h else min (nHeightFirst i) h)"
    "nHeightLast j = max (nHeightLast i) h"
    "nTimeFirst j = (if nBlocks i = 0 then t else min (nTimeFirst i) t)"
    "nTimeLast j = max (nTimeLast i) t"
    "nSize j = nSize i" "nUndoSize j = nUndoSize i"
  using assms by (auto simp: AddBlock_def Let_def min_def max_def split: if_splits)

text \<open>
  After adding any sequence of at least one and fewer than 2^32 blocks to an empty
  file record, the record has their number, their lowest and highest height and their
  earliest and latest time, in whatever order they came.
\<close>

theorem block_file_info:
  assumes "bs \<noteq> []" and "length bs < 2 ^ 32"
    and "i = fold (\<lambda>(h, t). AddBlock h t) bs BlockFileInfo_SetNull"
  shows "unat (nBlocks i) = length bs \<and>
    nHeightFirst i = Min (fst ` set bs) \<and> nHeightLast i = Max (fst ` set bs) \<and>
    nTimeFirst i = Min (snd ` set bs) \<and> nTimeLast i = Max (snd ` set bs)"
  using assms
proof (induction bs arbitrary: i rule: rev_induct)
  case (snoc b bs)
  obtain h t where b: "b = (h, t)" by (cases b)
  let ?j = "fold (\<lambda>(h, t). AddBlock h t) bs BlockFileInfo_SetNull"
  have i: "AddBlock h t ?j = i"
    using snoc.prems(3) b by simp
  show ?case
  proof (cases "bs = []")
    case True
    then show ?thesis
      using AddBlock_inv [OF i] b by (simp add: BlockFileInfo_SetNull_def)
  next
    case False
    then have IH: "unat (nBlocks ?j) = length bs" "nHeightFirst ?j = Min (fst ` set bs)"
        "nHeightLast ?j = Max (fst ` set bs)" "nTimeFirst ?j = Min (snd ` set bs)"
        "nTimeLast ?j = Max (snd ` set bs)"
      using snoc.IH snoc.prems(2) by auto
    have "unat (nBlocks ?j + 1) = length bs + 1"
      using IH(1) snoc.prems(2) by (subst unat_add_no_wrap) simp_all
    moreover have "nBlocks ?j \<noteq> 0"
      using IH(1) False by auto
    ultimately show ?thesis
      using AddBlock_inv [OF i] IH(2-5) b False by (simp add: min.commute max.commute)
  qed
qed simp

theorem block_file_info_witness:
  "nHeightFirst (fold (\<lambda>(h, t). AddBlock h t) [(7, 20), (5, 30), (9, 10)] BlockFileInfo_SetNull) = 5"
  using block_file_info [of "[(7, 20), (5, 30), (9, 10)]"
      "fold (\<lambda>(h, t). AddBlock h t) [(7, 20), (5, 30), (9, 10)] BlockFileInfo_SetNull"]
  by (simp add: min_def)

end
