(* ===== verification/Block_Undo.thy ===== *)
theory Block_Undo
  imports Cache_Wrapper Disk
begin

text \<open>
  \<open>blockundo.h\<close>, \<open>blockundo.cpp\<close> and the part of \<open>CCacheWrapper\<close> they use: transactions run
  with a log attached to every cache of the wrapper, the logs of a block are kept as its
  undo data, and executing the undo data puts every cache of the wrapper back.  The undo
  data is written to a file with a checksum and read back.
\<close>

section \<open>The caches of a wrapper\<close>

record CCacheWrapper =
  cw_comp :: "PrefixType \<Rightarrow> (string, string) kvcache"
  cw_simp :: "PrefixType \<Rightarrow> string simple_cache"

text \<open>The types and databases of the tables: \<open>ops\<close> and \<open>ops1\<close> for the two kinds.\<close>

record cw_env =
  ops :: "PrefixType \<Rightarrow> (string, string) kvops"
  ops1 :: "PrefixType \<Rightarrow> (unit, string) kvops"
  dbs :: "PrefixType \<Rightarrow> CDBAccess"

definition kind_of :: "PrefixType \<Rightarrow> member_kind option" where
  "kind_of p = map_of all_tables p"

text \<open>One write to a cache of the wrapper while a transaction runs.\<close>

datatype cw_write = CWrite PrefixType "(string, string) kv_write" | SWrite PrefixType "string simple_write"

fun write_prefix :: "cw_write \<Rightarrow> PrefixType" where
  "write_prefix (CWrite p w) = p"
| "write_prefix (SWrite p w) = p"

text \<open>After \<open>SetDbOpLogMap(lg)\<close> the caches reached by it log to \<open>lg\<close>, the others nowhere.\<close>

definition logger_of :: "CDBOpLogMap option \<Rightarrow> PrefixType \<Rightarrow> CDBOpLogMap option" where
  "logger_of lg p = (if p \<in> set logged_prefixes then lg else None)"

definition keep_log :: "CDBOpLogMap option \<Rightarrow> PrefixType \<Rightarrow> CDBOpLogMap option \<Rightarrow> CDBOpLogMap option" where
  "keep_log lg p lg' = (if p \<in> set logged_prefixes then lg' else lg)"

fun cw_run_write ::
  "cw_env \<Rightarrow> cw_write \<Rightarrow> CCacheWrapper \<times> CDBOpLogMap option \<Rightarrow> (CCacheWrapper \<times> CDBOpLogMap option) option" where
  "cw_run_write E (CWrite p w) (cw, lg) =
     do { (c, lg') \<leftarrow> run_write (ops E p) (dbs E p) w (cw_comp cw p, logger_of lg p);
          Some (cw\<lparr>cw_comp := (cw_comp cw)(p := c)\<rparr>, keep_log lg p lg') }"
| "cw_run_write E (SWrite p w) (cw, lg) =
     do { (c, lg') \<leftarrow> simple_run (ops1 E p) (dbs E p) w (cw_simp cw p, logger_of lg p);
          Some (cw\<lparr>cw_simp := (cw_simp cw)(p := c)\<rparr>, keep_log lg p lg') }"

section \<open>Undo data\<close>

record 'txid IneryTxUndo =
  tx_id :: 'txid
  dbOpLogMap :: CDBOpLogMap

definition IneryTxUndo_Clear :: "'txid \<Rightarrow> 'txid IneryTxUndo \<Rightarrow> 'txid IneryTxUndo" where
  "IneryTxUndo_Clear null_id u = u\<lparr>tx_id := null_id, dbOpLogMap := OpLogMap_Clear (dbOpLogMap u)\<rparr>"

record 'txid IneryBlockUndo =
  vtxundo :: "'txid IneryTxUndo list"

text \<open>
  \<open>IneryTxUndoOpLogger\<close>: its constructor attaches an empty log, its destructor appends the
  undo data of the transaction to the block's and detaches the log.  A transaction is the
  sequence of its writes.
\<close>

definition IneryTxUndoOpLogger ::
  "cw_env \<Rightarrow> 'txid \<Rightarrow> cw_write list \<Rightarrow> CCacheWrapper \<times> 'txid IneryBlockUndo \<Rightarrow>
     (CCacheWrapper \<times> 'txid IneryBlockUndo) option" where
  "IneryTxUndoOpLogger E txid ws s =
     (let (cw, block_undo) = s; tx_undo = \<lparr>tx_id = txid, dbOpLogMap = sm_empty\<rparr> in
      do { (cw', lg) \<leftarrow> fold_opt (cw_run_write E) ws (cw, Some (dbOpLogMap tx_undo));
           case lg of
             None \<Rightarrow> None
           | Some m \<Rightarrow>
               Some (cw', block_undo\<lparr>vtxundo := vtxundo block_undo @ [tx_undo\<lparr>dbOpLogMap := m\<rparr>]\<rparr>) })"

fun run_block ::
  "cw_env \<Rightarrow> ('txid \<times> cw_write list) list \<Rightarrow> CCacheWrapper \<times> 'txid IneryBlockUndo \<Rightarrow>
     (CCacheWrapper \<times> 'txid IneryBlockUndo) option" where
  "run_block E [] s = Some s"
| "run_block E ((txid, ws) # txs) s = do { s1 \<leftarrow> IneryTxUndoOpLogger E txid ws s; run_block E txs s1 }"

section \<open>Executing the undo\<close>

text \<open>\<open>GetUndoDataFuncMap\<close>: the undo function of each registered prefix.\<close>

definition GetUndoDataFuncMap :: "cw_env \<Rightarrow> PrefixType \<Rightarrow> (CDbOpLogs \<Rightarrow> CCacheWrapper \<Rightarrow> CCacheWrapper option) option" where
  "GetUndoDataFuncMap E p =
     (if p \<notin> set undo_prefixes then None
      else if kind_of p = Some Simple then
        Some (\<lambda>logs cw. do { c \<leftarrow> Simple_UndoDataList (ops1 E p) logs (cw_simp cw p);
                             Some (cw\<lparr>cw_simp := (cw_simp cw)(p := c)\<rparr>) })
      else
        Some (\<lambda>logs cw. do { c \<leftarrow> UndoDataList (ops E p) logs (cw_comp cw p);
                             Some (cw\<lparr>cw_comp := (cw_comp cw)(p := c)\<rparr>) }))"

text \<open>The inner loop, over the prefixes of one transaction's log; \<open>False\<close> is the early return.\<close>

fun undo_tx ::
  "(PrefixType \<Rightarrow> (CDbOpLogs \<Rightarrow> CCacheWrapper \<Rightarrow> CCacheWrapper option) option) \<Rightarrow> (string \<times> CDbOpLogs) list \<Rightarrow>
     CCacheWrapper \<Rightarrow> (bool \<times> CCacheWrapper) option" where
  "undo_tx funcs [] cw = Some (True, cw)"
| "undo_tx funcs ((pre, logs) # rest) cw =
     (let prefixType = ParseKeyPrefixType pre in
      if prefixType = EMPTY then Some (False, cw)
      else case funcs prefixType of
             None \<Rightarrow> Some (False, cw)
           | Some f \<Rightarrow> do { cw' \<leftarrow> f logs cw; undo_tx funcs rest cw' })"

fun undo_txs ::
  "(PrefixType \<Rightarrow> (CDbOpLogs \<Rightarrow> CCacheWrapper \<Rightarrow> CCacheWrapper option) option) \<Rightarrow> 'txid IneryTxUndo list \<Rightarrow>
     CCacheWrapper \<Rightarrow> (bool \<times> CCacheWrapper) option" where
  "undo_txs funcs [] cw = Some (True, cw)"
| "undo_txs funcs (u # us) cw =
     do { (ok, cw') \<leftarrow> undo_tx funcs (sm_items (dbOpLogMap u)) cw;
          if ok then undo_txs funcs us cw' else Some (False, cw') }"

definition Execute :: "cw_env \<Rightarrow> 'txid IneryBlockUndo \<Rightarrow> CCacheWrapper \<Rightarrow> (bool \<times> CCacheWrapper) option" where
  "Execute E u cw = undo_txs (GetUndoDataFuncMap E) (rev (vtxundo u)) cw"

section \<open>The undo file\<close>

text \<open>
  \<open>chash\<close> is the double hash of \<open>CHashWriter\<close> over what was written to it; the codecs are the
  serialisation of the undo data and of a hash: code outside the persistence layer.  A
  decoder returns the rest of the stream, or \<open>None\<close> for an exception.
\<close>

record ('u, 'h) undo_codec =
  enc_undo :: "'u \<Rightarrow> string"
  dec_undo :: "string \<Rightarrow> ('u \<times> string) option"
  enc_hash :: "'h \<Rightarrow> string"
  dec_hash :: "string \<Rightarrow> ('h \<times> string) option"
  chash :: "string \<Rightarrow> 'h"

definition le_bytes4 :: "uint32 \<Rightarrow> string" where
  "le_bytes4 w = map (\<lambda>i. char_of (unat (drop_bit (8 * i) w) mod 256)) [0, 1, 2, 3]"

definition OpenUndoFile :: "IneryDiskBlockPos \<Rightarrow> bool \<Rightarrow> file_system \<Rightarrow> (string \<times> nat \<times> file_system) option" where
  "OpenUndoFile pos fReadOnly fs = OpenDiskFile pos ''rev'' fReadOnly fs"

text \<open>The result: success, the position with its new offset, and the file system.\<close>

definition WriteToDisk ::
  "('u, 'h) undo_codec \<Rightarrow> string \<Rightarrow> 'u \<Rightarrow> 'h \<Rightarrow> IneryDiskBlockPos \<Rightarrow> file_system \<Rightarrow>
     bool \<times> IneryDiskBlockPos \<times> file_system" where
  "WriteToDisk C messageStart u blockHash pos fs =
     (case OpenUndoFile pos False fs of
        None \<Rightarrow> (False, pos, fs)
      | Some (path, off, fs1) \<Rightarrow>
          let body = enc_undo C u;
              header = messageStart @ le_bytes4 (of_nat (length body));
              pos1 = pos\<lparr>nPos := of_nat (off + length header)\<rparr>;
              checksum = chash C (enc_hash C blockHash @ body);
              old = (case fs_files fs1 path of Some s \<Rightarrow> s | None \<Rightarrow> [])
          in (True, pos1,
              fs1\<lparr>fs_files := (fs_files fs1)(path \<mapsto> write_at off (header @ body @ enc_hash C checksum) old)\<rparr>))"

definition ReadFromDisk ::
  "('u, 'h) undo_codec \<Rightarrow> IneryDiskBlockPos \<Rightarrow> 'h \<Rightarrow> file_system \<Rightarrow> 'u option" where
  "ReadFromDisk C pos blockHash fs =
     do { (path, off, fs1) \<leftarrow> OpenUndoFile pos True fs;
          content \<leftarrow> fs_files fs1 path;
          (u, s1) \<leftarrow> dec_undo C (drop off content);
          (hashChecksum, s2) \<leftarrow> dec_hash C s1;
          if hashChecksum \<noteq> chash C (enc_hash C blockHash @ enc_undo C u) then None else Some u }"

definition codecs_ok :: "('u, 'h) undo_codec \<Rightarrow> bool" where
  "codecs_ok C \<longleftrightarrow> (\<forall>u s. dec_undo C (enc_undo C u @ s) = Some (u, s)) \<and>
     (\<forall>h s. dec_hash C (enc_hash C h @ s) = Some (h, s))"

section \<open>What the caches show\<close>

definition cw_view :: "cw_env \<Rightarrow> CCacheWrapper \<Rightarrow> PrefixType \<Rightarrow> string \<Rightarrow> string option" where
  "cw_view E cw p =
     (if kind_of p = Some Simple then (\<lambda>_. sview (ops1 E p) (dbs E p) (cw_simp cw p))
      else view (ops E p) (dbs E p) (cw_comp cw p))"

definition env_ok :: "cw_env \<Rightarrow> bool" where
  "env_ok E \<longleftrightarrow> (\<forall>p. case kind_of p of
       Some Composite \<Rightarrow> prefix_type (ops E p) = p \<and> access_ok (ops E p) (dbs E p)
     | Some Simple \<Rightarrow> prefix_type (ops1 E p) = p \<and> simple_ok (ops1 E p) (dbs E p)
     | None \<Rightarrow> True)"

definition write_ok :: "cw_write \<Rightarrow> bool" where
  "write_ok w = (case w of CWrite p _ \<Rightarrow> kind_of p = Some Composite | SWrite p _ \<Rightarrow> kind_of p = Some Simple)"

lemma env_composite:
  assumes "env_ok E" and "kind_of p = Some Composite"
  shows "access_ok (ops E p) (dbs E p)" "prefix_type (ops E p) = p"
  using assms(1) [unfolded env_ok_def, THEN spec, of p] assms(2) by simp_all

lemma env_simple:
  assumes "env_ok E" and "kind_of p = Some Simple"
  shows "simple_ok (ops1 E p) (dbs E p)" "prefix_type (ops1 E p) = p"
  using assms(1) [unfolded env_ok_def, THEN spec, of p] assms(2) by simp_all

lemma kind_of_table:
  assumes "kind_of p = Some k"
  shows "is_data_prefix p" "p \<in> set logged_prefixes" "p \<in> set undo_prefixes"
proof -
  have t: "(p, k) \<in> set all_tables"
    using assms unfolding kind_of_def by (rule map_of_SomeD)
  then have "p \<in> fst ` set all_tables"
    by (rule image_eqI [rotated]) simp
  then show "is_data_prefix p" "p \<in> set logged_prefixes" "p \<in> set undo_prefixes"
    unfolding set_logged set_undo using tables_data [OF t] by blast+
qed

section \<open>Undoing one transaction\<close>

text \<open>
  The entries a transaction logs for a prefix, as the sequence of logged steps of that
  prefix's cache, and what undoing them needs and gives.
\<close>

definition undoes :: "cw_env \<Rightarrow> PrefixType \<Rightarrow> CDbOpLogs \<Rightarrow> (string \<Rightarrow> string option) \<Rightarrow> (string \<Rightarrow> string option) \<Rightarrow> bool" where
  "undoes E p l before after \<longleftrightarrow>
     (\<forall>t. cw_view E t p = after \<longrightarrow>
        (\<exists>f t'. GetUndoDataFuncMap E p = Some f \<and> f l t = Some t' \<and> cw_view E t' p = before \<and>
           (\<forall>q. q \<noteq> p \<longrightarrow> cw_view E t' q = cw_view E t q)))"

lemma undoes_composite:
  assumes ok: "env_ok E" and k: "kind_of p = Some Composite"
    and run: "run_logged (kv_step (ops E p) (dbs E p)) ws c = Some (c', l)"
    and before: "view (ops E p) (dbs E p) c = before" and after: "view (ops E p) (dbs E p) c' = after"
  shows "undoes E p l before after"
  unfolding undoes_def
proof (intro allI impI)
  fix t
  assume t: "cw_view E t p = after"
  note acc = env_composite [OF ok k]
  have "view (ops E p) (dbs E p) (cw_comp t p) = view (ops E p) (dbs E p) c'"
    using t after k by (simp add: cw_view_def)
  from composite_undo.run_undo [OF acc(1) run acc(1) this]
  obtain ct where ct: "UndoDataList (ops E p) l (cw_comp t p) = Some ct"
      "view (ops E p) (dbs E p) ct = view (ops E p) (dbs E p) c"
    unfolding UndoDataList_def by blast
  let ?f = "\<lambda>logs cw. do { c \<leftarrow> UndoDataList (ops E p) logs (cw_comp cw p);
                           Some (cw\<lparr>cw_comp := (cw_comp cw)(p := c)\<rparr>) }"
  let ?t' = "t\<lparr>cw_comp := (cw_comp t)(p := ct)\<rparr>"
  have "GetUndoDataFuncMap E p = Some ?f"
    using k kind_of_table [OF k] by (simp add: GetUndoDataFuncMap_def)
  moreover have "?f l t = Some ?t'"
    using ct(1) by simp
  moreover have "cw_view E ?t' p = before"
    using k ct(2) before by (simp add: cw_view_def)
  moreover have "\<forall>q. q \<noteq> p \<longrightarrow> cw_view E ?t' q = cw_view E t q"
    by (simp add: cw_view_def)
  ultimately show "\<exists>f t'. GetUndoDataFuncMap E p = Some f \<and> f l t = Some t' \<and> cw_view E t' p = before \<and>
      (\<forall>q. q \<noteq> p \<longrightarrow> cw_view E t' q = cw_view E t q)"
    by blast
qed

lemma undoes_simple:
  assumes ok: "env_ok E" and k: "kind_of p = Some Simple"
    and run: "run_logged (simple_step (ops1 E p) (dbs E p)) ws c = Some (c', l)"
    and before: "(\<lambda>_. sview (ops1 E p) (dbs E p) c) = before" and after: "(\<lambda>_. sview (ops1 E p) (dbs E p) c') = after"
  shows "undoes E p l before after"
  unfolding undoes_def
proof (intro allI impI)
  fix t
  assume t: "cw_view E t p = after"
  note acc = env_simple [OF ok k]
  have "(\<lambda>_. sview (ops1 E p) (dbs E p) (cw_simp t p)) = after"
    using t k by (simp add: cw_view_def)
  then have "sview (ops1 E p) (dbs E p) (cw_simp t p) = sview (ops1 E p) (dbs E p) c'"
    using after by (metis (no_types))
  from simple_undo.run_undo [OF acc(1) run acc(1) this]
  obtain ct where ct: "Simple_UndoDataList (ops1 E p) l (cw_simp t p) = Some ct"
      "sview (ops1 E p) (dbs E p) ct = sview (ops1 E p) (dbs E p) c"
    unfolding Simple_UndoDataList_def by blast
  let ?f = "\<lambda>logs cw. do { c \<leftarrow> Simple_UndoDataList (ops1 E p) logs (cw_simp cw p);
                           Some (cw\<lparr>cw_simp := (cw_simp cw)(p := c)\<rparr>) }"
  let ?t' = "t\<lparr>cw_simp := (cw_simp t)(p := ct)\<rparr>"
  have "GetUndoDataFuncMap E p = Some ?f"
    using k kind_of_table [OF k] by (simp add: GetUndoDataFuncMap_def)
  moreover have "?f l t = Some ?t'"
    using ct(1) by simp
  moreover have "cw_view E ?t' p = before"
    using k ct(2) before by (simp add: cw_view_def)
  moreover have "\<forall>q. q \<noteq> p \<longrightarrow> cw_view E ?t' q = cw_view E t q"
    by (simp add: cw_view_def)
  ultimately show "\<exists>f t'. GetUndoDataFuncMap E p = Some f \<and> f l t = Some t' \<and> cw_view E t' p = before \<and>
      (\<forall>q. q \<noteq> p \<longrightarrow> cw_view E t' q = cw_view E t q)"
    by blast
qed

text \<open>The loop over the prefixes of a log undoes each of them, and nothing else.\<close>

lemma undo_tx_ok:
  assumes "distinct (map fst xs)"
    and "\<And>s l. (s, l) \<in> set xs \<Longrightarrow> \<exists>p. is_data_prefix p \<and> s = GetKeyPrefix p \<and> undoes E p l (F p) (cw_view E t p)"
  shows "\<exists>t'. undo_tx (GetUndoDataFuncMap E) xs t = Some (True, t') \<and>
    (\<forall>p. is_data_prefix p \<longrightarrow>
       cw_view E t' p = (if GetKeyPrefix p \<in> fst ` set xs then F p else cw_view E t p))"
  using assms
proof (induction xs arbitrary: t)
  case (Cons x xs)
  obtain s l where x: "x = (s, l)" by (cases x)
  obtain p where p: "is_data_prefix p" "s = GetKeyPrefix p" "undoes E p l (F p) (cw_view E t p)"
    using Cons.prems(2) [of s l] x by auto
  then obtain f t1 where f: "GetUndoDataFuncMap E p = Some f" "f l t = Some t1" "cw_view E t1 p = F p"
      "\<forall>q. q \<noteq> p \<longrightarrow> cw_view E t1 q = cw_view E t q"
    unfolding undoes_def by blast
  have parse: "ParseKeyPrefixType s = p"
    using p by (simp add: ParseKeyPrefixType_GetKeyPrefix)
  have "p \<noteq> EMPTY"
    using p(1) by (simp add: is_data_prefix_def)
  then have step: "undo_tx (GetUndoDataFuncMap E) (x # xs) t = undo_tx (GetUndoDataFuncMap E) xs t1"
    using x parse f by simp
  have "\<exists>q. is_data_prefix q \<and> s' = GetKeyPrefix q \<and> undoes E q l' (F q) (cw_view E t1 q)"
    if mem: "(s', l') \<in> set xs" for s' l'
  proof -
    obtain q where q: "is_data_prefix q" "s' = GetKeyPrefix q" "undoes E q l' (F q) (cw_view E t q)"
      using Cons.prems(2) [OF list.set_intros(2) [OF mem]] by blast
    have "s' \<noteq> s"
      using Cons.prems(1) mem x by force
    then have "q \<noteq> p"
      using p q by auto
    with q f(4) show ?thesis by auto
  qed
  then obtain t' where t': "undo_tx (GetUndoDataFuncMap E) xs t1 = Some (True, t')"
    "\<forall>q. is_data_prefix q \<longrightarrow>
       cw_view E t' q = (if GetKeyPrefix q \<in> fst ` set xs then F q else cw_view E t1 q)"
    using Cons.IH [of t1] Cons.prems(1) by auto
  have "cw_view E t' q = (if GetKeyPrefix q \<in> fst ` set (x # xs) then F q else cw_view E t q)"
    if q: "is_data_prefix q" for q
    using t'(2) q p x f(3,4) GetKeyPrefix_inj [OF q p(1)] by auto
  with step t'(1) show ?case by auto
qed simp

text \<open>Undo functions compose, and an empty log undoes nothing.\<close>

lemma undo_func_append:
  assumes "GetUndoDataFuncMap E p = Some f"
  shows "f (l1 @ l2) t = do { t' \<leftarrow> f l2 t; f l1 t' }"
  using assms
  by (auto simp: GetUndoDataFuncMap_def UndoDataList_def Simple_UndoDataList_def fold_opt_append
      split: if_splits option.splits)

lemma undo_func_nil:
  assumes "GetUndoDataFuncMap E p = Some f"
  shows "f [] t = Some t"
  using assms
  by (auto simp: GetUndoDataFuncMap_def UndoDataList_def Simple_UndoDataList_def split: if_splits)

lemma undoes_append:
  assumes "undoes E p l1 a b" and "undoes E p l2 b c"
  shows "undoes E p (l1 @ l2) a c"
  unfolding undoes_def
proof (intro allI impI)
  fix t
  assume "cw_view E t p = c"
  then obtain f t1 where f: "GetUndoDataFuncMap E p = Some f" "f l2 t = Some t1" "cw_view E t1 p = b"
      "\<forall>q. q \<noteq> p \<longrightarrow> cw_view E t1 q = cw_view E t q"
    using assms(2) unfolding undoes_def by blast
  obtain f' t2 where f': "GetUndoDataFuncMap E p = Some f'" "f' l1 t1 = Some t2" "cw_view E t2 p = a"
      "\<forall>q. q \<noteq> p \<longrightarrow> cw_view E t2 q = cw_view E t1 q"
    using assms(1) f(3) unfolding undoes_def by blast
  have "f' = f"
    using f(1) f'(1) by simp
  note t2 = f'(2-4) [unfolded this]
  have "f (l1 @ l2) t = Some t2"
    using undo_func_append [OF f(1)] f(2) t2(1) by simp
  with f t2 show "\<exists>f t'. GetUndoDataFuncMap E p = Some f \<and> f (l1 @ l2) t = Some t' \<and> cw_view E t' p = a \<and>
      (\<forall>q. q \<noteq> p \<longrightarrow> cw_view E t' q = cw_view E t q)"
    by (intro exI [of _ f] exI [of _ t2]) simp
qed

lemma undoes_nil_eq: "undoes E p [] a (cw_view E t p) \<Longrightarrow> a = cw_view E t p"
proof -
  assume "undoes E p [] a (cw_view E t p)"
  then obtain f t' where "GetUndoDataFuncMap E p = Some f" "f [] t = Some t'" "cw_view E t' p = a"
    unfolding undoes_def by blast
  with undo_func_nil show ?thesis
    by (metis option.inject)
qed

lemma undoes_nil:
  assumes "kind_of p = Some k"
  shows "undoes E p [] a a"
proof -
  have "GetUndoDataFuncMap E p \<noteq> None"
    using kind_of_table(3) [OF assms] by (simp add: GetUndoDataFuncMap_def)
  then obtain f where "GetUndoDataFuncMap E p = Some f"
    by blast
  with undo_func_nil [OF this] show ?thesis
    unfolding undoes_def by auto
qed

section \<open>Running a transaction\<close>

definition tx_post :: "cw_env \<Rightarrow> CCacheWrapper \<Rightarrow> CDBOpLogMap \<Rightarrow> CCacheWrapper \<Rightarrow> CDBOpLogMap \<Rightarrow> bool" where
  "tx_post E cw m cw' m' \<longleftrightarrow>
     (\<forall>p k. kind_of p = Some k \<longrightarrow>
        (\<exists>l. logs_of p m' = logs_of p m @ l \<and> undoes E p l (cw_view E cw p) (cw_view E cw' p))) \<and>
     (\<forall>s. sm_find m' s \<noteq> None \<longrightarrow> sm_find m s \<noteq> None \<or> (\<exists>p k. kind_of p = Some k \<and> s = GetKeyPrefix p))"

lemma one_write:
  assumes k: "kind_of p = Some k" and l: "undoes E p l (cw_view E cw p) (cw_view E cw' p)"
    and other: "\<And>q. q \<noteq> p \<Longrightarrow> cw_view E cw' q = cw_view E cw q"
  shows "tx_post E cw m cw' (append_logs p l m)"
  unfolding tx_post_def
proof (intro conjI allI impI)
  fix q kq
  assume q: "kind_of q = Some kq"
  note data = kind_of_table(1) [OF k] kind_of_table(1) [OF q]
  show "\<exists>l'. logs_of q (append_logs p l m) = logs_of q m @ l' \<and> undoes E q l' (cw_view E cw q) (cw_view E cw' q)"
  proof (cases "q = p")
    case True
    with l data show ?thesis by (auto simp: logs_of_append_logs)
  next
    case False
    with other [OF False] undoes_nil [OF q] data show ?thesis
      by (intro exI [of _ "[]"]) (simp add: logs_of_append_logs)
  qed
next
  fix s
  assume "sm_find (append_logs p l m) s \<noteq> None"
  with k show "sm_find m s \<noteq> None \<or> (\<exists>p k. kind_of p = Some k \<and> s = GetKeyPrefix p)"
    by (auto simp: append_logs_def split: if_splits)
qed

lemma cw_run_write_ok:
  assumes ok: "env_ok E" and w: "write_ok w"
  shows "\<exists>cw' m'. cw_run_write E w (cw, Some m) = Some (cw', Some m') \<and> tx_post E cw m cw' m'"
proof (cases w)
  case (CWrite p v)
  then have k: "kind_of p = Some Composite"
    using w by (simp add: write_ok_def)
  note acc = env_composite [OF ok k]
  let ?T = "ops E p" and ?d = "dbs E p"
  let ?c' = "write_result ?T ?d v (cw_comp cw p)" and ?l = "entries ?T ?d v (cw_comp cw p)"
  let ?cw' = "cw\<lparr>cw_comp := (cw_comp cw)(p := ?c')\<rparr>"
  have run: "cw_run_write E w (cw, Some m) = Some (?cw', Some (append_logs p ?l m))"
    using CWrite acc kind_of_table(2) [OF k] by (simp add: run_write_eq logger_of_def keep_log_def)
  have "run_logged (kv_step ?T ?d) [v] (cw_comp cw p) = Some (?c', ?l)"
    using acc by (simp add: kv_step_eq)
  then have "undoes E p ?l (view ?T ?d (cw_comp cw p)) (view ?T ?d ?c')"
    by (rule undoes_composite [OF ok k _ refl refl])
  then have "tx_post E cw m ?cw' (append_logs p ?l m)"
    using k by (intro one_write [OF k]) (simp_all add: cw_view_def)
  with run show ?thesis by blast
next
  case (SWrite p v)
  then have k: "kind_of p = Some Simple"
    using w by (simp add: write_ok_def)
  note acc = env_simple [OF ok k]
  let ?T = "ops1 E p" and ?d = "dbs E p"
  obtain c' l where c': "\<forall>lg. simple_run ?T ?d v (cw_simp cw p, lg) = Some (c', map_option (append_logs p l) lg)"
      "simple_step ?T ?d v (cw_simp cw p) = Some (c', l)"
    using simple_run_spec [OF acc(1), of v "cw_simp cw p"] acc(2) by auto
  let ?cw' = "cw\<lparr>cw_simp := (cw_simp cw)(p := c')\<rparr>"
  have run: "cw_run_write E w (cw, Some m) = Some (?cw', Some (append_logs p l m))"
    using SWrite c' kind_of_table(2) [OF k] by (simp add: logger_of_def keep_log_def)
  have "run_logged (simple_step ?T ?d) [v] (cw_simp cw p) = Some (c', l)"
    using c' by simp
  then have "undoes E p l (\<lambda>_. sview ?T ?d (cw_simp cw p)) (\<lambda>_. sview ?T ?d c')"
    by (rule undoes_simple [OF ok k _ refl refl])
  then have "tx_post E cw m ?cw' (append_logs p l m)"
    using k by (intro one_write [OF k]) (simp_all add: cw_view_def)
  with run show ?thesis by blast
qed

lemma tx_post_refl: "tx_post E cw m cw m"
  unfolding tx_post_def using undoes_nil by fastforce

lemma tx_post_trans:
  assumes "tx_post E a m b m1" and "tx_post E b m1 c m2"
  shows "tx_post E a m c m2"
  unfolding tx_post_def
proof (intro conjI allI impI)
  fix p k
  assume p: "kind_of p = Some k"
  obtain l1 where l1: "logs_of p m1 = logs_of p m @ l1" "undoes E p l1 (cw_view E a p) (cw_view E b p)"
    using assms(1) p unfolding tx_post_def by blast
  obtain l2 where "logs_of p m2 = logs_of p m1 @ l2" "undoes E p l2 (cw_view E b p) (cw_view E c p)"
    using assms(2) p unfolding tx_post_def by blast
  with l1 undoes_append [OF l1(2)] show "\<exists>l. logs_of p m2 = logs_of p m @ l \<and> undoes E p l (cw_view E a p) (cw_view E c p)"
    by (intro exI [of _ "l1 @ l2"]) simp
next
  fix s
  assume "sm_find m2 s \<noteq> None"
  then show "sm_find m s \<noteq> None \<or> (\<exists>p k. kind_of p = Some k \<and> s = GetKeyPrefix p)"
    using assms unfolding tx_post_def by blast
qed

lemma run_writes_ok:
  assumes ok: "env_ok E"
  shows "list_all write_ok ws \<Longrightarrow>
    \<exists>cw' m'. fold_opt (cw_run_write E) ws (cw, Some m) = Some (cw', Some m') \<and> tx_post E cw m cw' m'"
proof (induction ws arbitrary: cw m)
  case Nil
  then show ?case using tx_post_refl by auto
next
  case (Cons w ws)
  have w: "write_ok w" "list_all write_ok ws"
    using Cons.prems by auto
  obtain cw1 m1 where 1: "cw_run_write E w (cw, Some m) = Some (cw1, Some m1)" "tx_post E cw m cw1 m1"
    using cw_run_write_ok [OF ok w(1)] by blast
  obtain cw2 m2 where 2: "fold_opt (cw_run_write E) ws (cw1, Some m1) = Some (cw2, Some m2)" "tx_post E cw1 m1 cw2 m2"
    using Cons.IH [OF w(2)] by blast
  from tx_post_trans [OF 1(2) 2(2)] 1(1) 2(1) show ?case by auto
qed

section \<open>Undoing a block\<close>

definition same_views :: "cw_env \<Rightarrow> CCacheWrapper \<Rightarrow> CCacheWrapper \<Rightarrow> bool" where
  "same_views E a b \<longleftrightarrow> (\<forall>p. kind_of p \<noteq> None \<longrightarrow> cw_view E a p = cw_view E b p)"

lemma undo_one_tx:
  assumes post: "tx_post E cw sm_empty cw' m" and t: "same_views E t cw'"
  shows "\<exists>t'. undo_tx (GetUndoDataFuncMap E) (sm_items m) t = Some (True, t') \<and> same_views E t' cw"
proof -
  have logs: "undoes E p (logs_of p m) (cw_view E cw p) (cw_view E cw' p)" if "kind_of p = Some k" for p k
    using post that unfolding tx_post_def by fastforce
  have items: "\<exists>p. is_data_prefix p \<and> s = GetKeyPrefix p \<and> undoes E p l (cw_view E cw p) (cw_view E t p)"
    if mem: "(s, l) \<in> set (sm_items m)" for s l
  proof -
    have f: "sm_find m s = Some l"
      using mem by (simp add: in_sm_items_iff)
    then obtain p k where p: "kind_of p = Some k" "s = GetKeyPrefix p"
      using post unfolding tx_post_def by fastforce
    then have "logs_of p m = l"
      using f by (simp add: logs_of_def)
    moreover have "cw_view E t p = cw_view E cw' p"
      using t p unfolding same_views_def by simp
    ultimately show ?thesis
      using logs [OF p(1)] p kind_of_table(1) [OF p(1)] by auto
  qed
  obtain t' where t': "undo_tx (GetUndoDataFuncMap E) (sm_items m) t = Some (True, t')"
    "\<forall>p. is_data_prefix p \<longrightarrow>
       cw_view E t' p = (if GetKeyPrefix p \<in> fst ` set (sm_items m) then cw_view E cw p else cw_view E t p)"
    using undo_tx_ok [OF distinct_sm_items items] by blast
  have "cw_view E t' p = cw_view E cw p" if p: "kind_of p = Some k" for p k
  proof (cases "GetKeyPrefix p \<in> fst ` set (sm_items m)")
    case True
    with t'(2) kind_of_table(1) [OF p] show ?thesis by simp
  next
    case False
    then have "sm_find m (GetKeyPrefix p) = None"
      by (metis image_eqI in_sm_items_iff fst_conv not_Some_eq)
    then have "undoes E p [] (cw_view E cw p) (cw_view E cw' p)"
      using logs [OF p] by (simp add: logs_of_def)
    then have "cw_view E cw p = cw_view E cw' p"
      by (rule undoes_nil_eq)
    with False t'(2) kind_of_table(1) [OF p] t p show ?thesis
      unfolding same_views_def by simp
  qed
  with t'(1) show ?thesis
    unfolding same_views_def by auto
qed

lemma undo_txs_append:
  "undo_txs f (xs @ ys) t =
     do { (ok, t') \<leftarrow> undo_txs f xs t; if ok then undo_txs f ys t' else Some (False, t') }"
  by (induction xs arbitrary: t) (auto split: option.splits Option.bind_splits)

lemma run_block_ok:
  assumes ok: "env_ok E"
  shows "list_all (\<lambda>(txid, ws). list_all write_ok ws) txs \<Longrightarrow>
    \<exists>cw' new. run_block E txs (cw, u) = Some (cw', u\<lparr>vtxundo := vtxundo u @ new\<rparr>) \<and>
      map tx_id new = map fst txs \<and>
      (\<forall>t. same_views E t cw' \<longrightarrow>
         (\<exists>t'. undo_txs (GetUndoDataFuncMap E) (rev new) t = Some (True, t') \<and> same_views E t' cw))"
proof (induction txs arbitrary: cw u)
  case Nil
  show ?case
    by (intro exI [of _ cw] exI [of _ "[]"]) auto
next
  case (Cons x txs)
  obtain txid ws where x: "x = (txid, ws)" by (cases x)
  have ws: "list_all write_ok ws" and txs: "list_all (\<lambda>(txid, ws). list_all write_ok ws) txs"
    using Cons.prems x by auto
  obtain cw1 m where 1: "fold_opt (cw_run_write E) ws (cw, Some sm_empty) = Some (cw1, Some m)"
      "tx_post E cw sm_empty cw1 m"
    using run_writes_ok [OF ok ws] by blast
  let ?tx = "\<lparr>tx_id = txid, dbOpLogMap = m\<rparr>"
  let ?u1 = "u\<lparr>vtxundo := vtxundo u @ [?tx]\<rparr>"
  have step: "IneryTxUndoOpLogger E txid ws (cw, u) = Some (cw1, ?u1)"
    using 1(1) by (simp add: IneryTxUndoOpLogger_def Let_def)
  obtain cw' new where new: "run_block E txs (cw1, ?u1) = Some (cw', ?u1\<lparr>vtxundo := vtxundo ?u1 @ new\<rparr>)"
      "map tx_id new = map fst txs"
      "\<forall>t. same_views E t cw' \<longrightarrow>
         (\<exists>t'. undo_txs (GetUndoDataFuncMap E) (rev new) t = Some (True, t') \<and> same_views E t' cw1)"
    using Cons.IH [OF txs, of cw1 ?u1] by blast
  have "\<exists>t'. undo_txs (GetUndoDataFuncMap E) (rev (?tx # new)) t = Some (True, t') \<and> same_views E t' cw"
    if sv: "same_views E t cw'" for t
  proof -
    obtain t1 where t1: "undo_txs (GetUndoDataFuncMap E) (rev new) t = Some (True, t1)" "same_views E t1 cw1"
      using new(3) sv by blast
    obtain t2 where "undo_tx (GetUndoDataFuncMap E) (sm_items m) t1 = Some (True, t2)" "same_views E t2 cw"
      using undo_one_tx [OF 1(2) t1(2)] by blast
    with t1 show ?thesis
      by (simp add: undo_txs_append)
  qed
  with step new(1,2) x show ?case
    by (intro exI [of _ cw'] exI [of _ "?tx # new"]) simp
qed

section \<open>Properties\<close>

lemma bytes1_env_ok:
  assumes "is_data_prefix p"
  shows "simple_ok (bytes1_ops p) (empty_db t)"
proof -
  have "kv_wf (bytes1_ops p)"
    using assms by (simp add: kv_wf_def bytes1_ops_def)
  then have "access_ok (bytes1_ops p) (empty_db t)"
    by (simp add: access_ok_def ldb_healthy_def empty_db_def del: access_okD)
  then show ?thesis
    by (simp add: simple_ok_def sdb_val_def)
qed

definition bytes_env :: cw_env where
  "bytes_env = \<lparr>ops = bytes_ops, ops1 = bytes1_ops, dbs = (\<lambda>p. empty_db (kDbPrefix2DbName p))\<rparr>"

lemma bytes_env_ok: "env_ok bytes_env"
  unfolding env_ok_def
proof
  fix p
  show "case kind_of p of
       Some Composite \<Rightarrow> prefix_type (ops bytes_env p) = p \<and> access_ok (ops bytes_env p) (dbs bytes_env p)
     | Some Simple \<Rightarrow> prefix_type (ops1 bytes_env p) = p \<and> simple_ok (ops1 bytes_env p) (dbs bytes_env p)
     | None \<Rightarrow> True"
    using kind_of_table(1) [of p]
    by (auto simp: bytes_env_def bytes1_env_ok split: option.split member_kind.split)
qed

text \<open>
  Running any sequence of transactions of a block, each with its undo logger, and
  then executing the block's undo data restores what every cache of the wrapper shows, for
  every table and every key, whatever the transactions wrote; the undo data has one entry
  per transaction, and no step fails.
\<close>

theorem block_undo_restores:
  assumes "env_ok E" and "list_all (\<lambda>(txid, ws). list_all write_ok ws) txs"
  shows "\<exists>cw' u cw''. run_block E txs (cw, \<lparr>vtxundo = []\<rparr>) = Some (cw', u) \<and>
    map tx_id (vtxundo u) = map fst txs \<and>
    Execute E u cw' = Some (True, cw'') \<and> same_views E cw'' cw"
proof -
  obtain cw' new where new: "run_block E txs (cw, \<lparr>vtxundo = []\<rparr>) = Some (cw', \<lparr>vtxundo = new\<rparr>)"
      "map tx_id new = map fst txs"
      "\<forall>t. same_views E t cw' \<longrightarrow>
         (\<exists>t'. undo_txs (GetUndoDataFuncMap E) (rev new) t = Some (True, t') \<and> same_views E t' cw)"
    using run_block_ok [OF assms, of cw "\<lparr>vtxundo = []\<rparr>"] by auto
  moreover have "same_views E cw' cw'"
    by (simp add: same_views_def)
  ultimately show ?thesis
    unfolding Execute_def by fastforce
qed

theorem block_undo_restores_witness:
  "\<exists>cw' u cw''. run_block bytes_env
        [(1 :: nat, [CWrite KEYID_ACCOUNT (WSet ''a'' ''1''), SWrite BEST_BLOCKHASH (SSet ''h'')]),
         (2, [CWrite KEYID_ACCOUNT (WErase ''a'')])]
        (\<lparr>cw_comp = (\<lambda>_. new_free), cw_simp = (\<lambda>_. SFree None)\<rparr>, \<lparr>vtxundo = []\<rparr>) = Some (cw', u) \<and>
     Execute bytes_env u cw' = Some (True, cw'')"
proof -
  have k: "kind_of KEYID_ACCOUNT = Some Composite" "kind_of BEST_BLOCKHASH = Some Simple"
    by (simp_all add: kind_of_def all_tables_def cw_SetDbOpLogMap_def class_defs)
  have ws: "list_all (\<lambda>(txid, ws). list_all write_ok ws)
      [(1 :: nat, [CWrite KEYID_ACCOUNT (WSet ''a'' ''1''), SWrite BEST_BLOCKHASH (SSet ''h'')]),
       (2, [CWrite KEYID_ACCOUNT (WErase ''a'')])]"
    by (simp add: write_ok_def k)
  from block_undo_restores [OF bytes_env_ok this] show ?thesis
    by blast
qed

text \<open>
  Undo data with a log under a prefix that no cache of the wrapper registered, or
  that no table has, is refused: \<open>Execute\<close> returns false, and the caches are as they were
  when it came to that prefix.
\<close>

theorem undo_unknown_prefix:
  assumes "ParseKeyPrefixType s \<notin> set undo_prefixes"
  shows "Execute E \<lparr>vtxundo = us @ [\<lparr>tx_id = txid, dbOpLogMap = sm_set s l sm_empty\<rparr>]\<rparr> cw = Some (False, cw)"
  using assms
  by (simp add: Execute_def sm_items_set GetUndoDataFuncMap_def Let_def)

theorem undo_unknown_prefix_witness:
  "Execute bytes_env \<lparr>vtxundo = [\<lparr>tx_id = (), dbOpLogMap = sm_set (GetKeyPrefix TX_EXECUTE_FAIL) [] sm_empty\<rparr>]\<rparr>
       \<lparr>cw_comp = (\<lambda>_. new_free), cw_simp = (\<lambda>_. SFree None)\<rparr> =
     Some (False, \<lparr>cw_comp = (\<lambda>_. new_free), cw_simp = (\<lambda>_. SFree None)\<rparr>)"
proof -
  have p: "ParseKeyPrefixType (GetKeyPrefix TX_EXECUTE_FAIL) = TX_EXECUTE_FAIL"
    by (rule ParseKeyPrefixType_GetKeyPrefix) (simp add: is_data_prefix_def)
  have "TX_EXECUTE_FAIL \<notin> set undo_prefixes"
    by (simp add: undo_prefixes_def cw_RegisterUndoFunc_def class_defs)
  from undo_unknown_prefix [of "GetKeyPrefix TX_EXECUTE_FAIL", unfolded p, OF this, of bytes_env "[]" "()" "[]"]
  show ?thesis by simp
qed



end
