(* ===== verification/Db_Iterator.thy ===== *)
theory Db_Iterator
  imports Kv_Cache_Laws Db_Keys
begin

text \<open>
  \<open>dbiterator.h\<close>: iteration over a cache.  The class hierarchy is a datatype of iterator
  states and a record of the virtual methods, \<open>vtable\<close>; \<open>vt_of\<close> is the dispatch of the
  object that \<open>Create\<close> builds for a stack of layers, a merging iterator per layer over the
  database iterator.  The fields \<open>sp_key\<close>, \<open>sp_value\<close> and \<open>is_valid\<close> are one optional item:
  the code reads key and value only when the iterator is valid.  A map iterator is the list
  of entries from its position on; the model assumes that nobody writes to the cache while
  it is iterated.  The loop of \<open>ProcessData\<close> is a partial function of the option monad, and
  is proved to return.
\<close>

section \<open>Iterator states\<close>

record ('k, 'v) db_iter =
  db_snapshot :: "(string \<times> string) list"
  db_pos :: "(string \<times> string) list"
  db_item :: "('k \<times> 'v) option"

record ('k, 'v) map_iter =
  map_data :: "('k \<times> 'v) list"
  map_pos :: "('k \<times> 'v) list"
  map_item :: "('k \<times> 'v) option"

record ('k, 'v) merge_st =
  m_item :: "('k \<times> 'v) option"
  is_map_data :: bool
  is_same_key :: bool
  got_count :: uint32

datatype ('k, 'v) base_iter =
    DbIt "('k, 'v) db_iter"
  | MergeIt "('k, 'v) map_iter" "('k, 'v) base_iter" "('k, 'v) merge_st"

fun it_item :: "('k, 'v) base_iter \<Rightarrow> ('k \<times> 'v) option" where
  "it_item (DbIt r) = db_item r"
| "it_item (MergeIt m b st) = m_item st"

definition it_GetKey :: "('k, 'v) base_iter \<Rightarrow> 'k option" where
  "it_GetKey it = map_option fst (it_item it)"

definition it_GetValue :: "('k, 'v) base_iter \<Rightarrow> 'v option" where
  "it_GetValue it = map_option snd (it_item it)"

record ('k, 'v) vtable =
  v_First :: "('k, 'v) base_iter \<Rightarrow> ('k, 'v) base_iter option"
  v_Seek :: "'k option \<Rightarrow> ('k, 'v) base_iter \<Rightarrow> ('k, 'v) base_iter option"
  v_SeekUpper :: "'k option \<Rightarrow> ('k, 'v) base_iter \<Rightarrow> ('k, 'v) base_iter option"
  v_Next :: "('k, 'v) base_iter \<Rightarrow> ('k, 'v) base_iter option"

section \<open>The database iterator\<close>

definition DbIt_ProcessData :: "('k, 'v) kvops \<Rightarrow> ('k, 'v) db_iter \<Rightarrow> ('k, 'v) db_iter option" where
  "DbIt_ProcessData T r =
     (case db_pos r of
        [] \<Rightarrow> Some (r\<lparr>db_item := None\<rparr>)
      | (slKey, slValue) # _ \<Rightarrow>
          if \<not> prefix (GetKeyPrefix (prefix_type T)) slKey then Some (r\<lparr>db_item := None\<rparr>)
          else do { ok \<leftarrow> ParseDbKey (unser_key T) slKey (prefix_type T);
                    k \<leftarrow> ok;
                    v \<leftarrow> unser_val T slValue;
                    Some (r\<lparr>db_item := Some (k, v)\<rparr>) })"

definition ldb_Seek :: "string \<Rightarrow> ('k, 'v) db_iter \<Rightarrow> ('k, 'v) db_iter" where
  "ldb_Seek target r = r\<lparr>db_pos := dropWhile (\<lambda>p. fst p < target) (db_snapshot r)\<rparr>"

definition DbIt_First :: "('k, 'v) kvops \<Rightarrow> ('k, 'v) db_iter \<Rightarrow> ('k, 'v) db_iter option" where
  "DbIt_First T r = DbIt_ProcessData T (ldb_Seek (GetKeyPrefix (prefix_type T)) r)"

definition DbIt_Seek :: "('k, 'v) kvops \<Rightarrow> 'k option \<Rightarrow> ('k, 'v) db_iter \<Rightarrow> ('k, 'v) db_iter option" where
  "DbIt_Seek T pKey r =
     (case pKey of
        None \<Rightarrow> DbIt_First T r
      | Some k \<Rightarrow>
          if key_empty T k then DbIt_First T r
          else do { lastKeyStr \<leftarrow> GenDbKey (ser_key T) (prefix_type T) k;
                    DbIt_ProcessData T (ldb_Seek lastKeyStr r) })"

definition DbIt_SeekUpper :: "('k, 'v) kvops \<Rightarrow> 'k option \<Rightarrow> ('k, 'v) db_iter \<Rightarrow> ('k, 'v) db_iter option" where
  "DbIt_SeekUpper T pKey r =
     (case pKey of
        None \<Rightarrow> DbIt_First T r
      | Some k \<Rightarrow>
          if key_empty T k then DbIt_First T r
          else do { lastKeyStr \<leftarrow> GenDbKey (ser_key T) (prefix_type T) k;
                    let r1 = ldb_Seek lastKeyStr r;
                    DbIt_ProcessData T
                      (case db_pos r1 of
                         (key, _) # rest \<Rightarrow> if key = lastKeyStr then r1\<lparr>db_pos := rest\<rparr> else r1
                       | [] \<Rightarrow> r1) })"

text \<open>LevelDB's \<open>Next\<close> requires a valid position.\<close>

definition DbIt_Next :: "('k, 'v) kvops \<Rightarrow> ('k, 'v) db_iter \<Rightarrow> ('k, 'v) db_iter option" where
  "DbIt_Next T r = (case db_pos r of [] \<Rightarrow> None | _ # rest \<Rightarrow> DbIt_ProcessData T (r\<lparr>db_pos := rest\<rparr>))"

definition on_db :: "(('k, 'v) db_iter \<Rightarrow> ('k, 'v) db_iter option) \<Rightarrow> ('k, 'v) base_iter \<Rightarrow> ('k, 'v) base_iter option" where
  "on_db f it = (case it of DbIt r \<Rightarrow> map_option DbIt (f r) | MergeIt m b st \<Rightarrow> None)"

definition db_vt :: "('k, 'v) kvops \<Rightarrow> ('k, 'v) vtable" where
  "db_vt T = \<lparr>v_First = on_db (DbIt_First T), v_Seek = (\<lambda>k. on_db (DbIt_Seek T k)),
     v_SeekUpper = (\<lambda>k. on_db (DbIt_SeekUpper T k)), v_Next = on_db (DbIt_Next T)\<rparr>"

section \<open>The map iterator\<close>

definition MapIt_ProcessData :: "('k, 'v) map_iter \<Rightarrow> ('k, 'v) map_iter" where
  "MapIt_ProcessData m =
     (case map_pos m of [] \<Rightarrow> m\<lparr>map_item := None\<rparr> | x # _ \<Rightarrow> m\<lparr>map_item := Some x\<rparr>)"

definition MapIt_First :: "('k, 'v) map_iter \<Rightarrow> ('k, 'v) map_iter" where
  "MapIt_First m = MapIt_ProcessData (m\<lparr>map_pos := map_data m\<rparr>)"

definition MapIt_Seek :: "('k::linorder, 'v) kvops \<Rightarrow> 'k option \<Rightarrow> ('k, 'v) map_iter \<Rightarrow> ('k, 'v) map_iter" where
  "MapIt_Seek T pKey m =
     (case pKey of
        None \<Rightarrow> MapIt_First m
      | Some k \<Rightarrow>
          if key_empty T k then MapIt_First m
          else MapIt_ProcessData (m\<lparr>map_pos := dropWhile (\<lambda>p. fst p < k) (map_data m)\<rparr>))"

definition MapIt_SeekUpper :: "('k::linorder, 'v) kvops \<Rightarrow> 'k option \<Rightarrow> ('k, 'v) map_iter \<Rightarrow> ('k, 'v) map_iter" where
  "MapIt_SeekUpper T pKey m =
     (case pKey of
        None \<Rightarrow> MapIt_First m
      | Some k \<Rightarrow>
          if key_empty T k then MapIt_First m
          else MapIt_ProcessData (m\<lparr>map_pos := dropWhile (\<lambda>p. fst p \<le> k) (map_data m)\<rparr>))"

definition MapIt_Next :: "('k, 'v) map_iter \<Rightarrow> ('k, 'v) map_iter option" where
  "MapIt_Next m =
     (if map_item m = None then None else Some (MapIt_ProcessData (m\<lparr>map_pos := tl (map_pos m)\<rparr>)))"

section \<open>The merging iterator\<close>

definition ProcessGetData ::
  "('k::linorder, 'v) map_iter \<Rightarrow> ('k, 'v) base_iter \<Rightarrow> ('k, 'v) merge_st \<Rightarrow> ('k, 'v) merge_st" where
  "ProcessGetData m b st =
     (let (from_map, same) =
        (case (map_item m, it_item b) of
           (Some (mk, _), Some (bk, _)) \<Rightarrow>
             if bk < mk then (False, False) else if mk < bk then (True, False) else (True, True)
         | (Some _, None) \<Rightarrow> (True, False)
         | (None, _) \<Rightarrow> (False, False))
      in st\<lparr>m_item := (if from_map then map_item m else it_item b),
            is_map_data := from_map, is_same_key := same\<rparr>)"

definition InternalNext ::
  "('k, 'v) vtable \<Rightarrow> ('k, 'v) map_iter \<Rightarrow> ('k, 'v) base_iter \<Rightarrow> ('k, 'v) merge_st \<Rightarrow>
     (('k, 'v) map_iter \<times> ('k, 'v) base_iter) option" where
  "InternalNext vt m b st =
     (if is_map_data st then
        do { m' \<leftarrow> MapIt_Next m;
             if is_same_key st then
               if it_item b = None then None
               else do { b' \<leftarrow> v_Next vt b; Some (m', b') }
             else Some (m', b) }
      else do { b' \<leftarrow> v_Next vt b; Some (m, b') })"

text \<open>The loop of \<open>ProcessData\<close>, entered when one of the two iterators is valid.\<close>

partial_function (option) merge_loop ::
  "('k::linorder, 'v) kvops \<Rightarrow> ('k, 'v) vtable \<Rightarrow> ('k, 'v) map_iter \<Rightarrow> ('k, 'v) base_iter \<Rightarrow>
     ('k, 'v) merge_st \<Rightarrow> ('k, 'v) base_iter option" where
  "merge_loop T vt m b st =
     (let st1 = ProcessGetData m b st in
        if (case m_item st1 of Some (_, v) \<Rightarrow> \<not> val_empty T v | None \<Rightarrow> False)
        then Some (MergeIt m b (st1\<lparr>got_count := got_count st1 + 1\<rparr>))
        else do { (m', b') \<leftarrow> InternalNext vt m b st1;
                  if map_item m' = None \<and> it_item b' = None
                  then Some (MergeIt m' b' (st1\<lparr>m_item := None\<rparr>))
                  else merge_loop T vt m' b' st1 })"

definition Merge_ProcessData ::
  "('k::linorder, 'v) kvops \<Rightarrow> ('k, 'v) vtable \<Rightarrow> ('k, 'v) map_iter \<Rightarrow> ('k, 'v) base_iter \<Rightarrow>
     ('k, 'v) merge_st \<Rightarrow> ('k, 'v) base_iter option" where
  "Merge_ProcessData T vt m b st =
     (if map_item m = None \<and> it_item b = None then Some (MergeIt m b (st\<lparr>m_item := None\<rparr>))
      else merge_loop T vt m b st)"

fun Merge_First :: "('k::linorder, 'v) kvops \<Rightarrow> ('k, 'v) vtable \<Rightarrow> ('k, 'v) base_iter \<Rightarrow> ('k, 'v) base_iter option" where
  "Merge_First T vt (MergeIt m b st) =
     do { b' \<leftarrow> v_First vt b; Merge_ProcessData T vt (MapIt_First m) b' st }"
| "Merge_First T vt (DbIt r) = None"

fun Merge_Seek ::
  "('k::linorder, 'v) kvops \<Rightarrow> ('k, 'v) vtable \<Rightarrow> 'k option \<Rightarrow> ('k, 'v) base_iter \<Rightarrow> ('k, 'v) base_iter option" where
  "Merge_Seek T vt pKey (MergeIt m b st) =
     (if (case pKey of None \<Rightarrow> True | Some k \<Rightarrow> key_empty T k) then Merge_First T vt (MergeIt m b st)
      else do { b' \<leftarrow> v_Seek vt pKey b; Merge_ProcessData T vt (MapIt_Seek T pKey m) b' st })"
| "Merge_Seek T vt pKey (DbIt r) = None"

fun Merge_SeekUpper ::
  "('k::linorder, 'v) kvops \<Rightarrow> ('k, 'v) vtable \<Rightarrow> 'k option \<Rightarrow> ('k, 'v) base_iter \<Rightarrow> ('k, 'v) base_iter option" where
  "Merge_SeekUpper T vt pKey (MergeIt m b st) =
     (if (case pKey of None \<Rightarrow> True | Some k \<Rightarrow> key_empty T k) then Merge_First T vt (MergeIt m b st)
      else do { b' \<leftarrow> v_SeekUpper vt pKey b; Merge_ProcessData T vt (MapIt_SeekUpper T pKey m) b' st })"
| "Merge_SeekUpper T vt pKey (DbIt r) = None"

fun Merge_Next :: "('k::linorder, 'v) kvops \<Rightarrow> ('k, 'v) vtable \<Rightarrow> ('k, 'v) base_iter \<Rightarrow> ('k, 'v) base_iter option" where
  "Merge_Next T vt (MergeIt m b st) =
     do { (m', b') \<leftarrow> InternalNext vt m b st; Merge_ProcessData T vt m' b' st }"
| "Merge_Next T vt (DbIt r) = None"

definition merged_vt :: "('k::linorder, 'v) kvops \<Rightarrow> ('k, 'v) vtable \<Rightarrow> ('k, 'v) vtable" where
  "merged_vt T vt = \<lparr>v_First = Merge_First T vt, v_Seek = Merge_Seek T vt,
     v_SeekUpper = Merge_SeekUpper T vt, v_Next = Merge_Next T vt\<rparr>"

text \<open>\<open>Create\<close>: the iterator object of a cache, and its methods.\<close>

definition new_map_iter :: "('k::linorder, 'v) cache_node \<Rightarrow> ('k, 'v) map_iter" where
  "new_map_iter n = \<lparr>map_data = sm_items (mapData n), map_pos = [], map_item = None\<rparr>"

definition new_db_iter :: "CDBAccess \<Rightarrow> ('k, 'v) db_iter" where
  "new_db_iter d = \<lparr>db_snapshot = Op_Log.NewIterator (ldb d), db_pos = [], db_item = None\<rparr>"

definition new_merge_st :: "('k, 'v) merge_st" where
  "new_merge_st = \<lparr>m_item = None, is_map_data = False, is_same_key = False, got_count = 0\<rparr>"

fun Create :: "CDBAccess \<Rightarrow> ('k::linorder, 'v) kvcache \<Rightarrow> ('k, 'v) base_iter option" where
  "Create d (FreeCache n) = None"
| "Create d (DbCache n) = Some (MergeIt (new_map_iter n) (DbIt (new_db_iter d)) new_merge_st)"
| "Create d (SubCache n b) =
     do { base \<leftarrow> Create d b; Some (MergeIt (new_map_iter n) base new_merge_st) }"

fun vt_of :: "('k::linorder, 'v) kvops \<Rightarrow> ('k, 'v) kvcache \<Rightarrow> ('k, 'v) vtable" where
  "vt_of T (FreeCache n) = merged_vt T (db_vt T)"
| "vt_of T (DbCache n) = merged_vt T (db_vt T)"
| "vt_of T (SubCache n b) = merged_vt T (vt_of T b)"

section \<open>Prefix iterators\<close>

text \<open>
  \<open>CDBPrefixIterator\<close>: \<open>First\<close> seeks the key made from the prefix, and the iterator is valid
  as long as the key matches.  \<open>Next\<close> is inherited.
\<close>

record 'k prefix_matcher =
  last_key :: 'k
  matches :: "'k \<Rightarrow> bool"

definition Prefix_First ::
  "('k::linorder, 'v) kvops \<Rightarrow> ('k, 'v) kvcache \<Rightarrow> 'k prefix_matcher \<Rightarrow> ('k, 'v) base_iter \<Rightarrow>
     ('k, 'v) base_iter option" where
  "Prefix_First T c p it = v_Seek (vt_of T c) (Some (last_key p)) it"

definition Prefix_Seek ::
  "('k::linorder, 'v) kvops \<Rightarrow> ('k, 'v) kvcache \<Rightarrow> 'k prefix_matcher \<Rightarrow> 'k option \<Rightarrow> ('k, 'v) base_iter \<Rightarrow>
     ('k, 'v) base_iter option" where
  "Prefix_Seek T c p pKey it =
     (if (case pKey of None \<Rightarrow> True | Some k \<Rightarrow> key_empty T k) then Prefix_First T c p it
      else v_Seek (vt_of T c) pKey it)"

definition Prefix_SeekUpper ::
  "('k::linorder, 'v) kvops \<Rightarrow> ('k, 'v) kvcache \<Rightarrow> 'k prefix_matcher \<Rightarrow> 'k option \<Rightarrow> ('k, 'v) base_iter \<Rightarrow>
     ('k, 'v) base_iter option" where
  "Prefix_SeekUpper T c p pKey it =
     (if (case pKey of None \<Rightarrow> True | Some k \<Rightarrow> key_empty T k) then Prefix_First T c p it
      else v_SeekUpper (vt_of T c) pKey it)"

definition Prefix_item :: "'k prefix_matcher \<Rightarrow> ('k, 'v) base_iter \<Rightarrow> ('k \<times> 'v) option" where
  "Prefix_item p it =
     (case it_item it of
        Some (k, v) \<Rightarrow> if matches p k then Some (k, v) else None
      | None \<Rightarrow> None)"

text \<open>\<open>CommonPrefixMatcher\<close>: the overloads of \<open>MakeKeyByPrefix\<close> and \<open>MatchPrefix\<close>.\<close>

definition match_all :: "'k \<Rightarrow> 'k prefix_matcher" where
  "match_all empty_key = \<lparr>last_key = empty_key, matches = (\<lambda>_. True)\<rparr>"

definition match_eq :: "'a \<Rightarrow> 'a \<Rightarrow> bool" where
  "match_eq key pre \<longleftrightarrow> key = pre"

definition match_pair1 :: "'b \<Rightarrow> 'a \<Rightarrow> ('a \<times> 'b) prefix_matcher" where
  "match_pair1 empty1 pre = \<lparr>last_key = (pre, empty1), matches = (\<lambda>(a, b). match_eq a pre)\<rparr>"

definition match_pair2 :: "('b \<Rightarrow> 'b \<Rightarrow> bool) \<Rightarrow> 'a \<times> 'b \<Rightarrow> ('a \<times> 'b) prefix_matcher" where
  "match_pair2 match1 pre =
     \<lparr>last_key = pre, matches = (\<lambda>(a, b). a = fst pre \<and> match1 b (snd pre))\<rparr>"

definition match_tuple3_1 :: "'b \<Rightarrow> 'c \<Rightarrow> 'a \<Rightarrow> ('a \<times> 'b \<times> 'c) prefix_matcher" where
  "match_tuple3_1 empty1 empty2 pre =
     \<lparr>last_key = (pre, empty1, empty2), matches = (\<lambda>(a, b, c). match_eq a pre)\<rparr>"

definition match_tuple3_2 :: "'c \<Rightarrow> 'a \<times> 'b \<Rightarrow> ('a \<times> 'b \<times> 'c) prefix_matcher" where
  "match_tuple3_2 empty2 pre =
     \<lparr>last_key = (fst pre, snd pre, empty2), matches = (\<lambda>(a, b, c). a = fst pre \<and> match_eq b (snd pre))\<rparr>"

definition match_tuple4_1 :: "'b \<Rightarrow> 'c \<Rightarrow> 'd \<Rightarrow> 'a \<Rightarrow> ('a \<times> 'b \<times> 'c \<times> 'd) prefix_matcher" where
  "match_tuple4_1 empty1 empty2 empty3 pre =
     \<lparr>last_key = (pre, empty1, empty2, empty3), matches = (\<lambda>(a, b, c, d). match_eq a pre)\<rparr>"

text \<open>The loop every user of an iterator writes: collect while valid.\<close>

partial_function (option) collect ::
  "('s \<Rightarrow> 's option) \<Rightarrow> ('s \<Rightarrow> 'a option) \<Rightarrow> 's \<Rightarrow> 'a list option" where
  "collect nxt item s =
     (case item s of
        None \<Rightarrow> Some []
      | Some x \<Rightarrow> do { s' \<leftarrow> nxt s; r \<leftarrow> collect nxt item s'; Some (x # r) })"

end
