(* ===== verification/Db_Iterator_Laws.thy ===== *)
theory Db_Iterator_Laws
  imports Db_Iterator
begin

text \<open>
  What an iterator promises: positioned by \<open>First\<close>, \<open>Seek\<close> or \<open>SeekUpper\<close> it stands before
  the entries of its content from that key on, in key order, and \<open>Next\<close> passes one of them
  (\<open>base_iterator\<close>).  The database iterator keeps the promise when serialisation preserves
  the order of keys, and the merging iterator keeps it whenever the iterator below does, by
  induction over the stack of layers.
\<close>

section \<open>The contract\<close>

definition from_key :: "('k::linorder \<Rightarrow> bool) \<Rightarrow> 'k option \<Rightarrow> ('k \<times> 'v) list \<Rightarrow> ('k \<times> 'v) list" where
  "from_key bad pKey xs =
     (case pKey of None \<Rightarrow> xs | Some k \<Rightarrow> if bad k then xs else filter (\<lambda>p. k \<le> fst p) xs)"

definition after_key :: "('k::linorder \<Rightarrow> bool) \<Rightarrow> 'k option \<Rightarrow> ('k \<times> 'v) list \<Rightarrow> ('k \<times> 'v) list" where
  "after_key bad pKey xs =
     (case pKey of None \<Rightarrow> xs | Some k \<Rightarrow> if bad k then xs else filter (\<lambda>p. k < fst p) xs)"

definition head_of :: "'a list \<Rightarrow> 'a option" where
  "head_of xs = (case xs of [] \<Rightarrow> None | x # _ \<Rightarrow> Some x)"

lemma head_of_simps [simp]: "head_of [] = None" "head_of (x # xs) = Some x"
  "head_of xs = None \<longleftrightarrow> xs = []"
  by (auto simp: head_of_def split: list.split)

locale base_iterator =
  fixes ok :: "'s \<Rightarrow> bool"
    and content :: "('k::linorder \<times> 'v) list"
    and ahead :: "'s \<Rightarrow> ('k \<times> 'v) list"
    and item :: "'s \<Rightarrow> ('k \<times> 'v) option"
    and first :: "'s \<Rightarrow> 's option"
    and nxt :: "'s \<Rightarrow> 's option"
    and seek :: "'k option \<Rightarrow> 's \<Rightarrow> 's option"
    and upper :: "'k option \<Rightarrow> 's \<Rightarrow> 's option"
    and bad_key :: "'k \<Rightarrow> bool"
  assumes item_law: "ok s \<Longrightarrow> item s = head_of (ahead s)"
    and sorted_law: "ok s \<Longrightarrow> sorted_keys content \<and> sorted_keys (ahead s)"
    and first_law: "ok s \<Longrightarrow> \<exists>s'. first s = Some s' \<and> ok s' \<and> ahead s' = content"
    and seek_law: "ok s \<Longrightarrow> \<exists>s'. seek pk s = Some s' \<and> ok s' \<and> ahead s' = from_key bad_key pk content"
    and upper_law: "ok s \<Longrightarrow> \<exists>s'. upper pk s = Some s' \<and> ok s' \<and> ahead s' = after_key bad_key pk content"
    and next_law: "ok s \<Longrightarrow> ahead s \<noteq> [] \<Longrightarrow> \<exists>s'. nxt s = Some s' \<and> ok s' \<and> ahead s' = tl (ahead s)"
begin

lemma collect_ahead:
  "ok s \<Longrightarrow> collect nxt item s = Some (ahead s)"
proof (induction "ahead s" arbitrary: s)
  case Nil
  then show ?case
    by (subst collect.simps) (simp add: item_law flip: Nil(1))
next
  case (Cons x xs)
  obtain s' where s': "nxt s = Some s'" "ok s'" "ahead s' = xs"
    using next_law [OF Cons(3)] Cons(2) by (metis list.distinct(1) list.sel(3))
  then have "collect nxt item s' = Some xs"
    using Cons(1) [of s'] by simp
  with s' Cons(3) show ?case
    by (subst collect.simps) (simp add: item_law flip: Cons(2))
qed

text \<open>A loop that also stops at the first key that does not match.\<close>

lemma collect_while:
  assumes "\<And>s. item' s = (case item s of Some x \<Rightarrow> if P x then Some x else None | None \<Rightarrow> None)"
  shows "ok s \<Longrightarrow> collect nxt item' s = Some (takeWhile P (ahead s))"
proof (induction "ahead s" arbitrary: s)
  case Nil
  then show ?case
    by (subst collect.simps) (simp add: item_law assms flip: Nil(1))
next
  case (Cons x xs)
  show ?case
  proof (cases "P x")
    case True
    obtain s' where s': "nxt s = Some s'" "ok s'" "ahead s' = xs"
      using next_law [OF Cons(3)] Cons(2) by (metis list.distinct(1) list.sel(3))
    then have "collect nxt item' s' = Some (takeWhile P xs)"
      using Cons(1) [of s'] by simp
    with s' True Cons(3) show ?thesis
      by (subst collect.simps) (simp add: item_law assms flip: Cons(2))
  next
    case False
    with Cons(3) show ?thesis
      by (subst collect.simps) (simp add: item_law assms flip: Cons(2))
  qed
qed

lemma enumerate:
  "ok s \<Longrightarrow> \<exists>s'. first s = Some s' \<and> collect nxt item s' = Some content"
  using first_law collect_ahead by metis

end

section \<open>The database iterator\<close>

text \<open>
  What the key and value types must provide: serialised keys are ordered as the keys.  And
  every database entry under the prefix was written by the cache: it parses.
\<close>

definition ser_mono :: "('k::linorder, 'v) kvops \<Rightarrow> bool" where
  "ser_mono T \<longleftrightarrow> (\<forall>a b. a < b \<longrightarrow> ser_key T a < ser_key T b)"

definition db_parses :: "('k, 'v) kvops \<Rightarrow> CDBAccess \<Rightarrow> bool" where
  "db_parses T d \<longleftrightarrow> (\<forall>(s, x) \<in> set (sm_items (ldb_data (ldb d))).
     prefix (GetKeyPrefix (prefix_type T)) s \<longrightarrow>
       (\<exists>k v. s = GetKeyPrefix (prefix_type T) @ ser_key T k \<and> unser_val T x = Some v))"

definition decode :: "('k, 'v) kvops \<Rightarrow> string \<times> string \<Rightarrow> 'k \<times> 'v" where
  "decode T e =
     (the (unser_key T (drop (length (GetKeyPrefix (prefix_type T))) (fst e))), the (unser_val T (snd e)))"

definition own_entry :: "('k, 'v) kvops \<Rightarrow> string \<times> string \<Rightarrow> bool" where
  "own_entry T e \<longleftrightarrow> prefix (GetKeyPrefix (prefix_type T)) (fst e)"

definition db_content :: "('k, 'v) kvops \<Rightarrow> CDBAccess \<Rightarrow> ('k \<times> 'v) list" where
  "db_content T d = map (decode T) (filter (own_entry T) (sm_items (ldb_data (ldb d))))"

definition iter_hyps :: "('k::linorder, 'v) kvops \<Rightarrow> CDBAccess \<Rightarrow> bool" where
  "iter_hyps T d \<longleftrightarrow> access_ok T d \<and> ser_mono T \<and> db_parses T d"

lemma ser_key_less: "ser_mono T \<Longrightarrow> ser_key T a < ser_key T b \<longleftrightarrow> a < (b :: 'k::linorder)"
  unfolding ser_mono_def by (metis less_asym less_linear)

lemma ser_key_le: "ser_mono T \<Longrightarrow> ser_key T a \<le> ser_key T b \<longleftrightarrow> a \<le> (b :: 'k::linorder)"
  using ser_key_less [of T b a] by (simp add: not_less [symmetric])

text \<open>The entries of a snapshot from a key with the prefix on that have the prefix.\<close>

lemma takeWhile_own:
  assumes "sorted_keys xs" and "\<And>e. Q e \<Longrightarrow> p \<le> fst e"
  shows "takeWhile (\<lambda>e. prefix p (fst e)) (filter Q xs) = filter (\<lambda>e. prefix p (fst e) \<and> Q e) xs"
  using assms(1)
proof (induction xs)
  case (Cons e xs)
  have IH: "takeWhile (\<lambda>e. prefix p (fst e)) (filter Q xs) = filter (\<lambda>e. prefix p (fst e) \<and> Q e) xs"
    using Cons by (cases e) (simp add: sorted_keys_Cons)
  show ?case
  proof (cases "Q e \<and> \<not> prefix p (fst e)")
    case True
    have "\<not> prefix p (fst f)" if f: "f \<in> set xs" for f
    proof
      assume "prefix p (fst f)"
      moreover have "fst e \<le> fst f"
        using Cons.prems f by (cases e) (auto simp: sorted_keys_Cons intro: less_imp_le)
      ultimately show False
        using prefix_interval [of p p "fst f" "fst e"] assms(2) [of e] True by auto
    qed
    then have "filter (\<lambda>e. prefix p (fst e) \<and> Q e) xs = []"
      by (auto simp: filter_empty_conv)
    with True show ?thesis by simp
  qed (use IH in auto)
qed simp

lemma list_le_append: "(xs @ ys \<le> xs @ zs) = (ys \<le> (zs :: 'a::linorder list))"
  by (induction xs) simp_all

lemma le_append_self: "(p :: 'a::linorder list) \<le> p @ s"
  by (induction p) auto

lemma own_decode:
  assumes "iter_hyps T d" and "e \<in> set (sm_items (ldb_data (ldb d)))" and "own_entry T e"
  shows "\<exists>k v. decode T e = (k, v) \<and> fst e = GetKeyPrefix (prefix_type T) @ ser_key T k \<and>
    unser_val T (snd e) = Some v \<and>
    ParseDbKey (unser_key T) (fst e) (prefix_type T) = Some (Some k)"
proof -
  have wf: "kv_wf T" and p: "db_parses T d"
    using assms(1) access_okD(1) unfolding iter_hyps_def by auto
  obtain k v where "fst e = GetKeyPrefix (prefix_type T) @ ser_key T k" "unser_val T (snd e) = Some v"
    using p assms(2,3) unfolding db_parses_def own_entry_def by (cases e) auto
  with wf show ?thesis
    by (auto simp: decode_def)
qed

text \<open>What is ahead of a database iterator.\<close>

definition db_ahead :: "('k, 'v) kvops \<Rightarrow> ('k, 'v) db_iter \<Rightarrow> ('k \<times> 'v) list" where
  "db_ahead T r = map (decode T) (takeWhile (own_entry T) (db_pos r))"

definition db_ok :: "('k::linorder, 'v) kvops \<Rightarrow> CDBAccess \<Rightarrow> ('k, 'v) db_iter \<Rightarrow> bool" where
  "db_ok T d r \<longleftrightarrow> iter_hyps T d \<and> db_snapshot r = sm_items (ldb_data (ldb d)) \<and>
     suffix (db_pos r) (db_snapshot r) \<and> db_item r = head_of (db_ahead T r)"

lemma DbIt_ProcessData_ok:
  assumes "iter_hyps T d" and "db_snapshot r = sm_items (ldb_data (ldb d))" and "suffix (db_pos r) (db_snapshot r)"
  shows "\<exists>r'. DbIt_ProcessData T r = Some r' \<and> db_ok T d r' \<and> db_ahead T r' = db_ahead T r"
proof (cases "db_pos r")
  case Nil
  with assms show ?thesis
    by (auto simp: DbIt_ProcessData_def db_ok_def db_ahead_def)
next
  case (Cons e rest)
  show ?thesis
  proof (cases "own_entry T e")
    case False
    with Cons assms show ?thesis
      by (auto simp: DbIt_ProcessData_def db_ok_def db_ahead_def own_entry_def split: prod.split)
  next
    case True
    have "e \<in> set (sm_items (ldb_data (ldb d)))"
      using assms(2,3) Cons by (auto dest: set_mono_suffix)
    from own_decode [OF assms(1) this True] Cons True assms show ?thesis
      by (cases e) (auto simp: DbIt_ProcessData_def db_ok_def db_ahead_def own_entry_def)
  qed
qed

lemma suffix_dropWhile: "suffix (dropWhile P xs) xs"
  by (metis suffix_def takeWhile_dropWhile_id)

lemma own_entry_fun: "own_entry T = (\<lambda>e. prefix (GetKeyPrefix (prefix_type T)) (fst e))"
  by (auto simp: own_entry_def)

lemma content_cut:
  assumes "iter_hyps T d"
  shows "map (decode T) (filter (\<lambda>e. own_entry T e \<and> GetKeyPrefix (prefix_type T) @ ser_key T k \<le> fst e)
      (sm_items (ldb_data (ldb d)))) = filter (\<lambda>p. k \<le> fst p) (db_content T d)"
    "map (decode T) (filter (\<lambda>e. own_entry T e \<and> GetKeyPrefix (prefix_type T) @ ser_key T k < fst e)
      (sm_items (ldb_data (ldb d)))) = filter (\<lambda>p. k < fst p) (db_content T d)"
proof -
  let ?S = "sm_items (ldb_data (ldb d))" and ?p = "GetKeyPrefix (prefix_type T)"
  have mono: "ser_mono T"
    using assms by (simp add: iter_hyps_def)
  have le: "?p @ ser_key T k \<le> fst e \<longleftrightarrow> k \<le> fst (decode T e)"
    and lt: "?p @ ser_key T k < fst e \<longleftrightarrow> k < fst (decode T e)"
    if "e \<in> set ?S" "own_entry T e" for e
    using own_decode [OF assms that] mono
    by (auto simp: ser_key_less ser_key_le list_le_append)
  show "map (decode T) (filter (\<lambda>e. own_entry T e \<and> ?p @ ser_key T k \<le> fst e) ?S) =
      filter (\<lambda>p. k \<le> fst p) (db_content T d)"
    unfolding db_content_def filter_map filter_filter comp_def
    by (rule arg_cong [of _ _ "map (decode T)"], rule filter_cong) (use le in auto)
  show "map (decode T) (filter (\<lambda>e. own_entry T e \<and> ?p @ ser_key T k < fst e) ?S) =
      filter (\<lambda>p. k < fst p) (db_content T d)"
    unfolding db_content_def filter_map filter_filter comp_def
    by (rule arg_cong [of _ _ "map (decode T)"], rule filter_cong) (use lt in auto)
qed

lemma sorted_db_content:
  assumes "iter_hyps T d"
  shows "sorted_keys (db_content T d)"
proof -
  have mono: "ser_mono T"
    using assms by (simp add: iter_hyps_def)
  have "sorted_keys (map (decode T) (filter (own_entry T) xs))"
    if "sorted_keys xs" "set xs \<subseteq> set (sm_items (ldb_data (ldb d)))" for xs
    using that
  proof (induction xs)
    case (Cons e xs)
    have IH: "sorted_keys (map (decode T) (filter (own_entry T) xs))"
      using Cons by (cases e) (auto simp: sorted_keys_Cons)
    show ?case
    proof (cases "own_entry T e")
      case True
      have "fst (decode T e) < fst (decode T f)" if f: "f \<in> set xs" "own_entry T f" for f
      proof -
        have "fst e < fst f"
          using Cons.prems(1) f by (cases e) (auto simp: sorted_keys_Cons)
        moreover have "e \<in> set (sm_items (ldb_data (ldb d)))" "f \<in> set (sm_items (ldb_data (ldb d)))"
          using Cons.prems(2) f(1) by auto
        ultimately show ?thesis
          using own_decode [OF assms _ True] own_decode [OF assms _ f(2)] mono
          by (auto simp: ser_key_less)
      qed
      with True IH show ?thesis
        by (cases "decode T e") (auto simp: sorted_keys_Cons)
    qed (use IH in simp)
  qed simp
  then show ?thesis
    unfolding db_content_def by simp
qed

lemma sorted_keys_tl: "sorted_keys xs \<Longrightarrow> sorted_keys (tl xs)"
  by (cases xs) (auto simp: sorted_keys_Cons)

lemma sorted_keys_suffix: "suffix ys xs \<Longrightarrow> sorted_keys xs \<Longrightarrow> sorted_keys ys"
  by (auto simp: suffix_def sorted_keys_def sorted_wrt_append)

lemma db_seek_ok:
  assumes "iter_hyps T d" and "db_snapshot r = sm_items (ldb_data (ldb d))"
    and "db_pos r = filter Q (sm_items (ldb_data (ldb d)))"
    and "suffix (db_pos r) (db_snapshot r)"
    and "\<And>e. Q e \<Longrightarrow> GetKeyPrefix (prefix_type T) \<le> fst e"
    and "map (decode T) (filter (\<lambda>e. own_entry T e \<and> Q e) (sm_items (ldb_data (ldb d)))) = ys"
  shows "\<exists>r'. DbIt_ProcessData T r = Some r' \<and> db_ok T d r' \<and> db_ahead T r' = ys"
proof -
  have "db_ahead T r = ys"
    unfolding db_ahead_def assms(3) own_entry_fun
    using takeWhile_own [OF sorted_sm_items, where Q = Q and p = "GetKeyPrefix (prefix_type T)"] assms(5,6)
    by (simp add: own_entry_fun)
  with DbIt_ProcessData_ok [OF assms(1,2,4)] show ?thesis
    by simp
qed

lemma DbIt_First_ok:
  assumes "db_ok T d r"
  shows "\<exists>r'. DbIt_First T r = Some r' \<and> db_ok T d r' \<and> db_ahead T r' = db_content T d"
proof -
  let ?p = "GetKeyPrefix (prefix_type T)" and ?S = "sm_items (ldb_data (ldb d))"
  have own: "own_entry T e \<Longrightarrow> ?p \<le> fst e" for e
    by (auto simp: own_entry_def prefix_def le_append_self)
  have "map (decode T) (filter (\<lambda>e. own_entry T e \<and> ?p \<le> fst e) ?S) = db_content T d"
    unfolding db_content_def by (rule arg_cong [of _ _ "map (decode T)"], rule filter_cong) (use own in auto)
  with assms show ?thesis
    unfolding DbIt_First_def
    by (intro db_seek_ok [where Q = "\<lambda>e. ?p \<le> fst e"])
      (auto simp: ldb_Seek_def db_ok_def dropWhile_lt_eq_filter suffix_dropWhile
        simp flip: dropWhile_lt_eq_filter)
qed

lemma prefix_le_key: "GetKeyPrefix p @ s \<le> t \<Longrightarrow> GetKeyPrefix p \<le> t"
  using le_append_self [of "GetKeyPrefix p" s] by (rule order_trans)

lemma DbIt_Seek_ok:
  assumes "db_ok T d r"
  shows "\<exists>r'. DbIt_Seek T pk r = Some r' \<and> db_ok T d r' \<and> db_ahead T r' = from_key (key_empty T) pk (db_content T d)"
proof (cases "case pk of None \<Rightarrow> True | Some k \<Rightarrow> key_empty T k")
  case True
  with DbIt_First_ok [OF assms] show ?thesis
    by (auto simp: DbIt_Seek_def from_key_def split: option.splits)
next
  case False
  then obtain k where k: "pk = Some k" "\<not> key_empty T k"
    by (auto split: option.splits)
  let ?t = "GetKeyPrefix (prefix_type T) @ ser_key T k"
  have hyps: "iter_hyps T d" and gen: "GenDbKey (ser_key T) (prefix_type T) k = Some ?t"
    using assms access_okD(1) kv_wfD(1) unfolding db_ok_def iter_hyps_def by (metis, metis GenDbKey_data)
  have "\<exists>r'. DbIt_ProcessData T (ldb_Seek ?t r) = Some r' \<and> db_ok T d r' \<and>
      db_ahead T r' = filter (\<lambda>p. k \<le> fst p) (db_content T d)"
    using assms content_cut(1) [OF hyps, of k]
    by (intro db_seek_ok [where Q = "\<lambda>e. ?t \<le> fst e"])
      (auto simp: ldb_Seek_def db_ok_def suffix_dropWhile prefix_le_key
        simp flip: dropWhile_lt_eq_filter)
  with k gen show ?thesis
    by (simp add: DbIt_Seek_def from_key_def)
qed

lemma skip_equal:
  assumes "sorted_keys xs"
  shows "(case dropWhile (\<lambda>p. fst p < t) xs of
      (key, v) # rest \<Rightarrow> if key = t then rest else (key, v) # rest | [] \<Rightarrow> []) = dropWhile (\<lambda>p. fst p \<le> t) xs"
  using assms
proof (induction xs)
  case (Cons e xs)
  then have gt: "\<forall>p \<in> set xs. fst e < fst p" and s: "sorted_keys xs"
    by (cases e; simp add: sorted_keys_Cons)+
  have "dropWhile (\<lambda>p. fst p \<le> t) xs = xs" if "fst e = t"
    using gt that by (cases xs) auto
  with Cons s show ?case
    by (cases e) auto
qed simp

lemma DbIt_SeekUpper_ok:
  assumes "db_ok T d r"
  shows "\<exists>r'. DbIt_SeekUpper T pk r = Some r' \<and> db_ok T d r' \<and>
    db_ahead T r' = after_key (key_empty T) pk (db_content T d)"
proof (cases "case pk of None \<Rightarrow> True | Some k \<Rightarrow> key_empty T k")
  case True
  with DbIt_First_ok [OF assms] show ?thesis
    by (auto simp: DbIt_SeekUpper_def after_key_def split: option.splits)
next
  case False
  then obtain k where k: "pk = Some k" "\<not> key_empty T k"
    by (auto split: option.splits)
  let ?t = "GetKeyPrefix (prefix_type T) @ ser_key T k"
  let ?r1 = "ldb_Seek ?t r"
  let ?r2 = "case db_pos ?r1 of (key, _) # rest \<Rightarrow> if key = ?t then ?r1\<lparr>db_pos := rest\<rparr> else ?r1 | [] \<Rightarrow> ?r1"
  have hyps: "iter_hyps T d" and gen: "GenDbKey (ser_key T) (prefix_type T) k = Some ?t"
    using assms access_okD(1) kv_wfD(1) unfolding db_ok_def iter_hyps_def by (metis, metis GenDbKey_data)
  have snap: "db_snapshot r = sm_items (ldb_data (ldb d))"
    using assms by (simp add: db_ok_def)
  have snap2: "db_snapshot ?r2 = sm_items (ldb_data (ldb d))"
    using snap by (auto simp: ldb_Seek_def split: list.split)
  have "db_pos ?r2 = (case db_pos ?r1 of (key, v) # rest \<Rightarrow> if key = ?t then rest else (key, v) # rest | [] \<Rightarrow> [])"
    by (auto split: list.split)
  also have "\<dots> = dropWhile (\<lambda>p. fst p \<le> ?t) (sm_items (ldb_data (ldb d)))"
    using skip_equal [OF sorted_sm_items, of ?t] snap by (simp add: ldb_Seek_def)
  finally have pos: "db_pos ?r2 = dropWhile (\<lambda>p. fst p \<le> ?t) (sm_items (ldb_data (ldb d)))" .
  have "\<exists>r'. DbIt_ProcessData T ?r2 = Some r' \<and> db_ok T d r' \<and>
      db_ahead T r' = filter (\<lambda>p. k < fst p) (db_content T d)"
  proof (rule db_seek_ok [where Q = "\<lambda>e. ?t < fst e", OF hyps snap2])
    show "db_pos ?r2 = filter (\<lambda>e. ?t < fst e) (sm_items (ldb_data (ldb d)))"
      unfolding pos by (rule dropWhile_le_eq_filter) simp
    show "suffix (db_pos ?r2) (db_snapshot ?r2)"
      unfolding pos snap2 by (rule suffix_dropWhile)
    show "?t < fst e \<Longrightarrow> GetKeyPrefix (prefix_type T) \<le> fst e" for e
      by (rule prefix_le_key) (rule less_imp_le)
  qed (rule content_cut(2) [OF hyps])
  with k gen show ?thesis
    by (simp add: DbIt_SeekUpper_def after_key_def Let_def)
qed

lemma DbIt_Next_ok:
  assumes "db_ok T d r" and "db_ahead T r \<noteq> []"
  shows "\<exists>r'. DbIt_Next T r = Some r' \<and> db_ok T d r' \<and> db_ahead T r' = tl (db_ahead T r)"
proof -
  obtain e rest where pos: "db_pos r = e # rest" "own_entry T e"
    using assms(2) by (cases "db_pos r") (auto simp: db_ahead_def split: if_splits)
  let ?r = "r\<lparr>db_pos := rest\<rparr>"
  have "suffix rest (db_snapshot r)"
    using assms(1) pos(1) unfolding db_ok_def by (metis suffix_ConsD)
  then have "\<exists>r'. DbIt_ProcessData T ?r = Some r' \<and> db_ok T d r' \<and> db_ahead T r' = db_ahead T ?r"
    using assms(1) by (intro DbIt_ProcessData_ok) (auto simp: db_ok_def)
  moreover have "db_ahead T ?r = tl (db_ahead T r)"
    using pos by (simp add: db_ahead_def)
  ultimately show ?thesis
    using pos by (simp add: DbIt_Next_def)
qed

lemma sorted_db_ahead:
  assumes "db_ok T d r"
  shows "sorted_keys (db_ahead T r)"
proof -
  let ?S = "sm_items (ldb_data (ldb d))"
  obtain pre where S: "?S = pre @ db_pos r"
    using assms unfolding db_ok_def suffix_def by metis
  let ?t = "takeWhile (own_entry T) (db_pos r)"
  have t: "filter (own_entry T) ?t = ?t"
    by (simp add: filter_id_conv) (meson set_takeWhileD)
  have "filter (own_entry T) (db_pos r) =
      filter (own_entry T) ?t @ filter (own_entry T) (dropWhile (own_entry T) (db_pos r))"
    by (metis filter_append takeWhile_dropWhile_id)
  then have "db_content T d = map (decode T) (filter (own_entry T) pre) @ db_ahead T r @
      map (decode T) (filter (own_entry T) (dropWhile (own_entry T) (db_pos r)))"
    unfolding db_content_def S db_ahead_def t by simp
  moreover have "sorted_keys (db_content T d)"
    using sorted_db_content [of T d] assms by (simp add: db_ok_def)
  ultimately show ?thesis
    by (simp only: sorted_keys_def map_append sorted_wrt_append)
qed

section \<open>The map iterator\<close>

definition map_ok :: "('k::linorder, 'v) map_iter \<Rightarrow> bool" where
  "map_ok m \<longleftrightarrow> sorted_keys (map_data m) \<and> sorted_keys (map_pos m) \<and> map_item m = head_of (map_pos m)"

lemma map_item_None: "map_ok m \<Longrightarrow> map_item m = None \<longleftrightarrow> map_pos m = []"
  by (simp add: map_ok_def)

lemma MapIt_ProcessData_simps [simp]:
  "map_pos (MapIt_ProcessData m) = map_pos m" "map_data (MapIt_ProcessData m) = map_data m"
  "map_item (MapIt_ProcessData m) = head_of (map_pos m)"
  by (auto simp: MapIt_ProcessData_def split: list.split)

lemma MapIt_ok:
  assumes "map_ok m"
  shows "map_ok (MapIt_First m)" "map_pos (MapIt_First m) = map_data m"
    "map_ok (MapIt_Seek T pk m)" "map_pos (MapIt_Seek T pk m) = from_key (key_empty T) pk (map_data m)"
    "map_ok (MapIt_SeekUpper T pk m)" "map_pos (MapIt_SeekUpper T pk m) = after_key (key_empty T) pk (map_data m)"
    "map_data (MapIt_First m) = map_data m" "map_data (MapIt_Seek T pk m) = map_data m"
    "map_data (MapIt_SeekUpper T pk m) = map_data m"
  using assms
  by (auto simp: map_ok_def MapIt_First_def MapIt_Seek_def MapIt_SeekUpper_def
      from_key_def after_key_def dropWhile_lt_eq_filter dropWhile_le_eq_filter
      sorted_keys_filter split: option.splits)

lemma MapIt_Next_ok:
  assumes "map_ok m" and "map_pos m \<noteq> []"
  shows "\<exists>m'. MapIt_Next m = Some m' \<and> map_ok m' \<and> map_pos m' = tl (map_pos m) \<and> map_data m' = map_data m"
  using assms
  by (auto simp: map_ok_def MapIt_Next_def sorted_keys_tl)

section \<open>The merging iterator\<close>

text \<open>The merge of two sorted lists in which the first one wins, and what is shown of it.\<close>

fun merge_on :: "('k::linorder \<times> 'v) list \<Rightarrow> ('k \<times> 'v) list \<Rightarrow> ('k \<times> 'v) list" where
  "merge_on [] ys = ys"
| "merge_on (x # xs) [] = x # xs"
| "merge_on (x # xs) (y # ys) =
     (if fst y < fst x then y # merge_on (x # xs) ys
      else if fst x < fst y then x # merge_on xs (y # ys)
      else x # merge_on xs ys)"

lemma merge_on_Nil [simp]: "merge_on xs [] = xs"
  by (cases xs) auto

definition merge_shown :: "('k::linorder, 'v) kvops \<Rightarrow> ('k \<times> 'v) list \<Rightarrow> ('k \<times> 'v) list \<Rightarrow> ('k \<times> 'v) list" where
  "merge_shown T xs ys = filter (\<lambda>p. \<not> val_empty T (snd p)) (merge_on xs ys)"

lemma fst_merge_on: "fst ` set (merge_on xs ys) = fst ` set xs \<union> fst ` set ys"
  by (induction xs ys rule: merge_on.induct) (auto simp: not_less dest: order.antisym intro: rev_image_eqI)

lemma sorted_merge_on: "sorted_keys xs \<Longrightarrow> sorted_keys ys \<Longrightarrow> sorted_keys (merge_on xs ys)"
proof (induction xs ys rule: merge_on.induct)
  case (3 x xs y ys)
  obtain a b c e where xy: "x = (a, b)" "y = (c, e)"
    by (cases x; cases y)
  have gt: "z < fst p" if "p \<in> set (merge_on us vs)" "\<forall>k \<in> fst ` set us \<union> fst ` set vs. z < k" for p z us vs
    using that fst_merge_on [of us vs] by (metis imageI)
  consider "c < a" | "a < c" | "a = c" by (metis linorder_neqE)
  then show ?case
  proof cases
    case 1
    have "\<forall>k \<in> fst ` set (x # xs) \<union> fst ` set ys. c < k"
      using 3(4,5) 1 xy by (auto simp: sorted_keys_Cons dest: order.strict_trans)
    with 1 3 xy gt [of _ "x # xs" ys c] show ?thesis
      by (auto simp: sorted_keys_Cons)
  next
    case 2
    have "\<forall>k \<in> fst ` set xs \<union> fst ` set (y # ys). a < k"
      using 3(4,5) 2 xy by (auto simp: sorted_keys_Cons dest: order.strict_trans)
    with 2 3 xy gt [of _ xs "y # ys" a] show ?thesis
      by (auto simp: sorted_keys_Cons)
  next
    case 3
    have "\<forall>k \<in> fst ` set xs \<union> fst ` set ys. a < k"
      using \<open>sorted_keys (x # xs)\<close> \<open>sorted_keys (y # ys)\<close> 3 xy by (auto simp: sorted_keys_Cons)
    with 3 \<open>sorted_keys (x # xs)\<close> \<open>sorted_keys (y # ys)\<close> "3.IH"(3) xy gt [of _ xs ys a] show ?thesis
      by (auto simp: sorted_keys_Cons)
  qed
qed auto

lemma map_of_merge_on:
  "sorted_keys xs \<Longrightarrow> sorted_keys ys \<Longrightarrow> map_of (merge_on xs ys) = map_of ys ++ map_of xs"
proof (induction xs ys rule: merge_on.induct)
  case (3 x xs y ys)
  obtain a b c e where xy: "x = (a, b)" "y = (c, e)"
    by (cases x; cases y)
  have s: "sorted_keys xs" "sorted_keys ys"
    using 3(4,5) xy by (auto simp: sorted_keys_Cons)
  have none: "c < a \<Longrightarrow> map_of (x # xs) c = None" "map_of ys c = None"
    using 3(4,5) xy by (fastforce simp: sorted_keys_Cons map_of_eq_None_iff)+
  consider "c < a" | "a < c" | "a = c" by (metis linorder_neqE)
  then show ?case
    using 3 s xy none
    by cases (auto simp: map_add_def fun_eq_iff split: option.splits)
qed auto

text \<open>One step of the merge: which side gives the next entry.\<close>

fun it_ahead :: "('k::linorder, 'v) kvops \<Rightarrow> ('k, 'v) base_iter \<Rightarrow> ('k \<times> 'v) list" where
  "it_ahead T (DbIt r) = db_ahead T r"
| "it_ahead T (MergeIt m b st) = merge_shown T (map_pos m) (it_ahead T b)"

definition takes_map :: "('k::linorder \<times> 'v) list \<Rightarrow> ('k \<times> 'v) list \<Rightarrow> bool" where
  "takes_map xs ys \<longleftrightarrow> xs \<noteq> [] \<and> (ys = [] \<or> fst (hd xs) \<le> fst (hd ys))"

definition same_head :: "('k::linorder \<times> 'v) list \<Rightarrow> ('k \<times> 'v) list \<Rightarrow> bool" where
  "same_head xs ys \<longleftrightarrow> xs \<noteq> [] \<and> ys \<noteq> [] \<and> fst (hd xs) = fst (hd ys)"

lemma merge_on_step:
  assumes "xs \<noteq> [] \<or> ys \<noteq> []"
  shows "merge_on xs ys = (if takes_map xs ys then hd xs else hd ys) #
    merge_on (if takes_map xs ys then tl xs else xs)
             (if \<not> takes_map xs ys \<or> same_head xs ys then tl ys else ys)"
  using assms by (cases xs; cases ys) (auto simp: takes_map_def same_head_def)

lemma ProcessGetData_ok:
  assumes "map_item m = head_of xs" and "it_item b = head_of ys"
  shows "m_item (ProcessGetData m b st) = (if takes_map xs ys then head_of xs else head_of ys)"
    "is_map_data (ProcessGetData m b st) = takes_map xs ys"
    "is_same_key (ProcessGetData m b st) = same_head xs ys"
    "got_count (ProcessGetData m b st) = got_count st"
  using assms
  by (cases xs; cases ys; force simp: ProcessGetData_def takes_map_def same_head_def)+

text \<open>
  \<open>merge_inv\<close>: the state the merging iterator is in between calls, over a base iterator in
  states \<open>okb\<close>; its flags belong to the heads.
\<close>

definition merge_inv ::
  "('k::linorder, 'v) kvops \<Rightarrow> (('k, 'v) base_iter \<Rightarrow> bool) \<Rightarrow> ('k \<times> 'v) list \<Rightarrow> ('k, 'v) base_iter \<Rightarrow> bool" where
  "merge_inv T okb data it =
     (case it of
        DbIt r \<Rightarrow> False
      | MergeIt m b st \<Rightarrow>
          map_ok m \<and> map_data m = data \<and> okb b \<and>
          m_item st = head_of (merge_on (map_pos m) (it_ahead T b)) \<and>
          (m_item st \<noteq> None \<longrightarrow>
             \<not> val_empty T (snd (the (m_item st))) \<and>
             is_map_data st = takes_map (map_pos m) (it_ahead T b) \<and>
             is_same_key st = same_head (map_pos m) (it_ahead T b)))"

lemma merge_inv_iff:
  "merge_inv T okb data (MergeIt m b st) \<longleftrightarrow>
     map_ok m \<and> map_data m = data \<and> okb b \<and>
     m_item st = head_of (merge_on (map_pos m) (it_ahead T b)) \<and>
     (m_item st \<noteq> None \<longrightarrow>
        \<not> val_empty T (snd (the (m_item st))) \<and>
        is_map_data st = takes_map (map_pos m) (it_ahead T b) \<and>
        is_same_key st = same_head (map_pos m) (it_ahead T b))"
  by (simp add: merge_inv_def)

lemma merge_inv_cases:
  assumes "merge_inv T okb data it"
  obtains m b st where "it = MergeIt m b st" "map_ok m" "map_data m = data" "okb b"
  using assms by (auto simp: merge_inv_def split: base_iter.splits)

abbreviation base_law where
  "base_law T okb cont vt \<equiv> base_iterator okb cont (it_ahead T) it_item
     (v_First vt) (v_Next vt) (v_Seek vt) (v_SeekUpper vt) (key_empty T)"

lemma InternalNext_ok:
  assumes law: "base_law T okb cont vt" and m: "map_ok m" and b: "okb b"
    and ne: "map_pos m \<noteq> [] \<or> it_ahead T b \<noteq> []"
    and flags: "is_map_data st = takes_map (map_pos m) (it_ahead T b)"
      "is_same_key st = same_head (map_pos m) (it_ahead T b)"
  shows "\<exists>m' b'. InternalNext vt m b st = Some (m', b') \<and> map_ok m' \<and> map_data m' = map_data m \<and> okb b' \<and>
    merge_on (map_pos m) (it_ahead T b) =
      (if takes_map (map_pos m) (it_ahead T b) then hd (map_pos m) else hd (it_ahead T b)) #
      merge_on (map_pos m') (it_ahead T b')"
proof -
  let ?xs = "map_pos m" and ?ys = "it_ahead T b"
  have item: "it_item b = head_of ?ys"
    by (rule base_iterator.item_law [OF law b])
  have next_b: "?ys \<noteq> [] \<Longrightarrow> \<exists>b'. v_Next vt b = Some b' \<and> okb b' \<and> it_ahead T b' = tl ?ys"
    by (rule base_iterator.next_law [OF law b])
  have next_m: "?xs \<noteq> [] \<Longrightarrow> \<exists>m'. MapIt_Next m = Some m' \<and> map_ok m' \<and> map_pos m' = tl ?xs \<and> map_data m' = map_data m"
    by (rule MapIt_Next_ok [OF m])
  consider (same) "takes_map ?xs ?ys" "same_head ?xs ?ys" | (map) "takes_map ?xs ?ys" "\<not> same_head ?xs ?ys"
    | (base) "\<not> takes_map ?xs ?ys" by blast
  then show ?thesis
  proof cases
    case same
    then obtain m' b' where "MapIt_Next m = Some m'" "map_ok m'" "map_pos m' = tl ?xs" "map_data m' = map_data m"
      "v_Next vt b = Some b'" "okb b'" "it_ahead T b' = tl ?ys"
      using next_b next_m by (auto simp: takes_map_def same_head_def)
    with same flags item merge_on_step [OF ne] show ?thesis
      by (auto simp: InternalNext_def same_head_def)
  next
    case map
    then obtain m' where "MapIt_Next m = Some m'" "map_ok m'" "map_pos m' = tl ?xs" "map_data m' = map_data m"
      using next_m by (auto simp: takes_map_def)
    with map flags b merge_on_step [OF ne] show ?thesis
      by (auto simp: InternalNext_def)
  next
    case base
    then have "?ys \<noteq> []" using ne by (auto simp: takes_map_def)
    then obtain b' where "v_Next vt b = Some b'" "okb b'" "it_ahead T b' = tl ?ys"
      using next_b by blast
    with base flags m merge_on_step [OF ne] show ?thesis
      by (auto simp: InternalNext_def)
  qed
qed

text \<open>The loop returns, having skipped the deleted entries.\<close>

lemma merge_loop_ok:
  assumes law: "base_law T okb cont vt"
  shows "map_ok m \<Longrightarrow> okb b \<Longrightarrow> map_pos m \<noteq> [] \<or> it_ahead T b \<noteq> [] \<Longrightarrow>
    \<exists>it. merge_loop T vt m b st = Some it \<and> merge_inv T okb (map_data m) it \<and>
      it_ahead T it = merge_shown T (map_pos m) (it_ahead T b)"
proof (induction "length (merge_on (map_pos m) (it_ahead T b))" arbitrary: m b st rule: less_induct)
  case less
  let ?xs = "map_pos m" and ?ys = "it_ahead T b"
  let ?st1 = "ProcessGetData m b st"
  let ?x = "if takes_map ?xs ?ys then hd ?xs else hd ?ys"
  note item = base_iterator.item_law [OF law less.prems(2)]
  have mi: "map_item m = head_of ?xs"
    using less.prems(1) by (simp add: map_ok_def)
  note st1 = ProcessGetData_ok [OF mi item, of st]
  have x: "m_item ?st1 = Some ?x"
    using less.prems(3) st1(1) by (cases ?xs; cases ?ys) (auto simp: takes_map_def)
  obtain xk xv where xx: "?x = (xk, xv)"
    by (meson surj_pair)
  obtain m' b' where nxt: "InternalNext vt m b ?st1 = Some (m', b')" "map_ok m'" "map_data m' = map_data m" "okb b'"
      "merge_on ?xs ?ys = ?x # merge_on (map_pos m') (it_ahead T b')"
    using InternalNext_ok [OF law less.prems st1(2,3)] by blast
  show ?case
  proof (cases "val_empty T (snd ?x)")
    case False
    then have "merge_loop T vt m b st = Some (MergeIt m b (?st1\<lparr>got_count := got_count ?st1 + 1\<rparr>))"
      using x unfolding xx by (subst merge_loop.simps) (simp add: Let_def)
    moreover have "merge_inv T okb (map_data m) (MergeIt m b (?st1\<lparr>got_count := got_count ?st1 + 1\<rparr>))"
      using less.prems x st1 nxt(5) False by (simp add: merge_inv_def)
    ultimately show ?thesis by simp
  next
    case True
    have shown: "merge_shown T ?xs ?ys = merge_shown T (map_pos m') (it_ahead T b')"
      using nxt(5) True by (simp add: merge_shown_def)
    have i': "it_item b' = head_of (it_ahead T b')" "map_item m' = head_of (map_pos m')"
      using base_iterator.item_law [OF law nxt(4)] nxt(2) by (auto simp: map_ok_def)
    have unfold: "merge_loop T vt m b st =
        (if map_item m' = None \<and> it_item b' = None then Some (MergeIt m' b' (?st1\<lparr>m_item := None\<rparr>))
         else merge_loop T vt m' b' ?st1)"
      using x True nxt(1) unfolding xx by (subst merge_loop.simps) (simp add: Let_def)
    show ?thesis
    proof (cases "map_pos m' = [] \<and> it_ahead T b' = []")
      case True
      with unfold i' shown nxt show ?thesis
        by (simp add: merge_inv_def)
    next
      case False
      have "\<exists>it. merge_loop T vt m' b' ?st1 = Some it \<and> merge_inv T okb (map_data m') it \<and>
          it_ahead T it = merge_shown T (map_pos m') (it_ahead T b')"
        using less.hyps [of m' b' ?st1] nxt False by simp
      with unfold i' False shown nxt(3) show ?thesis
        by auto
    qed
  qed
qed

lemma Merge_ProcessData_ok:
  assumes law: "base_law T okb cont vt" and m: "map_ok m" and b: "okb b"
  shows "\<exists>it. Merge_ProcessData T vt m b st = Some it \<and> merge_inv T okb (map_data m) it \<and>
      it_ahead T it = merge_shown T (map_pos m) (it_ahead T b)"
proof (cases "map_pos m = [] \<and> it_ahead T b = []")
  case True
  with m b base_iterator.item_law [OF law b] show ?thesis
    by (simp add: Merge_ProcessData_def map_ok_def merge_inv_def)
next
  case False
  with m b base_iterator.item_law [OF law b] merge_loop_ok [OF law m b] show ?thesis
    by (auto simp: Merge_ProcessData_def map_ok_def)
qed

section \<open>The contract, on the model\<close>

lemma map_of_filter_key:
  "map_of (filter (\<lambda>p. Q (fst p)) xs) k = (if Q k then map_of xs k else None)"
  by (induction xs) auto

lemma filter_merge_on:
  assumes "sorted_keys xs" and "sorted_keys ys"
  shows "filter (\<lambda>p. Q (fst p)) (merge_on xs ys) =
    merge_on (filter (\<lambda>p. Q (fst p)) xs) (filter (\<lambda>p. Q (fst p)) ys)"
  using assms
  by (intro sorted_keys_map_of_eq)
    (auto simp: sorted_keys_filter sorted_merge_on map_of_merge_on map_of_filter_key map_add_def fun_eq_iff
      split: option.split)

lemma merge_shown_cut:
  assumes "sorted_keys xs" and "sorted_keys ys"
  shows "merge_shown T (from_key bad pk xs) (from_key bad pk ys) = from_key bad pk (merge_shown T xs ys)"
    "merge_shown T (after_key bad pk xs) (after_key bad pk ys) = after_key bad pk (merge_shown T xs ys)"
  using filter_merge_on [OF assms]
  by (auto simp: merge_shown_def from_key_def after_key_def filter_filter conj_commute
      simp flip: filter_merge_on [OF assms] split: option.split)

lemma merge_loop_head: "head_of (merge_on xs ys) = Some x \<Longrightarrow> \<not> val_empty T (snd x) \<Longrightarrow>
    merge_shown T xs ys = x # tl (merge_shown T xs ys)"
  by (auto simp: merge_shown_def head_of_def split: list.splits)

lemma merge_inv_item:
  assumes "merge_inv T okb data it"
  shows "it_item it = head_of (it_ahead T it)"
proof -
  obtain m b st where it: "it = MergeIt m b st"
    using assms by (rule merge_inv_cases)
  then have h: "m_item st = head_of (merge_on (map_pos m) (it_ahead T b))"
      "m_item st \<noteq> None \<longrightarrow> \<not> val_empty T (snd (the (m_item st)))"
    using assms unfolding it merge_inv_iff by blast+
  show ?thesis
  proof (cases "m_item st")
    case None
    then show ?thesis
      using it h by (simp add: merge_shown_def)
  next
    case (Some x)
    then have "merge_shown T (map_pos m) (it_ahead T b) = x # tl (merge_shown T (map_pos m) (it_ahead T b))"
      using h by (intro merge_loop_head) auto
    with it Some show ?thesis
      by (metis head_of_simps(2) it_ahead.simps(2) it_item.simps(2))
  qed
qed

lemma merged_law:
  assumes law: "base_law T okb cont vt" and data: "sorted_keys data"
  shows "base_law T (merge_inv T okb data) (merge_shown T data cont) (merged_vt T vt)"
proof (unfold_locales, goal_cases)
  case (1 s)
  then show ?case by (rule merge_inv_item)
next
  case (2 s)
  from 2 obtain m b st where it: "s = MergeIt m b st" "map_ok m" "okb b"
    by (rule merge_inv_cases)
  have "sorted_keys cont" "sorted_keys (it_ahead T b)"
    using base_iterator.sorted_law [OF law it(3)] by auto
  with data it show ?case
    by (simp add: merge_shown_def sorted_keys_filter sorted_merge_on map_ok_def)
next
  case (3 s)
  from 3 obtain m b st where it: "s = MergeIt m b st" "map_ok m" "map_data m = data" "okb b"
    by (rule merge_inv_cases)
  obtain b' where b': "v_First vt b = Some b'" "okb b'" "it_ahead T b' = cont"
    using base_iterator.first_law [OF law it(4)] by blast
  from Merge_ProcessData_ok [OF law MapIt_ok(1) [OF it(2)] b'(2), of st] it b' MapIt_ok(2,7) [OF it(2)]
  show ?case by (simp add: merged_vt_def)
next
  case (4 s pk)
  from 4 obtain m b st where it: "s = MergeIt m b st" "map_ok m" "map_data m = data" "okb b"
    by (rule merge_inv_cases)
  have cont: "sorted_keys cont"
    using base_iterator.sorted_law [OF law it(4)] by blast
  obtain b0 where b0: "v_First vt b = Some b0" "okb b0" "it_ahead T b0 = cont"
    using base_iterator.first_law [OF law it(4)] by blast
  obtain b' where b': "v_Seek vt pk b = Some b'" "okb b'" "it_ahead T b' = from_key (key_empty T) pk cont"
    using base_iterator.seek_law [OF law it(4)] by blast
  note P0 = Merge_ProcessData_ok [OF law MapIt_ok(1) [OF it(2)] b0(2), of st]
  note P = Merge_ProcessData_ok [OF law MapIt_ok(3) [OF it(2), of T pk] b'(2), of st]
  show ?case
  proof (cases "case pk of None \<Rightarrow> True | Some k \<Rightarrow> key_empty T k")
    case True
    then have "from_key (key_empty T) pk (merge_shown T data cont) = merge_shown T data cont"
      by (auto simp: from_key_def split: option.splits)
    with P0 True it b0 MapIt_ok(2,7) [OF it(2)] show ?thesis
      by (simp add: merged_vt_def)
  next
    case False
    with P it b' MapIt_ok(4,8) [OF it(2), of T pk] merge_shown_cut(1) [OF data cont, of T "key_empty T" pk]
    show ?thesis by (simp add: merged_vt_def)
  qed
next
  case (5 s pk)
  from 5 obtain m b st where it: "s = MergeIt m b st" "map_ok m" "map_data m = data" "okb b"
    by (rule merge_inv_cases)
  have cont: "sorted_keys cont"
    using base_iterator.sorted_law [OF law it(4)] by blast
  obtain b0 where b0: "v_First vt b = Some b0" "okb b0" "it_ahead T b0 = cont"
    using base_iterator.first_law [OF law it(4)] by blast
  obtain b' where b': "v_SeekUpper vt pk b = Some b'" "okb b'" "it_ahead T b' = after_key (key_empty T) pk cont"
    using base_iterator.upper_law [OF law it(4)] by blast
  note P0 = Merge_ProcessData_ok [OF law MapIt_ok(1) [OF it(2)] b0(2), of st]
  note P = Merge_ProcessData_ok [OF law MapIt_ok(5) [OF it(2), of T pk] b'(2), of st]
  show ?case
  proof (cases "case pk of None \<Rightarrow> True | Some k \<Rightarrow> key_empty T k")
    case True
    then have "after_key (key_empty T) pk (merge_shown T data cont) = merge_shown T data cont"
      by (auto simp: after_key_def split: option.splits)
    with P0 True it b0 MapIt_ok(2,7) [OF it(2)] show ?thesis
      by (simp add: merged_vt_def)
  next
    case False
    with P it b' MapIt_ok(6,9) [OF it(2), of T pk] merge_shown_cut(2) [OF data cont, of T "key_empty T" pk]
    show ?thesis by (simp add: merged_vt_def)
  qed
next
  case (6 s)
  from 6(1) obtain m b st where it: "s = MergeIt m b st" "map_ok m" "map_data m = data" "okb b"
    by (rule merge_inv_cases)
  have h: "it_item s = head_of (it_ahead T s)"
    using 6(1) by (rule merge_inv_item)
  then have ne: "m_item st \<noteq> None"
    using 6(2) it by simp
  have st: "m_item st = head_of (merge_on (map_pos m) (it_ahead T b))" "\<not> val_empty T (snd (the (m_item st)))"
      "is_map_data st = takes_map (map_pos m) (it_ahead T b)"
      "is_same_key st = same_head (map_pos m) (it_ahead T b)"
    using 6(1) ne unfolding it(1) merge_inv_iff by blast+
  then have ne2: "map_pos m \<noteq> [] \<or> it_ahead T b \<noteq> []"
    using ne by (cases "map_pos m"; cases "it_ahead T b") auto
  obtain m' b' where n: "InternalNext vt m b st = Some (m', b')" "map_ok m'" "map_data m' = map_data m" "okb b'"
      "merge_on (map_pos m) (it_ahead T b) =
        (if takes_map (map_pos m) (it_ahead T b) then hd (map_pos m) else hd (it_ahead T b)) #
        merge_on (map_pos m') (it_ahead T b')"
    using InternalNext_ok [OF law it(2,4) ne2 st(3,4)] by blast
  then have "merge_shown T (map_pos m') (it_ahead T b') = tl (merge_shown T (map_pos m) (it_ahead T b))"
    using st(1,2) ne by (simp add: merge_shown_def)
  with Merge_ProcessData_ok [OF law n(2,4), of st] it n show ?case
    by (simp add: merged_vt_def)
qed

end
