(* ===== verification/Db_Iterate.thy ===== *)
theory Db_Iterate
  imports Db_Iterator_Laws
begin

text \<open>
  Iteration over a whole cache: the iterator that \<open>Create\<close> builds for any stack of layers
  over a database keeps the contract \<open>base_iterator\<close>, and so the loops of its users see
  exactly the visible entries of the cache, once each and in key order; a prefix iterator
  sees exactly those whose key matches.
\<close>

definition dbit_ok :: "('k::linorder, 'v) kvops \<Rightarrow> CDBAccess \<Rightarrow> ('k, 'v) base_iter \<Rightarrow> bool" where
  "dbit_ok T d it = (case it of DbIt r \<Rightarrow> db_ok T d r | MergeIt m b st \<Rightarrow> False)"

lemma dbit_cases:
  assumes "dbit_ok T d it"
  obtains r where "it = DbIt r" "db_ok T d r"
  using assms by (cases it) (auto simp: dbit_ok_def)

lemma on_db_ok:
  assumes "\<exists>r'. f r = Some r' \<and> db_ok T d r' \<and> db_ahead T r' = ys"
  shows "\<exists>s'. on_db f (DbIt r) = Some s' \<and> dbit_ok T d s' \<and> it_ahead T s' = ys"
proof -
  obtain r' where "f r = Some r'" "db_ok T d r'" "db_ahead T r' = ys"
    using assms by blast
  then show ?thesis
    by (intro exI [of _ "DbIt r'"]) (simp add: on_db_def dbit_ok_def)
qed

lemma db_law: "base_law T (dbit_ok T d) (db_content T d) (db_vt T)"
proof (unfold_locales, goal_cases)
  case (1 s)
  then show ?case by (cases s) (auto simp: dbit_ok_def db_ok_def)
next
  case (2 s)
  then show ?case
    using sorted_db_content [of T d] sorted_db_ahead [of T d] by (cases s) (auto simp: dbit_ok_def db_ok_def)
next
  case (3 s)
  then obtain r where r: "s = DbIt r" "db_ok T d r"
    by (rule dbit_cases)
  from on_db_ok [where f = "DbIt_First T", OF DbIt_First_ok [OF r(2)]] r(1) show ?case
    by (simp add: db_vt_def)
next
  case (4 s pk)
  then obtain r where r: "s = DbIt r" "db_ok T d r"
    by (rule dbit_cases)
  from on_db_ok [where f = "DbIt_Seek T pk", OF DbIt_Seek_ok [OF r(2), of pk]] r(1) show ?case
    by (simp add: db_vt_def)
next
  case (5 s pk)
  then obtain r where r: "s = DbIt r" "db_ok T d r"
    by (rule dbit_cases)
  from on_db_ok [where f = "DbIt_SeekUpper T pk", OF DbIt_SeekUpper_ok [OF r(2), of pk]] r(1) show ?case
    by (simp add: db_vt_def)
next
  case (6 s)
  from 6(1) obtain r where r: "s = DbIt r" "db_ok T d r"
    by (rule dbit_cases)
  with 6(2) on_db_ok [where f = "DbIt_Next T", OF DbIt_Next_ok [OF r(2)]] show ?case
    by (simp add: db_vt_def)
qed

fun it_content :: "('k::linorder, 'v) kvops \<Rightarrow> CDBAccess \<Rightarrow> ('k, 'v) kvcache \<Rightarrow> ('k \<times> 'v) list" where
  "it_content T d (FreeCache n) = merge_shown T (sm_items (mapData n)) (db_content T d)"
| "it_content T d (DbCache n) = merge_shown T (sm_items (mapData n)) (db_content T d)"
| "it_content T d (SubCache n b) = merge_shown T (sm_items (mapData n)) (it_content T d b)"

fun it_ok :: "('k::linorder, 'v) kvops \<Rightarrow> CDBAccess \<Rightarrow> ('k, 'v) kvcache \<Rightarrow> ('k, 'v) base_iter \<Rightarrow> bool" where
  "it_ok T d (FreeCache n) = merge_inv T (dbit_ok T d) (sm_items (mapData n))"
| "it_ok T d (DbCache n) = merge_inv T (dbit_ok T d) (sm_items (mapData n))"
| "it_ok T d (SubCache n b) = merge_inv T (it_ok T d b) (sm_items (mapData n))"

lemma cache_law: "base_law T (it_ok T d c) (it_content T d c) (vt_of T c)"
proof (induction c)
  case (FreeCache n)
  show ?case by (simp, rule merged_law [OF db_law]) simp
next
  case (DbCache n)
  show ?case by (simp, rule merged_law [OF db_law]) simp
next
  case (SubCache n b)
  show ?case by (simp, rule merged_law [OF SubCache.IH]) simp
qed

interpretation cache_iteration: base_iterator
  "it_ok T d c" "it_content T d c" "it_ahead T" it_item
  "v_First (vt_of T c)" "v_Next (vt_of T c)" "v_Seek (vt_of T c)" "v_SeekUpper (vt_of T c)" "key_empty T"
  for T d c
  by (rule cache_law)

text \<open>What \<open>Create\<close> returns may be used.\<close>

lemma Create_ok:
  assumes "iter_hyps T d" and "has_db c"
  shows "\<exists>it. Create d c = Some it \<and> it_ok T d c it \<and> it_ahead T it = []"
  using assms(2)
proof (induction c)
  case (SubCache n b)
  then obtain it where "Create d b = Some it" "it_ok T d b it" "it_ahead T it = []"
    by auto
  then show ?case
    by (simp add: merge_inv_iff new_map_iter_def new_merge_st_def map_ok_def merge_shown_def)
next
  case (DbCache n)
  from assms(1) show ?case
    by (simp add: merge_inv_iff new_map_iter_def new_merge_st_def map_ok_def merge_shown_def
        dbit_ok_def db_ok_def new_db_iter_def db_ahead_def Op_Log.NewIterator_def)
qed simp

text \<open>The content is what a lookup shows.\<close>

definition shown :: "('k, 'v) kvops \<Rightarrow> ('k \<Rightarrow> 'v option) \<Rightarrow> 'k \<Rightarrow> 'v option" where
  "shown T f k = (case f k of Some v \<Rightarrow> if val_empty T v then None else Some v | None \<Rightarrow> None)"

lemma view_shown: "\<not> key_empty T k \<Longrightarrow> view T d c k = shown T (raw T d c) k"
  by (simp add: view_def visible_def shown_def)

lemma map_of_filter_val:
  assumes "sorted_keys xs"
  shows "map_of (filter (\<lambda>p. Q (snd p)) xs) k =
    (case map_of xs k of Some v \<Rightarrow> if Q v then Some v else None | None \<Rightarrow> None)"
  using assms
proof (induction xs)
  case (Cons p xs)
  obtain a b where p: "p = (a, b)" by (cases p)
  have "map_of xs a = None"
    using Cons.prems p by (fastforce simp: sorted_keys_Cons map_of_eq_None_iff)
  with Cons p show ?case
    by (auto simp: sorted_keys_Cons split: option.splits)
qed simp

lemma map_of_merge_shown:
  assumes "sorted_keys xs" and "sorted_keys ys"
  shows "map_of (merge_shown T xs ys) = shown T (map_of ys ++ map_of xs)"
    "sorted_keys (merge_shown T xs ys)"
  using map_of_filter_val [OF sorted_merge_on [OF assms], of "\<lambda>v. \<not> val_empty T v"] assms
  by (auto simp: merge_shown_def shown_def map_of_merge_on sorted_keys_filter sorted_merge_on
      intro!: ext split: option.split)

lemma map_of_db_content:
  assumes "iter_hyps T d"
  shows "map_of (db_content T d) = db_val T d"
proof
  fix k
  let ?S = "sm_items (ldb_data (ldb d))" and ?key = "GetKeyPrefix (prefix_type T) @ ser_key T k"
  have wf: "kv_wf T"
    using assms access_okD(1) by (auto simp: iter_hyps_def)
  have in_iff: "(k, v) \<in> set (db_content T d) \<longleftrightarrow> db_val T d k = Some v" for v
  proof
    assume "(k, v) \<in> set (db_content T d)"
    then obtain e where e: "e \<in> set ?S" "own_entry T e" "decode T e = (k, v)"
      by (auto simp: db_content_def)
    from own_decode [OF assms e(1,2)] e(3) have "fst e = ?key" and v: "unser_val T (snd e) = Some v"
      by auto
    then have "(?key, snd e) \<in> set ?S"
      using e(1) by (metis prod.collapse)
    with v show "db_val T d k = Some v"
      by (simp add: db_val_def in_sm_items_iff)
  next
    assume "db_val T d k = Some v"
    then obtain s where s: "(?key, s) \<in> set ?S" "unser_val T s = Some v"
      by (auto simp: db_val_def in_sm_items_iff split: option.splits)
    with wf have "decode T (?key, s) = (k, v)" "own_entry T (?key, s)"
      by (auto simp: decode_def own_entry_def)
    then have "(?key, s) \<in> set (filter (own_entry T) ?S)"
      using s(1) by simp
    then have "decode T (?key, s) \<in> set (db_content T d)"
      unfolding db_content_def set_map by (rule imageI)
    then show "(k, v) \<in> set (db_content T d)"
      using \<open>decode T (?key, s) = (k, v)\<close> by simp
  qed
  have "distinct (map fst (db_content T d))"
    using sorted_db_content [OF assms] by (rule sorted_keys_distinct)
  then show "map_of (db_content T d) k = db_val T d k"
    using in_iff by (metis map_of_eq_Some_iff option.exhaust)
qed

lemma it_content_ok:
  assumes "iter_hyps T d" and "has_db c"
  shows "sorted_keys (it_content T d c) \<and> map_of (it_content T d c) = shown T (raw T d c)"
  using assms(2)
proof (induction c)
  case (DbCache n)
  have "shown T (db_val T d ++ sm_find (mapData n)) = shown T (raw T d (DbCache n))"
    by (auto simp: shown_def map_add_def intro!: ext split: option.split)
  note eq = this
  note m = map_of_merge_shown [OF sorted_sm_items sorted_db_content [OF assms(1)], of T "mapData n"]
  show ?case
    unfolding it_content.simps
    using m(1) [unfolded map_of_db_content [OF assms(1)] map_of_sm_items eq] m(2) by blast
next
  case (SubCache n b)
  then have s: "sorted_keys (it_content T d b)" and IH: "map_of (it_content T d b) = shown T (raw T d b)"
    by auto
  have "shown T (shown T (raw T d b) ++ sm_find (mapData n)) = shown T (raw T d (SubCache n b))"
    by (auto simp: shown_def map_add_def intro!: ext split: option.split)
  note eq = this
  note m = map_of_merge_shown [OF sorted_sm_items s, of T "mapData n"]
  show ?case
    unfolding it_content.simps using m(1) [unfolded IH map_of_sm_items eq] m(2) by blast
qed simp

section \<open>Prefix iterators\<close>

text \<open>
  A matcher is an interval of the keys that starts at the key \<open>First\<close> seeks; the overloads
  of \<open>CommonPrefixMatcher\<close> are, when the empty values are the least ones.
\<close>

definition matcher_ok :: "('k::linorder, 'v) kvops \<Rightarrow> 'k prefix_matcher \<Rightarrow> bool" where
  "matcher_ok T p \<longleftrightarrow>
     (\<forall>k. matches p k \<longrightarrow> last_key p \<le> k) \<and>
     (\<forall>a b. last_key p \<le> a \<and> a \<le> b \<and> matches p b \<longrightarrow> matches p a) \<and>
     (key_empty T (last_key p) \<longrightarrow> (\<forall>k. last_key p \<le> k))"

lemma match_pair1_interval:
  assumes "\<forall>b. e \<le> (b :: 'b::linorder)"
  shows "matches (match_pair1 e (pre :: 'a::linorder)) k \<Longrightarrow> last_key (match_pair1 e pre) \<le> k"
    "last_key (match_pair1 e pre) \<le> a \<Longrightarrow> a \<le> b \<Longrightarrow> matches (match_pair1 e pre) b \<Longrightarrow>
       matches (match_pair1 e pre) a"
  using assms by (auto simp: match_pair1_def match_eq_def less_eq_prod_def)

lemma match_tuple3_interval:
  assumes "\<forall>c. e \<le> (c :: 'c::linorder)"
  shows "matches (match_tuple3_2 e (pre :: 'a::linorder \<times> 'b::linorder)) k \<Longrightarrow>
       last_key (match_tuple3_2 e pre) \<le> k"
    "last_key (match_tuple3_2 e pre) \<le> a \<Longrightarrow> a \<le> b \<Longrightarrow> matches (match_tuple3_2 e pre) b \<Longrightarrow>
       matches (match_tuple3_2 e pre) a"
  using assms by (auto simp: match_tuple3_2_def match_eq_def less_eq_prod_def)

lemma takeWhile_matches:
  assumes "sorted_keys xs" and "matcher_ok T p"
  shows "takeWhile (\<lambda>x. matches p (fst x)) (from_key (key_empty T) (Some (last_key p)) xs) =
    filter (\<lambda>x. matches p (fst x)) xs"
proof -
  let ?k = "last_key p"
  have least: "key_empty T ?k \<Longrightarrow> ?k \<le> k" and start: "matches p k \<Longrightarrow> ?k \<le> k"
    and convex: "?k \<le> a \<Longrightarrow> a \<le> b \<Longrightarrow> matches p b \<Longrightarrow> matches p a" for k a b
    using assms(2) unfolding matcher_ok_def by blast+
  have eq: "from_key (key_empty T) (Some ?k) xs = filter (\<lambda>x. ?k \<le> fst x) xs"
    using least by (simp add: from_key_def)
  have "takeWhile (\<lambda>x. matches p (fst x)) (filter (\<lambda>x. ?k \<le> fst x) xs) = filter (\<lambda>x. matches p (fst x)) xs"
    using assms(1)
  proof (induction xs)
    case (Cons e xs)
    then have IH: "takeWhile (\<lambda>x. matches p (fst x)) (filter (\<lambda>x. ?k \<le> fst x) xs) =
        filter (\<lambda>x. matches p (fst x)) xs"
      by (cases e) (auto simp: sorted_keys_Cons)
    show ?case
    proof (cases "?k \<le> fst e \<and> \<not> matches p (fst e)")
      case True
      have "\<not> matches p (fst f)" if "f \<in> set xs" for f
      proof -
        have "fst e \<le> fst f"
          using Cons.prems that by (cases e) (auto simp: sorted_keys_Cons intro: less_imp_le)
        then show ?thesis
          using convex [of "fst e" "fst f"] True by blast
      qed
      then have "filter (\<lambda>x. matches p (fst x)) xs = []"
        by (auto simp: filter_empty_conv)
      with True show ?thesis by simp
    next
      case False
      with IH start [of "fst e"] show ?thesis by auto
    qed
  qed simp
  with eq show ?thesis by simp
qed

text \<open>The overloads of \<open>CommonPrefixMatcher\<close> for pairs and tuples, as matchers.\<close>

lemma match_tuple4_interval:
  assumes "\<forall>b. e1 \<le> (b :: 'b::linorder)" and "\<forall>b. e2 \<le> (b :: 'c::linorder)" and "\<forall>b. e3 \<le> (b :: 'd::linorder)"
  shows "matches (match_tuple4_1 e1 e2 e3 (pre :: 'a::linorder)) k \<Longrightarrow> last_key (match_tuple4_1 e1 e2 e3 pre) \<le> k"
    "last_key (match_tuple4_1 e1 e2 e3 pre) \<le> a \<Longrightarrow> a \<le> b \<Longrightarrow> matches (match_tuple4_1 e1 e2 e3 pre) b \<Longrightarrow>
       matches (match_tuple4_1 e1 e2 e3 pre) a"
  using assms by (auto simp: match_tuple4_1_def match_eq_def less_eq_prod_def le_less)

lemma match_pair1_ok:
  assumes "\<forall>b. e \<le> (b :: 'b::linorder)"
    and "\<And>k :: 'a::linorder \<times> 'b. key_empty T (pre, e) \<Longrightarrow> (pre, e) \<le> k"
  shows "matcher_ok T (match_pair1 e pre)"
proof -
  have "key_empty T (last_key (match_pair1 e pre)) \<Longrightarrow> last_key (match_pair1 e pre) \<le> k" for k
    using assms(2) by (simp add: match_pair1_def)
  with match_pair1_interval [OF assms(1), of pre] show ?thesis
    unfolding matcher_ok_def by blast
qed

lemma iter_hyps_bytes [simp]: "iter_hyps (bytes_ops KEYID_ACCOUNT) (empty_db t)"
  by (simp add: iter_hyps_def ser_mono_def db_parses_def)

lemma prefix_loop:
  assumes "iter_hyps T d" and "has_db c" and "it_ok T d c it" and "matcher_ok T p"
  shows "\<exists>it' xs. Prefix_First T c p it = Some it' \<and>
    collect (v_Next (vt_of T c)) (Prefix_item p) it' = Some xs \<and> sorted_keys xs \<and>
    map_of xs = (\<lambda>k. if matches p k then shown T (raw T d c) k else None)"
proof -
  have c: "sorted_keys (it_content T d c)" "map_of (it_content T d c) = shown T (raw T d c)"
    using it_content_ok [OF assms(1,2)] by auto
  obtain i where i: "v_Seek (vt_of T c) (Some (last_key p)) it = Some i" "it_ok T d c i"
      "it_ahead T i = from_key (key_empty T) (Some (last_key p)) (it_content T d c)"
    using cache_iteration.seek_law [OF assms(3), of "Some (last_key p)"] by blast
  have "collect (v_Next (vt_of T c)) (Prefix_item p) i = Some (takeWhile (\<lambda>x. matches p (fst x)) (it_ahead T i))"
    using i(2) by (rule cache_iteration.collect_while [rotated])
      (auto simp: Prefix_item_def split: option.split)
  with i c takeWhile_matches [OF c(1) assms(4)] show ?thesis
    by (simp add: Prefix_First_def sorted_keys_filter map_of_filter_key fun_eq_iff)
qed

section \<open>Properties\<close>



text \<open>
  \<open>Seek\<close> on a used iterator stands before exactly the visible entries with a key not
  less than the given one, and \<open>SeekUpper\<close> before exactly those with a greater key, in order,
  whichever layers hold them.
\<close>

theorem iterate_seek:
  assumes "iter_hyps T d" and "has_db c" and "it_ok T d c it" and "\<not> key_empty T k"
  shows "(\<exists>it' xs. v_Seek (vt_of T c) (Some k) it = Some it' \<and>
      collect (v_Next (vt_of T c)) it_item it' = Some xs \<and> sorted_keys xs \<and>
      map_of xs = (\<lambda>k'. if k \<le> k' then shown T (raw T d c) k' else None)) \<and>
    (\<exists>it' xs. v_SeekUpper (vt_of T c) (Some k) it = Some it' \<and>
      collect (v_Next (vt_of T c)) it_item it' = Some xs \<and> sorted_keys xs \<and>
      map_of xs = (\<lambda>k'. if k < k' then shown T (raw T d c) k' else None))"
proof -
  have c: "sorted_keys (it_content T d c)" "map_of (it_content T d c) = shown T (raw T d c)"
    using it_content_ok [OF assms(1,2)] by auto
  obtain i1 where i1: "v_Seek (vt_of T c) (Some k) it = Some i1" "it_ok T d c i1"
      "it_ahead T i1 = filter (\<lambda>p. k \<le> fst p) (it_content T d c)"
    using cache_iteration.seek_law [OF assms(3), of "Some k"] assms(4) by (auto simp: from_key_def)
  obtain i2 where i2: "v_SeekUpper (vt_of T c) (Some k) it = Some i2" "it_ok T d c i2"
      "it_ahead T i2 = filter (\<lambda>p. k < fst p) (it_content T d c)"
    using cache_iteration.upper_law [OF assms(3), of "Some k"] assms(4) by (auto simp: after_key_def)
  show ?thesis
    using i1 i2 c cache_iteration.collect_ahead [OF i1(2)] cache_iteration.collect_ahead [OF i2(2)]
    by (simp add: sorted_keys_filter map_of_filter_key fun_eq_iff)
qed

theorem iterate_seek_witness:
  "\<exists>it it' xs. v_Seek (vt_of (bytes_ops KEYID_ACCOUNT) (DbCache (empty_node True))) (Some ''k'') it = Some it' \<and>
     collect (v_Next (vt_of (bytes_ops KEYID_ACCOUNT) (DbCache (empty_node True)))) it_item it' = Some xs \<and>
     map_of xs ''a'' = None"
proof -
  obtain it where it: "it_ok (bytes_ops KEYID_ACCOUNT) (empty_db DB_ACCOUNT) (DbCache (empty_node True)) it"
    using Create_ok [OF iter_hyps_bytes [of DB_ACCOUNT], of "DbCache (empty_node True)"] by auto
  have "has_db (DbCache (empty_node True))" "\<not> key_empty (bytes_ops KEYID_ACCOUNT) ''k''"
    by simp_all
  from iterate_seek [OF iter_hyps_bytes this(1) it this(2), THEN conjunct1] obtain it' xs where
    "v_Seek (vt_of (bytes_ops KEYID_ACCOUNT) (DbCache (empty_node True))) (Some ''k'') it = Some it'"
    "collect (v_Next (vt_of (bytes_ops KEYID_ACCOUNT) (DbCache (empty_node True)))) it_item it' = Some xs"
    "map_of xs = (\<lambda>k'. if ''k'' \<le> k' then shown (bytes_ops KEYID_ACCOUNT)
       (raw (bytes_ops KEYID_ACCOUNT) (empty_db DB_ACCOUNT) (DbCache (empty_node True))) k' else None)"
    by blast
  then show ?thesis
    by (intro exI [of _ it] exI [of _ it'] exI [of _ xs] conjI) (assumption | simp add: less_eq_char_def)+
qed

text \<open>
  A prefix iterator visits exactly the visible entries whose key matches the
  prefix, in key order, and ends at the first key beyond them, when the matching keys are an
  interval that starts at the key made from the prefix.
\<close>

theorem iterate_prefix:
  assumes "iter_hyps T d" and "has_db c" and "it_ok T d c it" and "matcher_ok T p"
  shows "\<exists>it' xs. Prefix_First T c p it = Some it' \<and>
    collect (v_Next (vt_of T c)) (Prefix_item p) it' = Some xs \<and> sorted_keys xs \<and>
    map_of xs = (\<lambda>k. if matches p k then shown T (raw T d c) k else None)"
  by (rule prefix_loop [OF assms])

theorem iterate_prefix_witness:
  "\<exists>it it' xs. Prefix_First (bytes_ops KEYID_ACCOUNT)
        (DbCache ((empty_node True)\<lparr>mapData := sm_set ''ax'' ''2'' (sm_set ''b'' ''1'' sm_empty)\<rparr>))
        \<lparr>last_key = ''a'', matches = prefix ''a''\<rparr> it = Some it' \<and>
     collect (v_Next (vt_of (bytes_ops KEYID_ACCOUNT)
         (DbCache ((empty_node True)\<lparr>mapData := sm_set ''ax'' ''2'' (sm_set ''b'' ''1'' sm_empty)\<rparr>))))
       (Prefix_item \<lparr>last_key = ''a'', matches = prefix ''a''\<rparr>) it' = Some xs \<and>
     map_of xs ''ax'' = Some ''2'' \<and> map_of xs ''b'' = None"
proof -
  let ?T = "bytes_ops KEYID_ACCOUNT"
  let ?c = "DbCache ((empty_node True)\<lparr>mapData := sm_set ''ax'' ''2'' (sm_set ''b'' ''1'' sm_empty)\<rparr>)"
  let ?p = "\<lparr>last_key = ''a'', matches = prefix ''a''\<rparr>"
  obtain it where it: "it_ok ?T (empty_db DB_ACCOUNT) ?c it"
    using Create_ok [OF iter_hyps_bytes [of DB_ACCOUNT], of ?c] by auto
  have "matcher_ok ?T ?p"
    using prefix_interval [of "''a''" "''a''"]
    by (auto simp: matcher_ok_def prefix_def le_append_self [of "''a''", simplified] dest: prefix_interval)
  from iterate_prefix [OF iter_hyps_bytes _ it this] obtain it' xs where
    "Prefix_First ?T ?c ?p it = Some it'"
    "collect (v_Next (vt_of ?T ?c)) (Prefix_item ?p) it' = Some xs"
    "map_of xs = (\<lambda>k. if prefix ''a'' k then shown ?T (raw ?T (empty_db DB_ACCOUNT) ?c) k else None)"
    by auto
  then show ?thesis
    by (intro exI [of _ it] exI [of _ it'] exI [of _ xs]) (simp add: shown_def)
qed

end
