(* ===== verification/Sample_Codec.thy ===== *)
theory Sample_Codec
  imports Db_Util Simple_Cache Db_Iterate
begin

text \<open>
  Serialisation of the stored types is code of other modules, so the caches take it as an
  argument with a round trip as its hypothesis.  This theory has one serialisation, in
  unary, that meets the hypothesis for numbers, strings, pairs, lists, options and maps; the
  examples of the class theories use it to run operations on concrete states.
\<close>

record 'a coder =
  enc :: "'a \<Rightarrow> string"
  dec :: "string \<Rightarrow> 'a option"

definition coder_ok :: "'a coder \<Rightarrow> bool" where
  "coder_ok c \<longleftrightarrow> (\<forall>x. dec c (enc c x) = Some x)"

lemma coder_okD [simp]: "coder_ok c \<Longrightarrow> dec c (enc c x) = Some x"
  by (simp add: coder_ok_def)

definition unary :: "nat \<Rightarrow> string" where
  "unary n = replicate n (CHR ''1'') @ ''0''"

definition un_unary :: "string \<Rightarrow> nat \<times> string" where
  "un_unary s = (let n = length (takeWhile ((=) (CHR ''1'')) s) in (n, drop (Suc n) s))"

lemma un_unary [simp]: "un_unary (unary n @ r) = (n, r)"
proof -
  have "takeWhile ((=) (CHR ''1'')) (replicate n (CHR ''1'') @ CHR ''0'' # r) = replicate n (CHR ''1'')"
    by (induction n) auto
  then show ?thesis
    by (simp add: un_unary_def unary_def Let_def)
qed

lemma un_unary_end [simp]: "un_unary (unary n) = (n, [])"
  using un_unary [of n "[]"] by simp

definition frame :: "string \<Rightarrow> string" where
  "frame s = unary (length s) @ s"

definition unframe :: "string \<Rightarrow> string \<times> string" where
  "unframe s = (let (n, r) = un_unary s in (take n r, drop n r))"

lemma unframe [simp]: "unframe (frame s @ r) = (s, r)"
  by (simp add: unframe_def frame_def)

definition nat_c :: "nat coder" where
  "nat_c = \<lparr>enc = unary, dec = (\<lambda>s. Some (fst (un_unary s)))\<rparr>"

definition word_c :: "('n::len word) coder" where
  "word_c = \<lparr>enc = (\<lambda>w. unary (unat w)), dec = (\<lambda>s. Some (of_nat (fst (un_unary s))))\<rparr>"

definition int_c :: "int coder" where
  "int_c = \<lparr>enc = (\<lambda>i. (if i < 0 then CHR ''-'' else CHR ''+'') # unary (nat \<bar>i\<bar>)),
     dec = (\<lambda>s. case s of [] \<Rightarrow> None
       | c # r \<Rightarrow> let n = int (fst (un_unary r)) in Some (if c = CHR ''-'' then - n else n))\<rparr>"

definition string_c :: "string coder" where
  "string_c = \<lparr>enc = (\<lambda>s. s), dec = Some\<rparr>"

definition unit_c :: "unit coder" where
  "unit_c = \<lparr>enc = (\<lambda>_. []), dec = (\<lambda>_. Some ())\<rparr>"

definition bool_c :: "bool coder" where
  "bool_c = \<lparr>enc = (\<lambda>b. if b then ''1'' else ''0''), dec = (\<lambda>s. Some (s = ''1''))\<rparr>"

definition pair_c :: "'a coder \<Rightarrow> 'b coder \<Rightarrow> ('a \<times> 'b) coder" where
  "pair_c A B = \<lparr>enc = (\<lambda>(a, b). frame (enc A a) @ enc B b),
     dec = (\<lambda>s. let (x, y) = unframe s in
        case dec A x of None \<Rightarrow> None
        | Some a \<Rightarrow> (case dec B y of None \<Rightarrow> None | Some b \<Rightarrow> Some (a, b)))\<rparr>"

definition option_c :: "'a coder \<Rightarrow> 'a option coder" where
  "option_c A = \<lparr>enc = (\<lambda>v. case v of None \<Rightarrow> [] | Some x \<Rightarrow> CHR ''1'' # enc A x),
     dec = (\<lambda>s. case s of [] \<Rightarrow> Some None | _ # r \<Rightarrow> map_option Some (dec A r))\<rparr>"

primrec dec_n :: "'a coder \<Rightarrow> nat \<Rightarrow> string \<Rightarrow> 'a list option" where
  "dec_n A 0 s = Some []"
| "dec_n A (Suc n) s =
     (let (x, r) = unframe s in
        case dec A x of None \<Rightarrow> None
        | Some a \<Rightarrow> (case dec_n A n r of None \<Rightarrow> None | Some as \<Rightarrow> Some (a # as)))"

definition list_c :: "'a coder \<Rightarrow> 'a list coder" where
  "list_c A = \<lparr>enc = (\<lambda>xs. unary (length xs) @ concat (map (\<lambda>x. frame (enc A x)) xs)),
     dec = (\<lambda>s. let (n, r) = un_unary s in dec_n A n r)\<rparr>"

definition map_c :: "'k::linorder coder \<Rightarrow> 'v coder \<Rightarrow> ('k, 'v) std_map coder" where
  "map_c K V = \<lparr>enc = (\<lambda>m. enc (list_c (pair_c K V)) (sm_items m)),
     dec = (\<lambda>s. map_option sm_of (dec (list_c (pair_c K V)) s))\<rparr>"

lemma base_coders [simp]:
  "coder_ok nat_c" "coder_ok (word_c :: ('n::len word) coder)" "coder_ok int_c"
  "coder_ok string_c" "coder_ok unit_c" "coder_ok bool_c"
  by (auto simp: coder_ok_def nat_c_def word_c_def int_c_def string_c_def unit_c_def bool_c_def Let_def)

lemma coder_pair [simp]: "coder_ok A \<Longrightarrow> coder_ok B \<Longrightarrow> coder_ok (pair_c A B)"
  by (auto simp: coder_ok_def pair_c_def)

lemma coder_option [simp]: "coder_ok A \<Longrightarrow> coder_ok (option_c A)"
  by (auto simp: coder_ok_def option_c_def split: option.split)

lemma dec_n_enc:
  "coder_ok A \<Longrightarrow> dec_n A (length xs) (concat (map (\<lambda>x. frame (enc A x)) xs)) = Some xs"
  by (induction xs) auto

lemma coder_list [simp]: "coder_ok A \<Longrightarrow> coder_ok (list_c A)"
  by (simp add: coder_ok_def list_c_def dec_n_enc [unfolded coder_ok_def])

lemma coder_map [simp]:
  assumes "coder_ok K" and "coder_ok V"
  shows "coder_ok (map_c K V)"
proof -
  have "sm_of (sm_items m) = m" for m :: "('a, 'b) std_map"
    by (rule std_map_eqI) simp
  moreover have "coder_ok (list_c (pair_c K V))"
    using assms by simp
  ultimately show ?thesis
    unfolding coder_ok_def map_c_def by simp
qed

text \<open>A record is serialised as the tuple of its members.\<close>

definition iso_c :: "('a \<Rightarrow> 'b) \<Rightarrow> ('b \<Rightarrow> 'a) \<Rightarrow> 'b coder \<Rightarrow> 'a coder" where
  "iso_c f g B = \<lparr>enc = (\<lambda>x. enc B (f x)), dec = (\<lambda>s. map_option g (dec B s))\<rparr>"

lemma coder_iso [simp]: "coder_ok B \<Longrightarrow> (\<And>x. g (f x) = x) \<Longrightarrow> coder_ok (iso_c f g B)"
  unfolding coder_ok_def iso_c_def by simp

text \<open>A type of another module whose only empty value is \<open>e\<close>.\<close>

definition plain_db :: "'a \<Rightarrow> 'a db_type" where
  "plain_db e = \<lparr>IsEmpty = (\<lambda>v. v = e), SetEmpty = (\<lambda>_. e), ToString = (\<lambda>_. [])\<rparr>"

text \<open>
  Codecs that keep the order, as the iterators need for keys: the unary code is prefix free
  and ordered, so a number may stand before anything else.
\<close>

definition mono_coder :: "'a::linorder coder \<Rightarrow> bool" where
  "mono_coder c \<longleftrightarrow> (\<forall>a b. a < b \<longrightarrow> enc c a < enc c b)"

definition word_pair_c :: "'b coder \<Rightarrow> ('n::len word \<times> 'b) coder" where
  "word_pair_c B = \<lparr>enc = (\<lambda>(w, b). unary (unat w) @ enc B b),
     dec = (\<lambda>s. let (n, r) = un_unary s in
        case dec B r of None \<Rightarrow> None | Some b \<Rightarrow> Some (of_nat n, b))\<rparr>"

lemma coder_word_pair [simp]: "coder_ok B \<Longrightarrow> coder_ok (word_pair_c B)"
  by (auto simp: coder_ok_def word_pair_c_def Let_def)

lemma unary_less: "m < n \<Longrightarrow> unary m @ r < unary n @ s"
proof (induction m arbitrary: n)
  case 0
  then obtain k where "n = Suc k" by (cases n) auto
  then show ?case by (simp add: unary_def less_char_def)
next
  case (Suc m)
  then obtain k where "n = Suc k" "m < k" by (cases n) auto
  with Suc.IH [of k] show ?case by (simp add: unary_def)
qed

lemma mono_coders [simp]:
  "mono_coder string_c" "mono_coder (word_c :: ('n::len word) coder)"
  "mono_coder B \<Longrightarrow> mono_coder (word_pair_c B :: ('n::len word \<times> 'b::linorder) coder)"
  using unary_less [of _ _ "[]" "[]"]
  by (auto simp: mono_coder_def string_c_def word_c_def word_pair_c_def less_prod_def le_less
      word_less_nat_alt unary_less list_less_append)

definition sample_ops ::
  "PrefixType \<Rightarrow> 'k db_type \<Rightarrow> 'v db_type \<Rightarrow> 'v \<Rightarrow> 'k coder \<Rightarrow> 'v coder \<Rightarrow> ('k, 'v) kvops" where
  "sample_ops p K V dflt kc vc = cache_ops p K V dflt
     \<lparr>enc_key = enc kc, dec_key = dec kc, enc_val = enc vc, dec_val = dec vc\<rparr>"

lemma sample_ops_simps [simp]:
  "prefix_type (sample_ops p K V dflt kc vc) = p"
  "key_empty (sample_ops p K V dflt kc vc) = IsEmpty K"
  "val_empty (sample_ops p K V dflt kc vc) = IsEmpty V"
  "empty_val (sample_ops p K V dflt kc vc) = SetEmpty V dflt"
  "set_empty (sample_ops p K V dflt kc vc) = SetEmpty V"
  by (simp_all add: sample_ops_def cache_ops_def MakeEmptyValue_def)

lemma sample_access_ok:
  assumes "is_data_prefix p" and "lawful V" and "coder_ok kc" and "coder_ok vc"
  shows "access_ok (sample_ops p K V dflt kc vc) (empty_db t)"
  using assms
  by (simp add: access_ok_def kv_wf_def sample_ops_def cache_ops_def MakeEmptyValue_def lawful_def
      empty_db_def ldb_healthy_def)

lemma sample_iter_hyps:
  assumes "is_data_prefix p" and "lawful V" and "coder_ok kc" and "coder_ok vc" and "mono_coder kc"
  shows "iter_hyps (sample_ops p K V dflt kc vc) (empty_db t)"
  using sample_access_ok [OF assms(1-4)] assms(5)
  by (simp add: iter_hyps_def ser_mono_def db_parses_def mono_coder_def sample_ops_def cache_ops_def)

lemma sample_simple_ok:
  assumes "is_data_prefix p" and "lawful V" and "coder_ok vc"
  shows "simple_ok (sample_ops p K V dflt unit_c vc) (empty_db t)"
  using sample_access_ok [OF assms(1,2) _ assms(3), of unit_c K dflt t]
  by (simp add: simple_ok_def sdb_val_def)

text \<open>The emptiness tests of the dictionaries.\<close>

lemma IsEmpty_simps [simp]:
  "IsEmpty uint_db w = (w = 0)" "IsEmpty string_db s = (s = [])" "IsEmpty bool_db b = (\<not> b)"
  "IsEmpty (vector_db A) xs = (xs = [])" "IsEmpty (map_db K V) m = (m = sm_empty)"
  "IsEmpty (set_db A) m' = (m' = sm_empty)" "IsEmpty (optional_db A) x = (x = None)"
  "IsEmpty (pair_db A B) p = (IsEmpty A (fst p) \<and> IsEmpty B (snd p))" "IsEmpty (plain_db e) y = (y = e)"
  by (simp_all add: plain_db_def db_type_defs split: prod.split)

lemma lawful_simps [simp]:
  "lawful (uint_db :: ('n::len word) db_type)" "lawful string_db" "lawful bool_db" "lawful (vector_db A)"
  "lawful (map_db K V)" "lawful (set_db A')" "lawful (optional_db A)"
  "lawful A \<Longrightarrow> lawful B \<Longrightarrow> lawful (pair_db A B)" "lawful (plain_db e)"
  by (auto simp: lawful_def plain_db_def db_type_defs)

end
