(* ===== verification/Db_Class.thy ===== *)
theory Db_Class
  imports Sample_Codec Db_Iterate "HOL-Library.Option_ord"
begin

text \<open>
  The vocabulary of the database classes.  A class is a record of caches; its operations
  call them one after the other.  A \<open>table\<close> names one composite cache of a class: how it
  is read from and written to the record, its template arguments and its database; a
  \<open>cell\<close> names one simple cache.  The state of an operation is the record together with the
  log that \<open>pDbOpLogMap\<close> points to.  The calls \<open>C_GetData\<close>, ... are the member functions of
  the cache on that state; \<open>lookup\<close> is what the cache shows.  With these, an operation of a
  class reads as its code does, and what it returns and shows follows by simplification.
\<close>

text \<open>A state is a pair, but quantifiers over states are left whole.\<close>

declare split_paired_Ex [simp del] split_paired_All [simp del]

type_synonym 's dbstate = "'s \<times> CDBOpLogMap option"

record ('s, 'k, 'v) table =
  tget :: "'s \<Rightarrow> ('k::linorder, 'v) kvcache"
  tput :: "('k::linorder, 'v) kvcache \<Rightarrow> 's \<Rightarrow> 's"
  tops :: "('k, 'v) kvops"
  tdb :: CDBAccess

record ('s, 'v) cell =
  cget :: "'s \<Rightarrow> 'v simple_cache"
  cput :: "'v simple_cache \<Rightarrow> 's \<Rightarrow> 's"
  cops :: "(unit, 'v) kvops"
  cdb :: CDBAccess

section \<open>Calls\<close>

definition C_GetData :: "('s, 'k::linorder, 'v) table \<Rightarrow> 'k \<Rightarrow> 's dbstate \<Rightarrow> ('s dbstate \<times> 'v option) option" where
  "C_GetData t k s =
     do { (c, r) \<leftarrow> GetData (tops t) (tdb t) k (tget t (fst s)); Some ((tput t c (fst s), snd s), r) }"

definition C_HasData :: "('s, 'k::linorder, 'v) table \<Rightarrow> 'k \<Rightarrow> 's dbstate \<Rightarrow> ('s dbstate \<times> bool) option" where
  "C_HasData t k s =
     do { (c, r) \<leftarrow> HasData (tops t) (tdb t) k (tget t (fst s)); Some ((tput t c (fst s), snd s), r) }"

definition C_SetData :: "('s, 'k::linorder, 'v) table \<Rightarrow> 'k \<Rightarrow> 'v \<Rightarrow> 's dbstate \<Rightarrow> ('s dbstate \<times> bool) option" where
  "C_SetData t k v s =
     do { (r, c, lg) \<leftarrow> SetData (tops t) (tdb t) k v (tget t (fst s)) (snd s);
          Some ((tput t c (fst s), lg), r) }"

definition C_EraseData :: "('s, 'k::linorder, 'v) table \<Rightarrow> 'k \<Rightarrow> 's dbstate \<Rightarrow> ('s dbstate \<times> bool) option" where
  "C_EraseData t k s =
     do { (r, c, lg) \<leftarrow> EraseData (tops t) (tdb t) k (tget t (fst s)) (snd s);
          Some ((tput t c (fst s), lg), r) }"

definition S_GetData :: "('s, 'v) cell \<Rightarrow> 's dbstate \<Rightarrow> ('s dbstate \<times> 'v option) option" where
  "S_GetData t s =
     do { (c, r) \<leftarrow> Simple_GetData (cops t) (cdb t) (cget t (fst s)); Some ((cput t c (fst s), snd s), r) }"

definition S_SetData :: "('s, 'v) cell \<Rightarrow> 'v \<Rightarrow> 's dbstate \<Rightarrow> ('s dbstate \<times> bool) option" where
  "S_SetData t v s =
     do { (r, c, lg) \<leftarrow> Simple_SetData (cops t) (cdb t) v (cget t (fst s)) (snd s);
          Some ((cput t c (fst s), lg), r) }"

definition S_EraseData :: "('s, 'v) cell \<Rightarrow> 's dbstate \<Rightarrow> ('s dbstate \<times> bool) option" where
  "S_EraseData t s =
     do { (r, c, lg) \<leftarrow> Simple_EraseData (cops t) (cdb t) (cget t (fst s)) (snd s);
          Some ((cput t c (fst s), lg), r) }"

text \<open>The loop over a \<open>CDbIterator\<close>, and over a \<open>CDBPrefixIterator\<close>: what it visits.\<close>

definition C_items :: "('s, 'k::linorder, 'v) table \<Rightarrow> 's dbstate \<Rightarrow> ('k \<times> 'v) list option" where
  "C_items t s =
     do { it \<leftarrow> Create (tdb t) (tget t (fst s));
          it \<leftarrow> v_First (vt_of (tops t) (tget t (fst s))) it;
          collect (v_Next (vt_of (tops t) (tget t (fst s)))) it_item it }"

definition C_prefix_items ::
  "('s, 'k::linorder, 'v) table \<Rightarrow> 'k prefix_matcher \<Rightarrow> 's dbstate \<Rightarrow> ('k \<times> 'v) list option" where
  "C_prefix_items t p s =
     do { it \<leftarrow> Create (tdb t) (tget t (fst s));
          it \<leftarrow> Prefix_First (tops t) (tget t (fst s)) p it;
          collect (v_Next (vt_of (tops t) (tget t (fst s)))) (Prefix_item p) it }"

section \<open>What a class sees\<close>

definition lookup :: "('s, 'k::linorder, 'v) table \<Rightarrow> 's dbstate \<Rightarrow> 'k \<Rightarrow> 'v option" where
  "lookup t s = view (tops t) (tdb t) (tget t (fst s))"

definition peek :: "('s, 'v) cell \<Rightarrow> 's dbstate \<Rightarrow> 'v option" where
  "peek t s = sview (cops t) (cdb t) (cget t (fst s))"

text \<open>\<open>indep g p\<close>: writing with \<open>p\<close> does not change what \<open>g\<close> reads.\<close>

definition indep :: "('s \<Rightarrow> 'a) \<Rightarrow> ('b \<Rightarrow> 's \<Rightarrow> 's) \<Rightarrow> bool" where
  "indep g p \<longleftrightarrow> (\<forall>x s. g (p x s) = g s)"

definition table_ok :: "('s, 'k::linorder, 'v) table \<Rightarrow> bool" where
  "table_ok t \<longleftrightarrow> access_ok (tops t) (tdb t) \<and> (\<forall>c s. tget t (tput t c s) = c)"

definition cell_ok :: "('s, 'v) cell \<Rightarrow> bool" where
  "cell_ok t \<longleftrightarrow> simple_ok (cops t) (cdb t) \<and> (\<forall>c s. cget t (cput t c s) = c)"

text \<open>The states after the calls.\<close>

definition after_get :: "('s, 'k::linorder, 'v) table \<Rightarrow> 'k \<Rightarrow> 's dbstate \<Rightarrow> 's dbstate" where
  "after_get t k s = fst (the (C_GetData t k s))"

definition after_set :: "('s, 'k::linorder, 'v) table \<Rightarrow> 'k \<Rightarrow> 'v \<Rightarrow> 's dbstate \<Rightarrow> 's dbstate" where
  "after_set t k v s = fst (the (C_SetData t k v s))"

definition after_erase :: "('s, 'k::linorder, 'v) table \<Rightarrow> 'k \<Rightarrow> 's dbstate \<Rightarrow> 's dbstate" where
  "after_erase t k s = fst (the (C_EraseData t k s))"

definition after_sget :: "('s, 'v) cell \<Rightarrow> 's dbstate \<Rightarrow> 's dbstate" where
  "after_sget t s = fst (the (S_GetData t s))"

definition after_sset :: "('s, 'v) cell \<Rightarrow> 'v \<Rightarrow> 's dbstate \<Rightarrow> 's dbstate" where
  "after_sset t v s = fst (the (S_SetData t v s))"

definition after_serase :: "('s, 'v) cell \<Rightarrow> 's dbstate \<Rightarrow> 's dbstate" where
  "after_serase t s = fst (the (S_EraseData t s))"

lemmas call_defs = C_GetData_def C_HasData_def C_SetData_def C_EraseData_def
  S_GetData_def S_SetData_def S_EraseData_def

lemmas after_defs = after_get_def after_set_def after_erase_def
  after_sget_def after_sset_def after_serase_def

subsection \<open>Composite tables\<close>

lemma C_GetData_eq [simp]:
  assumes "table_ok t"
  shows "C_GetData t k s = Some (after_get t k s, lookup t s k)"
    "C_HasData t k s = Some (after_get t k s, lookup t s k \<noteq> None)"
  using assms by (simp_all add: table_ok_def call_defs after_get_def lookup_def GetData_eq HasData_eq)

lemma C_SetData_eq [simp]:
  assumes "table_ok t"
  shows "C_SetData t k v s = Some (after_set t k v s, \<not> key_empty (tops t) k)"
  using assms by (cases "key_empty (tops t) k") (simp_all add: table_ok_def call_defs after_set_def SetData_eq)

lemma C_EraseData_eq [simp]:
  assumes "table_ok t"
  shows "C_EraseData t k s = Some (after_erase t k s, \<not> key_empty (tops t) k)"
  using assms by (cases "key_empty (tops t) k") (simp_all add: table_ok_def call_defs after_erase_def EraseData_eq)

lemma lookup_after_get [simp]: "table_ok t \<Longrightarrow> lookup t (after_get t k s) = lookup t s"
  by (simp add: table_ok_def call_defs after_get_def lookup_def GetData_eq)

lemma lookup_after_set [simp]:
  assumes "table_ok t"
  shows "lookup t (after_set t k v s) =
    (if key_empty (tops t) k then lookup t s
     else (lookup t s)(k := (if val_empty (tops t) v then None else Some v)))"
  using assms by (simp add: table_ok_def call_defs after_set_def lookup_def SetData_eq)

lemma lookup_after_erase [simp]:
  assumes "table_ok t"
  shows "lookup t (after_erase t k s) = (lookup t s)(k := None)"
  using assms
  by (cases "key_empty (tops t) k")
    (simp_all add: table_ok_def call_defs after_erase_def lookup_def EraseData_eq view_empty_key fun_upd_idem)

lemma lookup_empty_key: "key_empty (tops t) k \<Longrightarrow> lookup t s k = None"
  by (simp add: lookup_def view_empty_key)

lemma lookup_not_empty: "lookup t s k = Some v \<Longrightarrow> \<not> key_empty (tops t) k \<and> \<not> val_empty (tops t) v"
  by (auto simp: lookup_def view_def visible_def split: if_splits option.splits)

subsection \<open>Simple cells\<close>

lemma S_GetData_eq [simp]: "cell_ok t \<Longrightarrow> S_GetData t s = Some (after_sget t s, peek t s)"
  using Simple_GetData_spec [of "cops t" "cdb t" "cget t (fst s)"]
  by (auto simp: cell_ok_def call_defs after_sget_def peek_def)

lemma peek_after_sget [simp]: "cell_ok t \<Longrightarrow> peek t (after_sget t s) = peek t s"
  using Simple_GetData_spec [of "cops t" "cdb t" "cget t (fst s)"]
  by (auto simp: cell_ok_def call_defs after_sget_def peek_def)

lemma S_SetData_eq [simp]: "cell_ok t \<Longrightarrow> S_SetData t v s = Some (after_sset t v s, True)"
  using Simple_SetData_spec [of "cops t" "cdb t" v "cget t (fst s)"]
  by (auto simp: cell_ok_def call_defs after_sset_def)

lemma peek_after_sset [simp]:
  "cell_ok t \<Longrightarrow> peek t (after_sset t v s) = (if val_empty (cops t) v then None else Some v)"
  using Simple_SetData_spec [of "cops t" "cdb t" v "cget t (fst s)"]
  by (auto simp: cell_ok_def call_defs after_sset_def peek_def nonempty_def)

lemma S_EraseData_eq [simp]: "cell_ok t \<Longrightarrow> S_EraseData t s = Some (after_serase t s, True)"
  using Simple_EraseData_spec [of "cops t" "cdb t" "cget t (fst s)"]
  by (auto simp: cell_ok_def call_defs after_serase_def)

lemma peek_after_serase [simp]: "cell_ok t \<Longrightarrow> peek t (after_serase t s) = None"
  using Simple_EraseData_spec [of "cops t" "cdb t" "cget t (fst s)"]
  by (auto simp: cell_ok_def call_defs after_serase_def peek_def)

lemma peek_not_empty: "peek t s = Some v \<Longrightarrow> \<not> val_empty (cops t) v"
  by (auto simp: peek_def sview_def nonempty_def split: option.splits if_splits)

subsection \<open>Frames\<close>

lemma indep_after [simp]:
  assumes "table_ok t" and "indep g (tput t)"
  shows "g (fst (after_get t k s)) = g (fst s)" "g (fst (after_set t k v s)) = g (fst s)"
    "g (fst (after_erase t k s)) = g (fst s)"
  using assms
  by (cases "key_empty (tops t) k";
      simp add: table_ok_def indep_def call_defs after_defs GetData_eq SetData_eq EraseData_eq)+

lemma indep_after_cell [simp]:
  assumes "cell_ok t" and "indep g (cput t)"
  shows "g (fst (after_sget t s)) = g (fst s)" "g (fst (after_sset t v s)) = g (fst s)"
    "g (fst (after_serase t s)) = g (fst s)"
  using assms Simple_GetData_spec [of "cops t" "cdb t" "cget t (fst s)"]
    Simple_SetData_spec [of "cops t" "cdb t" v "cget t (fst s)"]
    Simple_EraseData_spec [of "cops t" "cdb t" "cget t (fst s)"]
  by (auto simp: cell_ok_def indep_def call_defs after_defs)

lemma lookup_frame [simp]:
  assumes "table_ok t" and "indep (tget u) (tput t)"
  shows "lookup u (after_get t k s) = lookup u s" "lookup u (after_set t k v s) = lookup u s"
    "lookup u (after_erase t k s) = lookup u s"
  using assms by (simp_all add: lookup_def)

lemma lookup_frame_cell [simp]:
  assumes "cell_ok t" and "indep (tget u) (cput t)"
  shows "lookup u (after_sget t s) = lookup u s" "lookup u (after_sset t v s) = lookup u s"
    "lookup u (after_serase t s) = lookup u s"
  using assms by (simp_all add: lookup_def)

lemma peek_frame [simp]:
  assumes "table_ok t" and "indep (cget u) (tput t)"
  shows "peek u (after_get t k s) = peek u s" "peek u (after_set t k v s) = peek u s"
    "peek u (after_erase t k s) = peek u s"
  using assms by (simp_all add: peek_def)

lemma peek_frame_cell [simp]:
  assumes "cell_ok t" and "indep (cget u) (cput t)"
  shows "peek u (after_sget t s) = peek u s" "peek u (after_sset t v s) = peek u s"
    "peek u (after_serase t s) = peek u s"
  using assms by (simp_all add: peek_def)

subsection \<open>Loops over a table\<close>

text \<open>\<open>rows\<close> is what a loop visits: the entries shown, in key order.\<close>

definition rows :: "('s, 'k::linorder, 'v) table \<Rightarrow> 's dbstate \<Rightarrow> ('k \<times> 'v) list" where
  "rows t s = it_content (tops t) (tdb t) (tget t (fst s))"

definition iter_ok :: "('s, 'k::linorder, 'v) table \<Rightarrow> 's dbstate \<Rightarrow> bool" where
  "iter_ok t s \<longleftrightarrow> iter_hyps (tops t) (tdb t) \<and> has_db (tget t (fst s))"

lemma has_db_after [simp]:
  assumes "table_ok t"
  shows "has_db (tget t (fst (after_get t k s))) = has_db (tget t (fst s))"
    "has_db (tget t (fst (after_set t k v s))) = has_db (tget t (fst s))"
    "has_db (tget t (fst (after_erase t k s))) = has_db (tget t (fst s))"
  using assms
  by (cases "key_empty (tops t) k";
      simp add: table_ok_def call_defs after_defs GetData_eq SetData_eq EraseData_eq raw_del)+

lemma iter_ok_after [simp]:
  assumes "table_ok t"
  shows "iter_ok t (after_get t k s) = iter_ok t s" "iter_ok t (after_set t k v s) = iter_ok t s"
    "iter_ok t (after_erase t k s) = iter_ok t s"
  using assms by (simp_all add: iter_ok_def)

lemma iter_ok_frame [simp]:
  assumes "table_ok t" and "indep (tget u) (tput t)"
  shows "iter_ok u (after_get t k s) = iter_ok u s" "iter_ok u (after_set t k v s) = iter_ok u s"
    "iter_ok u (after_erase t k s) = iter_ok u s"
  using assms by (simp_all add: iter_ok_def)

text \<open>Empty keys are never written, so a table without them stays without them.\<close>

definition clean :: "('s, 'k::linorder, 'v) table \<Rightarrow> 's dbstate \<Rightarrow> bool" where
  "clean t s \<longleftrightarrow> (\<forall>k. key_empty (tops t) k \<longrightarrow> raw (tops t) (tdb t) (tget t (fst s)) k = None)"

lemma clean_after [simp]:
  assumes "table_ok t" and "clean t s"
  shows "clean t (after_get t k s)" "clean t (after_set t k v s)" "clean t (after_erase t k s)"
  using assms
  by (cases "key_empty (tops t) k";
      simp add: clean_def table_ok_def call_defs after_defs GetData_eq SetData_eq EraseData_eq raw_del; fastforce)+

lemma clean_frame [simp]:
  assumes "table_ok t" and "indep (tget u) (tput t)"
  shows "clean u (after_get t k s) = clean u s" "clean u (after_set t k v s) = clean u s"
    "clean u (after_erase t k s) = clean u s"
  using assms by (simp_all add: clean_def)

lemma C_items_eq [simp]:
  assumes "iter_ok t s"
  shows "C_items t s = Some (rows t s)"
proof -
  have h: "iter_hyps (tops t) (tdb t)" "has_db (tget t (fst s))"
    using assms by (auto simp: iter_ok_def)
  obtain it where it: "Create (tdb t) (tget t (fst s)) = Some it"
      "it_ok (tops t) (tdb t) (tget t (fst s)) it"
    using Create_ok [OF h] by blast
  from cache_iteration.enumerate [OF it(2)] it(1) show ?thesis
    by (auto simp: C_items_def rows_def)
qed

lemma rows_sorted:
  assumes "iter_ok t s"
  shows "sorted_keys (rows t s)" "\<not> key_empty (tops t) k \<Longrightarrow> map_of (rows t s) k = lookup t s k"
  using it_content_ok [of "tops t" "tdb t" "tget t (fst s)"] assms
  by (auto simp: iter_ok_def rows_def lookup_def view_shown)

lemma rows_set:
  assumes "iter_ok t s" and "\<not> key_empty (tops t) k"
  shows "(k, v) \<in> set (rows t s) \<longleftrightarrow> lookup t s k = Some v"
  using rows_sorted(2) [OF assms] sorted_keys_distinct [OF rows_sorted(1) [OF assms(1)]]
  by (metis map_of_eq_Some_iff)

lemma rows_lookup:
  assumes "iter_ok t s" and "clean t s"
  shows "map_of (rows t s) = lookup t s" "(k, v) \<in> set (rows t s) \<longleftrightarrow> lookup t s k = Some v"
proof -
  have m: "map_of (rows t s) = shown (tops t) (raw (tops t) (tdb t) (tget t (fst s)))"
    using it_content_ok [of "tops t" "tdb t" "tget t (fst s)"] assms(1) by (auto simp: iter_ok_def rows_def)
  show eq: "map_of (rows t s) = lookup t s"
  proof
    fix k
    show "map_of (rows t s) k = lookup t s k"
    proof (cases "key_empty (tops t) k")
      case True
      with assms(2) m show ?thesis
        by (simp add: clean_def shown_def lookup_empty_key)
    qed (use rows_sorted(2) [OF assms(1)] in simp)
  qed
  show "(k, v) \<in> set (rows t s) \<longleftrightarrow> lookup t s k = Some v"
    using eq sorted_keys_distinct [OF rows_sorted(1) [OF assms(1)]] by (metis map_of_eq_Some_iff)
qed

text \<open>A prefix loop that is continued after a matching key.\<close>

lemma takeWhile_convex:
  assumes "sorted_keys xs" and "\<And>x y. x \<in> set xs \<Longrightarrow> y \<in> set xs \<Longrightarrow> fst x \<le> fst y \<Longrightarrow> P (fst y) \<Longrightarrow> P (fst x)"
  shows "takeWhile (\<lambda>x. P (fst x)) xs = filter (\<lambda>x. P (fst x)) xs"
  using assms
proof (induction xs)
  case (Cons e xs)
  have IH: "takeWhile (\<lambda>x. P (fst x)) xs = filter (\<lambda>x. P (fst x)) xs"
    using Cons.prems by (intro Cons.IH) (cases e, auto simp: sorted_keys_Cons)
  show ?case
  proof (cases "P (fst e)")
    case False
    have "\<not> P (fst f)" if "f \<in> set xs" for f
    proof -
      have "fst e \<le> fst f"
        using Cons.prems(1) that by (cases e) (auto simp: sorted_keys_Cons intro: less_imp_le)
      with Cons.prems(2) [of e f] that False show ?thesis by auto
    qed
    with False show ?thesis by (simp add: filter_empty_conv)
  qed (simp add: IH)
qed simp

lemma prefix_upper_loop:
  assumes "iter_ok t s" and "it_ok (tops t) (tdb t) (tget t (fst s)) it" and "matcher_ok (tops t) p"
    and "matches p k" and "\<not> key_empty (tops t) k"
  shows "\<exists>it'. v_SeekUpper (vt_of (tops t) (tget t (fst s))) (Some k) it = Some it' \<and>
    it_ok (tops t) (tdb t) (tget t (fst s)) it' \<and>
    collect (v_Next (vt_of (tops t) (tget t (fst s)))) (Prefix_item p) it' =
      Some (filter (\<lambda>x. k < fst x \<and> matches p (fst x)) (rows t s))"
proof -
  let ?T = "tops t" and ?d = "tdb t" and ?c = "tget t (fst s)"
  obtain i where i: "v_SeekUpper (vt_of ?T ?c) (Some k) it = Some i" "it_ok ?T ?d ?c i"
      "it_ahead ?T i = filter (\<lambda>x. k < fst x) (rows t s)"
    using cache_iteration.upper_law [OF assms(2), of "Some k"] assms(5) by (auto simp: after_key_def rows_def)
  have "matches p (fst x)" if "x \<in> set (it_ahead ?T i)" "fst x \<le> fst y" "matches p (fst y)" for x y
  proof -
    have "last_key p \<le> k" and convex: "\<And>a b. last_key p \<le> a \<Longrightarrow> a \<le> b \<Longrightarrow> matches p b \<Longrightarrow> matches p a"
      using assms(3,4) unfolding matcher_ok_def by blast+
    moreover have "k \<le> fst x"
      using that(1) i(3) by auto
    ultimately show ?thesis
      using that(2,3) by (meson order_trans)
  qed
  moreover have "sorted_keys (it_ahead ?T i)"
    using rows_sorted(1) [OF assms(1)] by (simp add: i(3) sorted_keys_filter)
  ultimately have "takeWhile (\<lambda>x. matches p (fst x)) (it_ahead ?T i) = filter (\<lambda>x. matches p (fst x)) (it_ahead ?T i)"
    by (intro takeWhile_convex) blast+
  moreover have "collect (v_Next (vt_of ?T ?c)) (Prefix_item p) i = Some (takeWhile (\<lambda>x. matches p (fst x)) (it_ahead ?T i))"
    using i(2) by (rule cache_iteration.collect_while [rotated]) (auto simp: Prefix_item_def split: option.split)
  moreover have "filter (\<lambda>x. matches p (fst x)) (it_ahead ?T i) = filter (\<lambda>x. k < fst x \<and> matches p (fst x)) (rows t s)"
    by (simp add: i(3) conj_commute)
  ultimately show ?thesis
    using i(1,2) by simp
qed

lemma prefix_first_loop:
  assumes "iter_ok t s" and "it_ok (tops t) (tdb t) (tget t (fst s)) it" and "matcher_ok (tops t) p"
  shows "\<exists>it'. Prefix_First (tops t) (tget t (fst s)) p it = Some it' \<and>
    collect (v_Next (vt_of (tops t) (tget t (fst s)))) (Prefix_item p) it' =
      Some (filter (\<lambda>x. matches p (fst x)) (rows t s))"
proof -
  have h: "iter_hyps (tops t) (tdb t)" "has_db (tget t (fst s))"
    using assms by (auto simp: iter_ok_def)
  obtain it' xs where it': "Prefix_First (tops t) (tget t (fst s)) p it = Some it'"
    "collect (v_Next (vt_of (tops t) (tget t (fst s)))) (Prefix_item p) it' = Some xs"
    "sorted_keys xs" "map_of xs = (\<lambda>k. if matches p k
       then shown (tops t) (raw (tops t) (tdb t) (tget t (fst s))) k else None)"
    using prefix_loop [OF h assms(2,3)] by blast
  have c: "sorted_keys (rows t s)"
      "map_of (rows t s) = shown (tops t) (raw (tops t) (tdb t) (tget t (fst s)))"
    using it_content_ok [OF h] by (simp_all add: rows_def)
  have "xs = filter (\<lambda>x. matches p (fst x)) (rows t s)"
    using it'(3,4) c by (intro sorted_keys_map_of_eq) (auto simp: sorted_keys_filter map_of_filter_key)
  with it' show ?thesis by blast
qed

lemma iter_created:
  assumes "iter_ok t s"
  shows "\<exists>it. Create (tdb t) (tget t (fst s)) = Some it \<and> it_ok (tops t) (tdb t) (tget t (fst s)) it"
  using Create_ok [of "tops t" "tdb t" "tget t (fst s)"] assms by (auto simp: iter_ok_def)

lemma C_prefix_items_eq:
  assumes "iter_ok t s" and "matcher_ok (tops t) p"
  shows "C_prefix_items t p s = Some (filter (\<lambda>x. matches p (fst x)) (rows t s))"
proof -
  obtain it where it: "Create (tdb t) (tget t (fst s)) = Some it" "it_ok (tops t) (tdb t) (tget t (fst s)) it"
    using iter_created [OF assms(1)] by blast
  with prefix_first_loop [OF assms(1) it(2) assms(2)] show ?thesis
    by (auto simp: C_prefix_items_def)
qed

end
