(* ===== verification/Sys_Param.thy ===== *)
theory Sys_Param
  imports Db_Class
begin

text \<open>
  \<open>InerySysParamDBCache\<close> of \<open>sysparamdb.h\<close>: the system parameters, the fees of the block
  producers, the collateral parameters with the history of the interest parameters, and the
  number of block producers.  The tables of known parameters, the configuration and the
  register identifiers are code of other modules: they are arguments, in the record
  \<open>sys_param_env\<close>.  Heights are \<open>int\<close>, as \<open>int32_t\<close> values; the only arithmetic on them is the
  predecessor of a height at which a change begins.
\<close>

section \<open>State\<close>

record IneryCdpInterestParams =
  cip_a :: uint64
  cip_b :: uint64

type_synonym IneryCdpInterestParamChangeMap = "(int, IneryCdpInterestParams) std_map"

record IneryCdpInterestParamChange =
  begin_height :: int
  end_height :: int
  param_a :: uint64
  param_b :: uint64

text \<open>\<open>ToString\<close> prints the first parameter under both labels.\<close>

definition CdpInterestParams_ToString :: "IneryCdpInterestParams \<Rightarrow> string" where
  "CdpInterestParams_ToString p =
     ''param_a='' @ nat_to_string (unat (cip_a p)) @ '', '' @ ''param_a='' @ nat_to_string (unat (cip_a p))"

record 'cp sys_param_db =
  sys_param_chache :: "(uint8, uint64) kvcache"
  producer_fee_cache :: "(uint8 \<times> string, uint64) kvcache"
  cdp_param_cache :: "('cp::linorder \<times> uint8, uint64) kvcache"
  cdp_interest_param_changes_cache :: "('cp, IneryCdpInterestParamChangeMap) kvcache"
  current_total_bps_size_cache :: "uint8 simple_cache"
  new_total_bps_size_cache :: "(uint32 \<times> uint8) simple_cache"

record ('cp, 'regid) sys_param_env =
  sp_db :: CDBAccess
  sp_param_ops :: "(uint8, uint64) kvops"
  sp_fee_ops :: "(uint8 \<times> string, uint64) kvops"
  sp_cdp_ops :: "('cp \<times> uint8, uint64) kvops"
  sp_changes_ops :: "('cp, IneryCdpInterestParamChangeMap) kvops"
  sp_bps_ops :: "(unit, uint8) kvops"
  sp_new_bps_ops :: "(unit, uint32 \<times> uint8) kvops"
  kSysParamTable :: "uint8 \<Rightarrow> uint64 option"
  kCdpParamTable :: "uint8 \<Rightarrow> uint64 option"
  GetCdpParamDefaultValue :: "uint8 \<Rightarrow> uint64"
  CDP_INTEREST_PARAM_A :: uint8
  CDP_INTEREST_PARAM_B :: uint8
  AXC_SWAP_GATEWAY_REGID :: uint8
  DEX_MATCH_SVC_REGID :: uint8
  TotalDelegateNum :: uint8
  RegID_of_param :: "uint64 \<Rightarrow> 'regid"
  RegID_default :: 'regid
  RegID_IsEmpty :: "'regid \<Rightarrow> bool"
  SysCfg_DexMatchSvcRegId :: 'regid

definition sys_param_t :: "('cp::linorder, 'r) sys_param_env \<Rightarrow> ('cp sys_param_db, uint8, uint64) table" where
  "sys_param_t E = \<lparr>tget = sys_param_chache, tput = (\<lambda>c. sys_param_chache_update (\<lambda>_. c)),
     tops = sp_param_ops E, tdb = sp_db E\<rparr>"

definition fee_t :: "('cp::linorder, 'r) sys_param_env \<Rightarrow> ('cp sys_param_db, uint8 \<times> string, uint64) table" where
  "fee_t E = \<lparr>tget = producer_fee_cache, tput = (\<lambda>c. producer_fee_cache_update (\<lambda>_. c)),
     tops = sp_fee_ops E, tdb = sp_db E\<rparr>"

definition cdp_param_t :: "('cp::linorder, 'r) sys_param_env \<Rightarrow> ('cp sys_param_db, 'cp \<times> uint8, uint64) table" where
  "cdp_param_t E = \<lparr>tget = cdp_param_cache, tput = (\<lambda>c. cdp_param_cache_update (\<lambda>_. c)),
     tops = sp_cdp_ops E, tdb = sp_db E\<rparr>"

definition changes_t ::
  "('cp::linorder, 'r) sys_param_env \<Rightarrow> ('cp sys_param_db, 'cp, IneryCdpInterestParamChangeMap) table" where
  "changes_t E = \<lparr>tget = cdp_interest_param_changes_cache,
     tput = (\<lambda>c. cdp_interest_param_changes_cache_update (\<lambda>_. c)), tops = sp_changes_ops E, tdb = sp_db E\<rparr>"

definition bps_t :: "('cp::linorder, 'r) sys_param_env \<Rightarrow> ('cp sys_param_db, uint8) cell" where
  "bps_t E = \<lparr>cget = current_total_bps_size_cache, cput = (\<lambda>c. current_total_bps_size_cache_update (\<lambda>_. c)),
     cops = sp_bps_ops E, cdb = sp_db E\<rparr>"

definition new_bps_t :: "('cp::linorder, 'r) sys_param_env \<Rightarrow> ('cp sys_param_db, uint32 \<times> uint8) cell" where
  "new_bps_t E = \<lparr>cget = new_total_bps_size_cache, cput = (\<lambda>c. new_total_bps_size_cache_update (\<lambda>_. c)),
     cops = sp_new_bps_ops E, cdb = sp_db E\<rparr>"

section \<open>Operations\<close>

definition GetParam ::
  "('cp::linorder, 'r) sys_param_env \<Rightarrow> uint8 \<Rightarrow> 'cp sys_param_db dbstate \<Rightarrow>
     ('cp sys_param_db dbstate \<times> uint64 option) option" where
  "GetParam E paramType s =
     (case kSysParamTable E paramType of
        None \<Rightarrow> Some (s, None)
      | Some dflt \<Rightarrow>
          do { (s, r) \<leftarrow> C_GetData (sys_param_t E) paramType s;
               Some (s, Some (case r of None \<Rightarrow> dflt | Some v \<Rightarrow> v)) })"

definition GetCdpParam ::
  "('cp::linorder, 'r) sys_param_env \<Rightarrow> 'cp \<Rightarrow> uint8 \<Rightarrow> 'cp sys_param_db dbstate \<Rightarrow>
     ('cp sys_param_db dbstate \<times> uint64 option) option" where
  "GetCdpParam E coinPair paramType s =
     (case kCdpParamTable E paramType of
        None \<Rightarrow> Some (s, None)
      | Some dflt \<Rightarrow>
          do { (s, r) \<leftarrow> C_GetData (cdp_param_t E) (coinPair, paramType) s;
               Some (s, Some (case r of None \<Rightarrow> dflt | Some v \<Rightarrow> v)) })"

definition SetParam ::
  "('cp::linorder, 'r) sys_param_env \<Rightarrow> uint8 \<Rightarrow> uint64 \<Rightarrow> 'cp sys_param_db dbstate \<Rightarrow>
     ('cp sys_param_db dbstate \<times> bool) option" where
  "SetParam E key v s = C_SetData (sys_param_t E) key v s"

definition SetCdpParam ::
  "('cp::linorder, 'r) sys_param_env \<Rightarrow> 'cp \<Rightarrow> uint8 \<Rightarrow> uint64 \<Rightarrow> 'cp sys_param_db dbstate \<Rightarrow>
     ('cp sys_param_db dbstate \<times> bool) option" where
  "SetCdpParam E coinPair paramkey v s = C_SetData (cdp_param_t E) (coinPair, paramkey) v s"

definition SetProducerFee ::
  "('cp::linorder, 'r) sys_param_env \<Rightarrow> uint8 \<Rightarrow> string \<Rightarrow> uint64 \<Rightarrow> 'cp sys_param_db dbstate \<Rightarrow>
     ('cp sys_param_db dbstate \<times> bool) option" where
  "SetProducerFee E txType feeSymbol fee s = C_SetData (fee_t E) (txType, feeSymbol) fee s"

definition GetProducerFee ::
  "('cp::linorder, 'r) sys_param_env \<Rightarrow> uint8 \<Rightarrow> string \<Rightarrow> 'cp sys_param_db dbstate \<Rightarrow>
     ('cp sys_param_db dbstate \<times> uint64 option) option" where
  "GetProducerFee E txType feeSymbol s = C_GetData (fee_t E) (txType, feeSymbol) s"

text \<open>A parameter type that is neither of the two fails the assertion.\<close>

definition SetCdpInterestParam ::
  "('cp::linorder, 'r) sys_param_env \<Rightarrow> 'cp \<Rightarrow> uint8 \<Rightarrow> int \<Rightarrow> uint64 \<Rightarrow> 'cp sys_param_db dbstate \<Rightarrow>
     ('cp sys_param_db dbstate \<times> bool) option" where
  "SetCdpInterestParam E coinPair paramType height v s =
     do { (s, r) \<leftarrow> C_GetData (changes_t E) coinPair s;
          let changeMap = (case r of None \<Rightarrow> sm_empty | Some m \<Rightarrow> m);
          let item = (case sm_find changeMap height of None \<Rightarrow> \<lparr>cip_a = 0, cip_b = 0\<rparr> | Some i \<Rightarrow> i);
          if paramType = CDP_INTEREST_PARAM_A E then
            do { (s, b) \<leftarrow> GetCdpParam E coinPair (CDP_INTEREST_PARAM_B E) s;
                 case b of
                   None \<Rightarrow> Some (s, False)
                 | Some pb \<Rightarrow> C_SetData (changes_t E) coinPair
                     (sm_set height (item\<lparr>cip_a := v, cip_b := pb\<rparr>) changeMap) s }
          else if paramType = CDP_INTEREST_PARAM_B E then
            do { (s, a) \<leftarrow> GetCdpParam E coinPair (CDP_INTEREST_PARAM_A E) s;
                 case a of
                   None \<Rightarrow> Some (s, False)
                 | Some pa \<Rightarrow> C_SetData (changes_t E) coinPair
                     (sm_set height (item\<lparr>cip_b := v, cip_a := pa\<rparr>) changeMap) s }
          else None }"

text \<open>
  \<open>GetCdpInterestParamChanges\<close>.  An iterator into the map is the list of the entries from
  it to the end.  \<open>find_begin_change\<close> is the loop that looks for the change the first height
  belongs to; \<open>add_changes\<close> the loop that closes the last change and appends the next.
\<close>

fun find_begin_change ::
  "int \<Rightarrow> (int \<times> IneryCdpInterestParams) list \<Rightarrow> (int \<times> IneryCdpInterestParams) list \<Rightarrow>
     (int \<times> IneryCdpInterestParams) list" where
  "find_begin_change beginHeight [] beginChangeIt = beginChangeIt"
| "find_begin_change beginHeight ((h, p) # rest) beginChangeIt =
     (if h > beginHeight then beginChangeIt else find_begin_change beginHeight rest ((h, p) # rest))"

definition set_back_end :: "int \<Rightarrow> IneryCdpInterestParamChange list \<Rightarrow> IneryCdpInterestParamChange list option" where
  "set_back_end h changes =
     (if changes = [] then None else Some (butlast changes @ [(last changes)\<lparr>end_height := h\<rparr>]))"

fun add_changes ::
  "int \<Rightarrow> (int \<times> IneryCdpInterestParams) list \<Rightarrow> IneryCdpInterestParamChange list \<Rightarrow>
     IneryCdpInterestParamChange list option" where
  "add_changes endHeight [] changes = Some changes"
| "add_changes endHeight ((h, p) # rest) changes =
     (if h > endHeight then Some changes
      else do { changes \<leftarrow> set_back_end (h - 1) changes;
                add_changes endHeight rest (changes @
                  [\<lparr>begin_height = h, end_height = 0, param_a = cip_a p, param_b = cip_b p\<rparr>]) })"

definition GetCdpInterestParamChanges ::
  "('cp::linorder, 'r) sys_param_env \<Rightarrow> 'cp \<Rightarrow> int \<Rightarrow> int \<Rightarrow> 'cp sys_param_db dbstate \<Rightarrow>
     ('cp sys_param_db dbstate \<times> IneryCdpInterestParamChange list) option" where
  "GetCdpInterestParamChanges E coinPair beginHeight endHeight s =
     do { (s, r) \<leftarrow> C_GetData (changes_t E) coinPair s;
          let items = sm_items (case r of None \<Rightarrow> sm_empty | Some m \<Rightarrow> m);
          let (changes, it) =
            (case find_begin_change beginHeight items [] of
               [] \<Rightarrow> ([\<lparr>begin_height = beginHeight, end_height = 0,
                       param_a = GetCdpParamDefaultValue E (CDP_INTEREST_PARAM_A E),
                       param_b = GetCdpParamDefaultValue E (CDP_INTEREST_PARAM_B E)\<rparr>], items)
             | (h, p) # rest \<Rightarrow>
                 ([\<lparr>begin_height = beginHeight, end_height = 0, param_a = cip_a p, param_b = cip_b p\<rparr>], rest));
          changes \<leftarrow> add_changes endHeight it changes;
          changes \<leftarrow> set_back_end endHeight changes;
          Some (s, changes) }"

text \<open>The register identifiers kept as parameters: \<open>None\<close> is the result \<open>false\<close>.\<close>

definition GetAxcSwapGwRegId ::
  "('cp::linorder, 'r) sys_param_env \<Rightarrow> 'cp sys_param_db dbstate \<Rightarrow> ('cp sys_param_db dbstate \<times> 'r option) option" where
  "GetAxcSwapGwRegId E s =
     do { (s, r) \<leftarrow> GetParam E (AXC_SWAP_GATEWAY_REGID E) s;
          case r of
            Some param \<Rightarrow> let regid = RegID_of_param E param
              in Some (s, if \<not> RegID_IsEmpty E regid then Some regid else None)
          | None \<Rightarrow> Some (s, None) }"

definition GetDexMatchSvcRegId ::
  "('cp::linorder, 'r) sys_param_env \<Rightarrow> 'cp sys_param_db dbstate \<Rightarrow> ('cp sys_param_db dbstate \<times> 'r) option" where
  "GetDexMatchSvcRegId E s =
     do { (s, r) \<leftarrow> GetParam E (DEX_MATCH_SVC_REGID E) s;
          case r of
            Some param \<Rightarrow> let regid = RegID_of_param E param
              in Some (s, if RegID_IsEmpty E regid then SysCfg_DexMatchSvcRegId E else regid)
          | None \<Rightarrow> Some (s, RegID_default E) }"

definition SetNewTotalBpsSize ::
  "('cp::linorder, 'r) sys_param_env \<Rightarrow> uint8 \<Rightarrow> uint32 \<Rightarrow> 'cp sys_param_db dbstate \<Rightarrow>
     ('cp sys_param_db dbstate \<times> bool) option" where
  "SetNewTotalBpsSize E newTotalBpsSize effectiveHeight s =
     S_SetData (new_bps_t E) (effectiveHeight, newTotalBpsSize) s"

definition SetCurrentTotalBpsSize ::
  "('cp::linorder, 'r) sys_param_env \<Rightarrow> uint8 \<Rightarrow> 'cp sys_param_db dbstate \<Rightarrow>
     ('cp sys_param_db dbstate \<times> bool) option" where
  "SetCurrentTotalBpsSize E totalBpsSize s = S_SetData (bps_t E) totalBpsSize s"

definition GetTotalBpsSize ::
  "('cp::linorder, 'r) sys_param_env \<Rightarrow> uint32 \<Rightarrow> 'cp sys_param_db dbstate \<Rightarrow>
     ('cp sys_param_db dbstate \<times> uint8) option" where
  "GetTotalBpsSize E height s =
     do { (s, r) \<leftarrow> S_GetData (new_bps_t E) s;
          case r of
            Some (effectiveHeight, n) \<Rightarrow>
              if height \<ge> effectiveHeight then Some (s, n)
              else do { (s, r) \<leftarrow> S_GetData (bps_t E) s;
                        Some (s, (case r of Some n \<Rightarrow> n | None \<Rightarrow> TotalDelegateNum E)) }
          | None \<Rightarrow> do { (s, r) \<leftarrow> S_GetData (bps_t E) s;
                        Some (s, (case r of Some n \<Rightarrow> n | None \<Rightarrow> TotalDelegateNum E)) } }"

section \<open>The tables are separate\<close>

definition sys_param_ok :: "('cp::linorder, 'r) sys_param_env \<Rightarrow> bool" where
  "sys_param_ok E \<longleftrightarrow> access_ok (sp_param_ops E) (sp_db E) \<and> access_ok (sp_fee_ops E) (sp_db E) \<and>
     access_ok (sp_cdp_ops E) (sp_db E) \<and> access_ok (sp_changes_ops E) (sp_db E) \<and>
     simple_ok (sp_bps_ops E) (sp_db E) \<and> simple_ok (sp_new_bps_ops E) (sp_db E)"

lemmas sp_tables = sys_param_t_def fee_t_def cdp_param_t_def changes_t_def bps_t_def new_bps_t_def

lemma sp_tables_ok [simp]:
  assumes "sys_param_ok E"
  shows "table_ok (sys_param_t E)" "table_ok (fee_t E)" "table_ok (cdp_param_t E)" "table_ok (changes_t E)"
    "cell_ok (bps_t E)" "cell_ok (new_bps_t E)"
  using assms by (simp_all add: sys_param_ok_def table_ok_def cell_ok_def sp_tables)

lemma sp_ops [simp]:
  "tops (sys_param_t E) = sp_param_ops E" "tops (fee_t E) = sp_fee_ops E"
  "tops (cdp_param_t E) = sp_cdp_ops E" "tops (changes_t E) = sp_changes_ops E"
  "cops (bps_t E) = sp_bps_ops E" "cops (new_bps_t E) = sp_new_bps_ops E"
  by (simp_all add: sp_tables)

lemma sp_indep [simp]:
  "indep (tget (sys_param_t E)) (tput (cdp_param_t E))" "indep (tget (sys_param_t E)) (tput (changes_t E))"
  "indep (tget (cdp_param_t E)) (tput (sys_param_t E))" "indep (tget (cdp_param_t E)) (tput (changes_t E))"
  "indep (tget (changes_t E)) (tput (cdp_param_t E))" "indep (tget (changes_t E)) (tput (sys_param_t E))"
  "indep (cget (bps_t E)) (cput (new_bps_t E))" "indep (cget (new_bps_t E)) (cput (bps_t E))"
  "indep (tget (changes_t E)) (cput (bps_t E))" "indep (tget (sys_param_t E)) (cput (bps_t E))"
  by (simp_all add: indep_def sp_tables)

lemma GetParam_eq [simp]:
  assumes "sys_param_ok E"
  shows "GetParam E t s = (case kSysParamTable E t of
      None \<Rightarrow> Some (s, None)
    | Some dflt \<Rightarrow> Some (after_get (sys_param_t E) t s,
        Some (case lookup (sys_param_t E) s t of None \<Rightarrow> dflt | Some v \<Rightarrow> v)))"
  using assms by (simp add: GetParam_def split: option.split)

lemma GetCdpParam_eq [simp]:
  assumes "sys_param_ok E"
  shows "GetCdpParam E c t s = (case kCdpParamTable E t of
      None \<Rightarrow> Some (s, None)
    | Some dflt \<Rightarrow> Some (after_get (cdp_param_t E) (c, t) s,
        Some (case lookup (cdp_param_t E) s (c, t) of None \<Rightarrow> dflt | Some v \<Rightarrow> v)))"
  using assms by (simp add: GetCdpParam_def split: option.split)

section \<open>The intervals of the interest parameters\<close>

text \<open>The parameters in force at a height: those of the last change not above it.\<close>

definition params_at ::
  "uint64 \<times> uint64 \<Rightarrow> (int \<times> IneryCdpInterestParams) list \<Rightarrow> int \<Rightarrow> uint64 \<times> uint64" where
  "params_at dflt items h =
     (case filter (\<lambda>(k, _). k \<le> h) items of
        [] \<Rightarrow> dflt
      | xs \<Rightarrow> (cip_a (snd (last xs)), cip_b (snd (last xs))))"

fun cover :: "int \<Rightarrow> uint64 \<times> uint64 \<Rightarrow> (int \<times> IneryCdpInterestParams) list \<Rightarrow> int \<Rightarrow>
    IneryCdpInterestParamChange list" where
  "cover b p [] e = [\<lparr>begin_height = b, end_height = e, param_a = fst p, param_b = snd p\<rparr>]"
| "cover b p ((k, q) # rest) e =
     (if k > e then [\<lparr>begin_height = b, end_height = e, param_a = fst p, param_b = snd p\<rparr>]
      else \<lparr>begin_height = b, end_height = k - 1, param_a = fst p, param_b = snd p\<rparr> #
             cover k (cip_a q, cip_b q) rest e)"

lemma set_back_end_snoc [simp]: "set_back_end h (cs @ [c]) = Some (cs @ [c\<lparr>end_height := h\<rparr>])"
  by (simp add: set_back_end_def)

lemma add_changes_cover:
  "\<exists>cs'. add_changes e items (cs @ [\<lparr>begin_height = b, end_height = x, param_a = fst p, param_b = snd p\<rparr>]) = Some cs' \<and>
     set_back_end e cs' = Some (cs @ cover b p items e)"
proof (induction items arbitrary: cs b x p)
  case (Cons i rest)
  obtain h q where i: "i = (h, q)" by (cases i)
  show ?case
  proof (cases "h > e")
    case False
    with Cons.IH [of "cs @ [\<lparr>begin_height = b, end_height = h - 1, param_a = fst p, param_b = snd p\<rparr>]"
        h 0 "(cip_a q, cip_b q)"] i show ?thesis
      by auto
  qed (simp add: i)
qed simp

text \<open>A list of changes tiles an interval: each begins where the one before ends.\<close>

fun tiles :: "int \<Rightarrow> int \<Rightarrow> IneryCdpInterestParamChange list \<Rightarrow> bool" where
  "tiles b e [] = (b = e + 1)"
| "tiles b e (c # cs) =
     (begin_height c = b \<and> b \<le> end_height c \<and> end_height c \<le> e \<and> tiles (end_height c + 1) e cs)"

lemma cover_tiles:
  "sorted_keys items \<Longrightarrow> \<forall>x \<in> set items. b < fst x \<Longrightarrow> b \<le> e \<Longrightarrow> tiles b e (cover b p items e)"
  by (induction b p items e rule: cover.induct) (auto simp: sorted_keys_Cons)

lemma params_at_Nil [simp]: "params_at p [] h = p"
  by (simp add: params_at_def)

lemma params_at_Cons:
  "params_at p ((k, q) # rest) h = (if k \<le> h then params_at (cip_a q, cip_b q) rest h else params_at p rest h)"
  by (auto simp: params_at_def split: list.split)

lemma params_at_later: "\<forall>x \<in> set items. h < fst x \<Longrightarrow> params_at p items h = p"
  by (induction items) (auto simp: params_at_Cons)

lemma cover_begin:
  "sorted_keys items \<Longrightarrow> \<forall>x \<in> set items. b < fst x \<Longrightarrow> c \<in> set (cover b p items e) \<Longrightarrow> b \<le> begin_height c"
  by (induction b p items e rule: cover.induct) (fastforce simp: sorted_keys_Cons split: if_splits)+

lemma cover_params:
  "sorted_keys items \<Longrightarrow> \<forall>x \<in> set items. b < fst x \<Longrightarrow> c \<in> set (cover b p items e) \<Longrightarrow>
     begin_height c \<le> h \<Longrightarrow> h \<le> end_height c \<Longrightarrow> (param_a c, param_b c) = params_at p items h"
proof (induction b p items e rule: cover.induct)
  case (2 b p k q rest e)
  have s: "sorted_keys rest" "\<forall>x \<in> set rest. k < fst x"
    using "2.prems"(1) by (auto simp: sorted_keys_Cons)
  show ?case
  proof (cases "k > e \<or> h < k")
    case True
    then have h: "h < k"
      using "2.prems"(3-5) by (auto split: if_splits)
    have c: "(param_a c, param_b c) = p"
    proof (rule ccontr)
      assume "(param_a c, param_b c) \<noteq> p"
      with "2.prems"(3) have "\<not> k > e" "c \<in> set (cover k (cip_a q, cip_b q) rest e)"
        by (auto split: if_splits)
      then show False
        using cover_begin [OF s] h "2.prems"(4) by fastforce
    qed
    with h s show ?thesis
      by (subst params_at_later) auto
  next
    case False
    then have "c \<in> set (cover k (cip_a q, cip_b q) rest e)"
      using "2.prems"(3,5) by auto
    with 2 False s show ?thesis
      by (simp add: params_at_Cons)
  qed
qed simp

text \<open>The loop that finds the first change splits the entries at the first height.\<close>

lemma find_begin_split:
  assumes "sorted_keys items"
  shows "\<exists>front rest. items = front @ rest \<and> (\<forall>x \<in> set front. fst x \<le> b) \<and> (\<forall>x \<in> set rest. b < fst x) \<and>
    find_begin_change b items it = (if front = [] then it else last front # rest)"
  using assms
proof (induction b items it rule: find_begin_change.induct)
  case (2 b h p rest it)
  show ?case
  proof (cases "h > b")
    case True
    with "2.prems" show ?thesis
      by (intro exI [of _ "[]"] exI [of _ "(h, p) # rest"]) (auto simp: sorted_keys_Cons)
  next
    case False
    with 2 obtain front tl where f: "rest = front @ tl" "\<forall>x \<in> set front. fst x \<le> b"
        "\<forall>x \<in> set tl. b < fst x"
        "find_begin_change b rest ((h, p) # rest) = (if front = [] then (h, p) # rest else last front # tl)"
      by (auto simp: sorted_keys_Cons)
    with False show ?thesis
      by (intro exI [of _ "(h, p) # front"] exI [of _ tl]) auto
  qed
qed simp

lemma params_at_append:
  "\<forall>x \<in> set front. fst x \<le> h \<Longrightarrow> params_at d (front @ rest) h =
     params_at (if front = [] then d else (cip_a (snd (last front)), cip_b (snd (last front)))) rest h"
  by (induction front arbitrary: d) (auto simp: params_at_Cons)

lemma params_at_al_set:
  assumes "sorted_keys xs"
  shows "params_at d (al_set h q xs) h = (cip_a q, cip_b q) \<and>
    (\<forall>h' < h. params_at d (al_set h q xs) h' = params_at d xs h')"
  using assms
proof (induction h q xs arbitrary: d rule: al_set.induct)
  case (2 k v a b xs)
  have "\<forall>x \<in> set xs. k < fst x" if "k \<le> a"
    using 2(2) that by (auto simp: sorted_keys_Cons)
  with 2 show ?case
    by (auto simp: params_at_Cons sorted_keys_Cons params_at_later)
qed (simp add: params_at_Cons)

lemma sorted_keys_append: "sorted_keys (xs @ ys) \<Longrightarrow> sorted_keys xs \<and> sorted_keys ys"
  by (simp add: sorted_keys_def sorted_wrt_append)

definition interest_items ::
  "('cp::linorder, 'r) sys_param_env \<Rightarrow> 'cp \<Rightarrow> 'cp sys_param_db dbstate \<Rightarrow> (int \<times> IneryCdpInterestParams) list" where
  "interest_items E c s = sm_items (case lookup (changes_t E) s c of None \<Rightarrow> sm_empty | Some m \<Rightarrow> m)"

definition default_params :: "('cp::linorder, 'r) sys_param_env \<Rightarrow> uint64 \<times> uint64" where
  "default_params E = (GetCdpParamDefaultValue E (CDP_INTEREST_PARAM_A E),
     GetCdpParamDefaultValue E (CDP_INTEREST_PARAM_B E))"

lemma GetCdpInterestParamChanges_cover:
  assumes "sys_param_ok E"
  shows "\<exists>front rest. interest_items E c s = front @ rest \<and> (\<forall>x \<in> set front. fst x \<le> b) \<and>
    (\<forall>x \<in> set rest. b < fst x) \<and>
    GetCdpInterestParamChanges E c b e s = Some (after_get (changes_t E) c s,
      cover b (if front = [] then default_params E
               else (cip_a (snd (last front)), cip_b (snd (last front)))) rest e)"
proof -
  let ?items = "interest_items E c s"
  have "sorted_keys ?items"
    by (simp add: interest_items_def)
  from find_begin_split [OF this, of b "[]"] obtain front rest where f: "?items = front @ rest"
      "\<forall>x \<in> set front. fst x \<le> b" "\<forall>x \<in> set rest. b < fst x"
      "find_begin_change b ?items [] = (if front = [] then [] else last front # rest)"
    by blast
  let ?p = "if front = [] then default_params E else (cip_a (snd (last front)), cip_b (snd (last front)))"
  obtain cs where cs: "add_changes e rest [\<lparr>begin_height = b, end_height = 0, param_a = fst ?p, param_b = snd ?p\<rparr>] = Some cs"
      "set_back_end e cs = Some (cover b ?p rest e)"
    using add_changes_cover [of e rest "[]" b 0 ?p] by auto
  have "GetCdpInterestParamChanges E c b e s = Some (after_get (changes_t E) c s, cover b ?p rest e)"
    using f(4) cs assms f(1) [symmetric]
    by (cases "front = []"; cases "last front")
      (simp_all add: GetCdpInterestParamChanges_def interest_items_def [symmetric] Let_def default_params_def
        split: prod.split)
  with f show ?thesis by blast
qed

section \<open>A concrete instance\<close>

definition cip_c :: "IneryCdpInterestParams coder" where
  "cip_c = \<lparr>enc = (\<lambda>p. enc (pair_c word_c word_c) (cip_a p, cip_b p)),
     dec = (\<lambda>s. map_option (\<lambda>(a, b). \<lparr>cip_a = a, cip_b = b\<rparr>) (dec (pair_c word_c word_c) s))\<rparr>"

lemma coder_cip [simp]: "coder_ok cip_c"
  unfolding coder_ok_def cip_c_def by simp

definition sample_sys_env :: "(string, uint64) sys_param_env" where
  "sample_sys_env = \<lparr>sp_db = empty_db DB_SYSPARAM,
     sp_param_ops = sample_ops SYS_PARAM uint_db uint_db 0 word_c word_c,
     sp_fee_ops = sample_ops PRODUCER_FEE (pair_db uint_db string_db) uint_db 0 (pair_c word_c string_c) word_c,
     sp_cdp_ops = sample_ops CDP_PARAM (pair_db string_db uint_db) uint_db 0 (pair_c string_c word_c) word_c,
     sp_changes_ops = sample_ops CDP_INTEREST_PARAMS string_db (map_db (plain_db 0) (plain_db \<lparr>cip_a = 0, cip_b = 0\<rparr>))
         sm_empty string_c (map_c int_c cip_c),
     sp_bps_ops = sample_ops TOTAL_BPS_SIZE (plain_db ()) uint_db 0 unit_c word_c,
     sp_new_bps_ops = sample_ops NEW_TOTAL_BPS_SIZE (plain_db ()) (pair_db uint_db uint_db) (0, 0) unit_c (pair_c word_c word_c),
     kSysParamTable = (\<lambda>k. if k < 10 then Some 100 else None),
     kCdpParamTable = (\<lambda>k. if k < 4 then Some 2 else None), GetCdpParamDefaultValue = (\<lambda>_. 2),
     CDP_INTEREST_PARAM_A = 1, CDP_INTEREST_PARAM_B = 2, AXC_SWAP_GATEWAY_REGID = 8, DEX_MATCH_SVC_REGID = 9,
     TotalDelegateNum = 11, RegID_of_param = (\<lambda>x. x), RegID_default = 0, RegID_IsEmpty = (\<lambda>r. r = 0),
     SysCfg_DexMatchSvcRegId = 77\<rparr>"

definition sample_sys_db :: "string sys_param_db" where
  "sample_sys_db = \<lparr>sys_param_chache = DbCache (empty_node True), producer_fee_cache = DbCache (empty_node True),
     cdp_param_cache = DbCache (empty_node True), cdp_interest_param_changes_cache = DbCache (empty_node True),
     current_total_bps_size_cache = SDb None, new_total_bps_size_cache = SDb None\<rparr>"

lemma sample_sys_ok [simp]: "sys_param_ok sample_sys_env"
  by (simp add: sys_param_ok_def sample_sys_env_def sample_access_ok sample_simple_ok is_data_prefix_def)

section \<open>Properties\<close>

text \<open>
  A system parameter reads back as it was set, and setting one parameter changes no
  other.  A parameter that is not in the table of parameters is not readable, one that was
  never set reads its default value, and so does one set to the empty value (zero), because
  an empty value is how the cache stores a deletion.
\<close>

theorem set_get_param:
  assumes "sys_param_ok E"
  shows "\<exists>s1. SetParam E k v s = Some (s1, \<not> key_empty (sp_param_ops E) k) \<and>
    (\<forall>k'. \<exists>s2. GetParam E k' s1 = Some (s2, case kSysParamTable E k' of None \<Rightarrow> None
       | Some dflt \<Rightarrow> Some (if k' = k \<and> \<not> key_empty (sp_param_ops E) k
           then (if val_empty (sp_param_ops E) v then dflt else v)
           else (case lookup (sys_param_t E) s k' of None \<Rightarrow> dflt | Some w \<Rightarrow> w))))"
  using assms by (simp add: SetParam_def split: option.split)

theorem set_get_param_witness:
  "\<exists>s1 s2. SetParam sample_sys_env 5 7 (sample_sys_db, None) = Some (s1, True) \<and>
     GetParam sample_sys_env 5 s1 = Some (s2, Some 7)"
proof -
  have "\<not> key_empty (sp_param_ops sample_sys_env) 5" "\<not> val_empty (sp_param_ops sample_sys_env) 7"
    "kSysParamTable sample_sys_env 5 = Some 100"
    by (simp_all add: sample_sys_env_def)
  with set_get_param [OF sample_sys_ok, of 5 7 "(sample_sys_db, None)"] show ?thesis
    by (auto dest: spec [of _ 5])
qed

text \<open>
  Claim C16: \<open>GetCdpInterestParamChanges\<close> tiles the interval it is asked for: the first change
  begins at the first height, each begins where the one before ended, the last ends at the
  last height; and each carries the parameters of the latest recorded change not above its
  heights, or the default parameters before the first one.  The call changes no parameter.
\<close>

theorem interest_changes_tile:
  assumes "sys_param_ok E" and "b \<le> e"
  shows "\<exists>s' cs. GetCdpInterestParamChanges E c b e s = Some (s', cs) \<and> tiles b e cs \<and>
    (\<forall>x \<in> set cs. \<forall>h. begin_height x \<le> h \<and> h \<le> end_height x \<longrightarrow>
       (param_a x, param_b x) = params_at (default_params E) (interest_items E c s) h) \<and>
    lookup (changes_t E) s' = lookup (changes_t E) s"
proof -
  obtain front rest where f: "interest_items E c s = front @ rest" "\<forall>x \<in> set front. fst x \<le> b"
      "\<forall>x \<in> set rest. b < fst x"
      "GetCdpInterestParamChanges E c b e s = Some (after_get (changes_t E) c s,
         cover b (if front = [] then default_params E
                  else (cip_a (snd (last front)), cip_b (snd (last front)))) rest e)"
    using GetCdpInterestParamChanges_cover [OF assms(1), of c s b e] by blast
  have s: "sorted_keys rest"
    using f(1) sorted_keys_append [of front rest] by (metis interest_items_def sorted_sm_items)
  let ?p = "if front = [] then default_params E else (cip_a (snd (last front)), cip_b (snd (last front)))"
  have "(param_a x, param_b x) = params_at (default_params E) (interest_items E c s) h"
    if "x \<in> set (cover b ?p rest e)" "begin_height x \<le> h" "h \<le> end_height x" for x h
  proof -
    have "\<forall>y \<in> set front. fst y \<le> h"
      using f(2) cover_begin [OF s f(3) that(1)] that(2) by fastforce
    then show ?thesis
      unfolding f(1) using cover_params [OF s f(3) that] by (simp only: params_at_append)
  qed
  with f(4) cover_tiles [OF s f(3) assms(2)] assms(1) show ?thesis
    by auto
qed

theorem interest_changes_tile_witness:
  "\<exists>s' cs. GetCdpInterestParamChanges sample_sys_env ''cp'' 3 9 (sample_sys_db, None) = Some (s', cs) \<and> tiles 3 9 cs"
  using interest_changes_tile [OF sample_sys_ok, of 3 9 "''cp''" "(sample_sys_db, None)"] by auto

text \<open>
  Recording a new value of the first interest parameter at a height makes it the
  value in force from that height on, together with the current second parameter, up to the
  next recorded change; heights below are not affected.
\<close>

theorem set_interest_param:
  assumes "sys_param_ok E" and "\<not> key_empty (sp_changes_ops E) c"
    and "val_empty (sp_changes_ops E) = (\<lambda>m. m = sm_empty)"
    and "kCdpParamTable E (CDP_INTEREST_PARAM_B E) = Some dflt"
  shows "\<exists>s1. SetCdpInterestParam E c (CDP_INTEREST_PARAM_A E) h v s = Some (s1, True) \<and>
    params_at (default_params E) (interest_items E c s1) h =
      (v, case lookup (cdp_param_t E) s (c, CDP_INTEREST_PARAM_B E) of None \<Rightarrow> dflt | Some w \<Rightarrow> w) \<and>
    (\<forall>h' < h. params_at (default_params E) (interest_items E c s1) h' =
       params_at (default_params E) (interest_items E c s) h')"
proof -
  let ?m = "case lookup (changes_t E) s c of None \<Rightarrow> sm_empty | Some m \<Rightarrow> m"
  let ?pb = "case lookup (cdp_param_t E) s (c, CDP_INTEREST_PARAM_B E) of None \<Rightarrow> dflt | Some w \<Rightarrow> w"
  let ?item = "(case sm_find ?m h of None \<Rightarrow> \<lparr>cip_a = 0, cip_b = 0\<rparr> | Some i \<Rightarrow> i)\<lparr>cip_a := v, cip_b := ?pb\<rparr>"
  let ?s1 = "after_set (changes_t E) c (sm_set h ?item ?m)
    (after_get (cdp_param_t E) (c, CDP_INTEREST_PARAM_B E) (after_get (changes_t E) c s))"
  have run: "SetCdpInterestParam E c (CDP_INTEREST_PARAM_A E) h v s = Some (?s1, True)"
    using assms by (simp add: SetCdpInterestParam_def Let_def)
  have ne: "sm_set h ?item ?m \<noteq> sm_empty"
    by (metis option.distinct(1) sm_find_empty sm_find_set)
  then have items: "interest_items E c ?s1 = al_set h ?item (sm_items ?m)"
    using assms by (simp add: interest_items_def sm_items_set)
  show ?thesis
    using run params_at_al_set [OF sorted_sm_items, of _ h ?item ?m] items
    by (simp add: interest_items_def)
qed

theorem set_interest_param_witness:
  "\<exists>s1. SetCdpInterestParam sample_sys_env ''cp'' 1 20 5 (sample_sys_db, None) = Some (s1, True) \<and>
     fst (params_at (default_params sample_sys_env) (interest_items sample_sys_env ''cp'' s1) 20) = 5"
proof -
  have "\<not> key_empty (sp_changes_ops sample_sys_env) ''cp''" "CDP_INTEREST_PARAM_A sample_sys_env = 1"
    "val_empty (sp_changes_ops sample_sys_env) = (\<lambda>m. m = sm_empty)"
    "kCdpParamTable sample_sys_env (CDP_INTEREST_PARAM_B sample_sys_env) = Some 2"
    by (simp_all add: sample_sys_env_def fun_eq_iff)
  with set_interest_param [OF sample_sys_ok this(1,3,4), of 20 5 "(sample_sys_db, None)"] show ?thesis
    by auto
qed

text \<open>
  The number of block producers: a pending size takes effect at its height and not
  before; until then the current size counts, and the configured one when none was ever set.
\<close>

theorem total_bps_size:
  assumes "sys_param_ok E" and "\<not> val_empty (sp_new_bps_ops E) (H, n)"
  shows "\<exists>s1 s2. SetCurrentTotalBpsSize E m s = Some (s1, True) \<and> SetNewTotalBpsSize E n H s1 = Some (s2, True) \<and>
    (\<forall>h. \<exists>s3. GetTotalBpsSize E h s2 = Some (s3,
       if h \<ge> H then n else if val_empty (sp_bps_ops E) m then TotalDelegateNum E else m))"
  using assms by (simp add: SetCurrentTotalBpsSize_def SetNewTotalBpsSize_def GetTotalBpsSize_def)

theorem total_bps_size_witness:
  "\<exists>s1 s2 s3. SetCurrentTotalBpsSize sample_sys_env 9 (sample_sys_db, None) = Some (s1, True) \<and>
     SetNewTotalBpsSize sample_sys_env 21 100 s1 = Some (s2, True) \<and>
     GetTotalBpsSize sample_sys_env 99 s2 = Some (s3, 9)"
proof -
  have "\<not> val_empty (sp_new_bps_ops sample_sys_env) (100, 21)" "\<not> val_empty (sp_bps_ops sample_sys_env) 9"
    by (simp_all add: sample_sys_env_def)
  with total_bps_size [OF sample_sys_ok this(1), of 9 "(sample_sys_db, None)"] show ?thesis
    by (auto dest: spec [of _ 99])
qed

end
