(* ===== verification/Sys_Govern.thy ===== *)
theory Sys_Govern
  imports Db_Class
begin

text \<open>
  \<open>InerySysGovernDBCache\<close> of \<open>sysgoverndb.h\<close>: the governors, the proposals and the approvals
  of each proposal.  The storage bean of a proposal is the shared pointer it wraps; the
  genesis governor \<open>IneryRegID(SysCfg().GetVer2GenesisHeight(), 2)\<close> is an argument, as is the
  order of the register identifiers.
\<close>

record ('regid, 'txid, 'prop) sys_govern_db =
  governors_cache :: "('regid::linorder, unit) std_map simple_cache"
  proposals_cache :: "('txid::linorder, 'prop option) kvcache"
  approvals_cache :: "('txid, 'regid list) kvcache"

record ('regid, 'txid, 'prop) sys_govern_env =
  sg_db :: CDBAccess
  sg_governors_ops :: "(unit, ('regid::linorder, unit) std_map) kvops"
  sg_proposals_ops :: "('txid, 'prop option) kvops"
  sg_approvals_ops :: "('txid, 'regid list) kvops"
  genesis_governor :: 'regid

definition governors_t ::
  "('r::linorder, 't::linorder, 'p) sys_govern_env \<Rightarrow> (('r, 't, 'p) sys_govern_db, ('r, unit) std_map) cell" where
  "governors_t E = \<lparr>cget = governors_cache, cput = (\<lambda>c. governors_cache_update (\<lambda>_. c)),
     cops = sg_governors_ops E, cdb = sg_db E\<rparr>"

definition proposals_t ::
  "('r::linorder, 't::linorder, 'p) sys_govern_env \<Rightarrow> (('r, 't, 'p) sys_govern_db, 't, 'p option) table" where
  "proposals_t E = \<lparr>tget = proposals_cache, tput = (\<lambda>c. proposals_cache_update (\<lambda>_. c)),
     tops = sg_proposals_ops E, tdb = sg_db E\<rparr>"

definition approvals_t ::
  "('r::linorder, 't::linorder, 'p) sys_govern_env \<Rightarrow> (('r, 't, 'p) sys_govern_db, 't, 'r list) table" where
  "approvals_t E = \<lparr>tget = approvals_cache, tput = (\<lambda>c. approvals_cache_update (\<lambda>_. c)),
     tops = sg_approvals_ops E, tdb = sg_db E\<rparr>"

section \<open>Operations\<close>

text \<open>\<open>GetGovernors\<close> always succeeds: with no governor stored, the genesis governor is the only one.\<close>

definition GetGovernors ::
  "('r::linorder, 't::linorder, 'p) sys_govern_env \<Rightarrow> ('r, 't, 'p) sys_govern_db dbstate \<Rightarrow>
     (('r, 't, 'p) sys_govern_db dbstate \<times> ('r, unit) std_map) option" where
  "GetGovernors E s =
     do { (s, r) \<leftarrow> S_GetData (governors_t E) s;
          let governors = (case r of None \<Rightarrow> sm_empty | Some g \<Rightarrow> g);
          Some (s, if governors = sm_empty then sm_set (genesis_governor E) () governors else governors) }"

text \<open>The count is computed as \<open>size_t\<close> and returned as \<open>uint8_t\<close>.\<close>

definition GetGovernorApprovalMinCount ::
  "('r::linorder, 't::linorder, 'p) sys_govern_env \<Rightarrow> ('r, 't, 'p) sys_govern_db dbstate \<Rightarrow>
     (('r, 't, 'p) sys_govern_db dbstate \<times> uint8) option" where
  "GetGovernorApprovalMinCount E s =
     do { (s, regids) \<leftarrow> GetGovernors E s;
          let n = length (sm_items regids);
          Some (s, of_nat (n - n div 3)) }"

definition CheckIsGovernor ::
  "('r::linorder, 't::linorder, 'p) sys_govern_env \<Rightarrow> 'r \<Rightarrow> ('r, 't, 'p) sys_govern_db dbstate \<Rightarrow>
     (('r, 't, 'p) sys_govern_db dbstate \<times> bool) option" where
  "CheckIsGovernor E candidateRegId s =
     do { (s, regids) \<leftarrow> GetGovernors E s; Some (s, sm_find regids candidateRegId \<noteq> None) }"

definition AddGovernor ::
  "('r::linorder, 't::linorder, 'p) sys_govern_env \<Rightarrow> 'r \<Rightarrow> ('r, 't, 'p) sys_govern_db dbstate \<Rightarrow>
     (('r, 't, 'p) sys_govern_db dbstate \<times> bool) option" where
  "AddGovernor E governor s =
     do { (s, r) \<leftarrow> S_GetData (governors_t E) s;
          let governors = (case r of None \<Rightarrow> sm_empty | Some g \<Rightarrow> g);
          S_SetData (governors_t E) (sm_set governor () governors) s }"

definition EraseGovernor ::
  "('r::linorder, 't::linorder, 'p) sys_govern_env \<Rightarrow> 'r \<Rightarrow> ('r, 't, 'p) sys_govern_db dbstate \<Rightarrow>
     (('r, 't, 'p) sys_govern_db dbstate \<times> bool) option" where
  "EraseGovernor E governor s =
     do { (s, r) \<leftarrow> S_GetData (governors_t E) s;
          let governors = (case r of None \<Rightarrow> sm_empty | Some g \<Rightarrow> g);
          S_SetData (governors_t E) (sm_erase governor governors) s }"

definition SetProposal ::
  "('r::linorder, 't::linorder, 'p) sys_govern_env \<Rightarrow> 't \<Rightarrow> 'p option \<Rightarrow> ('r, 't, 'p) sys_govern_db dbstate \<Rightarrow>
     (('r, 't, 'p) sys_govern_db dbstate \<times> bool) option" where
  "SetProposal E txid proposal s = C_SetData (proposals_t E) txid proposal s"

definition GetProposal ::
  "('r::linorder, 't::linorder, 'p) sys_govern_env \<Rightarrow> 't \<Rightarrow> ('r, 't, 'p) sys_govern_db dbstate \<Rightarrow>
     (('r, 't, 'p) sys_govern_db dbstate \<times> 'p option option) option" where
  "GetProposal E txid s = C_GetData (proposals_t E) txid s"

definition GetApprovalList ::
  "('r::linorder, 't::linorder, 'p) sys_govern_env \<Rightarrow> 't \<Rightarrow> ('r, 't, 'p) sys_govern_db dbstate \<Rightarrow>
     (('r, 't, 'p) sys_govern_db dbstate \<times> 'r list option) option" where
  "GetApprovalList E proposalId s = C_GetData (approvals_t E) proposalId s"

definition GetApprovalCount ::
  "('r::linorder, 't::linorder, 'p) sys_govern_env \<Rightarrow> 't \<Rightarrow> ('r, 't, 'p) sys_govern_db dbstate \<Rightarrow>
     (('r, 't, 'p) sys_govern_db dbstate \<times> nat) option" where
  "GetApprovalCount E proposalId s =
     do { (s, r) \<leftarrow> C_GetData (approvals_t E) proposalId s;
          Some (s, length (case r of None \<Rightarrow> [] | Some v \<Rightarrow> v)) }"

definition SetApproval ::
  "('r::linorder, 't::linorder, 'p) sys_govern_env \<Rightarrow> 't \<Rightarrow> 'r \<Rightarrow> ('r, 't, 'p) sys_govern_db dbstate \<Rightarrow>
     (('r, 't, 'p) sys_govern_db dbstate \<times> bool) option" where
  "SetApproval E proposalId governor s =
     do { (s, r) \<leftarrow> C_GetData (approvals_t E) proposalId s;
          case r of
            Some v \<Rightarrow> if governor \<in> set v then Some (s, False)
                      else C_SetData (approvals_t E) proposalId (v @ [governor]) s
          | None \<Rightarrow> C_SetData (approvals_t E) proposalId [governor] s }"

section \<open>Laws\<close>

definition sys_govern_ok :: "('r::linorder, 't::linorder, 'p) sys_govern_env \<Rightarrow> bool" where
  "sys_govern_ok E \<longleftrightarrow> simple_ok (sg_governors_ops E) (sg_db E) \<and> access_ok (sg_proposals_ops E) (sg_db E) \<and>
     access_ok (sg_approvals_ops E) (sg_db E) \<and> val_empty (sg_governors_ops E) = (\<lambda>m. m = sm_empty) \<and>
     val_empty (sg_approvals_ops E) = (\<lambda>v. v = [])"

lemmas sg_tables = governors_t_def proposals_t_def approvals_t_def

lemma sg_ok [simp]:
  assumes "sys_govern_ok E"
  shows "cell_ok (governors_t E)" "table_ok (proposals_t E)" "table_ok (approvals_t E)"
    "val_empty (sg_governors_ops E) m = (m = sm_empty)" "val_empty (sg_approvals_ops E) v = (v = [])"
    "cops (governors_t E) = sg_governors_ops E" "tops (approvals_t E) = sg_approvals_ops E"
    "tops (proposals_t E) = sg_proposals_ops E"
  using assms by (simp_all add: sys_govern_ok_def table_ok_def cell_ok_def sg_tables)

text \<open>The stored governors, and those in force.\<close>

definition stored_governors ::
  "('r::linorder, 't::linorder, 'p) sys_govern_env \<Rightarrow> ('r, 't, 'p) sys_govern_db dbstate \<Rightarrow> ('r, unit) std_map" where
  "stored_governors E s = (case peek (governors_t E) s of None \<Rightarrow> sm_empty | Some g \<Rightarrow> g)"

definition governors ::
  "('r::linorder, 't::linorder, 'p) sys_govern_env \<Rightarrow> ('r, 't, 'p) sys_govern_db dbstate \<Rightarrow> ('r, unit) std_map" where
  "governors E s = (if stored_governors E s = sm_empty then sm_set (genesis_governor E) () sm_empty
     else stored_governors E s)"

definition approvals ::
  "('r::linorder, 't::linorder, 'p) sys_govern_env \<Rightarrow> ('r, 't, 'p) sys_govern_db dbstate \<Rightarrow> 't \<Rightarrow> 'r list" where
  "approvals E s t = (case lookup (approvals_t E) s t of None \<Rightarrow> [] | Some v \<Rightarrow> v)"

lemma GetGovernors_eq [simp]:
  "sys_govern_ok E \<Longrightarrow> GetGovernors E s = Some (after_sget (governors_t E) s, governors E s)"
  by (simp add: GetGovernors_def governors_def stored_governors_def Let_def)

lemma stored_governors_simps [simp]:
  assumes "sys_govern_ok E"
  shows "stored_governors E (after_sget (governors_t E) s) = stored_governors E s"
    "stored_governors E (after_sset (governors_t E) g s) = g"
  using assms by (simp_all add: stored_governors_def)

lemma AddGovernor_eq [simp]:
  "sys_govern_ok E \<Longrightarrow> AddGovernor E g s = Some (after_sset (governors_t E)
     (sm_set g () (stored_governors E s)) (after_sget (governors_t E) s), True)"
  by (simp add: AddGovernor_def stored_governors_def Let_def)

lemma EraseGovernor_eq [simp]:
  "sys_govern_ok E \<Longrightarrow> EraseGovernor E g s = Some (after_sset (governors_t E)
     (sm_erase g (stored_governors E s)) (after_sget (governors_t E) s), True)"
  by (simp add: EraseGovernor_def stored_governors_def Let_def)

lemma SetApproval_eq:
  assumes "sys_govern_ok E"
  shows "SetApproval E t g s =
    (if g \<in> set (approvals E s t) then Some (after_get (approvals_t E) t s, False)
     else Some (after_set (approvals_t E) t (approvals E s t @ [g]) (after_get (approvals_t E) t s),
       \<not> key_empty (sg_approvals_ops E) t))"
  using assms by (auto simp: SetApproval_def approvals_def split: option.split)

lemma approvals_after_set [simp]:
  "sys_govern_ok E \<Longrightarrow> \<not> key_empty (sg_approvals_ops E) t \<Longrightarrow>
     approvals E (after_set (approvals_t E) t v s) = (approvals E s)(t := v)"
  by (auto simp: approvals_def fun_eq_iff)

lemma approvals_after_get [simp]:
  "sys_govern_ok E \<Longrightarrow> approvals E (after_get (approvals_t E) t s) = approvals E s"
  by (simp add: approvals_def fun_eq_iff)

lemma sm_set_ne_empty [simp]: "sm_set k v m \<noteq> sm_empty"
  by (metis option.distinct(1) sm_find_empty sm_find_set)

lemma governors_ne [simp]: "governors E s \<noteq> sm_empty"
  by (simp add: governors_def)

section \<open>A concrete instance\<close>

definition sample_govern_env :: "(uint64, string, string) sys_govern_env" where
  "sample_govern_env = \<lparr>sg_db = empty_db DB_SYSGOVERN,
     sg_governors_ops = sample_ops SYS_GOVERN (plain_db ()) (set_db uint_db) sm_empty unit_c (map_c word_c unit_c),
     sg_proposals_ops = sample_ops GOVN_PROP string_db (optional_db string_db) None string_c (option_c string_c),
     sg_approvals_ops = sample_ops GOVN_APPROVAL_LIST string_db (vector_db uint_db) [] string_c (list_c word_c),
     genesis_governor = 2\<rparr>"

definition sample_govern_db :: "(uint64, string, string) sys_govern_db" where
  "sample_govern_db = \<lparr>governors_cache = SDb None, proposals_cache = DbCache (empty_node True),
     approvals_cache = DbCache (empty_node True)\<rparr>"

lemma sample_govern_ok [simp]: "sys_govern_ok sample_govern_env"
  by (simp add: sys_govern_ok_def sample_govern_env_def sample_access_ok sample_simple_ok is_data_prefix_def fun_eq_iff)

section \<open>Properties\<close>

text \<open>
  The governors in force are never empty, whatever is added and erased.  A governor
  that was added is one, also when the genesis governor stood in before; erasing a governor
  of several removes exactly that one, and erasing the last one brings the genesis governor
  back instead of leaving the system without governors.
\<close>

theorem governors_in_force:
  assumes "sys_govern_ok E"
  shows "\<exists>s1 s2. AddGovernor E g s = Some (s1, True) \<and> EraseGovernor E g s = Some (s2, True) \<and>
    (\<exists>s3. CheckIsGovernor E g s1 = Some (s3, True)) \<and>
    governors E s1 = sm_set g () (stored_governors E s) \<and>
    governors E s2 = (if sm_erase g (stored_governors E s) = sm_empty then sm_set (genesis_governor E) () sm_empty
                      else sm_erase g (stored_governors E s)) \<and>
    governors E s1 \<noteq> sm_empty \<and> governors E s2 \<noteq> sm_empty"
  using assms by (simp add: CheckIsGovernor_def governors_def)

theorem governors_in_force_witness:
  "\<exists>s1 s3. AddGovernor sample_govern_env 9 (sample_govern_db, None) = Some (s1, True) \<and>
     CheckIsGovernor sample_govern_env 9 s1 = Some (s3, True)"
  using governors_in_force [OF sample_govern_ok, of 9 "(sample_govern_db, None)"] by auto

text \<open>
  The number of approvals a proposal needs is more than half of the governors and
  not more than all of them, as long as there are fewer than 256 governors; at least two
  thirds of them, rounded up.
\<close>

theorem approval_min_count:
  assumes "sys_govern_ok E" and "length (sm_items (governors E s)) < 256"
  shows "\<exists>s' n. GetGovernorApprovalMinCount E s = Some (s', n) \<and>
    unat n = length (sm_items (governors E s)) - length (sm_items (governors E s)) div 3 \<and>
    length (sm_items (governors E s)) < 2 * unat n \<and> unat n \<le> length (sm_items (governors E s)) \<and>
    2 * length (sm_items (governors E s)) \<le> 3 * unat n"
proof -
  let ?n = "length (sm_items (governors E s))"
  have "?n > 0"
    by (simp add: sm_items_Nil_iff)
  then have bounds: "?n < 2 * (?n - ?n div 3)" "2 * ?n \<le> 3 * (?n - ?n div 3)"
    by arith+
  have small: "unat (of_nat m :: uint8) = m" if "m < 256" for m
    using that by (simp add: unat_of_nat take_bit_nat_eq_self)
  have "unat (of_nat (?n - ?n div 3) :: uint8) = ?n - ?n div 3"
    using assms(2) by (intro small) simp
  with assms(1) bounds show ?thesis
    by (simp add: GetGovernorApprovalMinCount_def Let_def)
qed

theorem approval_min_count_witness:
  "\<exists>s' n. GetGovernorApprovalMinCount sample_govern_env (sample_govern_db, None) = Some (s', n) \<and> unat n = 1"
proof -
  have g: "governors sample_govern_env (sample_govern_db, None) = sm_set 2 () sm_empty"
    by (simp add: governors_def stored_governors_def peek_def governors_t_def sample_govern_db_def
        sample_govern_env_def sview_def nonempty_def sdb_val_def)
  have "length (sm_items (governors sample_govern_env (sample_govern_db, None))) = 1"
    unfolding g by (simp add: sm_items_set)
  with approval_min_count [OF sample_govern_ok, of "(sample_govern_db, None)"] show ?thesis
    by auto
qed



end
