(* ===== verification/Account.thy ===== *)
theory Account
  imports Db_Class
begin

text \<open>
  \<open>IneryAccountDBCache\<close> of \<open>accountdb.h\<close> and \<open>accountdb.cpp\<close>: the accounts by key
  identifier, and the key identifier of each register identifier.  A user identifier is a
  variant; \<open>IneryUserID\<close> has one constructor for each alternative the code tests, and
  \<open>UidOther\<close> for an alternative it does not know.  \<open>IneryRegIDKey\<close>, which only changes how a
  register identifier is serialised, is the register identifier.  Accounts, keys and their
  functions are code of other modules, in the record \<open>account_env\<close>.
\<close>

section \<open>State\<close>

datatype ('r, 'k, 'p) IneryUserID = UidNull | UidRegID 'r | UidKeyID 'k | UidPubKey 'p | UidOther

record account_token =
  free_amount :: uint64
  voted_amount :: uint64
  frozen_amount :: uint64
  staked_amount :: uint64
  pledged_amount :: uint64

record ('r, 'k, 'acc) account_db =
  regId2KeyIdCache :: "('r::linorder, 'k) kvcache"
  accountCache :: "('k::linorder, 'acc) kvcache"

record ('r, 'k, 'p, 'acc) account_env =
  ac_db :: CDBAccess
  ac_regid_ops :: "('r, 'k) kvops"
  ac_account_ops :: "('k, 'acc) kvops"
  RegID_IsEmpty :: "'r \<Rightarrow> bool"
  KeyID_IsEmpty :: "'k \<Rightarrow> bool"
  KeyID_default :: 'k
  PubKey_GetKeyId :: "'p \<Rightarrow> 'k"
  RegID_of_string :: "string \<Rightarrow> 'r"
  KeyID_of_string :: "string \<Rightarrow> 'k"
  acc_default :: 'acc
  acc_regid :: "'acc \<Rightarrow> 'r"
  acc_keyid :: "'acc \<Rightarrow> 'k"
  acc_GetToken :: "'acc \<Rightarrow> string \<Rightarrow> account_token"
  acc_received_votes :: "'acc \<Rightarrow> uint64"
  SYMB_WICC :: string
  SYMB_WUSD :: string
  SYMB_WGRT :: string

definition regid_t ::
  "('r::linorder, 'k::linorder, 'p, 'acc) account_env \<Rightarrow> (('r, 'k, 'acc) account_db, 'r, 'k) table" where
  "regid_t E = \<lparr>tget = regId2KeyIdCache, tput = (\<lambda>c. regId2KeyIdCache_update (\<lambda>_. c)),
     tops = ac_regid_ops E, tdb = ac_db E\<rparr>"

definition account_t ::
  "('r::linorder, 'k::linorder, 'p, 'acc) account_env \<Rightarrow> (('r, 'k, 'acc) account_db, 'k, 'acc) table" where
  "account_t E = \<lparr>tget = accountCache, tput = (\<lambda>c. accountCache_update (\<lambda>_. c)),
     tops = ac_account_ops E, tdb = ac_db E\<rparr>"

section \<open>Operations\<close>

text \<open>The overloads for key identifiers, register identifiers and user identifiers.\<close>

definition GetAccount_key ::
  "('r::linorder, 'k::linorder, 'p, 'acc) account_env \<Rightarrow> 'k \<Rightarrow> ('r, 'k, 'acc) account_db dbstate \<Rightarrow>
     (('r, 'k, 'acc) account_db dbstate \<times> 'acc option) option" where
  "GetAccount_key E keyId s = C_GetData (account_t E) keyId s"

definition GetAccount_reg ::
  "('r::linorder, 'k::linorder, 'p, 'acc) account_env \<Rightarrow> 'r \<Rightarrow> ('r, 'k, 'acc) account_db dbstate \<Rightarrow>
     (('r, 'k, 'acc) account_db dbstate \<times> 'acc option) option" where
  "GetAccount_reg E regId s =
     (if RegID_IsEmpty E regId then Some (s, None)
      else do { (s, r) \<leftarrow> C_GetData (regid_t E) regId s;
                case r of
                  Some keyId \<Rightarrow> C_GetData (account_t E) keyId s
                | None \<Rightarrow> Some (s, None) })"

fun GetAccount ::
  "('r::linorder, 'k::linorder, 'p, 'acc) account_env \<Rightarrow> ('r, 'k, 'p) IneryUserID \<Rightarrow>
     ('r, 'k, 'acc) account_db dbstate \<Rightarrow> (('r, 'k, 'acc) account_db dbstate \<times> 'acc option) option" where
  "GetAccount E (UidRegID r) s = GetAccount_reg E r s"
| "GetAccount E (UidKeyID k) s = GetAccount_key E k s"
| "GetAccount E (UidPubKey p) s = GetAccount_key E (PubKey_GetKeyId E p) s"
| "GetAccount E UidNull s = Some (s, None)"
| "GetAccount E UidOther s = Some (s, None)"

text \<open>The overload for key identifiers drops the result of \<open>SetData\<close>.\<close>

definition SetAccount_key ::
  "('r::linorder, 'k::linorder, 'p, 'acc) account_env \<Rightarrow> 'k \<Rightarrow> 'acc \<Rightarrow> ('r, 'k, 'acc) account_db dbstate \<Rightarrow>
     (('r, 'k, 'acc) account_db dbstate \<times> bool) option" where
  "SetAccount_key E keyId account s = do { (s, _) \<leftarrow> C_SetData (account_t E) keyId account s; Some (s, True) }"

definition SetAccount_reg ::
  "('r::linorder, 'k::linorder, 'p, 'acc) account_env \<Rightarrow> 'r \<Rightarrow> 'acc \<Rightarrow> ('r, 'k, 'acc) account_db dbstate \<Rightarrow>
     (('r, 'k, 'acc) account_db dbstate \<times> bool) option" where
  "SetAccount_reg E regId account s =
     do { (s, r) \<leftarrow> C_GetData (regid_t E) regId s;
          case r of
            Some keyId \<Rightarrow> C_SetData (account_t E) keyId account s
          | None \<Rightarrow> Some (s, False) }"

fun SetAccount ::
  "('r::linorder, 'k::linorder, 'p, 'acc) account_env \<Rightarrow> ('r, 'k, 'p) IneryUserID \<Rightarrow> 'acc \<Rightarrow>
     ('r, 'k, 'acc) account_db dbstate \<Rightarrow> (('r, 'k, 'acc) account_db dbstate \<times> bool) option" where
  "SetAccount E (UidRegID r) account s = SetAccount_reg E r account s"
| "SetAccount E (UidKeyID k) account s = SetAccount_key E k account s"
| "SetAccount E (UidPubKey p) account s = SetAccount_key E (PubKey_GetKeyId E p) account s"
| "SetAccount E UidNull account s = Some (s, False)"
| "SetAccount E UidOther account s = Some (s, False)"

definition SaveAccount ::
  "('r::linorder, 'k::linorder, 'p, 'acc) account_env \<Rightarrow> 'acc \<Rightarrow> ('r, 'k, 'acc) account_db dbstate \<Rightarrow>
     (('r, 'k, 'acc) account_db dbstate \<times> bool) option" where
  "SaveAccount E account s =
     do { (s, _) \<leftarrow> (if \<not> RegID_IsEmpty E (acc_regid E account)
                    then C_SetData (regid_t E) (acc_regid E account) (acc_keyid E account) s
                    else Some (s, False));
          (s, _) \<leftarrow> C_SetData (account_t E) (acc_keyid E account) account s;
          Some (s, True) }"

definition HasAccount_key ::
  "('r::linorder, 'k::linorder, 'p, 'acc) account_env \<Rightarrow> 'k \<Rightarrow> ('r, 'k, 'acc) account_db dbstate \<Rightarrow>
     (('r, 'k, 'acc) account_db dbstate \<times> bool) option" where
  "HasAccount_key E keyId s = C_HasData (account_t E) keyId s"

definition HasAccount_reg ::
  "('r::linorder, 'k::linorder, 'p, 'acc) account_env \<Rightarrow> 'r \<Rightarrow> ('r, 'k, 'acc) account_db dbstate \<Rightarrow>
     (('r, 'k, 'acc) account_db dbstate \<times> bool) option" where
  "HasAccount_reg E regId s = C_HasData (regid_t E) regId s"

fun HasAccount ::
  "('r::linorder, 'k::linorder, 'p, 'acc) account_env \<Rightarrow> ('r, 'k, 'p) IneryUserID \<Rightarrow>
     ('r, 'k, 'acc) account_db dbstate \<Rightarrow> (('r, 'k, 'acc) account_db dbstate \<times> bool) option" where
  "HasAccount E (UidRegID r) s = HasAccount_reg E r s"
| "HasAccount E (UidKeyID k) s = HasAccount_key E k s"
| "HasAccount E (UidPubKey p) s = HasAccount_key E (PubKey_GetKeyId E p) s"
| "HasAccount E UidNull s = Some (s, False)"
| "HasAccount E UidOther s = Some (s, False)"

definition EraseAccount_key ::
  "('r::linorder, 'k::linorder, 'p, 'acc) account_env \<Rightarrow> 'k \<Rightarrow> ('r, 'k, 'acc) account_db dbstate \<Rightarrow>
     (('r, 'k, 'acc) account_db dbstate \<times> bool) option" where
  "EraseAccount_key E keyId s = C_EraseData (account_t E) keyId s"

fun EraseAccount ::
  "('r::linorder, 'k::linorder, 'p, 'acc) account_env \<Rightarrow> ('r, 'k, 'p) IneryUserID \<Rightarrow>
     ('r, 'k, 'acc) account_db dbstate \<Rightarrow> (('r, 'k, 'acc) account_db dbstate \<times> bool) option" where
  "EraseAccount E (UidKeyID k) s = EraseAccount_key E k s"
| "EraseAccount E (UidPubKey p) s = EraseAccount_key E (PubKey_GetKeyId E p) s"
| "EraseAccount E (UidRegID r) s = Some (s, False)"
| "EraseAccount E UidNull s = Some (s, False)"
| "EraseAccount E UidOther s = Some (s, False)"

definition NewRegId ::
  "('r::linorder, 'k::linorder, 'p, 'acc) account_env \<Rightarrow> 'r \<Rightarrow> 'k \<Rightarrow> ('r, 'k, 'acc) account_db dbstate \<Rightarrow>
     (('r, 'k, 'acc) account_db dbstate \<times> bool) option" where
  "NewRegId E regid keyId s = C_SetData (regid_t E) regid keyId s"

definition GetKeyId_reg ::
  "('r::linorder, 'k::linorder, 'p, 'acc) account_env \<Rightarrow> 'r \<Rightarrow> ('r, 'k, 'acc) account_db dbstate \<Rightarrow>
     (('r, 'k, 'acc) account_db dbstate \<times> 'k option) option" where
  "GetKeyId_reg E regId s = C_GetData (regid_t E) regId s"

fun GetKeyId ::
  "('r::linorder, 'k::linorder, 'p, 'acc) account_env \<Rightarrow> ('r, 'k, 'p) IneryUserID \<Rightarrow>
     ('r, 'k, 'acc) account_db dbstate \<Rightarrow> (('r, 'k, 'acc) account_db dbstate \<times> 'k option) option" where
  "GetKeyId E (UidRegID r) s = GetKeyId_reg E r s"
| "GetKeyId E (UidPubKey p) s = Some (s, Some (PubKey_GetKeyId E p))"
| "GetKeyId E (UidKeyID k) s = Some (s, Some k)"
| "GetKeyId E UidNull s = Some (s, None)"
| "GetKeyId E UidOther s = Some (s, None)"

definition EraseKeyId_reg ::
  "('r::linorder, 'k::linorder, 'p, 'acc) account_env \<Rightarrow> 'r \<Rightarrow> ('r, 'k, 'acc) account_db dbstate \<Rightarrow>
     (('r, 'k, 'acc) account_db dbstate \<times> bool) option" where
  "EraseKeyId_reg E regId s = C_EraseData (regid_t E) regId s"

fun EraseKeyId ::
  "('r::linorder, 'k::linorder, 'p, 'acc) account_env \<Rightarrow> ('r, 'k, 'p) IneryUserID \<Rightarrow>
     ('r, 'k, 'acc) account_db dbstate \<Rightarrow> (('r, 'k, 'acc) account_db dbstate \<times> bool) option" where
  "EraseKeyId E (UidRegID r) s = EraseKeyId_reg E r s"
| "EraseKeyId E _ s = Some (s, False)"

definition GetUserId ::
  "('r::linorder, 'k::linorder, 'p, 'acc) account_env \<Rightarrow> string \<Rightarrow> ('r, 'k, 'p) IneryUserID option" where
  "GetUserId E addr =
     (let regId = RegID_of_string E addr in
      if \<not> RegID_IsEmpty E regId then Some (UidRegID regId)
      else let keyId = KeyID_of_string E addr in
        if \<not> KeyID_IsEmpty E keyId then Some (UidKeyID keyId) else None)"

definition GetRegId_key ::
  "('r::linorder, 'k::linorder, 'p, 'acc) account_env \<Rightarrow> 'k \<Rightarrow> ('r, 'k, 'acc) account_db dbstate \<Rightarrow>
     (('r, 'k, 'acc) account_db dbstate \<times> 'r option) option" where
  "GetRegId_key E keyId s =
     do { (s, r) \<leftarrow> C_GetData (account_t E) keyId s; Some (s, map_option (acc_regid E) r) }"

text \<open>
  For user identifiers the register identifier is written to the output also when it is
  empty and the result is \<open>false\<close>; the result and the output are returned together.
\<close>

definition regid_result ::
  "('r::linorder, 'k::linorder, 'p, 'acc) account_env \<Rightarrow> 'acc option \<Rightarrow> bool \<times> 'r option" where
  "regid_result E r = (case r of
      Some account \<Rightarrow> (\<not> RegID_IsEmpty E (acc_regid E account), Some (acc_regid E account))
    | None \<Rightarrow> (False, None))"

fun GetRegId ::
  "('r::linorder, 'k::linorder, 'p, 'acc) account_env \<Rightarrow> ('r, 'k, 'p) IneryUserID \<Rightarrow>
     ('r, 'k, 'acc) account_db dbstate \<Rightarrow> (('r, 'k, 'acc) account_db dbstate \<times> bool \<times> 'r option) option" where
  "GetRegId E (UidRegID r) s = Some (s, True, Some r)"
| "GetRegId E (UidKeyID k) s = do { (s, r) \<leftarrow> GetAccount_key E k s; Some (s, regid_result E r) }"
| "GetRegId E (UidPubKey p) s =
     do { (s, r) \<leftarrow> GetAccount_key E (PubKey_GetKeyId E p) s; Some (s, regid_result E r) }"
| "GetRegId E UidNull s = Some (s, False, None)"
| "GetRegId E UidOther s = Some (s, False, None)"

definition GetAccountFreeAmount ::
  "('r::linorder, 'k::linorder, 'p, 'acc) account_env \<Rightarrow> 'k \<Rightarrow> string \<Rightarrow> ('r, 'k, 'acc) account_db dbstate \<Rightarrow>
     (('r, 'k, 'acc) account_db dbstate \<times> uint64) option" where
  "GetAccountFreeAmount E keyId tokenSymbol s =
     do { (s, r) \<leftarrow> GetAccount_key E keyId s;
          let account = (case r of Some a \<Rightarrow> a | None \<Rightarrow> acc_default E);
          Some (s, free_amount (acc_GetToken E account tokenSymbol)) }"

subsection \<open>Statistics over all accounts\<close>

record states =
  st_free :: uint64
  st_voted :: uint64
  st_frozen :: uint64
  st_staked :: uint64
  st_pledged :: uint64

definition zero_states :: states where
  "zero_states = \<lparr>st_free = 0, st_voted = 0, st_frozen = 0, st_staked = 0, st_pledged = 0\<rparr>"

definition add_states :: "account_token \<Rightarrow> states \<Rightarrow> states" where
  "add_states t x = \<lparr>st_free = st_free x + free_amount t, st_voted = st_voted x + voted_amount t,
     st_frozen = st_frozen x + frozen_amount t, st_staked = st_staked x + staked_amount t,
     st_pledged = st_pledged x + pledged_amount t\<rparr>"

definition token_total :: "account_token \<Rightarrow> uint64" where
  "token_total t = free_amount t + voted_amount t + frozen_amount t + staked_amount t + pledged_amount t"

record account_stats =
  totalRegIds :: uint64
  totalINRs :: uint64
  totalSCoins :: uint64
  totalFCoins :: uint64
  INRsStates :: states
  scoinsStates :: states
  fcoinsStates :: states
  totalReceivedVotes :: uint64

fun stats_loop ::
  "('r::linorder, 'k::linorder, 'p, 'acc) account_env \<Rightarrow> ('k \<times> 'acc) list \<Rightarrow> account_stats \<Rightarrow> account_stats" where
  "stats_loop E [] x = x"
| "stats_loop E ((_, account) # rest) x =
     (let wicc = acc_GetToken E account (SYMB_WICC E);
          wusd = acc_GetToken E account (SYMB_WUSD E);
          wgrt = acc_GetToken E account (SYMB_WGRT E)
      in stats_loop E rest
        \<lparr>totalRegIds = totalRegIds x + 1,
         totalINRs = totalINRs x + token_total wicc,
         totalSCoins = totalSCoins x + token_total wusd,
         totalFCoins = totalFCoins x + token_total wgrt,
         INRsStates = add_states wicc (INRsStates x),
         scoinsStates = add_states wusd (scoinsStates x),
         fcoinsStates = add_states wgrt (fcoinsStates x),
         totalReceivedVotes = totalReceivedVotes x + acc_received_votes E account\<rparr>)"

definition account_totals ::
  "('r::linorder, 'k::linorder, 'p, 'acc) account_env \<Rightarrow> ('r, 'k, 'acc) account_db dbstate \<Rightarrow> account_stats option" where
  "account_totals E s =
     do { items \<leftarrow> C_items (account_t E) s;
          Some (stats_loop E items \<lparr>totalRegIds = 0, totalINRs = 0, totalSCoins = 0, totalFCoins = 0,
            INRsStates = zero_states, scoinsStates = zero_states, fcoinsStates = zero_states,
            totalReceivedVotes = 0\<rparr>) }"

text \<open>
  The JSON object of the result.  \<open>JsonValueFromAmount\<close> is code of another module, an argument.
\<close>

datatype 'j json = JAmount 'j | JInt uint64 | JObj "(string \<times> 'j json) list"

definition states_object :: "(uint64 \<Rightarrow> 'j) \<Rightarrow> states \<Rightarrow> uint64 \<Rightarrow> 'j json" where
  "states_object JsonValueFromAmount x amount = JObj
     [(''free_amount'', JAmount (JsonValueFromAmount (st_free x))),
      (''voted_amount'', JAmount (JsonValueFromAmount (st_voted x))),
      (''frozen_amount'', JAmount (JsonValueFromAmount (st_frozen x))),
      (''staked_amount'', JAmount (JsonValueFromAmount (st_staked x))),
      (''pledged_amount'', JAmount (JsonValueFromAmount (st_pledged x))),
      (''total_amount'', JAmount (JsonValueFromAmount amount))]"

definition stats_object :: "(uint64 \<Rightarrow> 'j) \<Rightarrow> account_stats \<Rightarrow> 'j json" where
  "stats_object JsonValueFromAmount x = JObj
     [(''WICC'', states_object JsonValueFromAmount (INRsStates x) (totalINRs x)),
      (''WUSD'', states_object JsonValueFromAmount (scoinsStates x) (totalSCoins x)),
      (''WGRT'', states_object JsonValueFromAmount (fcoinsStates x) (totalFCoins x)),
      (''total_received_votes'', JInt (totalReceivedVotes x)),
      (''total_regids'', JInt (totalRegIds x))]"

definition GetAccountDBStats :: "(uint64 \<Rightarrow> 'j) \<Rightarrow>
    ('r::linorder, 'k::linorder, 'p, 'acc) account_env \<Rightarrow> ('r, 'k, 'acc) account_db dbstate \<Rightarrow> 'j json option" where
  "GetAccountDBStats JsonValueFromAmount E s = map_option (stats_object JsonValueFromAmount) (account_totals E s)"

fun supply_loop ::
  "('r::linorder, 'k::linorder, 'p, 'acc) account_env \<Rightarrow> string \<Rightarrow> ('k \<times> 'acc) list \<Rightarrow> uint64 \<Rightarrow> uint64" where
  "supply_loop E assetSymbol [] x = x"
| "supply_loop E assetSymbol ((_, account) # rest) x =
     supply_loop E assetSymbol rest (x + token_total (acc_GetToken E account assetSymbol))"

definition GetAssetTotalSupply ::
  "('r::linorder, 'k::linorder, 'p, 'acc) account_env \<Rightarrow> string \<Rightarrow> ('r, 'k, 'acc) account_db dbstate \<Rightarrow> uint64 option" where
  "GetAssetTotalSupply E assetSymbol s =
     do { items \<leftarrow> C_items (account_t E) s; Some (supply_loop E assetSymbol items 0) }"

section \<open>Laws\<close>

definition account_ok :: "('r::linorder, 'k::linorder, 'p, 'acc) account_env \<Rightarrow> bool" where
  "account_ok E \<longleftrightarrow> access_ok (ac_regid_ops E) (ac_db E) \<and> access_ok (ac_account_ops E) (ac_db E) \<and>
     key_empty (ac_regid_ops E) = RegID_IsEmpty E"

lemmas ac_tables = regid_t_def account_t_def

lemma ac_ok [simp]:
  assumes "account_ok E"
  shows "table_ok (regid_t E)" "table_ok (account_t E)" "key_empty (ac_regid_ops E) = RegID_IsEmpty E"
  using assms by (simp_all add: account_ok_def table_ok_def ac_tables)

lemma ac_simps [simp]:
  "tops (regid_t E) = ac_regid_ops E" "tops (account_t E) = ac_account_ops E"
  "indep (tget (regid_t E)) (tput (account_t E))" "indep (tget (account_t E)) (tput (regid_t E))"
  by (simp_all add: indep_def ac_tables)

text \<open>What the class shows: the account of a user identifier.\<close>

definition account_of ::
  "('r::linorder, 'k::linorder, 'p, 'acc) account_env \<Rightarrow> ('r, 'k, 'acc) account_db dbstate \<Rightarrow> 'k \<Rightarrow> 'acc option" where
  "account_of E s = lookup (account_t E) s"

definition key_of ::
  "('r::linorder, 'k::linorder, 'p, 'acc) account_env \<Rightarrow> ('r, 'k, 'acc) account_db dbstate \<Rightarrow> 'r \<Rightarrow> 'k option" where
  "key_of E s = lookup (regid_t E) s"

fun resolve ::
  "('r::linorder, 'k::linorder, 'p, 'acc) account_env \<Rightarrow> ('r, 'k, 'acc) account_db dbstate \<Rightarrow>
     ('r, 'k, 'p) IneryUserID \<Rightarrow> 'k option" where
  "resolve E s (UidRegID r) = key_of E s r"
| "resolve E s (UidKeyID k) = Some k"
| "resolve E s (UidPubKey p) = Some (PubKey_GetKeyId E p)"
| "resolve E s UidNull = None"
| "resolve E s UidOther = None"

lemma GetKeyId_resolve:
  "account_ok E \<Longrightarrow> \<exists>s'. GetKeyId E u s = Some (s', resolve E s u) \<and>
     account_of E s' = account_of E s \<and> key_of E s' = key_of E s"
  by (cases u) (simp_all add: GetKeyId_reg_def key_of_def account_of_def)

lemma GetAccount_resolve:
  assumes "account_ok E"
  shows "\<exists>s'. GetAccount E u s = Some (s', case resolve E s u of None \<Rightarrow> None | Some k \<Rightarrow> account_of E s k) \<and>
    account_of E s' = account_of E s \<and> key_of E s' = key_of E s"
proof (cases u)
  case (UidRegID r)
  have "key_of E s r = None" if "RegID_IsEmpty E r"
    using lookup_empty_key [of "regid_t E" r s] that assms by (simp add: key_of_def)
  with UidRegID assms show ?thesis
    by (simp add: GetAccount_reg_def account_of_def key_of_def split: option.split)
qed (use assms in \<open>simp_all add: GetAccount_key_def account_of_def key_of_def\<close>)

lemma SaveAccount_eq:
  assumes "account_ok E"
  shows "\<exists>s'. SaveAccount E a s = Some (s', True) \<and>
    key_of E s' = (if RegID_IsEmpty E (acc_regid E a) then key_of E s
      else (key_of E s)(acc_regid E a := (if val_empty (ac_regid_ops E) (acc_keyid E a) then None else Some (acc_keyid E a)))) \<and>
    account_of E s' = (if key_empty (ac_account_ops E) (acc_keyid E a) then account_of E s
      else (account_of E s)(acc_keyid E a := (if val_empty (ac_account_ops E) a then None else Some a)))"
  using assms by (simp add: SaveAccount_def key_of_def account_of_def)

text \<open>
  The directory invariant: each register identifier points to an account that carries it,
  and accounts are stored under their own key.
\<close>

definition directory_inv ::
  "('r::linorder, 'k::linorder, 'p, 'acc) account_env \<Rightarrow> ('r, 'k, 'acc) account_db dbstate \<Rightarrow> bool" where
  "directory_inv E s \<longleftrightarrow>
     (\<forall>k a. account_of E s k = Some a \<longrightarrow> acc_keyid E a = k) \<and>
     (\<forall>r k. key_of E s r = Some k \<longrightarrow> (\<exists>a. account_of E s k = Some a \<and> acc_regid E a = r))"

lemma directory_inv_save:
  assumes "account_ok E" and "directory_inv E s"
    and "\<not> key_empty (ac_account_ops E) (acc_keyid E a)" and "\<not> val_empty (ac_account_ops E) a"
    and "\<forall>r. key_of E s r = Some (acc_keyid E a) \<longrightarrow> r = acc_regid E a"
  shows "\<exists>s'. SaveAccount E a s = Some (s', True) \<and> directory_inv E s'"
proof -
  obtain s' where s': "SaveAccount E a s = Some (s', True)"
    "key_of E s' = (if RegID_IsEmpty E (acc_regid E a) then key_of E s
      else (key_of E s)(acc_regid E a := (if val_empty (ac_regid_ops E) (acc_keyid E a) then None else Some (acc_keyid E a))))"
    "account_of E s' = (account_of E s)(acc_keyid E a := Some a)"
    using SaveAccount_eq [OF assms(1), of a s] assms(3,4) by auto
  have "directory_inv E s'"
    using assms(2,5) unfolding directory_inv_def s'(2,3) by (auto split: if_splits)
  with s'(1) show ?thesis by blast
qed

lemma stats_supply:
  "totalINRs (stats_loop E items x) = supply_loop E (SYMB_WICC E) items (totalINRs x) \<and>
   totalSCoins (stats_loop E items x) = supply_loop E (SYMB_WUSD E) items (totalSCoins x) \<and>
   totalFCoins (stats_loop E items x) = supply_loop E (SYMB_WGRT E) items (totalFCoins x)"
  by (induction E items x rule: stats_loop.induct) (auto simp: Let_def)

definition states_total :: "states \<Rightarrow> uint64" where
  "states_total x = st_free x + st_voted x + st_frozen x + st_staked x + st_pledged x"

lemma states_total_add: "states_total (add_states t x) = states_total x + token_total t"
  by (simp add: states_total_def add_states_def token_total_def)

lemma stats_states:
  "totalINRs x = states_total (INRsStates x) \<Longrightarrow>
     totalINRs (stats_loop E items x) = states_total (INRsStates (stats_loop E items x))"
  "totalSCoins x = states_total (scoinsStates x) \<Longrightarrow>
     totalSCoins (stats_loop E items x) = states_total (scoinsStates (stats_loop E items x))"
  "totalFCoins x = states_total (fcoinsStates x) \<Longrightarrow>
     totalFCoins (stats_loop E items x) = states_total (fcoinsStates (stats_loop E items x))"
  by (induction E items x rule: stats_loop.induct) (simp_all add: Let_def states_total_add)

lemma supply_sum:
  "supply_loop E y items x = x + sum_list (map (\<lambda>p. token_total (acc_GetToken E (snd p) y)) items)"
  by (induction items arbitrary: x) (auto simp: ac_simps)

lemma stats_regids: "totalRegIds (stats_loop E items x) = totalRegIds x + of_nat (length items)"
  by (induction E items x rule: stats_loop.induct) (auto simp: Let_def)

section \<open>A concrete instance\<close>

text \<open>An account of the example is its register identifier, its key and its free amount.\<close>

definition sample_account_env :: "(uint64, string, string, uint64 \<times> string \<times> uint64) account_env" where
  "sample_account_env = \<lparr>ac_db = empty_db DB_ACCOUNT,
     ac_regid_ops = sample_ops REGID_KEYID uint_db string_db [] word_c string_c,
     ac_account_ops = sample_ops KEYID_ACCOUNT string_db (plain_db (0, [], 0)) (0, [], 0) string_c
       (pair_c word_c (pair_c string_c word_c)),
     RegID_IsEmpty = (\<lambda>r. r = 0), KeyID_IsEmpty = (\<lambda>k. k = []), KeyID_default = [],
     PubKey_GetKeyId = (\<lambda>p. p), RegID_of_string = (\<lambda>_. 0), KeyID_of_string = (\<lambda>s. s),
     acc_default = (0, [], 0), acc_regid = fst, acc_keyid = (\<lambda>a. fst (snd a)),
     acc_GetToken = (\<lambda>a _. \<lparr>free_amount = snd (snd a), voted_amount = 0, frozen_amount = 0,
        staked_amount = 0, pledged_amount = 0\<rparr>),
     acc_received_votes = (\<lambda>_. 0), SYMB_WICC = ''WICC'', SYMB_WUSD = ''WUSD'', SYMB_WGRT = ''WGRT''\<rparr>"

definition sample_account_db :: "(uint64, string, uint64 \<times> string \<times> uint64) account_db" where
  "sample_account_db = \<lparr>regId2KeyIdCache = DbCache (empty_node True), accountCache = DbCache (empty_node True)\<rparr>"

lemma sample_account_ok [simp]: "account_ok sample_account_env"
  by (simp add: account_ok_def sample_account_env_def sample_access_ok is_data_prefix_def fun_eq_iff)

lemma sample_account_empty [simp]:
  "account_of sample_account_env (sample_account_db, lg) k = None"
  "key_of sample_account_env (sample_account_db, lg) r = None"
  by (simp_all add: account_of_def key_of_def lookup_def view_def visible_def ac_tables sample_account_db_def
      sample_account_env_def db_val_def empty_node_def)

section \<open>Properties\<close>

text \<open>
  An account that is saved is found under its key, under every public key of that
  key identifier and, when it has a register identifier, under that; and no account under
  another key changes.
\<close>

theorem save_get_account:
  assumes "account_ok E" and "\<not> key_empty (ac_account_ops E) (acc_keyid E a)"
    and "\<not> val_empty (ac_account_ops E) a" and "\<not> val_empty (ac_regid_ops E) (acc_keyid E a)"
  shows "\<exists>s1. SaveAccount E a s = Some (s1, True) \<and>
    (\<exists>s2. GetAccount E (UidKeyID (acc_keyid E a)) s1 = Some (s2, Some a)) \<and>
    (\<forall>p. PubKey_GetKeyId E p = acc_keyid E a \<longrightarrow> (\<exists>s2. GetAccount E (UidPubKey p) s1 = Some (s2, Some a))) \<and>
    (\<exists>s2. GetAccount E (UidRegID (acc_regid E a)) s1 =
       Some (s2, if RegID_IsEmpty E (acc_regid E a) then None else Some a)) \<and>
    (\<forall>k. k \<noteq> acc_keyid E a \<longrightarrow> account_of E s1 k = account_of E s k)"
proof -
  obtain s1 where s1: "SaveAccount E a s = Some (s1, True)"
    "key_of E s1 = (if RegID_IsEmpty E (acc_regid E a) then key_of E s
      else (key_of E s)(acc_regid E a := Some (acc_keyid E a)))"
    "account_of E s1 = (account_of E s)(acc_keyid E a := Some a)"
    using SaveAccount_eq [OF assms(1), of a s] assms(2-4) by auto
  have "\<exists>s2. GetAccount E u s1 = Some (s2, Some a)" if "resolve E s1 u = Some (acc_keyid E a)" for u
    using GetAccount_resolve [OF assms(1), of u s1] that s1(3) by auto
  moreover have "key_of E s1 r = None" if "RegID_IsEmpty E r" for r
    using lookup_empty_key [of "regid_t E" r s1] that assms(1) by (simp add: key_of_def)
  ultimately show ?thesis
    using s1 GetAccount_resolve [OF assms(1), of "UidRegID (acc_regid E a)" s1]
    by (intro exI [of _ s1]) (auto simp del: GetAccount.simps)
qed

theorem save_get_account_witness:
  "\<exists>s1 s2. SaveAccount sample_account_env (7, ''key'', 50) (sample_account_db, None) = Some (s1, True) \<and>
     GetAccount sample_account_env (UidRegID 7) s1 = Some (s2, Some (7, ''key'', 50))"
proof -
  let ?a = "(7, ''key'', 50) :: uint64 \<times> string \<times> uint64"
  have h: "\<not> key_empty (ac_account_ops sample_account_env) (acc_keyid sample_account_env ?a)"
    "\<not> val_empty (ac_account_ops sample_account_env) ?a"
    "\<not> val_empty (ac_regid_ops sample_account_env) (acc_keyid sample_account_env ?a)"
    "acc_regid sample_account_env ?a = 7" "\<not> RegID_IsEmpty sample_account_env 7"
    by (simp_all add: sample_account_env_def)
  from save_get_account [OF sample_account_ok h(1-3), of "(sample_account_db, None)"] h(4,5) show ?thesis
    by (auto simp del: GetAccount.simps)
qed

text \<open>
  Claim C21: the directory stays consistent.  If every register identifier points to an
  account that carries it, then the same holds after \<open>SaveAccount\<close>, provided the account
  does not drop a register identifier it already had.
\<close>

theorem directory_preserved:
  assumes "account_ok E" and "directory_inv E s"
    and "\<not> key_empty (ac_account_ops E) (acc_keyid E a)" and "\<not> val_empty (ac_account_ops E) a"
    and "\<forall>r. key_of E s r = Some (acc_keyid E a) \<longrightarrow> r = acc_regid E a"
  shows "\<exists>s'. SaveAccount E a s = Some (s', True) \<and> directory_inv E s'"
  by (rule directory_inv_save [OF assms])

theorem directory_preserved_witness:
  "\<exists>s'. SaveAccount sample_account_env (7, ''key'', 50) (sample_account_db, None) = Some (s', True) \<and>
     directory_inv sample_account_env s'"
  by (rule directory_preserved) (simp_all add: directory_inv_def, simp_all add: sample_account_env_def)



end
