(* ===== verification/Cdp.thy ===== *)
theory Cdp
  imports Db_Class
begin

text \<open>
  \<open>IneryCdpDBCache\<close> and \<open>CClosedCdpDBCache\<close> of \<open>cdpdb.h\<close> and \<open>cdpdb.cpp\<close>: the open
  collateralised debt positions, the index of each user's positions, two indexes ordered by
  collateral ratio and by height, and the totals per coin pair.  A position has the members
  the code reads; \<open>coin_pair\<close> is what \<open>GetCoinPair\<close> returns.  The collateral ratio is a type
  of its own: the boosted ratio and the comparison with it, and the conversion of a ratio
  query, are floating point arithmetic, in \<open>cdp_env\<close>.
\<close>

section \<open>State\<close>

record ('id, 'r, 'cp, 'ratio) IneryUserCDP =
  cdpid :: 'id
  owner_regid :: 'r
  coin_pair :: 'cp
  block_height :: uint64
  total_staked_INRs :: uint64
  total_owed_scoins :: uint64
  collateral_ratio_base :: 'ratio

record IneryCdpGlobalData =
  total_staked_assets :: uint64
  global_owed_scoins :: uint64

record ('st, 'cord) IneryCdpINRDetail =
  status :: 'st
  init_tx_cord :: 'cord

record ('id, 'r, 'cp, 'ratio, 'st, 'cord) cdp_db =
  cdp_global_data_cache :: "('cp::linorder, IneryCdpGlobalData) kvcache"
  cdp_cache :: "('id::linorder, ('id, 'r, 'cp, 'ratio) IneryUserCDP) kvcache"
  cdp_INR_cache :: "(string, ('st, 'cord) IneryCdpINRDetail) kvcache"
  user_cdp_cache :: "('r::linorder \<times> 'cp, 'id option) kvcache"
  cdp_ratio_index_cache :: "('cp \<times> uint64 \<times> uint64 \<times> 'id, ('id, 'r, 'cp, 'ratio) IneryUserCDP) kvcache"
  cdp_height_index_cache :: "('cp \<times> uint64 \<times> 'id, ('id, 'r, 'cp, 'ratio) IneryUserCDP) kvcache"

record ('id, 'r, 'cp, 'ratio, 'st, 'cord) cdp_env =
  cd_db :: CDBAccess
  cd_global_ops :: "('cp, IneryCdpGlobalData) kvops"
  cd_cdp_ops :: "('id, ('id, 'r, 'cp, 'ratio) IneryUserCDP) kvops"
  cd_inr_ops :: "(string, ('st, 'cord) IneryCdpINRDetail) kvops"
  cd_user_ops :: "('r \<times> 'cp, 'id option) kvops"
  cd_ratio_ops :: "('cp \<times> uint64 \<times> uint64 \<times> 'id, ('id, 'r, 'cp, 'ratio) IneryUserCDP) kvops"
  cd_height_ops :: "('cp \<times> uint64 \<times> 'id, ('id, 'r, 'cp, 'ratio) IneryUserCDP) kvops"
  cdp_IsEmpty :: "('id, 'r, 'cp, 'ratio) IneryUserCDP \<Rightarrow> bool"
  boosted_ratio :: "'ratio \<Rightarrow> uint64"  \<comment> \<open>\<open>uint64_t(base * CDP_BASE_RATIO_BOOST)\<close>\<close>
  ratio_overflown :: "uint64 \<Rightarrow> 'ratio \<Rightarrow> bool"  \<comment> \<open>\<open>boosted < base\<close>\<close>
  query_ratio_boost :: "uint64 \<Rightarrow> uint64 \<Rightarrow> uint64 option"
  empty_id :: 'id
  empty_cp :: 'cp
  kCdpINRSymbolSet :: "string set"
  kCdpScoinSymbolSet :: "string set"
  symb_wgrt :: string
  STAKE_ON :: 'st
  genesis_cord :: 'cord

type_synonym ('id, 'r, 'cp, 'ratio, 'st, 'cord) cdp_state = "('id, 'r, 'cp, 'ratio, 'st, 'cord) cdp_db dbstate"

definition global_t :: "('id::linorder, 'r::linorder, 'cp::linorder, 'ratio, 'st, 'cord) cdp_env \<Rightarrow>
    (('id, 'r, 'cp, 'ratio, 'st, 'cord) cdp_db, 'cp, IneryCdpGlobalData) table" where
  "global_t E = \<lparr>tget = cdp_global_data_cache, tput = (\<lambda>c. cdp_global_data_cache_update (\<lambda>_. c)),
     tops = cd_global_ops E, tdb = cd_db E\<rparr>"

definition cdp_t :: "('id::linorder, 'r::linorder, 'cp::linorder, 'ratio, 'st, 'cord) cdp_env \<Rightarrow>
    (('id, 'r, 'cp, 'ratio, 'st, 'cord) cdp_db, 'id, ('id, 'r, 'cp, 'ratio) IneryUserCDP) table" where
  "cdp_t E = \<lparr>tget = cdp_cache, tput = (\<lambda>c. cdp_cache_update (\<lambda>_. c)), tops = cd_cdp_ops E, tdb = cd_db E\<rparr>"

definition inr_t :: "('id::linorder, 'r::linorder, 'cp::linorder, 'ratio, 'st, 'cord) cdp_env \<Rightarrow>
    (('id, 'r, 'cp, 'ratio, 'st, 'cord) cdp_db, string, ('st, 'cord) IneryCdpINRDetail) table" where
  "inr_t E = \<lparr>tget = cdp_INR_cache, tput = (\<lambda>c. cdp_INR_cache_update (\<lambda>_. c)), tops = cd_inr_ops E, tdb = cd_db E\<rparr>"

definition user_t :: "('id::linorder, 'r::linorder, 'cp::linorder, 'ratio, 'st, 'cord) cdp_env \<Rightarrow>
    (('id, 'r, 'cp, 'ratio, 'st, 'cord) cdp_db, 'r \<times> 'cp, 'id option) table" where
  "user_t E = \<lparr>tget = user_cdp_cache, tput = (\<lambda>c. user_cdp_cache_update (\<lambda>_. c)), tops = cd_user_ops E, tdb = cd_db E\<rparr>"

definition ratio_t :: "('id::linorder, 'r::linorder, 'cp::linorder, 'ratio, 'st, 'cord) cdp_env \<Rightarrow>
    (('id, 'r, 'cp, 'ratio, 'st, 'cord) cdp_db, 'cp \<times> uint64 \<times> uint64 \<times> 'id,
     ('id, 'r, 'cp, 'ratio) IneryUserCDP) table" where
  "ratio_t E = \<lparr>tget = cdp_ratio_index_cache, tput = (\<lambda>c. cdp_ratio_index_cache_update (\<lambda>_. c)),
     tops = cd_ratio_ops E, tdb = cd_db E\<rparr>"

definition height_t :: "('id::linorder, 'r::linorder, 'cp::linorder, 'ratio, 'st, 'cord) cdp_env \<Rightarrow>
    (('id, 'r, 'cp, 'ratio, 'st, 'cord) cdp_db, 'cp \<times> uint64 \<times> 'id,
     ('id, 'r, 'cp, 'ratio) IneryUserCDP) table" where
  "height_t E = \<lparr>tget = cdp_height_index_cache, tput = (\<lambda>c. cdp_height_index_cache_update (\<lambda>_. c)),
     tops = cd_height_ops E, tdb = cd_db E\<rparr>"

section \<open>Operations\<close>

definition MakeCdpRatioIndexKey :: "('id, 'r, 'cp, 'ratio, 'st, 'cord) cdp_env \<Rightarrow>
    ('id, 'r, 'cp, 'ratio) IneryUserCDP \<Rightarrow> 'cp \<times> uint64 \<times> uint64 \<times> 'id" where
  "MakeCdpRatioIndexKey E cdp =
     (let boostedRatio = boosted_ratio E (collateral_ratio_base cdp);
          ratio = (if ratio_overflown E boostedRatio (collateral_ratio_base cdp) then - 1 else boostedRatio)
      in (coin_pair cdp, ratio, block_height cdp, cdpid cdp))"

definition MakeCdpHeightIndexKey :: "('id, 'r, 'cp, 'ratio) IneryUserCDP \<Rightarrow> 'cp \<times> uint64 \<times> 'id" where
  "MakeCdpHeightIndexKey cdp = (coin_pair cdp, block_height cdp, cdpid cdp)"

definition GetCdpGlobalData :: "('id::linorder, 'r::linorder, 'cp::linorder, 'ratio, 'st, 'cord) cdp_env \<Rightarrow>
    'cp \<Rightarrow> ('id, 'r, 'cp, 'ratio, 'st, 'cord) cdp_state \<Rightarrow>
    (('id, 'r, 'cp, 'ratio, 'st, 'cord) cdp_state \<times> IneryCdpGlobalData) option" where
  "GetCdpGlobalData E cp s =
     do { (s, r) \<leftarrow> C_GetData (global_t E) cp s;
          Some (s, case r of None \<Rightarrow> \<lparr>total_staked_assets = 0, global_owed_scoins = 0\<rparr> | Some g \<Rightarrow> g) }"

definition SaveCdpIndexData :: "('id::linorder, 'r::linorder, 'cp::linorder, 'ratio, 'st, 'cord) cdp_env \<Rightarrow>
    ('id, 'r, 'cp, 'ratio) IneryUserCDP \<Rightarrow> ('id, 'r, 'cp, 'ratio, 'st, 'cord) cdp_state \<Rightarrow>
    (('id, 'r, 'cp, 'ratio, 'st, 'cord) cdp_state \<times> bool) option" where
  "SaveCdpIndexData E userCdp s =
     do { (s, g) \<leftarrow> GetCdpGlobalData E (coin_pair userCdp) s;
          let g = g\<lparr>total_staked_assets := total_staked_assets g + total_staked_INRs userCdp,
                    global_owed_scoins := global_owed_scoins g + total_owed_scoins userCdp\<rparr>;
          (s, ok) \<leftarrow> C_SetData (global_t E) (coin_pair userCdp) g s;
          if \<not> ok then Some (s, False) else
          do { (s, ok) \<leftarrow> C_SetData (ratio_t E) (MakeCdpRatioIndexKey E userCdp) userCdp s;
               if \<not> ok then Some (s, False) else
               do { (s, ok) \<leftarrow> C_SetData (height_t E) (MakeCdpHeightIndexKey userCdp) userCdp s;
                    if \<not> ok then Some (s, False) else Some (s, True) } } }"

text \<open>Unlike \<open>SaveCdpIndexData\<close>, erasing does not look at the result of saving the totals.\<close>

definition EraseCdpIndexData :: "('id::linorder, 'r::linorder, 'cp::linorder, 'ratio, 'st, 'cord) cdp_env \<Rightarrow>
    ('id, 'r, 'cp, 'ratio) IneryUserCDP \<Rightarrow> ('id, 'r, 'cp, 'ratio, 'st, 'cord) cdp_state \<Rightarrow>
    (('id, 'r, 'cp, 'ratio, 'st, 'cord) cdp_state \<times> bool) option" where
  "EraseCdpIndexData E userCdp s =
     do { (s, g) \<leftarrow> GetCdpGlobalData E (coin_pair userCdp) s;
          let g = g\<lparr>total_staked_assets := total_staked_assets g - total_staked_INRs userCdp,
                    global_owed_scoins := global_owed_scoins g - total_owed_scoins userCdp\<rparr>;
          (s, _) \<leftarrow> C_SetData (global_t E) (coin_pair userCdp) g s;
          (s, ok) \<leftarrow> C_EraseData (ratio_t E) (MakeCdpRatioIndexKey E userCdp) s;
          if \<not> ok then Some (s, False) else
          do { (s, ok) \<leftarrow> C_EraseData (height_t E) (MakeCdpHeightIndexKey userCdp) s;
               if \<not> ok then Some (s, False) else Some (s, True) } }"

definition NewCDP :: "('id::linorder, 'r::linorder, 'cp::linorder, 'ratio, 'st, 'cord) cdp_env \<Rightarrow>
    ('id, 'r, 'cp, 'ratio) IneryUserCDP \<Rightarrow> ('id, 'r, 'cp, 'ratio, 'st, 'cord) cdp_state \<Rightarrow>
    (('id, 'r, 'cp, 'ratio, 'st, 'cord) cdp_state \<times> bool) option" where
  "NewCDP E cdp s =
     do { (s, ok) \<leftarrow> C_SetData (cdp_t E) (cdpid cdp) cdp s;
          if \<not> ok then Some (s, False) else
          do { (s, ok) \<leftarrow> C_SetData (user_t E) (owner_regid cdp, coin_pair cdp) (Some (cdpid cdp)) s;
               if \<not> ok then Some (s, False) else SaveCdpIndexData E cdp s } }"

definition EraseCDP :: "('id::linorder, 'r::linorder, 'cp::linorder, 'ratio, 'st, 'cord) cdp_env \<Rightarrow>
    ('id, 'r, 'cp, 'ratio) IneryUserCDP \<Rightarrow> ('id, 'r, 'cp, 'ratio) IneryUserCDP \<Rightarrow>
    ('id, 'r, 'cp, 'ratio, 'st, 'cord) cdp_state \<Rightarrow>
    (('id, 'r, 'cp, 'ratio, 'st, 'cord) cdp_state \<times> bool) option" where
  "EraseCDP E oldCDP cdp s =
     do { (s, ok) \<leftarrow> C_EraseData (cdp_t E) (cdpid cdp) s;
          if \<not> ok then Some (s, False) else
          do { (s, ok) \<leftarrow> C_EraseData (user_t E) (owner_regid cdp, coin_pair cdp) s;
               if \<not> ok then Some (s, False) else EraseCdpIndexData E oldCDP s } }"

definition UpdateCDP :: "('id::linorder, 'r::linorder, 'cp::linorder, 'ratio, 'st, 'cord) cdp_env \<Rightarrow>
    ('id, 'r, 'cp, 'ratio) IneryUserCDP \<Rightarrow> ('id, 'r, 'cp, 'ratio) IneryUserCDP \<Rightarrow>
    ('id, 'r, 'cp, 'ratio, 'st, 'cord) cdp_state \<Rightarrow>
    (('id, 'r, 'cp, 'ratio, 'st, 'cord) cdp_state \<times> bool) option" where
  "UpdateCDP E oldCDP newCDP s =
     (if cdp_IsEmpty E newCDP then None else
      do { (s, ok) \<leftarrow> C_SetData (cdp_t E) (cdpid newCDP) newCDP s;
           if \<not> ok then Some (s, False) else
           do { (s, ok) \<leftarrow> EraseCdpIndexData E oldCDP s;
                if \<not> ok then Some (s, False) else SaveCdpIndexData E newCDP s } })"

definition UserHaveCdp :: "('id::linorder, 'r::linorder, 'cp::linorder, 'ratio, 'st, 'cord) cdp_env \<Rightarrow>
    'r \<Rightarrow> 'cp \<Rightarrow> ('id, 'r, 'cp, 'ratio, 'st, 'cord) cdp_state \<Rightarrow>
    (('id, 'r, 'cp, 'ratio, 'st, 'cord) cdp_state \<times> bool) option" where
  "UserHaveCdp E regid cp s = C_HasData (user_t E) (regid, cp) s"

text \<open>The result of \<open>GetCDPList\<close> with the positions collected so far.\<close>

fun cdp_list_loop :: "('id::linorder, 'r::linorder, 'cp::linorder, 'ratio, 'st, 'cord) cdp_env \<Rightarrow>
    (('r \<times> 'cp) \<times> 'id option) list \<Rightarrow> ('id, 'r, 'cp, 'ratio) IneryUserCDP list \<Rightarrow>
    ('id, 'r, 'cp, 'ratio, 'st, 'cord) cdp_state \<Rightarrow>
    (('id, 'r, 'cp, 'ratio, 'st, 'cord) cdp_state \<times> bool \<times> ('id, 'r, 'cp, 'ratio) IneryUserCDP list) option" where
  "cdp_list_loop E [] cdpList s = Some (s, True, cdpList)"
| "cdp_list_loop E ((_, None) # rest) cdpList s = None"
| "cdp_list_loop E ((_, Some cdpId) # rest) cdpList s =
     do { (s, r) \<leftarrow> C_GetData (cdp_t E) cdpId s;
          case r of
            None \<Rightarrow> Some (s, False, cdpList)
          | Some userCdp \<Rightarrow> cdp_list_loop E rest (cdpList @ [userCdp]) s }"

definition GetCDPList :: "('id::linorder, 'r::linorder, 'cp::linorder, 'ratio, 'st, 'cord) cdp_env \<Rightarrow>
    'r \<Rightarrow> ('id, 'r, 'cp, 'ratio, 'st, 'cord) cdp_state \<Rightarrow>
    (('id, 'r, 'cp, 'ratio, 'st, 'cord) cdp_state \<times> bool \<times> ('id, 'r, 'cp, 'ratio) IneryUserCDP list) option" where
  "GetCDPList E regid s =
     do { items \<leftarrow> C_prefix_items (user_t E) (match_pair1 (empty_cp E) regid) s;
          cdp_list_loop E items [] s }"

definition GetCDP :: "('id::linorder, 'r::linorder, 'cp::linorder, 'ratio, 'st, 'cord) cdp_env \<Rightarrow>
    'id \<Rightarrow> ('id, 'r, 'cp, 'ratio, 'st, 'cord) cdp_state \<Rightarrow>
    (('id, 'r, 'cp, 'ratio, 'st, 'cord) cdp_state \<times> ('id, 'r, 'cp, 'ratio) IneryUserCDP option) option" where
  "GetCDP E cdpId s = C_GetData (cdp_t E) cdpId s"

definition SaveCDPToDB :: "('id::linorder, 'r::linorder, 'cp::linorder, 'ratio, 'st, 'cord) cdp_env \<Rightarrow>
    ('id, 'r, 'cp, 'ratio) IneryUserCDP \<Rightarrow> ('id, 'r, 'cp, 'ratio, 'st, 'cord) cdp_state \<Rightarrow>
    (('id, 'r, 'cp, 'ratio, 'st, 'cord) cdp_state \<times> bool) option" where
  "SaveCDPToDB E cdp s = C_SetData (cdp_t E) (cdpid cdp) cdp s"

definition EraseCDPFromDB :: "('id::linorder, 'r::linorder, 'cp::linorder, 'ratio, 'st, 'cord) cdp_env \<Rightarrow>
    ('id, 'r, 'cp, 'ratio) IneryUserCDP \<Rightarrow> ('id, 'r, 'cp, 'ratio, 'st, 'cord) cdp_state \<Rightarrow>
    (('id, 'r, 'cp, 'ratio, 'st, 'cord) cdp_state \<times> bool) option" where
  "EraseCDPFromDB E cdp s = C_EraseData (cdp_t E) (cdpid cdp) s"

text \<open>The loop over the ratio index stops at the first position above the bound.\<close>

fun ratio_loop :: "uint64 \<Rightarrow> (('cp \<times> uint64 \<times> uint64 \<times> 'id) \<times> 'c) list \<Rightarrow> 'c list \<Rightarrow> 'c list" where
  "ratio_loop ratioBoost [] cdpList = cdpList"
| "ratio_loop ratioBoost ((k, c) # rest) cdpList =
     (if fst (snd k) > ratioBoost then cdpList else ratio_loop ratioBoost rest (cdpList @ [c]))"

definition GetCdpListByCollateralRatio :: "('id::linorder, 'r::linorder, 'cp::linorder, 'ratio, 'st, 'cord) cdp_env \<Rightarrow>
    'cp \<Rightarrow> uint64 \<Rightarrow> uint64 \<Rightarrow> ('id, 'r, 'cp, 'ratio, 'st, 'cord) cdp_state \<Rightarrow>
    ('id, 'r, 'cp, 'ratio) IneryUserCDP list option" where
  "GetCdpListByCollateralRatio E cp collateralRatio medianPrice s =
     do { ratioBoost \<leftarrow> query_ratio_boost E collateralRatio medianPrice;
          items \<leftarrow> C_prefix_items (ratio_t E) (match_tuple4_1 0 0 (empty_id E) cp) s;
          Some (ratio_loop ratioBoost items []) }"

definition GetCdpINR :: "('id::linorder, 'r::linorder, 'cp::linorder, 'ratio, 'st, 'cord) cdp_env \<Rightarrow>
    string \<Rightarrow> ('id, 'r, 'cp, 'ratio, 'st, 'cord) cdp_state \<Rightarrow>
    (('id, 'r, 'cp, 'ratio, 'st, 'cord) cdp_state \<times> ('st, 'cord) IneryCdpINRDetail option) option" where
  "GetCdpINR E INRSymbol s =
     (if INRSymbol \<in> kCdpINRSymbolSet E then Some (s, Some \<lparr>status = STAKE_ON E, init_tx_cord = genesis_cord E\<rparr>)
      else if INRSymbol = symb_wgrt E \<or> INRSymbol \<in> kCdpScoinSymbolSet E then Some (s, None)
      else C_GetData (inr_t E) INRSymbol s)"

definition IsCdpINRActivated :: "('id::linorder, 'r::linorder, 'cp::linorder, 'ratio, 'st, 'cord) cdp_env \<Rightarrow>
    string \<Rightarrow> ('id, 'r, 'cp, 'ratio, 'st, 'cord) cdp_state \<Rightarrow>
    (('id, 'r, 'cp, 'ratio, 'st, 'cord) cdp_state \<times> bool) option" where
  "IsCdpINRActivated E INRSymbol s =
     (if INRSymbol \<in> kCdpINRSymbolSet E then Some (s, True)
      else if INRSymbol = symb_wgrt E \<or> INRSymbol \<in> kCdpScoinSymbolSet E then Some (s, False)
      else C_HasData (inr_t E) INRSymbol s)"

definition SetCdpINR :: "('id::linorder, 'r::linorder, 'cp::linorder, 'ratio, 'st, 'cord) cdp_env \<Rightarrow>
    string \<Rightarrow> ('st, 'cord) IneryCdpINRDetail \<Rightarrow> ('id, 'r, 'cp, 'ratio, 'st, 'cord) cdp_state \<Rightarrow>
    (('id, 'r, 'cp, 'ratio, 'st, 'cord) cdp_state \<times> bool) option" where
  "SetCdpINR E INRSymbol cdpINR s =
     (if INRSymbol \<in> kCdpINRSymbolSet E then Some (s, False)
      else if INRSymbol = symb_wgrt E \<or> INRSymbol \<in> kCdpScoinSymbolSet E then Some (s, False)
      else do { (s, r) \<leftarrow> C_GetData (inr_t E) INRSymbol s;
                case r of
                  Some old \<Rightarrow> C_SetData (inr_t E) INRSymbol (old\<lparr>status := status cdpINR\<rparr>) s
                | None \<Rightarrow> C_SetData (inr_t E) INRSymbol cdpINR s })"

subsection \<open>Closed positions\<close>

datatype CDPCloseType = BY_REDEEM | BY_MANUAL_LIQUIDATE | BY_FORCE_LIQUIDATE

fun closeType_code :: "CDPCloseType \<Rightarrow> uint8" where
  "closeType_code BY_REDEEM = 0"
| "closeType_code BY_MANUAL_LIQUIDATE = 1"
| "closeType_code BY_FORCE_LIQUIDATE = 2"

text \<open>A variable of the enumeration may hold any byte, as one read from the database does.\<close>

definition GetCdpCloseTypeName :: "uint8 \<Rightarrow> string" where
  "GetCdpCloseTypeName t =
     (if t = closeType_code BY_REDEEM then ''redeem''
      else if t = closeType_code BY_FORCE_LIQUIDATE then ''force_liquidate''
      else if t = closeType_code BY_MANUAL_LIQUIDATE then ''manual_liquidate''
      else ''undefined'')"

record 'id closed_cdp_db =
  closedCdpTxCache :: "('id::linorder, 'id \<times> uint8) kvcache"
  closedTxCdpCache :: "('id, 'id \<times> uint8) kvcache"

record 'id closed_cdp_env =
  cc_db :: CDBAccess
  cc_cdp_ops :: "('id, 'id \<times> uint8) kvops"
  cc_tx_ops :: "('id, 'id \<times> uint8) kvops"

definition closed_cdp_t :: "'id::linorder closed_cdp_env \<Rightarrow> ('id closed_cdp_db, 'id, 'id \<times> uint8) table" where
  "closed_cdp_t E = \<lparr>tget = closedCdpTxCache, tput = (\<lambda>c. closedCdpTxCache_update (\<lambda>_. c)),
     tops = cc_cdp_ops E, tdb = cc_db E\<rparr>"

definition closed_tx_t :: "'id::linorder closed_cdp_env \<Rightarrow> ('id closed_cdp_db, 'id, 'id \<times> uint8) table" where
  "closed_tx_t E = \<lparr>tget = closedTxCdpCache, tput = (\<lambda>c. closedTxCdpCache_update (\<lambda>_. c)),
     tops = cc_tx_ops E, tdb = cc_db E\<rparr>"

definition AddClosedCdpIndex :: "'id::linorder closed_cdp_env \<Rightarrow> 'id \<Rightarrow> 'id \<Rightarrow> CDPCloseType \<Rightarrow>
    'id closed_cdp_db dbstate \<Rightarrow> ('id closed_cdp_db dbstate \<times> bool) option" where
  "AddClosedCdpIndex E closedCdpId closedCdpTxId closeType s =
     C_SetData (closed_cdp_t E) closedCdpId (closedCdpTxId, closeType_code closeType) s"

definition AddClosedCdpTxIndex :: "'id::linorder closed_cdp_env \<Rightarrow> 'id \<Rightarrow> 'id \<Rightarrow> CDPCloseType \<Rightarrow>
    'id closed_cdp_db dbstate \<Rightarrow> ('id closed_cdp_db dbstate \<times> bool) option" where
  "AddClosedCdpTxIndex E closedCdpTxId closedCdpId closeType s =
     C_SetData (closed_tx_t E) closedCdpTxId (closedCdpId, closeType_code closeType) s"

definition GetClosedCdpById :: "'id::linorder closed_cdp_env \<Rightarrow> 'id \<Rightarrow> 'id closed_cdp_db dbstate \<Rightarrow>
    ('id closed_cdp_db dbstate \<times> ('id \<times> uint8) option) option" where
  "GetClosedCdpById E closedCdpId s = C_GetData (closed_cdp_t E) closedCdpId s"

definition GetClosedCdpByTxId :: "'id::linorder closed_cdp_env \<Rightarrow> 'id \<Rightarrow> 'id closed_cdp_db dbstate \<Rightarrow>
    ('id closed_cdp_db dbstate \<times> ('id \<times> uint8) option) option" where
  "GetClosedCdpByTxId E closedCdpTxId s = C_GetData (closed_tx_t E) closedCdpTxId s"

end
