(* ===== verification/Table_Index.thy ===== *)
theory Table_Index
  imports Db_Class
begin

text \<open>
  Secondary indexes.  Several classes keep, beside a table of rows, a second table under keys
  computed from the rows.  \<open>index_of m key idx\<close> says that the second holds exactly the rows of
  the first, each under its computed key.  The locale has the one law an index needs, that a
  key determines the row, and what follows for inserting and removing rows.
\<close>

definition index_of :: "('i \<Rightarrow> 'v option) \<Rightarrow> ('i \<Rightarrow> 'v \<Rightarrow> 'k) \<Rightarrow> ('k \<Rightarrow> 'v option) \<Rightarrow> bool" where
  "index_of m key idx \<longleftrightarrow> (\<forall>k c. idx k = Some c \<longleftrightarrow> (\<exists>i. m i = Some c \<and> k = key i c))"

text \<open>\<open>row i v\<close>: the value \<open>v\<close> may be stored under \<open>i\<close>.\<close>

locale keyed_index =
  fixes row :: "'i \<Rightarrow> 'v \<Rightarrow> bool"
    and key :: "'i \<Rightarrow> 'v \<Rightarrow> 'k"
  assumes key_row: "row i a \<Longrightarrow> row j b \<Longrightarrow> key i a = key j b \<Longrightarrow> i = j"
begin

lemma index_insert:
  assumes "index_of m key idx" and "\<And>j b. m j = Some b \<Longrightarrow> row j b" and "row i c" and "m i = None"
  shows "index_of (m(i \<mapsto> c)) key (idx(key i c \<mapsto> c))"
proof -
  have idx: "idx k = Some b \<longleftrightarrow> (\<exists>j. m j = Some b \<and> k = key j b)" for k b
    using assms(1) by (simp add: index_of_def)
  have "(idx(key i c \<mapsto> c)) k = Some b \<longleftrightarrow> (\<exists>j. (m(i \<mapsto> c)) j = Some b \<and> k = key j b)" for k b
  proof (cases "k = key i c")
    case True
    have "j = i" if "m j = Some d" "key i c = key j d" for j d
      using key_row [OF assms(2) [OF that(1)] assms(3)] that(2) by simp
    then have other: "\<not> (\<exists>j. j \<noteq> i \<and> m j = Some b \<and> key i c = key j b)"
      by blast
    have "(\<exists>j. (m(i \<mapsto> c)) j = Some b \<and> key i c = key j b) \<longleftrightarrow> b = c"
      using other assms(4) by (metis fun_upd_apply option.inject)
    with True show ?thesis by auto
  next
    case False
    have "(\<exists>j. (m(i \<mapsto> c)) j = Some b \<and> k = key j b) \<longleftrightarrow> (\<exists>j. m j = Some b \<and> k = key j b)"
      using False assms(4) by (metis fun_upd_apply option.distinct(1) option.inject)
    with False idx show ?thesis by simp
  qed
  then show ?thesis by (simp add: index_of_def)
qed

lemma index_remove:
  assumes "index_of m key idx" and "\<And>j b. m j = Some b \<Longrightarrow> row j b" and "m i = Some c"
  shows "index_of (m(i := None)) key (idx(key i c := None))"
proof -
  have idx: "idx k = Some b \<longleftrightarrow> (\<exists>j. m j = Some b \<and> k = key j b)" for k b
    using assms(1) by (simp add: index_of_def)
  have "(idx(key i c := None)) k = Some b \<longleftrightarrow> (\<exists>j. (m(i := None)) j = Some b \<and> k = key j b)" for k b
  proof (cases "k = key i c")
    case True
    have "j = i" if "m j = Some d" "key i c = key j d" for j d
      using key_row [OF assms(2) [OF that(1)] assms(2) [OF assms(3)]] that(2) by simp
    with True show ?thesis by (auto simp: fun_upd_apply)
  next
    case False
    have "(\<exists>j. (m(i := None)) j = Some b \<and> k = key j b) \<longleftrightarrow> (\<exists>j. m j = Some b \<and> k = key j b)"
      using False assms(3) by (metis fun_upd_apply option.distinct(1) option.inject)
    with False idx show ?thesis by simp
  qed
  then show ?thesis by (simp add: index_of_def)
qed

text \<open>Replacing a row: the old key is erased first, then the new one written.\<close>

lemma index_replace:
  assumes "index_of m key idx" and "\<And>j b. m j = Some b \<Longrightarrow> row j b" and "m i = Some c" and "row i d"
  shows "index_of (m(i \<mapsto> d)) key (idx(key i c := None, key i d \<mapsto> d))"
proof -
  have "row j b" if "(m(i := None)) j = Some b" for j b
    using that assms(2) [of j b] by (simp split: if_splits)
  from index_insert [OF index_remove [OF assms(1-3)] this assms(4)] show ?thesis
    by simp
qed

end

end
