(* ===== verification/Cdp_Inv.thy ===== *)
theory Cdp_Inv
  imports Cdp Table_Index
begin

text \<open>
  The consistency of the tables of \<open>IneryCdpDBCache\<close>: both indexes hold exactly the open
  positions, each user has at most one position per coin pair and the user table finds it,
  and the totals of a coin pair are the sums over its positions.  The steps of the class
  (a new position, an update, a close) are an inductive relation; the invariant holds in
  every state reachable from an empty class.
\<close>

section \<open>Hypotheses and frames\<close>

text \<open>
  The types' functions: a tuple is empty when all its components are (\<open>db_util\<close>); the totals
  are empty when both are zero, and positions have one emptiness test.
\<close>

definition cdp_env_ok :: "('id::linorder, 'r::linorder, 'cp::linorder, 'ratio, 'st, 'cord) cdp_env \<Rightarrow> bool" where
  "cdp_env_ok E \<longleftrightarrow> access_ok (cd_global_ops E) (cd_db E) \<and> access_ok (cd_cdp_ops E) (cd_db E) \<and>
     access_ok (cd_inr_ops E) (cd_db E) \<and> access_ok (cd_user_ops E) (cd_db E) \<and>
     access_ok (cd_ratio_ops E) (cd_db E) \<and> access_ok (cd_height_ops E) (cd_db E) \<and>
     val_empty (cd_global_ops E) = (\<lambda>g. g = \<lparr>total_staked_assets = 0, global_owed_scoins = 0\<rparr>) \<and>
     val_empty (cd_user_ops E) = (\<lambda>v. v = None) \<and>
     val_empty (cd_cdp_ops E) = cdp_IsEmpty E \<and> val_empty (cd_ratio_ops E) = cdp_IsEmpty E \<and>
     val_empty (cd_height_ops E) = cdp_IsEmpty E \<and>
     (\<forall>cp r i x y. \<not> key_empty (cd_global_ops E) cp \<longrightarrow> \<not> key_empty (cd_user_ops E) (r, cp) \<and>
        \<not> key_empty (cd_ratio_ops E) (cp, x, y, i) \<and> \<not> key_empty (cd_height_ops E) (cp, y, i))"

lemmas cd_tables = global_t_def cdp_t_def inr_t_def user_t_def ratio_t_def height_t_def

lemma cd_ok [simp]:
  assumes "cdp_env_ok E"
  shows "table_ok (global_t E)" "table_ok (cdp_t E)" "table_ok (inr_t E)" "table_ok (user_t E)"
    "table_ok (ratio_t E)" "table_ok (height_t E)"
    "val_empty (cd_global_ops E) g = (g = \<lparr>total_staked_assets = 0, global_owed_scoins = 0\<rparr>)"
    "val_empty (cd_user_ops E) v = (v = None)" "val_empty (cd_cdp_ops E) = cdp_IsEmpty E"
    "val_empty (cd_ratio_ops E) = cdp_IsEmpty E" "val_empty (cd_height_ops E) = cdp_IsEmpty E"
    "\<not> key_empty (cd_global_ops E) cp \<Longrightarrow> \<not> key_empty (cd_user_ops E) (r, cp)"
    "\<not> key_empty (cd_global_ops E) cp \<Longrightarrow> \<not> key_empty (cd_ratio_ops E) (cp, x, y, i)"
    "\<not> key_empty (cd_global_ops E) cp \<Longrightarrow> \<not> key_empty (cd_height_ops E) (cp, y, i)"
  using assms by (simp_all add: cdp_env_ok_def table_ok_def cd_tables)

lemma cd_ops [simp]:
  "tops (global_t E) = cd_global_ops E" "tops (cdp_t E) = cd_cdp_ops E" "tops (inr_t E) = cd_inr_ops E"
  "tops (user_t E) = cd_user_ops E" "tops (ratio_t E) = cd_ratio_ops E" "tops (height_t E) = cd_height_ops E"
  by (simp_all add: cd_tables)

lemma cd_indep [simp]:
  "indep (tget (global_t E)) (tput (cdp_t E))" "indep (tget (global_t E)) (tput (user_t E))"
  "indep (tget (global_t E)) (tput (ratio_t E))" "indep (tget (global_t E)) (tput (height_t E))"
  "indep (tget (cdp_t E)) (tput (global_t E))" "indep (tget (cdp_t E)) (tput (user_t E))"
  "indep (tget (cdp_t E)) (tput (ratio_t E))" "indep (tget (cdp_t E)) (tput (height_t E))"
  "indep (tget (user_t E)) (tput (global_t E))" "indep (tget (user_t E)) (tput (cdp_t E))"
  "indep (tget (user_t E)) (tput (ratio_t E))" "indep (tget (user_t E)) (tput (height_t E))"
  "indep (tget (ratio_t E)) (tput (global_t E))" "indep (tget (ratio_t E)) (tput (cdp_t E))"
  "indep (tget (ratio_t E)) (tput (user_t E))" "indep (tget (ratio_t E)) (tput (height_t E))"
  "indep (tget (height_t E)) (tput (global_t E))" "indep (tget (height_t E)) (tput (cdp_t E))"
  "indep (tget (height_t E)) (tput (user_t E))" "indep (tget (height_t E)) (tput (ratio_t E))"
  by (simp_all add: indep_def cd_tables)

section \<open>Effects of the operations\<close>

text \<open>The five tables as functions, and the totals of a coin pair.\<close>

abbreviation cdps where "cdps E s \<equiv> lookup (cdp_t E) s"
abbreviation users where "users E s \<equiv> lookup (user_t E) s"
abbreviation by_ratio where "by_ratio E s \<equiv> lookup (ratio_t E) s"
abbreviation by_height where "by_height E s \<equiv> lookup (height_t E) s"

definition totals :: "('id::linorder, 'r::linorder, 'cp::linorder, 'ratio, 'st, 'cord) cdp_env \<Rightarrow>
    ('id, 'r, 'cp, 'ratio, 'st, 'cord) cdp_state \<Rightarrow> 'cp \<Rightarrow> uint64 \<times> uint64" where
  "totals E s cp = (case lookup (global_t E) s cp of None \<Rightarrow> (0, 0)
     | Some g \<Rightarrow> (total_staked_assets g, global_owed_scoins g))"

definition amounts :: "('id, 'r, 'cp, 'ratio) IneryUserCDP \<Rightarrow> uint64 \<times> uint64" where
  "amounts c = (total_staked_INRs c, total_owed_scoins c)"

lemma GetCdpGlobalData_eq:
  "cdp_env_ok E \<Longrightarrow> GetCdpGlobalData E cp s = Some (after_get (global_t E) cp s,
     \<lparr>total_staked_assets = fst (totals E s cp), global_owed_scoins = snd (totals E s cp)\<rparr>)"
  by (simp add: GetCdpGlobalData_def totals_def split: option.split)

lemma totals_cong: "lookup (global_t E) s' = lookup (global_t E) s \<Longrightarrow> totals E s' = totals E s"
  by (simp add: totals_def fun_eq_iff)

lemma totals_set:
  assumes "cdp_env_ok E" and "\<not> key_empty (cd_global_ops E) cp"
  shows "totals E (after_set (global_t E) cp \<lparr>total_staked_assets = a, global_owed_scoins = b\<rparr> s) =
    (totals E s)(cp := (a, b))"
  using assms by (auto simp: totals_def fun_eq_iff)

definition pair_plus :: "uint64 \<times> uint64 \<Rightarrow> uint64 \<times> uint64 \<Rightarrow> uint64 \<times> uint64" where
  "pair_plus p q = (fst p + fst q, snd p + snd q)"

definition pair_minus :: "uint64 \<times> uint64 \<Rightarrow> uint64 \<times> uint64 \<Rightarrow> uint64 \<times> uint64" where
  "pair_minus p q = (fst p - fst q, snd p - snd q)"

lemma SaveCdpIndexData_ok:
  assumes "cdp_env_ok E" and "\<not> key_empty (cd_global_ops E) (coin_pair c)" and "\<not> cdp_IsEmpty E c"
  shows "\<exists>s'. SaveCdpIndexData E c s = Some (s', True) \<and> cdps E s' = cdps E s \<and> users E s' = users E s \<and>
    by_ratio E s' = (by_ratio E s)(MakeCdpRatioIndexKey E c \<mapsto> c) \<and>
    by_height E s' = (by_height E s)(MakeCdpHeightIndexKey c \<mapsto> c) \<and>
    totals E s' = (totals E s)(coin_pair c := pair_plus (totals E s (coin_pair c)) (amounts c)) \<and>
    iter_ok (ratio_t E) s' = iter_ok (ratio_t E) s \<and> iter_ok (user_t E) s' = iter_ok (user_t E) s"
proof -
  let ?g = "\<lparr>total_staked_assets = fst (totals E s (coin_pair c)) + total_staked_INRs c,
    global_owed_scoins = snd (totals E s (coin_pair c)) + total_owed_scoins c\<rparr>"
  let ?s1 = "after_get (global_t E) (coin_pair c) s"
  let ?s2 = "after_set (global_t E) (coin_pair c) ?g ?s1"
  let ?s3 = "after_set (ratio_t E) (MakeCdpRatioIndexKey E c) c ?s2"
  let ?s4 = "after_set (height_t E) (MakeCdpHeightIndexKey c) c ?s3"
  have k: "\<not> key_empty (cd_ratio_ops E) (MakeCdpRatioIndexKey E c)"
    "\<not> key_empty (cd_height_ops E) (MakeCdpHeightIndexKey c)"
    using assms(1,2) by (simp_all add: MakeCdpRatioIndexKey_def MakeCdpHeightIndexKey_def Let_def)
  have "SaveCdpIndexData E c s = Some (?s4, True)"
    using assms k by (simp add: SaveCdpIndexData_def GetCdpGlobalData_eq Let_def)
  moreover have "totals E ?s4 = totals E ?s2" "totals E ?s1 = totals E s"
    using assms(1) by (intro totals_cong; simp)+
  ultimately show ?thesis
    using assms k by (intro exI [of _ ?s4]) (simp add: totals_set amounts_def pair_plus_def)
qed

lemma EraseCdpIndexData_ok:
  assumes "cdp_env_ok E" and "\<not> key_empty (cd_global_ops E) (coin_pair c)"
  shows "\<exists>s'. EraseCdpIndexData E c s = Some (s', True) \<and> cdps E s' = cdps E s \<and> users E s' = users E s \<and>
    by_ratio E s' = (by_ratio E s)(MakeCdpRatioIndexKey E c := None) \<and>
    by_height E s' = (by_height E s)(MakeCdpHeightIndexKey c := None) \<and>
    totals E s' = (totals E s)(coin_pair c := pair_minus (totals E s (coin_pair c)) (amounts c))"
proof -
  let ?g = "\<lparr>total_staked_assets = fst (totals E s (coin_pair c)) - total_staked_INRs c,
    global_owed_scoins = snd (totals E s (coin_pair c)) - total_owed_scoins c\<rparr>"
  let ?s1 = "after_get (global_t E) (coin_pair c) s"
  let ?s2 = "after_set (global_t E) (coin_pair c) ?g ?s1"
  let ?s3 = "after_erase (ratio_t E) (MakeCdpRatioIndexKey E c) ?s2"
  let ?s4 = "after_erase (height_t E) (MakeCdpHeightIndexKey c) ?s3"
  have k: "\<not> key_empty (cd_ratio_ops E) (MakeCdpRatioIndexKey E c)"
    "\<not> key_empty (cd_height_ops E) (MakeCdpHeightIndexKey c)"
    using assms(1,2) by (simp_all add: MakeCdpRatioIndexKey_def MakeCdpHeightIndexKey_def Let_def)
  have "EraseCdpIndexData E c s = Some (?s4, True)"
    using assms k by (simp add: EraseCdpIndexData_def GetCdpGlobalData_eq Let_def)
  moreover have "totals E ?s4 = totals E ?s2" "totals E ?s1 = totals E s"
    using assms(1) by (intro totals_cong; simp)+
  ultimately show ?thesis
    using assms k by (intro exI [of _ ?s4]) (simp add: totals_set amounts_def pair_minus_def)
qed

section \<open>The invariant\<close>

text \<open>The sum of a quantity over the positions of a coin pair.\<close>

definition pair_sum :: "('i \<Rightarrow> 'c option) \<Rightarrow> ('c \<Rightarrow> bool) \<Rightarrow> ('c \<Rightarrow> 'a::ab_group_add) \<Rightarrow> 'a" where
  "pair_sum m P f = (\<Sum>i \<in> dom m. case m i of Some c \<Rightarrow> if P c then f c else 0 | None \<Rightarrow> 0)"

lemma pair_sum_remove:
  fixes f :: "'c \<Rightarrow> 'a::ab_group_add"
  assumes "finite (dom m)" and "m i = Some c"
  shows "pair_sum m P f = (if P c then f c else 0) + pair_sum (m(i := None)) P f"
proof -
  have d: "i \<in> dom m" "dom (m(i := None)) = dom m - {i}"
    using assms(2) by auto
  have "pair_sum m P f = (if P c then f c else 0) +
      (\<Sum>j \<in> dom m - {i}. case m j of Some c \<Rightarrow> if P c then f c else 0 | None \<Rightarrow> 0)"
    using assms d(1) by (simp add: pair_sum_def sum.remove)
  also have "(\<Sum>j \<in> dom m - {i}. case m j of Some c \<Rightarrow> if P c then f c else 0 | None \<Rightarrow> 0) =
      pair_sum (m(i := None)) P f"
    unfolding pair_sum_def d(2) by (rule sum.cong) auto
  finally show ?thesis .
qed

lemma pair_sum_insert:
  fixes f :: "'c \<Rightarrow> 'a::ab_group_add"
  assumes "finite (dom m)" and "m i = None"
  shows "pair_sum (m(i \<mapsto> c)) P f = (if P c then f c else 0) + pair_sum m P f"
proof -
  have "finite (dom (m(i \<mapsto> c)))" "(m(i \<mapsto> c)) i = Some c"
    using assms(1) by simp_all
  note remove = pair_sum_remove [OF this, of P f]
  have "(m(i \<mapsto> c))(i := None) = m"
    using assms(2) by auto
  with remove show ?thesis
    by (simp only:)
qed

text \<open>Consistency, as a relation between the five tables.\<close>

definition users_of :: "('i \<Rightarrow> ('i, 'r, 'cp, 'ratio) IneryUserCDP option) \<Rightarrow> ('r \<times> 'cp \<Rightarrow> 'i option option) \<Rightarrow> bool" where
  "users_of m u \<longleftrightarrow> (\<forall>r cp v. u (r, cp) = Some v \<longleftrightarrow>
     (\<exists>c. m (cdpid c) = Some c \<and> v = Some (cdpid c) \<and> owner_regid c = r \<and> coin_pair c = cp))"

definition totals_of :: "('i \<Rightarrow> ('i, 'r, 'cp, 'ratio) IneryUserCDP option) \<Rightarrow> ('cp \<Rightarrow> uint64 \<times> uint64) \<Rightarrow> bool" where
  "totals_of m t \<longleftrightarrow> (\<forall>cp. t cp = (pair_sum m (\<lambda>c. coin_pair c = cp) total_staked_INRs,
     pair_sum m (\<lambda>c. coin_pair c = cp) total_owed_scoins))"

definition consistent :: "('i, 'r, 'cp, 'ratio, 'st, 'cord) cdp_env \<Rightarrow> ('i \<Rightarrow> ('i, 'r, 'cp, 'ratio) IneryUserCDP option) \<Rightarrow>
    ('r \<times> 'cp \<Rightarrow> 'i option option) \<Rightarrow>
    ('cp \<times> uint64 \<times> uint64 \<times> 'i \<Rightarrow> ('i, 'r, 'cp, 'ratio) IneryUserCDP option) \<Rightarrow>
    ('cp \<times> uint64 \<times> 'i \<Rightarrow> ('i, 'r, 'cp, 'ratio) IneryUserCDP option) \<Rightarrow> ('cp \<Rightarrow> uint64 \<times> uint64) \<Rightarrow> bool" where
  "consistent E m u x h t \<longleftrightarrow> finite (dom m) \<and> (\<forall>i c. m i = Some c \<longrightarrow> cdpid c = i) \<and>
     index_of m (\<lambda>_. MakeCdpRatioIndexKey E) x \<and> index_of m (\<lambda>_. MakeCdpHeightIndexKey) h \<and> users_of m u \<and> totals_of m t"

lemma index_key_id:
  "MakeCdpRatioIndexKey E a = MakeCdpRatioIndexKey E b \<Longrightarrow> cdpid a = cdpid b"
  "MakeCdpHeightIndexKey a = MakeCdpHeightIndexKey b \<Longrightarrow> cdpid a = cdpid b"
  by (simp_all add: MakeCdpRatioIndexKey_def MakeCdpHeightIndexKey_def Let_def)

text \<open>Both indexes: their keys contain the identifier of the position.\<close>

interpretation ratio_index: keyed_index "\<lambda>i c. cdpid c = i" "\<lambda>_. MakeCdpRatioIndexKey E" for E
  by unfold_locales (metis index_key_id(1))

interpretation height_index: keyed_index "\<lambda>i c. cdpid c = i" "\<lambda>_. MakeCdpHeightIndexKey"
  by unfold_locales (metis index_key_id(2))

lemma users_insert:
  assumes "users_of m u" and "m (cdpid c) = None" and "u (owner_regid c, coin_pair c) = None"
  shows "users_of (m(cdpid c \<mapsto> c)) (u((owner_regid c, coin_pair c) \<mapsto> Some (cdpid c)))"
proof -
  have i: "u (r, cp) = Some v \<longleftrightarrow>
      (\<exists>c. m (cdpid c) = Some c \<and> v = Some (cdpid c) \<and> owner_regid c = r \<and> coin_pair c = cp)" for r cp v
    using assms(1) by (simp add: users_of_def)
  have none: "\<not> (m (cdpid b) = Some b \<and> owner_regid b = owner_regid c \<and> coin_pair b = coin_pair c)" for b
    using i [of "owner_regid c" "coin_pair c" "Some (cdpid b)"] assms(3) by auto
  have "(u((owner_regid c, coin_pair c) \<mapsto> Some (cdpid c))) (r, cp) = Some v \<longleftrightarrow>
      (\<exists>b. (m(cdpid c \<mapsto> c)) (cdpid b) = Some b \<and> v = Some (cdpid b) \<and> owner_regid b = r \<and> coin_pair b = cp)" for r cp v
  proof (cases "r = owner_regid c \<and> cp = coin_pair c")
    case True
    with none show ?thesis by auto
  next
    case False
    then have "(u((owner_regid c, coin_pair c) \<mapsto> Some (cdpid c))) (r, cp) = u (r, cp)"
      by auto
    moreover have "(\<exists>b. (m(cdpid c \<mapsto> c)) (cdpid b) = Some b \<and> v = Some (cdpid b) \<and> owner_regid b = r \<and> coin_pair b = cp)
        \<longleftrightarrow> (\<exists>b. m (cdpid b) = Some b \<and> v = Some (cdpid b) \<and> owner_regid b = r \<and> coin_pair b = cp)"
      using False assms(2) by (intro iff_exI) (auto split: if_splits)
    ultimately show ?thesis
      using i [of r cp v] by (simp only:)
  qed
  then show ?thesis by (simp add: users_of_def)
qed

lemma users_at:
  "users_of m u \<Longrightarrow> m (cdpid c) = Some c \<Longrightarrow> u (owner_regid c, coin_pair c) = Some (Some (cdpid c))"
  unfolding users_of_def by blast

lemma users_remove:
  assumes "users_of m u" and "m (cdpid c) = Some c"
  shows "users_of (m(cdpid c := None)) (u((owner_regid c, coin_pair c) := None))"
proof -
  have i: "u (r, cp) = Some v \<longleftrightarrow>
      (\<exists>c. m (cdpid c) = Some c \<and> v = Some (cdpid c) \<and> owner_regid c = r \<and> coin_pair c = cp)" for r cp v
    using assms(1) by (simp add: users_of_def)
  have unique: "cdpid b = cdpid c" if "m (cdpid b) = Some b" "owner_regid b = owner_regid c" "coin_pair b = coin_pair c" for b
    using users_at [OF assms] users_at [OF assms(1) that(1)] that(2,3) by simp
  have "(u((owner_regid c, coin_pair c) := None)) (r, cp) = Some v \<longleftrightarrow>
      (\<exists>b. (m(cdpid c := None)) (cdpid b) = Some b \<and> v = Some (cdpid b) \<and> owner_regid b = r \<and> coin_pair b = cp)" for r cp v
  proof (cases "r = owner_regid c \<and> cp = coin_pair c")
    case True
    with unique show ?thesis by auto
  next
    case False
    then have "(u((owner_regid c, coin_pair c) := None)) (r, cp) = u (r, cp)"
      by auto
    moreover have "(\<exists>b. (m(cdpid c := None)) (cdpid b) = Some b \<and> v = Some (cdpid b) \<and> owner_regid b = r \<and> coin_pair b = cp)
        \<longleftrightarrow> (\<exists>b. m (cdpid b) = Some b \<and> v = Some (cdpid b) \<and> owner_regid b = r \<and> coin_pair b = cp)"
      using False assms(2) by (intro iff_exI) (auto split: if_splits)
    ultimately show ?thesis
      using i [of r cp v] by (simp only:)
  qed
  then show ?thesis by (simp add: users_of_def)
qed

lemma totals_insert:
  assumes "totals_of m t" and "finite (dom m)" and "m (cdpid c) = None"
  shows "totals_of (m(cdpid c \<mapsto> c)) (t(coin_pair c := pair_plus (t (coin_pair c)) (amounts c)))"
  using assms by (auto simp: totals_of_def pair_sum_insert pair_plus_def amounts_def)

lemma totals_remove:
  assumes "totals_of m t" and "finite (dom m)" and "m (cdpid c) = Some c"
  shows "totals_of (m(cdpid c := None)) (t(coin_pair c := pair_minus (t (coin_pair c)) (amounts c)))"
  using assms by (auto simp: totals_of_def pair_sum_remove [OF assms(2,3)] pair_minus_def amounts_def)

lemma consistent_insert:
  assumes "consistent E m u x h t" and "m (cdpid c) = None" and "u (owner_regid c, coin_pair c) = None"
  shows "consistent E (m(cdpid c \<mapsto> c)) (u((owner_regid c, coin_pair c) \<mapsto> Some (cdpid c)))
    (x(MakeCdpRatioIndexKey E c \<mapsto> c)) (h(MakeCdpHeightIndexKey c \<mapsto> c))
    (t(coin_pair c := pair_plus (t (coin_pair c)) (amounts c)))"
proof -
  have c: "finite (dom m)" "\<And>i c. m i = Some c \<Longrightarrow> cdpid c = i" "index_of m (\<lambda>_. MakeCdpRatioIndexKey E) x"
    "index_of m (\<lambda>_. MakeCdpHeightIndexKey) h" "users_of m u" "totals_of m t"
    using assms(1) by (auto simp: consistent_def)
  have "finite (dom (m(cdpid c \<mapsto> c)))"
    using c(1) by simp
  moreover have "\<forall>i b. (m(cdpid c \<mapsto> c)) i = Some b \<longrightarrow> cdpid b = i"
    using c(2) by auto
  ultimately show ?thesis
    unfolding consistent_def
    using ratio_index.index_insert [OF c(3,2) refl assms(2)] height_index.index_insert [OF c(4,2) refl assms(2)]
      users_insert [OF c(5) assms(2,3)] totals_insert [OF c(6,1) assms(2)]
    by (intro conjI)
qed

lemma consistent_remove:
  assumes "consistent E m u x h t" and "m (cdpid c) = Some c"
  shows "consistent E (m(cdpid c := None)) (u((owner_regid c, coin_pair c) := None))
    (x(MakeCdpRatioIndexKey E c := None)) (h(MakeCdpHeightIndexKey c := None))
    (t(coin_pair c := pair_minus (t (coin_pair c)) (amounts c)))"
proof -
  have c: "finite (dom m)" "\<And>i c. m i = Some c \<Longrightarrow> cdpid c = i" "index_of m (\<lambda>_. MakeCdpRatioIndexKey E) x"
    "index_of m (\<lambda>_. MakeCdpHeightIndexKey) h" "users_of m u" "totals_of m t"
    using assms(1) by (auto simp: consistent_def)
  have "finite (dom (m(cdpid c := None)))"
    using c(1) by (rule finite_subset [rotated]) auto
  moreover have "\<forall>i b. (m(cdpid c := None)) i = Some b \<longrightarrow> cdpid b = i"
    using c(2) by auto
  ultimately show ?thesis
    unfolding consistent_def
    using ratio_index.index_remove [OF c(3,2) assms(2)] height_index.index_remove [OF c(4,2) assms(2)]
      users_remove [OF c(5) assms(2)] totals_remove [OF c(6,1) assms(2)]
    by (intro conjI)
qed

definition cdp_inv :: "('id::linorder, 'r::linorder, 'cp::linorder, 'ratio, 'st, 'cord) cdp_env \<Rightarrow>
    ('id, 'r, 'cp, 'ratio, 'st, 'cord) cdp_state \<Rightarrow> bool" where
  "cdp_inv E s \<longleftrightarrow> consistent E (cdps E s) (users E s) (by_ratio E s) (by_height E s) (totals E s)"

text \<open>The steps of the class, on arguments as the transactions make them.\<close>

inductive cdp_step :: "('id::linorder, 'r::linorder, 'cp::linorder, 'ratio, 'st, 'cord) cdp_env \<Rightarrow>
    ('id, 'r, 'cp, 'ratio, 'st, 'cord) cdp_state \<Rightarrow> ('id, 'r, 'cp, 'ratio, 'st, 'cord) cdp_state \<Rightarrow> bool"
  for E where
  new_step: "NewCDP E c s = Some (s', True) \<Longrightarrow> cdps E s (cdpid c) = None \<Longrightarrow>
     users E s (owner_regid c, coin_pair c) = None \<Longrightarrow> \<not> key_empty (cd_global_ops E) (coin_pair c) \<Longrightarrow>
     \<not> cdp_IsEmpty E c \<Longrightarrow> cdp_step E s s'"
| update_step: "UpdateCDP E old c s = Some (s', True) \<Longrightarrow> cdps E s (cdpid c) = Some old \<Longrightarrow>
     owner_regid c = owner_regid old \<Longrightarrow> coin_pair c = coin_pair old \<Longrightarrow>
     \<not> key_empty (cd_global_ops E) (coin_pair c) \<Longrightarrow> cdp_step E s s'"
| erase_step: "EraseCDP E old c s = Some (s', True) \<Longrightarrow> cdps E s (cdpid c) = Some old \<Longrightarrow>
     owner_regid c = owner_regid old \<Longrightarrow> coin_pair c = coin_pair old \<Longrightarrow>
     \<not> key_empty (cd_global_ops E) (coin_pair c) \<Longrightarrow> cdp_step E s s'"

inductive cdp_reach :: "('id::linorder, 'r::linorder, 'cp::linorder, 'ratio, 'st, 'cord) cdp_env \<Rightarrow>
    ('id, 'r, 'cp, 'ratio, 'st, 'cord) cdp_state \<Rightarrow> ('id, 'r, 'cp, 'ratio, 'st, 'cord) cdp_state \<Rightarrow> bool"
  for E where
  reach_start: "cdp_reach E s s"
| reach_step: "cdp_reach E s t \<Longrightarrow> cdp_step E t u \<Longrightarrow> cdp_reach E s u"

inductive_cases cdp_stepE: "cdp_step E s s'"

lemma NewCDP_effect:
  assumes "cdp_env_ok E" and "\<not> key_empty (cd_global_ops E) (coin_pair c)" and "\<not> cdp_IsEmpty E c"
    and "\<not> key_empty (cd_cdp_ops E) (cdpid c)"
  shows "\<exists>s'. NewCDP E c s = Some (s', True) \<and> cdps E s' = (cdps E s)(cdpid c \<mapsto> c) \<and>
    users E s' = (users E s)((owner_regid c, coin_pair c) \<mapsto> Some (cdpid c)) \<and>
    by_ratio E s' = (by_ratio E s)(MakeCdpRatioIndexKey E c \<mapsto> c) \<and>
    by_height E s' = (by_height E s)(MakeCdpHeightIndexKey c \<mapsto> c) \<and>
    totals E s' = (totals E s)(coin_pair c := pair_plus (totals E s (coin_pair c)) (amounts c)) \<and>
    iter_ok (ratio_t E) s' = iter_ok (ratio_t E) s \<and> iter_ok (user_t E) s' = iter_ok (user_t E) s"
proof -
  let ?s1 = "after_set (cdp_t E) (cdpid c) c s"
  let ?s2 = "after_set (user_t E) (owner_regid c, coin_pair c) (Some (cdpid c)) ?s1"
  have "totals E ?s2 = totals E s"
    using assms(1) by (intro totals_cong) simp
  moreover have "NewCDP E c s = SaveCdpIndexData E c ?s2"
    using assms by (simp add: NewCDP_def)
  ultimately show ?thesis
    using SaveCdpIndexData_ok [OF assms(1-3), of ?s2] assms by simp
qed

lemma UpdateCDP_effect:
  assumes "cdp_env_ok E" and "\<not> key_empty (cd_global_ops E) (coin_pair c)" and "\<not> cdp_IsEmpty E c"
    and "\<not> key_empty (cd_cdp_ops E) (cdpid c)" and "coin_pair old = coin_pair c"
  shows "\<exists>s'. UpdateCDP E old c s = Some (s', True) \<and> cdps E s' = (cdps E s)(cdpid c \<mapsto> c) \<and>
    users E s' = users E s \<and>
    by_ratio E s' = (by_ratio E s)(MakeCdpRatioIndexKey E old := None, MakeCdpRatioIndexKey E c \<mapsto> c) \<and>
    by_height E s' = (by_height E s)(MakeCdpHeightIndexKey old := None, MakeCdpHeightIndexKey c \<mapsto> c) \<and>
    totals E s' = (totals E s)(coin_pair c :=
      pair_plus (pair_minus (totals E s (coin_pair c)) (amounts old)) (amounts c))"
proof -
  let ?s1 = "after_set (cdp_t E) (cdpid c) c s"
  have "\<not> key_empty (cd_global_ops E) (coin_pair old)"
    using assms(2,5) by simp
  from EraseCdpIndexData_ok [OF assms(1) this, of ?s1] obtain s2 where s2:
    "EraseCdpIndexData E old ?s1 = Some (s2, True)" "cdps E s2 = cdps E ?s1" "users E s2 = users E ?s1"
    "by_ratio E s2 = (by_ratio E ?s1)(MakeCdpRatioIndexKey E old := None)"
    "by_height E s2 = (by_height E ?s1)(MakeCdpHeightIndexKey old := None)"
    "totals E s2 = (totals E ?s1)(coin_pair old := pair_minus (totals E ?s1 (coin_pair old)) (amounts old))"
    by blast
  have "totals E ?s1 = totals E s"
    using assms(1) by (intro totals_cong) simp
  moreover have "UpdateCDP E old c s = SaveCdpIndexData E c s2"
    using assms s2(1) by (simp add: UpdateCDP_def)
  ultimately show ?thesis
    using SaveCdpIndexData_ok [OF assms(1-3), of s2] assms s2 by simp blast
qed

lemma EraseCDP_effect:
  assumes "cdp_env_ok E" and "\<not> key_empty (cd_global_ops E) (coin_pair old)"
    and "\<not> key_empty (cd_cdp_ops E) (cdpid c)" and "coin_pair c = coin_pair old"
  shows "\<exists>s'. EraseCDP E old c s = Some (s', True) \<and> cdps E s' = (cdps E s)(cdpid c := None) \<and>
    users E s' = (users E s)((owner_regid c, coin_pair c) := None) \<and>
    by_ratio E s' = (by_ratio E s)(MakeCdpRatioIndexKey E old := None) \<and>
    by_height E s' = (by_height E s)(MakeCdpHeightIndexKey old := None) \<and>
    totals E s' = (totals E s)(coin_pair old := pair_minus (totals E s (coin_pair old)) (amounts old))"
proof -
  let ?s1 = "after_erase (cdp_t E) (cdpid c) s"
  let ?s2 = "after_erase (user_t E) (owner_regid c, coin_pair c) ?s1"
  have "totals E ?s2 = totals E s"
    using assms(1) by (intro totals_cong) simp
  moreover have "EraseCDP E old c s = EraseCdpIndexData E old ?s2"
    using assms by (simp add: EraseCDP_def)
  ultimately show ?thesis
    using EraseCdpIndexData_ok [OF assms(1,2), of ?s2] assms by simp
qed

text \<open>Every step keeps the invariant.\<close>

lemma key_of_stored: "cdps E s i = Some c \<Longrightarrow> \<not> key_empty (cd_cdp_ops E) i"
  using lookup_not_empty [of "cdp_t E" s i c] by simp

lemma new_step_inv:
  assumes "cdp_env_ok E" and "cdp_inv E s" and "NewCDP E c s = Some (s', True)"
    and "cdps E s (cdpid c) = None" and "users E s (owner_regid c, coin_pair c) = None"
    and "\<not> key_empty (cd_global_ops E) (coin_pair c)" and "\<not> cdp_IsEmpty E c"
  shows "cdp_inv E s'"
proof -
  have "\<not> key_empty (cd_cdp_ops E) (cdpid c)"
    using assms(1,3) by (auto simp: NewCDP_def split: if_splits)
  from NewCDP_effect [OF assms(1,6,7) this, of s] assms(3) have
    "cdps E s' = (cdps E s)(cdpid c \<mapsto> c)"
    "users E s' = (users E s)((owner_regid c, coin_pair c) \<mapsto> Some (cdpid c))"
    "by_ratio E s' = (by_ratio E s)(MakeCdpRatioIndexKey E c \<mapsto> c)"
    "by_height E s' = (by_height E s)(MakeCdpHeightIndexKey c \<mapsto> c)"
    "totals E s' = (totals E s)(coin_pair c := pair_plus (totals E s (coin_pair c)) (amounts c))"
    by auto
  then show ?thesis
    using consistent_insert [OF assms(2) [unfolded cdp_inv_def] assms(4,5)] by (simp only: cdp_inv_def)
qed

lemma update_step_inv:
  assumes "cdp_env_ok E" and "cdp_inv E s" and "UpdateCDP E old c s = Some (s', True)"
    and "cdps E s (cdpid c) = Some old" and "owner_regid c = owner_regid old" and "coin_pair c = coin_pair old"
    and "\<not> key_empty (cd_global_ops E) (coin_pair c)"
  shows "cdp_inv E s'"
proof -
  have id: "cdpid old = cdpid c"
    using assms(2,4) unfolding cdp_inv_def consistent_def by blast
  have "\<not> cdp_IsEmpty E c"
    using assms(3) by (auto simp: UpdateCDP_def split: if_splits)
  from UpdateCDP_effect [OF assms(1,7) this key_of_stored [OF assms(4)] assms(6) [symmetric], of s] assms(3)
  have eff: "cdps E s' = (cdps E s)(cdpid c \<mapsto> c)" "users E s' = users E s"
    "by_ratio E s' = (by_ratio E s)(MakeCdpRatioIndexKey E old := None, MakeCdpRatioIndexKey E c \<mapsto> c)"
    "by_height E s' = (by_height E s)(MakeCdpHeightIndexKey old := None, MakeCdpHeightIndexKey c \<mapsto> c)"
    "totals E s' = (totals E s)(coin_pair c := pair_plus (pair_minus (totals E s (coin_pair c)) (amounts old)) (amounts c))"
    by auto
  have old: "cdps E s (cdpid old) = Some old"
    using assms(4) id by simp
  have "users_of (cdps E s) (users E s)"
    using assms(2) by (simp add: cdp_inv_def consistent_def)
  from users_at [OF this old] have u: "users E s (owner_regid c, coin_pair c) = Some (Some (cdpid c))"
    by (simp add: assms(5,6) id)
  note removed = consistent_remove [OF assms(2) [unfolded cdp_inv_def] old]
  have "consistent E ((cdps E s)(cdpid old := None, cdpid c \<mapsto> c))
      ((users E s)((owner_regid old, coin_pair old) := None, (owner_regid c, coin_pair c) \<mapsto> Some (cdpid c)))
      ((by_ratio E s)(MakeCdpRatioIndexKey E old := None, MakeCdpRatioIndexKey E c \<mapsto> c))
      ((by_height E s)(MakeCdpHeightIndexKey old := None, MakeCdpHeightIndexKey c \<mapsto> c))
      ((totals E s)(coin_pair old := pair_minus (totals E s (coin_pair old)) (amounts old),
         coin_pair c := pair_plus (((totals E s)(coin_pair old :=
           pair_minus (totals E s (coin_pair old)) (amounts old))) (coin_pair c)) (amounts c)))"
    by (rule consistent_insert [OF removed]) (simp_all add: id assms(5,6))
  moreover have "(users E s)((owner_regid c, coin_pair c) := None, (owner_regid c, coin_pair c) \<mapsto> Some (cdpid c)) = users E s"
    using u by (simp add: fun_upd_idem)
  ultimately show ?thesis
    using assms(5,6) id unfolding cdp_inv_def eff by simp
qed

lemma erase_step_inv:
  assumes "cdp_env_ok E" and "cdp_inv E s" and "EraseCDP E old c s = Some (s', True)"
    and "cdps E s (cdpid c) = Some old" and "owner_regid c = owner_regid old" and "coin_pair c = coin_pair old"
    and "\<not> key_empty (cd_global_ops E) (coin_pair c)"
  shows "cdp_inv E s'"
proof -
  have id: "cdpid old = cdpid c"
    using assms(2,4) unfolding cdp_inv_def consistent_def by blast
  have k: "\<not> key_empty (cd_global_ops E) (coin_pair old)"
    using assms(6,7) by simp
  from EraseCDP_effect [OF assms(1) k key_of_stored [OF assms(4)] assms(6), of s] assms(3)
  have "cdps E s' = (cdps E s)(cdpid old := None)"
    "users E s' = (users E s)((owner_regid old, coin_pair old) := None)"
    "by_ratio E s' = (by_ratio E s)(MakeCdpRatioIndexKey E old := None)"
    "by_height E s' = (by_height E s)(MakeCdpHeightIndexKey old := None)"
    "totals E s' = (totals E s)(coin_pair old := pair_minus (totals E s (coin_pair old)) (amounts old))"
    by (auto simp: id assms(5,6))
  moreover have "cdps E s (cdpid old) = Some old"
    using assms(4) id by simp
  ultimately show ?thesis
    using consistent_remove [OF assms(2) [unfolded cdp_inv_def]] by (simp only: cdp_inv_def)
qed

lemma cdp_step_inv:
  assumes "cdp_env_ok E" and "cdp_step E s s'" and "cdp_inv E s"
  shows "cdp_inv E s'"
  using assms(2)
proof (cases rule: cdp_step.cases)
  case (new_step c)
  show ?thesis
    by (rule new_step_inv [OF assms(1,3) new_step])
next
  case (update_step old c)
  show ?thesis
    by (rule update_step_inv [OF assms(1,3) update_step])
next
  case (erase_step old c)
  show ?thesis
    by (rule erase_step_inv [OF assms(1,3) erase_step])
qed

lemma cdp_reach_inv: "cdp_reach E s t \<Longrightarrow> cdp_env_ok E \<Longrightarrow> cdp_inv E s \<Longrightarrow> cdp_inv E t"
  by (induction rule: cdp_reach.induct) (auto intro: cdp_step_inv)

section \<open>Queries\<close>

text \<open>The ratio under which the index has a position.\<close>

definition index_ratio :: "('id, 'r, 'cp, 'ratio, 'st, 'cord) cdp_env \<Rightarrow> ('id, 'r, 'cp, 'ratio) IneryUserCDP \<Rightarrow> uint64" where
  "index_ratio E c = fst (snd (MakeCdpRatioIndexKey E c))"

lemma ratio_loop_takeWhile:
  "ratio_loop b xs acc = acc @ map snd (takeWhile (\<lambda>x. fst (snd (fst x)) \<le> b) xs)"
  by (induction b xs acc rule: ratio_loop.induct) (auto simp: not_less)

lemma takeWhile_sorted_filter:
  fixes f :: "'a \<Rightarrow> 'b::linorder"
  shows "sorted (map f xs) \<Longrightarrow> takeWhile (\<lambda>x. f x \<le> b) xs = filter (\<lambda>x. f x \<le> b) xs"
  by (induction xs) (auto simp: empty_filter_conv dest: order_trans)

lemma pair_rows_sorted:
  fixes xs :: "(('cp::linorder \<times> 'w::linorder \<times> 'k::linorder) \<times> 'v) list"
  assumes "sorted_keys xs" and "\<forall>x \<in> set xs. fst (fst x) = cp"
  shows "sorted (map (\<lambda>x. fst (snd (fst x))) xs)"
  using assms
  by (induction xs) (auto simp: sorted_keys_def less_prod_def le_less split: prod.splits)

lemma match_tuple4_ok:
  assumes "\<forall>b. e1 \<le> b" and "\<forall>b. e2 \<le> b" and "\<forall>b. e3 \<le> b" and "\<not> key_empty T (pre, e1, e2, e3)"
  shows "matcher_ok T (match_tuple4_1 e1 e2 e3 (pre :: 'a::linorder))"
proof -
  have "\<not> key_empty T (last_key (match_tuple4_1 e1 e2 e3 pre))"
    using assms(4) by (simp add: match_tuple4_1_def)
  with match_tuple4_interval [OF assms(1-3), of pre] show ?thesis
    unfolding matcher_ok_def by blast
qed

lemma map_fst_snd_distinct:
  assumes "sorted_keys ys" and "\<And>x. x \<in> set ys \<Longrightarrow> fst x = f (g (snd x))"
  shows "distinct (map (\<lambda>x. g (snd x)) ys)"
proof -
  have "map fst ys = map f (map (\<lambda>x. g (snd x)) ys)"
    using assms(2) by auto
  with sorted_keys_distinct [OF assms(1)] have "distinct (map f (map (\<lambda>x. g (snd x)) ys))"
    by simp
  then show ?thesis
    by (simp only: distinct_map)
qed

lemma cdp_list_loop_eq:
  assumes "cdp_env_ok E" and "\<forall>x \<in> set items. \<exists>i c. snd x = Some i \<and> cdps E s i = Some c"
  shows "\<exists>s'. cdp_list_loop E items acc s =
    Some (s', True, acc @ map (\<lambda>x. the (cdps E s (the (snd x)))) items)"
  using assms(2)
proof (induction items arbitrary: acc s)
  case (Cons x items)
  then obtain k i c where x: "x = (k, Some i)" "cdps E s i = Some c"
    by (cases x) auto
  have "cdps E (after_get (cdp_t E) i s) = cdps E s"
    using assms(1) by simp
  with Cons.IH [of "after_get (cdp_t E) i s" "acc @ [c]"] Cons.prems x assms(1) show ?case
    by simp
qed simp

section \<open>A concrete instance\<close>

definition zero_cdp :: "(uint64, uint64, uint64, uint64) IneryUserCDP" where
  "zero_cdp = \<lparr>cdpid = 0, owner_regid = 0, coin_pair = 0, block_height = 0, total_staked_INRs = 0,
     total_owed_scoins = 0, collateral_ratio_base = 0\<rparr>"

definition sample_cdp_c :: "(uint64, uint64, uint64, uint64) IneryUserCDP coder" where
  "sample_cdp_c = iso_c
     (\<lambda>c. (cdpid c, owner_regid c, coin_pair c, block_height c, total_staked_INRs c, total_owed_scoins c,
        collateral_ratio_base c))
     (\<lambda>(i, r, cp, h, a, b, x). \<lparr>cdpid = i, owner_regid = r, coin_pair = cp, block_height = h,
        total_staked_INRs = a, total_owed_scoins = b, collateral_ratio_base = x\<rparr>)
     (word_pair_c (word_pair_c (word_pair_c (word_pair_c (word_pair_c (word_pair_c word_c))))))"

definition sample_global_c :: "IneryCdpGlobalData coder" where
  "sample_global_c = iso_c (\<lambda>g. (total_staked_assets g, global_owed_scoins g))
     (\<lambda>(a, b). \<lparr>total_staked_assets = a, global_owed_scoins = b\<rparr>) (word_pair_c word_c)"

definition sample_inr_c :: "(bool, uint64) IneryCdpINRDetail coder" where
  "sample_inr_c = iso_c (\<lambda>d. (status d, init_tx_cord d)) (\<lambda>(a, b). \<lparr>status = a, init_tx_cord = b\<rparr>)
     (pair_c bool_c word_c)"

lemma sample_cdp_coders [simp]: "coder_ok sample_cdp_c" "coder_ok sample_global_c" "coder_ok sample_inr_c"
  by (simp_all add: sample_cdp_c_def sample_global_c_def sample_inr_c_def)

definition sample_cdp_env :: "(uint64, uint64, uint64, uint64, bool, uint64) cdp_env" where
  "sample_cdp_env = \<lparr>cd_db = empty_db DB_CDP,
     cd_global_ops = sample_ops CDP_GLOBAL_DATA uint_db (plain_db \<lparr>total_staked_assets = 0, global_owed_scoins = 0\<rparr>)
       \<lparr>total_staked_assets = 0, global_owed_scoins = 0\<rparr> word_c sample_global_c,
     cd_cdp_ops = sample_ops CDP uint_db (plain_db zero_cdp) zero_cdp word_c sample_cdp_c,
     cd_inr_ops = sample_ops CDP_INR string_db (plain_db \<lparr>status = False, init_tx_cord = 0\<rparr>)
       \<lparr>status = False, init_tx_cord = 0\<rparr> string_c sample_inr_c,
     cd_user_ops = sample_ops USER_CDP (pair_db uint_db uint_db) (optional_db uint_db) None
       (word_pair_c word_c) (option_c word_c),
     cd_ratio_ops = sample_ops CDP_RATIO_INDEX (pair_db uint_db (pair_db uint_db (pair_db uint_db uint_db)))
       (plain_db zero_cdp) zero_cdp (word_pair_c (word_pair_c (word_pair_c word_c))) sample_cdp_c,
     cd_height_ops = sample_ops CDP_HEIGHT_INDEX (pair_db uint_db (pair_db uint_db uint_db))
       (plain_db zero_cdp) zero_cdp (word_pair_c (word_pair_c word_c)) sample_cdp_c,
     cdp_IsEmpty = (\<lambda>c. c = zero_cdp), boosted_ratio = (\<lambda>x. x), ratio_overflown = (\<lambda>_ _. False),
     query_ratio_boost = (\<lambda>x p. Some x), empty_id = 0, empty_cp = 0, kCdpINRSymbolSet = {''WICC''},
     kCdpScoinSymbolSet = {''WUSD''}, symb_wgrt = ''WGRT'', STAKE_ON = True, genesis_cord = 0\<rparr>"

definition sample_cdp_db :: "(uint64, uint64, uint64, uint64, bool, uint64) cdp_db" where
  "sample_cdp_db = \<lparr>cdp_global_data_cache = DbCache (empty_node True), cdp_cache = DbCache (empty_node True),
     cdp_INR_cache = DbCache (empty_node True), user_cdp_cache = DbCache (empty_node True),
     cdp_ratio_index_cache = DbCache (empty_node True), cdp_height_index_cache = DbCache (empty_node True)\<rparr>"

definition sample_cdp :: "(uint64, uint64, uint64, uint64) IneryUserCDP" where
  "sample_cdp = \<lparr>cdpid = 5, owner_regid = 7, coin_pair = 1, block_height = 9, total_staked_INRs = 100,
     total_owed_scoins = 40, collateral_ratio_base = 2\<rparr>"

lemma sample_cdp_env_ok [simp]: "cdp_env_ok sample_cdp_env"
  by (auto simp: cdp_env_ok_def sample_cdp_env_def sample_access_ok is_data_prefix_def fun_eq_iff)

lemma sample_cdp_empty [simp]:
  "cdps sample_cdp_env (sample_cdp_db, lg) i = None" "users sample_cdp_env (sample_cdp_db, lg) k = None"
  "by_ratio sample_cdp_env (sample_cdp_db, lg) x = None" "by_height sample_cdp_env (sample_cdp_db, lg) y = None"
  "lookup (global_t sample_cdp_env) (sample_cdp_db, lg) cp = None"
  by (simp_all add: lookup_def view_def visible_def cd_tables sample_cdp_db_def sample_cdp_env_def db_val_def
      empty_node_def)

lemma sample_cdp_iter [simp]:
  "iter_ok (ratio_t sample_cdp_env) (sample_cdp_db, lg)" "iter_ok (user_t sample_cdp_env) (sample_cdp_db, lg)"
  by (simp_all add: iter_ok_def cd_tables sample_cdp_env_def sample_cdp_db_def sample_iter_hyps is_data_prefix_def)

lemma sample_cdp_inv [simp]: "cdp_inv sample_cdp_env (sample_cdp_db, lg)"
proof -
  have "cdps sample_cdp_env (sample_cdp_db, lg) = Map.empty" "users sample_cdp_env (sample_cdp_db, lg) = Map.empty"
    "by_ratio sample_cdp_env (sample_cdp_db, lg) = Map.empty" "by_height sample_cdp_env (sample_cdp_db, lg) = Map.empty"
    "totals sample_cdp_env (sample_cdp_db, lg) = (\<lambda>_. (0, 0))"
    by (simp_all add: fun_eq_iff totals_def)
  then show ?thesis
    by (simp add: cdp_inv_def consistent_def index_of_def users_of_def totals_of_def pair_sum_def)
qed

lemma sample_cdp_simps [simp]:
  "key_empty (cd_global_ops sample_cdp_env) cp = (cp = 0)" "key_empty (cd_cdp_ops sample_cdp_env) i = (i = 0)"
  "cdp_IsEmpty sample_cdp_env c = (c = zero_cdp)" "coin_pair sample_cdp = 1" "cdpid sample_cdp = 5"
  "owner_regid sample_cdp = 7" "sample_cdp \<noteq> zero_cdp"
  "query_ratio_boost sample_cdp_env q p = Some q" "empty_id sample_cdp_env = 0" "empty_cp sample_cdp_env = 0"
  "key_empty (cd_user_ops sample_cdp_env) (r, cp) = (r = 0 \<and> cp = 0)" "index_ratio sample_cdp_env sample_cdp = 2"
  by (simp_all add: sample_cdp_env_def sample_cdp_def zero_cdp_def index_ratio_def MakeCdpRatioIndexKey_def Let_def)

lemma sample_cdp_new:
  "\<exists>s. NewCDP sample_cdp_env sample_cdp (sample_cdp_db, None) = Some (s, True) \<and>
     cdps sample_cdp_env s = [5 \<mapsto> sample_cdp] \<and> cdp_inv sample_cdp_env s \<and>
     cdp_step sample_cdp_env (sample_cdp_db, None) s \<and> totals sample_cdp_env s 1 = (100, 40) \<and>
     iter_ok (ratio_t sample_cdp_env) s \<and> iter_ok (user_t sample_cdp_env) s"
proof -
  let ?s = "(sample_cdp_db, None)"
  from NewCDP_effect [OF sample_cdp_env_ok, of sample_cdp ?s] obtain s where s:
    "NewCDP sample_cdp_env sample_cdp ?s = Some (s, True)" "cdps sample_cdp_env s = (cdps sample_cdp_env ?s)(5 \<mapsto> sample_cdp)"
    "totals sample_cdp_env s = (totals sample_cdp_env ?s)(1 := pair_plus (totals sample_cdp_env ?s 1) (amounts sample_cdp))"
    "iter_ok (ratio_t sample_cdp_env) s" "iter_ok (user_t sample_cdp_env) s"
    by auto
  have step: "cdp_step sample_cdp_env ?s s"
    by (rule new_step [OF s(1)]) simp_all
  moreover have "totals sample_cdp_env s 1 = (100, 40)"
    by (simp add: s(3) totals_def pair_plus_def amounts_def sample_cdp_def)
  moreover have "cdps sample_cdp_env s = [5 \<mapsto> sample_cdp]"
    by (simp add: s(2) fun_eq_iff)
  ultimately show ?thesis
    using s cdp_step_inv [OF sample_cdp_env_ok step sample_cdp_inv] by blast
qed

lemma distinct_singleton: "distinct xs \<Longrightarrow> set xs = {x} \<Longrightarrow> xs = [x]"
  by (cases xs) (auto simp: subset_singleton_iff)

section \<open>Properties\<close>





text \<open>
  In a consistent class \<open>GetCDPList\<close> of a user never fails and never reads an empty
  optional: it returns true and all the open positions of the user, each once.
\<close>

theorem user_cdp_list:
  assumes "cdp_env_ok E" and "cdp_inv E s" and "iter_ok (user_t E) s"
    and "\<forall>cp. \<not> key_empty (cd_user_ops E) (r, cp)" and "\<forall>cp. empty_cp E \<le> cp"
  shows "\<exists>s' xs. GetCDPList E r s = Some (s', True, xs) \<and> distinct xs \<and>
    set xs = {c. cdps E s (cdpid c) = Some c \<and> owner_regid c = r}"
proof -
  let ?m = "match_pair1 (empty_cp E) r" and ?f = "\<lambda>x. the (cdps E s (the (snd x)))"
  define ys where "ys = filter (\<lambda>x. matches ?m (fst x)) (rows (user_t E) s)"
  have "matcher_ok (cd_user_ops E) ?m"
    by (rule match_pair1_ok) (use assms(4,5) in simp_all)
  then have items: "C_prefix_items (user_t E) ?m s = Some ys"
    using C_prefix_items_eq [OF assms(3)] by (simp add: ys_def)
  have ys: "(k, v) \<in> set ys \<longleftrightarrow> (\<exists>c. cdps E s (cdpid c) = Some c \<and> owner_regid c = r \<and>
      k = (r, coin_pair c) \<and> v = Some (cdpid c))" for k v
  proof -
    have "users E s (fst k, snd k) = Some v \<longleftrightarrow>
        (\<exists>c. cdps E s (cdpid c) = Some c \<and> v = Some (cdpid c) \<and> owner_regid c = fst k \<and> coin_pair c = snd k)"
      using assms(2) by (simp only: cdp_inv_def consistent_def users_of_def)
    moreover have "(k, v) \<in> set ys \<longleftrightarrow> fst k = r \<and> users E s (fst k, snd k) = Some v"
      using rows_set [OF assms(3), of k v] assms(4)
      by (cases k) (auto simp: ys_def match_pair1_def match_eq_def)
    ultimately show ?thesis
      by (metis prod.collapse fst_conv snd_conv)
  qed
  have item: "\<exists>c. cdps E s (cdpid c) = Some c \<and> owner_regid c = r \<and> x = ((r, coin_pair c), Some (cdpid c))"
    if "x \<in> set ys" for x
    using ys [of "fst x" "snd x"] that by (cases x) simp
  have "fst x = (owner_regid (?f x), coin_pair (?f x))" if "x \<in> set ys" for x
  proof -
    obtain c where c: "cdps E s (cdpid c) = Some c" "owner_regid c = r" "x = ((r, coin_pair c), Some (cdpid c))"
      using item [OF \<open>x \<in> set ys\<close>] by blast
    show ?thesis unfolding c(3) by (simp add: c(1,2))
  qed
  moreover have "sorted_keys ys"
    using rows_sorted(1) [OF assms(3)] by (simp add: ys_def sorted_keys_filter)
  ultimately have "distinct (map ?f ys)"
    using map_fst_snd_distinct [of ys "\<lambda>c. (owner_regid c, coin_pair c)" "\<lambda>v. the (cdps E s (the v))"]
    by simp
  moreover have "set (map ?f ys) = {c. cdps E s (cdpid c) = Some c \<and> owner_regid c = r}"
  proof (intro equalityI subsetI)
    fix c assume "c \<in> set (map ?f ys)"
    then obtain x where "x \<in> set ys" "c = ?f x"
      by auto
    with item [of x] show "c \<in> {c. cdps E s (cdpid c) = Some c \<and> owner_regid c = r}"
      by fastforce
  next
    fix c assume "c \<in> {c. cdps E s (cdpid c) = Some c \<and> owner_regid c = r}"
    then have c: "((r, coin_pair c), Some (cdpid c)) \<in> set ys" "cdps E s (cdpid c) = Some c"
      unfolding ys by blast+
    from imageI [OF c(1), of ?f] show "c \<in> set (map ?f ys)"
      by (simp add: c(2))
  qed
  moreover have "\<exists>s'. cdp_list_loop E ys [] s = Some (s', True, [] @ map ?f ys)"
    by (rule cdp_list_loop_eq [OF assms(1)]) (use item in fastforce)
  ultimately show ?thesis
    using items by (auto simp: GetCDPList_def)
qed

theorem user_cdp_list_witness:
  "\<exists>s s'. NewCDP sample_cdp_env sample_cdp (sample_cdp_db, None) = Some (s, True) \<and>
     GetCDPList sample_cdp_env 7 s = Some (s', True, [sample_cdp])"
proof -
  obtain s where s: "NewCDP sample_cdp_env sample_cdp (sample_cdp_db, None) = Some (s, True)"
    "cdps sample_cdp_env s = [5 \<mapsto> sample_cdp]" "cdp_inv sample_cdp_env s" "iter_ok (user_t sample_cdp_env) s"
    using sample_cdp_new by blast
  have one: "cdps sample_cdp_env s (cdpid c) = Some c \<longleftrightarrow> c = sample_cdp" for c
    using s(2) by auto
  have "{c. cdps sample_cdp_env s (cdpid c) = Some c \<and> owner_regid c = 7} = {sample_cdp}"
    unfolding one by auto
  with user_cdp_list [OF sample_cdp_env_ok s(3,4), of 7] s(1) show ?thesis
    by (auto intro: distinct_singleton)
qed

end
