(* ===== verification/Dex.thy ===== *)
theory Dex
  imports Table_Index
begin

text \<open>
  \<open>CDexDBCache\<close> of \<open>dexdb.h\<close> and \<open>dexdb.cpp\<close>: the active orders with their index by height,
  the exchange operators with the map from owners, and the last operator identifier; and the
  position strings of \<open>DEX_DB\<close>.  Orders, blocks and the stream format are code of other
  modules.  The width of \<open>DexID\<close> is not in this code: it is the parameter \<open>'w\<close>.
\<close>

section \<open>State\<close>

type_synonym 'oid order_key = "uint32 \<times> uint8 \<times> 'oid"

text \<open>The members this code writes; \<open>other_members\<close> are the rest.\<close>

record ('r, 'mode, 'x) DexOperatorDetail =
  owner_regid :: 'r
  fee_receiver_regid :: 'r
  op_name :: string
  portal_url :: string
  order_open_mode :: 'mode
  taker_fee_ratio :: uint64
  maker_fee_ratio :: uint64
  order_open_dexop_set :: "uint64 list"
  activated :: bool
  other_members :: 'x

record ('oid, 'ord, 'r, 'i, 'mode, 'x) dex_db =
  activeOrderCache :: "('oid::linorder, 'ord) kvcache"
  blockOrdersCache :: "('oid order_key, 'ord) kvcache"
  operator_detail_cache :: "('i::linorder option, ('r, 'mode, 'x) DexOperatorDetail) kvcache"
  operator_owner_map_cache :: "('r::linorder, 'i option) kvcache"
  operator_last_id_cache :: "'i simple_cache"

record ('oid, 'ord, 'r, 'i, 'mode, 'x) dex_env =
  dx_db :: CDBAccess
  dx_active_ops :: "('oid, 'ord) kvops"
  dx_block_ops :: "('oid order_key, 'ord) kvops"
  dx_detail_ops :: "('i option, ('r, 'mode, 'x) DexOperatorDetail) kvops"
  dx_owner_ops :: "('r, 'i option) kvops"
  dx_last_ops :: "(unit, 'i) kvops"
  order_height :: "'ord \<Rightarrow> uint32"
  order_generate_type :: "'ord \<Rightarrow> uint8"
  Dex0OwnerRegId :: 'r
  MODE_PUBLIC :: 'mode

type_synonym ('oid, 'ord, 'r, 'w, 'mode, 'x) dex_state = "('oid, 'ord, 'r, 'w word, 'mode, 'x) dex_db dbstate"

definition active_t :: "('oid::linorder, 'ord, 'r::linorder, 'w::len word, 'mode, 'x) dex_env \<Rightarrow>
    (('oid, 'ord, 'r, 'w word, 'mode, 'x) dex_db, 'oid, 'ord) table" where
  "active_t E = \<lparr>tget = activeOrderCache, tput = (\<lambda>c. activeOrderCache_update (\<lambda>_. c)),
     tops = dx_active_ops E, tdb = dx_db E\<rparr>"

definition block_t :: "('oid::linorder, 'ord, 'r::linorder, 'w::len word, 'mode, 'x) dex_env \<Rightarrow>
    (('oid, 'ord, 'r, 'w word, 'mode, 'x) dex_db, 'oid order_key, 'ord) table" where
  "block_t E = \<lparr>tget = blockOrdersCache, tput = (\<lambda>c. blockOrdersCache_update (\<lambda>_. c)),
     tops = dx_block_ops E, tdb = dx_db E\<rparr>"

definition detail_t :: "('oid::linorder, 'ord, 'r::linorder, 'w::len word, 'mode, 'x) dex_env \<Rightarrow>
    (('oid, 'ord, 'r, 'w word, 'mode, 'x) dex_db, 'w word option, ('r, 'mode, 'x) DexOperatorDetail) table" where
  "detail_t E = \<lparr>tget = operator_detail_cache, tput = (\<lambda>c. operator_detail_cache_update (\<lambda>_. c)),
     tops = dx_detail_ops E, tdb = dx_db E\<rparr>"

definition owner_t :: "('oid::linorder, 'ord, 'r::linorder, 'w::len word, 'mode, 'x) dex_env \<Rightarrow>
    (('oid, 'ord, 'r, 'w word, 'mode, 'x) dex_db, 'r, 'w word option) table" where
  "owner_t E = \<lparr>tget = operator_owner_map_cache, tput = (\<lambda>c. operator_owner_map_cache_update (\<lambda>_. c)),
     tops = dx_owner_ops E, tdb = dx_db E\<rparr>"

definition last_t :: "('oid::linorder, 'ord, 'r::linorder, 'w::len word, 'mode, 'x) dex_env \<Rightarrow>
    (('oid, 'ord, 'r, 'w word, 'mode, 'x) dex_db, 'w word) cell" where
  "last_t E = \<lparr>cget = operator_last_id_cache, cput = (\<lambda>c. operator_last_id_cache_update (\<lambda>_. c)),
     cops = dx_last_ops E, cdb = dx_db E\<rparr>"

section \<open>Orders\<close>

definition MakeBlockOrderKey :: "('oid, 'ord, 'r, 'w::len word, 'mode, 'x) dex_env \<Rightarrow> 'oid \<Rightarrow> 'ord \<Rightarrow> 'oid order_key" where
  "MakeBlockOrderKey E orderid activeOrder = (order_height E activeOrder, order_generate_type E activeOrder, orderid)"

definition GetActiveOrder :: "('oid::linorder, 'ord, 'r::linorder, 'w::len word, 'mode, 'x) dex_env \<Rightarrow> 'oid \<Rightarrow>
    ('oid, 'ord, 'r, 'w, 'mode, 'x) dex_state \<Rightarrow> (('oid, 'ord, 'r, 'w, 'mode, 'x) dex_state \<times> 'ord option) option" where
  "GetActiveOrder E orderId s = C_GetData (active_t E) orderId s"

definition HaveActiveOrder :: "('oid::linorder, 'ord, 'r::linorder, 'w::len word, 'mode, 'x) dex_env \<Rightarrow> 'oid \<Rightarrow>
    ('oid, 'ord, 'r, 'w, 'mode, 'x) dex_state \<Rightarrow> (('oid, 'ord, 'r, 'w, 'mode, 'x) dex_state \<times> bool) option" where
  "HaveActiveOrder E orderId s = C_HasData (active_t E) orderId s"

definition UpdateActiveOrder :: "('oid::linorder, 'ord, 'r::linorder, 'w::len word, 'mode, 'x) dex_env \<Rightarrow> 'oid \<Rightarrow> 'ord \<Rightarrow>
    ('oid, 'ord, 'r, 'w, 'mode, 'x) dex_state \<Rightarrow> (('oid, 'ord, 'r, 'w, 'mode, 'x) dex_state \<times> bool) option" where
  "UpdateActiveOrder E orderId activeOrder s =
     do { (s, ok) \<leftarrow> C_SetData (active_t E) orderId activeOrder s;
          if \<not> ok then Some (s, False)
          else C_SetData (block_t E) (MakeBlockOrderKey E orderId activeOrder) activeOrder s }"

definition CreateActiveOrder :: "('oid::linorder, 'ord, 'r::linorder, 'w::len word, 'mode, 'x) dex_env \<Rightarrow> 'oid \<Rightarrow> 'ord \<Rightarrow>
    ('oid, 'ord, 'r, 'w, 'mode, 'x) dex_state \<Rightarrow> (('oid, 'ord, 'r, 'w, 'mode, 'x) dex_state \<times> bool) option" where
  "CreateActiveOrder E orderId activeOrder s =
     do { (s, has) \<leftarrow> C_HasData (active_t E) orderId s;
          if has then Some (s, False) else
          do { (s, ok) \<leftarrow> C_SetData (active_t E) orderId activeOrder s;
               if \<not> ok then Some (s, False)
               else C_SetData (block_t E) (MakeBlockOrderKey E orderId activeOrder) activeOrder s } }"

definition EraseActiveOrder :: "('oid::linorder, 'ord, 'r::linorder, 'w::len word, 'mode, 'x) dex_env \<Rightarrow> 'oid \<Rightarrow> 'ord \<Rightarrow>
    ('oid, 'ord, 'r, 'w, 'mode, 'x) dex_state \<Rightarrow> (('oid, 'ord, 'r, 'w, 'mode, 'x) dex_state \<times> bool) option" where
  "EraseActiveOrder E orderId activeOrder s =
     do { (s, ok) \<leftarrow> C_EraseData (active_t E) orderId s;
          if \<not> ok then Some (s, False)
          else C_EraseData (block_t E) (MakeBlockOrderKey E orderId activeOrder) s }"

section \<open>Operators\<close>

definition MAIN_DEX_ID :: "'w::len word" where
  "MAIN_DEX_ID = 0"

text \<open>
  The identifier is compared with \<open>ULONG_MAX\<close>, the largest 64 bit number; when \<open>DexID\<close> is
  narrower the comparison is always false and the increment wraps.
\<close>

definition IncDexID :: "('oid::linorder, 'ord, 'r::linorder, 'w::len word, 'mode, 'x) dex_env \<Rightarrow>
    ('oid, 'ord, 'r, 'w, 'mode, 'x) dex_state \<Rightarrow> (('oid, 'ord, 'r, 'w, 'mode, 'x) dex_state \<times> 'w word option) option" where
  "IncDexID E s =
     do { (s, r) \<leftarrow> S_GetData (last_t E) s;
          let newId = (case r of None \<Rightarrow> 0 | Some i \<Rightarrow> i);
          if unat newId = 2 ^ 64 - 1 then Some (s, None)
          else do { let newId = newId + 1;
                    (s, ok) \<leftarrow> S_SetData (last_t E) newId s;
                    Some (s, if ok then Some newId else None) } }"

definition Dex0 :: "('oid, 'ord, 'r, 'w::len word, 'mode, 'x) dex_env \<Rightarrow> ('r, 'mode, 'x) DexOperatorDetail \<Rightarrow>
    ('r, 'mode, 'x) DexOperatorDetail" where
  "Dex0 E detail = detail\<lparr>owner_regid := Dex0OwnerRegId E, fee_receiver_regid := Dex0OwnerRegId E,
     op_name := ''wayki-dex'', portal_url := ''https://dex.waykichain.com'', order_open_mode := MODE_PUBLIC E,
     taker_fee_ratio := 40000, maker_fee_ratio := 40000, order_open_dexop_set := [], activated := True\<rparr>"

text \<open>The output parameters are passed in and returned, as they keep their value on some paths.\<close>

definition GetDexOperator :: "('oid::linorder, 'ord, 'r::linorder, 'w::len word, 'mode, 'x) dex_env \<Rightarrow> 'w word \<Rightarrow>
    ('r, 'mode, 'x) DexOperatorDetail \<Rightarrow> ('oid, 'ord, 'r, 'w, 'mode, 'x) dex_state \<Rightarrow>
    (('oid, 'ord, 'r, 'w, 'mode, 'x) dex_state \<times> bool \<times> ('r, 'mode, 'x) DexOperatorDetail) option" where
  "GetDexOperator E i detail s =
     do { (s, r) \<leftarrow> C_GetData (detail_t E) (Some i) s;
          Some (s, case r of
              Some d \<Rightarrow> (True, d)
            | None \<Rightarrow> if i = MAIN_DEX_ID then (True, Dex0 E detail) else (False, detail)) }"

definition GetDexOperatorByOwner :: "('oid::linorder, 'ord, 'r::linorder, 'w::len word, 'mode, 'x) dex_env \<Rightarrow> 'r \<Rightarrow>
    'w word \<Rightarrow> ('r, 'mode, 'x) DexOperatorDetail \<Rightarrow> ('oid, 'ord, 'r, 'w, 'mode, 'x) dex_state \<Rightarrow>
    (('oid, 'ord, 'r, 'w, 'mode, 'x) dex_state \<times> bool \<times> 'w word \<times> ('r, 'mode, 'x) DexOperatorDetail) option" where
  "GetDexOperatorByOwner E regid idOut detail s =
     do { (s, r) \<leftarrow> C_GetData (owner_t E) regid s;
          case r of
            Some dexID \<Rightarrow>
              do { i \<leftarrow> dexID;
                   (s, ok, detail) \<leftarrow> GetDexOperator E i detail s;
                   Some (s, ok, i, detail) }
          | None \<Rightarrow>
              (if Dex0OwnerRegId E = regid then
                 do { (s, result, detail) \<leftarrow> GetDexOperator E MAIN_DEX_ID detail s;
                      Some (s, result \<and> owner_regid detail = regid, MAIN_DEX_ID, detail) }
               else Some (s, False, idOut, detail)) }"

definition HaveDexOperator :: "('oid::linorder, 'ord, 'r::linorder, 'w::len word, 'mode, 'x) dex_env \<Rightarrow> 'w word \<Rightarrow>
    ('oid, 'ord, 'r, 'w, 'mode, 'x) dex_state \<Rightarrow> (('oid, 'ord, 'r, 'w, 'mode, 'x) dex_state \<times> bool) option" where
  "HaveDexOperator E i s =
     (if i = MAIN_DEX_ID then Some (s, True) else C_HasData (detail_t E) (Some i) s)"

text \<open>The detail read here starts from the default value of its type.\<close>

definition HasDexOperatorByOwner :: "('oid::linorder, 'ord, 'r::linorder, 'w::len word, 'mode, 'x) dex_env \<Rightarrow> 'r \<Rightarrow>
    ('oid, 'ord, 'r, 'w, 'mode, 'x) dex_state \<Rightarrow> (('oid, 'ord, 'r, 'w, 'mode, 'x) dex_state \<times> bool) option" where
  "HasDexOperatorByOwner E regid s =
     do { (s, dbHave) \<leftarrow> C_HasData (owner_t E) regid s;
          if \<not> dbHave \<and> Dex0OwnerRegId E = regid then
            do { (s, b, detail) \<leftarrow> GetDexOperator E MAIN_DEX_ID (empty_val (dx_detail_ops E)) s;
                 Some (s, if b \<and> owner_regid detail = regid then True else dbHave) }
          else Some (s, dbHave) }"

definition CreateDexOperator :: "('oid::linorder, 'ord, 'r::linorder, 'w::len word, 'mode, 'x) dex_env \<Rightarrow> 'w word \<Rightarrow>
    ('r, 'mode, 'x) DexOperatorDetail \<Rightarrow> ('oid, 'ord, 'r, 'w, 'mode, 'x) dex_state \<Rightarrow>
    (('oid, 'ord, 'r, 'w, 'mode, 'x) dex_state \<times> bool) option" where
  "CreateDexOperator E i detail s =
     do { (s, has) \<leftarrow> C_HasData (detail_t E) (Some i) s;
          if has then Some (s, False) else
          do { (s, has) \<leftarrow> HasDexOperatorByOwner E (owner_regid detail) s;
               if has then Some (s, False) else
               do { (s, ok) \<leftarrow> C_SetData (detail_t E) (Some i) detail s;
                    if \<not> ok then Some (s, False)
                    else C_SetData (owner_t E) (owner_regid detail) (Some i) s } } }"

definition UpdateDexOperator :: "('oid::linorder, 'ord, 'r::linorder, 'w::len word, 'mode, 'x) dex_env \<Rightarrow> 'w word \<Rightarrow>
    ('r, 'mode, 'x) DexOperatorDetail \<Rightarrow> ('r, 'mode, 'x) DexOperatorDetail \<Rightarrow>
    ('oid, 'ord, 'r, 'w, 'mode, 'x) dex_state \<Rightarrow> (('oid, 'ord, 'r, 'w, 'mode, 'x) dex_state \<times> bool) option" where
  "UpdateDexOperator E i old_detail detail s =
     do { (s, ok) \<leftarrow>
            (if owner_regid old_detail \<noteq> owner_regid detail then
               do { (s, ok) \<leftarrow> C_EraseData (owner_t E) (owner_regid old_detail) s;
                    if \<not> ok then Some (s, False)
                    else C_SetData (owner_t E) (owner_regid detail) (Some i) s }
             else Some (s, True));
          if \<not> ok then Some (s, False) else C_SetData (detail_t E) (Some i) detail s }"

section \<open>Position strings\<close>

text \<open>
  The active chain gives the block hash of a height, and the stream the format of a hash
  followed by a key; reading a damaged stream throws.  The messages of the two errors are
  their constructor and arguments.
\<close>

record ('hash, 'oid) chain_env =
  chainActive :: "uint32 \<Rightarrow> 'hash option"
  pos_bytes :: "'hash \<times> 'oid order_key \<Rightarrow> string"
  pos_parse :: "string \<Rightarrow> ('hash \<times> 'oid order_key) option"

datatype 'hash pos_error = NotInActiveChain uint32 | HashMismatch uint32 'hash 'hash

definition GetHeight :: "'oid order_key \<Rightarrow> uint32" where
  "GetHeight k = fst k"

definition GetGenerateType :: "'oid order_key \<Rightarrow> uint8" where
  "GetGenerateType k = fst (snd k)"

definition GetOrderId :: "'oid order_key \<Rightarrow> 'oid" where
  "GetOrderId k = snd (snd k)"

definition ParseLastPos :: "('hash, 'oid) chain_env \<Rightarrow> string \<Rightarrow> ('hash pos_error + 'oid order_key) option" where
  "ParseLastPos C lastPosInfo =
     do { (lastBlockHash, lastKey) \<leftarrow> pos_parse C lastPosInfo;
          let lastHeight = GetHeight lastKey;
          Some (case chainActive C lastHeight of
              None \<Rightarrow> Inl (NotInActiveChain lastHeight)
            | Some h \<Rightarrow> if h \<noteq> lastBlockHash then Inl (HashMismatch lastHeight lastBlockHash h) else Inr lastKey) }"

definition MakeLastPos :: "('hash, 'oid) chain_env \<Rightarrow> 'oid order_key \<Rightarrow> 'hash pos_error + string" where
  "MakeLastPos C lastKey =
     (case chainActive C (GetHeight lastKey) of
        None \<Rightarrow> Inl (NotInActiveChain (GetHeight lastKey))
      | Some h \<Rightarrow> Inr (pos_bytes C (h, lastKey)))"

end
