(* ===== verification/Dex_Laws.thy ===== *)
theory Dex_Laws
  imports Dex
begin

text \<open>
  The tables of \<open>CDexDBCache\<close> stay consistent: the block orders are an index of the active
  orders, and owners and operators point to each other.
\<close>

section \<open>Hypotheses and frames\<close>

definition dex_ok :: "('oid::linorder, 'ord, 'r::linorder, 'w::len word, 'mode, 'x) dex_env \<Rightarrow> bool" where
  "dex_ok E \<longleftrightarrow> access_ok (dx_active_ops E) (dx_db E) \<and> access_ok (dx_block_ops E) (dx_db E) \<and>
     access_ok (dx_detail_ops E) (dx_db E) \<and> access_ok (dx_owner_ops E) (dx_db E) \<and>
     simple_ok (dx_last_ops E) (dx_db E) \<and> val_empty (dx_last_ops E) = (\<lambda>i. i = 0) \<and>
     key_empty (dx_detail_ops E) = (\<lambda>i. i = None) \<and> val_empty (dx_owner_ops E) = (\<lambda>i. i = None) \<and>
     val_empty (dx_block_ops E) = val_empty (dx_active_ops E) \<and>
     (\<forall>h g i. \<not> key_empty (dx_active_ops E) i \<longrightarrow> \<not> key_empty (dx_block_ops E) (h, g, i))"

lemmas dx_tables = active_t_def block_t_def detail_t_def owner_t_def last_t_def

lemma dx_ok [simp]:
  assumes "dex_ok E"
  shows "table_ok (active_t E)" "table_ok (block_t E)" "table_ok (detail_t E)" "table_ok (owner_t E)"
    "cell_ok (last_t E)" "val_empty (dx_last_ops E) = (\<lambda>i. i = 0)" "key_empty (dx_detail_ops E) j = (j = None)"
    "val_empty (dx_owner_ops E) j = (j = None)" "val_empty (dx_block_ops E) = val_empty (dx_active_ops E)"
    "\<not> key_empty (dx_active_ops E) i \<Longrightarrow> \<not> key_empty (dx_block_ops E) (MakeBlockOrderKey E i ord)"
  using assms by (simp_all add: dex_ok_def table_ok_def cell_ok_def dx_tables MakeBlockOrderKey_def)

lemma dx_ops [simp]:
  "tops (active_t E) = dx_active_ops E" "tops (block_t E) = dx_block_ops E" "tops (detail_t E) = dx_detail_ops E"
  "tops (owner_t E) = dx_owner_ops E" "cops (last_t E) = dx_last_ops E"
  by (simp_all add: dx_tables)

lemma dx_indep [simp]:
  "indep (tget (active_t E)) (tput (block_t E))" "indep (tget (block_t E)) (tput (active_t E))"
  "indep (tget (detail_t E)) (tput (owner_t E))" "indep (tget (owner_t E)) (tput (detail_t E))"
  "indep (tget (active_t E)) (tput (detail_t E))" "indep (tget (active_t E)) (tput (owner_t E))"
  "indep (tget (block_t E)) (tput (detail_t E))" "indep (tget (block_t E)) (tput (owner_t E))"
  by (simp_all add: indep_def dx_tables)

section \<open>Orders\<close>

abbreviation active where "active E s \<equiv> lookup (active_t E) s"
abbreviation blocks where "blocks E s \<equiv> lookup (block_t E) s"

interpretation order_index: keyed_index "\<lambda>_ _. True" "MakeBlockOrderKey E" for E
  by unfold_locales (simp add: MakeBlockOrderKey_def)

definition orders_inv :: "('oid::linorder, 'ord, 'r::linorder, 'w::len word, 'mode, 'x) dex_env \<Rightarrow>
    ('oid, 'ord, 'r, 'w, 'mode, 'x) dex_state \<Rightarrow> bool" where
  "orders_inv E s \<longleftrightarrow> index_of (active E s) (MakeBlockOrderKey E) (blocks E s)"

text \<open>
  The steps on orders.  An update keeps the height and the kind of the order, and an erased
  order is the stored one.
\<close>

inductive order_step :: "('oid::linorder, 'ord, 'r::linorder, 'w::len word, 'mode, 'x) dex_env \<Rightarrow>
    ('oid, 'ord, 'r, 'w, 'mode, 'x) dex_state \<Rightarrow> ('oid, 'ord, 'r, 'w, 'mode, 'x) dex_state \<Rightarrow> bool" for E where
  create: "CreateActiveOrder E i ord s = Some (s', ok) \<Longrightarrow> \<not> val_empty (dx_active_ops E) ord \<Longrightarrow> order_step E s s'"
| update: "UpdateActiveOrder E i ord s = Some (s', ok) \<Longrightarrow> \<not> val_empty (dx_active_ops E) ord \<Longrightarrow>
     active E s i = Some old \<Longrightarrow> MakeBlockOrderKey E i ord = MakeBlockOrderKey E i old \<Longrightarrow> order_step E s s'"
| erase: "EraseActiveOrder E i ord s = Some (s', ok) \<Longrightarrow> active E s i = Some ord \<Longrightarrow> order_step E s s'"

inductive_cases order_stepE: "order_step E s s'"

lemma CreateActiveOrder_eq:
  assumes "dex_ok E"
  shows "\<exists>s'. CreateActiveOrder E i ord s = Some (s', active E s i = None \<and> \<not> key_empty (dx_active_ops E) i) \<and>
    (if active E s i = None \<and> \<not> key_empty (dx_active_ops E) i
     then active E s' = (active E s)(i := (if val_empty (dx_active_ops E) ord then None else Some ord)) \<and>
       blocks E s' = (blocks E s)(MakeBlockOrderKey E i ord := (if val_empty (dx_active_ops E) ord then None else Some ord))
     else active E s' = active E s \<and> blocks E s' = blocks E s)"
  using assms by (cases "active E s i = None"; cases "key_empty (dx_active_ops E) i") (auto simp: CreateActiveOrder_def)

lemma UpdateActiveOrder_eq:
  assumes "dex_ok E" and "\<not> key_empty (dx_active_ops E) i"
  shows "\<exists>s'. UpdateActiveOrder E i ord s = Some (s', True) \<and>
    active E s' = (active E s)(i := (if val_empty (dx_active_ops E) ord then None else Some ord)) \<and>
    blocks E s' = (blocks E s)(MakeBlockOrderKey E i ord := (if val_empty (dx_active_ops E) ord then None else Some ord))"
  using assms by (simp add: UpdateActiveOrder_def)

lemma EraseActiveOrder_eq:
  assumes "dex_ok E" and "\<not> key_empty (dx_active_ops E) i"
  shows "\<exists>s'. EraseActiveOrder E i ord s = Some (s', True) \<and> active E s' = (active E s)(i := None) \<and>
    blocks E s' = (blocks E s)(MakeBlockOrderKey E i ord := None)"
  using assms by (simp add: EraseActiveOrder_def)

lemma active_key: "active E s i = Some ord \<Longrightarrow> \<not> key_empty (dx_active_ops E) i"
  using lookup_not_empty [of "active_t E" s i ord] by simp

lemma order_step_inv:
  assumes "dex_ok E" and "order_step E s s'" and "orders_inv E s"
  shows "orders_inv E s'"
  using assms(2)
proof (cases rule: order_step.cases)
  case (create i ord ok)
  show ?thesis
  proof (cases "active E s i = None \<and> \<not> key_empty (dx_active_ops E) i")
    case True
    with CreateActiveOrder_eq [OF assms(1), of i ord s] create have
      "active E s' = (active E s)(i \<mapsto> ord)" "blocks E s' = (blocks E s)(MakeBlockOrderKey E i ord \<mapsto> ord)"
      by auto
    with order_index.index_insert [OF assms(3) [unfolded orders_inv_def], of i ord] True show ?thesis
      by (simp add: orders_inv_def)
  next
    case False
    with CreateActiveOrder_eq [OF assms(1), of i ord s] create assms(3) show ?thesis
      by (auto simp: orders_inv_def)
  qed
next
  case (update i ord ok old)
  from UpdateActiveOrder_eq [OF assms(1) active_key [OF update(3)], of ord s] update have
    "active E s' = (active E s)(i \<mapsto> ord)" "blocks E s' = (blocks E s)(MakeBlockOrderKey E i ord \<mapsto> ord)"
    by auto
  with order_index.index_replace [OF assms(3) [unfolded orders_inv_def] _ update(3), of ord] update(4) show ?thesis
    by (simp add: orders_inv_def)
next
  case (erase i ord ok)
  from EraseActiveOrder_eq [OF assms(1) active_key [OF erase(2)], of ord s] erase have
    "active E s' = (active E s)(i := None)" "blocks E s' = (blocks E s)(MakeBlockOrderKey E i ord := None)"
    by auto
  with order_index.index_remove [OF assms(3) [unfolded orders_inv_def] _ erase(2)] show ?thesis
    by (simp add: orders_inv_def)
qed

section \<open>Operators\<close>

abbreviation details where "details E s \<equiv> lookup (detail_t E) s"
abbreviation owners where "owners E s \<equiv> lookup (owner_t E) s"

text \<open>\<open>owned m r v\<close>: the operator \<open>v\<close> has the owner \<open>r\<close>.\<close>

definition owned :: "('i option \<Rightarrow> ('r, 'mode, 'x) DexOperatorDetail option) \<Rightarrow> 'r \<Rightarrow> 'i option \<Rightarrow> bool" where
  "owned m r v \<longleftrightarrow> v \<noteq> None \<and> (case m v of None \<Rightarrow> False | Some d \<Rightarrow> owner_regid d = r)"

definition operators_inv :: "('oid::linorder, 'ord, 'r::linorder, 'w::len word, 'mode, 'x) dex_env \<Rightarrow>
    ('oid, 'ord, 'r, 'w, 'mode, 'x) dex_state \<Rightarrow> bool" where
  "operators_inv E s \<longleftrightarrow>
     (\<forall>r v. owners E s r = Some v \<longleftrightarrow> owned (details E s) r v)"

lemma owned_upd: "owned (m(Some i \<mapsto> d)) r v \<longleftrightarrow> (if v = Some i then owner_regid d = r else owned m r v)"
  by (simp add: owned_def)

lemma GetDexOperator_eq:
  assumes "dex_ok E"
  shows "\<exists>s'. GetDexOperator E i d s = Some (s', case details E s (Some i) of Some d \<Rightarrow> (True, d)
      | None \<Rightarrow> if i = MAIN_DEX_ID then (True, Dex0 E d) else (False, d)) \<and>
    details E s' = details E s \<and> owners E s' = owners E s"
  using assms by (simp add: GetDexOperator_def)

lemma HasDexOperatorByOwner_eq:
  assumes "dex_ok E"
  shows "\<exists>s'. HasDexOperatorByOwner E r s = Some (s', owners E s r \<noteq> None \<or> Dex0OwnerRegId E = r \<and>
      (case details E s (Some MAIN_DEX_ID) of Some d \<Rightarrow> owner_regid d = r | None \<Rightarrow> True)) \<and>
    details E s' = details E s \<and> owners E s' = owners E s"
  using assms
  by (auto simp: HasDexOperatorByOwner_def GetDexOperator_def Dex0_def split: option.split)

lemma CreateDexOperator_eq:
  assumes "dex_ok E" and "\<not> key_empty (dx_owner_ops E) (owner_regid d)" and "\<not> val_empty (dx_detail_ops E) d"
  shows "\<exists>s' ok. CreateDexOperator E i d s = Some (s', ok) \<and>
    (if ok then details E s (Some i) = None \<and> owners E s (owner_regid d) = None \<and>
       details E s' = (details E s)(Some i \<mapsto> d) \<and> owners E s' = (owners E s)(owner_regid d \<mapsto> Some i)
     else details E s' = details E s \<and> owners E s' = owners E s)"
proof -
  let ?s1 = "after_get (detail_t E) (Some i) s"
  obtain s2 b where s2: "HasDexOperatorByOwner E (owner_regid d) ?s1 = Some (s2, b)"
    "owners E s (owner_regid d) \<noteq> None \<longrightarrow> b" "details E s2 = details E s" "owners E s2 = owners E s"
    using HasDexOperatorByOwner_eq [OF assms(1), of "owner_regid d" ?s1] assms(1) by auto
  show ?thesis
  proof (cases "details E s (Some i) = None \<and> \<not> b")
    case True
    with s2 assms show ?thesis
      by (auto simp: CreateDexOperator_def)
  next
    case False
    show ?thesis
    proof (cases "details E s (Some i) = None")
      case True
      with False have "b" by simp
      have "CreateDexOperator E i d s = Some (s2, False)"
        using True \<open>b\<close> s2(1) assms(1) by (simp add: CreateDexOperator_def)
      with s2(3,4) show ?thesis by (intro exI [of _ s2] exI [of _ False]) simp
    next
      case False
      have "CreateDexOperator E i d s = Some (?s1, False)"
        using False assms(1) by (auto simp: CreateDexOperator_def)
      moreover have "details E ?s1 = details E s" "owners E ?s1 = owners E s"
        using assms(1) by simp_all
      ultimately show ?thesis by (intro exI [of _ ?s1] exI [of _ False]) simp
    qed
  qed
qed

lemma operators_inv_create:
  assumes "operators_inv E s" and "details E s (Some i) = None" and "owners E s (owner_regid d) = None"
    and "details E s' = (details E s)(Some i \<mapsto> d)" and "owners E s' = (owners E s)(owner_regid d \<mapsto> Some i)"
  shows "operators_inv E s'"
proof -
  have inv: "owners E s r = Some w \<longleftrightarrow> owned (details E s) r w" for r w
    using assms(1) by (simp add: operators_inv_def)
  have free: "\<not> owned (details E s) r (Some i)" for r
    using assms(2) by (simp add: owned_def)
  have new: "\<not> owned (details E s) (owner_regid d) v" for v
    using inv [of "owner_regid d" v] assms(3) by simp
  have "((owners E s)(owner_regid d \<mapsto> Some i)) r = Some v \<longleftrightarrow>
      (if v = Some i then owner_regid d = r else owned (details E s) r v)" for r v
    by (cases "r = owner_regid d"; cases "v = Some i") (simp_all add: inv free new)
  then show ?thesis
    unfolding operators_inv_def assms(4,5) owned_upd by blast
qed

lemma UpdateDexOperator_eq:
  assumes "dex_ok E" and "\<not> key_empty (dx_owner_ops E) (owner_regid d)"
    and "\<not> key_empty (dx_owner_ops E) (owner_regid old)" and "\<not> val_empty (dx_detail_ops E) d"
  shows "\<exists>s'. UpdateDexOperator E i old d s = Some (s', True) \<and> details E s' = (details E s)(Some i \<mapsto> d) \<and>
    owners E s' = (if owner_regid old = owner_regid d then owners E s
      else (owners E s)(owner_regid old := None, owner_regid d \<mapsto> Some i))"
  using assms by (auto simp: UpdateDexOperator_def)

lemma operators_inv_update:
  assumes "operators_inv E s" and "details E s (Some i) = Some old"
    and "owner_regid old = owner_regid d \<or> owners E s (owner_regid d) = None"
    and "details E s' = (details E s)(Some i \<mapsto> d)"
    and "owners E s' = (if owner_regid old = owner_regid d then owners E s
      else (owners E s)(owner_regid old := None, owner_regid d \<mapsto> Some i))"
  shows "operators_inv E s'"
proof -
  have inv: "owners E s r = Some w \<longleftrightarrow> owned (details E s) r w" for r w
    using assms(1) by (simp add: operators_inv_def)
  have at: "owned (details E s) r (Some i) \<longleftrightarrow> r = owner_regid old" for r
    using assms(2) by (auto simp: owned_def)
  then have "owners E s (owner_regid old) = Some (Some i)"
    by (simp add: inv)
  then have only: "owned (details E s) (owner_regid old) v \<longleftrightarrow> v = Some i" for v
    using inv [of "owner_regid old" v] by auto
  have new: "\<not> owned (details E s) (owner_regid d) v" if "owner_regid old \<noteq> owner_regid d" for v
    using inv [of "owner_regid d" v] assms(3) that by simp
  have "(if owner_regid old = owner_regid d then owners E s
      else (owners E s)(owner_regid old := None, owner_regid d \<mapsto> Some i)) r = Some v \<longleftrightarrow>
      (if v = Some i then owner_regid d = r else owned (details E s) r v)" for r v
    by (cases "owner_regid old = owner_regid d"; cases "r = owner_regid d"; cases "r = owner_regid old";
        cases "v = Some i") (simp_all add: inv at only new)
  then show ?thesis
    unfolding operators_inv_def assms(4,5) owned_upd by blast
qed

text \<open>The steps on operators; an update does not move to an owner who has an operator.\<close>

inductive operator_step :: "('oid::linorder, 'ord, 'r::linorder, 'w::len word, 'mode, 'x) dex_env \<Rightarrow>
    ('oid, 'ord, 'r, 'w, 'mode, 'x) dex_state \<Rightarrow> ('oid, 'ord, 'r, 'w, 'mode, 'x) dex_state \<Rightarrow> bool" for E where
  create_op: "CreateDexOperator E i d s = Some (s', ok) \<Longrightarrow> \<not> key_empty (dx_owner_ops E) (owner_regid d) \<Longrightarrow>
     \<not> val_empty (dx_detail_ops E) d \<Longrightarrow> operator_step E s s'"
| update_op: "UpdateDexOperator E i old d s = Some (s', ok) \<Longrightarrow> details E s (Some i) = Some old \<Longrightarrow>
     \<not> key_empty (dx_owner_ops E) (owner_regid d) \<Longrightarrow> \<not> val_empty (dx_detail_ops E) d \<Longrightarrow>
     owner_regid old = owner_regid d \<or> owners E s (owner_regid d) = None \<Longrightarrow> operator_step E s s'"

lemma owner_key: "owners E s r = Some v \<Longrightarrow> \<not> key_empty (dx_owner_ops E) r"
  using lookup_not_empty [of "owner_t E" s r v] by simp

lemma operator_step_inv:
  assumes "dex_ok E" and "operator_step E s s'" and "operators_inv E s"
  shows "operators_inv E s'"
  using assms(2)
proof (cases rule: operator_step.cases)
  case (create_op i d ok)
  obtain s1 ok1 where "CreateDexOperator E i d s = Some (s1, ok1)"
    "if ok1 then details E s (Some i) = None \<and> owners E s (owner_regid d) = None \<and>
       details E s1 = (details E s)(Some i \<mapsto> d) \<and> owners E s1 = (owners E s)(owner_regid d \<mapsto> Some i)
     else details E s1 = details E s \<and> owners E s1 = owners E s"
    using CreateDexOperator_eq [OF assms(1) create_op(2,3), of i s] by blast
  with create_op(1) operators_inv_create [OF assms(3), of i d s'] assms(3) show ?thesis
    by (cases ok1) (simp_all add: operators_inv_def)
next
  case (update_op i old d ok)
  have "owners E s (owner_regid old) = Some (Some i)"
    using assms(3) update_op(2) by (simp add: operators_inv_def owned_def)
  from UpdateDexOperator_eq [OF assms(1) update_op(3) owner_key [OF this] update_op(4), of i s] update_op(1)
  have "details E s' = (details E s)(Some i \<mapsto> d)" "owners E s' = (if owner_regid old = owner_regid d then owners E s
      else (owners E s)(owner_regid old := None, owner_regid d \<mapsto> Some i))"
    by auto
  with operators_inv_update [OF assms(3) update_op(2,5)] show ?thesis by blast
qed

section \<open>Identifiers\<close>

definition last_id :: "('oid::linorder, 'ord, 'r::linorder, 'w::len word, 'mode, 'x) dex_env \<Rightarrow>
    ('oid, 'ord, 'r, 'w, 'mode, 'x) dex_state \<Rightarrow> 'w word" where
  "last_id E s = (case peek (last_t E) s of None \<Rightarrow> 0 | Some i \<Rightarrow> i)"

lemma IncDexID_eq:
  assumes "dex_ok E"
  shows "\<exists>s'. IncDexID E s = Some (s', if unat (last_id E s) = 2 ^ 64 - 1 then None else Some (last_id E s + 1)) \<and>
    last_id E s' = (if unat (last_id E s) = 2 ^ 64 - 1 then last_id E s else last_id E s + 1)"
  using assms by (simp add: IncDexID_def last_id_def Let_def split: option.split)

section \<open>A concrete instance\<close>

text \<open>An order of the example is its height, its kind and an amount; a 32 bit \<open>DexID\<close>.\<close>

type_synonym sample_detail = "(uint64, bool, unit) DexOperatorDetail"

definition empty_detail :: sample_detail where
  "empty_detail = \<lparr>owner_regid = 0, fee_receiver_regid = 0, op_name = [], portal_url = [], order_open_mode = False,
     taker_fee_ratio = 0, maker_fee_ratio = 0, order_open_dexop_set = [], activated = False, other_members = ()\<rparr>"

definition sample_detail_c :: "sample_detail coder" where
  "sample_detail_c = iso_c
     (\<lambda>d. (owner_regid d, fee_receiver_regid d, op_name d, portal_url d, order_open_mode d, taker_fee_ratio d,
        maker_fee_ratio d, order_open_dexop_set d, activated d))
     (\<lambda>(r, f, n, u, m, t, k, x, a). \<lparr>owner_regid = r, fee_receiver_regid = f, op_name = n, portal_url = u,
        order_open_mode = m, taker_fee_ratio = t, maker_fee_ratio = k, order_open_dexop_set = x, activated = a,
        other_members = ()\<rparr>)
     (word_pair_c (word_pair_c (pair_c string_c (pair_c string_c (pair_c bool_c (word_pair_c (word_pair_c
        (pair_c (list_c word_c) bool_c))))))))"

lemma sample_detail_coder [simp]: "coder_ok sample_detail_c"
  by (simp add: sample_detail_c_def)

definition sample_dex_env ::
  "(uint64, uint32 \<times> uint8 \<times> uint64, uint64, uint32, bool, unit) dex_env" where
  "sample_dex_env = \<lparr>dx_db = empty_db DB_DEX,
     dx_active_ops = sample_ops DEX_ACTIVE_ORDER uint_db (plain_db (0, 0, 0)) (0, 0, 0) word_c
       (word_pair_c (word_pair_c word_c)),
     dx_block_ops = sample_ops DEX_BLOCK_ORDERS (pair_db uint_db (pair_db uint_db uint_db)) (plain_db (0, 0, 0)) (0, 0, 0)
       (word_pair_c (word_pair_c word_c)) (word_pair_c (word_pair_c word_c)),
     dx_detail_ops = sample_ops DEX_OPERATOR_DETAIL (optional_db uint_db) (plain_db empty_detail) empty_detail
       (option_c word_c) sample_detail_c,
     dx_owner_ops = sample_ops DEX_OPERATOR_OWNER_MAP uint_db (optional_db uint_db) None word_c (option_c word_c),
     dx_last_ops = sample_ops DEX_OPERATOR_LAST_ID (plain_db ()) uint_db 0 unit_c word_c,
     order_height = fst, order_generate_type = (\<lambda>x. fst (snd x)), Dex0OwnerRegId = 1, MODE_PUBLIC = True\<rparr>"

definition sample_dex_db ::
  "(uint64, uint32 \<times> uint8 \<times> uint64, uint64, uint32, bool, unit) dex_db" where
  "sample_dex_db = \<lparr>activeOrderCache = DbCache (empty_node True), blockOrdersCache = DbCache (empty_node True),
     operator_detail_cache = DbCache (empty_node True), operator_owner_map_cache = DbCache (empty_node True),
     operator_last_id_cache = SDb None\<rparr>"

lemma sample_dex_ok [simp]: "dex_ok sample_dex_env"
  by (auto simp: dex_ok_def sample_dex_env_def sample_access_ok sample_simple_ok is_data_prefix_def fun_eq_iff)

lemma sample_dex_empty [simp]:
  "active sample_dex_env (sample_dex_db, lg) i = None" "blocks sample_dex_env (sample_dex_db, lg) k = None"
  "details sample_dex_env (sample_dex_db, lg) j = None" "owners sample_dex_env (sample_dex_db, lg) r = None"
  by (simp_all add: lookup_def view_def visible_def dx_tables sample_dex_db_def sample_dex_env_def db_val_def
      empty_node_def)

lemma sample_dex_inv [simp]:
  "orders_inv sample_dex_env (sample_dex_db, lg)" "operators_inv sample_dex_env (sample_dex_db, lg)"
  by (simp_all add: orders_inv_def index_of_def operators_inv_def owned_def)

lemma sample_dex_simps [simp]:
  "key_empty (dx_active_ops sample_dex_env) i = (i = 0)" "val_empty (dx_active_ops sample_dex_env) o' = (o' = (0, 0, 0))"
  "key_empty (dx_owner_ops sample_dex_env) r = (r = 0)" "val_empty (dx_detail_ops sample_dex_env) d = (d = empty_detail)"
  "Dex0OwnerRegId sample_dex_env = 1"
  by (simp_all add: sample_dex_env_def)

section \<open>Properties\<close>



text \<open>
  Creations and updates of exchange operators keep owners and operators in one to
  one correspondence, as long as an update does not move an operator to an owner who already
  has one: no two operators have the same owner, and the owner map finds the operator.
\<close>

theorem operators_invariant:
  assumes "dex_ok E" and "operators_inv E s" and "(operator_step E)\<^sup>*\<^sup>* s t"
  shows "operators_inv E t \<and> (\<forall>i j d e. details E t (Some i) = Some d \<and> details E t (Some j) = Some e \<and>
    owner_regid d = owner_regid e \<longrightarrow> i = j)"
proof -
  have inv: "operators_inv E t"
    using assms(3) by (induction rule: rtranclp_induct) (simp_all add: assms(2) operator_step_inv [OF assms(1)])
  have "owners E t (owner_regid d) = Some (Some i)" if "details E t (Some i) = Some d" for i d
    using inv that by (simp add: operators_inv_def owned_def)
  then have "i = j" if "details E t (Some i) = Some d" "details E t (Some j) = Some e" "owner_regid d = owner_regid e" for i j d e
    using that by (metis option.inject)
  with inv show ?thesis by blast
qed

theorem operators_invariant_witness:
  "\<exists>s s'. CreateDexOperator sample_dex_env 3 (empty_detail\<lparr>owner_regid := 9\<rparr>) (sample_dex_db, None) = Some (s, True) \<and>
     CreateDexOperator sample_dex_env 4 (empty_detail\<lparr>owner_regid := 9\<rparr>) s = Some (s', False) \<and>
     operators_inv sample_dex_env s'"
proof -
  let ?s = "(sample_dex_db, None)" and ?d = "empty_detail\<lparr>owner_regid := 9\<rparr>"
  have d: "owner_regid ?d = 9" "?d \<noteq> empty_detail"
    by (simp_all add: empty_detail_def)
  obtain s where s: "CreateDexOperator sample_dex_env 3 ?d ?s = Some (s, True)" "owners sample_dex_env s 9 = Some (Some 3)"
    using d by (auto simp: CreateDexOperator_def HasDexOperatorByOwner_def)
  obtain s' where s': "CreateDexOperator sample_dex_env 4 ?d s = Some (s', False)"
    using CreateDexOperator_eq [OF sample_dex_ok, of ?d 4 s, unfolded d(1)] d(2) s(2) by (auto split: if_splits)
  have "operator_step sample_dex_env ?s s" "operator_step sample_dex_env s s'"
    by (rule create_op [OF s(1)] create_op [OF s']; simp add: d)+
  then have "(operator_step sample_dex_env)\<^sup>*\<^sup>* ?s s'"
    by (meson converse_rtranclp_into_rtranclp rtranclp.rtrancl_refl)
  from operators_invariant [OF sample_dex_ok sample_dex_inv(2) this] s(1) s' show ?thesis
    by blast
qed

text \<open>
  \<open>IncDexID\<close> hands out the identifier after the last one and records it.  It
  refuses only when the last identifier is \<open>2\<^sup>6\<^sup>4 - 1\<close>; so with a \<open>DexID\<close> of fewer than 64 bits
  it never refuses, and after the largest identifier hands out 0 again.
\<close>

theorem inc_dex_id:
  assumes "dex_ok (E :: ('oid::linorder, 'ord, 'r::linorder, 'w::len word, 'mode, 'x) dex_env)"
  shows "\<exists>s'. IncDexID E s = Some (s', if unat (last_id E s) = 2 ^ 64 - 1 then None else Some (last_id E s')) \<and>
    (unat (last_id E s) = 2 ^ 64 - 1 \<longrightarrow> last_id E s' = last_id E s) \<and>
    (unat (last_id E s) \<noteq> 2 ^ 64 - 1 \<longrightarrow>
       unat (last_id E s') = (if unat (last_id E s) = 2 ^ LENGTH('w) - 1 then 0 else unat (last_id E s) + 1)) \<and>
    (LENGTH('w) < 64 \<longrightarrow> unat (last_id E s) \<noteq> 2 ^ 64 - 1)"
proof -
  have succ: "unat (w + 1) = (if unat w = 2 ^ LENGTH('w) - 1 then 0 else unat w + 1)" for w :: "'w word"
  proof -
    have "unat (w + 1) = (unat w + 1) mod 2 ^ LENGTH('w)"
      by (simp add: unat_word_ariths)
    moreover have "unat w < 2 ^ LENGTH('w)"
      by (rule unsigned_less)
    moreover have "unat w + 1 < 2 ^ LENGTH('w) \<or> unat w = 2 ^ LENGTH('w) - 1"
      using \<open>unat w < 2 ^ LENGTH('w)\<close> by linarith
    ultimately show ?thesis by auto
  qed
  have "unat w \<noteq> 2 ^ 64 - 1" if "LENGTH('w) < 64" for w :: "'w word"
  proof -
    have "(2::nat) ^ LENGTH('w) \<le> 2 ^ 63"
      using that by (intro power_increasing) simp_all
    with unsigned_less have "unat w < 2 ^ 63"
      by (rule less_le_trans)
    then show ?thesis by simp
  qed
  with IncDexID_eq [OF assms, of s] show ?thesis
    by (auto simp: succ)
qed

theorem inc_dex_id_witness:
  "\<exists>s. IncDexID sample_dex_env (sample_dex_db, None) = Some (s, Some 1)"
proof -
  have "last_id sample_dex_env (sample_dex_db, None) = 0"
    by (simp add: last_id_def peek_def sview_def last_t_def sample_dex_db_def sample_dex_env_def sdb_val_def
        nonempty_def)
  with inc_dex_id [OF sample_dex_ok, of "(sample_dex_db, None)"] obtain s where
    s: "IncDexID sample_dex_env (sample_dex_db, None) = Some (s, Some (last_id sample_dex_env s))"
    "unat (last_id sample_dex_env s) = unat (1 :: uint32)"
    by auto
  from s(2) have "last_id sample_dex_env s = 1"
    by (rule unsigned_word_eqI)
  with s(1) show ?thesis by auto
qed

text \<open>
  The position string of a key of the active chain parses back to the key, and
  parsing any string gives a key only if the block of its height is the one in the string; a
  key above the tip has no position string.
\<close>

theorem last_pos_roundtrip:
  assumes "\<forall>p. pos_parse C (pos_bytes C p) = Some p"
  shows "(\<forall>k pos. MakeLastPos C k = Inr pos \<longrightarrow> ParseLastPos C pos = Some (Inr k)) \<and>
    (\<forall>k. chainActive C (GetHeight k) = None \<longrightarrow> MakeLastPos C k = Inl (NotInActiveChain (GetHeight k))) \<and>
    (\<forall>pos k. ParseLastPos C pos = Some (Inr k) \<longrightarrow>
       (\<exists>h. pos_parse C pos = Some (h, k) \<and> chainActive C (GetHeight k) = Some h)) \<and>
    (\<forall>h h' k. chainActive C (GetHeight k) = Some h' \<and> h \<noteq> h' \<longrightarrow>
       ParseLastPos C (pos_bytes C (h, k)) = Some (Inl (HashMismatch (GetHeight k) h h')))"
  using assms
  by (auto simp: MakeLastPos_def ParseLastPos_def Let_def bind_eq_Some_conv split: option.splits if_splits)

definition sample_chain :: "(uint64, uint64) chain_env" where
  "sample_chain = \<lparr>chainActive = (\<lambda>h. if h < 10 then Some (1000 + ucast h) else None),
     pos_bytes = enc (word_pair_c (word_pair_c (word_pair_c word_c))),
     pos_parse = dec (word_pair_c (word_pair_c (word_pair_c word_c)))\<rparr>"

theorem last_pos_roundtrip_witness:
  "\<exists>pos. MakeLastPos sample_chain (7, 1, 42) = Inr pos \<and> ParseLastPos sample_chain pos = Some (Inr (7, 1, 42)) \<and>
     MakeLastPos sample_chain (12, 1, 42) = Inl (NotInActiveChain 12)"
proof -
  have "\<forall>p. pos_parse sample_chain (pos_bytes sample_chain p) = Some p"
    by (simp add: sample_chain_def)
  from last_pos_roundtrip [OF this] have
    "\<forall>k pos. MakeLastPos sample_chain k = Inr pos \<longrightarrow> ParseLastPos sample_chain pos = Some (Inr k)"
    "\<forall>k. chainActive sample_chain (GetHeight k) = None \<longrightarrow> MakeLastPos sample_chain k = Inl (NotInActiveChain (GetHeight k))"
    by blast+
  moreover have "MakeLastPos sample_chain (7, 1, 42) = Inr (pos_bytes sample_chain (1007, 7, 1, 42))"
    by (simp add: MakeLastPos_def sample_chain_def GetHeight_def)
  moreover have "chainActive sample_chain (GetHeight (12, 1, 42 :: uint64)) = None"
    by (simp add: sample_chain_def GetHeight_def)
  ultimately show ?thesis
    by (metis GetHeight_def fst_conv)
qed

end
