(* ===== verification/Delegate.thy ===== *)
theory Delegate
  imports Db_Class
begin

text \<open>
  \<open>IneryDelegateDBCache\<close> of \<open>delegatedb.h\<close> and \<open>delegatedb.cpp\<close>: the votes of the delegates,
  under keys that order them from the largest vote down, the votes of each voter, the last
  vote height, and the pending and the active delegates.  Register identifiers, their raw
  bytes and the lists are types of other modules.
\<close>

section \<open>State\<close>

type_synonym 'raw vote_key = "uint64 \<times> 'raw"

record 'r VoteDelegate =
  regid :: 'r
  votes :: uint64

record ('r, 'raw, 'cv, 'pd) delegate_db =
  voteRegIdCache :: "('raw::linorder vote_key, uint8) kvcache"
  regId2VoteCache :: "('r::linorder, 'cv list) kvcache"
  last_vote_height_cache :: "uint32 simple_cache"
  pending_delegates_cache :: "'pd simple_cache"
  active_delegates_cache :: "'r VoteDelegate list simple_cache"

record ('r, 'raw, 'cv, 'pd) delegate_env =
  dg_db :: CDBAccess
  dg_vote_ops :: "('raw vote_key, uint8) kvops"
  dg_regid_ops :: "('r, 'cv list) kvops"
  dg_height_ops :: "(unit, uint32) kvops"
  dg_pending_ops :: "(unit, 'pd) kvops"
  dg_active_ops :: "(unit, 'r VoteDelegate list) kvops"
  RegID_IsEmpty :: "'r \<Rightarrow> bool"
  GetRegIdRaw :: "'r \<Rightarrow> 'raw"
  RegID_of_raw :: "'raw \<Rightarrow> 'r"

type_synonym ('r, 'raw, 'cv, 'pd) delegate_state = "('r, 'raw, 'cv, 'pd) delegate_db dbstate"

definition vote_t :: "('r::linorder, 'raw::linorder, 'cv, 'pd) delegate_env \<Rightarrow>
    (('r, 'raw, 'cv, 'pd) delegate_db, 'raw vote_key, uint8) table" where
  "vote_t E = \<lparr>tget = voteRegIdCache, tput = (\<lambda>c. voteRegIdCache_update (\<lambda>_. c)),
     tops = dg_vote_ops E, tdb = dg_db E\<rparr>"

definition regid_vote_t :: "('r::linorder, 'raw::linorder, 'cv, 'pd) delegate_env \<Rightarrow>
    (('r, 'raw, 'cv, 'pd) delegate_db, 'r, 'cv list) table" where
  "regid_vote_t E = \<lparr>tget = regId2VoteCache, tput = (\<lambda>c. regId2VoteCache_update (\<lambda>_. c)),
     tops = dg_regid_ops E, tdb = dg_db E\<rparr>"

definition last_height_t :: "('r::linorder, 'raw::linorder, 'cv, 'pd) delegate_env \<Rightarrow>
    (('r, 'raw, 'cv, 'pd) delegate_db, uint32) cell" where
  "last_height_t E = \<lparr>cget = last_vote_height_cache, cput = (\<lambda>c. last_vote_height_cache_update (\<lambda>_. c)),
     cops = dg_height_ops E, cdb = dg_db E\<rparr>"

definition pending_t :: "('r::linorder, 'raw::linorder, 'cv, 'pd) delegate_env \<Rightarrow>
    (('r, 'raw, 'cv, 'pd) delegate_db, 'pd) cell" where
  "pending_t E = \<lparr>cget = pending_delegates_cache, cput = (\<lambda>c. pending_delegates_cache_update (\<lambda>_. c)),
     cops = dg_pending_ops E, cdb = dg_db E\<rparr>"

definition active_delegates_t :: "('r::linorder, 'raw::linorder, 'cv, 'pd) delegate_env \<Rightarrow>
    (('r, 'raw, 'cv, 'pd) delegate_db, 'r VoteDelegate list) cell" where
  "active_delegates_t E = \<lparr>cget = active_delegates_cache, cput = (\<lambda>c. active_delegates_cache_update (\<lambda>_. c)),
     cops = dg_active_ops E, cdb = dg_db E\<rparr>"

section \<open>Operations\<close>

subsection \<open>Votes\<close>

definition DelegateVoteToKey :: "uint64 \<Rightarrow> uint64" where
  "DelegateVoteToKey v = - 1 - v"

definition DelegateVoteFromKey :: "uint64 \<Rightarrow> uint64" where
  "DelegateVoteFromKey k = - 1 - k"

definition GetVote :: "'raw vote_key \<Rightarrow> uint64" where
  "GetVote k = DelegateVoteFromKey (fst k)"

definition VoteKey_GetRegId :: "('r, 'raw, 'cv, 'pd) delegate_env \<Rightarrow> 'raw vote_key \<Rightarrow> 'r" where
  "VoteKey_GetRegId E k = RegID_of_raw E (snd k)"

definition SetDelegateVotes :: "('r::linorder, 'raw::linorder, 'cv, 'pd) delegate_env \<Rightarrow> 'r \<Rightarrow> uint64 \<Rightarrow>
    ('r, 'raw, 'cv, 'pd) delegate_state \<Rightarrow> (('r, 'raw, 'cv, 'pd) delegate_state \<times> bool) option" where
  "SetDelegateVotes E r v s =
     (if RegID_IsEmpty E r then Some (s, True)
      else C_SetData (vote_t E) (DelegateVoteToKey v, GetRegIdRaw E r) 1 s)"

definition EraseDelegateVotes :: "('r::linorder, 'raw::linorder, 'cv, 'pd) delegate_env \<Rightarrow> 'r \<Rightarrow> uint64 \<Rightarrow>
    ('r, 'raw, 'cv, 'pd) delegate_state \<Rightarrow> (('r, 'raw, 'cv, 'pd) delegate_state \<times> bool) option" where
  "EraseDelegateVotes E r v s =
     (if RegID_IsEmpty E r then Some (s, True)
      else C_EraseData (vote_t E) (DelegateVoteToKey v, GetRegIdRaw E r) s)"

text \<open>The loop over the votes; \<open>topVoteDelegates\<close> is what was collected so far.\<close>

fun top_loop :: "('r, 'raw, 'cv, 'pd) delegate_env \<Rightarrow> nat \<Rightarrow> uint64 \<Rightarrow> bool \<Rightarrow> ('raw vote_key \<times> uint8) list \<Rightarrow>
    'r VoteDelegate list \<Rightarrow> 'r VoteDelegate list" where
  "top_loop E delegateNum BpMinVote isR3Fork [] topVoteDelegates = topVoteDelegates"
| "top_loop E delegateNum BpMinVote isR3Fork ((k, _) # rest) topVoteDelegates =
     (if \<not> length topVoteDelegates < delegateNum then topVoteDelegates
      else if isR3Fork \<and> GetVote k < BpMinVote then topVoteDelegates
      else top_loop E delegateNum BpMinVote isR3Fork rest
        (topVoteDelegates @ [\<lparr>regid = VoteKey_GetRegId E k, votes = GetVote k\<rparr>]))"

definition GetTopVoteDelegates :: "('r::linorder, 'raw::linorder, 'cv, 'pd) delegate_env \<Rightarrow> uint32 \<Rightarrow> uint64 \<Rightarrow> bool \<Rightarrow>
    ('r, 'raw, 'cv, 'pd) delegate_state \<Rightarrow> (bool \<times> 'r VoteDelegate list) option" where
  "GetTopVoteDelegates E delegateNum BpMinVote isR3Fork s =
     do { items \<leftarrow> C_items (vote_t E) s;
          let topVoteDelegates = top_loop E (unat delegateNum) BpMinVote isR3Fork items [];
          Some (topVoteDelegates \<noteq> [], topVoteDelegates) }"

subsection \<open>Heights, pending and active delegates\<close>

text \<open>The height is stored unsigned and read back as a signed number.\<close>

definition GetLastVoteHeight :: "('r::linorder, 'raw::linorder, 'cv, 'pd) delegate_env \<Rightarrow>
    ('r, 'raw, 'cv, 'pd) delegate_state \<Rightarrow> (('r, 'raw, 'cv, 'pd) delegate_state \<times> int) option" where
  "GetLastVoteHeight E s =
     do { (s, r) \<leftarrow> S_GetData (last_height_t E) s;
          Some (s, case r of Some height \<Rightarrow> sint height | None \<Rightarrow> 0) }"

definition SetLastVoteHeight :: "('r::linorder, 'raw::linorder, 'cv, 'pd) delegate_env \<Rightarrow> int \<Rightarrow>
    ('r, 'raw, 'cv, 'pd) delegate_state \<Rightarrow> (('r, 'raw, 'cv, 'pd) delegate_state \<times> bool) option" where
  "SetLastVoteHeight E height s = S_SetData (last_height_t E) (of_int height) s"

definition GetPendingDelegates :: "('r::linorder, 'raw::linorder, 'cv, 'pd) delegate_env \<Rightarrow>
    ('r, 'raw, 'cv, 'pd) delegate_state \<Rightarrow> (('r, 'raw, 'cv, 'pd) delegate_state \<times> 'pd option) option" where
  "GetPendingDelegates E s = S_GetData (pending_t E) s"

definition SetPendingDelegates :: "('r::linorder, 'raw::linorder, 'cv, 'pd) delegate_env \<Rightarrow> 'pd \<Rightarrow>
    ('r, 'raw, 'cv, 'pd) delegate_state \<Rightarrow> (('r, 'raw, 'cv, 'pd) delegate_state \<times> bool) option" where
  "SetPendingDelegates E delegates s = S_SetData (pending_t E) delegates s"

text \<open>\<open>None\<close>: the assertion that stored delegates are not empty fails.\<close>

definition GetActiveDelegates :: "('r::linorder, 'raw::linorder, 'cv, 'pd) delegate_env \<Rightarrow>
    ('r, 'raw, 'cv, 'pd) delegate_state \<Rightarrow>
    (('r, 'raw, 'cv, 'pd) delegate_state \<times> 'r VoteDelegate list option) option" where
  "GetActiveDelegates E s =
     do { (s, res) \<leftarrow> S_GetData (active_delegates_t E) s;
          case res of
            Some voteDelegates \<Rightarrow> if length voteDelegates \<noteq> 0 then Some (s, Some voteDelegates) else None
          | None \<Rightarrow> Some (s, None) }"

definition SetActiveDelegates :: "('r::linorder, 'raw::linorder, 'cv, 'pd) delegate_env \<Rightarrow> 'r VoteDelegate list \<Rightarrow>
    ('r, 'raw, 'cv, 'pd) delegate_state \<Rightarrow> (('r, 'raw, 'cv, 'pd) delegate_state \<times> bool) option" where
  "SetActiveDelegates E voteDelegates s = S_SetData (active_delegates_t E) voteDelegates s"

text \<open>\<open>None\<close> is also the exception when there are no active delegates.\<close>

definition GetActivedDelegateNum :: "('r::linorder, 'raw::linorder, 'cv, 'pd) delegate_env \<Rightarrow>
    ('r, 'raw, 'cv, 'pd) delegate_state \<Rightarrow> (('r, 'raw, 'cv, 'pd) delegate_state \<times> uint32) option" where
  "GetActivedDelegateNum E s =
     do { (s, res) \<leftarrow> GetActiveDelegates E s;
          case res of Some dv \<Rightarrow> Some (s, of_nat (length dv)) | None \<Rightarrow> None }"

definition GetActiveDelegate :: "('r::linorder, 'raw::linorder, 'cv, 'pd) delegate_env \<Rightarrow> 'r \<Rightarrow>
    ('r, 'raw, 'cv, 'pd) delegate_state \<Rightarrow>
    (('r, 'raw, 'cv, 'pd) delegate_state \<times> 'r VoteDelegate option) option" where
  "GetActiveDelegate E r s =
     do { (s, res) \<leftarrow> GetActiveDelegates E s;
          case res of
            None \<Rightarrow> Some (s, None)
          | Some delegates \<Rightarrow> Some (s, find (\<lambda>item. regid item = r) delegates) }"

definition IsActiveDelegate :: "('r::linorder, 'raw::linorder, 'cv, 'pd) delegate_env \<Rightarrow> 'r \<Rightarrow>
    ('r, 'raw, 'cv, 'pd) delegate_state \<Rightarrow> (('r, 'raw, 'cv, 'pd) delegate_state \<times> bool) option" where
  "IsActiveDelegate E r s =
     do { (s, res) \<leftarrow> GetActiveDelegate E r s; Some (s, res \<noteq> None) }"

subsection \<open>Votes of the voters\<close>

definition SetCandidateVotes :: "('r::linorder, 'raw::linorder, 'cv, 'pd) delegate_env \<Rightarrow> 'r \<Rightarrow> 'cv list \<Rightarrow>
    ('r, 'raw, 'cv, 'pd) delegate_state \<Rightarrow> (('r, 'raw, 'cv, 'pd) delegate_state \<times> bool) option" where
  "SetCandidateVotes E r candidateVotes s = C_SetData (regid_vote_t E) r candidateVotes s"

definition GetCandidateVotes :: "('r::linorder, 'raw::linorder, 'cv, 'pd) delegate_env \<Rightarrow> 'r \<Rightarrow>
    ('r, 'raw, 'cv, 'pd) delegate_state \<Rightarrow> (('r, 'raw, 'cv, 'pd) delegate_state \<times> 'cv list option) option" where
  "GetCandidateVotes E r s = C_GetData (regid_vote_t E) r s"

fun voter_loop :: "('r::linorder \<times> 'cv list) list \<Rightarrow> ('r, 'cv list) std_map \<Rightarrow> ('r, 'cv list) std_map" where
  "voter_loop [] voters = voters"
| "voter_loop ((k, v) # rest) voters = voter_loop rest (sm_set k v voters)"

definition GetVoterList :: "('r::linorder, 'raw::linorder, 'cv, 'pd) delegate_env \<Rightarrow> ('r, 'cv list) std_map \<Rightarrow>
    ('r, 'raw, 'cv, 'pd) delegate_state \<Rightarrow> (bool \<times> ('r, 'cv list) std_map) option" where
  "GetVoterList E voters s =
     do { items \<leftarrow> C_items (regid_vote_t E) s; Some (True, voter_loop items voters) }"

definition Delegate_Clear :: "('r::linorder, 'raw::linorder, 'cv, 'pd) delegate_db \<Rightarrow> ('r, 'raw, 'cv, 'pd) delegate_db" where
  "Delegate_Clear c = \<lparr>voteRegIdCache = Clear (voteRegIdCache c), regId2VoteCache = Clear (regId2VoteCache c),
     last_vote_height_cache = Simple_Clear (last_vote_height_cache c),
     pending_delegates_cache = Simple_Clear (pending_delegates_cache c),
     active_delegates_cache = Simple_Clear (active_delegates_cache c)\<rparr>"

section \<open>Laws\<close>

definition delegate_ok :: "('r::linorder, 'raw::linorder, 'cv, 'pd) delegate_env \<Rightarrow> bool" where
  "delegate_ok E \<longleftrightarrow> access_ok (dg_vote_ops E) (dg_db E) \<and> access_ok (dg_regid_ops E) (dg_db E) \<and>
     simple_ok (dg_height_ops E) (dg_db E) \<and> simple_ok (dg_pending_ops E) (dg_db E) \<and>
     simple_ok (dg_active_ops E) (dg_db E) \<and> val_empty (dg_vote_ops E) = (\<lambda>v. v = 0) \<and>
     val_empty (dg_height_ops E) = (\<lambda>v. v = 0) \<and> val_empty (dg_active_ops E) = (\<lambda>v. v = [])"

lemmas dg_tables = vote_t_def regid_vote_t_def last_height_t_def pending_t_def active_delegates_t_def

lemma dg_ok [simp]:
  assumes "delegate_ok E"
  shows "table_ok (vote_t E)" "table_ok (regid_vote_t E)" "cell_ok (last_height_t E)" "cell_ok (pending_t E)"
    "cell_ok (active_delegates_t E)" "val_empty (dg_vote_ops E) v = (v = 0)" "val_empty (dg_height_ops E) h = (h = 0)"
    "val_empty (dg_active_ops E) ds = (ds = [])"
  using assms by (simp_all add: delegate_ok_def table_ok_def cell_ok_def dg_tables)

lemma dg_ops [simp]:
  "tops (vote_t E) = dg_vote_ops E" "tops (regid_vote_t E) = dg_regid_ops E" "cops (last_height_t E) = dg_height_ops E"
  "cops (pending_t E) = dg_pending_ops E" "cops (active_delegates_t E) = dg_active_ops E"
  by (simp_all add: dg_tables)

subsection \<open>The order of the votes\<close>

lemma vote_key_inverse: "DelegateVoteFromKey (DelegateVoteToKey v) = v" "DelegateVoteToKey (DelegateVoteFromKey k) = k"
  by (simp_all add: DelegateVoteToKey_def DelegateVoteFromKey_def)

lemma vote_key_antimono: "DelegateVoteFromKey k \<le> DelegateVoteFromKey l \<longleftrightarrow> l \<le> k"
proof -
  have top: "w \<le> - 1" for w :: uint64
    by simp
  have eq: "unat (DelegateVoteFromKey w) = unat (- 1 :: uint64) - unat w" for w
    unfolding DelegateVoteFromKey_def by (rule unat_sub [OF top])
  have "unat k \<le> unat (- 1 :: uint64)" "unat l \<le> unat (- 1 :: uint64)"
    using top unfolding word_le_nat_alt by blast+
  then have "unat (- 1 :: uint64) - unat k \<le> unat (- 1 :: uint64) - unat l \<longleftrightarrow> unat l \<le> unat k"
    by linarith
  then show ?thesis
    unfolding word_le_nat_alt eq .
qed

definition ranked :: "('r::linorder, 'raw::linorder, 'cv, 'pd) delegate_env \<Rightarrow>
    ('r, 'raw, 'cv, 'pd) delegate_state \<Rightarrow> 'r VoteDelegate list" where
  "ranked E s = map (\<lambda>x. \<lparr>regid = VoteKey_GetRegId E (fst x), votes = GetVote (fst x)\<rparr>) (rows (vote_t E) s)"

lemma ranked_sorted:
  assumes "iter_ok (vote_t E) s"
  shows "sorted_wrt (\<lambda>a b. votes b \<le> votes a) (ranked E s)"
proof -
  let ?rows = "rows (vote_t E) s"
  have "sorted_wrt (\<lambda>x y. fst x < fst y) ?rows"
    using rows_sorted(1) [OF assms] by (simp add: sorted_keys_def sorted_wrt_map)
  moreover have "GetVote (fst y) \<le> GetVote (fst x)" if "fst x < fst y" for x y :: "'b vote_key \<times> uint8"
    using that by (auto simp: GetVote_def vote_key_antimono less_prod_def less_imp_le)
  ultimately have "sorted_wrt (\<lambda>x y. GetVote (fst y) \<le> GetVote (fst x)) ?rows"
    by (rule sorted_wrt_mono_rel [rotated]) blast
  then show ?thesis
    by (simp add: ranked_def sorted_wrt_map)
qed

lemma set_ranked:
  assumes "iter_ok (vote_t E) s" and "clean (vote_t E) s"
  shows "set (ranked E s) =
    (\<lambda>k. \<lparr>regid = VoteKey_GetRegId E k, votes = GetVote k\<rparr>) ` {k. lookup (vote_t E) s k \<noteq> None}"
proof -
  have "fst ` set (rows (vote_t E) s) = {k. lookup (vote_t E) s k \<noteq> None}"
    using rows_lookup(2) [OF assms] by force
  then have "(\<lambda>k. \<lparr>regid = VoteKey_GetRegId E k, votes = GetVote k\<rparr>) ` {k. lookup (vote_t E) s k \<noteq> None} =
      (\<lambda>k. \<lparr>regid = VoteKey_GetRegId E k, votes = GetVote k\<rparr>) ` fst ` set (rows (vote_t E) s)"
    by simp
  then show ?thesis
    by (simp add: ranked_def image_image)
qed

lemma top_loop_take:
  "top_loop E n m f items acc = acc @ take (n - length acc)
     (takeWhile (\<lambda>d. f \<longrightarrow> m \<le> votes d) (map (\<lambda>x. \<lparr>regid = VoteKey_GetRegId E (fst x), votes = GetVote (fst x)\<rparr>) items))"
proof (induction items arbitrary: acc)
  case (Cons x items)
  obtain k v where x: "x = (k, v)" by (cases x)
  show ?case
  proof (cases "length acc < n \<and> (f \<longrightarrow> m \<le> GetVote k)")
    case True
    then have "n - length acc = Suc (n - Suc (length acc))"
      by (simp add: Suc_diff_Suc)
    with True Cons.IH show ?thesis
      by (simp add: x not_less)
  next
    case False
    then show ?thesis
      by (auto simp: x not_less not_le)
  qed
qed simp

lemma takeWhile_decreasing:
  assumes "sorted_wrt (\<lambda>a b. votes b \<le> votes a) ds"
  shows "takeWhile (\<lambda>d. f \<longrightarrow> m \<le> votes d) ds = filter (\<lambda>d. f \<longrightarrow> m \<le> votes d) ds"
  using assms by (induction ds) (auto simp: empty_filter_conv dest: order_trans)

lemma GetTopVoteDelegates_eq:
  assumes "iter_ok (vote_t E) s"
  shows "GetTopVoteDelegates E n m f s =
    (let xs = take (unat n) (filter (\<lambda>d. f \<longrightarrow> m \<le> votes d) (ranked E s)) in Some (xs \<noteq> [], xs))"
  using assms takeWhile_decreasing [OF ranked_sorted [OF assms], of f m]
  by (simp add: GetTopVoteDelegates_def top_loop_take ranked_def [symmetric] Let_def)

subsection \<open>Active delegates\<close>

lemma GetActiveDelegates_eq:
  assumes "delegate_ok E"
  shows "GetActiveDelegates E s = Some (after_sget (active_delegates_t E) s, peek (active_delegates_t E) s)"
  using assms peek_not_empty [of "active_delegates_t E" s]
  by (auto simp: GetActiveDelegates_def split: option.split)

lemma map_of_rev_distinct: "distinct (map fst xs) \<Longrightarrow> map_of (rev xs) = map_of xs"
  by (rule map_of_inject_set [THEN iffD2]) (simp_all add: rev_map [symmetric])

lemma voter_loop_find:
  "sm_find (voter_loop items m) k = (case map_of (rev items) k of Some v \<Rightarrow> Some v | None \<Rightarrow> sm_find m k)"
  by (induction items arbitrary: m) (auto simp: map_add_def split: option.split)

section \<open>A concrete instance\<close>

text \<open>Register identifiers and their raw bytes are numbers in the example.\<close>

definition sample_delegate_env :: "(uint64, uint64, uint64, uint64) delegate_env" where
  "sample_delegate_env = \<lparr>dg_db = empty_db DB_DELEGATE,
     dg_vote_ops = sample_ops VOTE (pair_db uint_db uint_db) uint_db 0 (word_pair_c word_c) word_c,
     dg_regid_ops = sample_ops REGID_VOTE uint_db (vector_db uint_db) [] word_c (list_c word_c),
     dg_height_ops = sample_ops LAST_VOTE_HEIGHT (plain_db ()) uint_db 0 unit_c word_c,
     dg_pending_ops = sample_ops PENDING_DELEGATES (plain_db ()) uint_db 0 unit_c word_c,
     dg_active_ops = sample_ops ACTIVE_DELEGATES (plain_db ()) (plain_db []) [] unit_c
       (list_c (iso_c (\<lambda>d. (regid d, votes d)) (\<lambda>(r, v). \<lparr>regid = r, votes = v\<rparr>) (word_pair_c word_c))),
     RegID_IsEmpty = (\<lambda>r. r = 0), GetRegIdRaw = (\<lambda>r. r), RegID_of_raw = (\<lambda>r. r)\<rparr>"

definition sample_delegate_db :: "(uint64, uint64, uint64, uint64) delegate_db" where
  "sample_delegate_db = \<lparr>voteRegIdCache = DbCache (empty_node True), regId2VoteCache = DbCache (empty_node True),
     last_vote_height_cache = SDb None, pending_delegates_cache = SDb None, active_delegates_cache = SDb None\<rparr>"

lemma sample_delegate_ok [simp]: "delegate_ok sample_delegate_env"
  by (simp add: delegate_ok_def sample_delegate_env_def sample_access_ok sample_simple_ok is_data_prefix_def fun_eq_iff)

lemma sample_delegate_iter [simp]: "iter_ok (vote_t sample_delegate_env) (sample_delegate_db, lg)"
  by (simp add: iter_ok_def dg_tables sample_delegate_env_def sample_delegate_db_def sample_iter_hyps is_data_prefix_def)

lemma sample_delegate_clean [simp]:
  "clean (vote_t sample_delegate_env) (sample_delegate_db, lg)"
  "clean (regid_vote_t sample_delegate_env) (sample_delegate_db, lg)"
  "iter_ok (regid_vote_t sample_delegate_env) (sample_delegate_db, lg)"
  by (simp_all add: clean_def iter_ok_def dg_tables sample_delegate_db_def sample_delegate_env_def db_val_def
      empty_node_def sample_iter_hyps is_data_prefix_def)

lemma sample_delegate_empty [simp]:
  "lookup (vote_t sample_delegate_env) (sample_delegate_db, lg) k = None"
  by (simp add: lookup_def view_def visible_def dg_tables sample_delegate_db_def sample_delegate_env_def db_val_def
      empty_node_def)

lemma sample_delegate_simps [simp]:
  "GetRegIdRaw sample_delegate_env r = r" "RegID_IsEmpty sample_delegate_env r = (r = 0)"
  "VoteKey_GetRegId sample_delegate_env k = snd k" "key_empty (dg_vote_ops sample_delegate_env) k = (fst k = 0 \<and> snd k = 0)"
  "key_empty (dg_regid_ops sample_delegate_env) r = (r = 0)" "val_empty (dg_regid_ops sample_delegate_env) vs = (vs = [])"
  by (simp_all add: sample_delegate_env_def VoteKey_GetRegId_def)

lemma GetVote_key [simp]: "GetVote (DelegateVoteToKey v, r) = v"
  by (simp add: GetVote_def vote_key_inverse)

section \<open>Properties\<close>

text \<open>
  Claim C18: \<open>GetTopVoteDelegates\<close> returns delegates with a stored vote, in decreasing order of
  votes, at most \<open>delegateNum\<close> of them, after the fork only those with at least \<open>BpMinVote\<close>
  votes; and every delegate left out has too few votes or no more than any delegate of a
  full list.  It fails exactly when the list is empty.
\<close>

theorem top_delegates:
  assumes "iter_ok (vote_t E) s" and "clean (vote_t E) s"
  shows "\<exists>xs. GetTopVoteDelegates E n m f s = Some (xs \<noteq> [], xs) \<and> length xs \<le> unat n \<and>
    sorted_wrt (\<lambda>a b. votes b \<le> votes a) xs \<and>
    (\<forall>d \<in> set xs. (f \<longrightarrow> m \<le> votes d) \<and>
       (\<exists>k. lookup (vote_t E) s k \<noteq> None \<and> d = \<lparr>regid = VoteKey_GetRegId E k, votes = GetVote k\<rparr>)) \<and>
    (\<forall>k. lookup (vote_t E) s k \<noteq> None \<longrightarrow>
       \<lparr>regid = VoteKey_GetRegId E k, votes = GetVote k\<rparr> \<in> set xs \<or> (f \<and> GetVote k < m) \<or>
       length xs = unat n \<and> (\<forall>d \<in> set xs. GetVote k \<le> votes d))"
proof -
  let ?P = "\<lambda>d. f \<longrightarrow> m \<le> votes d" and ?f = "\<lambda>k. \<lparr>regid = VoteKey_GetRegId E k, votes = GetVote k\<rparr>"
  let ?ok = "filter ?P (ranked E s)"
  let ?xs = "take (unat n) ?ok"
  have sorted: "sorted_wrt (\<lambda>a b. votes b \<le> votes a) ?ok"
    using ranked_sorted [OF assms(1)] by (rule sorted_wrt_filter)
  have "?f k \<in> set ?xs \<or> (f \<and> GetVote k < m) \<or> length ?xs = unat n \<and> (\<forall>d \<in> set ?xs. GetVote k \<le> votes d)"
    if "lookup (vote_t E) s k \<noteq> None" for k
  proof (cases "?f k \<in> set ?xs \<or> (f \<and> GetVote k < m)")
    case False
    have "?f k \<in> set (ranked E s)"
      unfolding set_ranked [OF assms] using that by blast
    with False have "?f k \<in> set ?ok" by auto
    with False have out: "?f k \<in> set (drop (unat n) ?ok)"
      by (metis Un_iff append_take_drop_id set_append)
    have "sorted_wrt (\<lambda>a b. votes b \<le> votes a) (?xs @ drop (unat n) ?ok)"
      using sorted by simp
    then have "\<forall>d \<in> set ?xs. votes (?f k) \<le> votes d"
      using out unfolding sorted_wrt_append by blast
    moreover have "length ?xs = unat n"
      using out by (cases "length ?ok \<le> unat n") simp_all
    ultimately show ?thesis by simp
  qed blast
  moreover have "sorted_wrt (\<lambda>a b. votes b \<le> votes a) ?xs"
    using sorted by (rule sorted_wrt_take)
  moreover have "?P d \<and> (\<exists>k. lookup (vote_t E) s k \<noteq> None \<and> d = ?f k)" if "d \<in> set ?xs" for d
  proof -
    from in_set_takeD [OF that] show ?thesis
      using set_ranked [OF assms] by auto
  qed
  moreover have "GetTopVoteDelegates E n m f s = Some (?xs \<noteq> [], ?xs)"
    using GetTopVoteDelegates_eq [OF assms(1), of n m f] by (simp only: Let_def)
  moreover have "length ?xs \<le> unat n"
    by simp
  ultimately show ?thesis
    by (intro exI [of _ ?xs] conjI ballI allI impI) blast+
qed

theorem top_delegates_witness:
  "\<exists>s1 s2. SetDelegateVotes sample_delegate_env 7 100 (sample_delegate_db, None) = Some (s1, True) \<and>
     SetDelegateVotes sample_delegate_env 8 300 s1 = Some (s2, True) \<and>
     GetTopVoteDelegates sample_delegate_env 1 50 True s2 = Some (True, [\<lparr>regid = 8, votes = 300\<rparr>])"
proof -
  let ?E = sample_delegate_env and ?k = "\<lambda>r v. (DelegateVoteToKey v, r :: uint64)"
  let ?s1 = "after_set (vote_t ?E) (?k 7 100) 1 (sample_delegate_db, None)"
  let ?s2 = "after_set (vote_t ?E) (?k 8 300) 1 ?s1"
  have set: "SetDelegateVotes ?E 7 100 (sample_delegate_db, None) = Some (?s1, True)"
    "SetDelegateVotes ?E 8 300 ?s1 = Some (?s2, True)"
    by (simp_all add: SetDelegateVotes_def)
  have stored: "lookup (vote_t ?E) ?s2 k \<noteq> None \<longleftrightarrow> k = ?k 7 100 \<or> k = ?k 8 300" for k
    by simp
  have iter: "iter_ok (vote_t ?E) ?s2" "clean (vote_t ?E) ?s2"
    by simp_all
  have "?k 7 100 \<noteq> ?k 8 300" by simp
  from top_delegates [OF iter, of 1 50 True] obtain xs where xs:
    "GetTopVoteDelegates ?E 1 50 True ?s2 = Some (xs \<noteq> [], xs)" "length xs \<le> unat (1 :: uint32)"
    and elem: "\<forall>d \<in> set xs. (True \<longrightarrow> 50 \<le> votes d) \<and>
      (\<exists>k. (k = ?k 7 100 \<or> k = ?k 8 300) \<and> d = \<lparr>regid = VoteKey_GetRegId ?E k, votes = GetVote k\<rparr>)"
    and all: "\<forall>k. k = ?k 7 100 \<or> k = ?k 8 300 \<longrightarrow> \<lparr>regid = VoteKey_GetRegId ?E k, votes = GetVote k\<rparr> \<in> set xs \<or>
      (True \<and> GetVote k < 50) \<or> length xs = unat (1 :: uint32) \<and> (\<forall>d \<in> set xs. GetVote k \<le> votes d)"
    unfolding stored by blast
  have "\<lparr>regid = 8, votes = 300\<rparr> \<in> set xs \<or> length xs = 1 \<and> (\<forall>d \<in> set xs. 300 \<le> votes d)"
    using all [rule_format, of "?k 8 300"] by (simp add: word_less_nat_alt)
  moreover have "d = \<lparr>regid = 7, votes = 100\<rparr> \<or> d = \<lparr>regid = 8, votes = 300\<rparr>" if "d \<in> set xs" for d
    using bspec [OF elem that] by auto
  ultimately have "xs = [\<lparr>regid = 8, votes = 300\<rparr>]"
    using xs(2) by (cases xs) (auto simp: word_le_nat_alt)
  with xs(1) set show ?thesis by auto
qed



text \<open>
  On an empty map \<open>GetVoterList\<close> returns exactly the stored votes, each voter with
  the votes \<open>GetCandidateVotes\<close> returns.
\<close>

theorem voter_list:
  assumes "delegate_ok E" and "iter_ok (regid_vote_t E) s" and "clean (regid_vote_t E) s"
  shows "\<exists>voters. GetVoterList E sm_empty s = Some (True, voters) \<and>
    (\<forall>r. \<exists>s'. GetCandidateVotes E r s = Some (s', sm_find voters r))"
proof -
  have "distinct (map fst (rows (regid_vote_t E) s))"
    by (rule sorted_keys_distinct [OF rows_sorted(1) [OF assms(2)]])
  then have "map_of (rev (rows (regid_vote_t E) s)) = lookup (regid_vote_t E) s"
    using rows_lookup(1) [OF assms(2,3)] by (simp add: map_of_rev_distinct)
  with assms show ?thesis
    by (simp add: GetVoterList_def GetCandidateVotes_def voter_loop_find split: option.split)
qed

theorem voter_list_witness:
  "\<exists>s1 voters. SetCandidateVotes sample_delegate_env 7 [5, 6] (sample_delegate_db, None) = Some (s1, True) \<and>
     GetVoterList sample_delegate_env sm_empty s1 = Some (True, voters) \<and> sm_find voters 7 = Some [5, 6]"
proof -
  let ?E = sample_delegate_env
  let ?s1 = "after_set (regid_vote_t ?E) 7 [5, 6] (sample_delegate_db, None)"
  have "SetCandidateVotes ?E 7 [5, 6] (sample_delegate_db, None) = Some (?s1, True)"
    by (simp add: SetCandidateVotes_def)
  moreover have "lookup (regid_vote_t ?E) ?s1 7 = Some [5, 6]"
    by simp
  moreover obtain voters where "GetVoterList ?E sm_empty ?s1 = Some (True, voters)"
    "\<forall>r. \<exists>s'. GetCandidateVotes ?E r ?s1 = Some (s', sm_find voters r)"
    using voter_list [OF sample_delegate_ok, of ?s1] by auto
  moreover have "GetCandidateVotes ?E 7 ?s1 = Some (after_get (regid_vote_t ?E) 7 ?s1, lookup (regid_vote_t ?E) ?s1 7)"
    by (simp add: GetCandidateVotes_def)
  ultimately show ?thesis
    by (metis option.inject prod.inject)
qed

end
