(* ===== verification/Contract.thy ===== *)
theory Contract
  imports Db_Class
begin

text \<open>
  \<open>CContractDBCache\<close> of \<open>contractdb.h\<close> and \<open>contractdb.cpp\<close>: contracts, the data of each
  contract under keys of bounded length, the accounts of a contract's users and execution
  traces; and \<open>CDBContractDataIterator\<close>, which pages through the data of one contract.  The
  largest key size is the constant \<open>MAX_CONTRACT_KEY_SIZE\<close> of another module.
\<close>

section \<open>State\<close>

record ('r, 'cs, 'ua, 'txid) contract_db =
  contractCache :: "('r::linorder, 'cs) kvcache"
  contractDataCache :: "('r \<times> CDBTailKey, string) kvcache"
  contractAccountCache :: "('r \<times> string, 'ua) kvcache"
  contractTracesCache :: "('txid::linorder, string) kvcache"

record ('r, 'cs, 'ua, 'txid) contract_env =
  co_db :: CDBAccess
  co_def_ops :: "('r, 'cs) kvops"
  co_data_ops :: "('r \<times> CDBTailKey, string) kvops"
  co_account_ops :: "('r \<times> string, 'ua) kvops"
  co_traces_ops :: "('txid, string) kvops"
  MAX_CONTRACT_KEY_SIZE :: nat
  ua_IsEmpty :: "'ua \<Rightarrow> bool"
  ua_UserId :: "'ua \<Rightarrow> string"

type_synonym ('r, 'cs, 'ua, 'txid) contract_state = "('r, 'cs, 'ua, 'txid) contract_db dbstate"

definition contract_t :: "('r::linorder, 'cs, 'ua, 'txid::linorder) contract_env \<Rightarrow>
    (('r, 'cs, 'ua, 'txid) contract_db, 'r, 'cs) table" where
  "contract_t E = \<lparr>tget = contractCache, tput = (\<lambda>c. contractCache_update (\<lambda>_. c)),
     tops = co_def_ops E, tdb = co_db E\<rparr>"

definition data_t :: "('r::linorder, 'cs, 'ua, 'txid::linorder) contract_env \<Rightarrow>
    (('r, 'cs, 'ua, 'txid) contract_db, 'r \<times> CDBTailKey, string) table" where
  "data_t E = \<lparr>tget = contractDataCache, tput = (\<lambda>c. contractDataCache_update (\<lambda>_. c)),
     tops = co_data_ops E, tdb = co_db E\<rparr>"

definition user_account_t :: "('r::linorder, 'cs, 'ua, 'txid::linorder) contract_env \<Rightarrow>
    (('r, 'cs, 'ua, 'txid) contract_db, 'r \<times> string, 'ua) table" where
  "user_account_t E = \<lparr>tget = contractAccountCache, tput = (\<lambda>c. contractAccountCache_update (\<lambda>_. c)),
     tops = co_account_ops E, tdb = co_db E\<rparr>"

definition traces_t :: "('r::linorder, 'cs, 'ua, 'txid::linorder) contract_env \<Rightarrow>
    (('r, 'cs, 'ua, 'txid) contract_db, 'txid, string) table" where
  "traces_t E = \<lparr>tget = contractTracesCache, tput = (\<lambda>c. contractTracesCache_update (\<lambda>_. c)),
     tops = co_traces_ops E, tdb = co_db E\<rparr>"

section \<open>Operations\<close>

subsection \<open>Accounts, contracts and traces\<close>

definition GetContractAccount :: "('r::linorder, 'cs, 'ua, 'txid::linorder) contract_env \<Rightarrow> 'r \<Rightarrow> string \<Rightarrow>
    ('r, 'cs, 'ua, 'txid) contract_state \<Rightarrow> (('r, 'cs, 'ua, 'txid) contract_state \<times> 'ua option) option" where
  "GetContractAccount E contractRegId accountKey s = C_GetData (user_account_t E) (contractRegId, accountKey) s"

definition SetContractAccount :: "('r::linorder, 'cs, 'ua, 'txid::linorder) contract_env \<Rightarrow> 'r \<Rightarrow> 'ua \<Rightarrow>
    ('r, 'cs, 'ua, 'txid) contract_state \<Rightarrow> (('r, 'cs, 'ua, 'txid) contract_state \<times> bool) option" where
  "SetContractAccount E contractRegId appAccIn s =
     (if ua_IsEmpty E appAccIn then Some (s, False)
      else C_SetData (user_account_t E) (contractRegId, ua_UserId E appAccIn) appAccIn s)"

definition GetContract :: "('r::linorder, 'cs, 'ua, 'txid::linorder) contract_env \<Rightarrow> 'r \<Rightarrow>
    ('r, 'cs, 'ua, 'txid) contract_state \<Rightarrow> (('r, 'cs, 'ua, 'txid) contract_state \<times> 'cs option) option" where
  "GetContract E contractRegId s = C_GetData (contract_t E) contractRegId s"

definition SaveContract :: "('r::linorder, 'cs, 'ua, 'txid::linorder) contract_env \<Rightarrow> 'r \<Rightarrow> 'cs \<Rightarrow>
    ('r, 'cs, 'ua, 'txid) contract_state \<Rightarrow> (('r, 'cs, 'ua, 'txid) contract_state \<times> bool) option" where
  "SaveContract E contractRegId contractStore s = C_SetData (contract_t E) contractRegId contractStore s"

definition HasContract :: "('r::linorder, 'cs, 'ua, 'txid::linorder) contract_env \<Rightarrow> 'r \<Rightarrow>
    ('r, 'cs, 'ua, 'txid) contract_state \<Rightarrow> (('r, 'cs, 'ua, 'txid) contract_state \<times> bool) option" where
  "HasContract E contractRegId s = C_HasData (contract_t E) contractRegId s"

definition EraseContract :: "('r::linorder, 'cs, 'ua, 'txid::linorder) contract_env \<Rightarrow> 'r \<Rightarrow>
    ('r, 'cs, 'ua, 'txid) contract_state \<Rightarrow> (('r, 'cs, 'ua, 'txid) contract_state \<times> bool) option" where
  "EraseContract E contractRegId s = C_EraseData (contract_t E) contractRegId s"

definition GetContractTraces :: "('r::linorder, 'cs, 'ua, 'txid::linorder) contract_env \<Rightarrow> 'txid \<Rightarrow>
    ('r, 'cs, 'ua, 'txid) contract_state \<Rightarrow> (('r, 'cs, 'ua, 'txid) contract_state \<times> string option) option" where
  "GetContractTraces E txid s = C_GetData (traces_t E) txid s"

definition SetContractTraces :: "('r::linorder, 'cs, 'ua, 'txid::linorder) contract_env \<Rightarrow> 'txid \<Rightarrow> string \<Rightarrow>
    ('r, 'cs, 'ua, 'txid) contract_state \<Rightarrow> (('r, 'cs, 'ua, 'txid) contract_state \<times> bool) option" where
  "SetContractTraces E txid contractTraces s = C_SetData (traces_t E) txid contractTraces s"

subsection \<open>Contract data\<close>

text \<open>A string becomes a \<open>CDBContractKey\<close> by its constructor, whose assertion bounds the length.\<close>

definition GetContractData :: "('r::linorder, 'cs, 'ua, 'txid::linorder) contract_env \<Rightarrow> 'r \<Rightarrow> string \<Rightarrow>
    ('r, 'cs, 'ua, 'txid) contract_state \<Rightarrow> (('r, 'cs, 'ua, 'txid) contract_state \<times> string option) option" where
  "GetContractData E contractRegId contractKey s =
     do { k \<leftarrow> CDBTailKey_make (MAX_CONTRACT_KEY_SIZE E) contractKey; C_GetData (data_t E) (contractRegId, k) s }"

definition SetContractData :: "('r::linorder, 'cs, 'ua, 'txid::linorder) contract_env \<Rightarrow> 'r \<Rightarrow> string \<Rightarrow> string \<Rightarrow>
    ('r, 'cs, 'ua, 'txid) contract_state \<Rightarrow> (('r, 'cs, 'ua, 'txid) contract_state \<times> bool) option" where
  "SetContractData E contractRegId contractKey contractData s =
     do { k \<leftarrow> CDBTailKey_make (MAX_CONTRACT_KEY_SIZE E) contractKey;
          C_SetData (data_t E) (contractRegId, k) contractData s }"

definition HasContractData :: "('r::linorder, 'cs, 'ua, 'txid::linorder) contract_env \<Rightarrow> 'r \<Rightarrow> string \<Rightarrow>
    ('r, 'cs, 'ua, 'txid) contract_state \<Rightarrow> (('r, 'cs, 'ua, 'txid) contract_state \<times> bool) option" where
  "HasContractData E contractRegId contractKey s =
     do { k \<leftarrow> CDBTailKey_make (MAX_CONTRACT_KEY_SIZE E) contractKey; C_HasData (data_t E) (contractRegId, k) s }"

definition EraseContractData :: "('r::linorder, 'cs, 'ua, 'txid::linorder) contract_env \<Rightarrow> 'r \<Rightarrow> string \<Rightarrow>
    ('r, 'cs, 'ua, 'txid) contract_state \<Rightarrow> (('r, 'cs, 'ua, 'txid) contract_state \<times> bool) option" where
  "EraseContractData E contractRegId contractKey s =
     do { k \<leftarrow> CDBTailKey_make (MAX_CONTRACT_KEY_SIZE E) contractKey; C_EraseData (data_t E) (contractRegId, k) s }"

subsection \<open>The iterator over the data of a contract\<close>

text \<open>
  The iterator is the iterator of the cache and the prefix it matches.  Its creation returns
  a null pointer, the inner \<open>None\<close>, when the prefix is too long.
\<close>

type_synonym 'r data_iter = "('r \<times> CDBTailKey, string) base_iter \<times> ('r \<times> CDBTailKey) prefix_matcher"

definition CreateContractDataIterator :: "('r::linorder, 'cs, 'ua, 'txid::linorder) contract_env \<Rightarrow> 'r \<Rightarrow> string \<Rightarrow>
    ('r, 'cs, 'ua, 'txid) contract_state \<Rightarrow> 'r data_iter option option" where
  "CreateContractDataIterator E contractRegid contractKeyPrefix s =
     (if length contractKeyPrefix > MAX_CONTRACT_KEY_SIZE E then Some None
      else do { pre \<leftarrow> CDBTailKey_make (MAX_CONTRACT_KEY_SIZE E) contractKeyPrefix;
                it \<leftarrow> Create (tdb (data_t E)) (tget (data_t E) (fst s));
                Some (Some (it, match_pair2 StartWith (contractRegid, pre))) })"

definition DataIt_SeekUpper :: "('r::linorder, 'cs, 'ua, 'txid::linorder) contract_env \<Rightarrow> string option \<Rightarrow>
    ('r, 'cs, 'ua, 'txid) contract_state \<Rightarrow> 'r data_iter \<Rightarrow> (bool \<times> 'r data_iter) option" where
  "DataIt_SeekUpper E pLastContractKey s i =
     (let T = tops (data_t E); c = tget (data_t E) (fst s) in
      case pLastContractKey of
        None \<Rightarrow> do { it \<leftarrow> Prefix_First T c (snd i) (fst i); Some (it_item it \<noteq> None, it, snd i) }
      | Some lastKey \<Rightarrow>
          if lastKey = [] then do { it \<leftarrow> Prefix_First T c (snd i) (fst i); Some (it_item it \<noteq> None, it, snd i) }
          else if length lastKey > MAX_CONTRACT_KEY_SIZE E then Some (False, i)
          else do { k \<leftarrow> CDBTailKey_make (MAX_CONTRACT_KEY_SIZE E) lastKey;
                    it \<leftarrow> v_SeekUpper (vt_of T c) (Some (fst (last_key (snd i)), k)) (fst i);
                    Some (it_item it \<noteq> None, it, snd i) })"

definition GetContractKey :: "'r \<times> CDBTailKey \<Rightarrow> string" where
  "GetContractKey k = tail_key (snd k)"

text \<open>The loop of a user of the iterator, after it was positioned.\<close>

definition data_loop :: "('r::linorder, 'cs, 'ua, 'txid::linorder) contract_env \<Rightarrow>
    ('r, 'cs, 'ua, 'txid) contract_state \<Rightarrow> 'r data_iter \<Rightarrow> (('r \<times> CDBTailKey) \<times> string) list option" where
  "data_loop E s i = collect (v_Next (vt_of (tops (data_t E)) (tget (data_t E) (fst s)))) (Prefix_item (snd i)) (fst i)"

section \<open>Laws\<close>

definition contract_ok :: "('r::linorder, 'cs, 'ua, 'txid::linorder) contract_env \<Rightarrow> bool" where
  "contract_ok E \<longleftrightarrow> access_ok (co_def_ops E) (co_db E) \<and> access_ok (co_data_ops E) (co_db E) \<and>
     access_ok (co_account_ops E) (co_db E) \<and> access_ok (co_traces_ops E) (co_db E) \<and>
     val_empty (co_data_ops E) = (\<lambda>v. v = [])"

lemmas co_tables = contract_t_def data_t_def user_account_t_def traces_t_def

lemma co_ok [simp]:
  assumes "contract_ok E"
  shows "table_ok (contract_t E)" "table_ok (data_t E)" "table_ok (user_account_t E)" "table_ok (traces_t E)"
    "val_empty (co_data_ops E) v = (v = [])"
  using assms by (simp_all add: contract_ok_def table_ok_def co_tables)

lemma co_ops [simp]: "tops (data_t E) = co_data_ops E" "tops (contract_t E) = co_def_ops E"
  by (simp_all add: co_tables)

lemma StartWith_prefix: "StartWith k pre \<longleftrightarrow> prefix (tail_key pre) (tail_key k)"
  by (metis StartWith_def append_eq_conv_conj prefix_def prefixI)

lemma tail_key_le: "(k :: CDBTailKey) \<le> l \<longleftrightarrow> tail_key k \<le> tail_key l"
  by (simp add: less_eq_CDBTailKey_ext_def less_eq_prod_def le_less)

lemma tail_key_less: "(k :: CDBTailKey) < l \<longleftrightarrow> tail_key k < tail_key l"
  by (simp add: less_CDBTailKey_ext_def less_prod_def)

lemma data_matcher_ok:
  assumes "\<not> key_empty T (r, pre)"
  shows "matcher_ok T (match_pair2 StartWith (r :: 'r::linorder, pre))"
proof -
  let ?m = "match_pair2 StartWith (r, pre)"
  have start: "last_key ?m \<le> k" if "matches ?m k" for k
    using that le_append_self [of "tail_key pre"]
    by (cases k) (auto simp: match_pair2_def StartWith_prefix prefix_def less_eq_prod_def tail_key_le)
  have convex: "matches ?m a" if "last_key ?m \<le> a" "a \<le> b" "matches ?m b" for a b
  proof -
    obtain x y z w where ab: "a = (x, y)" "b = (z, w)" by (cases a, cases b)
    have "z = r" "prefix (tail_key pre) (tail_key w)"
      using that(3) by (simp_all add: ab match_pair2_def StartWith_prefix)
    moreover have "x = r"
      using that(1,2) \<open>z = r\<close> by (auto simp: ab match_pair2_def less_eq_prod_def)
    moreover have "tail_key pre \<le> tail_key y" "tail_key y \<le> tail_key w"
      using that(1,2) \<open>x = r\<close> \<open>z = r\<close> by (auto simp: ab match_pair2_def less_eq_prod_def tail_key_le)
    ultimately show ?thesis
      using prefix_interval [of "tail_key pre" "tail_key pre" "tail_key w" "tail_key y"]
      by (simp add: ab match_pair2_def StartWith_prefix)
  qed
  have "\<not> key_empty T (last_key ?m)"
    using assms by (simp add: match_pair2_def)
  with start convex show ?thesis
    unfolding matcher_ok_def by blast
qed

text \<open>The entries of one contract with a key prefix, in key order.\<close>

definition contract_entries :: "('r::linorder, 'cs, 'ua, 'txid::linorder) contract_env \<Rightarrow> 'r \<Rightarrow> string \<Rightarrow>
    ('r, 'cs, 'ua, 'txid) contract_state \<Rightarrow> (('r \<times> CDBTailKey) \<times> string) list" where
  "contract_entries E r pre s =
     filter (\<lambda>x. fst (fst x) = r \<and> prefix pre (tail_key (snd (fst x)))) (rows (data_t E) s)"

lemma contract_entries_match:
  "contract_entries E r pre s =
     filter (\<lambda>x. matches (match_pair2 StartWith (r, \<lparr>tail_key = pre\<rparr>)) (fst x)) (rows (data_t E) s)"
  by (simp add: contract_entries_def match_pair2_def StartWith_prefix case_prod_unfold)

lemma sorted_split:
  fixes f :: "'a \<Rightarrow> 'b::linorder"
  shows "sorted (map f xs) \<Longrightarrow> filter (\<lambda>x. f x \<le> b) xs @ filter (\<lambda>x. \<not> f x \<le> b) xs = xs"
proof (induction xs)
  case (Cons x xs)
  show ?case
  proof (cases "f x \<le> b")
    case False
    have "\<not> f y \<le> b" if "y \<in> set xs" for y
      using Cons.prems False that by (auto dest: order_trans)
    then have "filter (\<lambda>x. f x \<le> b) xs = []" "filter (\<lambda>x. \<not> f x \<le> b) xs = xs"
      by (simp_all add: filter_empty_conv filter_id_conv)
    with False show ?thesis by simp
  qed (use Cons in simp)
qed simp

section \<open>A concrete instance\<close>

definition sample_contract_env :: "(uint64, uint64, string, uint64) contract_env" where
  "sample_contract_env = \<lparr>co_db = empty_db DB_CONTRACT,
     co_def_ops = sample_ops CONTRACT_DEF uint_db uint_db 0 word_c word_c,
     co_data_ops = sample_ops CONTRACT_DATA (pair_db uint_db (plain_db \<lparr>tail_key = []\<rparr>)) string_db []
       (word_pair_c (iso_c tail_key (\<lambda>k. \<lparr>tail_key = k\<rparr>) string_c)) string_c,
     co_account_ops = sample_ops CONTRACT_ACCOUNT (pair_db uint_db string_db) string_db [] (word_pair_c string_c) string_c,
     co_traces_ops = sample_ops CONTRACT_TRACES uint_db string_db [] word_c string_c,
     MAX_CONTRACT_KEY_SIZE = 4, ua_IsEmpty = (\<lambda>a. a = []), ua_UserId = (\<lambda>a. a)\<rparr>"

definition sample_contract_db :: "(uint64, uint64, string, uint64) contract_db" where
  "sample_contract_db = \<lparr>contractCache = DbCache (empty_node True), contractDataCache = DbCache (empty_node True),
     contractAccountCache = DbCache (empty_node True), contractTracesCache = DbCache (empty_node True)\<rparr>"

lemma tail_key_mono: "mono_coder (iso_c tail_key (\<lambda>k. \<lparr>tail_key = k\<rparr>) string_c :: CDBTailKey coder)"
  by (simp add: mono_coder_def iso_c_def string_c_def tail_key_less)

lemma sample_contract_ok [simp]: "contract_ok sample_contract_env"
  by (simp add: contract_ok_def sample_contract_env_def sample_access_ok is_data_prefix_def fun_eq_iff)

lemma sample_contract_iter [simp]:
  "iter_ok (data_t sample_contract_env) (sample_contract_db, lg)" "clean (data_t sample_contract_env) (sample_contract_db, lg)"
  by (simp_all add: iter_ok_def clean_def co_tables sample_contract_env_def sample_contract_db_def sample_iter_hyps
      is_data_prefix_def tail_key_mono db_val_def empty_node_def)

lemma sample_contract_simps [simp]:
  "MAX_CONTRACT_KEY_SIZE sample_contract_env = 4"
  "key_empty (co_data_ops sample_contract_env) (r, k) = (r = 0 \<and> tail_key k = [])"
  "lookup (data_t sample_contract_env) (sample_contract_db, lg) x = None"
  by (auto simp: sample_contract_env_def lookup_def view_def visible_def co_tables sample_contract_db_def db_val_def
      empty_node_def)

section \<open>Properties\<close>

text \<open>
  What is stored for a key of a contract is read back, and an empty value as
  absent; no entry of another contract or another key changes; and a key longer than the
  limit never reaches the cache, the call fails its assertion.
\<close>

theorem contract_data_isolated:
  assumes "contract_ok E" and "\<forall>k. \<not> key_empty (co_data_ops E) (r, k)"
  shows "(length key \<le> MAX_CONTRACT_KEY_SIZE E \<longrightarrow>
      (\<exists>s1. SetContractData E r key v s = Some (s1, True) \<and>
        (\<exists>s2. GetContractData E r key s1 = Some (s2, if v = [] then None else Some v)) \<and>
        (\<exists>s2. HasContractData E r key s1 = Some (s2, v \<noteq> [])) \<and>
        (\<forall>r' key'. (r', key') \<noteq> (r, key) \<and> length key' \<le> MAX_CONTRACT_KEY_SIZE E \<longrightarrow>
          (\<exists>s2 s3 x. GetContractData E r' key' s1 = Some (s2, x) \<and> GetContractData E r' key' s = Some (s3, x))))) \<and>
    (length key > MAX_CONTRACT_KEY_SIZE E \<longrightarrow> SetContractData E r key v s = None \<and>
       GetContractData E r key s = None \<and> EraseContractData E r key s = None)"
  using assms
  by (auto simp: SetContractData_def GetContractData_def HasContractData_def EraseContractData_def CDBTailKey_make_def)

theorem contract_data_isolated_witness:
  "\<exists>s1 s2. SetContractData sample_contract_env 7 ''abc'' ''x'' (sample_contract_db, None) = Some (s1, True) \<and>
     GetContractData sample_contract_env 7 ''abc'' s1 = Some (s2, Some ''x'') \<and>
     SetContractData sample_contract_env 7 ''abcde'' ''x'' s1 = None"
proof -
  have "\<forall>k. \<not> key_empty (co_data_ops sample_contract_env) (7, k)"
    by simp
  from contract_data_isolated [OF sample_contract_ok this, of "''abc''" "''x''" "(sample_contract_db, None)"]
    contract_data_isolated [OF sample_contract_ok this, of "''abcde''" "''x''"]
  show ?thesis by simp blast
qed

text \<open>
  Paging through the data of a contract is complete.  An iterator for a prefix,
  positioned without a last key, visits exactly the entries of the contract with that prefix,
  in key order; positioned after a key of the prefix it visits exactly the entries after that
  key; so a page that ends at some entry and the next page together are the whole, without
  a gap or a repetition.  A last key longer than the limit leaves the iterator where it was.
\<close>

theorem contract_pages:
  assumes "iter_ok (data_t E) s" and "\<forall>k. \<not> key_empty (co_data_ops E) (r, k)"
    and "length pre \<le> MAX_CONTRACT_KEY_SIZE E" and "prefix pre lastKey" and "lastKey \<noteq> []"
  shows "\<exists>i. CreateContractDataIterator E r pre s = Some (Some i) \<and>
    (\<exists>b j. DataIt_SeekUpper E None s i = Some (b, j) \<and> data_loop E s j = Some (contract_entries E r pre s)) \<and>
    (length lastKey \<le> MAX_CONTRACT_KEY_SIZE E \<longrightarrow>
      (\<exists>b j page. DataIt_SeekUpper E (Some lastKey) s i = Some (b, j) \<and> data_loop E s j = Some page \<and>
         contract_entries E r pre s =
           filter (\<lambda>x. GetContractKey (fst x) \<le> lastKey) (contract_entries E r pre s) @ page \<and>
         (\<forall>x \<in> set page. lastKey < GetContractKey (fst x)))) \<and>
    (length lastKey > MAX_CONTRACT_KEY_SIZE E \<longrightarrow> DataIt_SeekUpper E (Some lastKey) s i = Some (False, i))"
proof -
  let ?p = "\<lparr>tail_key = pre\<rparr>" and ?k = "(r, \<lparr>tail_key = lastKey\<rparr>)" and ?all = "contract_entries E r pre s"
  let ?m = "match_pair2 StartWith (r, ?p)"
  obtain it where it: "Create (tdb (data_t E)) (tget (data_t E) (fst s)) = Some it"
    "it_ok (tops (data_t E)) (tdb (data_t E)) (tget (data_t E) (fst s)) it"
    using iter_created [OF assms(1)] by blast
  have "matcher_ok (tops (data_t E)) ?m"
    using assms(2) by (intro data_matcher_ok) simp
  moreover have "matches ?m ?k" "\<not> key_empty (tops (data_t E)) ?k" "fst (last_key ?m) = r"
    using assms(2,4) by (simp_all add: match_pair2_def StartWith_prefix)
  ultimately have m: "matcher_ok (tops (data_t E)) ?m" "matches ?m ?k" "\<not> key_empty (tops (data_t E)) ?k"
    "fst (last_key ?m) = r" by blast+
  have c: "CreateContractDataIterator E r pre s = Some (Some (it, ?m))"
    using it(1) assms(3) by (simp add: CreateContractDataIterator_def CDBTailKey_make_def)
  obtain i1 where i1: "Prefix_First (tops (data_t E)) (tget (data_t E) (fst s)) ?m it = Some i1"
    "data_loop E s (i1, ?m) = Some ?all"
    using prefix_first_loop [OF assms(1) it(2) m(1)] by (auto simp: data_loop_def contract_entries_match)
  obtain i2 where i2: "v_SeekUpper (vt_of (tops (data_t E)) (tget (data_t E) (fst s))) (Some ?k) it = Some i2"
    "data_loop E s (i2, ?m) = Some (filter (\<lambda>x. ?k < fst x \<and> matches ?m (fst x)) (rows (data_t E) s))"
    using prefix_upper_loop [OF assms(1) it(2) m(1-3)] by (auto simp: data_loop_def)
  have split: "filter (\<lambda>x. ?k < fst x \<and> matches ?m (fst x)) (rows (data_t E) s) =
      filter (\<lambda>x. \<not> GetContractKey (fst x) \<le> lastKey) ?all"
    by (auto simp: contract_entries_match match_pair2_def GetContractKey_def less_prod_def tail_key_less not_le
        intro!: filter_cong)
  have "sorted (map (\<lambda>x. GetContractKey (fst x)) ?all)"
  proof -
    have "sorted_wrt (\<lambda>x y. fst x < fst y) ?all"
      using rows_sorted(1) [OF assms(1)]
      by (simp add: contract_entries_def sorted_keys_def sorted_wrt_map sorted_wrt_filter)
    then have "sorted_wrt (\<lambda>x y. GetContractKey (fst x) \<le> GetContractKey (fst y)) ?all"
      by (rule sorted_wrt_mono_rel [rotated])
        (auto simp: contract_entries_def GetContractKey_def less_prod_def tail_key_less)
    then show ?thesis by (simp add: sorted_map sorted_wrt_map)
  qed
  then have parts: "?all = filter (\<lambda>x. GetContractKey (fst x) \<le> lastKey) ?all @
      filter (\<lambda>x. \<not> GetContractKey (fst x) \<le> lastKey) ?all"
    using sorted_split [of "\<lambda>x. GetContractKey (fst x)" ?all lastKey] by simp
  show ?thesis
    using c i1 i2 split parts assms(5) m(4)
    by (intro exI [of _ "(it, ?m)"]) (auto simp: DataIt_SeekUpper_def CDBTailKey_make_def Let_def)
qed

theorem contract_pages_witness:
  "\<exists>s i b j. SetContractData sample_contract_env 7 ''abc'' ''x'' (sample_contract_db, None) = Some (s, True) \<and>
     CreateContractDataIterator sample_contract_env 7 ''a'' s = Some (Some i) \<and>
     DataIt_SeekUpper sample_contract_env (Some ''ab'') s i = Some (b, j) \<and>
     data_loop sample_contract_env s j = Some [((7, \<lparr>tail_key = ''abc''\<rparr>), ''x'')]"
proof -
  let ?E = sample_contract_env and ?k = "(7, \<lparr>tail_key = ''abc''\<rparr>) :: uint64 \<times> CDBTailKey"
  let ?s = "after_set (data_t ?E) ?k ''x'' (sample_contract_db, None)"
  have set: "SetContractData ?E 7 ''abc'' ''x'' (sample_contract_db, None) = Some (?s, True)"
    by (simp add: SetContractData_def CDBTailKey_make_def)
  have ok: "iter_ok (data_t ?E) ?s" "clean (data_t ?E) ?s" "\<forall>k. \<not> key_empty (co_data_ops ?E) (7, k)"
    by simp_all
  have l: "lookup (data_t ?E) ?s = [?k \<mapsto> ''x'']"
    by (simp add: fun_eq_iff)
  have "(k, v) \<in> set (rows (data_t ?E) ?s) \<longleftrightarrow> k = ?k \<and> v = ''x''" for k v
    unfolding rows_lookup(2) [OF ok(1,2)] l by auto
  then have "set (rows (data_t ?E) ?s) = {(?k, ''x'')}"
    by auto
  moreover have "distinct (rows (data_t ?E) ?s)"
    using sorted_keys_distinct [OF rows_sorted(1) [OF ok(1)]] by (simp add: distinct_map)
  ultimately have rows: "rows (data_t ?E) ?s = [(?k, ''x'')]"
    by (cases "rows (data_t ?E) ?s") (auto simp: subset_singleton_iff)
  have all: "contract_entries ?E 7 ''a'' ?s = [(?k, ''x'')]"
    by (simp add: contract_entries_def rows)
  have le: "\<not> ''abc'' \<le> ''ab''"
    by simp
  from contract_pages [OF ok(1,3), of "''a''" "''ab''"] obtain i b j page where
    "CreateContractDataIterator ?E 7 ''a'' ?s = Some (Some i)"
    "DataIt_SeekUpper ?E (Some ''ab'') ?s i = Some (b, j)" "data_loop ?E ?s j = Some page"
    "contract_entries ?E 7 ''a'' ?s = filter (\<lambda>x. GetContractKey (fst x) \<le> ''ab'') (contract_entries ?E 7 ''a'' ?s) @ page"
    by auto
  moreover have "filter (\<lambda>x. GetContractKey (fst x) \<le> ''ab'') [(?k, ''x'')] = []"
    using le by (simp only: GetContractKey_def filter.simps fst_conv snd_conv CDBTailKey.simps if_False)
  ultimately show ?thesis
    using set unfolding all by (metis append_Nil)
qed

end
