(* ===== verification/Asset.thy ===== *)
theory Asset
  imports Db_Class
begin

text \<open>
  \<open>CAssetDbCache\<close> of \<open>assetdb.h\<close> and \<open>assetdb.cpp\<close>: the assets by symbol with the checks of
  their permissions, and the swap pairs of foreign tokens by the peer's and by the own symbol.
  Assets are objects of another module, read through \<open>as_symbol\<close> and \<open>as_HasPerms\<close>; the
  permission bits and the symbol limits are constants of other modules.
\<close>

section \<open>State\<close>

record CAxcSwapPairStore =
  status :: uint8
  peer_symbol :: string
  peer_chain_type :: uint8

definition GetSelfSymbol :: "CAxcSwapPairStore \<Rightarrow> string" where
  "GetSelfSymbol p = ''m'' @ peer_symbol p"

definition SwapPair_IsEmpty :: "CAxcSwapPairStore \<Rightarrow> bool" where
  "SwapPair_IsEmpty p \<longleftrightarrow> status p = 0"

definition SwapPair_SetEmpty :: "uint8 \<Rightarrow> uint8 \<Rightarrow> CAxcSwapPairStore \<Rightarrow> CAxcSwapPairStore" where
  "SwapPair_SetEmpty NULL_PROPOSAL_OP NULL_CHAIN_TYPE p =
     \<lparr>status = NULL_PROPOSAL_OP, peer_symbol = [], peer_chain_type = NULL_CHAIN_TYPE\<rparr>"

record 'as asset_db =
  asset_cache :: "(string, 'as) kvcache"
  axc_swap_coin_ps_cache :: "(string, CAxcSwapPairStore) kvcache"
  axc_swap_coin_sp_cache :: "(string, CAxcSwapPairStore) kvcache"

record 'as asset_env =
  as_db :: CDBAccess
  as_asset_ops :: "(string, 'as) kvops"
  as_ps_ops :: "(string, CAxcSwapPairStore) kvops"
  as_sp_ops :: "(string, CAxcSwapPairStore) kvops"
  as_symbol :: "'as \<Rightarrow> string"
  as_HasPerms :: "'as \<Rightarrow> uint64 \<Rightarrow> bool"
  MIN_TOKEN_SYMBOL_LEN :: nat
  MAX_TOKEN_SYMBOL_LEN :: nat
  PERM_DEX_BASE :: uint64
  PERM_DEX_QUOTE :: uint64
  kPriceQuoteSymbolSet :: "string set"

definition asset_t :: "'as asset_env \<Rightarrow> ('as asset_db, string, 'as) table" where
  "asset_t E = \<lparr>tget = asset_cache, tput = (\<lambda>c. asset_cache_update (\<lambda>_. c)), tops = as_asset_ops E, tdb = as_db E\<rparr>"

definition ps_t :: "'as asset_env \<Rightarrow> ('as asset_db, string, CAxcSwapPairStore) table" where
  "ps_t E = \<lparr>tget = axc_swap_coin_ps_cache, tput = (\<lambda>c. axc_swap_coin_ps_cache_update (\<lambda>_. c)),
     tops = as_ps_ops E, tdb = as_db E\<rparr>"

definition sp_t :: "'as asset_env \<Rightarrow> ('as asset_db, string, CAxcSwapPairStore) table" where
  "sp_t E = \<lparr>tget = axc_swap_coin_sp_cache, tput = (\<lambda>c. axc_swap_coin_sp_cache_update (\<lambda>_. c)),
     tops = as_sp_ops E, tdb = as_db E\<rparr>"

section \<open>Operations\<close>

definition GetAsset :: "'as asset_env \<Rightarrow> string \<Rightarrow> 'as asset_db dbstate \<Rightarrow> ('as asset_db dbstate \<times> 'as option) option" where
  "GetAsset E tokenSymbol s = C_GetData (asset_t E) tokenSymbol s"

definition SetAsset :: "'as asset_env \<Rightarrow> 'as \<Rightarrow> 'as asset_db dbstate \<Rightarrow> ('as asset_db dbstate \<times> bool) option" where
  "SetAsset E asset s = C_SetData (asset_t E) (as_symbol E asset) asset s"

definition HasAsset :: "'as asset_env \<Rightarrow> string \<Rightarrow> 'as asset_db dbstate \<Rightarrow> ('as asset_db dbstate \<times> bool) option" where
  "HasAsset E tokenSymbol s = C_HasData (asset_t E) tokenSymbol s"

definition CheckAsset :: "'as asset_env \<Rightarrow> string \<Rightarrow> 'as asset_db dbstate \<Rightarrow> ('as asset_db dbstate \<times> 'as option) option" where
  "CheckAsset E symbol s =
     (if length symbol < MIN_TOKEN_SYMBOL_LEN E \<or> length symbol > MAX_TOKEN_SYMBOL_LEN E then Some (s, None)
      else do { (s, r) \<leftarrow> GetAsset E symbol s;
                case r of None \<Rightarrow> Some (s, None) | Some asset \<Rightarrow> Some (s, Some asset) })"

definition CheckAsset_perms :: "'as asset_env \<Rightarrow> string \<Rightarrow> uint64 \<Rightarrow> 'as asset_db dbstate \<Rightarrow>
    ('as asset_db dbstate \<times> bool) option" where
  "CheckAsset_perms E symbol permsSum s =
     do { (s, r) \<leftarrow> CheckAsset E symbol s;
          case r of
            None \<Rightarrow> Some (s, False)
          | Some asset \<Rightarrow> if permsSum = 0 then Some (s, True) else Some (s, as_HasPerms E asset permsSum) }"

fun perm_loop :: "'as asset_env \<Rightarrow> uint64 \<Rightarrow> (string \<times> 'as) list \<Rightarrow> (string, unit) std_map \<Rightarrow> (string, unit) std_map" where
  "perm_loop E permType [] symbolSet = symbolSet"
| "perm_loop E permType ((k, v) # rest) symbolSet =
     perm_loop E permType rest (if as_HasPerms E v permType then sm_set k () symbolSet else symbolSet)"

definition GetAssetTokensByPerm :: "'as asset_env \<Rightarrow> uint64 \<Rightarrow> (string, unit) std_map \<Rightarrow> 'as asset_db dbstate \<Rightarrow>
    (bool \<times> (string, unit) std_map) option" where
  "GetAssetTokensByPerm E permType symbolSet s =
     do { items \<leftarrow> C_items (asset_t E) s; Some (True, perm_loop E permType items symbolSet) }"

definition CheckPriceFeedQuoteSymbol :: "'as asset_env \<Rightarrow> string \<Rightarrow> bool" where
  "CheckPriceFeedQuoteSymbol E quoteSymbol = (if quoteSymbol \<notin> kPriceQuoteSymbolSet E then False else True)"

definition CheckDexBaseSymbol :: "'as asset_env \<Rightarrow> string \<Rightarrow> 'as asset_db dbstate \<Rightarrow> ('as asset_db dbstate \<times> bool) option" where
  "CheckDexBaseSymbol E baseSymbol s =
     do { (s, r) \<leftarrow> GetAsset E baseSymbol s;
          case r of
            None \<Rightarrow> Some (s, False)
          | Some baseAsset \<Rightarrow> if \<not> as_HasPerms E baseAsset (PERM_DEX_BASE E) then Some (s, False) else Some (s, True) }"

definition CheckDexQuoteSymbol :: "'as asset_env \<Rightarrow> string \<Rightarrow> 'as asset_db dbstate \<Rightarrow> ('as asset_db dbstate \<times> bool) option" where
  "CheckDexQuoteSymbol E quoteSymbol s =
     do { (s, r) \<leftarrow> GetAsset E quoteSymbol s;
          case r of
            None \<Rightarrow> Some (s, False)
          | Some quoteAsset \<Rightarrow> if \<not> as_HasPerms E quoteAsset (PERM_DEX_QUOTE E) then Some (s, False) else Some (s, True) }"

definition SetAxcSwapPair :: "'as asset_env \<Rightarrow> CAxcSwapPairStore \<Rightarrow> 'as asset_db dbstate \<Rightarrow>
    ('as asset_db dbstate \<times> bool) option" where
  "SetAxcSwapPair E swapPair s =
     do { (s, ok) \<leftarrow> C_SetData (ps_t E) (peer_symbol swapPair) swapPair s;
          if \<not> ok then Some (s, False) else C_SetData (sp_t E) (GetSelfSymbol swapPair) swapPair s }"

definition HasAxcCoinPairByPeerSymbol :: "'as asset_env \<Rightarrow> string \<Rightarrow> 'as asset_db dbstate \<Rightarrow>
    ('as asset_db dbstate \<times> bool) option" where
  "HasAxcCoinPairByPeerSymbol E peerSymbol s = C_HasData (ps_t E) peerSymbol s"

definition GetAxcCoinPairBySelfSymbol :: "'as asset_env \<Rightarrow> string \<Rightarrow> 'as asset_db dbstate \<Rightarrow>
    ('as asset_db dbstate \<times> CAxcSwapPairStore option) option" where
  "GetAxcCoinPairBySelfSymbol E selfSymbol s = C_GetData (sp_t E) selfSymbol s"

definition GetAxcCoinPairByPeerSymbol :: "'as asset_env \<Rightarrow> string \<Rightarrow> 'as asset_db dbstate \<Rightarrow>
    ('as asset_db dbstate \<times> CAxcSwapPairStore option) option" where
  "GetAxcCoinPairByPeerSymbol E peerSymbol s = C_GetData (ps_t E) peerSymbol s"

section \<open>Laws\<close>

definition asset_ok :: "'as asset_env \<Rightarrow> bool" where
  "asset_ok E \<longleftrightarrow> access_ok (as_asset_ops E) (as_db E) \<and> access_ok (as_ps_ops E) (as_db E) \<and>
     access_ok (as_sp_ops E) (as_db E) \<and> key_empty (as_ps_ops E) = (\<lambda>k. k = []) \<and>
     key_empty (as_sp_ops E) = (\<lambda>k. k = []) \<and> val_empty (as_ps_ops E) = SwapPair_IsEmpty \<and>
     val_empty (as_sp_ops E) = SwapPair_IsEmpty"

lemmas as_tables = asset_t_def ps_t_def sp_t_def

lemma as_ok [simp]:
  assumes "asset_ok E"
  shows "table_ok (asset_t E)" "table_ok (ps_t E)" "table_ok (sp_t E)" "key_empty (as_ps_ops E) k = (k = [])"
    "key_empty (as_sp_ops E) k = (k = [])" "val_empty (as_ps_ops E) = SwapPair_IsEmpty"
    "val_empty (as_sp_ops E) = SwapPair_IsEmpty"
  using assms by (simp_all add: asset_ok_def table_ok_def as_tables)

lemma as_ops [simp]: "tops (asset_t E) = as_asset_ops E" "tops (ps_t E) = as_ps_ops E" "tops (sp_t E) = as_sp_ops E"
  by (simp_all add: as_tables)

lemma as_indep [simp]: "indep (tget (ps_t E)) (tput (sp_t E))" "indep (tget (sp_t E)) (tput (ps_t E))"
  by (simp_all add: indep_def as_tables)

lemma perm_loop_find:
  "sm_find (perm_loop E p items m) k =
     (if \<exists>v. (k, v) \<in> set items \<and> as_HasPerms E v p then Some () else sm_find m k)"
  by (induction E p items m rule: perm_loop.induct) auto

text \<open>The two tables of swap pairs agree: the own symbol is an \<open>m\<close> before the peer's.\<close>

definition swap_inv :: "'as asset_env \<Rightarrow> 'as asset_db dbstate \<Rightarrow> bool" where
  "swap_inv E s \<longleftrightarrow> (\<forall>y. lookup (sp_t E) s (''m'' @ y) = lookup (ps_t E) s y) \<and>
     (\<forall>y p. lookup (ps_t E) s y = Some p \<longrightarrow> peer_symbol p = y)"

lemma SetAxcSwapPair_eq:
  assumes "asset_ok E"
  shows "\<exists>s'. SetAxcSwapPair E p s = Some (s', peer_symbol p \<noteq> []) \<and>
    (if peer_symbol p = [] then lookup (ps_t E) s' = lookup (ps_t E) s \<and> lookup (sp_t E) s' = lookup (sp_t E) s
     else lookup (ps_t E) s' = (lookup (ps_t E) s)(peer_symbol p := (if SwapPair_IsEmpty p then None else Some p)) \<and>
       lookup (sp_t E) s' = (lookup (sp_t E) s)(GetSelfSymbol p := (if SwapPair_IsEmpty p then None else Some p)))"
  using assms by (simp add: SetAxcSwapPair_def GetSelfSymbol_def)

lemma swap_inv_set:
  assumes "asset_ok E" and "swap_inv E s" and "SetAxcSwapPair E p s = Some (s', ok)"
  shows "swap_inv E s'"
  using assms(2,3) SetAxcSwapPair_eq [OF assms(1), of p s]
  by (cases "peer_symbol p = []") (auto simp: swap_inv_def GetSelfSymbol_def split: if_splits)

section \<open>A concrete instance\<close>

text \<open>An asset of the example is its symbol and its permission bits.\<close>

definition swap_db :: "CAxcSwapPairStore db_type" where
  "swap_db = \<lparr>IsEmpty = SwapPair_IsEmpty, SetEmpty = SwapPair_SetEmpty 0 0, ToString = (\<lambda>_. [])\<rparr>"

lemma swap_db_simps [simp]: "lawful swap_db" "IsEmpty swap_db = SwapPair_IsEmpty"
  by (simp_all add: lawful_def swap_db_def SwapPair_IsEmpty_def SwapPair_SetEmpty_def)

definition swap_c :: "CAxcSwapPairStore coder" where
  "swap_c = iso_c (\<lambda>p. (status p, peer_chain_type p, peer_symbol p))
     (\<lambda>(a, b, c). \<lparr>status = a, peer_symbol = c, peer_chain_type = b\<rparr>) (word_pair_c (word_pair_c string_c))"

lemma swap_coder [simp]: "coder_ok swap_c"
  by (simp add: swap_c_def)

definition sample_asset_env :: "(string \<times> uint64) asset_env" where
  "sample_asset_env = \<lparr>as_db = empty_db DB_ASSET,
     as_asset_ops = sample_ops ASSET string_db (plain_db ([], 0)) ([], 0) string_c (pair_c string_c word_c),
     as_ps_ops = sample_ops AXC_COIN_PEERTOSELF string_db swap_db
       \<lparr>status = 0, peer_symbol = [], peer_chain_type = 0\<rparr> string_c swap_c,
     as_sp_ops = sample_ops AXC_COIN_SELFTOPEER string_db swap_db
       \<lparr>status = 0, peer_symbol = [], peer_chain_type = 0\<rparr> string_c swap_c,
     as_symbol = fst, as_HasPerms = (\<lambda>a p. and (snd a) p = p), MIN_TOKEN_SYMBOL_LEN = 3, MAX_TOKEN_SYMBOL_LEN = 7,
     PERM_DEX_BASE = 1, PERM_DEX_QUOTE = 2, kPriceQuoteSymbolSet = {''USD''}\<rparr>"

definition sample_asset_db :: "(string \<times> uint64) asset_db" where
  "sample_asset_db = \<lparr>asset_cache = DbCache (empty_node True), axc_swap_coin_ps_cache = DbCache (empty_node True),
     axc_swap_coin_sp_cache = DbCache (empty_node True)\<rparr>"

lemma sample_asset_ok [simp]: "asset_ok sample_asset_env"
  by (simp add: asset_ok_def sample_asset_env_def sample_access_ok is_data_prefix_def fun_eq_iff)

lemma sample_asset_empty [simp]:
  "lookup (asset_t sample_asset_env) (sample_asset_db, lg) y = None"
  "lookup (ps_t sample_asset_env) (sample_asset_db, lg) y = None"
  "lookup (sp_t sample_asset_env) (sample_asset_db, lg) y = None"
  "iter_ok (asset_t sample_asset_env) (sample_asset_db, lg)" "clean (asset_t sample_asset_env) (sample_asset_db, lg)"
  by (simp_all add: lookup_def view_def visible_def as_tables sample_asset_db_def sample_asset_env_def db_val_def
      empty_node_def iter_ok_def clean_def sample_iter_hyps is_data_prefix_def)

lemma sample_asset_simps [simp]:
  "key_empty (as_asset_ops sample_asset_env) k = (k = [])" "val_empty (as_asset_ops sample_asset_env) v = (v = ([], 0))"
  "as_symbol sample_asset_env a = fst a" "MIN_TOKEN_SYMBOL_LEN sample_asset_env = 3"
  "MAX_TOKEN_SYMBOL_LEN sample_asset_env = 7" "PERM_DEX_BASE sample_asset_env = 1"
  "as_HasPerms sample_asset_env a p = (and (snd a) p = p)"
  by (simp_all add: sample_asset_env_def)

section \<open>Properties\<close>

text \<open>
  The permission checks say what the stored asset says.  A symbol passes
  \<open>CheckAsset\<close> exactly when its length is within the limits, the asset is stored and, for a
  non-zero sum, has all the permissions; and \<open>GetAssetTokensByPerm\<close> adds to the set exactly
  the symbols of the stored assets with the permission, those that pass a check for it.
\<close>

theorem asset_checks:
  assumes "asset_ok E" and "iter_ok (asset_t E) s" and "clean (asset_t E) s"
  shows "(\<forall>y p. \<exists>s'. CheckAsset_perms E y p s = Some (s', length y \<ge> MIN_TOKEN_SYMBOL_LEN E \<and>
      length y \<le> MAX_TOKEN_SYMBOL_LEN E \<and> (\<exists>a. lookup (asset_t E) s y = Some a \<and> (p = 0 \<or> as_HasPerms E a p)))) \<and>
    (\<forall>y. \<exists>s'. CheckDexBaseSymbol E y s = Some (s', \<exists>a. lookup (asset_t E) s y = Some a \<and> as_HasPerms E a (PERM_DEX_BASE E))) \<and>
    (\<forall>p m. \<exists>m'. GetAssetTokensByPerm E p m s = Some (True, m') \<and>
      (\<forall>y. sm_find m' y \<noteq> None \<longleftrightarrow> sm_find m y \<noteq> None \<or>
         (\<exists>a. lookup (asset_t E) s y = Some a \<and> as_HasPerms E a p)))"
proof (intro conjI allI)
  fix y p
  show "\<exists>s'. CheckAsset_perms E y p s = Some (s', length y \<ge> MIN_TOKEN_SYMBOL_LEN E \<and>
      length y \<le> MAX_TOKEN_SYMBOL_LEN E \<and> (\<exists>a. lookup (asset_t E) s y = Some a \<and> (p = 0 \<or> as_HasPerms E a p)))"
    using assms(1) by (cases "lookup (asset_t E) s y") (auto simp: CheckAsset_perms_def CheckAsset_def GetAsset_def)
  show "\<exists>s'. CheckDexBaseSymbol E y s = Some (s', \<exists>a. lookup (asset_t E) s y = Some a \<and> as_HasPerms E a (PERM_DEX_BASE E))"
    using assms(1) by (cases "lookup (asset_t E) s y") (auto simp: CheckDexBaseSymbol_def GetAsset_def)
next
  fix p m
  show "\<exists>m'. GetAssetTokensByPerm E p m s = Some (True, m') \<and>
      (\<forall>y. sm_find m' y \<noteq> None \<longleftrightarrow> sm_find m y \<noteq> None \<or>
         (\<exists>a. lookup (asset_t E) s y = Some a \<and> as_HasPerms E a p))"
    using assms(2) by (auto simp: GetAssetTokensByPerm_def perm_loop_find rows_lookup(2) [OF assms(2,3)])
qed

theorem asset_checks_witness:
  "\<exists>s s' s'' m. SetAsset sample_asset_env (''WICC'', 3) (sample_asset_db, None) = Some (s, True) \<and>
     CheckAsset_perms sample_asset_env ''WICC'' 2 s = Some (s', True) \<and>
     CheckAsset_perms sample_asset_env ''WICC'' 4 s = Some (s'', False) \<and>
     GetAssetTokensByPerm sample_asset_env 1 sm_empty s = Some (True, m) \<and> sm_find m ''WICC'' \<noteq> None"
proof -
  let ?E = sample_asset_env and ?a = "(''WICC'', 3) :: string \<times> uint64"
  let ?s = "after_set (asset_t ?E) ''WICC'' ?a (sample_asset_db, None)"
  have set: "SetAsset ?E ?a (sample_asset_db, None) = Some (?s, True)"
    by (simp add: SetAsset_def)
  have ok: "iter_ok (asset_t ?E) ?s" "clean (asset_t ?E) ?s"
    by simp_all
  have l: "lookup (asset_t ?E) ?s ''WICC'' = Some ?a"
    by simp
  note checks = asset_checks [OF sample_asset_ok ok]
  obtain s' where "CheckAsset_perms ?E ''WICC'' 2 ?s = Some (s', True)"
    using checks [THEN conjunct1, rule_format, of "''WICC''" 2] l by auto
  moreover obtain s'' where "CheckAsset_perms ?E ''WICC'' 4 ?s = Some (s'', False)"
    using checks [THEN conjunct1, rule_format, of "''WICC''" 4] l by auto
  moreover obtain m where "GetAssetTokensByPerm ?E 1 sm_empty ?s = Some (True, m)"
    "\<forall>y. sm_find m y \<noteq> None \<longleftrightarrow> sm_find (sm_empty :: (string, unit) std_map) y \<noteq> None \<or>
       (\<exists>a. lookup (asset_t ?E) ?s y = Some a \<and> as_HasPerms ?E a 1)"
    using checks [THEN conjunct2, THEN conjunct2, rule_format, of 1 sm_empty] by blast
  moreover have "as_HasPerms ?E ?a 1"
    by simp
  ultimately show ?thesis
    using set l by blast
qed

text \<open>
  The two tables of swap pairs stay in step.  From tables that agree, every
  \<open>SetAxcSwapPair\<close> leaves them in agreement: the pair of a peer symbol is found under the own
  symbol with the same value, under no other, and deleting by the empty status removes both.
\<close>

theorem swap_pairs_agree:
  assumes "asset_ok E" and "swap_inv E s"
  shows "\<exists>s1. SetAxcSwapPair E p s = Some (s1, peer_symbol p \<noteq> []) \<and> swap_inv E s1 \<and>
    (peer_symbol p \<noteq> [] \<longrightarrow>
      (\<exists>s2. GetAxcCoinPairByPeerSymbol E (peer_symbol p) s1 = Some (s2, if SwapPair_IsEmpty p then None else Some p)) \<and>
      (\<exists>s2. GetAxcCoinPairBySelfSymbol E (GetSelfSymbol p) s1 = Some (s2, if SwapPair_IsEmpty p then None else Some p)) \<and>
      (\<forall>y. y \<noteq> peer_symbol p \<longrightarrow> lookup (ps_t E) s1 y = lookup (ps_t E) s y \<and>
         lookup (sp_t E) s1 (''m'' @ y) = lookup (sp_t E) s (''m'' @ y)))"
proof -
  obtain s1 where s1: "SetAxcSwapPair E p s = Some (s1, peer_symbol p \<noteq> [])"
    "if peer_symbol p = [] then lookup (ps_t E) s1 = lookup (ps_t E) s \<and> lookup (sp_t E) s1 = lookup (sp_t E) s
     else lookup (ps_t E) s1 = (lookup (ps_t E) s)(peer_symbol p := (if SwapPair_IsEmpty p then None else Some p)) \<and>
       lookup (sp_t E) s1 = (lookup (sp_t E) s)(GetSelfSymbol p := (if SwapPair_IsEmpty p then None else Some p))"
    using SetAxcSwapPair_eq [OF assms(1), of p s] by blast
  with swap_inv_set [OF assms s1(1)] assms(1) show ?thesis
    by (auto simp: GetAxcCoinPairByPeerSymbol_def GetAxcCoinPairBySelfSymbol_def GetSelfSymbol_def)
qed

theorem swap_pairs_agree_witness:
  "\<exists>s1 s2. SetAxcSwapPair sample_asset_env \<lparr>status = 1, peer_symbol = ''BTC'', peer_chain_type = 1\<rparr> (sample_asset_db, None) =
       Some (s1, True) \<and>
     GetAxcCoinPairBySelfSymbol sample_asset_env ''mBTC'' s1 =
       Some (s2, Some \<lparr>status = 1, peer_symbol = ''BTC'', peer_chain_type = 1\<rparr>)"
proof -
  have "swap_inv sample_asset_env (sample_asset_db, None)"
    by (simp add: swap_inv_def)
  from swap_pairs_agree [OF sample_asset_ok this, of "\<lparr>status = 1, peer_symbol = ''BTC'', peer_chain_type = 1\<rparr>"]
  show ?thesis
    by (auto simp: SwapPair_IsEmpty_def GetSelfSymbol_def)
qed

end
