(* ===== verification/Block.thy ===== *)
theory Block
  imports Disk "HOL-Library.Multiset"
begin

unbundle bit_operations_syntax

text \<open>
  Blocks and block indexes of \<open>block.h\<close> and \<open>block.cpp\<close>: the header and its hash, the Merkle
  tree of the transactions with its branches, the fees, the median prices, the block index and
  its median time, and the files blocks are written to.  Hashes are of a type \<open>'h\<close>;
  transactions are objects of another module, read through the record \<open>block_env\<close>, which also
  holds the hash functions and the constants of other modules.  A pointer to a block index is
  the hash under which \<open>mapBlockIndex\<close> holds the object, and \<open>None\<close> is the null pointer.
\<close>

section \<open>Blocks\<close>

record 'h IneryBlockHeader =
  nVersion :: int
  prevBlockHash :: 'h
  merkleRootHash :: 'h
  nTime :: uint32
  nNonce :: uint32
  hd_height :: uint32
  nFuelFee :: uint64
  nFuelRate :: uint32
  vSignature :: string

record ('h, 'tx) IneryBlock = "'h IneryBlockHeader" +
  vptx :: "'tx list"
  vMerkleTree :: "'h list"

record ('h, 'tx, 'uid, 'pm, 'cord) block_env =
  CURRENT_VERSION :: int
  uint256_null :: 'h
  hash_fields :: "int \<times> 'h \<times> 'h \<times> uint32 \<times> uint32 \<times> uint32 \<times> uint64 \<times> uint32 \<Rightarrow> 'h"
  Hash_pair :: "'h \<Rightarrow> 'h \<Rightarrow> 'h"
  tx_GetHash :: "'tx \<Rightarrow> 'h"
  tx_GetFees :: "'tx \<Rightarrow> string \<times> uint64"
  tx_GetNewInstance :: "'tx \<Rightarrow> 'tx"
  IsPriceFeedTx :: "'tx \<Rightarrow> bool"
  IsPriceMedianTx :: "'tx \<Rightarrow> bool"
  IsBlockRewardTx :: "'tx \<Rightarrow> bool"
  tx_txUid :: "'tx \<Rightarrow> 'uid"
  tx_median_prices :: "'tx \<Rightarrow> 'pm"
  EMPTY_PRICE_MAP :: 'pm
  SYMB_WICC_b :: string
  SYMB_WUSD_b :: string
  GetFeatureForkVersion :: "uint32 \<Rightarrow> nat"
  MAJOR_VER_R1 :: nat
  cord_GetHeight :: "'cord \<Rightarrow> uint32"
  cord_GetIndex :: "'cord \<Rightarrow> nat"

definition BlockHeader_SetNull :: "('h, 'tx, 'uid, 'pm, 'cord) block_env \<Rightarrow> 'h IneryBlockHeader" where
  "BlockHeader_SetNull E = \<lparr>nVersion = CURRENT_VERSION E, prevBlockHash = uint256_null E,
     merkleRootHash = uint256_null E, nTime = 0, nNonce = 0, hd_height = 0, nFuelFee = 0,
     nFuelRate = 100, vSignature = []\<rparr>"

definition Block_SetNull :: "('h, 'tx, 'uid, 'pm, 'cord) block_env \<Rightarrow> ('h, 'tx) IneryBlock" where
  "Block_SetNull E = IneryBlockHeader.extend (BlockHeader_SetNull E) \<lparr>vptx = [], vMerkleTree = []\<rparr>"

definition SetHeight :: "uint32 \<Rightarrow> ('h, 'z) IneryBlockHeader_scheme \<Rightarrow> ('h, 'z) IneryBlockHeader_scheme" where
  "SetHeight h b = b\<lparr>hd_height := h\<rparr>"

definition ComputeSignatureHash ::
  "('h, 'tx, 'uid, 'pm, 'cord) block_env \<Rightarrow> ('h, 'z) IneryBlockHeader_scheme \<Rightarrow> 'h" where
  "ComputeSignatureHash E b = hash_fields E (nVersion b, prevBlockHash b, merkleRootHash b, nTime b,
     nNonce b, hd_height b, nFuelFee b, nFuelRate b)"

definition Block_GetHash ::
  "('h, 'tx, 'uid, 'pm, 'cord) block_env \<Rightarrow> ('h, 'z) IneryBlockHeader_scheme \<Rightarrow> 'h" where
  "Block_GetHash E b = ComputeSignatureHash E b"

text \<open>\<open>GetFuelFee\<close> returns a 32-bit number although the fee has 64 bits.\<close>

definition GetFuelFee :: "('h, 'z) IneryBlockHeader_scheme \<Rightarrow> uint32" where
  "GetFuelFee b = ucast (nFuelFee b)"

definition Block_GetBlockHeader ::
  "('h, 'tx) IneryBlock \<Rightarrow> 'h IneryBlockHeader \<Rightarrow> 'h IneryBlockHeader" where
  "Block_GetBlockHeader b header = header\<lparr>nVersion := nVersion b, prevBlockHash := prevBlockHash b,
     merkleRootHash := merkleRootHash b, nTime := nTime b, nNonce := nNonce b, hd_height := hd_height b,
     nFuelFee := nFuelFee b, nFuelRate := nFuelRate b, vSignature := vSignature b\<rparr>"

subsection \<open>The Merkle tree\<close>

text \<open>The inner and the outer loop of \<open>BuildMerkleTree\<close>; \<open>j\<close> is where the current row begins.\<close>

function merkle_row :: "('h \<Rightarrow> 'h \<Rightarrow> 'h) \<Rightarrow> nat \<Rightarrow> nat \<Rightarrow> nat \<Rightarrow> 'h list \<Rightarrow> 'h list" where
  "merkle_row H j n i tree =
     (if i < n
      then merkle_row H j n (i + 2) (tree @ [H (tree ! (j + i)) (tree ! (j + min (i + 1) (n - 1)))])
      else tree)"
  by pat_completeness auto
termination by (relation "measure (\<lambda>(H, j, n, i, tree). n - i)") auto

function merkle_rows :: "('h \<Rightarrow> 'h \<Rightarrow> 'h) \<Rightarrow> nat \<Rightarrow> nat \<Rightarrow> 'h list \<Rightarrow> 'h list" where
  "merkle_rows H j n tree =
     (if n > 1 then merkle_rows H (j + n) ((n + 1) div 2) (merkle_row H j n 0 tree) else tree)"
  by pat_completeness auto
termination by (relation "measure (\<lambda>(H, j, n, tree). n)") auto

declare merkle_row.simps [simp del] merkle_rows.simps [simp del]

definition BuildMerkleTree ::
  "('h, 'tx, 'uid, 'pm, 'cord) block_env \<Rightarrow> ('h, 'tx) IneryBlock \<Rightarrow> 'h \<times> ('h, 'tx) IneryBlock" where
  "BuildMerkleTree E b =
     (let tree = merkle_rows (Hash_pair E) 0 (length (vptx b)) (map (tx_GetHash E) (vptx b))
      in (if tree = [] then uint256_null E else last tree, b\<lparr>vMerkleTree := tree\<rparr>))"

text \<open>An access outside the tree is undefined behaviour, \<open>None\<close>.\<close>

function branch_loop :: "'h list \<Rightarrow> nat \<Rightarrow> nat \<Rightarrow> int \<Rightarrow> 'h list option" where
  "branch_loop tree j n index =
     (if n > 1 then
        let i = min (index XOR 1) (int n - 1) in
        if int j + i < 0 \<or> int j + i \<ge> int (length tree) then None
        else do { rest \<leftarrow> branch_loop tree (j + n) ((n + 1) div 2) (drop_bit 1 index);
                  Some (tree ! nat (int j + i) # rest) }
      else Some [])"
  by pat_completeness auto
termination by (relation "measure (\<lambda>(tree, j, n, index). n)") auto

declare branch_loop.simps [simp del]

definition GetMerkleBranch ::
  "('h, 'tx, 'uid, 'pm, 'cord) block_env \<Rightarrow> int \<Rightarrow> ('h, 'tx) IneryBlock \<Rightarrow>
     ('h list \<times> ('h, 'tx) IneryBlock) option" where
  "GetMerkleBranch E index b =
     (let b = (if vMerkleTree b = [] then snd (BuildMerkleTree E b) else b) in
      do { branch \<leftarrow> branch_loop (vMerkleTree b) 0 (length (vptx b)) index; Some (branch, b) })"

fun check_branch :: "('h \<Rightarrow> 'h \<Rightarrow> 'h) \<Rightarrow> 'h \<Rightarrow> 'h list \<Rightarrow> int \<Rightarrow> 'h" where
  "check_branch H h [] index = h"
| "check_branch H h (otherside # rest) index =
     check_branch H (if index AND 1 \<noteq> 0 then H otherside h else H h otherside) rest (drop_bit 1 index)"

definition CheckMerkleBranch ::
  "('h, 'tx, 'uid, 'pm, 'cord) block_env \<Rightarrow> 'h \<Rightarrow> 'h list \<Rightarrow> int \<Rightarrow> 'h" where
  "CheckMerkleBranch E h vMerkleBranch index =
     (if index = -1 then uint256_null E else check_branch (Hash_pair E) h vMerkleBranch index)"

fun tx_index_loop :: "'h \<Rightarrow> nat \<Rightarrow> 'h list \<Rightarrow> bool \<times> int" where
  "tx_index_loop txid i [] = (False, 0)"
| "tx_index_loop txid i (h # rest) = (if txid = h then (True, int i) else tx_index_loop txid (i + 1) rest)"

definition GetTxIndex :: "'h \<Rightarrow> ('h, 'tx) IneryBlock \<Rightarrow> bool \<times> int" where
  "GetTxIndex txid b = tx_index_loop txid 0 (vMerkleTree b)"

definition GetTxid :: "nat \<Rightarrow> ('h, 'tx) IneryBlock \<Rightarrow> 'h option" where
  "GetTxid index b =
     (if \<not> length (vMerkleTree b) > 0 \<or> \<not> index < length (vptx b) then None else Some (vMerkleTree b ! index))"

subsection \<open>Fees and prices\<close>

text \<open>The loop of \<open>GetFees\<close> assigns the fee of each transaction; the assertion fails for another symbol.\<close>

fun fees_loop ::
  "('h, 'tx, 'uid, 'pm, 'cord) block_env \<Rightarrow> 'tx list \<Rightarrow> (string, uint64) std_map \<Rightarrow> (string, uint64) std_map option" where
  "fees_loop E [] fees = Some fees"
| "fees_loop E (tx # rest) fees =
     (let fees_symbol = fst (tx_GetFees E tx) in
      if \<not> (fees_symbol = SYMB_WICC_b E \<or> fees_symbol = SYMB_WUSD_b E) then None
      else fees_loop E rest (sm_set fees_symbol (snd (tx_GetFees E tx)) fees))"

definition Block_GetFees ::
  "('h, 'tx, 'uid, 'pm, 'cord) block_env \<Rightarrow> ('h, 'tx) IneryBlock \<Rightarrow> (string, uint64) std_map option" where
  "Block_GetFees E b = fees_loop E (drop 1 (vptx b)) (sm_of [(SYMB_WICC_b E, 0), (SYMB_WUSD_b E, 0)])"

fun median_tx_loop :: "('h, 'tx, 'uid, 'pm, 'cord) block_env \<Rightarrow> 'tx list \<Rightarrow> 'pm" where
  "median_tx_loop E [] = EMPTY_PRICE_MAP E"
| "median_tx_loop E (tx # rest) =
     (if IsPriceFeedTx E tx then median_tx_loop E rest
      else if IsPriceMedianTx E tx then tx_median_prices E tx
      else EMPTY_PRICE_MAP E)"

definition GetBlockMedianPrice ::
  "('h, 'tx, 'uid, 'pm, 'cord) block_env \<Rightarrow> ('h, 'tx) IneryBlock \<Rightarrow> 'pm" where
  "GetBlockMedianPrice E b =
     (if GetFeatureForkVersion E (hd_height b) = MAJOR_VER_R1 E then EMPTY_PRICE_MAP E
      else median_tx_loop E (drop 1 (vptx b)))"

definition GetProducerUserID ::
  "('h, 'tx, 'uid, 'pm, 'cord) block_env \<Rightarrow> ('h, 'tx) IneryBlock \<Rightarrow> 'uid option" where
  "GetProducerUserID E b =
     (case vptx b of [] \<Rightarrow> None | tx # _ \<Rightarrow> if \<not> IsBlockRewardTx E tx then None else Some (tx_txUid E tx))"

text \<open>
  \<open>GetBlockBpRegid\<close> of \<open>cachewrapper.cpp\<close>: \<open>get_regid\<close> is the register identifier a user
  identifier may hold; \<open>None\<close> is the exception.
\<close>

definition GetBlockBpRegid ::
  "('h, 'tx, 'uid, 'pm, 'cord) block_env \<Rightarrow> ('uid \<Rightarrow> 'r option) \<Rightarrow> 'r \<Rightarrow> ('h, 'tx) IneryBlock \<Rightarrow> 'r option" where
  "GetBlockBpRegid E get_regid GENESIS_REGID b =
     (if hd_height b = 0 then Some GENESIS_REGID
      else case vptx b of [] \<Rightarrow> None | tx # _ \<Rightarrow> get_regid (tx_txUid E tx))"

section \<open>Block indexes\<close>

definition BLOCK_HAVE_DATA :: uint32 where "BLOCK_HAVE_DATA = 8"

definition BLOCK_HAVE_UNDO :: uint32 where "BLOCK_HAVE_UNDO = 16"

record 'h IneryBlockIndex =
  pBlockHash :: "'h option"
  pprev :: "'h option"
  pskip :: "'h option"
  bi_height :: int
  bi_nFile :: int
  nDataPos :: uint32
  nUndoPos :: uint32
  nStatus :: uint32
  nSequenceId :: uint32
  bi_nVersion :: int
  bi_nTime :: uint32
  bi_nFuelFee :: uint64
  bi_nFuelRate :: uint32

definition BlockIndex_default :: "'h IneryBlockIndex" where
  "BlockIndex_default = \<lparr>pBlockHash = None, pprev = None, pskip = None, bi_height = 0, bi_nFile = 0,
     nDataPos = 0, nUndoPos = 0, nStatus = 0, nSequenceId = 0, bi_nVersion = 0, bi_nTime = 0,
     bi_nFuelFee = 0, bi_nFuelRate = 0\<rparr>"

text \<open>The constructor from a block; the fee passes through the 32 bits of \<open>GetFuelFee\<close>.\<close>

definition BlockIndex_of_block :: "('h, 'tx) IneryBlock \<Rightarrow> 'h IneryBlockIndex" where
  "BlockIndex_of_block b = BlockIndex_default\<lparr>bi_nVersion := nVersion b, bi_nTime := nTime b,
     bi_nFuelFee := ucast (GetFuelFee b), bi_nFuelRate := nFuelRate b\<rparr>"

definition GetBlockPos :: "('h, 'z) IneryBlockIndex_scheme \<Rightarrow> IneryDiskBlockPos" where
  "GetBlockPos i =
     (if nStatus i AND BLOCK_HAVE_DATA \<noteq> 0 then \<lparr>nFile = of_int (bi_nFile i), nPos = nDataPos i\<rparr>
      else BlockPos_SetNull)"

definition GetUndoPos :: "('h, 'z) IneryBlockIndex_scheme \<Rightarrow> IneryDiskBlockPos" where
  "GetUndoPos i =
     (if nStatus i AND BLOCK_HAVE_UNDO \<noteq> 0 then \<lparr>nFile = of_int (bi_nFile i), nPos = nUndoPos i\<rparr>
      else BlockPos_SetNull)"

text \<open>\<open>mapBlockIndex\<close>, the map of another module in which the index objects live.\<close>

type_synonym 'h block_map = "('h, 'h IneryBlockIndex) std_map"

definition nMedianTimeSpan :: nat where "nMedianTimeSpan = 11"

text \<open>The loop of \<open>GetMedianTimePast\<close> fills the array from its end: \<open>ts\<close> is what is filled.\<close>

fun median_time_loop :: "'h block_map \<Rightarrow> nat \<Rightarrow> 'h option \<Rightarrow> int list \<Rightarrow> int list option" where
  "median_time_loop M 0 p ts = Some ts"
| "median_time_loop M (Suc n) None ts = Some ts"
| "median_time_loop M (Suc n) (Some p) ts =
     do { i \<leftarrow> sm_find M p; median_time_loop M n (pprev i) (uint (bi_nTime i) # ts) }"

definition GetMedianTimePast :: "'h block_map \<Rightarrow> 'h \<Rightarrow> int option" where
  "GetMedianTimePast M this =
     do { ts \<leftarrow> median_time_loop M nMedianTimeSpan (Some this) []; Some (sort ts ! (length ts div 2)) }"

text \<open>
  The order of \<open>IneryBlockIndexWorkComparator\<close>; \<open>addr_gt\<close> compares the two addresses.
\<close>

definition WorkComparator :: "bool \<Rightarrow> 'h IneryBlockIndex \<Rightarrow> 'h IneryBlockIndex \<Rightarrow> bool" where
  "WorkComparator addr_gt pa pb =
     (if bi_height pa \<noteq> bi_height pb then bi_height pa < bi_height pb
      else if nSequenceId pa \<noteq> nSequenceId pb then nSequenceId pa > nSequenceId pb
      else addr_gt)"

subsection \<open>The index on disk\<close>

record ('h, 'r) IneryDiskBlockIndex = "'h IneryBlockIndex" +
  hashPrev :: 'h
  bi_merkleRootHash :: 'h
  nBits :: uint32
  bi_nNonce :: uint32
  bp_regid :: 'r
  nTx :: uint32
  bi_vSignature :: string
  nChainTx :: uint32

definition DiskBlockIndex_make ::
  "('h, 'tx, 'uid, 'pm, 'cord) block_env \<Rightarrow> 'h IneryBlockIndex \<Rightarrow> ('h, 'tx) IneryBlock \<Rightarrow> 'r \<Rightarrow>
     ('h, 'r) IneryDiskBlockIndex" where
  "DiskBlockIndex_make E i b bpRegid = IneryBlockIndex.extend i
     \<lparr>hashPrev = (case pprev i of Some h \<Rightarrow> h | None \<Rightarrow> uint256_null E),
      bi_merkleRootHash = merkleRootHash b, nBits = 0, bi_nNonce = nNonce b, bp_regid = bpRegid,
      nTx = of_nat (length (vptx b)), bi_vSignature = [], nChainTx = 0\<rparr>"

definition DiskBlockIndex_GetBlockHash ::
  "('h, 'tx, 'uid, 'pm, 'cord) block_env \<Rightarrow> ('h, 'r) IneryDiskBlockIndex \<Rightarrow> 'h" where
  "DiskBlockIndex_GetBlockHash E i = Block_GetHash E
     (SetHeight (of_int (bi_height i)) ((BlockHeader_SetNull E)\<lparr>nVersion := bi_nVersion i, prevBlockHash := hashPrev i,
        merkleRootHash := bi_merkleRootHash i, nTime := bi_nTime i, nNonce := bi_nNonce i,
        nFuelFee := bi_nFuelFee i, nFuelRate := bi_nFuelRate i, vSignature := bi_vSignature i\<rparr>))"

text \<open>The header of an index leaves the fuel fields as they were.\<close>

definition DiskBlockIndex_GetBlockHeader ::
  "('h, 'r) IneryDiskBlockIndex \<Rightarrow> 'h IneryBlockHeader \<Rightarrow> 'h IneryBlockHeader" where
  "DiskBlockIndex_GetBlockHeader i header = SetHeight (of_int (bi_height i))
     (header\<lparr>nVersion := bi_nVersion i, prevBlockHash := hashPrev i, merkleRootHash := bi_merkleRootHash i,
        nTime := bi_nTime i, nNonce := bi_nNonce i, vSignature := bi_vSignature i\<rparr>)"

section \<open>Blocks on disk\<close>

text \<open>
  The codec is the serialisation of blocks.  \<open>ftell\<close> is stored in an \<open>int32_t\<close>: from 2 GB on it is
  negative and the write is given up after the header is written.
\<close>

record ('h, 'tx) block_codec =
  enc_block :: "('h, 'tx) IneryBlock \<Rightarrow> string"
  dec_block :: "string \<Rightarrow> (('h, 'tx) IneryBlock \<times> string) option"
  enc_size :: "uint32 \<Rightarrow> string"
  MessageStart :: string

definition WriteBlockToDisk ::
  "('h, 'tx) block_codec \<Rightarrow> ('h, 'tx) IneryBlock \<Rightarrow> IneryDiskBlockPos \<Rightarrow> file_system \<Rightarrow>
     bool \<times> IneryDiskBlockPos \<times> file_system" where
  "WriteBlockToDisk C b pos fs =
     (case OpenBlockFile pos False fs of
        None \<Rightarrow> (False, pos, fs)
      | Some (path, off, fs1) \<Rightarrow>
          let header = MessageStart C @ enc_size C (of_nat (length (enc_block C b)));
              old = (case fs_files fs1 path of Some s \<Rightarrow> s | None \<Rightarrow> []);
              fileOutPos = (of_nat (off + length header) :: uint32)
          in if sint fileOutPos < 0 then
               (False, pos, fs1\<lparr>fs_files := (fs_files fs1)(path \<mapsto> write_at off header old)\<rparr>)
             else (True, pos\<lparr>nPos := fileOutPos\<rparr>,
               fs1\<lparr>fs_files := (fs_files fs1)(path \<mapsto> write_at off (header @ enc_block C b) old)\<rparr>))"

definition ReadBlockFromDisk_pos ::
  "('h, 'tx) block_codec \<Rightarrow> IneryDiskBlockPos \<Rightarrow> file_system \<Rightarrow> ('h, 'tx) IneryBlock option" where
  "ReadBlockFromDisk_pos C pos fs =
     do { (path, off, fs1) \<leftarrow> OpenBlockFile pos True fs;
          content \<leftarrow> fs_files fs1 path;
          (b, rest) \<leftarrow> dec_block C (drop off content);
          Some b }"

definition ReadBlockFromDisk ::
  "('h, 'tx, 'uid, 'pm, 'cord) block_env \<Rightarrow> ('h, 'tx) block_codec \<Rightarrow> 'h IneryBlockIndex \<Rightarrow> file_system \<Rightarrow>
     ('h, 'tx) IneryBlock option" where
  "ReadBlockFromDisk E C i fs =
     do { b \<leftarrow> ReadBlockFromDisk_pos C (GetBlockPos i) fs;
          if Some (Block_GetHash E b) \<noteq> pBlockHash i then None else Some b }"

text \<open>\<open>chainActive\<close> is the active chain of another module.\<close>

definition ReadBaseTxFromDisk ::
  "('h, 'tx, 'uid, 'pm, 'cord) block_env \<Rightarrow> ('h, 'tx) block_codec \<Rightarrow> (uint32 \<Rightarrow> 'h IneryBlockIndex option) \<Rightarrow> 'cord \<Rightarrow>
     file_system \<Rightarrow> 'tx option" where
  "ReadBaseTxFromDisk E C chainActive txCord fs =
     (case chainActive (cord_GetHeight E txCord) of
        None \<Rightarrow> None
      | Some i \<Rightarrow>
          (case ReadBlockFromDisk E C i fs of
             None \<Rightarrow> None
           | Some b \<Rightarrow>
               if cord_GetIndex E txCord \<ge> length (vptx b) then None
               else Some (tx_GetNewInstance E (vptx b ! cord_GetIndex E txCord))))"

section \<open>The Merkle tree and its branches\<close>

text \<open>The tree as the rows it is made of.\<close>

fun pair_row :: "('h \<Rightarrow> 'h \<Rightarrow> 'h) \<Rightarrow> 'h list \<Rightarrow> 'h list" where
  "pair_row H [] = []"
| "pair_row H [x] = [H x x]"
| "pair_row H (x # y # xs) = H x y # pair_row H xs"

lemma length_pair_row [simp]: "length (pair_row H xs) = (length xs + 1) div 2"
  by (induction H xs rule: pair_row.induct) auto

function tree_rows :: "('h \<Rightarrow> 'h \<Rightarrow> 'h) \<Rightarrow> 'h list \<Rightarrow> 'h list" where
  "tree_rows H xs = (if length xs > 1 then xs @ tree_rows H (pair_row H xs) else xs)"
  by pat_completeness auto
termination by (relation "measure (\<lambda>(H, xs). length xs)") auto

declare tree_rows.simps [simp del]

text \<open>The root, by halving the row of hashes until one is left.\<close>

function merkle_root :: "('h \<Rightarrow> 'h \<Rightarrow> 'h) \<Rightarrow> 'h list \<Rightarrow> 'h" where
  "merkle_root H xs = (if length xs > 1 then merkle_root H (pair_row H xs) else hd xs)"
  by pat_completeness auto
termination by (relation "measure (\<lambda>(H, xs). length xs)") auto

declare merkle_root.simps [simp del]

lemma tree_rows_ne: "xs \<noteq> [] \<Longrightarrow> tree_rows H xs \<noteq> []"
  by (subst tree_rows.simps) auto

lemma last_tree_rows: "xs \<noteq> [] \<Longrightarrow> last (tree_rows H xs) = merkle_root H xs"
proof (induction "length xs" arbitrary: xs rule: less_induct)
  case less
  show ?case
  proof (cases "length xs > 1")
    case True
    have "length (pair_row H xs) > 0"
      using True by simp
    then have ne: "pair_row H xs \<noteq> []"
      by (simp only: length_greater_0_conv not_False_eq_True)
    have "last (tree_rows H xs) = last (tree_rows H (pair_row H xs))"
      using True by (subst tree_rows.simps) (simp add: tree_rows_ne [OF ne])
    also have "\<dots> = merkle_root H (pair_row H xs)"
      using True ne by (intro less) auto
    finally show ?thesis
      using True by (simp add: merkle_root.simps [of H xs])
  next
    case False
    then obtain x where "xs = [x]"
      using less(2) by (cases xs) auto
    then show ?thesis
      by (simp add: tree_rows.simps [of H "[x]"] merkle_root.simps [of H "[x]"])
  qed
qed

lemma merkle_row_eq:
  assumes "length P = j" and "length xs = n" and "tree = P @ xs @ new"
  shows "merkle_row H j n i tree = tree @ pair_row H (drop i xs)"
  using assms
proof (induction H j n i tree arbitrary: new rule: merkle_row.induct)
  case (1 H j n i tree)
  show ?case
  proof (cases "i < n")
    case True
    let ?h = "H (tree ! (j + i)) (tree ! (j + min (i + 1) (n - 1)))"
    have at: "tree ! (j + k) = xs ! k" if "k < n" for k
      using 1(2-4) that by (simp add: nth_append)
    have step: "merkle_row H j n i tree = merkle_row H j n (i + 2) (tree @ [?h])"
      using True by (simp add: merkle_row.simps [of H j n i])
    have rest: "merkle_row H j n (i + 2) (tree @ [?h]) = (tree @ [?h]) @ pair_row H (drop (i + 2) xs)"
      using 1(1) [OF True 1(2,3), of "new @ [?h]"] 1(4) by simp
    have "?h # pair_row H (drop (i + 2) xs) = pair_row H (drop i xs)"
    proof (cases "i + 1 < n")
      case True
      then have "drop i xs = xs ! i # xs ! (i + 1) # drop (i + 2) xs"
        using 1(3) by (metis Cons_nth_drop_Suc Suc_eq_plus1 add_2_eq_Suc' add_lessD1)
      moreover have "min (i + 1) (n - 1) = i + 1"
        using True by simp
      ultimately show ?thesis
        using True at [of i] at [of "i + 1"] by simp
    next
      case False
      with True have i: "i = n - 1" "drop i xs = [xs ! i]" "drop (i + 2) xs = []"
        using 1(3) by (auto simp: Cons_nth_drop_Suc [symmetric])
      with True at [OF True] show ?thesis by simp
    qed
    with step rest show ?thesis by simp
  qed (use 1 in \<open>simp add: merkle_row.simps [of H j n i]\<close>)
qed

lemma merkle_rows_eq:
  "length P = j \<Longrightarrow> length xs = n \<Longrightarrow> merkle_rows H j n (P @ xs) = P @ tree_rows H xs"
proof (induction n arbitrary: P j xs rule: less_induct)
  case (less n)
  show ?case
  proof (cases "n > 1")
    case True
    have row: "merkle_row H j n 0 (P @ xs) = (P @ xs) @ pair_row H xs"
      using merkle_row_eq [OF less(2,3), of "P @ xs" "[]" H 0] by simp
    have "merkle_rows H (j + n) ((n + 1) div 2) ((P @ xs) @ pair_row H xs) = (P @ xs) @ tree_rows H (pair_row H xs)"
      using True less(2,3) by (intro less(1)) auto
    with True row less(3) show ?thesis
      by (simp add: merkle_rows.simps [of H j n] tree_rows.simps [of H xs])
  qed (use less in \<open>simp add: merkle_rows.simps [of H j n] tree_rows.simps [of H xs]\<close>)
qed

lemma pair_row_nth:
  "k < length xs \<Longrightarrow> pair_row H xs ! (k div 2) =
     H (xs ! (2 * (k div 2))) (xs ! min (2 * (k div 2) + 1) (length xs - 1))"
proof (induction H xs arbitrary: k rule: pair_row.induct)
  case (3 H x y xs)
  show ?case
  proof (cases "k < 2")
    case True
    then have "k div 2 = 0" by simp
    then show ?thesis by (simp add: min_def)
  next
    case False
    then obtain m where k: "k = m + 2"
      by (metis add.commute le_Suc_ex not_less)
    with 3(2) have m: "m < length xs" by simp
    have d: "(m + 2) div 2 = Suc (m div 2)" by simp
    have "min (2 * (m div 2) + 3) (Suc (length xs)) = Suc (Suc (min (2 * (m div 2) + 1) (length xs - 1)))"
      using m by (simp add: min_def) linarith
    with 3(1) [OF m] show ?thesis
      unfolding k d by (simp add: numeral_3_eq_3 numeral_2_eq_2)
  qed
qed auto

lemma branch_loop_eq:
  "T = P @ tree_rows H xs \<Longrightarrow> k < length xs \<Longrightarrow>
     \<exists>br. branch_loop T (length P) (length xs) (int k) = Some br \<and>
       check_branch H (xs ! k) br (int k) = merkle_root H xs"
proof (induction "length xs" arbitrary: P xs k rule: less_induct)
  case less
  let ?n = "length xs"
  show ?case
  proof (cases "?n > 1")
    case False
    then have "k = 0" "?n = 1" using less(3) by auto
    then have "merkle_root H xs = xs ! 0"
      by (cases xs) (simp_all add: merkle_root.simps [of H "[_]"])
    with False \<open>k = 0\<close> show ?thesis
      by (simp add: branch_loop.simps)
  next
    case True
    define s where "s = (if even k then min (k + 1) (?n - 1) else k - 1)"
    have pred: "odd k \<Longrightarrow> int k - 1 = int (k - Suc 0)"
      by (cases k) auto
    have sib: "min (int k XOR 1) (int ?n - 1) = int s"
      using less(3) True pred by (auto simp: s_def xor_one_eq min_def)
    have s: "s < ?n"
      using less(3) True by (auto simp: s_def)
    have T: "T = (P @ xs) @ tree_rows H (pair_row H xs)"
      using less(2) True by (simp add: tree_rows.simps [of H xs])
    have at: "T ! (length P + s) = xs ! s" "length P + s < length T" "nat (int (length P) + int s) = length P + s"
      using s by (auto simp: T nth_append)
    have half: "drop_bit (Suc 0) (int k) = int (k div 2)"
      by (simp add: drop_bit_eq_div)
    have smaller: "length (pair_row H xs) < ?n"
      using True by (simp add: div_less_iff_less_mult)
    have "k div 2 < length (pair_row H xs)"
      using less(3) by simp
    then obtain br where br: "branch_loop T (length (P @ xs)) (length (pair_row H xs)) (int (k div 2)) = Some br"
      "check_branch H (pair_row H xs ! (k div 2)) br (int (k div 2)) = merkle_root H (pair_row H xs)"
      using less(1) [OF smaller T] by blast
    have "branch_loop T (length P) ?n (int k) = Some (xs ! s # br)"
      using True at br(1) by (simp add: branch_loop.simps [of T "length P" ?n] sib half)
    moreover have "(if int k AND 1 \<noteq> 0 then H (xs ! s) (xs ! k) else H (xs ! k) (xs ! s)) = pair_row H xs ! (k div 2)"
    proof (cases "even k")
      case True
      then have "2 * (k div 2) = k" by simp
      with True show ?thesis
        using pair_row_nth [OF less(3), of H] by (simp add: s_def and_one_eq)
    next
      case False
      then have k: "2 * (k div 2) = k - 1" "k - 1 + 1 = k" "min k (?n - 1) = k"
        using less(3) by (auto simp: odd_pos)
      have "odd (int k)"
        using False by simp
      then have "int k AND 1 = 1"
        by (simp only: and_one_eq odd_iff_mod_2_eq_one)
      with False show ?thesis
        using pair_row_nth [OF less(3), of H] unfolding k by (simp add: s_def)
    qed
    ultimately show ?thesis
      using True br(2) by (simp add: half merkle_root.simps [of H xs])
  qed
qed

definition tx_hashes :: "('h, 'tx, 'uid, 'pm, 'cord) block_env \<Rightarrow> ('h, 'tx) IneryBlock \<Rightarrow> 'h list" where
  "tx_hashes E b = map (tx_GetHash E) (vptx b)"

lemma BuildMerkleTree_eq:
  "BuildMerkleTree E b =
     (if vptx b = [] then uint256_null E else merkle_root (Hash_pair E) (tx_hashes E b),
      b\<lparr>vMerkleTree := tree_rows (Hash_pair E) (tx_hashes E b)\<rparr>)"
proof -
  have rows: "merkle_rows (Hash_pair E) 0 (length (vptx b)) (tx_hashes E b) = tree_rows (Hash_pair E) (tx_hashes E b)"
    using merkle_rows_eq [of "[]" 0 "tx_hashes E b" "length (vptx b)" "Hash_pair E"] by (simp add: tx_hashes_def)
  show ?thesis
  proof (cases "vptx b = []")
    case True
    then show ?thesis
      using rows by (simp add: BuildMerkleTree_def tx_hashes_def tree_rows.simps [of _ "[]"])
  next
    case False
    then have "tx_hashes E b \<noteq> []" by (simp add: tx_hashes_def)
    with False show ?thesis
      using rows by (simp add: BuildMerkleTree_def tx_hashes_def tree_rows_ne last_tree_rows)
  qed
qed

text \<open>
  Claim C28: a Merkle branch proves its transaction.  For every transaction of a block the
  branch \<open>GetMerkleBranch\<close> returns (it stays within the tree, whether that was built before
  or not) takes \<open>CheckMerkleBranch\<close> from the transaction's hash to the root that
  \<open>BuildMerkleTree\<close> returns; the root is the pairwise halving of the hashes, an odd row
  repeating its last one.
\<close>

theorem merkle_branch_root:
  assumes "k < length (vptx b)" and "vMerkleTree b = [] \<or> b = snd (BuildMerkleTree E b0)"
  shows "\<exists>br b'. GetMerkleBranch E (int k) b = Some (br, b') \<and>
    CheckMerkleBranch E (tx_GetHash E (vptx b ! k)) br (int k) = fst (BuildMerkleTree E b) \<and>
    fst (BuildMerkleTree E b) = merkle_root (Hash_pair E) (map (tx_GetHash E) (vptx b)) \<and>
    vMerkleTree b' = vMerkleTree (snd (BuildMerkleTree E b))"
proof -
  let ?xs = "tx_hashes E b"
  have len: "length ?xs = length (vptx b)" "?xs ! k = tx_GetHash E (vptx b ! k)" "vptx b \<noteq> []"
    using assms(1) by (auto simp: tx_hashes_def)
  obtain br where br: "branch_loop (tree_rows (Hash_pair E) ?xs) 0 (length ?xs) (int k) = Some br"
    "check_branch (Hash_pair E) (?xs ! k) br (int k) = merkle_root (Hash_pair E) ?xs"
    using branch_loop_eq [of "tree_rows (Hash_pair E) ?xs" "[]" "Hash_pair E" ?xs k] assms(1) len(1) by auto
  have root: "fst (BuildMerkleTree E b) = merkle_root (Hash_pair E) ?xs"
    using len(3) by (simp add: BuildMerkleTree_eq)
  let ?b = "if vMerkleTree b = [] then snd (BuildMerkleTree E b) else b"
  have tree: "vMerkleTree ?b = tree_rows (Hash_pair E) ?xs" "vptx ?b = vptx b"
    using assms(2) by (auto simp: BuildMerkleTree_eq tx_hashes_def)
  have "GetMerkleBranch E (int k) b = Some (br, ?b)"
    using br(1) unfolding GetMerkleBranch_def Let_def tree len(1) by simp
  moreover have "CheckMerkleBranch E (tx_GetHash E (vptx b ! k)) br (int k) = merkle_root (Hash_pair E) ?xs"
    using br(2) len(2) by (simp add: CheckMerkleBranch_def)
  ultimately show ?thesis
    using root tree(1) by (intro exI [of _ br] exI [of _ ?b]) (simp add: BuildMerkleTree_eq tx_hashes_def)
qed

text \<open>A block of three transactions, whose hashes are numbers and pair by an injective function.\<close>

definition sample_block_env :: "(nat, nat, nat, nat, nat) block_env" where
  "sample_block_env = \<lparr>CURRENT_VERSION = 1, uint256_null = 0,
     hash_fields = (\<lambda>(v, p, m, t, n, h, f, r). 1 + p + m + unat h), Hash_pair = (\<lambda>a b. 2 ^ a * (2 * b + 1)),
     tx_GetHash = (\<lambda>t. t), tx_GetFees = (\<lambda>t. (''WICC'', of_nat t)), tx_GetNewInstance = (\<lambda>t. t),
     IsPriceFeedTx = (\<lambda>_. False), IsPriceMedianTx = (\<lambda>_. False), IsBlockRewardTx = (\<lambda>t. t = 1),
     tx_txUid = (\<lambda>t. t), tx_median_prices = (\<lambda>t. t), EMPTY_PRICE_MAP = 0, SYMB_WICC_b = ''WICC'',
     SYMB_WUSD_b = ''WUSD'', GetFeatureForkVersion = (\<lambda>_. 3), MAJOR_VER_R1 = 1,
     cord_GetHeight = (\<lambda>_. 0), cord_GetIndex = (\<lambda>_. 0)\<rparr>"

definition sample_block :: "(nat, nat) IneryBlock" where
  "sample_block = \<lparr>nVersion = 1, prevBlockHash = 9, merkleRootHash = 4, nTime = 10, nNonce = 0,
     hd_height = 5, nFuelFee = 0, nFuelRate = 100, vSignature = [], vptx = [1, 2, 3], vMerkleTree = []\<rparr>"

theorem merkle_branch_root_witness:
  "\<exists>br b'. GetMerkleBranch sample_block_env 2 sample_block = Some (br, b') \<and>
     CheckMerkleBranch sample_block_env 3 br 2 = fst (BuildMerkleTree sample_block_env sample_block)"
proof -
  have "2 < length (vptx sample_block)" "vMerkleTree sample_block = []" "vptx sample_block ! 2 = 3"
    "tx_GetHash sample_block_env 3 = 3"
    by (simp_all add: sample_block_def sample_block_env_def)
  with merkle_branch_root [of 2 sample_block sample_block_env] show ?thesis
    by auto
qed

section \<open>The median of a list\<close>

lemma length_filter_sort: "length (filter P (sort xs)) = length (filter P xs)"
  by (metis mset_filter mset_sort size_mset)

lemma sorted_below:
  fixes ys :: "'a::linorder list"
  assumes "sorted ys" and "i < length ys"
  shows "length (filter (\<lambda>y. y < ys ! i) ys) \<le> i" "length (filter (\<lambda>y. ys ! i < y) ys) \<le> length ys - 1 - i"
proof -
  have split: "ys = take i ys @ drop i ys" "ys = take (i + 1) ys @ drop (i + 1) ys"
    by simp_all
  have "\<forall>y \<in> set (drop i ys). ys ! i \<le> y" "\<forall>y \<in> set (take (i + 1) ys). y \<le> ys ! i"
    using assms by (auto simp: in_set_conv_nth sorted_nth_mono)
  then have none: "filter (\<lambda>y. y < ys ! i) (drop i ys) = []" "filter (\<lambda>y. ys ! i < y) (take (i + 1) ys) = []"
    by (auto simp: filter_empty_conv not_less)
  have "length (filter (\<lambda>y. y < ys ! i) ys) = length (filter (\<lambda>y. y < ys ! i) (take i ys))"
    by (subst (2) split(1)) (simp only: filter_append none append_Nil2)
  also have "\<dots> \<le> i"
    using length_filter_le [of "\<lambda>y. y < ys ! i" "take i ys"] by simp
  finally show "length (filter (\<lambda>y. y < ys ! i) ys) \<le> i" .
  have "length (filter (\<lambda>y. ys ! i < y) ys) = length (filter (\<lambda>y. ys ! i < y) (drop (i + 1) ys))"
    by (subst (2) split(2)) (simp only: filter_append none append_Nil)
  also have "\<dots> \<le> length ys - 1 - i"
    using length_filter_le [of "\<lambda>y. ys ! i < y" "drop (i + 1) ys"] by simp
  finally show "length (filter (\<lambda>y. ys ! i < y) ys) \<le> length ys - 1 - i" .
qed

lemma sort_nth_counts:
  fixes xs :: "'a::linorder list"
  assumes "i < length xs"
  shows "sort xs ! i \<in> set xs" "length (filter (\<lambda>x. x < sort xs ! i) xs) \<le> i"
    "length (filter (\<lambda>x. sort xs ! i < x) xs) \<le> length xs - 1 - i"
  using assms sorted_below [of "sort xs" i] nth_mem [of i "sort xs"]
  by (simp_all add: length_filter_sort)

text \<open>\<open>chain_times n p\<close>: the times of at most \<open>n\<close> indexes from \<open>p\<close> on, following \<open>pprev\<close>.\<close>

fun chain_times :: "'h block_map \<Rightarrow> nat \<Rightarrow> 'h option \<Rightarrow> int list option" where
  "chain_times M 0 p = Some []"
| "chain_times M (Suc n) None = Some []"
| "chain_times M (Suc n) (Some p) =
     do { i \<leftarrow> sm_find M p; rest \<leftarrow> chain_times M n (pprev i); Some (uint (bi_nTime i) # rest) }"

lemma chain_times_None [simp]: "chain_times M n None = Some []"
  by (cases n) auto

lemma median_time_loop_eq:
  "median_time_loop M n p acc = map_option (\<lambda>ts. rev ts @ acc) (chain_times M n p)"
proof (induction M n p arbitrary: acc rule: chain_times.induct)
  case (3 M n p)
  then show ?case
    by (cases "sm_find M p"; cases "chain_times M n (pprev (the (sm_find M p)))") auto
qed auto

text \<open>
  \<open>GetMedianTimePast\<close> of an index whose ancestors are in memory returns a time of
  one of the last eleven blocks (fewer near the genesis block) such that at most half of them
  are earlier and fewer than half are later.
\<close>

theorem median_time_past:
  assumes "chain_times M nMedianTimeSpan (Some this) = Some ts"
  shows "\<exists>t. GetMedianTimePast M this = Some t \<and> t \<in> set ts \<and> length ts \<le> 11 \<and>
    2 * length (filter (\<lambda>x. x < t) ts) \<le> length ts \<and> 2 * length (filter (\<lambda>x. t < x) ts) < length ts"
proof -
  have len: "chain_times M n p = Some ts \<Longrightarrow> length ts \<le> n" for n p ts
  proof (induction M n p arbitrary: ts rule: chain_times.induct)
    case (3 M n p)
    then show ?case
      by (cases "sm_find M p"; cases "chain_times M n (pprev (the (sm_find M p)))") auto
  qed auto
  have "ts \<noteq> []"
    using assms by (auto simp: nMedianTimeSpan_def numeral_eq_Suc split: bind_splits)
  then have i: "length ts div 2 < length ts"
    by simp
  have "sort (rev ts) = sort ts"
    by (rule properties_for_sort) simp_all
  then have "GetMedianTimePast M this = Some (sort ts ! (length ts div 2))"
    using assms by (simp add: GetMedianTimePast_def median_time_loop_eq)
  moreover have "length ts \<le> 11"
    using len [OF assms] by (simp add: nMedianTimeSpan_def)
  ultimately show ?thesis
    using sort_nth_counts [OF i] i by (intro exI [of _ "sort ts ! (length ts div 2)"]) auto
qed

text \<open>Three blocks with times out of order.\<close>

definition sample_chain :: "nat block_map" where
  "sample_chain = sm_of [(1, BlockIndex_default\<lparr>bi_nTime := 10\<rparr>),
     (2, BlockIndex_default\<lparr>bi_nTime := 30, pprev := Some 1, bi_height := 1\<rparr>),
     (3, BlockIndex_default\<lparr>bi_nTime := 20, pprev := Some 2, bi_height := 2\<rparr>)]"

theorem median_time_past_witness:
  "\<exists>t. GetMedianTimePast sample_chain 3 = Some t \<and> t \<in> {10, 20, 30} \<and>
     2 * length (filter (\<lambda>x. t < x) [20, 30, 10]) < 3"
proof -
  have "chain_times sample_chain (Suc (Suc (Suc n))) (Some 3) = Some [20, 30, 10]" for n
    by (simp add: sample_chain_def BlockIndex_default_def)
  from this [of 8] have "chain_times sample_chain nMedianTimeSpan (Some 3) = Some [20, 30, 10]"
    by (simp add: nMedianTimeSpan_def)
  from median_time_past [OF this] show ?thesis
    by (auto simp del: filter.simps)
qed

section \<open>The fees of a block\<close>

lemma fees_loop_last:
  "fees_loop E txs m = Some fees \<Longrightarrow>
     sm_find fees y = (case filter (\<lambda>t. fst (tx_GetFees E t) = y) txs of
        [] \<Rightarrow> sm_find m y | t # ts \<Rightarrow> Some (snd (tx_GetFees E (last (t # ts)))))"
  by (induction E txs m rule: fees_loop.induct) (auto simp: Let_def split: if_splits list.splits)

text \<open>
  What \<open>GetFees\<close> returns for a symbol is the fee of the last transaction that pays in it, zero
  when there is none: the fees are not added up.  It fails its assertion exactly when a
  transaction after the first pays in another symbol.
\<close>

theorem block_fees_last:
  assumes "SYMB_WICC_b E \<noteq> SYMB_WUSD_b E" and "y \<in> {SYMB_WICC_b E, SYMB_WUSD_b E}"
  shows "(Block_GetFees E b = None \<longleftrightarrow>
      (\<exists>t \<in> set (drop 1 (vptx b)). fst (tx_GetFees E t) \<notin> {SYMB_WICC_b E, SYMB_WUSD_b E})) \<and>
    (\<forall>fees. Block_GetFees E b = Some fees \<longrightarrow> sm_find fees y =
       (case filter (\<lambda>t. fst (tx_GetFees E t) = y) (drop 1 (vptx b)) of
          [] \<Rightarrow> Some 0 | t # ts \<Rightarrow> Some (snd (tx_GetFees E (last (t # ts))))))"
proof -
  have none: "fees_loop E txs m = None \<longleftrightarrow>
      (\<exists>t \<in> set txs. fst (tx_GetFees E t) \<notin> {SYMB_WICC_b E, SYMB_WUSD_b E})" for txs m
    by (induction E txs m rule: fees_loop.induct) (auto simp: Let_def)
  have "sm_find (sm_of [(SYMB_WICC_b E, 0), (SYMB_WUSD_b E, 0)]) y = Some (0 :: uint64)"
    using assms by auto
  then show ?thesis
    unfolding Block_GetFees_def none by (auto dest!: fees_loop_last [where y = y] split: list.splits)
qed

theorem block_fees_last_witness:
  "\<exists>fees. Block_GetFees sample_block_env sample_block = Some fees \<and> sm_find fees ''WICC'' = Some 3"
proof -
  have "SYMB_WICC_b sample_block_env \<noteq> SYMB_WUSD_b sample_block_env"
    "''WICC'' \<in> {SYMB_WICC_b sample_block_env, SYMB_WUSD_b sample_block_env}"
    by (simp_all add: sample_block_env_def)
  from block_fees_last [OF this, of sample_block] show ?thesis
    by (cases "Block_GetFees sample_block_env sample_block") (auto simp: sample_block_env_def sample_block_def)
qed

section \<open>Blocks are read back\<close>

text \<open>The codec on one block: what was written decodes to it, whatever follows in the file.\<close>

definition block_codec_ok :: "('h, 'tx) block_codec \<Rightarrow> ('h, 'tx) IneryBlock \<Rightarrow> bool" where
  "block_codec_ok C b \<longleftrightarrow> (\<forall>s. dec_block C (enc_block C b @ s) = Some (b\<lparr>vMerkleTree := []\<rparr>, s))"

lemma of_nat_nat_small: "n < 2 ^ 32 \<Longrightarrow> unat (of_nat n :: uint32) = n"
  by (simp add: unat_of_nat take_bit_nat_eq_self)

lemma ftell_negative:
  assumes "n < 2 ^ 32"
  shows "sint (of_nat n :: uint32) < 0 \<longleftrightarrow> 2 ^ 31 \<le> n"
proof -
  have u: "unat (of_nat n :: uint32) = n"
    using assms by (simp add: unat_of_nat take_bit_nat_eq_self)
  have "sint (of_nat n :: uint32) < 0 \<longleftrightarrow> bit (of_nat n :: uint32) 31"
    using bit_last_iff [of "of_nat n :: uint32"] by simp
  also have "\<dots> \<longleftrightarrow> bit (unat (of_nat n :: uint32)) 31"
    by (simp add: bit_unsigned_iff)
  also have "\<dots> \<longleftrightarrow> odd (n div 2147483648)"
    unfolding u by (simp add: bit_iff_odd)
  also have "\<dots> \<longleftrightarrow> n div 2147483648 \<noteq> 0"
  proof -
    have "n div 2147483648 < 2"
      using assms by (simp add: div_less_iff_less_mult)
    then have "n div 2147483648 = 0 \<or> n div 2147483648 = 1"
      by linarith
    then show ?thesis by (metis odd_one even_zero zero_neq_one)
  qed
  also have "\<dots> \<longleftrightarrow> 2 ^ 31 \<le> n"
    by (simp add: div_eq_0_iff not_less)
  finally show ?thesis .
qed
text \<open>
  A block written to a file that can be opened is read back from the position the
  write returned, without its memory-only Merkle tree, and only under an index that holds the
  block's hash; an index without \<open>BLOCK_HAVE_DATA\<close> reads nothing.  From an offset of 2 GB on
  the write fails and leaves its position alone.
\<close>

theorem block_file_roundtrip:
  assumes "block_codec_ok C b" and "\<not> BlockPos_IsNull pos" and "\<not> fs_denied fs (file_name pos ''blk'')"
    and "off = unat (nPos pos) + length (MessageStart C) + length (enc_size C (of_nat (length (enc_block C b))))"
    and "off < 2 ^ 32" and "of_int (bi_nFile i) = nFile pos" and "of_nat off = nDataPos i"
  shows "\<exists>ok pos' fs'. WriteBlockToDisk C b pos fs = (ok, pos', fs') \<and>
    (if off < 2 ^ 31 then ok \<and> nFile pos' = nFile pos \<and> nPos pos' = of_nat off \<and>
       ReadBlockFromDisk E C i fs' =
         (if nStatus i AND BLOCK_HAVE_DATA \<noteq> 0 \<and> pBlockHash i = Some (Block_GetHash E b)
          then Some (b\<lparr>vMerkleTree := []\<rparr>) else None)
     else \<not> ok \<and> pos' = pos)"
proof -
  let ?path = "file_name pos ''blk''" and ?body = "enc_block C b"
  let ?header = "MessageStart C @ enc_size C (of_nat (length ?body))"
  let ?old = "case fs_files fs ?path of Some s \<Rightarrow> s | None \<Rightarrow> []"
  let ?new = "write_at (unat (nPos pos)) (?header @ ?body) ?old"
  obtain fs1 where fs1: "OpenBlockFile pos False fs = Some (?path, unat (nPos pos), fs1)"
    "fs_denied fs1 = fs_denied fs" "fs_files fs1 ?path = Some ?old"
    using assms(2,3) that
    by (cases "fs_files fs ?path") (auto simp: OpenBlockFile_def OpenDiskFile_def Let_def)
  define w where "w = (of_nat off :: uint32)"
  have off: "off = unat (nPos pos) + length ?header"
    using assms(4) by simp
  have w: "unat w = off" "of_nat (unat (nPos pos) + length ?header) = w"
    unfolding w_def off [symmetric] by (simp_all add: of_nat_nat_small [OF assms(5)])
  have neg: "sint w < 0 \<longleftrightarrow> \<not> off < 2 ^ 31"
    unfolding w_def not_less by (rule ftell_negative [OF assms(5)])
  have written: "WriteBlockToDisk C b pos fs =
      (if sint w < 0 then (False, pos, fs1\<lparr>fs_files := (fs_files fs1)(?path \<mapsto> write_at (unat (nPos pos)) ?header ?old)\<rparr>)
       else (True, pos\<lparr>nPos := w\<rparr>, fs1\<lparr>fs_files := (fs_files fs1)(?path \<mapsto> ?new)\<rparr>))"
    unfolding WriteBlockToDisk_def fs1(1) option.case prod.case Let_def w(2) fs1(3) by simp
  show ?thesis
  proof (cases "off < 2 ^ 31")
    case False
    with neg written show ?thesis by auto
  next
    case True
    let ?fs' = "fs1\<lparr>fs_files := (fs_files fs1)(?path \<mapsto> ?new)\<rparr>"
    have read: "ReadBlockFromDisk E C i ?fs' =
        (if nStatus i AND BLOCK_HAVE_DATA \<noteq> 0 \<and> pBlockHash i = Some (Block_GetHash E b)
         then Some (b\<lparr>vMerkleTree := []\<rparr>) else None)"
    proof (cases "nStatus i AND BLOCK_HAVE_DATA = 0")
      case True
      then show ?thesis
        by (simp add: ReadBlockFromDisk_def ReadBlockFromDisk_pos_def GetBlockPos_def OpenBlockFile_def
            OpenDiskFile_def BlockPos_IsNull_def BlockPos_SetNull_def)
    next
      case False
      then have p: "GetBlockPos i = pos\<lparr>nPos := w\<rparr>"
        using assms(6,7) by (simp add: GetBlockPos_def w_def)
      have open': "OpenBlockFile (pos\<lparr>nPos := w\<rparr>) True ?fs' = Some (?path, off, ?fs')"
        using assms(2,3) fs1(2) w(1) by (simp add: OpenBlockFile_def OpenDiskFile_def BlockPos_IsNull_def file_name_def Let_def)
      obtain rest where new: "drop (unat (nPos pos)) ?new = (?header @ ?body) @ rest"
        using write_at_drop by blast
      have "drop off ?new = drop (length ?header) (drop (unat (nPos pos)) ?new)"
        unfolding off drop_drop by (simp only: add.commute)
      also have "\<dots> = ?body @ rest"
        unfolding new by simp
      finally have "drop off ?new = ?body @ rest" .
      then have "ReadBlockFromDisk_pos C (GetBlockPos i) ?fs' = Some (b\<lparr>vMerkleTree := []\<rparr>)"
        unfolding ReadBlockFromDisk_pos_def p open' using assms(1) by (simp add: block_codec_ok_def)
      moreover have "Block_GetHash E (b\<lparr>vMerkleTree := []\<rparr>) = Block_GetHash E b"
        by (simp add: Block_GetHash_def ComputeSignatureHash_def)
      ultimately show ?thesis
        using False by (auto simp: ReadBlockFromDisk_def)
    qed
    have fin: "WriteBlockToDisk C b pos fs = (True, pos\<lparr>nPos := w\<rparr>, ?fs')"
      using True neg unfolding written by simp
    show ?thesis
      unfolding if_P [OF True] w_def [symmetric]
    proof (intro exI conjI)
      show "WriteBlockToDisk C b pos fs = (True, pos\<lparr>nPos := w\<rparr>, ?fs')"
        by (rule fin)
      show "ReadBlockFromDisk E C i ?fs' =
          (if nStatus i AND BLOCK_HAVE_DATA \<noteq> 0 \<and> pBlockHash i = Some (Block_GetHash E b)
           then Some (b\<lparr>vMerkleTree := []\<rparr>) else None)"
        by (rule read)
    qed simp_all
  qed
qed

text \<open>A codec for the block of three transactions, and an index that points at it.\<close>

definition sample_block_codec :: "(nat, nat) block_codec" where
  "sample_block_codec = \<lparr>enc_block = (\<lambda>b. ''block''),
     dec_block = (\<lambda>s. if take 5 s = ''block'' then Some (sample_block, drop 5 s) else None),
     enc_size = (\<lambda>_. ''size''), MessageStart = ''magi''\<rparr>"

definition sample_block_index :: "nat IneryBlockIndex" where
  "sample_block_index = BlockIndex_default\<lparr>pBlockHash := Some (Block_GetHash sample_block_env sample_block),
     bi_nFile := 3, nDataPos := 16, nStatus := BLOCK_HAVE_DATA\<rparr>"

theorem block_file_roundtrip_witness:
  "\<exists>pos' fs'. WriteBlockToDisk sample_block_codec sample_block \<lparr>nFile = 3, nPos = 8\<rparr>
       \<lparr>fs_files = (\<lambda>_. None), fs_denied = (\<lambda>_. False)\<rparr> = (True, pos', fs') \<and>
     ReadBlockFromDisk sample_block_env sample_block_codec sample_block_index fs' = Some sample_block"
proof -
  have ok: "block_codec_ok sample_block_codec sample_block"
    by (simp add: block_codec_ok_def sample_block_codec_def sample_block_def)
  have len: "length (MessageStart sample_block_codec) = 4"
    "length (enc_size sample_block_codec (of_nat (length (enc_block sample_block_codec sample_block)))) = 4"
    by (simp_all add: sample_block_codec_def)
  have i: "of_int (bi_nFile sample_block_index) = (3 :: uint32)" "nDataPos sample_block_index = 16"
    "nStatus sample_block_index AND BLOCK_HAVE_DATA \<noteq> 0"
    "pBlockHash sample_block_index = Some (Block_GetHash sample_block_env sample_block)"
    by (simp_all add: sample_block_index_def BLOCK_HAVE_DATA_def)
  have tree: "sample_block\<lparr>vMerkleTree := []\<rparr> = sample_block"
    by (simp add: sample_block_def)
  have "\<not> BlockPos_IsNull \<lparr>nFile = 3, nPos = 8\<rparr>"
    by (simp add: BlockPos_IsNull_def)
  from block_file_roundtrip [OF ok this, of "\<lparr>fs_files = (\<lambda>_. None), fs_denied = (\<lambda>_. False)\<rparr>"
      16 sample_block_index sample_block_env]
  obtain okay pos' fs' where w: "WriteBlockToDisk sample_block_codec sample_block \<lparr>nFile = 3, nPos = 8\<rparr>
       \<lparr>fs_files = (\<lambda>_. None), fs_denied = (\<lambda>_. False)\<rparr> = (okay, pos', fs')" and okay
    and r: "ReadBlockFromDisk sample_block_env sample_block_codec sample_block_index fs' = Some sample_block"
    unfolding len i(1,2,4) tree using i(3) by auto
  then show ?thesis
    by (intro exI [of _ pos'] exI [of _ fs']) simp
qed

section \<open>The hash of an index\<close>

text \<open>
  The index written to disk for a block hashes to the hash of the block, when the
  index has the block's height and its predecessor is the block's, and the fuel fee fits the
  32 bits that \<open>GetFuelFee\<close> returns.  With a larger fee the two hashes differ, unless the hash
  function collides: the index loses the upper half of the fee.
\<close>

theorem disk_index_hash:
  assumes "i = (BlockIndex_of_block b)\<lparr>bi_height := uint (hd_height b), pprev := p\<rparr>"
    and "(case p of Some h \<Rightarrow> h | None \<Rightarrow> uint256_null E) = prevBlockHash b"
  shows "(unat (nFuelFee b) < 2 ^ 32 \<longrightarrow>
      DiskBlockIndex_GetBlockHash E (DiskBlockIndex_make E i b r) = Block_GetHash E b) \<and>
    (inj (hash_fields E) \<and> \<not> unat (nFuelFee b) < 2 ^ 32 \<longrightarrow>
      DiskBlockIndex_GetBlockHash E (DiskBlockIndex_make E i b r) \<noteq> Block_GetHash E b)"
proof -
  have trunc: "ucast (ucast f :: uint32) = f \<longleftrightarrow> unat f < 2 ^ 32" for f :: uint64
  proof -
    have "unat (ucast (ucast f :: uint32) :: uint64) = unat f mod 2 ^ 32"
      by (simp add: unsigned_ucast_eq take_bit_eq_mod unat_mod)
    then show ?thesis
      by (metis mod_less mod_less_divisor word_unat_eq_iff zero_less_numeral zero_less_power)
  qed
  have h: "DiskBlockIndex_GetBlockHash E (DiskBlockIndex_make E i b r) = hash_fields E
     (nVersion b, prevBlockHash b, merkleRootHash b, nTime b, nNonce b, hd_height b,
      ucast (ucast (nFuelFee b) :: uint32), nFuelRate b)"
    using assms by (simp add: DiskBlockIndex_GetBlockHash_def DiskBlockIndex_make_def BlockIndex_of_block_def
        BlockIndex_default_def Block_GetHash_def ComputeSignatureHash_def SetHeight_def BlockHeader_SetNull_def
        GetFuelFee_def IneryBlockIndex.defs)
  have b: "Block_GetHash E b = hash_fields E (nVersion b, prevBlockHash b, merkleRootHash b, nTime b,
      nNonce b, hd_height b, nFuelFee b, nFuelRate b)"
    by (simp add: Block_GetHash_def ComputeSignatureHash_def)
  show ?thesis
    unfolding h b trunc [of "nFuelFee b", symmetric]
  proof (intro conjI impI)
    assume "ucast (ucast (nFuelFee b) :: uint32) = nFuelFee b"
    then show "hash_fields E (nVersion b, prevBlockHash b, merkleRootHash b, nTime b, nNonce b, hd_height b,
        ucast (ucast (nFuelFee b) :: uint32), nFuelRate b) = hash_fields E (nVersion b, prevBlockHash b,
        merkleRootHash b, nTime b, nNonce b, hd_height b, nFuelFee b, nFuelRate b)"
      by simp
  next
    assume "inj (hash_fields E) \<and> ucast (ucast (nFuelFee b) :: uint32) \<noteq> nFuelFee b"
    then show "hash_fields E (nVersion b, prevBlockHash b, merkleRootHash b, nTime b, nNonce b, hd_height b,
        ucast (ucast (nFuelFee b) :: uint32), nFuelRate b) \<noteq> hash_fields E (nVersion b, prevBlockHash b,
        merkleRootHash b, nTime b, nNonce b, hd_height b, nFuelFee b, nFuelRate b)"
      by (simp add: inj_eq)
  qed
qed

theorem disk_index_hash_witness:
  "DiskBlockIndex_GetBlockHash sample_block_env (DiskBlockIndex_make sample_block_env
     ((BlockIndex_of_block sample_block)\<lparr>bi_height := 5, pprev := Some 9\<rparr>) sample_block ()) =
   Block_GetHash sample_block_env sample_block"
proof -
  have "uint (hd_height sample_block) = 5" "prevBlockHash sample_block = 9" "unat (nFuelFee sample_block) < 2 ^ 32"
    by (simp_all add: sample_block_def)
  then show ?thesis
    using disk_index_hash [of "(BlockIndex_of_block sample_block)\<lparr>bi_height := 5, pprev := Some 9\<rparr>"
        "Some 9" sample_block sample_block_env "()"] by simp
qed

end
