(* ===== verification/Tx_Mem.thy ===== *)
theory Tx_Mem
  imports Block Interfaces
begin

text \<open>
  \<open>IneryTxMemCache\<close> of \<open>txdb.h\<close> and \<open>txdb.cpp\<close>: which transactions are in the recent blocks, in
  layers that are flushed into their base.  \<open>False\<close> marks a removal that the base does not know
  of yet; the lowest layer holds no such marks.  The hash table is a map.
\<close>

section \<open>State and operations\<close>

type_synonym 'h TxIdMap = "('h, bool) std_map"

datatype 'h tx_mem_cache =
  TxRoot (txids: "'h TxIdMap")
| TxSub (txids: "'h TxIdMap") (tx_pBase: "'h tx_mem_cache")

fun with_txids :: "'h TxIdMap \<Rightarrow> 'h tx_mem_cache \<Rightarrow> 'h tx_mem_cache" where
  "with_txids m (TxRoot _) = TxRoot m"
| "with_txids m (TxSub _ b) = TxSub m b"

fun HasTx :: "'h \<Rightarrow> 'h tx_mem_cache \<Rightarrow> bool" where
  "HasTx txid (TxRoot m) = (case sm_find m txid of Some e \<Rightarrow> e | None \<Rightarrow> False)"
| "HasTx txid (TxSub m b) = (case sm_find m txid of Some e \<Rightarrow> e | None \<Rightarrow> HasTx txid b)"

definition AddBlockTx ::
  "('h, 'tx, 'uid, 'pm, 'cord) block_env \<Rightarrow> ('h, 'tx) IneryBlock \<Rightarrow> 'h tx_mem_cache \<Rightarrow> bool \<times> 'h tx_mem_cache" where
  "AddBlockTx E block c =
     (True, with_txids (fold (\<lambda>ptx. sm_set (tx_GetHash E ptx) True) (vptx block) (txids c)) c)"

definition RemoveBlockTx ::
  "('h, 'tx, 'uid, 'pm, 'cord) block_env \<Rightarrow> ('h, 'tx) IneryBlock \<Rightarrow> 'h tx_mem_cache \<Rightarrow> bool \<times> 'h tx_mem_cache" where
  "RemoveBlockTx E block c =
     (case c of
        TxRoot m \<Rightarrow> (True, TxRoot (fold (\<lambda>ptx. sm_erase (tx_GetHash E ptx)) (vptx block) m))
      | TxSub m b \<Rightarrow> (True, TxSub (fold (\<lambda>ptx. sm_set (tx_GetHash E ptx) False) (vptx block) m) b))"

definition tx_BatchWrite :: "('h \<times> bool) list \<Rightarrow> 'h tx_mem_cache \<Rightarrow> 'h tx_mem_cache" where
  "tx_BatchWrite txidsIn c =
     (case c of
        TxRoot m \<Rightarrow> TxRoot (fold (\<lambda>(h, e) m. if \<not> e then sm_erase h m else sm_set h e m) txidsIn m)
      | TxSub m b \<Rightarrow> TxSub (fold (\<lambda>(h, e) m. sm_set h e m) txidsIn m) b)"

text \<open>\<open>Flush\<close> asserts that there is a base.\<close>

definition tx_Flush :: "'h::linorder tx_mem_cache \<Rightarrow> 'h tx_mem_cache option" where
  "tx_Flush c =
     (case c of TxRoot m \<Rightarrow> None | TxSub m b \<Rightarrow> Some (TxSub sm_empty (tx_BatchWrite (sm_items m) b)))"

definition tx_Clear :: "'h tx_mem_cache \<Rightarrow> 'h tx_mem_cache" where
  "tx_Clear c = with_txids sm_empty c"

definition tx_GetSize :: "'h::linorder tx_mem_cache \<Rightarrow> nat" where
  "tx_GetSize c = length (sm_items (txids c))"

section \<open>What a layer shows\<close>

lemma find_fold_set:
  "sm_find (fold (\<lambda>x. sm_set (f x) e) xs m) k = (if k \<in> f ` set xs then Some e else sm_find m k)"
  by (induction xs arbitrary: m) auto

lemma find_fold_erase:
  "sm_find (fold (\<lambda>x. sm_erase (f x)) xs m) k = (if k \<in> f ` set xs then None else sm_find m k)"
  by (induction xs arbitrary: m) auto

lemma find_fold_items:
  "distinct (map fst xs) \<Longrightarrow> sm_find (fold (\<lambda>(h, e) m. if \<not> e then sm_erase h m else sm_set h e m) xs m) k =
     (case map_of xs k of None \<Rightarrow> sm_find m k | Some e \<Rightarrow> if e then Some e else None)"
  "distinct (map fst xs) \<Longrightarrow> sm_find (fold (\<lambda>(h, e) m. sm_set h e m) xs m) k =
     (case map_of xs k of None \<Rightarrow> sm_find m k | Some e \<Rightarrow> Some e)"
  by (induction xs arbitrary: m) (auto split: option.split dest: map_of_SomeD intro: rev_image_eqI)

lemma HasTx_batch:
  "HasTx k (tx_BatchWrite (sm_items m) b) = (case sm_find m k of Some e \<Rightarrow> e | None \<Rightarrow> HasTx k b)"
  by (cases b) (auto simp: tx_BatchWrite_def find_fold_items split: option.split)

text \<open>A layer over its base writes back: the contract of \<open>Interfaces\<close>.\<close>

definition tx_layer_flush :: "'h::linorder TxIdMap \<Rightarrow> 'h tx_mem_cache \<Rightarrow> ('h TxIdMap \<times> 'h tx_mem_cache) option" where
  "tx_layer_flush m b = do { c \<leftarrow> tx_Flush (TxSub m b); Some (txids c, tx_pBase c) }"

interpretation tx_layer: write_back "\<lambda>_ _. True" "\<lambda>m b txid. HasTx txid (TxSub m b)" "\<lambda>b txid. HasTx txid b"
    tx_layer_flush "\<lambda>m. m = sm_empty"
  by unfold_locales (auto simp: tx_layer_flush_def tx_Flush_def HasTx_batch)

lemma tx_Flush_sub:
  "tx_Flush (TxSub m b) = Some c \<longleftrightarrow> (\<exists>m' b'. c = TxSub m' b' \<and> tx_layer_flush m b = Some (m', b'))"
  by (auto simp: tx_layer_flush_def tx_Flush_def)

text \<open>
  Claim C29: flushing a layer of the transaction cache empties it and leaves what it shows
  unchanged; afterwards its base shows the same, whether the base is the lowest layer or not,
  and a second flush does not change that.  A flush without a base fails its assertion.
\<close>

theorem tx_mem_flush:
  "tx_Flush (TxRoot m) = None \<and>
   (\<exists>m' b'. tx_Flush (TxSub m b) = Some (TxSub m' b') \<and> m' = sm_empty \<and>
     (\<forall>txid. HasTx txid b' = HasTx txid (TxSub m b)) \<and>
     (\<forall>txid. HasTx txid (TxSub m' b') = HasTx txid (TxSub m b)) \<and>
     (\<exists>m'' b''. tx_Flush (TxSub m' b') = Some (TxSub m'' b'') \<and> (\<forall>txid. HasTx txid b'' = HasTx txid b')))"
proof -
  obtain m' b' where f: "tx_layer_flush m b = Some (m', b')" "m' = sm_empty"
    using tx_layer.flush_law [of m b] by auto
  from tx_layer.flush_transparent [OF TrueI f(1)] tx_layer.flush_idem [OF TrueI f(1)] f
  show ?thesis
    by (auto simp: tx_Flush_sub fun_eq_iff) (auto simp: tx_Flush_def)
qed

text \<open>
  Over any layers, after \<open>AddBlockTx\<close> exactly the transactions of the block are known
  besides those known before, and after \<open>RemoveBlockTx\<close> exactly those of the block are gone; so
  removing the block just added restores what was shown, when no transaction of the block was
  known before.
\<close>

theorem tx_mem_block:
  assumes "\<And>tx. tx \<in> set (vptx block) \<Longrightarrow> \<not> HasTx (tx_GetHash E tx) c"
  shows "HasTx txid (snd (AddBlockTx E block c0)) = (HasTx txid c0 \<or> txid \<in> tx_GetHash E ` set (vptx block)) \<and>
    HasTx txid (snd (RemoveBlockTx E block c0)) = (HasTx txid c0 \<and> txid \<notin> tx_GetHash E ` set (vptx block)) \<and>
    HasTx txid (snd (RemoveBlockTx E block (snd (AddBlockTx E block c)))) = HasTx txid c"
proof -
  have add: "HasTx txid (snd (AddBlockTx E block c)) = (HasTx txid c \<or> txid \<in> tx_GetHash E ` set (vptx block))" for c
    by (cases c) (auto simp: AddBlockTx_def find_fold_set)
  have rem: "HasTx txid (snd (RemoveBlockTx E block c)) = (HasTx txid c \<and> txid \<notin> tx_GetHash E ` set (vptx block))" for c
    by (cases c) (auto simp: RemoveBlockTx_def find_fold_set find_fold_erase)
  show ?thesis
    unfolding rem add using assms by auto
qed

theorem tx_mem_block_witness:
  "HasTx 2 (snd (AddBlockTx sample_block_env sample_block (TxSub sm_empty (TxRoot sm_empty)))) \<and>
   \<not> HasTx 2 (snd (RemoveBlockTx sample_block_env sample_block
      (snd (AddBlockTx sample_block_env sample_block (TxSub sm_empty (TxRoot sm_empty))))))"
proof -
  have empty: "\<not> HasTx (tx_GetHash sample_block_env tx) (TxSub sm_empty (TxRoot sm_empty))" for tx
    by simp
  have "2 \<in> tx_GetHash sample_block_env ` set (vptx sample_block)"
    by (simp add: sample_block_env_def sample_block_def)
  then show ?thesis
    using tx_mem_block [of sample_block sample_block_env "TxSub sm_empty (TxRoot sm_empty)" 2
        "TxSub sm_empty (TxRoot sm_empty)", OF empty] by simp
qed

end
