(* ===== verification/Price_Points.thy ===== *)
theory Price_Points
  imports Block Sys_Param
begin

text \<open>
  The price points of \<open>pricefeeddb.h\<close> and \<open>pricefeeddb.cpp\<close> that are kept in memory
  (\<open>IneryPricePointMemCache\<close>): for every coin pair the prices the feeders gave in the recent
  blocks, in layers that are flushed into their base.  An empty map of users at a height marks
  the block as removed.  \<open>'h\<close> is the type of heights, words of the width of \<open>HeightType\<close> where
  the code computes with them; coin pairs, register identifiers and transactions belong to
  other modules, and the fields the code reads of them are in the record \<open>price_env\<close>.
\<close>

section \<open>State\<close>

type_synonym 'r user_prices = "('r, uint64) std_map"

type_synonym ('h, 'r) BlockUserPriceMap = "('h, 'r user_prices) std_map"

text \<open>The class \<open>IneryConsecutiveBlockPrice\<close> has the one member \<open>mapBlockUserPrices\<close>.\<close>

type_synonym ('p, 'h, 'r) CoinPricePointMap = "('p, ('h, 'r) BlockUserPriceMap) std_map"

record 'h CMedianPriceDetail =
  last_feed_height :: 'h
  price :: uint64

type_synonym ('p, 'h) PriceDetailMap = "('p, 'h CMedianPriceDetail) std_map"

record ('p, 'h, 'r) price_node =
  mapCoinPricePointCache :: "('p, 'h, 'r) CoinPricePointMap"
  latest_median_prices :: "('p, 'h) PriceDetailMap"

datatype ('p, 'h, 'r) price_cache =
  PcRoot (pc_node: "('p, 'h, 'r) price_node")
| PcSub (pc_node: "('p, 'h, 'r) price_node") (pc_base: "('p, 'h, 'r) price_cache")

fun with_price_node :: "('p, 'h, 'r) price_node \<Rightarrow> ('p, 'h, 'r) price_cache \<Rightarrow> ('p, 'h, 'r) price_cache" where
  "with_price_node n (PcRoot _) = PcRoot n"
| "with_price_node n (PcSub _ b) = PcSub n b"

definition price_points_of :: "('p, 'h, 'r) price_cache \<Rightarrow> ('p, 'h, 'r) CoinPricePointMap" where
  "price_points_of c = mapCoinPricePointCache (pc_node c)"

definition with_price_points ::
  "('p, 'h, 'r) CoinPricePointMap \<Rightarrow> ('p, 'h, 'r) price_cache \<Rightarrow> ('p, 'h, 'r) price_cache" where
  "with_price_points m c = with_price_node ((pc_node c)\<lparr>mapCoinPricePointCache := m\<rparr>) c"

text \<open>\<open>sm_at m k d\<close> is \<open>m[k]\<close>, where \<open>d\<close> is the value a missing entry is created with.\<close>

definition sm_at :: "('k, 'v) std_map \<Rightarrow> 'k \<Rightarrow> 'v \<Rightarrow> 'v" where
  "sm_at m k d = (case sm_find m k of Some v \<Rightarrow> v | None \<Rightarrow> d)"

record ('tx, 'p, 'r) price_env =
  tx_regid :: "'tx \<Rightarrow> 'r"
  tx_price_points :: "'tx \<Rightarrow> ('p \<times> uint64) list"
  MEDIAN_PRICE_SLIDE_WINDOW_BLOCKCOUNT :: uint8

section \<open>The prices of consecutive blocks\<close>

definition AddUserPrice :: "'h \<Rightarrow> 'r \<Rightarrow> uint64 \<Rightarrow> ('h, 'r) BlockUserPriceMap \<Rightarrow> ('h, 'r) BlockUserPriceMap" where
  "AddUserPrice blockHeight regId p m = sm_set blockHeight (sm_set regId p (sm_at m blockHeight sm_empty)) m"

definition DeleteUserPrice :: "'h \<Rightarrow> ('h, 'r) BlockUserPriceMap \<Rightarrow> ('h, 'r) BlockUserPriceMap" where
  "DeleteUserPrice blockHeight m = sm_set blockHeight sm_empty m"

definition cbp_ExistBlockUserPrice :: "'h \<Rightarrow> 'r \<Rightarrow> ('h, 'r) BlockUserPriceMap \<Rightarrow> bool" where
  "cbp_ExistBlockUserPrice blockHeight regId m =
     (case sm_find m blockHeight of None \<Rightarrow> False | Some users \<Rightarrow> sm_find users regId \<noteq> None)"

section \<open>Adding and removing blocks\<close>

definition node_ExistBlockUserPrice :: "'h \<Rightarrow> 'r \<Rightarrow> 'p \<Rightarrow> ('p, 'h, 'r) price_node \<Rightarrow> bool" where
  "node_ExistBlockUserPrice blockHeight regId coinPricePair n =
     (case sm_find (mapCoinPricePointCache n) coinPricePair of
        None \<Rightarrow> False
      | Some cbp \<Rightarrow> cbp_ExistBlockUserPrice blockHeight regId cbp)"

fun ExistBlockUserPrice :: "'h \<Rightarrow> 'r \<Rightarrow> 'p \<Rightarrow> ('p, 'h, 'r) price_cache \<Rightarrow> bool" where
  "ExistBlockUserPrice blockHeight regId coinPricePair (PcRoot n) =
     node_ExistBlockUserPrice blockHeight regId coinPricePair n"
| "ExistBlockUserPrice blockHeight regId coinPricePair (PcSub n b) =
     (if node_ExistBlockUserPrice blockHeight regId coinPricePair n then True
      else ExistBlockUserPrice blockHeight regId coinPricePair b)"

fun AddPrice :: "'h \<Rightarrow> 'r \<Rightarrow> ('p \<times> uint64) list \<Rightarrow> ('p, 'h, 'r) price_cache \<Rightarrow> bool \<times> ('p, 'h, 'r) price_cache" where
  "AddPrice blockHeight regId [] c = (True, c)"
| "AddPrice blockHeight regId ((coinPair, p) # pps) c =
     (if ExistBlockUserPrice blockHeight regId coinPair c then (False, c)
      else let cbp = AddUserPrice blockHeight regId p (sm_at (price_points_of c) coinPair sm_empty)
        in AddPrice blockHeight regId pps (with_price_points (sm_set coinPair cbp (price_points_of c)) c))"

text \<open>The loop over the price feed transactions ignores the result of \<open>AddPrice\<close>.\<close>

fun add_txs ::
  "('h, 'tx, 'uid, 'pm, 'cord) block_env \<Rightarrow> ('tx, 'p, 'r) price_env \<Rightarrow> 'w::len word \<Rightarrow> 'tx list \<Rightarrow>
     ('p, 'w word, 'r) price_cache \<Rightarrow> ('p, 'w word, 'r) price_cache" where
  "add_txs EB EP height [] c = c"
| "add_txs EB EP height (tx # txs) c =
     (if \<not> IsPriceFeedTx EB tx then c
      else add_txs EB EP height txs (snd (AddPrice height (tx_regid EP tx) (tx_price_points EP tx) c)))"

definition AddPriceByBlock ::
  "('h, 'tx, 'uid, 'pm, 'cord) block_env \<Rightarrow> ('tx, 'p, 'r) price_env \<Rightarrow> ('h, 'tx) IneryBlock \<Rightarrow>
     ('p, 'w::len word, 'r) price_cache \<Rightarrow> bool \<times> ('p, 'w word, 'r) price_cache" where
  "AddPriceByBlock EB EP block c =
     (if length (vptx block) < 3 then (True, c)
      else (True, add_txs EB EP (ucast (hd_height block)) (drop 1 (vptx block)) c))"

fun deleting_set ::
  "('h, 'tx, 'uid, 'pm, 'cord) block_env \<Rightarrow> ('tx, 'p, 'r) price_env \<Rightarrow> 'tx list \<Rightarrow> ('p, unit) std_map \<Rightarrow>
     ('p, unit) std_map" where
  "deleting_set EB EP [] s = s"
| "deleting_set EB EP (tx # txs) s =
     (if \<not> IsPriceFeedTx EB tx then s
      else deleting_set EB EP txs (fold (\<lambda>pricePoint. sm_set (fst pricePoint) ()) (tx_price_points EP tx) s))"

text \<open>The coin pairs of the block are marked first, then every pair the layer holds.\<close>

definition DeleteBlockFromCache ::
  "('h, 'tx, 'uid, 'pm, 'cord) block_env \<Rightarrow> ('tx, 'p::linorder, 'r) price_env \<Rightarrow> ('h, 'tx) IneryBlock \<Rightarrow>
     ('p, 'w::len word, 'r) price_cache \<Rightarrow> bool \<times> ('p, 'w word, 'r) price_cache" where
  "DeleteBlockFromCache EB EP block c =
     (let deletingSet = deleting_set EB EP (drop 1 (vptx block)) sm_empty;
          height = ucast (hd_height block);
          m1 = fold (\<lambda>(coinPair, _) m. sm_set coinPair (sm_set height sm_empty (sm_at m coinPair sm_empty)) m)
                 (sm_items deletingSet) (price_points_of c);
          m2 = fold (\<lambda>(coinPair, cbp) m. sm_set coinPair (sm_set height sm_empty cbp) m) (sm_items m1) m1
      in (True, with_price_points m2 c))"

section \<open>Flushing\<close>

definition write_height ::
  "'h \<times> 'r::linorder user_prices \<Rightarrow> ('h, 'r) BlockUserPriceMap \<Rightarrow> ('h, 'r) BlockUserPriceMap" where
  "write_height userPrice m =
     (if sm_items (snd userPrice) = [] then sm_erase (fst userPrice) m
      else sm_set (fst userPrice)
        (fold (\<lambda>(r, p) u. if sm_find u r = None then sm_set r p u else u) (sm_items (snd userPrice))
           (sm_at m (fst userPrice) sm_empty)) m)"

definition write_coin ::
  "'p \<times> ('h::linorder, 'r::linorder) BlockUserPriceMap \<Rightarrow> ('p, 'h, 'r) CoinPricePointMap \<Rightarrow>
     ('p, 'h, 'r) CoinPricePointMap" where
  "write_coin item m =
     (if sm_items (snd item) = [] then m
      else sm_set (fst item) (fold write_height (sm_items (snd item)) (sm_at m (fst item) sm_empty)) m)"

definition price_BatchWrite ::
  "('p::linorder, 'h::linorder, 'r::linorder) CoinPricePointMap \<Rightarrow> ('p, 'h, 'r) price_cache \<Rightarrow>
     ('p, 'h, 'r) price_cache" where
  "price_BatchWrite mapIn c = with_price_points (fold write_coin (sm_items mapIn) (price_points_of c)) c"

text \<open>\<open>Flush\<close> asserts that there is a base.\<close>

definition price_Flush ::
  "('p::linorder, 'h::linorder, 'r::linorder) price_cache \<Rightarrow> ('p, 'h, 'r) price_cache option" where
  "price_Flush c =
     (case c of
        PcRoot _ \<Rightarrow> None
      | PcSub n b \<Rightarrow> Some (PcSub (n\<lparr>mapCoinPricePointCache := sm_empty\<rparr>)
                            (price_BatchWrite (mapCoinPricePointCache n) b)))"

section \<open>The median price\<close>

fun merge_prices ::
  "('h \<times> 'r::linorder user_prices) list \<Rightarrow> 'h set \<times> ('h, 'r) BlockUserPriceMap \<Rightarrow> 'h set \<times> ('h, 'r) BlockUserPriceMap" where
  "merge_prices [] s = s"
| "merge_prices ((h, users) # rest) (expired, blockUserPrices) =
     (if sm_items users = [] then merge_prices rest (insert h expired, blockUserPrices)
      else if h \<in> expired \<or> sm_find blockUserPrices h \<noteq> None then merge_prices rest (expired, blockUserPrices)
      else merge_prices rest (expired, sm_set h users blockUserPrices))"

definition node_prices ::
  "'p \<Rightarrow> ('p, 'h::linorder, 'r::linorder) price_node \<Rightarrow> 'h set \<times> ('h, 'r) BlockUserPriceMap \<Rightarrow>
     'h set \<times> ('h, 'r) BlockUserPriceMap" where
  "node_prices coinPricePair n s =
     (case sm_find (mapCoinPricePointCache n) coinPricePair of
        None \<Rightarrow> s
      | Some cbp \<Rightarrow> merge_prices (sm_items cbp) s)"

fun GetBlockUserPrices_rec ::
  "'p \<Rightarrow> ('p, 'h::linorder, 'r::linorder) price_cache \<Rightarrow> 'h set \<times> ('h, 'r) BlockUserPriceMap \<Rightarrow>
     'h set \<times> ('h, 'r) BlockUserPriceMap" where
  "GetBlockUserPrices_rec coinPricePair (PcRoot n) s = node_prices coinPricePair n s"
| "GetBlockUserPrices_rec coinPricePair (PcSub n b) s =
     GetBlockUserPrices_rec coinPricePair b (node_prices coinPricePair n s)"

definition GetBlockUserPrices ::
  "'p \<Rightarrow> ('p, 'h::linorder, 'r::linorder) price_cache \<Rightarrow> ('h, 'r) BlockUserPriceMap" where
  "GetBlockUserPrices coinPricePair c = snd (GetBlockUserPrices_rec coinPricePair c ({}, sm_empty))"

text \<open>The size is read into 32 bits; the sum of the two middle numbers wraps at 64 bits.\<close>

definition ComputeMedianNumber :: "uint64 list \<Rightarrow> uint64" where
  "ComputeMedianNumber numbers =
     (let size = unat (of_nat (length numbers) :: uint32) in
      if size < 2 then (if size = 0 then 0 else numbers ! 0)
      else let numbers = sort numbers in
        if size mod 2 = 0 then (numbers ! (size div 2 - 1) + numbers ! (size div 2)) div 2
        else numbers ! (size div 2))"

text \<open>The loop down from the block to the begin of the window; the state is the height of the
  last feed and the prices found.\<close>

function window_loop ::
  "('w::len word, 'r::linorder) BlockUserPriceMap \<Rightarrow> 'w word \<Rightarrow> 'w word \<Rightarrow> 'w word \<Rightarrow> 'w word \<times> uint64 list \<Rightarrow>
     'w word \<times> uint64 list" where
  "window_loop m blockHeight beginBlockHeight height s =
     (if beginBlockHeight < height then
        window_loop m blockHeight beginBlockHeight (height - 1)
          (case sm_find m height of
             None \<Rightarrow> s
           | Some users \<Rightarrow> (if height = blockHeight then blockHeight else fst s, snd s @ map snd (sm_items users)))
      else s)"
  by pat_completeness auto
termination
proof (relation "measure (\<lambda>(m, bh, b, h, s). unat h)")
  fix b h bh :: "'w::len word" and m :: "('w word, 'r::linorder) BlockUserPriceMap" and s s' :: "'w word \<times> uint64 list"
  assume "b < h"
  then have "unat b < unat h"
    by (simp only: word_less_nat_alt)
  then have "h \<noteq> 0"
    by (metis not_less_zero unat_0)
  then have "unat (h - 1) < unat h"
    by (rule measure_unat)
  then show "((m, bh, b, h - 1, s'), (m, bh, b, h, s)) \<in> measure (\<lambda>(m, bh, b, h, s). unat h)"
    by simp
qed simp

declare window_loop.simps [simp del]

definition ComputeBlockMedianPrice_map ::
  "'w::len word \<Rightarrow> uint64 \<Rightarrow> ('w word, 'r::linorder) BlockUserPriceMap \<Rightarrow> 'w word CMedianPriceDetail" where
  "ComputeBlockMedianPrice_map blockHeight slideWindow m =
     (let beginBlockHeight = (if unat blockHeight > unat slideWindow then blockHeight - ucast slideWindow else 0);
          s = window_loop m blockHeight beginBlockHeight blockHeight (0, [])
      in \<lparr>last_feed_height = fst s, price = ComputeMedianNumber (snd s)\<rparr>)"

definition ComputeBlockMedianPrice ::
  "'w::len word \<Rightarrow> uint64 \<Rightarrow> 'p \<Rightarrow> ('p, 'w word, 'r::linorder) price_cache \<Rightarrow> 'w word CMedianPriceDetail" where
  "ComputeBlockMedianPrice blockHeight slideWindow coinPricePair c =
     (let blockUserPrices = GetBlockUserPrices coinPricePair c in
      if sm_items blockUserPrices = [] then \<lparr>last_feed_height = 0, price = 0\<rparr>
      else ComputeBlockMedianPrice_map blockHeight slideWindow blockUserPrices)"

definition GetMedianPrice ::
  "'w::len word \<Rightarrow> uint64 \<Rightarrow> 'p \<Rightarrow> ('p, 'w word, 'r::linorder) price_cache \<Rightarrow> 'w word CMedianPriceDetail" where
  "GetMedianPrice blockHeight slideWindow coinPricePair c =
     (let priceDetail = ComputeBlockMedianPrice blockHeight slideWindow coinPricePair c in
      case sm_find (latest_median_prices (pc_node c)) coinPricePair of
        None \<Rightarrow> priceDetail
      | Some latest \<Rightarrow>
          if price priceDetail = 0 then latest
          else if last_feed_height priceDetail \<noteq> blockHeight
          then priceDetail\<lparr>last_feed_height := last_feed_height latest\<rparr>
          else priceDetail)"

section \<open>The window of blocks\<close>

definition ReadSlideWindow ::
  "('cp::linorder, 'rid) sys_param_env \<Rightarrow> ('tx, 'p, 'r) price_env \<Rightarrow> 'cp sys_param_db dbstate \<Rightarrow>
     ('cp sys_param_db dbstate \<times> uint64 option) option" where
  "ReadSlideWindow ES EP s = GetParam ES (MEDIAN_PRICE_SLIDE_WINDOW_BLOCKCOUNT EP) s"

text \<open>Following \<open>pprev\<close> for a number of steps or to the null pointer.\<close>

fun walk_back :: "'h block_map \<Rightarrow> nat \<Rightarrow> 'h option \<Rightarrow> 'h option option" where
  "walk_back M 0 p = Some p"
| "walk_back M (Suc n) None = Some None"
| "walk_back M (Suc n) (Some p) = do { i \<leftarrow> sm_find M p; walk_back M n (pprev i) }"

text \<open>The window is read into an \<open>int\<close>, whose negative values walk no step.\<close>

definition window_steps :: "uint64 \<Rightarrow> nat" where
  "window_steps slideWindow = nat (sint (ucast slideWindow :: 32 word))"

fun reload_loop ::
  "('h, 'tx, 'uid, 'pm, 'cord) block_env \<Rightarrow> ('tx, 'p, 'r) price_env \<Rightarrow> ('h, 'tx) block_codec \<Rightarrow> file_system \<Rightarrow>
     'h block_map \<Rightarrow> nat \<Rightarrow> 'h option \<Rightarrow> ('p, 'w::len word, 'r) price_cache \<Rightarrow>
     (bool \<times> ('p, 'w word, 'r) price_cache) option" where
  "reload_loop EB EP C fs M 0 p c = Some (True, c)"
| "reload_loop EB EP C fs M (Suc n) None c = Some (True, c)"
| "reload_loop EB EP C fs M (Suc n) (Some p) c =
     do { i \<leftarrow> sm_find M p;
          case ReadBlockFromDisk EB C i fs of
            None \<Rightarrow> Some (False, c)
          | Some block \<Rightarrow> reload_loop EB EP C fs M n (pprev i) (snd (AddPriceByBlock EB EP block c)) }"

definition ReleadBlocks ::
  "('cp::linorder, 'rid) sys_param_env \<Rightarrow> ('h, 'tx, 'uid, 'pm, 'cord) block_env \<Rightarrow> ('tx, 'p, 'r) price_env \<Rightarrow>
     ('h, 'tx) block_codec \<Rightarrow> file_system \<Rightarrow> 'h block_map \<Rightarrow> 'h option \<Rightarrow>
     'cp sys_param_db dbstate \<times> ('p, 'w::len word, 'r) price_cache \<Rightarrow>
     (bool \<times> 'cp sys_param_db dbstate \<times> ('p, 'w word, 'r) price_cache) option" where
  "ReleadBlocks ES EB EP C fs M pTip st =
     do { (s, r) \<leftarrow> ReadSlideWindow ES EP (fst st);
          case r of
            None \<Rightarrow> Some (False, s, snd st)
          | Some slideWindow \<Rightarrow>
              do { (ok, c) \<leftarrow> reload_loop EB EP C fs M (unat slideWindow) pTip (snd st); Some (ok, s, c) } }"

definition PushBlock ::
  "('cp::linorder, 'rid) sys_param_env \<Rightarrow> ('h, 'tx, 'uid, 'pm, 'cord) block_env \<Rightarrow> ('tx, 'p::linorder, 'r) price_env \<Rightarrow>
     ('h, 'tx) block_codec \<Rightarrow> file_system \<Rightarrow> 'h block_map \<Rightarrow> 'h \<Rightarrow>
     'cp sys_param_db dbstate \<times> ('p, 'w::len word, 'r) price_cache \<Rightarrow>
     (bool \<times> 'cp sys_param_db dbstate \<times> ('p, 'w word, 'r) price_cache) option" where
  "PushBlock ES EB EP C fs M pTip st =
     do { (s, r) \<leftarrow> ReadSlideWindow ES EP (fst st);
          case r of
            None \<Rightarrow> Some (False, s, snd st)
          | Some slideWindow \<Rightarrow>
              do { tip \<leftarrow> sm_find M pTip;
                   if (of_int (bi_height tip) :: 'w word) > ucast slideWindow then
                     do { q \<leftarrow> walk_back M (window_steps slideWindow) (Some pTip);
                          case q of
                            None \<Rightarrow> Some (False, s, snd st)
                          | Some p \<Rightarrow>
                              do { i \<leftarrow> sm_find M p;
                                   case ReadBlockFromDisk EB C i fs of
                                     None \<Rightarrow> Some (False, s, snd st)
                                   | Some deleteBlock \<Rightarrow> Some (True, s, snd (DeleteBlockFromCache EB EP deleteBlock (snd st))) } }
                   else Some (True, s, snd st) } }"

text \<open>\<open>UndoBlock\<close> does not test whether the block to reload exists.\<close>

definition UndoBlock ::
  "('cp::linorder, 'rid) sys_param_env \<Rightarrow> ('h, 'tx, 'uid, 'pm, 'cord) block_env \<Rightarrow> ('tx, 'p::linorder, 'r) price_env \<Rightarrow>
     ('h, 'tx) block_codec \<Rightarrow> file_system \<Rightarrow> 'h block_map \<Rightarrow> 'h \<Rightarrow> ('h, 'tx) IneryBlock \<Rightarrow>
     'cp sys_param_db dbstate \<times> ('p, 'w::len word, 'r) price_cache \<Rightarrow>
     (bool \<times> 'cp sys_param_db dbstate \<times> ('p, 'w word, 'r) price_cache) option" where
  "UndoBlock ES EB EP C fs M pTip block st =
     do { (s, r) \<leftarrow> ReadSlideWindow ES EP (fst st);
          case r of
            None \<Rightarrow> Some (False, s, snd st)
          | Some slideWindow \<Rightarrow>
              (let c = snd (DeleteBlockFromCache EB EP block (snd st)) in
               do { tip \<leftarrow> sm_find M pTip;
                    if (of_int (bi_height tip) :: 'w word) > ucast slideWindow then
                      do { q \<leftarrow> walk_back M (window_steps slideWindow) (Some pTip);
                           p \<leftarrow> q;
                           i \<leftarrow> sm_find M p;
                           case ReadBlockFromDisk EB C i fs of
                             None \<Rightarrow> Some (False, s, c)
                           | Some reLoadblock \<Rightarrow> Some (True, s, snd (AddPriceByBlock EB EP reLoadblock c)) }
                    else Some (True, s, c) }) }"

end
