(* ===== verification/Price_Laws.thy ===== *)
theory Price_Laws
  imports Price_Points Interfaces
begin

text \<open>
  What the price points show and how adding, removing and flushing change it; the median as an
  order statistic; and the window: connecting and disconnecting blocks keeps the lowest layer
  showing exactly the prices of the blocks of the window.
\<close>

section \<open>What the layers show\<close>

definition entry :: "('p, 'h, 'r) CoinPricePointMap \<Rightarrow> 'p \<Rightarrow> 'h \<Rightarrow> 'r user_prices option" where
  "entry m p h = (case sm_find m p of None \<Rightarrow> None | Some cbp \<Rightarrow> sm_find cbp h)"

definition shown_prices :: "'r user_prices option \<Rightarrow> 'r user_prices option" where
  "shown_prices e = (case e of None \<Rightarrow> None | Some u \<Rightarrow> if u = sm_empty then None else Some u)"

fun pview :: "('p, 'h, 'r) price_cache \<Rightarrow> 'p \<Rightarrow> 'h \<Rightarrow> 'r user_prices option" where
  "pview (PcRoot n) p h = shown_prices (entry (mapCoinPricePointCache n) p h)"
| "pview (PcSub n b) p h =
     (case entry (mapCoinPricePointCache n) p h of None \<Rightarrow> pview b p h | e \<Rightarrow> shown_prices e)"

lemma pview_nonempty: "pview c p h = Some u \<Longrightarrow> u \<noteq> sm_empty"
  by (induction c) (auto simp: shown_prices_def split: option.splits if_splits)

lemma merge_prices_both:
  "distinct (map fst xs) \<Longrightarrow>
     (h \<in> fst (merge_prices xs s) \<longleftrightarrow> h \<in> fst s \<or> map_of xs h = Some sm_empty) \<and>
     sm_find (snd (merge_prices xs s)) h = (case sm_find (snd s) h of Some u \<Rightarrow> Some u
       | None \<Rightarrow> if h \<in> fst s then None else shown_prices (map_of xs h))"
proof (induction xs arbitrary: s)
  case Nil
  then show ?case
    by (cases s) (simp add: shown_prices_def split: option.split)
next
  case (Cons x xs)
  obtain k u where x: "x = (k, u)" by (cases x)
  obtain ex acc where s: "s = (ex, acc)" by (cases s)
  have d: "distinct (map fst xs)" and none: "map_of xs k = None"
    using Cons.prems x by (auto simp: map_of_eq_None_iff)
  show ?case
  proof (cases "u = sm_empty")
    case True
    then show ?thesis
      using Cons.IH [OF d, of "(insert k ex, acc)"] none unfolding x s
      by (auto simp: shown_prices_def split: option.splits)
  next
    case False
    then have "sm_items u \<noteq> []"
      by (simp add: sm_items_Nil_iff)
    with False show ?thesis
      using Cons.IH [OF d, of "(ex, acc)"] Cons.IH [OF d, of "(ex, sm_set k u acc)"] none unfolding x s
      by (cases "k \<in> ex \<or> sm_find acc k \<noteq> None") (auto simp: shown_prices_def split: option.splits)
  qed
qed

lemmas merge_prices_eq = merge_prices_both [THEN conjunct1] merge_prices_both [THEN conjunct2]

lemma node_prices_eq:
  "h \<in> fst (node_prices p n s) \<longleftrightarrow> h \<in> fst s \<or> entry (mapCoinPricePointCache n) p h = Some sm_empty"
  "sm_find (snd (node_prices p n s)) h = (case sm_find (snd s) h of Some u \<Rightarrow> Some u
     | None \<Rightarrow> if h \<in> fst s then None else shown_prices (entry (mapCoinPricePointCache n) p h))"
  by (cases "sm_find (mapCoinPricePointCache n) p";
      simp add: node_prices_def entry_def merge_prices_eq shown_prices_def split: option.split)+

lemma GetBlockUserPrices_rec_eq:
  "sm_find (snd (GetBlockUserPrices_rec p c s)) h = (case sm_find (snd s) h of Some u \<Rightarrow> Some u
     | None \<Rightarrow> if h \<in> fst s then None else pview c p h)"
proof (induction c arbitrary: s)
  case (PcSub n b)
  then show ?case
    by (auto simp: node_prices_eq shown_prices_def split: option.split)
qed (simp add: node_prices_eq split: option.split)

lemma GetBlockUserPrices_eq: "sm_find (GetBlockUserPrices p c) h = pview c p h"
  by (simp add: GetBlockUserPrices_def GetBlockUserPrices_rec_eq)

section \<open>Flushing\<close>

text \<open>What a flush makes of an entry of the base: prices of the base win over new ones.\<close>

definition flushed_entry ::
  "'r user_prices option \<Rightarrow> 'r user_prices option \<Rightarrow> 'r user_prices option \<Rightarrow> bool" where
  "flushed_entry up base new \<longleftrightarrow>
     (case up of
        None \<Rightarrow> new = base
      | Some u \<Rightarrow>
          if u = sm_empty then new = None
          else \<exists>v. new = Some v \<and> (\<forall>r. sm_find v r = (case base of
             Some w \<Rightarrow> (case sm_find w r of Some x \<Rightarrow> Some x | None \<Rightarrow> sm_find u r)
           | None \<Rightarrow> sm_find u r)))"

lemma emplace_eq:
  "distinct (map fst xs) \<Longrightarrow> sm_find (fold (\<lambda>(r, p) u. if sm_find u r = None then sm_set r p u else u) xs u) k =
     (case sm_find u k of Some x \<Rightarrow> Some x | None \<Rightarrow> map_of xs k)"
proof (induction xs arbitrary: u)
  case (Cons x xs)
  obtain r p where x: "x = (r, p)" by (cases x)
  with Cons.prems have "map_of xs r = None"
    by (simp add: map_of_eq_None_iff)
  with Cons x show ?case
    by (auto split: option.split)
qed (auto split: option.split)

lemma write_height_eq:
  "sm_find (write_height (h, u) m) k = (if k \<noteq> h then sm_find m k else if u = sm_empty then None
     else Some (fold (\<lambda>(r, p) u. if sm_find u r = None then sm_set r p u else u) (sm_items u) (sm_at m h sm_empty)))"
  by (simp add: write_height_def sm_items_Nil_iff)

lemma write_heights_eq:
  "distinct (map fst xs) \<Longrightarrow> flushed_entry (map_of xs h) (sm_find m h) (sm_find (fold write_height xs m) h)"
proof (induction xs arbitrary: m)
  case Nil
  then show ?case by (simp add: flushed_entry_def)
next
  case (Cons x xs)
  obtain k u where x: "x = (k, u)" by (cases x)
  have d: "distinct (map fst xs)" and none: "map_of xs k = None"
    using Cons.prems x by (auto simp: map_of_eq_None_iff)
  have rest: "flushed_entry (map_of xs h) (sm_find (write_height (k, u) m) h)
      (sm_find (fold write_height (x # xs) m) h)"
    using Cons.IH [OF d] x by simp
  show ?case
  proof (cases "h = k")
    case False
    with rest x show ?thesis by (simp add: write_height_eq)
  next
    case True
    with rest none have "sm_find (fold write_height (x # xs) m) h = sm_find (write_height (k, u) m) h"
      by (simp add: flushed_entry_def)
    with True x show ?thesis
      by (auto simp: flushed_entry_def write_height_eq emplace_eq sm_at_def split: option.split)
  qed
qed

lemma write_coins_eq:
  "distinct (map fst xs) \<Longrightarrow>
     flushed_entry (case map_of xs p of None \<Rightarrow> None | Some cbp \<Rightarrow> sm_find cbp h) (entry m p h)
       (entry (fold write_coin xs m) p h)"
proof (induction xs arbitrary: m)
  case Nil
  then show ?case by (simp add: flushed_entry_def)
next
  case (Cons x xs)
  obtain q cbp where x: "x = (q, cbp)" by (cases x)
  have d: "distinct (map fst xs)" and none: "map_of xs q = None"
    using Cons.prems x by (auto simp: map_of_eq_None_iff)
  have rest: "flushed_entry (case map_of xs p of None \<Rightarrow> None | Some cbp \<Rightarrow> sm_find cbp h)
      (entry (write_coin (q, cbp) m) p h) (entry (fold write_coin (x # xs) m) p h)"
    using Cons.IH [OF d] x by simp
  show ?case
  proof (cases "p = q")
    case False
    then have "entry (write_coin (q, cbp) m) p h = entry m p h"
      by (cases "sm_items cbp = []") (simp_all add: write_coin_def entry_def)
    with False rest x show ?thesis by simp
  next
    case True
    have "flushed_entry None e f \<longleftrightarrow> f = e" for e f :: "'r user_prices option"
      by (simp add: flushed_entry_def)
    with True rest none have same: "entry (fold write_coin (x # xs) m) p h = entry (write_coin (q, cbp) m) p h"
      by (simp add: flushed_entry_def)
    have at: "sm_find (sm_at m q sm_empty) h = entry m q h"
      by (simp add: sm_at_def entry_def split: option.split)
    have "flushed_entry (sm_find cbp h) (entry m q h) (entry (write_coin (q, cbp) m) q h)"
    proof (cases "sm_items cbp = []")
      case True
      then show ?thesis by (simp add: write_coin_def flushed_entry_def sm_items_Nil_iff)
    next
      case False
      have "flushed_entry (map_of (sm_items cbp) h) (sm_find (sm_at m q sm_empty) h)
          (sm_find (fold write_height (sm_items cbp) (sm_at m q sm_empty)) h)"
        by (rule write_heights_eq) simp
      with False show ?thesis
        unfolding at by (simp add: write_coin_def entry_def)
    qed
    with True x same show ?thesis by simp
  qed
qed

lemma BatchWrite_entry:
  "flushed_entry (entry m p h) (entry (price_points_of b) p h) (entry (price_points_of (price_BatchWrite m b)) p h)"
proof -
  have "price_points_of (price_BatchWrite m b) = fold write_coin (sm_items m) (price_points_of b)"
    by (cases b) (simp_all add: price_BatchWrite_def with_price_points_def price_points_of_def)
  with write_coins_eq [of "sm_items m" h p "price_points_of b"] show ?thesis
    by (simp add: entry_def)
qed

text \<open>The layer holds nothing for a height of which the base already has prices from others.\<close>

definition fresh_heights :: "('p, 'h, 'r) CoinPricePointMap \<Rightarrow> ('p, 'h, 'r) CoinPricePointMap \<Rightarrow> bool" where
  "fresh_heights m base \<longleftrightarrow> (\<forall>p h u w. entry m p h = Some u \<longrightarrow> u \<noteq> sm_empty \<longrightarrow> entry base p h = Some w \<longrightarrow>
     (\<forall>r x. sm_find w r = Some x \<longrightarrow> sm_find u r = Some x))"

lemma BatchWrite_root:
  assumes "fresh_heights m (mapCoinPricePointCache nb)"
  shows "\<exists>nb'. price_BatchWrite m (PcRoot nb) = PcRoot nb' \<and>
    (\<forall>p h. pview (PcRoot nb') p h = (case entry m p h of None \<Rightarrow> pview (PcRoot nb) p h | e \<Rightarrow> shown_prices e))"
proof -
  obtain nb' where nb': "price_BatchWrite m (PcRoot nb) = PcRoot nb'"
    by (simp add: price_BatchWrite_def with_price_points_def)
  have "pview (PcRoot nb') p h = (case entry m p h of None \<Rightarrow> pview (PcRoot nb) p h | e \<Rightarrow> shown_prices e)" for p h
  proof -
    have f: "flushed_entry (entry m p h) (entry (mapCoinPricePointCache nb) p h) (entry (mapCoinPricePointCache nb') p h)"
      using BatchWrite_entry [of m p h "PcRoot nb"] by (simp add: nb' price_points_of_def)
    show ?thesis
    proof (cases "entry m p h")
      case None
      with f show ?thesis by (simp add: flushed_entry_def)
    next
      case (Some u)
      show ?thesis
      proof (cases "u = sm_empty")
        case True
        with f Some show ?thesis by (simp add: flushed_entry_def shown_prices_def)
      next
        case False
        obtain v where v: "entry (mapCoinPricePointCache nb') p h = Some v"
          "\<And>r. sm_find v r = (case entry (mapCoinPricePointCache nb) p h of
             Some w \<Rightarrow> (case sm_find w r of Some x \<Rightarrow> Some x | None \<Rightarrow> sm_find u r) | None \<Rightarrow> sm_find u r)"
          using f Some False by (auto simp: flushed_entry_def)
        have "sm_find v r = sm_find u r" for r
          using v(2) [of r] assms Some False
          by (auto simp: fresh_heights_def split: option.splits)
        then have "v = u" by (rule std_map_eqI)
        with v(1) Some show ?thesis by simp
      qed
    qed
  qed
  with nb' show ?thesis by blast
qed

section \<open>Adding a block\<close>

definition here :: "('p, 'h, 'r) CoinPricePointMap \<Rightarrow> 'p \<Rightarrow> 'h \<Rightarrow> 'r \<Rightarrow> uint64 option" where
  "here m p h r = (case entry m p h of None \<Rightarrow> None | Some u \<Rightarrow> sm_find u r)"

definition shows_price :: "('p, 'h, 'r) price_cache \<Rightarrow> 'p \<Rightarrow> 'h \<Rightarrow> 'r \<Rightarrow> uint64 option" where
  "shows_price c p h r = (case pview c p h of None \<Rightarrow> None | Some u \<Rightarrow> sm_find u r)"

lemma node_Exist_here: "node_ExistBlockUserPrice h r p n \<longleftrightarrow> here (mapCoinPricePointCache n) p h r \<noteq> None"
  by (simp add: node_ExistBlockUserPrice_def here_def entry_def cbp_ExistBlockUserPrice_def split: option.split)

lemma shows_price_Exist: "shows_price c p h r \<noteq> None \<Longrightarrow> ExistBlockUserPrice h r p c"
  by (induction c)
    (auto simp: shows_price_def node_Exist_here here_def shown_prices_def split: option.splits if_splits)

lemma shows_price_root: "shows_price (PcRoot n) p h r = here (mapCoinPricePointCache n) p h r"
  by (simp add: shows_price_def here_def shown_prices_def split: option.split)

lemma shows_price_sub:
  "shows_price (PcSub n b) p h r =
     (case entry (mapCoinPricePointCache n) p h of None \<Rightarrow> shows_price b p h r | Some u \<Rightarrow> sm_find u r)"
  by (simp add: shows_price_def shown_prices_def split: option.split)

lemma price_points_with [simp]: "price_points_of (with_price_points m c) = m"
  by (cases c) (simp_all add: price_points_of_def with_price_points_def)

lemma with_price_points_parts [simp]:
  "with_price_points m (PcRoot n) = PcRoot (n\<lparr>mapCoinPricePointCache := m\<rparr>)"
  "with_price_points m (PcSub n b) = PcSub (n\<lparr>mapCoinPricePointCache := m\<rparr>) b"
  by (simp_all add: with_price_points_def)

text \<open>What a block feeds: the first price each user gives for a pair; a transaction stops at a
  pair its user has already given.\<close>

fun add_points :: "'r \<Rightarrow> ('p \<times> uint64) list \<Rightarrow> ('p \<Rightarrow> 'r \<Rightarrow> uint64 option) \<Rightarrow> 'p \<Rightarrow> 'r \<Rightarrow> uint64 option" where
  "add_points r [] f = f"
| "add_points r ((p, x) # pps) f =
     (if f p r \<noteq> None then f else add_points r pps (f(p := (f p)(r \<mapsto> x))))"

fun feed_txs ::
  "('h, 'tx, 'uid, 'pm, 'cord) block_env \<Rightarrow> ('tx, 'p, 'r) price_env \<Rightarrow> 'tx list \<Rightarrow>
     ('p \<Rightarrow> 'r \<Rightarrow> uint64 option) \<Rightarrow> 'p \<Rightarrow> 'r \<Rightarrow> uint64 option" where
  "feed_txs EB EP [] f = f"
| "feed_txs EB EP (tx # txs) f =
     (if \<not> IsPriceFeedTx EB tx then f
      else feed_txs EB EP txs (add_points (tx_regid EP tx) (tx_price_points EP tx) f))"

definition block_feed ::
  "('h, 'tx, 'uid, 'pm, 'cord) block_env \<Rightarrow> ('tx, 'p, 'r) price_env \<Rightarrow> ('h, 'tx) IneryBlock \<Rightarrow>
     'p \<Rightarrow> 'r \<Rightarrow> uint64 option" where
  "block_feed EB EP b = (if length (vptx b) < 3 then (\<lambda>_ _. None) else feed_txs EB EP (drop 1 (vptx b)) (\<lambda>_ _. None))"

text \<open>While a block is added, the top layer holds at its height what was fed so far and no
  layer holds more.\<close>

definition feeding :: "'h \<Rightarrow> ('p \<Rightarrow> 'r \<Rightarrow> uint64 option) \<Rightarrow> ('p, 'h, 'r) price_cache \<Rightarrow> bool" where
  "feeding h f c \<longleftrightarrow> (\<forall>p r. here (price_points_of c) p h r = f p r \<and> (ExistBlockUserPrice h r p c \<longleftrightarrow> f p r \<noteq> None))"

text \<open>\<open>same_but h c c'\<close>: only the top layer changed, and only at height \<open>h\<close>.\<close>

definition same_but :: "'h \<Rightarrow> ('p, 'h, 'r) price_cache \<Rightarrow> ('p, 'h, 'r) price_cache \<Rightarrow> bool" where
  "same_but h c c' \<longleftrightarrow> (\<exists>m. c' = with_price_points m c \<and>
     (\<forall>p h'. h' \<noteq> h \<longrightarrow> entry m p h' = entry (price_points_of c) p h'))"

lemma same_but_refl [simp]: "same_but h c c"
proof -
  have "c = with_price_points (price_points_of c) c"
    by (cases c) (simp_all add: price_points_of_def)
  then show ?thesis unfolding same_but_def by metis
qed

lemma with_with [simp]: "with_price_points m (with_price_points m' c) = with_price_points m c"
  by (cases c) simp_all

lemma same_but_trans:
  assumes "same_but h c c1" and "same_but h c1 c2"
  shows "same_but h c c2"
proof -
  obtain m1 where m1: "c1 = with_price_points m1 c" "\<And>p k. k \<noteq> h \<Longrightarrow> entry m1 p k = entry (price_points_of c) p k"
    using assms(1) unfolding same_but_def by blast
  obtain m2 where m2: "c2 = with_price_points m2 c1" "\<And>p k. k \<noteq> h \<Longrightarrow> entry m2 p k = entry (price_points_of c1) p k"
    using assms(2) unfolding same_but_def by blast
  have "c2 = with_price_points m2 c"
    by (simp add: m1(1) m2(1))
  moreover have "entry m2 p k = entry (price_points_of c) p k" if "k \<noteq> h" for p k
    using m1(2) [OF that] m2(2) [OF that] by (simp add: m1(1))
  ultimately show ?thesis unfolding same_but_def by blast
qed

lemma same_but_shows: "same_but h c c' \<Longrightarrow> h' \<noteq> h \<Longrightarrow> shows_price c' p h' r = shows_price c p h' r"
  unfolding same_but_def by (cases c) (auto simp: shows_price_def price_points_of_def)

lemma feeding_shows: "feeding h f c \<Longrightarrow> shows_price c p h r = f p r"
proof -
  assume f: "feeding h f c"
  have "shows_price c p h r = here (price_points_of c) p h r"
  proof (cases c)
    case (PcRoot n)
    then show ?thesis by (simp add: shows_price_root price_points_of_def)
  next
    case (PcSub n b)
    show ?thesis
    proof (cases "entry (mapCoinPricePointCache n) p h")
      case None
      then have "here (price_points_of c) p h r = None"
        by (simp add: PcSub here_def price_points_of_def)
      moreover from this have "\<not> ExistBlockUserPrice h r p b"
        using f PcSub by (metis ExistBlockUserPrice.simps(2) feeding_def)
      then have "shows_price b p h r = None"
        using shows_price_Exist by metis
      ultimately show ?thesis
        using PcSub None by (simp add: shows_price_sub)
    next
      case (Some u)
      with PcSub show ?thesis
        by (simp add: shows_price_sub here_def price_points_of_def)
    qed
  qed
  with f show ?thesis by (simp add: feeding_def)
qed

lemma feeding_add:
  assumes "feeding h f c" and "f q u = None"
  shows "feeding h (f(q := (f q)(u \<mapsto> x)))
      (with_price_points (sm_set q (AddUserPrice h u x (sm_at (price_points_of c) q sm_empty)) (price_points_of c)) c)"
    (is "feeding h ?f (with_price_points ?m c)")
    and "same_but h c
      (with_price_points (sm_set q (AddUserPrice h u x (sm_at (price_points_of c) q sm_empty)) (price_points_of c)) c)"
proof -
  have h: "here (price_points_of c) p h r = f p r" for p r
    using assms(1) by (simp add: feeding_def)
  have e: "entry ?m p k = (if p = q \<and> k = h
      then Some (sm_set u x (case entry (price_points_of c) q h of Some w \<Rightarrow> w | None \<Rightarrow> sm_empty))
      else entry (price_points_of c) p k)" for p k
    by (auto simp: entry_def AddUserPrice_def sm_at_def split: option.split)
  have hm: "here ?m p h r = ?f p r" for p r
    using h [of p r] by (auto simp: here_def e split: option.splits)
  have ex: "ExistBlockUserPrice h r p (with_price_points ?m c) \<longleftrightarrow> here ?m p h r \<noteq> None \<or> ExistBlockUserPrice h r p c" for p r
    using h [of p r] hm [of p r] assms(2)
    by (cases c) (auto simp: node_Exist_here price_points_of_def split: if_splits)
  show "feeding h ?f (with_price_points ?m c)"
    using ex hm assms(1) unfolding feeding_def price_points_with by auto
  show "same_but h c (with_price_points ?m c)"
    unfolding same_but_def using e by (intro exI [of _ ?m]) auto
qed

lemma feeding_AddPrice:
  "feeding h f c \<Longrightarrow> feeding h (add_points r pps f) (snd (AddPrice h r pps c)) \<and> same_but h c (snd (AddPrice h r pps c))"
proof (induction r pps f arbitrary: c rule: add_points.induct)
  case (2 r p x pps f)
  show ?case
  proof (cases "f p r = None")
    case False
    with 2(2) show ?thesis by (simp add: feeding_def)
  next
    case True
    let ?c = "with_price_points (sm_set p (AddUserPrice h r x (sm_at (price_points_of c) p sm_empty)) (price_points_of c)) c"
    have step: "AddPrice h r ((p, x) # pps) c = AddPrice h r pps ?c"
      using 2(2) True by (simp add: feeding_def Let_def)
    note a = feeding_add [OF 2(2) True, where x = x]
    have "\<not> f p r \<noteq> None"
      using True by simp
    from 2(1) [OF this a(1)] have IH: "feeding h (add_points r pps (f(p := (f p)(r \<mapsto> x)))) (snd (AddPrice h r pps ?c))"
        "same_but h ?c (snd (AddPrice h r pps ?c))"
      by (rule conjunct1, rule conjunct2)
    have "add_points r ((p, x) # pps) f = add_points r pps (f(p := (f p)(r \<mapsto> x)))"
      using True by (simp only: add_points.simps) simp
    then show ?thesis
      unfolding step using IH(1) same_but_trans [OF a(2) IH(2)] by (simp only: simp_thms)
  qed
qed auto

lemma feeding_txs:
  "feeding h f c \<Longrightarrow> feeding h (feed_txs EB EP txs f) (add_txs EB EP h txs c) \<and> same_but h c (add_txs EB EP h txs c)"
proof (induction EB EP txs f arbitrary: c rule: feed_txs.induct)
  case (2 EB EP tx txs f)
  show ?case
  proof (cases "IsPriceFeedTx EB tx")
    case True
    have a: "feeding h (add_points (tx_regid EP tx) (tx_price_points EP tx) f)
        (snd (AddPrice h (tx_regid EP tx) (tx_price_points EP tx) c))"
      "same_but h c (snd (AddPrice h (tx_regid EP tx) (tx_price_points EP tx) c))"
      using feeding_AddPrice [OF 2(2)] by blast+
    with 2(1) [OF _ a(1)] True show ?thesis
      by (auto intro: same_but_trans)
  qed (use 2 in simp)
qed auto

text \<open>A block of a height of which no layer holds a price is fed completely.\<close>

lemma AddPriceByBlock_eq:
  fixes c :: "('p, 'w::len word, 'r) price_cache"
  assumes "\<And>p r. \<not> ExistBlockUserPrice (ucast (hd_height b)) r p c"
  shows "same_but (ucast (hd_height b)) c (snd (AddPriceByBlock EB EP b c))"
    "shows_price (snd (AddPriceByBlock EB EP b c)) p (ucast (hd_height b)) r = block_feed EB EP b p r"
proof -
  let ?h = "ucast (hd_height b) :: 'w word"
  have "here (price_points_of c) p ?h r = None" for p r
    using assms [of r p] by (cases c) (auto simp: node_Exist_here price_points_of_def split: if_splits)
  then have f: "feeding ?h (\<lambda>_ _. None) c"
    using assms by (simp add: feeding_def)
  from feeding_txs [OF f, of EB EP "drop 1 (vptx b)"] feeding_shows [OF f, of p r]
  show "same_but ?h c (snd (AddPriceByBlock EB EP b c))"
    "shows_price (snd (AddPriceByBlock EB EP b c)) p ?h r = block_feed EB EP b p r"
    by (auto simp: AddPriceByBlock_def block_feed_def feeding_shows)
qed

section \<open>Removing a block\<close>

lemma deleting_fold: "sm_find (fold (\<lambda>pp. sm_set (fst pp) ()) pps s) q \<noteq> None \<longleftrightarrow> sm_find s q \<noteq> None \<or> q \<in> fst ` set pps"
  by (induction pps arbitrary: s) auto

lemma deleting_keeps: "sm_find s p \<noteq> None \<Longrightarrow> sm_find (deleting_set EB EP txs s) p \<noteq> None"
proof (induction txs arbitrary: s)
  case (Cons tx txs)
  then show ?case
    using deleting_fold [of "tx_price_points EP tx" s p] by auto
qed simp

lemma add_points_pairs: "add_points u pps f q x \<noteq> None \<Longrightarrow> f q x \<noteq> None \<or> q \<in> fst ` set pps"
  by (induction u pps f rule: add_points.induct) (auto split: if_splits)

lemma deleting_covers:
  assumes "\<And>q x. f q x \<noteq> None \<Longrightarrow> sm_find s q \<noteq> None" and "feed_txs EB EP txs f p r \<noteq> None"
  shows "sm_find (deleting_set EB EP txs s) p \<noteq> None"
  using assms
proof (induction txs arbitrary: s f)
  case (Cons tx txs)
  show ?case
  proof (cases "IsPriceFeedTx EB tx")
    case True
    let ?s = "fold (\<lambda>pp. sm_set (fst pp) ()) (tx_price_points EP tx) s"
    have "sm_find ?s q \<noteq> None" if "add_points (tx_regid EP tx) (tx_price_points EP tx) f q x \<noteq> None" for q x
      using add_points_pairs [OF that] Cons.prems(1) deleting_fold [of "tx_price_points EP tx" s q] by blast
    from Cons.IH [OF this] Cons.prems(2) True show ?thesis by simp
  next
    case False
    with Cons.prems show ?thesis by auto
  qed
qed auto

lemma block_feed_pairs:
  "block_feed EB EP b p r \<noteq> None \<Longrightarrow> sm_find (deleting_set EB EP (drop 1 (vptx b)) sm_empty) p \<noteq> None"
  using deleting_covers [of "\<lambda>_ _. None" sm_empty EB EP "drop 1 (vptx b)" p r]
  by (auto simp: block_feed_def split: if_splits)

lemma mark_deleted:
  "entry (fold (\<lambda>(q, _ :: unit) m. sm_set q (sm_set h sm_empty (sm_at m q sm_empty)) m) xs m) p k =
     (if k = h \<and> p \<in> fst ` set xs then Some sm_empty else entry m p k)"
proof (induction xs arbitrary: m)
  case (Cons x xs)
  obtain q u where x: "x = (q, u)" by (cases x)
  have "entry (sm_set q (sm_set h sm_empty (sm_at m q sm_empty)) m) p k =
      (if k = h \<and> p = q then Some sm_empty else entry m p k)"
    by (auto simp: entry_def sm_at_def split: option.split)
  with Cons x show ?case by auto
qed simp

lemma mark_all:
  assumes "distinct (map fst xs)" and "\<And>q cbp. (q, cbp) \<in> set xs \<Longrightarrow> sm_find m q = Some cbp"
  shows "entry (fold (\<lambda>(q, cbp) m. sm_set q (sm_set h sm_empty cbp) m) xs m) p k =
     (if k = h \<and> p \<in> fst ` set xs then Some sm_empty else entry m p k)"
  using assms
proof (induction xs arbitrary: m)
  case (Cons x xs)
  obtain q cbp where x: "x = (q, cbp)" by (cases x)
  let ?m = "sm_set q (sm_set h sm_empty cbp) m"
  have q: "sm_find m q = Some cbp" "q \<notin> fst ` set xs" "distinct (map fst xs)"
    using Cons.prems x by auto
  have "sm_find ?m q' = Some cbp'" if "(q', cbp') \<in> set xs" for q' cbp'
    using that Cons.prems(2) [of q' cbp'] q(2) by (force simp: x)
  note IH = Cons.IH [OF q(3) this]
  have "entry ?m p k = (if k = h \<and> p = q then Some sm_empty else entry m p k)"
    using q(1) by (auto simp: entry_def)
  with IH q(2) x show ?case by auto
qed simp

lemma in_dom_sm_items: "p \<in> fst ` set (sm_items m) \<longleftrightarrow> sm_find m p \<noteq> None"
  by (metis map_of_eq_None_iff map_of_sm_items set_map)

lemma DeleteBlock_eq:
  fixes c :: "('p::linorder, 'w::len word, 'r) price_cache"
  assumes "deleted = snd (DeleteBlockFromCache EB EP b c)"
  shows "\<exists>m. deleted = with_price_points m c \<and>
    (\<forall>p k. k \<noteq> ucast (hd_height b) \<longrightarrow> entry m p k = entry (price_points_of c) p k) \<and>
    (\<forall>p. entry m p (ucast (hd_height b)) =
       (if sm_find (deleting_set EB EP (drop 1 (vptx b)) sm_empty) p \<noteq> None \<or> sm_find (price_points_of c) p \<noteq> None
        then Some sm_empty else None))"
proof -
  let ?D = "deleting_set EB EP (drop 1 (vptx b)) sm_empty" and ?h = "ucast (hd_height b) :: 'w word"
  define m1 where "m1 = fold (\<lambda>(q, _) m. sm_set q (sm_set ?h sm_empty (sm_at m q sm_empty)) m)
     (sm_items ?D) (price_points_of c)"
  define m2 where "m2 = fold (\<lambda>(q, cbp) m. sm_set q (sm_set ?h sm_empty cbp) m) (sm_items m1) m1"
  note dom = in_dom_sm_items
  have e1: "entry m1 p k = (if k = ?h \<and> sm_find ?D p \<noteq> None then Some sm_empty else entry (price_points_of c) p k)" for p k
    unfolding m1_def mark_deleted dom ..
  have e2: "entry m2 p k = (if k = ?h \<and> sm_find m1 p \<noteq> None then Some sm_empty else entry m1 p k)" for p k
    unfolding m2_def by (subst mark_all) (auto simp: dom in_sm_items_iff)
  have f1: "sm_find m1 p \<noteq> None \<longleftrightarrow> sm_find ?D p \<noteq> None \<or> sm_find (price_points_of c) p \<noteq> None" for p
  proof -
    have "sm_find (fold (\<lambda>(q, _ :: unit) m. sm_set q (sm_set ?h sm_empty (sm_at m q sm_empty)) m) xs m) p \<noteq> None \<longleftrightarrow>
        p \<in> fst ` set xs \<or> sm_find m p \<noteq> None" for xs and m :: "('p, 'w word, 'r) CoinPricePointMap"
    proof (induction xs arbitrary: m)
      case (Cons x xs)
      then show ?case by (cases x) auto
    qed simp
    from this [of "sm_items ?D" "price_points_of c"] show ?thesis
      unfolding m1_def dom .
  qed
  have "entry (price_points_of c) p k = None" if "sm_find (price_points_of c) p = None" for p k
    using that by (simp add: entry_def)
  then have "deleted = with_price_points m2 c \<and>
      (\<forall>p k. k \<noteq> ?h \<longrightarrow> entry m2 p k = entry (price_points_of c) p k) \<and>
      (\<forall>p. entry m2 p ?h = (if sm_find ?D p \<noteq> None \<or> sm_find (price_points_of c) p \<noteq> None then Some sm_empty else None))"
    unfolding assms DeleteBlockFromCache_def Let_def e2 e1 f1 by (auto simp: m2_def m1_def)
  then show ?thesis by blast
qed

section \<open>The layer as a write back\<close>

definition price_layer_flush ::
  "('p::linorder, 'h::linorder, 'r::linorder) price_node \<Rightarrow> ('p, 'h, 'r) price_node \<Rightarrow>
     (('p, 'h, 'r) price_node \<times> ('p, 'h, 'r) price_node) option" where
  "price_layer_flush n nb = do { c \<leftarrow> price_Flush (PcSub n (PcRoot nb)); Some (pc_node c, pc_node (pc_base c)) }"

interpretation price_layer: write_back
    "\<lambda>n nb. fresh_heights (mapCoinPricePointCache n) (mapCoinPricePointCache nb)"
    "\<lambda>n nb p. GetBlockUserPrices p (PcSub n (PcRoot nb))" "\<lambda>nb p. GetBlockUserPrices p (PcRoot nb)"
    price_layer_flush "\<lambda>n. mapCoinPricePointCache n = sm_empty"
proof
  fix n nb :: "('a, 'b, 'c) price_node"
  assume "fresh_heights (mapCoinPricePointCache n) (mapCoinPricePointCache nb)"
  from BatchWrite_root [OF this] obtain nb' where nb': "price_BatchWrite (mapCoinPricePointCache n) (PcRoot nb) = PcRoot nb'"
    "\<And>p h. pview (PcRoot nb') p h = pview (PcSub n (PcRoot nb)) p h"
    by auto
  let ?n = "n\<lparr>mapCoinPricePointCache := sm_empty\<rparr>"
  have "price_layer_flush n nb = Some (?n, nb')"
    by (simp add: price_layer_flush_def price_Flush_def nb'(1))
  moreover have "fresh_heights (mapCoinPricePointCache ?n) (mapCoinPricePointCache nb')"
    by (simp add: fresh_heights_def entry_def)
  moreover have "GetBlockUserPrices p (PcRoot nb') = GetBlockUserPrices p (PcSub n (PcRoot nb))" for p
    by (rule std_map_eqI) (simp only: GetBlockUserPrices_eq nb'(2))
  ultimately show "\<exists>n' nb'. price_layer_flush n nb = Some (n', nb') \<and>
      fresh_heights (mapCoinPricePointCache n') (mapCoinPricePointCache nb') \<and> mapCoinPricePointCache n' = sm_empty \<and>
      (\<lambda>p. GetBlockUserPrices p (PcRoot nb')) = (\<lambda>p. GetBlockUserPrices p (PcSub n (PcRoot nb)))"
    by (intro exI [of _ ?n] exI [of _ nb'] conjI ext) simp_all
next
  fix n nb :: "('a, 'b, 'c) price_node"
  assume "mapCoinPricePointCache n = sm_empty"
  then show "(\<lambda>p. GetBlockUserPrices p (PcSub n (PcRoot nb))) = (\<lambda>p. GetBlockUserPrices p (PcRoot nb))"
    by (intro ext std_map_eqI) (simp add: GetBlockUserPrices_eq entry_def)
qed

lemma price_Flush_sub:
  "price_layer_flush n nb = Some (n', nb') \<Longrightarrow> price_Flush (PcSub n (PcRoot nb)) = Some (PcSub n' (PcRoot nb'))"
  by (auto simp: price_layer_flush_def price_Flush_def price_BatchWrite_def)

text \<open>
  Claim C30: flushing a layer of price points into the lowest one leaves the prices it shows
  for every coin pair and height unchanged and makes the lowest layer show the same, when the
  layer's heights are new to it or repeat its prices; a flush without a base fails its
  assertion.
\<close>

theorem price_flush:
  assumes "fresh_heights (mapCoinPricePointCache n) (mapCoinPricePointCache nb)"
  shows "price_Flush (PcRoot nb) = None \<and>
    (\<exists>n' nb'. price_Flush (PcSub n (PcRoot nb)) = Some (PcSub n' (PcRoot nb')) \<and> mapCoinPricePointCache n' = sm_empty \<and>
      (\<forall>p. GetBlockUserPrices p (PcRoot nb') = GetBlockUserPrices p (PcSub n (PcRoot nb))) \<and>
      (\<forall>p. GetBlockUserPrices p (PcSub n' (PcRoot nb')) = GetBlockUserPrices p (PcSub n (PcRoot nb))))"
proof -
  obtain n' nb' where f: "price_layer_flush n nb = Some (n', nb')" "mapCoinPricePointCache n' = sm_empty"
    using price_layer.flush_law [OF assms] by blast
  from price_layer.flush_transparent [OF assms f(1)] price_Flush_sub [OF f(1)] f(2) show ?thesis
    by (auto simp: fun_eq_iff price_Flush_def)
qed

definition sample_price_node :: "nat \<Rightarrow> nat \<Rightarrow> nat \<Rightarrow> uint64 \<Rightarrow> (nat, nat, nat) price_node" where
  "sample_price_node p h r x = \<lparr>mapCoinPricePointCache = sm_of [(p, sm_of [(h, sm_of [(r, x)])])],
     latest_median_prices = sm_empty\<rparr>"

theorem price_flush_witness:
  "\<exists>n' nb'. price_Flush (PcSub (sample_price_node 1 6 2 50) (PcRoot (sample_price_node 1 5 2 40))) =
     Some (PcSub n' (PcRoot nb')) \<and>
     (\<forall>p. GetBlockUserPrices p (PcRoot nb') =
        GetBlockUserPrices p (PcSub (sample_price_node 1 6 2 50) (PcRoot (sample_price_node 1 5 2 40))))"
proof -
  have "fresh_heights (mapCoinPricePointCache (sample_price_node 1 6 2 50))
      (mapCoinPricePointCache (sample_price_node 1 5 2 40))"
    by (auto simp: fresh_heights_def sample_price_node_def entry_def split: option.splits if_splits)
  from price_flush [OF this] show ?thesis by blast
qed

text \<open>
  Without that condition the flush can change the prices: a layer that adds the price of a
  second user at a height hides those of the base there, and the flush unites the two.
\<close>

lemma price_flush_unites:
  fixes nb n :: "(nat, nat, nat) price_node"
  defines "nb \<equiv> sample_price_node 1 5 2 40"
  shows "\<exists>n c. snd (AddPrice 5 3 [(1, 60)] (PcSub \<lparr>mapCoinPricePointCache = sm_empty, latest_median_prices = sm_empty\<rparr>
      (PcRoot nb))) = PcSub n (PcRoot nb) \<and> price_Flush (PcSub n (PcRoot nb)) = Some c \<and>
    (\<exists>u v. pview (PcSub n (PcRoot nb)) 1 5 = Some u \<and> sm_find u 2 = None \<and>
       pview c 1 5 = Some v \<and> sm_find v 2 = Some 40 \<and> sm_find v 3 = Some 60)"
proof -
  let ?n = "sample_price_node 1 5 3 60" and ?v = "sm_of [(3, 60), (2, 40)] :: nat user_prices"
  let ?w = "\<lparr>mapCoinPricePointCache = sm_of [(1, sm_of [(5, ?v)])], latest_median_prices = sm_empty\<rparr> :: (nat, nat, nat) price_node"
  let ?e = "?n\<lparr>mapCoinPricePointCache := sm_empty\<rparr>"
  have ne: "sm_set 3 60 sm_empty \<noteq> (sm_empty :: nat user_prices)" "?v \<noteq> sm_empty"
    by (metis option.distinct(1) sm_find_empty sm_find_set) (metis map_of_Cons_code(2) option.distinct(1) sm_find_empty sm_find_sm_of)
  have add: "snd (AddPrice 5 3 [(1, 60)] (PcSub \<lparr>mapCoinPricePointCache = sm_empty, latest_median_prices = sm_empty\<rparr>
      (PcRoot nb))) = PcSub ?n (PcRoot nb)"
    by (simp add: nb_def sample_price_node_def node_ExistBlockUserPrice_def cbp_ExistBlockUserPrice_def Let_def
        AddUserPrice_def sm_at_def price_points_of_def)
  have "write_height (5, sm_set 3 60 sm_empty) (sm_set 5 (sm_set 2 40 sm_empty) sm_empty) = sm_set 5 ?v (sm_empty :: (nat, nat) BlockUserPriceMap)"
    by (simp add: write_height_def sm_items_set sm_at_def)
  then have "price_Flush (PcSub ?n (PcRoot nb)) = Some (PcSub ?e (PcRoot ?w))"
    by (simp add: price_Flush_def price_BatchWrite_def nb_def sample_price_node_def price_points_of_def sm_items_set
        write_coin_def sm_at_def)
  moreover have "pview (PcSub ?n (PcRoot nb)) 1 5 = Some (sm_set 3 60 sm_empty)"
    using ne(1) by (simp add: sample_price_node_def entry_def shown_prices_def)
  moreover have "pview (PcSub ?e (PcRoot ?w)) 1 5 = Some ?v"
    using ne(2) by (simp add: entry_def shown_prices_def)
  ultimately show ?thesis
    using add by (intro exI [of _ ?n] exI [of _ "PcSub ?e (PcRoot ?w)"]) simp
qed

end
