(* ===== verification/Price_Window.thy ===== *)
theory Price_Window
  imports Price_Laws
begin

text \<open>
  The sliding window of the price points.  A node that starts reloads the blocks of the window
  (\<open>ReleadBlocks\<close>); then it connects and disconnects blocks, each in a layer of its own that is
  flushed into the lowest layer.  After any such run the lowest layer shows, for every height
  above the genesis block, the prices of the block of the active chain at that height if it is
  in the window, and nothing otherwise.
\<close>

section \<open>The setting\<close>

text \<open>The code of other modules and the state that stays as it is: the block index, the files
  and the parameters; \<open>blk\<close> is the block stored for an index.\<close>

record ('cp, 'rid, 'h, 'tx, 'uid, 'pm, 'cord, 'p, 'r) price_setup =
  ps_sys :: "('cp, 'rid) sys_param_env"
  ps_sys_state :: "'cp sys_param_db dbstate"
  ps_block :: "('h, 'tx, 'uid, 'pm, 'cord) block_env"
  ps_price :: "('tx, 'p, 'r) price_env"
  ps_codec :: "('h, 'tx) block_codec"
  ps_fs :: file_system
  ps_map :: "'h block_map"
  ps_blk :: "'h \<Rightarrow> ('h, 'tx) IneryBlock"

definition hgt :: "'h block_map \<Rightarrow> 'h \<Rightarrow> nat" where
  "hgt M p = nat (bi_height (the (sm_find M p)))"

text \<open>The index is a tree of readable blocks, and the window parameter is set.\<close>

definition setup_ok ::
  "('cp::linorder, 'rid, 'h, 'tx, 'uid, 'pm, 'cord, 'p, 'r) price_setup \<Rightarrow> uint64 \<Rightarrow> bool" where
  "setup_ok S sw \<longleftrightarrow>
     (\<exists>s'. ReadSlideWindow (ps_sys S) (ps_price S) (ps_sys_state S) = Some (s', Some sw)) \<and>
     0 < unat sw \<and> unat sw < 2 ^ 31 \<and>
     (\<forall>p i. sm_find (ps_map S) p = Some i \<longrightarrow>
        0 \<le> bi_height i \<and> bi_height i < 2 ^ 31 \<and>
        ReadBlockFromDisk (ps_block S) (ps_codec S) i (ps_fs S) = Some (ps_blk S p) \<and>
        hd_height (ps_blk S p) = of_int (bi_height i) \<and>
        (case pprev i of
           None \<Rightarrow> bi_height i = 0
         | Some q \<Rightarrow> \<exists>j. sm_find (ps_map S) q = Some j \<and> bi_height i = bi_height j + 1))"

section \<open>The chain\<close>

text \<open>\<open>anc M t k\<close>: the index \<open>k\<close> steps before \<open>t\<close>.\<close>

fun anc :: "'h block_map \<Rightarrow> 'h \<Rightarrow> nat \<Rightarrow> 'h" where
  "anc M t 0 = t"
| "anc M t (Suc k) = (case pprev (the (sm_find M t)) of None \<Rightarrow> t | Some q \<Rightarrow> anc M q k)"

lemma index_facts:
  assumes ok: "setup_ok S sw" and p: "sm_find (ps_map S) p = Some i"
  shows "bi_height i = int (hgt (ps_map S) p)" "hgt (ps_map S) p < 2 ^ 31"
    "ReadBlockFromDisk (ps_block S) (ps_codec S) i (ps_fs S) = Some (ps_blk S p)"
    "hd_height (ps_blk S p) = of_nat (hgt (ps_map S) p)"
    "pprev i = None \<longleftrightarrow> hgt (ps_map S) p = 0"
    "pprev i = Some q \<Longrightarrow> \<exists>j. sm_find (ps_map S) q = Some j \<and> hgt (ps_map S) p = Suc (hgt (ps_map S) q)"
proof -
  have a: "0 \<le> bi_height i" "bi_height i < 2 ^ 31"
    "ReadBlockFromDisk (ps_block S) (ps_codec S) i (ps_fs S) = Some (ps_blk S p)"
    "hd_height (ps_blk S p) = of_int (bi_height i)"
    "case pprev i of None \<Rightarrow> bi_height i = 0
       | Some q \<Rightarrow> \<exists>j. sm_find (ps_map S) q = Some j \<and> bi_height i = bi_height j + 1"
    using ok p unfolding setup_ok_def by blast+
  have pos: "0 \<le> bi_height j" if "sm_find (ps_map S) q = Some j" for q j
    using ok that unfolding setup_ok_def by blast
  show h: "bi_height i = int (hgt (ps_map S) p)"
    using a(1) p by (simp add: hgt_def)
  show "hgt (ps_map S) p < 2 ^ 31"
    using a(1,2) p by (simp add: hgt_def)
  show "ReadBlockFromDisk (ps_block S) (ps_codec S) i (ps_fs S) = Some (ps_blk S p)"
    by (rule a(3))
  show "hd_height (ps_blk S p) = of_nat (hgt (ps_map S) p)"
    using a(4) h by simp
  show "pprev i = None \<longleftrightarrow> hgt (ps_map S) p = 0"
    using a(5) h by (cases "pprev i") (auto dest!: pos)
  show "\<exists>j. sm_find (ps_map S) q = Some j \<and> hgt (ps_map S) p = Suc (hgt (ps_map S) q)" if "pprev i = Some q"
  proof -
    obtain j where j: "sm_find (ps_map S) q = Some j" "bi_height i = bi_height j + 1"
      using a(5) \<open>pprev i = Some q\<close> by auto
    have "nat (bi_height j + 1) = Suc (nat (bi_height j))"
      using pos [OF j(1)] by simp
    with j p show ?thesis by (simp add: hgt_def)
  qed
qed

lemma anc_facts:
  assumes ok: "setup_ok S sw" and "sm_find (ps_map S) t = Some i" and "k \<le> hgt (ps_map S) t"
  shows "\<exists>j. sm_find (ps_map S) (anc (ps_map S) t k) = Some j" "hgt (ps_map S) (anc (ps_map S) t k) = hgt (ps_map S) t - k"
    "walk_back (ps_map S) k (Some t) = Some (Some (anc (ps_map S) t k))"
proof -
  have "(\<exists>j. sm_find (ps_map S) (anc (ps_map S) t k) = Some j) \<and> hgt (ps_map S) (anc (ps_map S) t k) = hgt (ps_map S) t - k \<and>
      walk_back (ps_map S) k (Some t) = Some (Some (anc (ps_map S) t k))"
    using assms(2,3)
  proof (induction k arbitrary: t i)
    case (Suc k)
    then obtain q where q: "pprev i = Some q"
      using index_facts(5) [OF ok Suc.prems(1)] by (cases "pprev i") auto
    obtain j where j: "sm_find (ps_map S) q = Some j" "hgt (ps_map S) t = Suc (hgt (ps_map S) q)"
      using index_facts(6) [OF ok Suc.prems(1) q] by blast
    with Suc.IH [OF j(1)] Suc.prems q show ?case by simp
  qed simp
  then show "\<exists>j. sm_find (ps_map S) (anc (ps_map S) t k) = Some j"
    "hgt (ps_map S) (anc (ps_map S) t k) = hgt (ps_map S) t - k"
    "walk_back (ps_map S) k (Some t) = Some (Some (anc (ps_map S) t k))"
    by blast+
qed

section \<open>Heights as words\<close>

lemma unat_height:
  assumes "31 \<le> LENGTH('w::len)" and "k < 2 ^ 31"
  shows "unat (of_nat k :: 'w word) = k"
proof -
  have "(2::nat) ^ 31 \<le> 2 ^ LENGTH('w)"
    using assms(1) by (rule power_increasing) simp
  then show ?thesis
    using assms(2) by (simp add: unat_of_nat take_bit_nat_eq_self)
qed

lemma unat_ucast_height:
  fixes x :: "'v::len word"
  assumes "31 \<le> LENGTH('w::len)" and "unat x < 2 ^ 31"
  shows "unat (ucast x :: 'w word) = unat x"
proof -
  have "(2::nat) ^ 31 \<le> 2 ^ LENGTH('w)"
    using assms(1) by (rule power_increasing) simp
  with assms(2) have "unat x < 2 ^ LENGTH('w)"
    by (rule less_le_trans)
  then show ?thesis
    by (simp add: unsigned_ucast_eq take_bit_nat_eq_self)
qed

lemma ucast_height:
  fixes x :: "'v::len word"
  assumes "31 \<le> LENGTH('w::len)" and "unat x < 2 ^ 31"
  shows "(ucast x :: 'w word) = of_nat (unat x)"
  using assms by (simp add: word_unat_eq_iff unat_ucast_height unat_height)

lemma window_steps_eq:
  assumes "unat sw < 2 ^ 31"
  shows "window_steps sw = unat sw"
proof -
  let ?w = "ucast sw :: 32 word"
  have u: "unat ?w = unat sw"
    using assms by (intro unat_ucast_height) simp_all
  have "sint ?w = int (unat sw)"
  proof -
    have "uint ?w = int (unat sw)"
      using u by (metis uint_nat)
    then have "sint ?w = signed_take_bit 31 (int (unat sw))"
      by (simp add: sint_uint)
    also have "\<dots> = int (unat sw)"
    proof (rule signed_take_bit_int_eq_self)
      show "- (2 ^ 31) \<le> int (unat sw)"
        by (rule order_trans [OF _ of_nat_0_le_iff]) simp
      show "int (unat sw) < 2 ^ 31"
        using assms by (metis of_nat_less_iff of_nat_numeral of_nat_power)
    qed
    finally show ?thesis .
  qed
  then show ?thesis by (simp add: window_steps_def)
qed

section \<open>Connecting and disconnecting\<close>

definition fresh_layer :: "('p, 'h, 'r) price_node \<Rightarrow> ('p, 'h, 'r) price_cache" where
  "fresh_layer n = PcSub \<lparr>mapCoinPricePointCache = sm_empty, latest_median_prices = sm_empty\<rparr> (PcRoot n)"

definition flush_root ::
  "('p::linorder, 'h::linorder, 'r::linorder) price_cache \<Rightarrow> ('p, 'h, 'r) price_node option" where
  "flush_root c =
     do { c' \<leftarrow> price_Flush c; case c' of PcSub _ (PcRoot n) \<Rightarrow> Some n | _ \<Rightarrow> None }"

definition connect_block ::
  "('cp::linorder, 'rid, 'h, 'tx, 'uid, 'pm, 'cord, 'p::linorder, 'r::linorder) price_setup \<Rightarrow> 'h \<Rightarrow>
     ('p, 'w::len word, 'r) price_node \<Rightarrow> ('p, 'w word, 'r) price_node option" where
  "connect_block S t n =
     do { (ok, s, c) \<leftarrow> PushBlock (ps_sys S) (ps_block S) (ps_price S) (ps_codec S) (ps_fs S) (ps_map S) t
            (ps_sys_state S, snd (AddPriceByBlock (ps_block S) (ps_price S) (ps_blk S t) (fresh_layer n)));
          if ok then flush_root c else None }"

definition disconnect_block ::
  "('cp::linorder, 'rid, 'h, 'tx, 'uid, 'pm, 'cord, 'p::linorder, 'r::linorder) price_setup \<Rightarrow> 'h \<Rightarrow>
     ('p, 'w::len word, 'r) price_node \<Rightarrow> ('p, 'w word, 'r) price_node option" where
  "disconnect_block S t n =
     do { (ok, s, c) \<leftarrow> UndoBlock (ps_sys S) (ps_block S) (ps_price S) (ps_codec S) (ps_fs S) (ps_map S) t
            (ps_blk S t) (ps_sys_state S, fresh_layer n);
          if ok then flush_root c else None }"

text \<open>What the lowest layer shows when the tip is \<open>t\<close>.\<close>

definition window_feed ::
  "('cp::linorder, 'rid, 'h, 'tx, 'uid, 'pm, 'cord, 'p, 'r) price_setup \<Rightarrow> nat \<Rightarrow> 'h \<Rightarrow> 'p \<Rightarrow> nat \<Rightarrow> 'r \<Rightarrow> uint64 option" where
  "window_feed S sw t p h r =
     (if h \<le> hgt (ps_map S) t \<and> hgt (ps_map S) t < h + sw
      then block_feed (ps_block S) (ps_price S) (ps_blk S (anc (ps_map S) t (hgt (ps_map S) t - h))) p r
      else None)"

definition window_ok ::
  "('cp::linorder, 'rid, 'h, 'tx, 'uid, 'pm, 'cord, 'p, 'r) price_setup \<Rightarrow> nat \<Rightarrow> 'h \<Rightarrow> ('p, 'w::len word, 'r) price_node \<Rightarrow> bool" where
  "window_ok S sw t n \<longleftrightarrow>
     (\<forall>p h r. h \<noteq> 0 \<longrightarrow> shows_price (PcRoot n) p h r = window_feed S sw t p (unat h) r)"

lemma flush_root_ok:
  assumes "\<And>p h r r'. here (mapCoinPricePointCache nl) p h r \<noteq> None \<Longrightarrow> shows_price (PcRoot n) p h r' = None"
  shows "\<exists>n'. flush_root (PcSub nl (PcRoot n)) = Some n' \<and>
    (\<forall>p h r. shows_price (PcRoot n') p h r = shows_price (PcSub nl (PcRoot n)) p h r)"
proof -
  have "fresh_heights (mapCoinPricePointCache nl) (mapCoinPricePointCache n)"
    unfolding fresh_heights_def
  proof (intro allI impI)
    fix p h u w r x
    assume e: "entry (mapCoinPricePointCache nl) p h = Some u" "u \<noteq> sm_empty"
      "entry (mapCoinPricePointCache n) p h = Some w" "sm_find w r = Some x"
    obtain r' where "sm_find u r' \<noteq> None"
      using e(2) std_map_eqI [of u sm_empty] sm_find_empty by metis
    then have "shows_price (PcRoot n) p h r = None"
      using e(1) by (intro assms [of p h r']) (simp add: here_def)
    with e(3,4) show "sm_find u r = Some x"
      by (simp add: shows_price_root here_def)
  qed
  from BatchWrite_root [OF this] obtain n' where n': "price_BatchWrite (mapCoinPricePointCache nl) (PcRoot n) = PcRoot n'"
    "\<And>p h. pview (PcRoot n') p h = pview (PcSub nl (PcRoot n)) p h"
    by auto
  then have "flush_root (PcSub nl (PcRoot n)) = Some n'"
    by (simp add: flush_root_def price_Flush_def)
  with n'(2) show ?thesis
    by (auto simp: shows_price_def simp del: pview.simps)
qed

text \<open>Layers over the lowest one: what is added and removed stays in the layer.\<close>

definition layer_over :: "('p, 'h, 'r) CoinPricePointMap \<Rightarrow> ('p, 'h, 'r) price_node \<Rightarrow> ('p, 'h, 'r) price_cache" where
  "layer_over m n = PcSub \<lparr>mapCoinPricePointCache = m, latest_median_prices = sm_empty\<rparr> (PcRoot n)"

lemma layer_over_shows:
  "shows_price (layer_over m n) p h r =
     (case entry m p h of None \<Rightarrow> shows_price (PcRoot n) p h r | Some u \<Rightarrow> sm_find u r)"
  by (simp add: layer_over_def shows_price_sub)

lemma layer_over_Exist:
  "ExistBlockUserPrice h r p (layer_over m n) \<longleftrightarrow> here m p h r \<noteq> None \<or> shows_price (PcRoot n) p h r \<noteq> None"
  by (simp add: layer_over_def node_Exist_here shows_price_root)

lemma layer_add:
  fixes n :: "('p, 'w::len word, 'r) price_node"
  assumes "h = ucast (hd_height b)" and "\<And>p r. here m p h r = None" and "\<And>p r. shows_price (PcRoot n) p h r = None"
  shows "\<exists>m'. snd (AddPriceByBlock EB EP b (layer_over m n)) = layer_over m' n \<and>
    (\<forall>p k. k \<noteq> h \<longrightarrow> entry m' p k = entry m p k) \<and>
    (\<forall>p r. shows_price (layer_over m' n) p h r = block_feed EB EP b p r)"
proof -
  have "\<not> ExistBlockUserPrice h r p (layer_over m n)" for r p
    using assms(2,3) by (simp add: layer_over_Exist)
  note add = AddPriceByBlock_eq [of b "layer_over m n", folded assms(1), OF this, of EB EP]
  obtain m' where "snd (AddPriceByBlock EB EP b (layer_over m n)) = with_price_points m' (layer_over m n)"
    "\<forall>p k. k \<noteq> h \<longrightarrow> entry m' p k = entry (price_points_of (layer_over m n)) p k"
    using add(1) unfolding same_but_def by blast
  then have "snd (AddPriceByBlock EB EP b (layer_over m n)) = layer_over m' n"
    "\<forall>p k. k \<noteq> h \<longrightarrow> entry m' p k = entry m p k"
    by (simp_all add: layer_over_def price_points_of_def)
  with add(2) show ?thesis
    by (intro exI [of _ m']) simp
qed

lemma layer_delete:
  fixes n :: "('p::linorder, 'w::len word, 'r) price_node"
  assumes "h = ucast (hd_height b)"
    and "\<And>p r. shows_price (PcRoot n) p h r = block_feed EB EP b p r"
  shows "\<exists>m'. snd (DeleteBlockFromCache EB EP b (layer_over m n)) = layer_over m' n \<and>
    (\<forall>p k. k \<noteq> h \<longrightarrow> entry m' p k = entry m p k) \<and>
    (\<forall>p r. here m' p h r = None \<and> shows_price (layer_over m' n) p h r = None)"
proof -
  obtain m' where m': "snd (DeleteBlockFromCache EB EP b (layer_over m n)) = with_price_points m' (layer_over m n)"
    "\<forall>p k. k \<noteq> h \<longrightarrow> entry m' p k = entry m p k"
    "\<forall>p. entry m' p h = (if sm_find (deleting_set EB EP (drop 1 (vptx b)) sm_empty) p \<noteq> None \<or> sm_find m p \<noteq> None
        then Some sm_empty else None)"
    using DeleteBlock_eq [of _ EB EP b "layer_over m n", OF refl, folded assms(1)]
    by (auto simp: layer_over_def price_points_of_def)
  have "here m' p h r = None \<and> shows_price (layer_over m' n) p h r = None" for p r
  proof (cases "entry m' p h")
    case None
    then have "sm_find (deleting_set EB EP (drop 1 (vptx b)) sm_empty) p = None"
      using m'(3) by (metis option.distinct(1))
    then have "block_feed EB EP b p r = None"
      using block_feed_pairs by metis
    with None assms(2) show ?thesis by (simp add: here_def layer_over_shows)
  next
    case (Some u)
    then have "u = sm_empty"
      using m'(3) by (metis option.distinct(1) option.inject)
    with Some show ?thesis by (simp add: here_def layer_over_shows)
  qed
  moreover have "snd (DeleteBlockFromCache EB EP b (layer_over m n)) = layer_over m' n"
    using m'(1) by (simp add: layer_over_def)
  ultimately show ?thesis
    using m'(2) by blast
qed

lemma layer_flush:
  assumes "\<And>p h r r'. here m p h r \<noteq> None \<Longrightarrow> shows_price (PcRoot n) p h r' = None"
  shows "\<exists>n'. flush_root (layer_over m n) = Some n' \<and>
    (\<forall>p h r. shows_price (PcRoot n') p h r = shows_price (layer_over m n) p h r)"
  using flush_root_ok [of "\<lparr>mapCoinPricePointCache = m, latest_median_prices = sm_empty\<rparr>" n] assms
  by (simp add: layer_over_def)

section \<open>The window moves with the tip\<close>

lemma tip_guard:
  assumes ok: "setup_ok S sw" and t: "sm_find (ps_map S) t = Some i" and w: "31 \<le> LENGTH('w::len)"
  shows "(of_int (bi_height i) :: 'w word) > ucast sw \<longleftrightarrow> unat sw < hgt (ps_map S) t"
proof -
  have "unat sw < 2 ^ 31"
    using ok by (simp add: setup_ok_def)
  then have "unat (ucast sw :: 'w word) = unat sw"
    by (rule unat_ucast_height [OF w])
  moreover have "unat (of_int (bi_height i) :: 'w word) = hgt (ps_map S) t"
    using index_facts(1,2) [OF ok t] unat_height [OF w] by simp
  ultimately show ?thesis
    by (simp add: word_less_nat_alt)
qed

lemma PushBlock_eq:
  fixes c :: "('p::linorder, 'w::len word, 'r::linorder) price_cache"
  assumes ok: "setup_ok S sw" and t: "sm_find (ps_map S) t = Some i" and w: "31 \<le> LENGTH('w)"
  shows "\<exists>s'. PushBlock (ps_sys S) (ps_block S) (ps_price S) (ps_codec S) (ps_fs S) (ps_map S) t (ps_sys_state S, c) =
    Some (True, s', if unat sw < hgt (ps_map S) t
      then snd (DeleteBlockFromCache (ps_block S) (ps_price S) (ps_blk S (anc (ps_map S) t (unat sw))) c) else c)"
proof -
  obtain s' where s': "ReadSlideWindow (ps_sys S) (ps_price S) (ps_sys_state S) = Some (s', Some sw)"
    using ok by (auto simp: setup_ok_def)
  have steps: "window_steps sw = unat sw"
    using ok by (intro window_steps_eq) (simp add: setup_ok_def)
  show ?thesis
  proof (cases "unat sw < hgt (ps_map S) t")
    case False
    with s' tip_guard [OF ok t w] t show ?thesis
      by (simp add: PushBlock_def)
  next
    case True
    then have le: "unat sw \<le> hgt (ps_map S) t" by simp
    obtain j where j: "sm_find (ps_map S) (anc (ps_map S) t (unat sw)) = Some j"
      using anc_facts(1) [OF ok t le] by blast
    show ?thesis
      using s' tip_guard [OF ok t w] t True anc_facts(3) [OF ok t le] j index_facts(3) [OF ok j]
      by (simp add: PushBlock_def steps)
  qed
qed

lemma UndoBlock_eq:
  fixes c :: "('p::linorder, 'w::len word, 'r::linorder) price_cache"
  assumes ok: "setup_ok S sw" and t: "sm_find (ps_map S) t = Some i" and w: "31 \<le> LENGTH('w)"
  shows "\<exists>s'. UndoBlock (ps_sys S) (ps_block S) (ps_price S) (ps_codec S) (ps_fs S) (ps_map S) t (ps_blk S t) (ps_sys_state S, c) =
    Some (True, s', let c1 = snd (DeleteBlockFromCache (ps_block S) (ps_price S) (ps_blk S t) c) in
      if unat sw < hgt (ps_map S) t
      then snd (AddPriceByBlock (ps_block S) (ps_price S) (ps_blk S (anc (ps_map S) t (unat sw))) c1) else c1)"
proof -
  obtain s' where s': "ReadSlideWindow (ps_sys S) (ps_price S) (ps_sys_state S) = Some (s', Some sw)"
    using ok by (auto simp: setup_ok_def)
  have steps: "window_steps sw = unat sw"
    using ok by (intro window_steps_eq) (simp add: setup_ok_def)
  show ?thesis
  proof (cases "unat sw < hgt (ps_map S) t")
    case False
    with s' tip_guard [OF ok t w] t show ?thesis
      by (simp add: UndoBlock_def Let_def)
  next
    case True
    then have le: "unat sw \<le> hgt (ps_map S) t" by simp
    obtain j where j: "sm_find (ps_map S) (anc (ps_map S) t (unat sw)) = Some j"
      using anc_facts(1) [OF ok t le] by blast
    show ?thesis
      using s' tip_guard [OF ok t w] t True anc_facts(3) [OF ok t le] j index_facts(3) [OF ok j]
      by (simp add: UndoBlock_def steps Let_def)
  qed
qed

text \<open>The windows of a tip and of its predecessor differ at the two ends.\<close>

lemma window_step:
  assumes ok: "setup_ok S sw" and t: "sm_find (ps_map S) t' = Some i'" "pprev i' = Some t" and k: "k \<noteq> 0"
  shows "window_feed S (unat sw) t' p k r =
    (if k = hgt (ps_map S) t' then block_feed (ps_block S) (ps_price S) (ps_blk S t') p r
     else if unat sw < hgt (ps_map S) t' \<and> k = hgt (ps_map S) t' - unat sw then None
     else window_feed S (unat sw) t p k r)"
    and "unat sw < hgt (ps_map S) t' \<Longrightarrow> window_feed S (unat sw) t p (hgt (ps_map S) t' - unat sw) r =
      block_feed (ps_block S) (ps_price S) (ps_blk S (anc (ps_map S) t' (unat sw))) p r"
    and "window_feed S (unat sw) t p (hgt (ps_map S) t') r = None"
proof -
  have H: "hgt (ps_map S) t' = Suc (hgt (ps_map S) t)"
    using index_facts(6) [OF ok t] by blast
  have sw: "0 < unat sw"
    using ok by (simp add: setup_ok_def)
  have a: "anc (ps_map S) t' (Suc d) = anc (ps_map S) t d" for d
    using t by simp
  show "window_feed S (unat sw) t p (hgt (ps_map S) t') r = None"
    by (simp add: window_feed_def H)
  show "window_feed S (unat sw) t p (hgt (ps_map S) t' - unat sw) r =
      block_feed (ps_block S) (ps_price S) (ps_blk S (anc (ps_map S) t' (unat sw))) p r"
    if lt: "unat sw < hgt (ps_map S) t'"
  proof -
    obtain d where d: "unat sw = Suc d"
      using sw by (cases "unat sw") auto
    with lt H have "hgt (ps_map S) t - (hgt (ps_map S) t' - unat sw) = d"
      "hgt (ps_map S) t' - unat sw \<le> hgt (ps_map S) t" "hgt (ps_map S) t < hgt (ps_map S) t' - unat sw + unat sw"
      by auto
    then show ?thesis
      unfolding window_feed_def d a by simp
  qed
  show "window_feed S (unat sw) t' p k r =
    (if k = hgt (ps_map S) t' then block_feed (ps_block S) (ps_price S) (ps_blk S t') p r
     else if unat sw < hgt (ps_map S) t' \<and> k = hgt (ps_map S) t' - unat sw then None
     else window_feed S (unat sw) t p k r)"
  proof (cases "k \<le> hgt (ps_map S) t")
    case False
    with H sw show ?thesis by (auto simp: window_feed_def)
  next
    case True
    then have d: "hgt (ps_map S) t' - k = Suc (hgt (ps_map S) t - k)" "k \<noteq> hgt (ps_map S) t'"
      using H by auto
    show ?thesis
      unfolding window_feed_def d(1) a using True k d(2) H by auto
  qed
qed

lemma connect_ok:
  fixes n :: "('p::linorder, 'w::len word, 'r::linorder) price_node"
  assumes ok: "setup_ok S sw" and t: "sm_find (ps_map S) t' = Some i'" "pprev i' = Some t"
    and w: "31 \<le> LENGTH('w)" and win: "window_ok S (unat sw) t n"
  shows "\<exists>n'. connect_block S t' n = Some n' \<and> window_ok S (unat sw) t' n'"
proof -
  let ?H = "hgt (ps_map S) t'" and ?EB = "ps_block S" and ?EP = "ps_price S"
  let ?hw = "of_nat ?H :: 'w word"
  have root: "shows_price (PcRoot n) p h r = window_feed S (unat sw) t p (unat h) r" if "h \<noteq> 0" for p h r
    using win that by (simp add: window_ok_def)
  have H: "unat ?hw = ?H" "?H \<noteq> 0" "ucast (hd_height (ps_blk S t')) = ?hw"
  proof -
    show u: "unat ?hw = ?H"
      using index_facts(2) [OF ok t(1)] by (rule unat_height [OF w])
    show "?H \<noteq> 0"
      using index_facts(5) [OF ok t(1)] t(2) by simp
    have "unat (of_nat ?H :: 32 word) = ?H"
      using index_facts(2) [OF ok t(1)] by (intro unat_height) simp_all
    then show "ucast (hd_height (ps_blk S t')) = ?hw"
      using index_facts(2,4) [OF ok t(1)] by (simp add: ucast_height [OF w])
  qed
  then have hw0: "?hw \<noteq> 0" by (metis unat_0)
  have none: "shows_price (PcRoot n) p ?hw r = None" for p r
    using window_step(3) [OF ok t H(2)] root [OF hw0] H(1) by simp
  obtain m1 where m1: "snd (AddPriceByBlock ?EB ?EP (ps_blk S t') (layer_over sm_empty n)) = layer_over m1 n"
    "\<And>p k. k \<noteq> ?hw \<Longrightarrow> entry m1 p k = None"
    "\<And>p r. shows_price (layer_over m1 n) p ?hw r = block_feed ?EB ?EP (ps_blk S t') p r"
    using layer_add [of ?hw "ps_blk S t'" sm_empty n ?EB ?EP] H(3) none by (auto simp: here_def entry_def)
  define q where "q = anc (ps_map S) t' (unat sw)"
  let ?dw = "of_nat (?H - unat sw) :: 'w word"
  have "\<exists>m2. (if unat sw < ?H then snd (DeleteBlockFromCache ?EB ?EP (ps_blk S q) (layer_over m1 n)) else layer_over m1 n) =
      layer_over m2 n \<and> (\<forall>p k. k \<noteq> ?hw \<longrightarrow> (\<forall>r. here m2 p k r = None)) \<and>
      (\<forall>p h r. h \<noteq> 0 \<longrightarrow> shows_price (layer_over m2 n) p h r = window_feed S (unat sw) t' p (unat h) r)"
  proof (cases "unat sw < ?H")
    case False
    have "shows_price (layer_over m1 n) p h r = window_feed S (unat sw) t' p (unat h) r" if "h \<noteq> 0" for p h r
    proof -
      have "unat h \<noteq> 0" using that by (simp add: unat_eq_0)
      note step = window_step(1) [OF ok t this]
      show ?thesis
      proof (cases "h = ?hw")
        case True
        then show ?thesis using step H(1) m1(3) by simp
      next
        case h: False
        then have "unat h \<noteq> ?H" using H(1) by (metis word_unat_eq_iff)
        with h False show ?thesis
          using step m1(2) root [OF that] by (simp add: layer_over_shows)
      qed
    qed
    with False m1(2) show ?thesis
      by (intro exI [of _ m1]) (simp add: here_def)
  next
    case True
    have le: "unat sw \<le> ?H" using True by simp
    obtain j where j: "sm_find (ps_map S) q = Some j"
      using anc_facts(1) [OF ok t(1) le] by (auto simp: q_def)
    have D: "hgt (ps_map S) q = ?H - unat sw"
      using anc_facts(2) [OF ok t(1) le] by (simp add: q_def)
    have dw: "unat ?dw = ?H - unat sw" "?dw \<noteq> 0" "?dw \<noteq> ?hw" "ucast (hd_height (ps_blk S q)) = ?dw"
    proof -
      show u: "unat ?dw = ?H - unat sw"
        using index_facts(2) [OF ok j] D by (intro unat_height [OF w]) simp
      then show "?dw \<noteq> 0" using True by (metis unat_0 zero_less_diff less_numeral_extra(3))
      have "0 < unat sw" using ok by (simp add: setup_ok_def)
      then show "?dw \<noteq> ?hw" using u H(1) True by (metis diff_less less_irrefl less_trans)
      have "unat (of_nat (?H - unat sw) :: 32 word) = ?H - unat sw"
        using index_facts(2) [OF ok j] D by (intro unat_height) simp_all
      then show "ucast (hd_height (ps_blk S q)) = ?dw"
        using index_facts(2,4) [OF ok j] D by (simp add: ucast_height [OF w])
    qed
    have old: "shows_price (PcRoot n) p ?dw r = block_feed ?EB ?EP (ps_blk S q) p r" for p r
      using root [OF dw(2)] window_step(2) [OF ok t H(2) True] dw(1) by (simp add: q_def)
    obtain m2 where m2: "snd (DeleteBlockFromCache ?EB ?EP (ps_blk S q) (layer_over m1 n)) = layer_over m2 n"
      "\<And>p k. k \<noteq> ?dw \<Longrightarrow> entry m2 p k = entry m1 p k"
      "\<And>p r. here m2 p ?dw r = None" "\<And>p r. shows_price (layer_over m2 n) p ?dw r = None"
      using layer_delete [of ?dw "ps_blk S q" n ?EB ?EP m1] dw(4) old by metis
    have "shows_price (layer_over m2 n) p h r = window_feed S (unat sw) t' p (unat h) r" if "h \<noteq> 0" for p h r
    proof -
      have "unat h \<noteq> 0" using that by (simp add: unat_eq_0)
      note step = window_step(1) [OF ok t this]
      have same: "shows_price (layer_over m2 n) p h r = shows_price (layer_over m1 n) p h r" if "h \<noteq> ?dw"
        using m2(2) [OF that] by (simp add: layer_over_shows)
      show ?thesis
      proof (cases "h = ?hw")
        case True
        then show ?thesis using step H(1) m1(3) same dw(3) by simp
      next
        case h: False
        then have ne: "unat h \<noteq> ?H" using H(1) by (metis word_unat_eq_iff)
        show ?thesis
        proof (cases "h = ?dw")
          case True
          then show ?thesis using step ne dw(1) m2(4) \<open>unat sw < ?H\<close> by simp
        next
          case False
          then have "unat h \<noteq> ?H - unat sw" using dw(1) by (metis word_unat_eq_iff)
          then show ?thesis
            using step ne same [OF False] m1(2) [OF h] root [OF that] by (simp add: layer_over_shows)
        qed
      qed
    qed
    moreover have "here m2 p k r = None" if "k \<noteq> ?hw" for p k r
      using m2(2) [of k p] m2(3) m1(2) [OF that] by (cases "k = ?dw") (auto simp: here_def)
    ultimately show ?thesis
      using True m2(1) by (intro exI [of _ m2]) simp
  qed
  then obtain m2 where m2: "(if unat sw < ?H then snd (DeleteBlockFromCache ?EB ?EP (ps_blk S q) (layer_over m1 n))
      else layer_over m1 n) = layer_over m2 n" "\<And>p k r. k \<noteq> ?hw \<Longrightarrow> here m2 p k r = None"
    "\<And>p h r. h \<noteq> 0 \<Longrightarrow> shows_price (layer_over m2 n) p h r = window_feed S (unat sw) t' p (unat h) r"
    by blast
  have "here m2 p h r \<noteq> None \<Longrightarrow> shows_price (PcRoot n) p h r' = None" for p h r r'
    using m2(2) none by metis
  then obtain n' where n': "flush_root (layer_over m2 n) = Some n'"
    "\<And>p h r. shows_price (PcRoot n') p h r = shows_price (layer_over m2 n) p h r"
    using layer_flush [of m2 n] by metis
  have "fresh_layer n = layer_over sm_empty n"
    by (simp add: fresh_layer_def layer_over_def)
  then have "connect_block S t' n = Some n'"
    using PushBlock_eq [OF ok t(1) w, of "layer_over m1 n"] m1(1) m2(1) n'(1)
    by (auto simp: connect_block_def q_def)
  moreover have "window_ok S (unat sw) t' n'"
    unfolding window_ok_def n'(2) using m2(3) by blast
  ultimately show ?thesis by blast
qed

lemma disconnect_ok:
  fixes n :: "('p::linorder, 'w::len word, 'r::linorder) price_node"
  assumes ok: "setup_ok S sw" and t: "sm_find (ps_map S) t' = Some i'" "pprev i' = Some t"
    and w: "31 \<le> LENGTH('w)" and win: "window_ok S (unat sw) t' n"
  shows "\<exists>n'. disconnect_block S t' n = Some n' \<and> window_ok S (unat sw) t n'"
proof -
  let ?H = "hgt (ps_map S) t'" and ?EB = "ps_block S" and ?EP = "ps_price S"
  let ?hw = "of_nat ?H :: 'w word"
  have root: "shows_price (PcRoot n) p h r = window_feed S (unat sw) t' p (unat h) r" if "h \<noteq> 0" for p h r
    using win that by (simp add: window_ok_def)
  have sw: "0 < unat sw"
    using ok by (simp add: setup_ok_def)
  have H: "unat ?hw = ?H" "?H \<noteq> 0" "ucast (hd_height (ps_blk S t')) = ?hw"
  proof -
    show "unat ?hw = ?H"
      using index_facts(2) [OF ok t(1)] by (rule unat_height [OF w])
    show "?H \<noteq> 0"
      using index_facts(5) [OF ok t(1)] t(2) by simp
    have "unat (of_nat ?H :: 32 word) = ?H"
      using index_facts(2) [OF ok t(1)] by (intro unat_height) simp_all
    then show "ucast (hd_height (ps_blk S t')) = ?hw"
      using index_facts(2,4) [OF ok t(1)] by (simp add: ucast_height [OF w])
  qed
  then have hw0: "?hw \<noteq> 0" by (metis unat_0)
  have tip: "shows_price (PcRoot n) p ?hw r = block_feed ?EB ?EP (ps_blk S t') p r" for p r
    using root [OF hw0] window_step(1) [OF ok t H(2)] H(1) by simp
  obtain m1 where m1: "snd (DeleteBlockFromCache ?EB ?EP (ps_blk S t') (layer_over sm_empty n)) = layer_over m1 n"
    "\<And>p k. k \<noteq> ?hw \<Longrightarrow> entry m1 p k = None" "\<And>p r. here m1 p ?hw r = None"
    "\<And>p r. shows_price (layer_over m1 n) p ?hw r = None"
    using layer_delete [of ?hw "ps_blk S t'" n ?EB ?EP sm_empty] H(3) tip by (auto simp: entry_def)
  define q where "q = anc (ps_map S) t' (unat sw)"
  let ?dw = "of_nat (?H - unat sw) :: 'w word"
  have "\<exists>m2. (if unat sw < ?H then snd (AddPriceByBlock ?EB ?EP (ps_blk S q) (layer_over m1 n)) else layer_over m1 n) =
      layer_over m2 n \<and> (\<forall>p h r r'. here m2 p h r \<noteq> None \<longrightarrow> shows_price (PcRoot n) p h r' = None) \<and>
      (\<forall>p h r. h \<noteq> 0 \<longrightarrow> shows_price (layer_over m2 n) p h r = window_feed S (unat sw) t p (unat h) r)"
  proof (cases "unat sw < ?H")
    case False
    have "shows_price (layer_over m1 n) p h r = window_feed S (unat sw) t p (unat h) r" if "h \<noteq> 0" for p h r
    proof (cases "h = ?hw")
      case True
      then show ?thesis using window_step(3) [OF ok t H(2)] H(1) m1(4) by simp
    next
      case h: False
      then have "unat h \<noteq> ?H" "unat h \<noteq> 0"
        using H(1) that by (metis word_unat_eq_iff) (simp add: that unat_eq_0)
      with h False show ?thesis
        using window_step(1) [OF ok t, of "unat h" p r] m1(2) root [OF that] by (simp add: layer_over_shows)
    qed
    moreover have "here m1 p h r = None" for p h r
      using m1(2,3) by (cases "h = ?hw") (auto simp: here_def)
    ultimately show ?thesis
      using False by (intro exI [of _ m1]) simp
  next
    case True
    have le: "unat sw \<le> ?H" using True by simp
    obtain j where j: "sm_find (ps_map S) q = Some j"
      using anc_facts(1) [OF ok t(1) le] by (auto simp: q_def)
    have D: "hgt (ps_map S) q = ?H - unat sw"
      using anc_facts(2) [OF ok t(1) le] by (simp add: q_def)
    have dw: "unat ?dw = ?H - unat sw" "?dw \<noteq> 0" "?dw \<noteq> ?hw" "ucast (hd_height (ps_blk S q)) = ?dw"
    proof -
      show u: "unat ?dw = ?H - unat sw"
        using index_facts(2) [OF ok j] D by (intro unat_height [OF w]) simp
      then show "?dw \<noteq> 0" using True by (metis unat_0 zero_less_diff less_numeral_extra(3))
      show "?dw \<noteq> ?hw" using u H(1) True sw by (metis diff_less less_irrefl less_trans)
      have "unat (of_nat (?H - unat sw) :: 32 word) = ?H - unat sw"
        using index_facts(2) [OF ok j] D by (intro unat_height) simp_all
      then show "ucast (hd_height (ps_blk S q)) = ?dw"
        using index_facts(2,4) [OF ok j] D by (simp add: ucast_height [OF w])
    qed
    have none: "shows_price (PcRoot n) p ?dw r = None" for p r
      using root [OF dw(2)] dw(1) True by (simp add: window_feed_def)
    have "here m1 p ?dw r = None" for p r
      using m1(2) [OF dw(3)] by (simp add: here_def)
    then obtain m2 where m2: "snd (AddPriceByBlock ?EB ?EP (ps_blk S q) (layer_over m1 n)) = layer_over m2 n"
      "\<And>p k. k \<noteq> ?dw \<Longrightarrow> entry m2 p k = entry m1 p k"
      "\<And>p r. shows_price (layer_over m2 n) p ?dw r = block_feed ?EB ?EP (ps_blk S q) p r"
      using layer_add [of ?dw "ps_blk S q" m1 n ?EB ?EP] dw(4) none by metis
    have "shows_price (layer_over m2 n) p h r = window_feed S (unat sw) t p (unat h) r" if "h \<noteq> 0" for p h r
    proof (cases "h = ?dw")
      case True
      then show ?thesis
        using window_step(2) [OF ok t H(2) \<open>unat sw < ?H\<close>] dw(1) m2(3) by (simp add: q_def)
    next
      case h: False
      then have same: "shows_price (layer_over m2 n) p h r = shows_price (layer_over m1 n) p h r"
        using m2(2) by (simp add: layer_over_shows)
      have ne: "unat h \<noteq> ?H - unat sw" "unat h \<noteq> 0"
        using h dw(1) that by (metis word_unat_eq_iff) (simp add: that unat_eq_0)
      show ?thesis
      proof (cases "h = ?hw")
        case True
        then show ?thesis using window_step(3) [OF ok t H(2)] H(1) m1(4) same by simp
      next
        case False
        then have "unat h \<noteq> ?H" using H(1) by (metis word_unat_eq_iff)
        then show ?thesis
          using window_step(1) [OF ok t ne(2), of p r] ne(1) same m1(2) [OF False] root [OF that]
          by (simp add: layer_over_shows)
      qed
    qed
    moreover have "shows_price (PcRoot n) p h r' = None" if "here m2 p h r \<noteq> None" for p h r r'
    proof (cases "h = ?dw")
      case False
      then have "here m2 p h r = here m1 p h r" using m2(2) by (simp add: here_def)
      then have "here m2 p h r = None"
        using m1(2,3) by (cases "h = ?hw") (auto simp: here_def)
      with that show ?thesis by simp
    qed (use none in simp)
    ultimately show ?thesis
      using True m2(1) by (intro exI [of _ m2]) simp
  qed
  then obtain m2 where m2: "(if unat sw < ?H then snd (AddPriceByBlock ?EB ?EP (ps_blk S q) (layer_over m1 n))
      else layer_over m1 n) = layer_over m2 n"
    "\<And>p h r r'. here m2 p h r \<noteq> None \<Longrightarrow> shows_price (PcRoot n) p h r' = None"
    "\<And>p h r. h \<noteq> 0 \<Longrightarrow> shows_price (layer_over m2 n) p h r = window_feed S (unat sw) t p (unat h) r"
    by blast
  obtain n' where n': "flush_root (layer_over m2 n) = Some n'"
    "\<And>p h r. shows_price (PcRoot n') p h r = shows_price (layer_over m2 n) p h r"
    using layer_flush [of m2 n] m2(2) by metis
  have "fresh_layer n = layer_over sm_empty n"
    by (simp add: fresh_layer_def layer_over_def)
  then have "disconnect_block S t' n = Some n'"
    using UndoBlock_eq [OF ok t(1) w, of "layer_over sm_empty n"] m1(1) m2(1) n'(1)
    by (auto simp: disconnect_block_def q_def Let_def)
  moreover have "window_ok S (unat sw) t n'"
    unfolding window_ok_def n'(2) using m2(3) by blast
  ultimately show ?thesis by blast
qed

section \<open>Reloading\<close>

lemma reload_ok:
  fixes n :: "('p, 'w::len word, 'r::linorder) price_node"
  assumes ok: "setup_ok S sw" and w: "31 \<le> LENGTH('w)" and t: "sm_find (ps_map S) t = Some i"
    and none: "\<And>p h r. unat h \<le> hgt (ps_map S) t \<Longrightarrow> shows_price (PcRoot n) p h r = None"
  shows "\<exists>n'. reload_loop (ps_block S) (ps_price S) (ps_codec S) (ps_fs S) (ps_map S) k (Some t) (PcRoot n) =
      Some (True, PcRoot n') \<and>
    (\<forall>p h r. shows_price (PcRoot n') p h r =
      (if unat h \<le> hgt (ps_map S) t then window_feed S k t p (unat h) r else shows_price (PcRoot n) p h r))"
  using t none
proof (induction k arbitrary: t i n)
  case 0
  then show ?case by (auto simp: window_feed_def)
next
  case (Suc k)
  let ?H = "hgt (ps_map S) t" and ?b = "ps_blk S t"
  let ?hw = "of_nat ?H :: 'w word"
  have H: "unat ?hw = ?H" "ucast (hd_height ?b) = ?hw"
  proof -
    show "unat ?hw = ?H"
      using index_facts(2) [OF ok Suc.prems(1)] by (rule unat_height [OF w])
    have "unat (of_nat ?H :: 32 word) = ?H"
      using index_facts(2) [OF ok Suc.prems(1)] by (intro unat_height) simp_all
    then show "ucast (hd_height ?b) = ?hw"
      using index_facts(2,4) [OF ok Suc.prems(1)] by (simp add: ucast_height [OF w])
  qed
  have "\<not> ExistBlockUserPrice ?hw r p (PcRoot n)" for r p
    using Suc.prems(2) [of ?hw p r] H(1) by (simp add: node_Exist_here shows_price_root)
  note add = AddPriceByBlock_eq [of ?b "PcRoot n", unfolded H(2), OF this, of "ps_block S" "ps_price S"]
  obtain n1 where n1: "snd (AddPriceByBlock (ps_block S) (ps_price S) ?b (PcRoot n)) = PcRoot n1"
    using add(1) by (auto simp: same_but_def)
  have sh: "shows_price (PcRoot n1) p h r =
      (if h = ?hw then block_feed (ps_block S) (ps_price S) ?b p r else shows_price (PcRoot n) p h r)" for p h r
    using add(2) same_but_shows [OF add(1)] unfolding n1 by (cases "h = ?hw") auto
  have eqH: "unat h = ?H \<longleftrightarrow> h = ?hw" for h :: "'w word"
    using H(1) by (metis word_unat_eq_iff)
  have loop: "reload_loop (ps_block S) (ps_price S) (ps_codec S) (ps_fs S) (ps_map S) (Suc k) (Some t) (PcRoot n) =
      reload_loop (ps_block S) (ps_price S) (ps_codec S) (ps_fs S) (ps_map S) k (pprev i) (PcRoot n1)"
    using Suc.prems(1) index_facts(3) [OF ok Suc.prems(1)] n1 by simp
  have tip: "window_feed S (Suc k) t p ?H r = block_feed (ps_block S) (ps_price S) ?b p r" for p r
    by (simp add: window_feed_def)
  show ?case
  proof (cases "pprev i")
    case None
    then have H0: "?H = 0"
      using index_facts(5) [OF ok Suc.prems(1)] by simp
    have "shows_price (PcRoot n1) p h r =
        (if unat h \<le> ?H then window_feed S (Suc k) t p (unat h) r else shows_price (PcRoot n) p h r)" for p h r
    proof (cases "h = ?hw")
      case True
      with sh tip H(1) show ?thesis by simp
    next
      case False
      with sh eqH [of h] H0 show ?thesis by simp
    qed
    moreover have "reload_loop (ps_block S) (ps_price S) (ps_codec S) (ps_fs S) (ps_map S) k None (PcRoot n1) = Some (True, PcRoot n1)"
      by (cases k) simp_all
    ultimately show ?thesis
      using loop None by (intro exI [of _ n1]) simp
  next
    case (Some q)
    obtain j where j: "sm_find (ps_map S) q = Some j" "?H = Suc (hgt (ps_map S) q)"
      using index_facts(6) [OF ok Suc.prems(1) Some] by blast
    have "shows_price (PcRoot n1) p h r = None" if "unat h \<le> hgt (ps_map S) q" for p h r
      using that j(2) sh eqH [of h] Suc.prems(2) [of h p r] by simp
    then obtain n' where n': "reload_loop (ps_block S) (ps_price S) (ps_codec S) (ps_fs S) (ps_map S) k (Some q) (PcRoot n1) =
        Some (True, PcRoot n')"
      "\<And>p h r. shows_price (PcRoot n') p h r =
        (if unat h \<le> hgt (ps_map S) q then window_feed S k q p (unat h) r else shows_price (PcRoot n1) p h r)"
      using Suc.IH [OF j(1), of n1] by blast
    have "shows_price (PcRoot n') p h r =
        (if unat h \<le> ?H then window_feed S (Suc k) t p (unat h) r else shows_price (PcRoot n) p h r)" for p h r
    proof (cases "unat h \<le> hgt (ps_map S) q")
      case True
      then have d: "?H - unat h = Suc (hgt (ps_map S) q - unat h)" "unat h \<le> ?H"
        using j(2) by auto
      have "window_feed S (Suc k) t p (unat h) r = window_feed S k q p (unat h) r"
        unfolding window_feed_def d(1) using True d(2) j(2) Suc.prems(1) Some by simp
      with True d(2) n'(2) show ?thesis by simp
    next
      case False
      show ?thesis
      proof (cases "h = ?hw")
        case True
        with sh tip H(1) False n'(2) show ?thesis by simp
      next
        case h: False
        with False j(2) eqH [of h] have "\<not> unat h \<le> ?H" by simp
        with h False n'(2) sh show ?thesis by simp
      qed
    qed
    with loop Some n'(1) show ?thesis
      by (intro exI [of _ n']) simp
  qed
qed

section \<open>Runs\<close>

datatype 'h move = Connect 'h | Disconnect

text \<open>A run of the node: the tip and the lowest layer after each move.\<close>

fun run_moves ::
  "('cp::linorder, 'rid, 'h, 'tx, 'uid, 'pm, 'cord, 'p::linorder, 'r::linorder) price_setup \<Rightarrow> 'h move list \<Rightarrow>
     'h \<times> ('p, 'w::len word, 'r) price_node \<Rightarrow> ('h \<times> ('p, 'w word, 'r) price_node) option" where
  "run_moves S [] st = Some st"
| "run_moves S (Connect t' # ms) (t, n) = do { n' \<leftarrow> connect_block S t' n; run_moves S ms (t', n') }"
| "run_moves S (Disconnect # ms) (t, n) =
     do { i \<leftarrow> sm_find (ps_map S) t; q \<leftarrow> pprev i; n' \<leftarrow> disconnect_block S t n; run_moves S ms (q, n') }"

text \<open>Only a successor of the tip is connected, and never the genesis block disconnected.\<close>

inductive path :: "'h block_map \<Rightarrow> 'h \<Rightarrow> 'h move list \<Rightarrow> 'h \<Rightarrow> bool" for M where
  path_Nil: "path M t [] t"
| path_Connect: "sm_find M t' = Some i \<Longrightarrow> pprev i = Some t \<Longrightarrow> path M t' ms e \<Longrightarrow> path M t (Connect t' # ms) e"
| path_Disconnect: "sm_find M t = Some i \<Longrightarrow> pprev i = Some q \<Longrightarrow> path M q ms e \<Longrightarrow> path M t (Disconnect # ms) e"

lemma run_moves_ok:
  fixes n :: "('p::linorder, 'w::len word, 'r::linorder) price_node"
  assumes ok: "setup_ok S sw" and w: "31 \<le> LENGTH('w)" and path: "path (ps_map S) t ms e"
    and win: "window_ok S (unat sw) t n"
  shows "\<exists>n'. run_moves S ms (t, n) = Some (e, n') \<and> window_ok S (unat sw) e n'"
  using path win
proof (induction arbitrary: n rule: path.induct)
  case (path_Connect t' i t ms e)
  then show ?case
    using connect_ok [OF ok path_Connect.hyps(1,2) w path_Connect.prems] by fastforce
next
  case (path_Disconnect t i q ms e)
  then show ?case
    using disconnect_ok [OF ok path_Disconnect.hyps(1,2) w path_Disconnect.prems] by fastforce
qed simp


text \<open>Two blocks, the second with a price of 50 for pair 1 by user 2.\<close>

definition sample_feed_env :: "(nat, nat, nat, nat, nat) block_env" where
  "sample_feed_env = sample_block_env\<lparr>IsPriceFeedTx := (\<lambda>t. t = 7)\<rparr>"

definition sample_genesis :: "(nat, nat) IneryBlock" where
  "sample_genesis = \<lparr>nVersion = 1, prevBlockHash = 0, merkleRootHash = 0, nTime = 10, nNonce = 0,
     hd_height = 0, nFuelFee = 0, nFuelRate = 100, vSignature = [], vptx = [1], vMerkleTree = []\<rparr>"

definition sample_feed_block :: "(nat, nat) IneryBlock" where
  "sample_feed_block = \<lparr>nVersion = 1, prevBlockHash = 1, merkleRootHash = 0, nTime = 20, nNonce = 0,
     hd_height = 1, nFuelFee = 0, nFuelRate = 100, vSignature = [], vptx = [1, 7, 5], vMerkleTree = []\<rparr>"

definition sample_feed_map :: "nat block_map" where
  "sample_feed_map = sm_of
     [(1, BlockIndex_default\<lparr>pBlockHash := Some 1, nStatus := 8\<rparr>),
      (3, BlockIndex_default\<lparr>pBlockHash := Some 3, nStatus := 8, nDataPos := 1, bi_height := 1, pprev := Some 1\<rparr>)]"

definition sample_setup :: "(string, uint64, nat, nat, nat, nat, nat, nat, nat) price_setup" where
  "sample_setup = \<lparr>ps_sys = sample_sys_env, ps_sys_state = (sample_sys_db, None), ps_block = sample_feed_env,
     ps_price = \<lparr>tx_regid = (\<lambda>_. 2), tx_price_points = (\<lambda>_. [(1, 50)]), MEDIAN_PRICE_SLIDE_WINDOW_BLOCKCOUNT = 5\<rparr>,
     ps_codec = \<lparr>enc_block = (\<lambda>_. []),
       dec_block = (\<lambda>s. if length s = 2 then Some (sample_genesis, []) else Some (sample_feed_block, [])),
       enc_size = (\<lambda>_. []), MessageStart = []\<rparr>,
     ps_fs = \<lparr>fs_files = (\<lambda>_. Some ''01''), fs_denied = (\<lambda>_. False)\<rparr>, ps_map = sample_feed_map,
     ps_blk = (\<lambda>h. if h = 1 then sample_genesis else sample_feed_block)\<rparr>"

lemma sample_setup_ok: "setup_ok sample_setup 100"
proof -
  have "lookup (sys_param_t sample_sys_env) (sample_sys_db, None) 5 = None"
    by (simp add: lookup_def view_def visible_def sp_tables sample_sys_db_def sample_sys_env_def db_val_def
        empty_node_def empty_db_def)
  then have "\<exists>s'. ReadSlideWindow (ps_sys sample_setup) (ps_price sample_setup) (ps_sys_state sample_setup) = Some (s', Some 100)"
    by (simp add: ReadSlideWindow_def sample_setup_def) (simp add: sample_sys_env_def)
  moreover have "unat (100 :: uint64) = 100" by simp
  moreover have "p = 1 \<or> p = 3" if "sm_find sample_feed_map p = Some i" for p i
    using that by (auto simp: sample_feed_map_def split: if_splits)
  moreover have "ReadBlockFromDisk sample_feed_env (ps_codec sample_setup) i (ps_fs sample_setup) = Some (ps_blk sample_setup p)"
    if "sm_find sample_feed_map p = Some i" for p i
    using that
    by (auto simp: sample_feed_map_def sample_setup_def ReadBlockFromDisk_def ReadBlockFromDisk_pos_def GetBlockPos_def
        BLOCK_HAVE_DATA_def OpenBlockFile_def OpenDiskFile_def BlockPos_IsNull_def Let_def BlockIndex_default_def
        Block_GetHash_def ComputeSignatureHash_def sample_feed_env_def sample_block_env_def sample_genesis_def
        sample_feed_block_def split: if_splits)
  ultimately show ?thesis
    unfolding setup_ok_def
    by (auto simp: sample_setup_def sample_feed_map_def BlockIndex_default_def sample_genesis_def sample_feed_block_def
        split: if_splits)
qed


end
