(* ===== verification/Price_Feed.thy ===== *)
theory Price_Feed
  imports Price_Laws Asset
begin

text \<open>
  \<open>IneryPriceFeedCache\<close> of \<open>pricefeeddb.h\<close> and \<open>pricefeeddb.cpp\<close>, the stored coin pairs and
  median prices, and the computation of the median prices of a block over it, the system
  parameters, the assets and the price points in memory.  A coin pair is its base symbol and
  its quote symbol.
\<close>

section \<open>State\<close>

type_synonym PriceCoinPair = "string \<times> string"

record 'h price_feed_db =
  price_feed_coin_pairs_cache :: "(PriceCoinPair, unit) std_map simple_cache"
  median_price_cache :: "(PriceCoinPair, 'h) PriceDetailMap simple_cache"

record 'h price_feed_env =
  pf_db :: CDBAccess
  pf_pairs_ops :: "(unit, (PriceCoinPair, unit) std_map) kvops"
  pf_median_ops :: "(unit, (PriceCoinPair, 'h) PriceDetailMap) kvops"
  kPriceFeedCoinPairSet :: "PriceCoinPair set"
  PERM_PRICE_FEED :: uint64

definition pairs_t :: "'h price_feed_env \<Rightarrow> ('h price_feed_db, (PriceCoinPair, unit) std_map) cell" where
  "pairs_t E = \<lparr>cget = price_feed_coin_pairs_cache, cput = (\<lambda>c. price_feed_coin_pairs_cache_update (\<lambda>_. c)),
     cops = pf_pairs_ops E, cdb = pf_db E\<rparr>"

definition median_t :: "'h price_feed_env \<Rightarrow> ('h price_feed_db, (PriceCoinPair, 'h) PriceDetailMap) cell" where
  "median_t E = \<lparr>cget = median_price_cache, cput = (\<lambda>c. median_price_cache_update (\<lambda>_. c)),
     cops = pf_median_ops E, cdb = pf_db E\<rparr>"

text \<open>The part of the cache wrapper the computation reads.\<close>

record ('cp, 'h, 'as) price_cw =
  cw_sysParam :: "'cp sys_param_db dbstate"
  cw_priceFeed :: "'h price_feed_db dbstate"
  cw_asset :: "'as asset_db dbstate"

section \<open>The database class\<close>

definition Feed_GetMedianPrice :: "'h price_feed_env \<Rightarrow> PriceCoinPair \<Rightarrow> 'h price_feed_db dbstate \<Rightarrow>
    ('h price_feed_db dbstate \<times> uint64) option" where
  "Feed_GetMedianPrice E coinPricePair s =
     do { (s, r) \<leftarrow> S_GetData (median_t E) s;
          Some (s, case r of None \<Rightarrow> 0
            | Some medianPrices \<Rightarrow>
                (case sm_find medianPrices coinPricePair of Some d \<Rightarrow> price d | None \<Rightarrow> 0)) }"

definition GetMedianPriceDetail :: "'h price_feed_env \<Rightarrow> PriceCoinPair \<Rightarrow> 'h price_feed_db dbstate \<Rightarrow>
    ('h price_feed_db dbstate \<times> 'h CMedianPriceDetail option) option" where
  "GetMedianPriceDetail E coinPricePair s =
     do { (s, r) \<leftarrow> S_GetData (median_t E) s;
          Some (s, case r of None \<Rightarrow> None | Some medianPrices \<Rightarrow> sm_find medianPrices coinPricePair) }"

definition GetMedianPrices :: "'h price_feed_env \<Rightarrow> 'h price_feed_db dbstate \<Rightarrow>
    ('h price_feed_db dbstate \<times> (PriceCoinPair, 'h) PriceDetailMap) option" where
  "GetMedianPrices E s =
     do { (s, r) \<leftarrow> S_GetData (median_t E) s;
          Some (s, case r of Some medianPrices \<Rightarrow> medianPrices | None \<Rightarrow> sm_empty) }"

definition SetMedianPrices :: "'h price_feed_env \<Rightarrow> (PriceCoinPair, 'h) PriceDetailMap \<Rightarrow> 'h price_feed_db dbstate \<Rightarrow>
    ('h price_feed_db dbstate \<times> bool) option" where
  "SetMedianPrices E medianPrices s = S_SetData (median_t E) medianPrices s"

definition GetFeedCoinPairs :: "'h price_feed_env \<Rightarrow> 'h price_feed_db dbstate \<Rightarrow>
    ('h price_feed_db dbstate \<times> (PriceCoinPair, unit) std_map option) option" where
  "GetFeedCoinPairs E s = S_GetData (pairs_t E) s"

definition AddFeedCoinPair :: "'h price_feed_env \<Rightarrow> PriceCoinPair \<Rightarrow> 'h price_feed_db dbstate \<Rightarrow>
    ('h price_feed_db dbstate \<times> bool) option" where
  "AddFeedCoinPair E coinPair s =
     do { (s, r) \<leftarrow> GetFeedCoinPairs E s;
          let coinPairs = (case r of None \<Rightarrow> sm_empty | Some m \<Rightarrow> m);
          if sm_find coinPairs coinPair \<noteq> None then Some (s, True)
          else S_SetData (pairs_t E) (sm_set coinPair () coinPairs) s }"

definition EraseFeedCoinPair :: "'h price_feed_env \<Rightarrow> PriceCoinPair \<Rightarrow> 'h price_feed_db dbstate \<Rightarrow>
    ('h price_feed_db dbstate \<times> bool) option" where
  "EraseFeedCoinPair E coinPair s =
     (if coinPair \<in> kPriceFeedCoinPairSet E then Some (s, True)
      else do { (s, r) \<leftarrow> S_GetData (pairs_t E) s;
                let coins = (case r of None \<Rightarrow> sm_empty | Some m \<Rightarrow> m);
                if sm_find coins coinPair = None then Some (s, True)
                else S_SetData (pairs_t E) (sm_erase coinPair coins) s })"

definition HasFeedCoinPair :: "'h price_feed_env \<Rightarrow> PriceCoinPair \<Rightarrow> 'h price_feed_db dbstate \<Rightarrow>
    ('h price_feed_db dbstate \<times> bool) option" where
  "HasFeedCoinPair E coinPair s =
     do { (s, r) \<leftarrow> S_GetData (pairs_t E) s;
          Some (s, sm_find (case r of None \<Rightarrow> sm_empty | Some m \<Rightarrow> m) coinPair \<noteq> None) }"

section \<open>The median prices of a block\<close>

text \<open>The loop that checks the base assets drops the pairs without the permission; the flag is
  false when an asset is missing.\<close>

fun check_pairs ::
  "'h price_feed_env \<Rightarrow> 'as asset_env \<Rightarrow> (PriceCoinPair \<times> unit) list \<Rightarrow> (PriceCoinPair, unit) std_map \<Rightarrow>
     'as asset_db dbstate \<Rightarrow> ('as asset_db dbstate \<times> bool \<times> (PriceCoinPair, unit) std_map) option" where
  "check_pairs EF EA [] coinPairSet s = Some (s, True, coinPairSet)"
| "check_pairs EF EA ((p, _) # rest) coinPairSet s =
     do { (s, r) \<leftarrow> CheckAsset EA (fst p) s;
          case r of
            None \<Rightarrow> Some (s, False, coinPairSet)
          | Some asset \<Rightarrow>
              if \<not> as_HasPerms EA asset (PERM_PRICE_FEED EF) then check_pairs EF EA rest (sm_erase p coinPairSet) s
              else check_pairs EF EA rest coinPairSet s }"

fun calc_loop ::
  "'w::len word \<Rightarrow> uint64 \<Rightarrow> (PriceCoinPair, 'w word, 'r::linorder) price_cache \<Rightarrow> (PriceCoinPair \<times> unit) list \<Rightarrow>
     (PriceCoinPair, 'w word) PriceDetailMap \<Rightarrow> (PriceCoinPair, 'w word) PriceDetailMap" where
  "calc_loop blockHeight slideWindow c [] medianPrices = medianPrices"
| "calc_loop blockHeight slideWindow c ((p, _) # rest) medianPrices =
     (let d = GetMedianPrice blockHeight slideWindow p c in
      if price d = 0 then calc_loop blockHeight slideWindow c rest medianPrices
      else calc_loop blockHeight slideWindow c rest
        (if sm_find medianPrices p = None then sm_set p d medianPrices else medianPrices))"

text \<open>The argument and the last result are the map the caller passes by reference.\<close>

definition CalcMedianPriceDetails ::
  "('cp::linorder, 'rid) sys_param_env \<Rightarrow> ('tx, 'p, 'rr) price_env \<Rightarrow> 'w word price_feed_env \<Rightarrow> 'as asset_env \<Rightarrow>
     'w::len word \<Rightarrow> (PriceCoinPair, 'w word) PriceDetailMap \<Rightarrow>
     ('cp, 'w word, 'as) price_cw \<times> (PriceCoinPair, 'w word, 'r::linorder) price_cache \<Rightarrow>
     ((('cp, 'w word, 'as) price_cw \<times> (PriceCoinPair, 'w word, 'r) price_cache) \<times>
       bool \<times> (PriceCoinPair, 'w word) PriceDetailMap) option" where
  "CalcMedianPriceDetails ES EP EF EA blockHeight medianPrices st =
     (let (cw, c) = st in
      do { (s, r) \<leftarrow> ReadSlideWindow ES EP (cw_sysParam cw);
           let cw = cw\<lparr>cw_sysParam := s\<rparr>;
           case r of
             None \<Rightarrow> Some ((cw, c), False, medianPrices)
           | Some slideWindow \<Rightarrow>
               do { (s, latest) \<leftarrow> GetMedianPrices EF (cw_priceFeed cw);
                    let c = with_price_node ((pc_node c)\<lparr>latest_median_prices := latest\<rparr>) c;
                    (s, pairs) \<leftarrow> GetFeedCoinPairs EF s;
                    let cw = cw\<lparr>cw_priceFeed := s\<rparr>;
                    (s, ok, coinPairSet) \<leftarrow>
                      (case pairs of
                         None \<Rightarrow> Some (cw_asset cw, True, sm_empty)
                       | Some m \<Rightarrow> check_pairs EF EA (sm_items m) m (cw_asset cw));
                    let cw = cw\<lparr>cw_asset := s\<rparr>;
                    if \<not> ok then Some ((cw, c), False, medianPrices)
                    else Some ((cw, c), True, calc_loop blockHeight slideWindow c (sm_items coinPairSet) sm_empty) } })"

definition CalcMedianPrices ::
  "('cp::linorder, 'rid) sys_param_env \<Rightarrow> ('tx, 'p, 'rr) price_env \<Rightarrow> 'w word price_feed_env \<Rightarrow> 'as asset_env \<Rightarrow>
     'w::len word \<Rightarrow> (PriceCoinPair, uint64) std_map \<Rightarrow>
     ('cp, 'w word, 'as) price_cw \<times> (PriceCoinPair, 'w word, 'r::linorder) price_cache \<Rightarrow>
     ((('cp, 'w word, 'as) price_cw \<times> (PriceCoinPair, 'w word, 'r) price_cache) \<times>
       bool \<times> (PriceCoinPair, uint64) std_map) option" where
  "CalcMedianPrices ES EP EF EA blockHeight medianPrices st =
     do { (st, ok, details) \<leftarrow> CalcMedianPriceDetails ES EP EF EA blockHeight sm_empty st;
          if \<not> ok then Some (st, False, medianPrices)
          else Some (st, True, fold (\<lambda>(p, d) m. if sm_find m p = None then sm_set p (price d) m else m)
                                 (sm_items details) medianPrices) }"

section \<open>Laws\<close>

declare split_paired_Ex [simp del] split_paired_All [simp del]

lemma sm_set_nonempty [simp]: "sm_set k v m \<noteq> sm_empty"
  by (metis option.distinct(1) sm_find_empty sm_find_set)

definition price_feed_ok :: "'h price_feed_env \<Rightarrow> bool" where
  "price_feed_ok E \<longleftrightarrow> simple_ok (pf_pairs_ops E) (pf_db E) \<and> simple_ok (pf_median_ops E) (pf_db E) \<and>
     val_empty (pf_pairs_ops E) = (\<lambda>m. m = sm_empty)"

lemmas pf_tables = pairs_t_def median_t_def

lemma pf_ok [simp]:
  assumes "price_feed_ok E"
  shows "cell_ok (pairs_t E)" "cell_ok (median_t E)" "val_empty (cops (pairs_t E)) m = (m = sm_empty)"
  using assms by (simp_all add: price_feed_ok_def cell_ok_def pf_tables)

lemma pf_indep [simp]: "indep (cget (pairs_t E)) (cput (median_t E))" "indep (cget (median_t E)) (cput (pairs_t E))"
  by (simp_all add: indep_def pf_tables)

text \<open>The coin pairs that are stored.\<close>

definition feeds :: "'h price_feed_env \<Rightarrow> 'h price_feed_db dbstate \<Rightarrow> PriceCoinPair \<Rightarrow> bool" where
  "feeds E s p \<longleftrightarrow> (case peek (pairs_t E) s of None \<Rightarrow> False | Some m \<Rightarrow> sm_find m p \<noteq> None)"

lemma HasFeedCoinPair_eq:
  "price_feed_ok E \<Longrightarrow> \<exists>s'. HasFeedCoinPair E p s = Some (s', feeds E s p) \<and> peek (pairs_t E) s' = peek (pairs_t E) s"
  by (simp add: HasFeedCoinPair_def feeds_def split: option.split)

lemma AddFeedCoinPair_eq:
  assumes "price_feed_ok E"
  shows "\<exists>s'. AddFeedCoinPair E p s = Some (s', True) \<and> (\<forall>q. feeds E s' q \<longleftrightarrow> q = p \<or> feeds E s q)"
  using assms by (auto simp: AddFeedCoinPair_def GetFeedCoinPairs_def feeds_def Let_def split: option.split)

lemma EraseFeedCoinPair_eq:
  assumes "price_feed_ok E"
  shows "\<exists>s'. EraseFeedCoinPair E p s = Some (s', True) \<and>
    (\<forall>q. feeds E s' q \<longleftrightarrow> feeds E s q \<and> (q \<noteq> p \<or> p \<in> kPriceFeedCoinPairSet E))"
proof (cases "p \<in> kPriceFeedCoinPairSet E")
  case True
  then show ?thesis by (simp add: EraseFeedCoinPair_def)
next
  case False
  have none: "sm_find m q = None" if "sm_erase p m = sm_empty" "q \<noteq> p" for m :: "(PriceCoinPair, unit) std_map" and q
    using that by (metis sm_find_empty sm_find_erase)
  show ?thesis
  proof (cases "\<exists>m. peek (pairs_t E) s = Some m \<and> sm_find m p \<noteq> None")
    case True
    then obtain m where m: "peek (pairs_t E) s = Some m" "sm_find m p \<noteq> None" by blast
    with assms False show ?thesis
      by (auto simp: EraseFeedCoinPair_def feeds_def Let_def dest: none)
  next
    case no: False
    with assms False show ?thesis
      by (auto simp: EraseFeedCoinPair_def feeds_def Let_def split: option.splits)
  qed
qed

text \<open>What \<open>CheckAsset\<close> finds.\<close>

definition asset_at :: "'as asset_env \<Rightarrow> 'as asset_db dbstate \<Rightarrow> string \<Rightarrow> 'as option" where
  "asset_at E s y =
     (if length y < MIN_TOKEN_SYMBOL_LEN E \<or> length y > MAX_TOKEN_SYMBOL_LEN E then None else lookup (asset_t E) s y)"

lemma CheckAsset_at:
  assumes "asset_ok E"
  shows "\<exists>s'. CheckAsset E y s = Some (s', asset_at E s y) \<and> lookup (asset_t E) s' = lookup (asset_t E) s"
  using assms by (auto simp: CheckAsset_def GetAsset_def asset_at_def split: option.split)

text \<open>Every coin pair's base asset is found, and the asset has the permission.\<close>

definition bases_found :: "'as asset_env \<Rightarrow> 'as asset_db dbstate \<Rightarrow> PriceCoinPair list \<Rightarrow> bool" where
  "bases_found EA s ps \<longleftrightarrow> list_all (\<lambda>p. asset_at EA s (fst p) \<noteq> None) ps"

definition may_feed :: "'h price_feed_env \<Rightarrow> 'as asset_env \<Rightarrow> 'as asset_db dbstate \<Rightarrow> PriceCoinPair \<Rightarrow> bool" where
  "may_feed EF EA s p \<longleftrightarrow> as_HasPerms EA (the (asset_at EA s (fst p))) (PERM_PRICE_FEED EF)"

lemma check_pairs_eq:
  assumes "asset_ok EA"
  shows "\<exists>s' m'. check_pairs EF EA items m s = Some (s', bases_found EA s (map fst items), m') \<and>
    (bases_found EA s (map fst items) \<longrightarrow>
      (\<forall>p. sm_find m' p = (if p \<in> set (map fst items) \<and> \<not> may_feed EF EA s p then None else sm_find m p)))"
proof (induction items arbitrary: m s)
  case Nil
  then show ?case by (simp add: bases_found_def)
next
  case (Cons x rest)
  obtain q u where x: "x = (q, u)" by (cases x)
  obtain s1 where s1: "CheckAsset EA (fst q) s = Some (s1, asset_at EA s (fst q))"
    "lookup (asset_t EA) s1 = lookup (asset_t EA) s"
    using CheckAsset_at [OF assms] by blast
  have "asset_at EA s1 = asset_at EA s"
    by (simp add: asset_at_def s1(2) fun_eq_iff)
  then have same: "bases_found EA s1 ps = bases_found EA s ps" "may_feed EF EA s1 = may_feed EF EA s" for ps
    by (simp_all add: bases_found_def may_feed_def fun_eq_iff)
  show ?case
  proof (cases "asset_at EA s (fst q)")
    case None
    with s1(1) x show ?thesis by (simp add: bases_found_def)
  next
    case (Some a)
    have found: "bases_found EA s (map fst (x # rest)) = bases_found EA s (map fst rest)"
      using Some x by (simp add: bases_found_def)
    define m1 where "m1 = (if may_feed EF EA s q then m else sm_erase q m)"
    have step: "check_pairs EF EA (x # rest) m s = check_pairs EF EA rest m1 s1"
      using Some s1(1) x by (simp add: m1_def may_feed_def)
    obtain s' m' where r: "check_pairs EF EA rest m1 s1 = Some (s', bases_found EA s (map fst rest), m')"
      "bases_found EA s (map fst rest) \<longrightarrow>
        (\<forall>p. sm_find m' p = (if p \<in> set (map fst rest) \<and> \<not> may_feed EF EA s p then None else sm_find m1 p))"
      using Cons [of m1 s1] unfolding same by blast
    have "bases_found EA s (map fst rest) \<longrightarrow>
        (\<forall>p. sm_find m' p = (if p \<in> set (map fst (x # rest)) \<and> \<not> may_feed EF EA s p then None else sm_find m p))"
      using r(2) x by (simp add: m1_def)
    with r(1) show ?thesis
      unfolding step found by blast
  qed
qed

lemma calc_loop_eq:
  "sm_find (calc_loop bh sw c items m) p =
     (case sm_find m p of Some d \<Rightarrow> Some d
      | None \<Rightarrow> if p \<in> fst ` set items \<and> price (GetMedianPrice bh sw p c) \<noteq> 0 then Some (GetMedianPrice bh sw p c) else None)"
proof (induction bh sw c items m rule: calc_loop.induct)
  case (2 bh sw c q u rest m)
  then show ?case
    by (cases "price (GetMedianPrice bh sw q c) = 0"; cases "sm_find m q = None")
      (auto simp: Let_def split: option.splits)
qed (simp split: option.split)

text \<open>The median price of a pair: the one computed from the window, with the height of the last
  feed taken over from the last one unless the block itself feeds; the last one when none can
  be computed.\<close>

definition median_detail ::
  "'w::len word \<Rightarrow> uint64 \<Rightarrow> 'w word CMedianPriceDetail \<Rightarrow> 'w word CMedianPriceDetail option \<Rightarrow> 'w word CMedianPriceDetail" where
  "median_detail bh sw d latest =
     (case latest of None \<Rightarrow> d
      | Some l \<Rightarrow> if price d = 0 then l
                else if last_feed_height d = bh then d else d\<lparr>last_feed_height := last_feed_height l\<rparr>)"

lemma pview_with_latest: "pview (with_price_node ((pc_node c)\<lparr>latest_median_prices := m\<rparr>) c) = pview c"
  by (cases c) (simp_all add: fun_eq_iff)

lemma GetMedianPrice_latest:
  "GetMedianPrice bh sw p (with_price_node ((pc_node c)\<lparr>latest_median_prices := m\<rparr>) c) =
     median_detail bh sw (ComputeBlockMedianPrice bh sw p c) (sm_find m p)"
proof -
  have "GetBlockUserPrices p (with_price_node ((pc_node c)\<lparr>latest_median_prices := m\<rparr>) c) = GetBlockUserPrices p c"
    by (rule std_map_eqI) (simp add: GetBlockUserPrices_eq pview_with_latest)
  then have "ComputeBlockMedianPrice bh sw p (with_price_node ((pc_node c)\<lparr>latest_median_prices := m\<rparr>) c) =
      ComputeBlockMedianPrice bh sw p c"
    by (simp add: ComputeBlockMedianPrice_def)
  moreover have "latest_median_prices (pc_node (with_price_node ((pc_node c)\<lparr>latest_median_prices := m\<rparr>) c)) = m"
    by (cases c) simp_all
  ultimately show ?thesis
    by (simp add: GetMedianPrice_def median_detail_def Let_def split: option.split)
qed

text \<open>The prices the loop collects: those of the blocks from the block down to the begin of the
  window.\<close>

definition block_prices :: "('w::len word, 'r::linorder) BlockUserPriceMap \<Rightarrow> nat \<Rightarrow> uint64 list" where
  "block_prices m h = (case sm_find m (of_nat h) of None \<Rightarrow> [] | Some users \<Rightarrow> map snd (sm_items users))"

lemma no_block_prices [simp]: "concat (map (block_prices sm_empty) hs) = []"
  by (simp add: block_prices_def)

lemma window_loop_eq:
  "window_loop m bh b h s =
     (if b < h \<and> h \<le> bh \<and> (b < bh \<and> h = bh \<and> sm_find m bh \<noteq> None) then bh else fst s,
      snd s @ concat (map (block_prices m) (rev [Suc (unat b)..<Suc (unat h)])))" if "h \<le> bh"
  using that
proof (induction m bh b h s rule: window_loop.induct)
  case (1 m bh b h s)
  show ?case
  proof (cases "b < h")
    case False
    then have "Suc (unat b) \<ge> Suc (unat h)"
      by (simp add: not_less word_le_nat_alt)
    with False show ?thesis
      by (simp add: window_loop.simps [of m bh b h s] del: upt_Suc)
  next
    case True
    then have lt: "unat b < unat h" by (simp only: word_less_nat_alt)
    then have h0: "h \<noteq> 0" by (metis not_less_zero unat_0)
    then have hm: "unat (h - 1) = unat h - 1"
      by (metis unat_minus_one)
    have le: "h - 1 \<le> bh" and ne: "h - 1 \<noteq> bh"
      using "1.prems" hm lt h0 by (auto simp: word_le_nat_alt word_unat_eq_iff)
    have range: "rev [Suc (unat b)..<Suc (unat h)] = unat h # rev [Suc (unat b)..<Suc (unat (h - 1))]"
      using lt hm by simp
    note IH = "1.IH" [OF True le]
    show ?thesis
      using True "1.prems" ne lt
      by (simp add: window_loop.simps [of m bh b h s] IH range block_prices_def del: upt_Suc split: option.split)
  qed
qed

text \<open>The prices of the window of \<open>sw\<close> blocks that ends with the block.\<close>

definition feed_window ::
  "'w::len word \<Rightarrow> uint64 \<Rightarrow> 'p \<Rightarrow> ('p, 'w word, 'r::linorder) price_cache \<Rightarrow> uint64 list" where
  "feed_window bh sw p c =
     concat (map (block_prices (GetBlockUserPrices p c)) (rev [Suc (unat bh - unat sw)..<Suc (unat bh)]))"

lemma ComputeBlockMedianPrice_eq:
  "ComputeBlockMedianPrice bh sw p c =
     \<lparr>last_feed_height = (if sw \<noteq> 0 \<and> sm_find (GetBlockUserPrices p c) bh \<noteq> None then bh else 0),
      price = ComputeMedianNumber (feed_window bh sw p c)\<rparr>"
proof (cases "sm_items (GetBlockUserPrices p c) = []")
  case True
  then have "GetBlockUserPrices p c = sm_empty"
    by (simp add: sm_items_Nil_iff)
  then show ?thesis
    by (simp add: ComputeBlockMedianPrice_def feed_window_def ComputeMedianNumber_def del: upt_Suc)
next
  case False
  define b where "b = (if unat bh > unat sw then bh - ucast sw else 0)"
  have b: "unat b = unat bh - unat sw"
  proof (cases "unat bh > unat sw")
    case True
    then have "unat (ucast sw :: 'a word) = unat sw"
      by (metis less_trans take_bit_nat_eq_self unsigned_less unsigned_ucast_eq)
    with True show ?thesis
      by (simp add: b_def unat_sub_le)
  qed (simp add: b_def)
  have "b < bh \<longleftrightarrow> 0 < unat sw \<and> 0 < unat bh"
    unfolding word_less_nat_alt b by auto
  then have "b < bh \<longleftrightarrow> sw \<noteq> 0 \<and> bh \<noteq> 0"
    by (simp only: unat_gt_0)
  with False b show ?thesis
    by (simp add: ComputeBlockMedianPrice_def ComputeBlockMedianPrice_map_def Let_def window_loop_eq feed_window_def
        flip: b_def del: upt_Suc)
qed

lemma avg_between:
  fixes a b :: uint64
  assumes "a \<le> b" and "b < 2 ^ 63"
  shows "a \<le> (a + b) div 2" "(a + b) div 2 \<le> b"
proof -
  have b: "unat b < 2 ^ 63"
    using assms(2) by (simp add: word_less_nat_alt)
  have ab: "unat a \<le> unat b"
    using assms(1) by (simp add: word_le_nat_alt)
  have "unat (a + b) = unat a + unat b"
    by (rule unat_add_no_wrap) (use ab b in simp)
  then have "unat ((a + b) div 2) = (unat a + unat b) div 2"
    by (simp add: unat_div)
  with ab show "a \<le> (a + b) div 2" "(a + b) div 2 \<le> b"
    by (simp_all add: word_le_nat_alt)
qed

lemma ComputeMedianNumber_counts:
  fixes xs :: "uint64 list"
  assumes "length xs < 2 ^ 32" and "\<And>x. x \<in> set xs \<Longrightarrow> x < 2 ^ 63" and "xs \<noteq> []"
  defines "m \<equiv> ComputeMedianNumber xs"
  shows "2 * length (filter (\<lambda>x. x < m) xs) \<le> length xs" "2 * length (filter (\<lambda>x. m < x) xs) \<le> length xs"
    "odd (length xs) \<longrightarrow> m \<in> set xs" "\<exists>x \<in> set xs. \<exists>y \<in> set xs. x \<le> m \<and> m \<le> y"
proof -
  let ?n = "length xs" and ?s = "sort xs"
  have n: "unat (of_nat ?n :: uint32) = ?n"
    using assms(1) by (simp add: unat_of_nat)
  have len: "?n div 2 < ?n"
    using assms(3) by simp
  have sub: "length (filter P xs) \<le> length (filter Q xs)" if "\<And>x. P x \<Longrightarrow> Q x" for P Q
    using that by (induction xs) auto
  have "2 * length (filter (\<lambda>x. x < m) xs) \<le> ?n \<and> 2 * length (filter (\<lambda>x. m < x) xs) \<le> ?n \<and>
    (odd ?n \<longrightarrow> m \<in> set xs) \<and> (\<exists>x \<in> set xs. \<exists>y \<in> set xs. x \<le> m \<and> m \<le> y)"
  proof (cases "even ?n")
    case False
    have "m = ?s ! (?n div 2)"
    proof (cases "?n < 2")
      case True
      then obtain x where "xs = [x]"
        using assms(3) by (cases xs) (auto simp: numeral_2_eq_2)
      then show ?thesis by (simp add: m_def ComputeMedianNumber_def)
    next
      case big: False
      with False n show ?thesis
        by (simp add: m_def ComputeMedianNumber_def Let_def odd_iff_mod_2_eq_one)
    qed
    with sort_nth_counts [OF len] False show ?thesis
      by auto
  next
    case True
    let ?a = "?s ! (?n div 2 - 1)" and ?b = "?s ! (?n div 2)"
    have big: "2 \<le> ?n"
    proof -
      have "?n \<noteq> 0" using assms(3) by simp
      with True show ?thesis by presburger
    qed
    have m: "m = (?a + ?b) div 2"
      using True big n by (simp add: m_def ComputeMedianNumber_def Let_def)
    have la: "?n div 2 - 1 < ?n" using len by simp
    have "?a \<le> ?b"
      using len by (intro sorted_nth_mono) simp_all
    moreover have "?b < 2 ^ 63"
      using sort_nth_counts(1) [OF len] assms(2) by blast
    ultimately have between: "?a \<le> m" "m \<le> ?b"
      unfolding m by (rule avg_between)+
    have "length (filter (\<lambda>x. x < m) xs) \<le> length (filter (\<lambda>x. x < ?b) xs)"
      using between(2) by (intro sub) simp
    moreover have "length (filter (\<lambda>x. m < x) xs) \<le> length (filter (\<lambda>x. ?a < x) xs)"
      using between(1) by (intro sub) simp
    ultimately show ?thesis
      using sort_nth_counts [OF len] sort_nth_counts [OF la] True big between by auto
  qed
  then show "2 * length (filter (\<lambda>x. x < m) xs) \<le> length xs" "2 * length (filter (\<lambda>x. m < x) xs) \<le> length xs"
    "odd (length xs) \<longrightarrow> m \<in> set xs" "\<exists>x \<in> set xs. \<exists>y \<in> set xs. x \<le> m \<and> m \<le> y" by blast+
qed

text \<open>A price feed whose coin pairs need permission 1 of their base asset.\<close>

definition sample_pf_env :: "'w::len word price_feed_env" where
  "sample_pf_env = \<lparr>pf_db = empty_db DB_PRICEFEED,
     pf_pairs_ops = sample_ops PRICE_FEED_COIN_PAIRS (plain_db ()) (map_db (pair_db string_db string_db) (plain_db ()))
       sm_empty unit_c (map_c (pair_c string_c string_c) unit_c),
     pf_median_ops = sample_ops MEDIAN_PRICES (plain_db ())
       (map_db (pair_db string_db string_db) (plain_db \<lparr>last_feed_height = 0, price = 0\<rparr>)) sm_empty unit_c
       (map_c (pair_c string_c string_c) (iso_c (\<lambda>d. (last_feed_height d, price d))
         (\<lambda>(h, x). \<lparr>last_feed_height = h, price = x\<rparr>) (pair_c word_c word_c))),
     kPriceFeedCoinPairSet = {(''INR'', ''USD'')}, PERM_PRICE_FEED = 1\<rparr>"

definition sample_pf_db :: "'h price_feed_db" where
  "sample_pf_db = \<lparr>price_feed_coin_pairs_cache = simple_new_on_db, median_price_cache = simple_new_on_db\<rparr>"

lemma sample_pf_ok [simp]: "price_feed_ok sample_pf_env"
  by (simp add: price_feed_ok_def sample_pf_env_def sample_simple_ok is_data_prefix_def fun_eq_iff)

section \<open>Properties\<close>

text \<open>
  The coin pairs of the price feed are a set: adding inserts a pair, erasing removes
  it unless it is one of the built-in pairs, and asking tells whether it is stored.
\<close>

theorem feed_coin_pairs:
  assumes "price_feed_ok E"
  shows "\<exists>s1 s2 s3. AddFeedCoinPair E p s = Some (s1, True) \<and> EraseFeedCoinPair E q s1 = Some (s2, True) \<and>
    HasFeedCoinPair E r s2 = Some (s3, (r = p \<or> feeds E s r) \<and> (r = q \<longrightarrow> q \<in> kPriceFeedCoinPairSet E))"
proof -
  obtain s1 where s1: "AddFeedCoinPair E p s = Some (s1, True)" "\<And>x. feeds E s1 x \<longleftrightarrow> x = p \<or> feeds E s x"
    using AddFeedCoinPair_eq [OF assms] by blast
  obtain s2 where s2: "EraseFeedCoinPair E q s1 = Some (s2, True)"
    "\<And>x. feeds E s2 x \<longleftrightarrow> feeds E s1 x \<and> (x \<noteq> q \<or> q \<in> kPriceFeedCoinPairSet E)"
    using EraseFeedCoinPair_eq [OF assms] by blast
  obtain s3 where "HasFeedCoinPair E r s2 = Some (s3, feeds E s2 r)"
    using HasFeedCoinPair_eq [OF assms] by blast
  with s1 s2 show ?thesis by auto
qed

theorem feed_coin_pairs_witness:
  "\<exists>s1 s2 s3. AddFeedCoinPair sample_pf_env (''INR'', ''USD'') (sample_pf_db :: 32 word price_feed_db, None) = Some (s1, True) \<and>
    EraseFeedCoinPair sample_pf_env (''INR'', ''USD'') s1 = Some (s2, True) \<and>
    HasFeedCoinPair sample_pf_env (''INR'', ''USD'') s2 = Some (s3, True)"
  using feed_coin_pairs [OF sample_pf_ok, of "(''INR'', ''USD'')" "(sample_pf_db, None)" "(''INR'', ''USD'')" "(''INR'', ''USD'')"]
  by (simp add: sample_pf_env_def)

text \<open>
  Claim C26: The price computed from the points in memory is a median of the prices fed in the
  window of blocks up to this one: no more than half of them are below it and no more than half
  above, it is one of them when their number is odd, and it lies between two of them always.
  The height of the last feed is this block's when it feeds.  (Prices are below \<open>2 ^ 63\<close>: the
  sum of the two middle ones is taken in 64 bits.)
\<close>

theorem price_median:
  fixes bh :: "'w::len word" and sw :: uint64 and p :: 'p and c :: "('p, 'w word, 'r::linorder) price_cache"
  defines "d \<equiv> ComputeBlockMedianPrice bh sw p c" and "ps \<equiv> feed_window bh sw p c"
  assumes "length ps < 2 ^ 32" and "\<forall>x \<in> set ps. x < 2 ^ 63" and "ps \<noteq> []"
  shows "2 * length (filter (\<lambda>x. x < price d) ps) \<le> length ps \<and>
    2 * length (filter (\<lambda>x. price d < x) ps) \<le> length ps \<and> (odd (length ps) \<longrightarrow> price d \<in> set ps) \<and>
    (\<exists>x \<in> set ps. \<exists>y \<in> set ps. x \<le> price d \<and> price d \<le> y) \<and>
    last_feed_height d = (if sw \<noteq> 0 \<and> sm_find (GetBlockUserPrices p c) bh \<noteq> None then bh else 0)"
  using ComputeMedianNumber_counts [of ps] assms by (simp add: ComputeBlockMedianPrice_eq)

text \<open>Two prices in the window, at heights 5 and 6, and the median between them.\<close>

definition sample_points :: "(nat, 32 word, nat) price_cache" where
  "sample_points = PcRoot \<lparr>mapCoinPricePointCache = sm_of [(1, sm_of [(5, sm_of [(2, 40)]), (6, sm_of [(2, 50)])])],
     latest_median_prices = sm_empty\<rparr>"

theorem price_median_witness:
  "price (ComputeBlockMedianPrice 6 3 1 sample_points) \<ge> 40 \<and> price (ComputeBlockMedianPrice 6 3 1 sample_points) \<le> 50"
proof -
  have f: "sm_find (GetBlockUserPrices 1 sample_points) h =
      (if h = 5 then Some (sm_of [(2, 40)]) else if h = 6 then Some (sm_of [(2, 50)]) else None)" for h
    by (simp add: GetBlockUserPrices_eq sample_points_def entry_def shown_prices_def)
  have w: "feed_window 6 3 1 sample_points = [50, 40]"
    by (simp add: feed_window_def block_prices_def f [simplified] upt_conv_Cons sm_items_set)
  have "\<exists>x \<in> {40, 50}. \<exists>y \<in> {40, 50}. x \<le> price (ComputeBlockMedianPrice 6 3 1 sample_points) \<and>
      price (ComputeBlockMedianPrice 6 3 1 sample_points) \<le> y"
    using price_median [where bh = 6 and sw = 3 and p = 1 and c = sample_points] unfolding w by auto
  then show ?thesis by (auto simp: word_le_nat_alt)
qed

text \<open>
  Claim C25: The median prices of a block.  They are computed exactly when the window parameter is known
  and the base asset of every stored coin pair exists; otherwise the call is refused and the
  caller's map is left alone.  The result then holds, for every stored coin pair whose base
  asset has the permission to feed, the median price of its window, with the last stored one
  standing in when the window has none, and no price of zero.
\<close>

theorem calc_median_prices:
  fixes EP :: "('tx, 'p, 'rr) price_env" and cw :: "('cp::linorder, 'w::len word, 'as) price_cw"
  assumes "sys_param_ok ES" and "price_feed_ok EF" and "asset_ok EA"
  defines "known \<equiv> kSysParamTable ES (MEDIAN_PRICE_SLIDE_WINDOW_BLOCKCOUNT EP)"
    and "stored \<equiv> peek (median_t EF) (cw_priceFeed cw)"
  shows "\<exists>st' ok m sw. CalcMedianPriceDetails ES EP EF EA bh m0 (cw, c) = Some (st', ok, m) \<and>
    (ok \<longleftrightarrow> known \<noteq> None \<and> (\<forall>p. feeds EF (cw_priceFeed cw) p \<longrightarrow> asset_at EA (cw_asset cw) (fst p) \<noteq> None)) \<and>
    (\<not> ok \<longrightarrow> m = m0) \<and>
    (known \<noteq> None \<longrightarrow> (\<exists>s'. ReadSlideWindow ES EP (cw_sysParam cw) = Some (s', Some sw))) \<and>
    (ok \<longrightarrow> (\<forall>p. sm_find m p =
      (let d = median_detail bh sw (ComputeBlockMedianPrice bh sw p c) (case stored of None \<Rightarrow> None | Some ds \<Rightarrow> sm_find ds p) in
       if feeds EF (cw_priceFeed cw) p \<and> may_feed EF EA (cw_asset cw) p \<and> price d \<noteq> 0 then Some d else None)))"
proof (cases "known")
  case None
  with assms(1) have "CalcMedianPriceDetails ES EP EF EA bh m0 (cw, c) = Some ((cw\<lparr>cw_sysParam := cw_sysParam cw\<rparr>, c), False, m0)"
    by (simp add: CalcMedianPriceDetails_def ReadSlideWindow_def known_def)
  with None show ?thesis by blast
next
  case (Some dflt)
  then obtain s1 sw where sw: "ReadSlideWindow ES EP (cw_sysParam cw) = Some (s1, Some sw)"
    using assms(1) by (simp add: ReadSlideWindow_def known_def)
  let ?ds = "case stored of None \<Rightarrow> sm_empty | Some ds \<Rightarrow> ds"
  let ?c = "with_price_node ((pc_node c)\<lparr>latest_median_prices := ?ds\<rparr>) c"
  obtain s2 where s2: "GetMedianPrices EF (cw_priceFeed cw) = Some (s2, ?ds)"
    "peek (pairs_t EF) s2 = peek (pairs_t EF) (cw_priceFeed cw)"
    using assms(2) by (simp add: GetMedianPrices_def stored_def split: option.split)
  obtain s3 where s3: "GetFeedCoinPairs EF s2 = Some (s3, peek (pairs_t EF) (cw_priceFeed cw))"
    using assms(2) s2(2) by (simp add: GetFeedCoinPairs_def)
  let ?pairs = "case peek (pairs_t EF) (cw_priceFeed cw) of None \<Rightarrow> sm_empty | Some m \<Rightarrow> m"
  have feeds: "feeds EF (cw_priceFeed cw) p \<longleftrightarrow> p \<in> fst ` set (sm_items ?pairs)" for p
    by (simp add: feeds_def in_dom_sm_items split: option.split)
  let ?found = "bases_found EA (cw_asset cw) (map fst (sm_items ?pairs))"
  obtain s4 m4 where s4: "check_pairs EF EA (sm_items ?pairs) ?pairs (cw_asset cw) = Some (s4, ?found, m4)"
    "?found \<Longrightarrow> sm_find m4 p = (if p \<in> set (map fst (sm_items ?pairs)) \<and> \<not> may_feed EF EA (cw_asset cw) p
       then None else sm_find ?pairs p)" for p
    using check_pairs_eq [OF assms(3), of EF "sm_items ?pairs" ?pairs "cw_asset cw"] by blast
  let ?cw3 = "cw\<lparr>cw_sysParam := s1, cw_priceFeed := s3\<rparr>"
  have s4': "(case peek (pairs_t EF) (cw_priceFeed cw) of None \<Rightarrow> Some (cw_asset ?cw3, True, sm_empty)
      | Some m \<Rightarrow> check_pairs EF EA (sm_items m) m (cw_asset ?cw3)) = Some (s4, ?found, m4)"
    using s4(1) by (cases "peek (pairs_t EF) (cw_priceFeed cw)") (auto simp: bases_found_def)
  have found: "?found \<longleftrightarrow> (\<forall>p. feeds EF (cw_priceFeed cw) p \<longrightarrow> asset_at EA (cw_asset cw) (fst p) \<noteq> None)"
    unfolding feeds by (auto simp: bases_found_def list_all_iff)
  let ?cw = "cw\<lparr>cw_sysParam := s1, cw_priceFeed := s3, cw_asset := s4\<rparr>"
  have run: "CalcMedianPriceDetails ES EP EF EA bh m0 (cw, c) =
      Some ((?cw, ?c), ?found, if ?found then calc_loop bh sw ?c (sm_items m4) sm_empty else m0)"
    by (simp add: CalcMedianPriceDetails_def sw s2(1) s3 s4' Let_def)
  have m4: "p \<in> fst ` set (sm_items m4) \<longleftrightarrow> feeds EF (cw_priceFeed cw) p \<and> may_feed EF EA (cw_asset cw) p" if ?found for p
    using s4(2) [OF that, of p] feeds [of p] by (auto simp: in_dom_sm_items)
  have ds: "sm_find ?ds p = (case stored of None \<Rightarrow> None | Some ds \<Rightarrow> sm_find ds p)" for p
    by (simp split: option.split)
  have "sm_find (calc_loop bh sw ?c (sm_items m4) sm_empty) p =
      (let d = median_detail bh sw (ComputeBlockMedianPrice bh sw p c) (case stored of None \<Rightarrow> None | Some ds \<Rightarrow> sm_find ds p) in
       if feeds EF (cw_priceFeed cw) p \<and> may_feed EF EA (cw_asset cw) p \<and> price d \<noteq> 0 then Some d else None)"
    if ?found for p
    unfolding calc_loop_eq m4 [OF that] GetMedianPrice_latest ds by (simp add: Let_def)
  with run sw Some found show ?thesis by auto
qed

text \<open>The same points, with the pair stored as a feed of an asset that may feed prices.\<close>

definition sample_price_setup ::
  "(nat, string \<times> string, nat) price_env" where
  "sample_price_setup = \<lparr>tx_regid = (\<lambda>_. 2), tx_price_points = (\<lambda>_. []), MEDIAN_PRICE_SLIDE_WINDOW_BLOCKCOUNT = 5\<rparr>"

definition sample_price_cw :: "(string, 32 word, string \<times> uint64) price_cw" where
  "sample_price_cw = \<lparr>cw_sysParam = (sample_sys_db, None),
     cw_priceFeed = (sample_pf_db\<lparr>price_feed_coin_pairs_cache := SDb (Some (sm_of [((''WICC'', ''USD''), ())]))\<rparr>, None),
     cw_asset = after_set (asset_t sample_asset_env) ''WICC'' (''WICC'', 3) (sample_asset_db, None)\<rparr>"

definition sample_pair_points :: "(PriceCoinPair, 32 word, nat) price_cache" where
  "sample_pair_points = PcRoot \<lparr>mapCoinPricePointCache = sm_of [((''WICC'', ''USD''), sm_of [(5, sm_of [(2, 40)])])],
     latest_median_prices = sm_empty\<rparr>"

theorem calc_median_prices_witness:
  "\<exists>st' m. CalcMedianPriceDetails sample_sys_env sample_price_setup sample_pf_env sample_asset_env 6 sm_empty
      (sample_price_cw, sample_pair_points) = Some (st', True, m) \<and>
    sm_find m (''WICC'', ''USD'') = Some \<lparr>last_feed_height = 0, price = 40\<rparr>"
proof -
  let ?p = "(''WICC'', ''USD'')"
  have feeds: "feeds sample_pf_env (cw_priceFeed sample_price_cw) p \<longleftrightarrow> p = ?p" for p
    by (simp add: feeds_def peek_def pf_tables sample_pf_db_def sample_pf_env_def sample_price_cw_def sview_def nonempty_def)
  have asset: "asset_at sample_asset_env (cw_asset sample_price_cw) ''WICC'' = Some (''WICC'', 3)"
    by (simp add: asset_at_def sample_price_cw_def)
  have none: "peek (median_t sample_pf_env) (cw_priceFeed sample_price_cw) = None"
    by (simp add: sample_price_cw_def sample_pf_db_def sample_pf_env_def peek_def pf_tables
        sview_def nonempty_def sdb_val_def simple_new_on_db_def empty_db_def)
  have f: "sm_find (GetBlockUserPrices ?p sample_pair_points) h = (if h = 5 then Some (sm_of [(2, 40)]) else None)" for h
    by (simp add: GetBlockUserPrices_eq sample_pair_points_def entry_def shown_prices_def)
  have known: "kSysParamTable sample_sys_env 5 = Some 100"
    by (simp add: sample_sys_env_def)
  have "lookup (sys_param_t sample_sys_env) (sample_sys_db, None) 5 = None"
    by (simp add: lookup_def view_def visible_def sp_tables sample_sys_db_def sample_sys_env_def db_val_def
        empty_node_def empty_db_def)
  then have sw: "sw = 100" if "ReadSlideWindow sample_sys_env sample_price_setup (cw_sysParam sample_price_cw) = Some (s', Some sw)"
    for s' sw
    using that known by (simp add: ReadSlideWindow_def sample_price_setup_def sample_price_cw_def)
  have "unat (100 :: uint64) = 100" "unat (6 :: 32 word) = 6" by simp_all
  then have "feed_window 6 100 ?p sample_pair_points = [40]"
    by (simp add: feed_window_def block_prices_def f upt_conv_Cons sm_items_set)
  then have d: "median_detail 6 100 (ComputeBlockMedianPrice 6 100 ?p sample_pair_points) None =
      \<lparr>last_feed_height = 0, price = 40\<rparr>"
    by (simp add: median_detail_def ComputeBlockMedianPrice_eq f ComputeMedianNumber_def)
  obtain st' ok m sw where r: "CalcMedianPriceDetails sample_sys_env sample_price_setup sample_pf_env sample_asset_env 6 sm_empty
      (sample_price_cw, sample_pair_points) = Some (st', ok, m)"
    and ok: "ok \<longleftrightarrow> kSysParamTable sample_sys_env (MEDIAN_PRICE_SLIDE_WINDOW_BLOCKCOUNT sample_price_setup) \<noteq> None \<and>
      (\<forall>p. p = ?p \<longrightarrow> asset_at sample_asset_env (cw_asset sample_price_cw) (fst p) \<noteq> None)"
    and read: "kSysParamTable sample_sys_env (MEDIAN_PRICE_SLIDE_WINDOW_BLOCKCOUNT sample_price_setup) \<noteq> None \<longrightarrow>
      (\<exists>s'. ReadSlideWindow sample_sys_env sample_price_setup (cw_sysParam sample_price_cw) = Some (s', Some sw))"
    and m: "ok \<longrightarrow> (\<forall>p. sm_find m p = (let d = median_detail 6 sw (ComputeBlockMedianPrice 6 sw p sample_pair_points) None in
       if p = ?p \<and> may_feed (sample_pf_env :: 32 word price_feed_env) sample_asset_env (cw_asset sample_price_cw) p \<and> price d \<noteq> 0 then Some d else None))"
    using calc_median_prices [OF sample_sys_ok sample_pf_ok sample_asset_ok, where EP = sample_price_setup
        and cw = sample_price_cw and bh = 6 and ?m0.0 = sm_empty and c = sample_pair_points]
    unfolding feeds none option.case by blast
  have par: "MEDIAN_PRICE_SLIDE_WINDOW_BLOCKCOUNT sample_price_setup = 5"
    by (simp add: sample_price_setup_def)
  have ok: "ok"
    unfolding ok par known using asset by simp
  have "may_feed (sample_pf_env :: 32 word price_feed_env) sample_asset_env (cw_asset sample_price_cw) ?p"
    by (simp add: may_feed_def asset) (simp add: sample_pf_env_def)
  moreover have "sw = 100"
    using read sw unfolding par known by blast
  ultimately have "sm_find m ?p = Some \<lparr>last_feed_height = 0, price = 40\<rparr>"
    using m ok d by simp
  with r ok show ?thesis by auto
qed

end
