(* ===== verification/Tx_Tables.thy ===== *)
theory Tx_Tables
  imports Db_Class
begin

text \<open>
  The thin classes over one or two tables: \<open>IneryTxUTXODBCache\<close> (\<open>txutxodb\<close>), the unspent
  outputs and the password proofs; \<open>IneryTxReceiptDBCache\<close> (\<open>txreceiptdb\<close>) and
  \<open>IneryLogDBCache\<close> (\<open>logdb\<close>), which the configuration can switch off; and \<open>CAxcDBCache\<close>
  (\<open>axcdb.h\<close>), the mint records of swaps.  The configuration's answers are fields of the
  environments.
\<close>

declare split_paired_Ex [simp del] split_paired_All [simp del]

section \<open>Unspent outputs\<close>

type_synonym 'h utxo_key = "'h \<times> uint16"

record ('h, 'r) utxo_db =
  tx_utxo_cache :: "('h utxo_key, uint8) kvcache"
  tx_utxo_password_proof_cache :: "('h \<times> uint16 \<times> 'r, 'h) kvcache"

record ('h, 'r) utxo_env =
  ut_db :: CDBAccess
  ut_utxo_ops :: "('h utxo_key, uint8) kvops"
  ut_proof_ops :: "('h \<times> uint16 \<times> 'r, 'h) kvops"

definition utxo_t :: "('h::linorder, 'r::linorder) utxo_env \<Rightarrow> (('h, 'r) utxo_db, 'h utxo_key, uint8) table" where
  "utxo_t E = \<lparr>tget = tx_utxo_cache, tput = (\<lambda>c. tx_utxo_cache_update (\<lambda>_. c)), tops = ut_utxo_ops E, tdb = ut_db E\<rparr>"

definition proof_t :: "('h::linorder, 'r::linorder) utxo_env \<Rightarrow> (('h, 'r) utxo_db, 'h \<times> uint16 \<times> 'r, 'h) table" where
  "proof_t E = \<lparr>tget = tx_utxo_password_proof_cache, tput = (\<lambda>c. tx_utxo_password_proof_cache_update (\<lambda>_. c)),
     tops = ut_proof_ops E, tdb = ut_db E\<rparr>"

definition SetUtxoTx :: "('h::linorder, 'r::linorder) utxo_env \<Rightarrow> 'h utxo_key \<Rightarrow> ('h, 'r) utxo_db dbstate \<Rightarrow>
    (('h, 'r) utxo_db dbstate \<times> bool) option" where
  "SetUtxoTx E utxoKey s = C_SetData (utxo_t E) utxoKey 1 s"

definition GetUtxoTx :: "('h::linorder, 'r::linorder) utxo_env \<Rightarrow> 'h utxo_key \<Rightarrow> ('h, 'r) utxo_db dbstate \<Rightarrow>
    (('h, 'r) utxo_db dbstate \<times> bool) option" where
  "GetUtxoTx E utxoKey s =
     do { (s, r) \<leftarrow> C_GetData (utxo_t E) utxoKey s;
          case r of None \<Rightarrow> Some (s, False) | Some _ \<Rightarrow> Some (s, True) }"

definition DelUtoxTx :: "('h::linorder, 'r::linorder) utxo_env \<Rightarrow> 'h utxo_key \<Rightarrow> ('h, 'r) utxo_db dbstate \<Rightarrow>
    (('h, 'r) utxo_db dbstate \<times> bool) option" where
  "DelUtoxTx E utxoKey s = C_EraseData (utxo_t E) utxoKey s"

definition SetUtxoPasswordProof ::
  "('h::linorder, 'r::linorder) utxo_env \<Rightarrow> 'h \<times> uint16 \<times> 'r \<Rightarrow> 'h \<Rightarrow> ('h, 'r) utxo_db dbstate \<Rightarrow>
    (('h, 'r) utxo_db dbstate \<times> bool) option" where
  "SetUtxoPasswordProof E proofKey prf s = C_SetData (proof_t E) proofKey prf s"

definition GetUtxoPasswordProof ::
  "('h::linorder, 'r::linorder) utxo_env \<Rightarrow> 'h \<times> uint16 \<times> 'r \<Rightarrow> ('h, 'r) utxo_db dbstate \<Rightarrow>
    (('h, 'r) utxo_db dbstate \<times> 'h option) option" where
  "GetUtxoPasswordProof E proofKey s = C_GetData (proof_t E) proofKey s"

definition DelUtoxPasswordProof ::
  "('h::linorder, 'r::linorder) utxo_env \<Rightarrow> 'h \<times> uint16 \<times> 'r \<Rightarrow> ('h, 'r) utxo_db dbstate \<Rightarrow>
    (('h, 'r) utxo_db dbstate \<times> bool) option" where
  "DelUtoxPasswordProof E proofKey s = C_EraseData (proof_t E) proofKey s"

section \<open>Receipts, failures and mint records\<close>

record ('h, 'rc) receipt_db =
  tx_receipt_cache :: "('h, 'rc list) kvcache"
  block_receipt_cache :: "('h, 'rc list) kvcache"

record ('h, 'rc) receipt_env =
  rc_db :: CDBAccess
  rc_tx_ops :: "('h, 'rc list) kvops"
  rc_block_ops :: "('h, 'rc list) kvops"
  IsGenReceipt :: bool

definition tx_receipt_t :: "('h::linorder, 'rc) receipt_env \<Rightarrow> (('h, 'rc) receipt_db, 'h, 'rc list) table" where
  "tx_receipt_t E = \<lparr>tget = tx_receipt_cache, tput = (\<lambda>c. tx_receipt_cache_update (\<lambda>_. c)), tops = rc_tx_ops E, tdb = rc_db E\<rparr>"

definition block_receipt_t :: "('h::linorder, 'rc) receipt_env \<Rightarrow> (('h, 'rc) receipt_db, 'h, 'rc list) table" where
  "block_receipt_t E = \<lparr>tget = block_receipt_cache, tput = (\<lambda>c. block_receipt_cache_update (\<lambda>_. c)),
     tops = rc_block_ops E, tdb = rc_db E\<rparr>"

definition SetTxReceipts :: "('h::linorder, 'rc) receipt_env \<Rightarrow> 'h \<Rightarrow> 'rc list \<Rightarrow> ('h, 'rc) receipt_db dbstate \<Rightarrow>
    (('h, 'rc) receipt_db dbstate \<times> bool) option" where
  "SetTxReceipts E txid receipts s =
     (if \<not> IsGenReceipt E then Some (s, True) else C_SetData (tx_receipt_t E) txid receipts s)"

definition GetTxReceipts :: "('h::linorder, 'rc) receipt_env \<Rightarrow> 'h \<Rightarrow> ('h, 'rc) receipt_db dbstate \<Rightarrow>
    (('h, 'rc) receipt_db dbstate \<times> 'rc list option) option" where
  "GetTxReceipts E txid s =
     (if \<not> IsGenReceipt E then Some (s, None) else C_GetData (tx_receipt_t E) txid s)"

definition SetBlockReceipts :: "('h::linorder, 'rc) receipt_env \<Rightarrow> 'h \<Rightarrow> 'rc list \<Rightarrow> ('h, 'rc) receipt_db dbstate \<Rightarrow>
    (('h, 'rc) receipt_db dbstate \<times> bool) option" where
  "SetBlockReceipts E blockHash receipts s =
     (if \<not> IsGenReceipt E then Some (s, True) else C_SetData (block_receipt_t E) blockHash receipts s)"

definition GetBlockReceipts :: "('h::linorder, 'rc) receipt_env \<Rightarrow> 'h \<Rightarrow> ('h, 'rc) receipt_db dbstate \<Rightarrow>
    (('h, 'rc) receipt_db dbstate \<times> 'rc list option) option" where
  "GetBlockReceipts E blockHash s =
     (if \<not> IsGenReceipt E then Some (s, None) else C_GetData (block_receipt_t E) blockHash s)"

record 'h log_db =
  executeFailCache :: "(uint32 \<times> 'h, uint8 \<times> string) kvcache"

record 'h log_env =
  lg_db :: CDBAccess
  lg_fail_ops :: "(uint32 \<times> 'h, uint8 \<times> string) kvops"
  IsLogFailures :: bool

definition fail_t :: "'h::linorder log_env \<Rightarrow> ('h log_db, uint32 \<times> 'h, uint8 \<times> string) table" where
  "fail_t E = \<lparr>tget = executeFailCache, tput = (\<lambda>c. executeFailCache_update (\<lambda>_. c)), tops = lg_fail_ops E, tdb = lg_db E\<rparr>"

text \<open>The height is converted to 32 unsigned bits.\<close>

definition SetExecuteFail :: "'h::linorder log_env \<Rightarrow> int \<Rightarrow> 'h \<Rightarrow> uint8 \<Rightarrow> string \<Rightarrow> 'h log_db dbstate \<Rightarrow>
    ('h log_db dbstate \<times> bool) option" where
  "SetExecuteFail E blockHeight txid errorCode errorMessage s =
     (if \<not> IsLogFailures E then Some (s, True)
      else C_SetData (fail_t E) (of_int blockHeight, txid) (errorCode, errorMessage) s)"

record axc_db =
  axc_swapin_cache :: "(uint8 \<times> string, uint64) kvcache"

record axc_env =
  ax_db :: CDBAccess
  ax_swapin_ops :: "(uint8 \<times> string, uint64) kvops"

definition swapin_t :: "axc_env \<Rightarrow> (axc_db, uint8 \<times> string, uint64) table" where
  "swapin_t E = \<lparr>tget = axc_swapin_cache, tput = (\<lambda>c. axc_swapin_cache_update (\<lambda>_. c)), tops = ax_swapin_ops E, tdb = ax_db E\<rparr>"

definition SetSwapInMintRecord :: "axc_env \<Rightarrow> uint8 \<Rightarrow> string \<Rightarrow> uint64 \<Rightarrow> axc_db dbstate \<Rightarrow> (axc_db dbstate \<times> bool) option" where
  "SetSwapInMintRecord E peerChainType peerChainTxId mintAmount s =
     (let key = (peerChainType, peerChainTxId) in C_SetData (swapin_t E) key mintAmount s)"

definition GetSwapInMintRecord :: "axc_env \<Rightarrow> uint8 \<Rightarrow> string \<Rightarrow> axc_db dbstate \<Rightarrow> (axc_db dbstate \<times> uint64 option) option" where
  "GetSwapInMintRecord E peerChainType peerChainTxId s =
     (let key = (peerChainType, peerChainTxId) in
      do { (s, r) \<leftarrow> C_GetData (swapin_t E) key s;
           case r of None \<Rightarrow> Some (s, None) | Some amount \<Rightarrow> Some (s, Some amount) })"

section \<open>Laws\<close>

definition utxo_ok :: "('h::linorder, 'r::linorder) utxo_env \<Rightarrow> bool" where
  "utxo_ok E \<longleftrightarrow> access_ok (ut_utxo_ops E) (ut_db E) \<and> access_ok (ut_proof_ops E) (ut_db E) \<and>
     (\<forall>v. val_empty (ut_utxo_ops E) v \<longleftrightarrow> v = 0)"

lemma utxo_tables_ok [simp]:
  assumes "utxo_ok E"
  shows "table_ok (utxo_t E)" "table_ok (proof_t E)" "val_empty (ut_utxo_ops E) v = (v = 0)"
  using assms by (simp_all add: utxo_ok_def table_ok_def utxo_t_def proof_t_def)

lemma utxo_ops [simp]: "tops (utxo_t E) = ut_utxo_ops E" "tops (proof_t E) = ut_proof_ops E"
  by (simp_all add: utxo_t_def proof_t_def)

lemma utxo_indep [simp]: "indep (tget (utxo_t E)) (tput (proof_t E))" "indep (tget (proof_t E)) (tput (utxo_t E))"
  by (simp_all add: indep_def utxo_t_def proof_t_def)

text \<open>The outputs a transaction spends and creates, in any order and with the proofs set and
  deleted in between.\<close>

datatype ('h, 'r) utxo_op =
  Create_Utxo "'h utxo_key"
| Spend_Utxo "'h utxo_key"
| Set_Proof "'h \<times> uint16 \<times> 'r" 'h
| Del_Proof "'h \<times> uint16 \<times> 'r"

fun utxo_call :: "('h::linorder, 'r::linorder) utxo_env \<Rightarrow> ('h, 'r) utxo_op \<Rightarrow> ('h, 'r) utxo_db dbstate \<Rightarrow>
    (('h, 'r) utxo_db dbstate \<times> bool) option" where
  "utxo_call E (Create_Utxo k) s = SetUtxoTx E k s"
| "utxo_call E (Spend_Utxo k) s = DelUtoxTx E k s"
| "utxo_call E (Set_Proof k p) s = SetUtxoPasswordProof E k p s"
| "utxo_call E (Del_Proof k) s = DelUtoxPasswordProof E k s"

fun utxo_run :: "('h::linorder, 'r::linorder) utxo_env \<Rightarrow> ('h, 'r) utxo_op list \<Rightarrow> ('h, 'r) utxo_db dbstate \<Rightarrow>
    ('h, 'r) utxo_db dbstate option" where
  "utxo_run E [] s = Some s"
| "utxo_run E (c # cs) s = do { (s, _) \<leftarrow> utxo_call E c s; utxo_run E cs s }"

text \<open>The set of unspent outputs that the calls describe.\<close>

fun utxo_set :: "('h, 'r) utxo_op list \<Rightarrow> 'h utxo_key set \<Rightarrow> 'h utxo_key set" where
  "utxo_set [] U = U"
| "utxo_set (Create_Utxo k # cs) U = utxo_set cs (insert k U)"
| "utxo_set (Spend_Utxo k # cs) U = utxo_set cs (U - {k})"
| "utxo_set (_ # cs) U = utxo_set cs U"

definition unspent :: "('h::linorder, 'r::linorder) utxo_env \<Rightarrow> ('h, 'r) utxo_db dbstate \<Rightarrow> 'h utxo_key set" where
  "unspent E s = {k. lookup (utxo_t E) s k \<noteq> None}"

lemma utxo_call_eq:
  assumes "utxo_ok E"
  shows "\<exists>s' ok. utxo_call E c s = Some (s', ok) \<and>
    unspent E s' = {k \<in> utxo_set [c] (unspent E s). \<not> key_empty (ut_utxo_ops E) k}"
proof -
  have empty: "key_empty (ut_utxo_ops E) k \<Longrightarrow> lookup (utxo_t E) s k = None" for k
    using lookup_empty_key [of "utxo_t E" k s] by simp
  show ?thesis
    using assms empty
    by (cases c) (auto simp: SetUtxoTx_def DelUtoxTx_def SetUtxoPasswordProof_def DelUtoxPasswordProof_def unspent_def
        split: if_splits)
qed

lemma utxo_set_local: "(k \<in> A \<longleftrightarrow> k \<in> B) \<Longrightarrow> k \<in> utxo_set cs A \<longleftrightarrow> k \<in> utxo_set cs B"
  by (induction cs A arbitrary: B rule: utxo_set.induct) auto

lemma utxo_set_step: "utxo_set (c # cs) U = utxo_set cs (utxo_set [c] U)"
  by (cases c) simp_all

lemma utxo_run_eq:
  assumes "utxo_ok E"
  shows "\<exists>s'. utxo_run E cs s = Some s' \<and> (\<forall>k. \<not> key_empty (ut_utxo_ops E) k \<longrightarrow>
    (k \<in> unspent E s' \<longleftrightarrow> k \<in> utxo_set cs (unspent E s)))"
proof (induction cs arbitrary: s)
  case (Cons c cs)
  obtain s1 ok where s1: "utxo_call E c s = Some (s1, ok)"
    "unspent E s1 = {k \<in> utxo_set [c] (unspent E s). \<not> key_empty (ut_utxo_ops E) k}"
    using utxo_call_eq [OF assms] by blast
  obtain s' where s': "utxo_run E cs s1 = Some s'"
    "\<And>k. \<not> key_empty (ut_utxo_ops E) k \<Longrightarrow> k \<in> unspent E s' \<longleftrightarrow> k \<in> utxo_set cs (unspent E s1)"
    using Cons [of s1] by blast
  have "k \<in> unspent E s' \<longleftrightarrow> k \<in> utxo_set (c # cs) (unspent E s)" if "\<not> key_empty (ut_utxo_ops E) k" for k
    unfolding utxo_set_step [of c cs] s'(2) [OF that] by (rule utxo_set_local) (simp add: s1(2) that)
  moreover have "utxo_run E (c # cs) s = Some s'"
    by (simp add: s1(1) s'(1))
  ultimately show ?case by blast
qed simp

definition receipt_ok :: "('h::linorder, 'rc) receipt_env \<Rightarrow> bool" where
  "receipt_ok E \<longleftrightarrow> access_ok (rc_tx_ops E) (rc_db E) \<and> access_ok (rc_block_ops E) (rc_db E) \<and>
     (\<forall>rs. val_empty (rc_tx_ops E) rs \<longleftrightarrow> rs = []) \<and> (\<forall>rs. val_empty (rc_block_ops E) rs \<longleftrightarrow> rs = [])"

lemma receipt_tables_ok [simp]:
  assumes "receipt_ok E"
  shows "table_ok (tx_receipt_t E)" "table_ok (block_receipt_t E)" "val_empty (rc_tx_ops E) rs = (rs = [])"
    "val_empty (rc_block_ops E) rs = (rs = [])"
  using assms by (simp_all add: receipt_ok_def table_ok_def tx_receipt_t_def block_receipt_t_def)

lemma receipt_ops [simp]: "tops (tx_receipt_t E) = rc_tx_ops E" "tops (block_receipt_t E) = rc_block_ops E"
  by (simp_all add: tx_receipt_t_def block_receipt_t_def)

lemma receipt_indep [simp]:
  "indep (tget (tx_receipt_t E)) (tput (block_receipt_t E))" "indep (tget (block_receipt_t E)) (tput (tx_receipt_t E))"
  by (simp_all add: indep_def tx_receipt_t_def block_receipt_t_def)

definition axc_ok :: "axc_env \<Rightarrow> bool" where
  "axc_ok E \<longleftrightarrow> access_ok (ax_swapin_ops E) (ax_db E) \<and> (\<forall>v. val_empty (ax_swapin_ops E) v \<longleftrightarrow> v = 0)"

lemma axc_table_ok [simp]: "axc_ok E \<Longrightarrow> table_ok (swapin_t E)" "axc_ok E \<Longrightarrow> val_empty (ax_swapin_ops E) v = (v = 0)"
  by (simp_all add: axc_ok_def table_ok_def swapin_t_def)

lemma axc_ops [simp]: "tops (swapin_t E) = ax_swapin_ops E"
  by (simp add: swapin_t_def)

section \<open>A concrete instance\<close>

definition sample_utxo_env :: "(uint64, uint64) utxo_env" where
  "sample_utxo_env = \<lparr>ut_db = empty_db DB_UTXO,
     ut_utxo_ops = sample_ops TX_UTXO (pair_db uint_db uint_db) uint_db 0 (pair_c word_c word_c) word_c,
     ut_proof_ops = sample_ops UTXO_PWSDPRF (tuple3_db uint_db uint_db uint_db) uint_db 0
       (pair_c word_c (pair_c word_c word_c)) word_c\<rparr>"

definition sample_utxo_db :: "(uint64, uint64) utxo_db" where
  "sample_utxo_db = \<lparr>tx_utxo_cache = DbCache (empty_node True), tx_utxo_password_proof_cache = DbCache (empty_node True)\<rparr>"

definition sample_utxo_ops :: "(uint64, uint64) utxo_op list" where
  "sample_utxo_ops = [Create_Utxo (7, 0), Create_Utxo (7, 1), Set_Proof (7, 1, 3) 9, Spend_Utxo (7, 0)]"

lemma sample_utxo_ok [simp]: "utxo_ok sample_utxo_env"
  by (simp add: utxo_ok_def sample_utxo_env_def sample_access_ok is_data_prefix_def)

definition sample_receipt_env :: "(uint64, string) receipt_env" where
  "sample_receipt_env = \<lparr>rc_db = empty_db DB_RECEIPT,
     rc_tx_ops = sample_ops TX_RECEIPT uint_db (vector_db string_db) [] word_c (list_c string_c),
     rc_block_ops = sample_ops BLOCK_RECEIPT uint_db (vector_db string_db) [] word_c (list_c string_c),
     IsGenReceipt = True\<rparr>"

definition sample_receipt_db :: "(uint64, string) receipt_db" where
  "sample_receipt_db = \<lparr>tx_receipt_cache = DbCache (empty_node True), block_receipt_cache = DbCache (empty_node True)\<rparr>"

lemma sample_receipt_ok [simp]: "receipt_ok sample_receipt_env"
  by (simp add: receipt_ok_def sample_receipt_env_def sample_access_ok is_data_prefix_def)

definition sample_axc_env :: axc_env where
  "sample_axc_env = \<lparr>ax_db = empty_db DB_AXC,
     ax_swapin_ops = sample_ops AXC_SWAP_IN (pair_db uint_db string_db) uint_db 0 (pair_c word_c string_c) word_c\<rparr>"

lemma sample_axc_ok [simp]: "axc_ok sample_axc_env"
  by (simp add: axc_ok_def sample_axc_env_def sample_access_ok is_data_prefix_def)

section \<open>Properties\<close>

text \<open>
  Claim C27: The table of unspent outputs is the set its history describes.  After any
  sequence of creating and spending outputs and of setting and deleting password proofs, none
  of which fails, an output is found exactly when it was created after it was last spent, or
  was there before and not spent since; the null key is never found.
\<close>

theorem utxo_history:
  assumes "utxo_ok E"
  shows "\<exists>s'. utxo_run E cs s = Some s' \<and>
    (\<forall>k. \<exists>s''. GetUtxoTx E k s' = Some (s'', \<not> key_empty (ut_utxo_ops E) k \<and> k \<in> utxo_set cs (unspent E s)))"
proof -
  obtain s' where s': "utxo_run E cs s = Some s'"
    "\<And>k. \<not> key_empty (ut_utxo_ops E) k \<Longrightarrow> k \<in> unspent E s' \<longleftrightarrow> k \<in> utxo_set cs (unspent E s)"
    using utxo_run_eq [OF assms, of cs s] by blast
  have "\<exists>s''. GetUtxoTx E k s' = Some (s'', lookup (utxo_t E) s' k \<noteq> None)" for k
    using assms by (simp add: GetUtxoTx_def split: option.split)
  moreover have "lookup (utxo_t E) s' k \<noteq> None \<longleftrightarrow> \<not> key_empty (ut_utxo_ops E) k \<and> k \<in> utxo_set cs (unspent E s)" for k
  proof (cases "key_empty (ut_utxo_ops E) k")
    case True
    then show ?thesis
      using lookup_empty_key [of "utxo_t E" k s'] by simp
  next
    case False
    then show ?thesis
      using s'(2) [of k] by (simp add: unspent_def)
  qed
  ultimately show ?thesis
    using s'(1) by auto
qed

theorem utxo_history_witness:
  "\<exists>s' s1 s2. utxo_run sample_utxo_env sample_utxo_ops
      (sample_utxo_db, None) = Some s' \<and>
    GetUtxoTx sample_utxo_env (7, 0) s' = Some (s1, False) \<and> GetUtxoTx sample_utxo_env (7, 1) s' = Some (s2, True)"
proof -
  have "\<not> key_empty (ut_utxo_ops sample_utxo_env) (7, n)" for n
    by (simp add: sample_utxo_env_def)
  moreover obtain s' where s': "utxo_run sample_utxo_env sample_utxo_ops
      (sample_utxo_db, None) = Some s'"
    "\<And>k. \<exists>s''. GetUtxoTx sample_utxo_env k s' = Some (s'', \<not> key_empty (ut_utxo_ops sample_utxo_env) k \<and>
       k \<in> utxo_set sample_utxo_ops
         (unspent sample_utxo_env (sample_utxo_db, None)))"
    using utxo_history [OF sample_utxo_ok,
of sample_utxo_ops "(sample_utxo_db, None)"]
    by blast
  ultimately obtain s1 s2 where "GetUtxoTx sample_utxo_env (7, 0) s' = Some (s1, False)"
    "GetUtxoTx sample_utxo_env (7, 1) s' = Some (s2, True)"
    using s'(2) [of "(7, 0)"] s'(2) [of "(7, 1)"] by (auto simp: sample_utxo_ops_def)
  with s'(1) show ?thesis by blast
qed

text \<open>
  Receipts are recorded exactly when the configuration asks for them: with the switch
  on, the receipts of a transaction and of a block read back as they were set and do not touch
  each other; with it off, setting is accepted and leaves every table as it was, and reading
  finds nothing.
\<close>

theorem receipts_switch:
  assumes "receipt_ok E"
  shows "\<exists>s1 s2. SetTxReceipts E x rs s = Some (s1, \<not> IsGenReceipt E \<or> \<not> key_empty (rc_tx_ops E) x) \<and>
    SetBlockReceipts E b bs s1 = Some (s2, \<not> IsGenReceipt E \<or> \<not> key_empty (rc_block_ops E) b) \<and>
    (\<not> IsGenReceipt E \<longrightarrow> s2 = s) \<and>
    (\<forall>y. \<exists>s3. GetTxReceipts E y s2 = Some (s3, if \<not> IsGenReceipt E then None
       else if y = x \<and> \<not> key_empty (rc_tx_ops E) x then (if rs = [] then None else Some rs) else lookup (tx_receipt_t E) s y)) \<and>
    (\<forall>c. \<exists>s3. GetBlockReceipts E c s2 = Some (s3, if \<not> IsGenReceipt E then None
       else if c = b \<and> \<not> key_empty (rc_block_ops E) b then (if bs = [] then None else Some bs) else lookup (block_receipt_t E) s c))"
  using assms
  by (simp add: SetTxReceipts_def SetBlockReceipts_def GetTxReceipts_def GetBlockReceipts_def)

theorem receipts_switch_witness:
  "\<exists>s1 s2. SetTxReceipts sample_receipt_env 5 [''r''] (sample_receipt_db, None) = Some (s1, True) \<and>
    (\<exists>s3. SetBlockReceipts sample_receipt_env 6 [''q''] s1 = Some (s2, True) \<and>
    GetTxReceipts sample_receipt_env 5 s2 = Some (s3, Some [''r'']))"
proof -
  have "IsGenReceipt sample_receipt_env" "\<not> key_empty (rc_tx_ops sample_receipt_env) 5"
    "\<not> key_empty (rc_block_ops sample_receipt_env) 6"
    by (simp_all add: sample_receipt_env_def)
  with receipts_switch [OF sample_receipt_ok, of 5 "[''r'']" "(sample_receipt_db, None)" 6 "[''q'']"]
  show ?thesis by (auto dest: spec [of _ 5])
qed

text \<open>
  A mint record of a swap reads back with its amount, other chains and transactions
  keep theirs, and a record of amount zero cannot be told from none.
\<close>

theorem swap_in_record:
  assumes "axc_ok E"
  shows "\<exists>s1. SetSwapInMintRecord E c x a s = Some (s1, \<not> key_empty (ax_swapin_ops E) (c, x)) \<and>
    (\<forall>d y. \<exists>s2. GetSwapInMintRecord E d y s1 = Some (s2,
       if (d, y) = (c, x) \<and> \<not> key_empty (ax_swapin_ops E) (c, x) then (if a = 0 then None else Some a)
       else lookup (swapin_t E) s (d, y)))"
  using assms by (simp add: SetSwapInMintRecord_def GetSwapInMintRecord_def Let_def split: option.split)

theorem swap_in_record_witness:
  "\<exists>s1 s2. SetSwapInMintRecord sample_axc_env 1 ''tx'' 70 (\<lparr>axc_swapin_cache = DbCache (empty_node True)\<rparr>, None) = Some (s1, True) \<and>
    GetSwapInMintRecord sample_axc_env 1 ''tx'' s1 = Some (s2, Some 70)"
proof -
  have "\<not> key_empty (ax_swapin_ops sample_axc_env) (1, ''tx'')"
    by (simp add: sample_axc_env_def)
  moreover obtain s1 where s1: "SetSwapInMintRecord sample_axc_env 1 ''tx'' 70 (\<lparr>axc_swapin_cache = DbCache (empty_node True)\<rparr>, None) =
      Some (s1, \<not> key_empty (ax_swapin_ops sample_axc_env) (1, ''tx''))"
    "\<exists>s2. GetSwapInMintRecord sample_axc_env 1 ''tx'' s1 = Some (s2,
       if (1 :: uint8, ''tx'') = (1, ''tx'') \<and> \<not> key_empty (ax_swapin_ops sample_axc_env) (1, ''tx'')
       then (if 70 = (0 :: uint64) then None else Some 70)
       else lookup (swapin_t sample_axc_env) (\<lparr>axc_swapin_cache = DbCache (empty_node True)\<rparr>, None) (1, ''tx''))"
    using swap_in_record [OF sample_axc_ok, of 1 "''tx''" 70 "(\<lparr>axc_swapin_cache = DbCache (empty_node True)\<rparr>, None)"]
    by blast
  ultimately show ?thesis by auto
qed

end
