(* ===== verification/Block_Db.thy ===== *)
theory Block_Db
  imports Block Sys_Param
begin

text \<open>
  \<open>blockdb.h\<close> and \<open>blockdb.cpp\<close>: the database of block indexes, read at start into
  \<open>mapBlockIndex\<close>, and the tables of the block database (positions of transactions, flags, best
  block, last block file, reindexing, final block, inflated reward).  The index database is a
  leveldb of its own; the map holds the index objects by the hash their pointer stands for.
\<close>

declare split_paired_Ex [simp del] split_paired_All [simp del]

section \<open>The inflated reward\<close>

record IneryBlockInflatedReward =
  start_height :: uint64
  new_rewards :: uint64
  total_minted :: uint64
  last_minted :: uint64
  last_minted_height :: uint64

definition InflatedReward_EMPTY :: IneryBlockInflatedReward where
  "InflatedReward_EMPTY = \<lparr>start_height = 0, new_rewards = 0, total_minted = 0, last_minted = 0, last_minted_height = 0\<rparr>"

definition InflatedReward_IsEmpty :: "IneryBlockInflatedReward \<Rightarrow> bool" where
  "InflatedReward_IsEmpty r \<longleftrightarrow> start_height r = 0 \<and> new_rewards r = 0 \<and> total_minted r = 0 \<and>
     last_minted r = 0 \<and> last_minted_height r = 0"

definition InflatedReward_SetEmpty :: "IneryBlockInflatedReward \<Rightarrow> IneryBlockInflatedReward" where
  "InflatedReward_SetEmpty r = InflatedReward_EMPTY"

definition InflatedReward_ToString :: "IneryBlockInflatedReward \<Rightarrow> string" where
  "InflatedReward_ToString r = ''{'' @
     ''start_height='' @ nat_to_string (unat (start_height r)) @ '', '' @
     ''new_rewards='' @ nat_to_string (unat (new_rewards r)) @ '', '' @
     ''total_minted='' @ nat_to_string (unat (total_minted r)) @ '', '' @
     ''last_minted='' @ nat_to_string (unat (last_minted r)) @ '', '' @
     ''last_minted_height='' @ nat_to_string (unat (last_minted_height r)) @ '', '' @ ''}''"

definition reward_db :: "IneryBlockInflatedReward db_type" where
  "reward_db = \<lparr>IsEmpty = InflatedReward_IsEmpty, SetEmpty = InflatedReward_SetEmpty, ToString = InflatedReward_ToString\<rparr>"

lemma canonical_reward [simp]: "canonical reward_db"
  unfolding canonical_def reward_db_def
  by (intro exI [of _ InflatedReward_EMPTY])
    (auto simp: InflatedReward_EMPTY_def InflatedReward_IsEmpty_def InflatedReward_SetEmpty_def
      intro: IneryBlockInflatedReward.equality)

section \<open>The index database\<close>

text \<open>The serialisations of hashes, indexes and file records are fields of the codec.\<close>

record ('h, 'r) index_codec =
  enc_hash :: "'h \<Rightarrow> string"
  enc_index :: "('h, 'r) IneryDiskBlockIndex \<Rightarrow> string"
  dec_index :: "string \<Rightarrow> ('h, 'r) IneryDiskBlockIndex option"
  enc_nFile :: "int \<Rightarrow> string"
  enc_info :: "IneryBlockFileInfo \<Rightarrow> string"
  dec_info :: "string \<Rightarrow> IneryBlockFileInfo option"

definition GetBlockIndex :: "('h, 'r) index_codec \<Rightarrow> 'h \<Rightarrow> leveldb \<Rightarrow> ('h, 'r) IneryDiskBlockIndex option option" where
  "GetBlockIndex C hash db = do { k \<leftarrow> GenDbKey (enc_hash C) BLOCK_INDEX hash; Wrapper_Read (dec_index C) db k }"

definition WriteBlockIndex ::
  "('h, 'tx, 'uid, 'pm, 'cord) block_env \<Rightarrow> ('h, 'r) index_codec \<Rightarrow> ('h, 'r) IneryDiskBlockIndex \<Rightarrow> leveldb \<Rightarrow> leveldb option" where
  "WriteBlockIndex E C blockIndex db =
     do { k \<leftarrow> GenDbKey (enc_hash C) BLOCK_INDEX (DiskBlockIndex_GetBlockHash E blockIndex);
          Wrapper_Write (enc_index C) db k blockIndex }"

definition EraseBlockIndex :: "('h, 'r) index_codec \<Rightarrow> 'h \<Rightarrow> leveldb \<Rightarrow> leveldb option" where
  "EraseBlockIndex C blockHash db =
     do { k \<leftarrow> GenDbKey (enc_hash C) BLOCK_INDEX blockHash; Wrapper_Erase db k }"

definition WriteBlockFileInfo :: "('h, 'r) index_codec \<Rightarrow> int \<Rightarrow> IneryBlockFileInfo \<Rightarrow> leveldb \<Rightarrow> leveldb option" where
  "WriteBlockFileInfo C n info db =
     do { k \<leftarrow> GenDbKey (enc_nFile C) BLOCKFILE_NUM_INFO n; Wrapper_Write (enc_info C) db k info }"

definition ReadBlockFileInfo :: "('h, 'r) index_codec \<Rightarrow> int \<Rightarrow> leveldb \<Rightarrow> IneryBlockFileInfo option option" where
  "ReadBlockFileInfo C n db =
     do { k \<leftarrow> GenDbKey (enc_nFile C) BLOCKFILE_NUM_INFO n; Wrapper_Read (dec_info C) db k }"

text \<open>\<open>InsertBlockIndex\<close> returns the pointer of the object: the hash, or null for the null hash.\<close>

definition InsertBlockIndex ::
  "('h, 'tx, 'uid, 'pm, 'cord) block_env \<Rightarrow> 'h \<Rightarrow> 'h block_map \<Rightarrow> 'h option \<times> 'h block_map" where
  "InsertBlockIndex E hash M =
     (if hash = uint256_null E then (None, M)
      else if sm_find M hash \<noteq> None then (Some hash, M)
      else (Some hash, sm_set hash (BlockIndex_default\<lparr>pBlockHash := Some hash\<rparr>) M))"

text \<open>The assignments to the object of a loaded index.\<close>

definition fill_index :: "('h, 'r) IneryDiskBlockIndex \<Rightarrow> 'h option \<Rightarrow> 'h IneryBlockIndex \<Rightarrow> 'h IneryBlockIndex" where
  "fill_index d prev i = i\<lparr>pprev := prev, bi_height := bi_height d, bi_nFile := bi_nFile d,
     nDataPos := nDataPos d, nUndoPos := nUndoPos d, bi_nVersion := bi_nVersion d, bi_nTime := bi_nTime d,
     nStatus := nStatus d, bi_nFuelFee := bi_nFuelFee d, bi_nFuelRate := bi_nFuelRate d\<rparr>"

definition CheckIndex :: "'h IneryBlockIndex \<Rightarrow> bool" where "CheckIndex i \<longleftrightarrow> True"

text \<open>
  The loop of \<open>LoadBlockIndexes\<close> over the cursor.  The outer option is the dereference of a null
  pointer, which happens for an index whose hash is null; false is a value that does not
  deserialise.  The map keeps what was inserted before an error.
\<close>

fun load_loop ::
  "('h, 'tx, 'uid, 'pm, 'cord) block_env \<Rightarrow> ('h, 'r) index_codec \<Rightarrow> (string \<times> string) list \<Rightarrow> 'h block_map \<Rightarrow>
     (bool \<times> 'h block_map) option" where
  "load_loop E C [] M = Some (True, M)"
| "load_loop E C ((k, v) # pCursor) M =
     (if \<not> prefix (GetKeyPrefix BLOCK_INDEX) k then Some (True, M)
      else case dec_index C v of
        None \<Rightarrow> Some (False, M)
      | Some diskIndex \<Rightarrow>
          (let (pIndexNew, M) = InsertBlockIndex E (DiskBlockIndex_GetBlockHash E diskIndex) M;
               (prev, M) = InsertBlockIndex E (hashPrev diskIndex) M in
           do { h \<leftarrow> pIndexNew; i \<leftarrow> sm_find M h;
                let i = fill_index diskIndex prev i;
                let M = sm_set h i M;
                if \<not> CheckIndex i then Some (False, M) else load_loop E C pCursor M }))"

definition LoadBlockIndexes ::
  "('h, 'tx, 'uid, 'pm, 'cord) block_env \<Rightarrow> ('h, 'r) index_codec \<Rightarrow> leveldb \<Rightarrow> 'h block_map \<Rightarrow> (bool \<times> 'h block_map) option" where
  "LoadBlockIndexes E C db M =
     load_loop E C (dropWhile (\<lambda>kv. fst kv < GetKeyPrefix BLOCK_INDEX) (NewIterator db)) M"

text \<open>\<open>GetBlockHeader\<close> of \<open>block.cpp\<close> fills the header it is given.\<close>

definition GetBlockHeader ::
  "('h, 'r) index_codec \<Rightarrow> 'h IneryBlockIndex \<Rightarrow> 'h IneryBlockHeader \<Rightarrow> leveldb \<Rightarrow> (bool \<times> 'h IneryBlockHeader) option" where
  "GetBlockHeader C pBlockIndex header db =
     do { h \<leftarrow> pBlockHash pBlockIndex;
          r \<leftarrow> GetBlockIndex C h db;
          case r of None \<Rightarrow> Some (False, header)
          | Some diskBlockIndex \<Rightarrow> Some (True, DiskBlockIndex_GetBlockHeader diskBlockIndex header) }"

section \<open>The tables of the block database\<close>

record ('h, 'pos) block_db =
  tx_diskpos_cache :: "('h, 'pos) kvcache"
  flag_cache :: "(string, bool) kvcache"
  best_block_hash_cache :: "'h simple_cache"
  last_block_file_cache :: "int simple_cache"
  reindex_cache :: "bool simple_cache"
  finality_block_cache :: "(int \<times> 'h) simple_cache"
  block_inflated_reward_cache :: "IneryBlockInflatedReward simple_cache"

record ('h, 'pos) block_db_env =
  bl_db :: CDBAccess
  bl_pos_ops :: "('h, 'pos) kvops"
  bl_flag_ops :: "(string, bool) kvops"
  bl_best_ops :: "(unit, 'h) kvops"
  bl_file_ops :: "(unit, int) kvops"
  bl_reindex_ops :: "(unit, bool) kvops"
  bl_final_ops :: "(unit, int \<times> 'h) kvops"
  bl_reward_ops :: "(unit, IneryBlockInflatedReward) kvops"
  bl_null_hash :: 'h

definition pos_t :: "('h::linorder, 'pos) block_db_env \<Rightarrow> (('h, 'pos) block_db, 'h, 'pos) table" where
  "pos_t E = \<lparr>tget = tx_diskpos_cache, tput = (\<lambda>c. tx_diskpos_cache_update (\<lambda>_. c)), tops = bl_pos_ops E, tdb = bl_db E\<rparr>"

definition flag_t :: "('h::linorder, 'pos) block_db_env \<Rightarrow> (('h, 'pos) block_db, string, bool) table" where
  "flag_t E = \<lparr>tget = flag_cache, tput = (\<lambda>c. flag_cache_update (\<lambda>_. c)), tops = bl_flag_ops E, tdb = bl_db E\<rparr>"

definition best_t :: "('h::linorder, 'pos) block_db_env \<Rightarrow> (('h, 'pos) block_db, 'h) cell" where
  "best_t E = \<lparr>cget = best_block_hash_cache, cput = (\<lambda>c. best_block_hash_cache_update (\<lambda>_. c)), cops = bl_best_ops E, cdb = bl_db E\<rparr>"

definition file_t :: "('h::linorder, 'pos) block_db_env \<Rightarrow> (('h, 'pos) block_db, int) cell" where
  "file_t E = \<lparr>cget = last_block_file_cache, cput = (\<lambda>c. last_block_file_cache_update (\<lambda>_. c)), cops = bl_file_ops E, cdb = bl_db E\<rparr>"

definition reindex_t :: "('h::linorder, 'pos) block_db_env \<Rightarrow> (('h, 'pos) block_db, bool) cell" where
  "reindex_t E = \<lparr>cget = reindex_cache, cput = (\<lambda>c. reindex_cache_update (\<lambda>_. c)), cops = bl_reindex_ops E, cdb = bl_db E\<rparr>"

definition final_t :: "('h::linorder, 'pos) block_db_env \<Rightarrow> (('h, 'pos) block_db, int \<times> 'h) cell" where
  "final_t E = \<lparr>cget = finality_block_cache, cput = (\<lambda>c. finality_block_cache_update (\<lambda>_. c)), cops = bl_final_ops E, cdb = bl_db E\<rparr>"

definition reward_t :: "('h::linorder, 'pos) block_db_env \<Rightarrow> (('h, 'pos) block_db, IneryBlockInflatedReward) cell" where
  "reward_t E = \<lparr>cget = block_inflated_reward_cache, cput = (\<lambda>c. block_inflated_reward_cache_update (\<lambda>_. c)),
     cops = bl_reward_ops E, cdb = bl_db E\<rparr>"

type_synonym ('h, 'pos) block_state = "('h, 'pos) block_db dbstate"

definition GetBestBlockHash :: "('h::linorder, 'pos) block_db_env \<Rightarrow> ('h, 'pos) block_state \<Rightarrow> (('h, 'pos) block_state \<times> 'h) option" where
  "GetBestBlockHash E s =
     do { (s, r) \<leftarrow> S_GetData (best_t E) s; Some (s, case r of Some blockHash \<Rightarrow> blockHash | None \<Rightarrow> bl_null_hash E) }"

definition SetBestBlock :: "('h::linorder, 'pos) block_db_env \<Rightarrow> 'h \<Rightarrow> ('h, 'pos) block_state \<Rightarrow> (('h, 'pos) block_state \<times> bool) option" where
  "SetBestBlock E blockHashIn s = S_SetData (best_t E) blockHashIn s"

definition WriteLastBlockFile :: "('h::linorder, 'pos) block_db_env \<Rightarrow> int \<Rightarrow> ('h, 'pos) block_state \<Rightarrow>
    (('h, 'pos) block_state \<times> bool) option" where
  "WriteLastBlockFile E n s = S_SetData (file_t E) n s"

definition ReadLastBlockFile :: "('h::linorder, 'pos) block_db_env \<Rightarrow> ('h, 'pos) block_state \<Rightarrow>
    (('h, 'pos) block_state \<times> int option) option" where
  "ReadLastBlockFile E s = S_GetData (file_t E) s"

definition ReadTxIndex :: "('h::linorder, 'pos) block_db_env \<Rightarrow> 'h \<Rightarrow> ('h, 'pos) block_state \<Rightarrow>
    (('h, 'pos) block_state \<times> 'pos option) option" where
  "ReadTxIndex E txid s = C_GetData (pos_t E) txid s"

definition SetTxIndex :: "('h::linorder, 'pos) block_db_env \<Rightarrow> 'h \<Rightarrow> 'pos \<Rightarrow> ('h, 'pos) block_state \<Rightarrow>
    (('h, 'pos) block_state \<times> bool) option" where
  "SetTxIndex E txid pos s = C_SetData (pos_t E) txid pos s"

fun WriteTxIndexes :: "('h::linorder, 'pos) block_db_env \<Rightarrow> ('h \<times> 'pos) list \<Rightarrow> ('h, 'pos) block_state \<Rightarrow>
    (('h, 'pos) block_state \<times> bool) option" where
  "WriteTxIndexes E [] s = Some (s, True)"
| "WriteTxIndexes E (it # xs) s =
     do { (s, ok) \<leftarrow> C_SetData (pos_t E) (fst it) (snd it) s;
          if \<not> ok then Some (s, False) else WriteTxIndexes E xs s }"

definition WriteReindexing :: "('h::linorder, 'pos) block_db_env \<Rightarrow> bool \<Rightarrow> ('h, 'pos) block_state \<Rightarrow>
    (('h, 'pos) block_state \<times> bool) option" where
  "WriteReindexing E fReindexing s = (if fReindexing then S_SetData (reindex_t E) True s else S_EraseData (reindex_t E) s)"

definition ReadReindexing :: "('h::linorder, 'pos) block_db_env \<Rightarrow> ('h, 'pos) block_state \<Rightarrow>
    (('h, 'pos) block_state \<times> bool option) option" where
  "ReadReindexing E s = S_GetData (reindex_t E) s"

definition WriteFlag :: "('h::linorder, 'pos) block_db_env \<Rightarrow> string \<Rightarrow> bool \<Rightarrow> ('h, 'pos) block_state \<Rightarrow>
    (('h, 'pos) block_state \<times> bool) option" where
  "WriteFlag E name fValue s = C_SetData (flag_t E) name fValue s"

definition ReadFlag :: "('h::linorder, 'pos) block_db_env \<Rightarrow> string \<Rightarrow> ('h, 'pos) block_state \<Rightarrow>
    (('h, 'pos) block_state \<times> bool option) option" where
  "ReadFlag E name s = C_GetData (flag_t E) name s"

definition WriteGlobalFinBlock :: "('h::linorder, 'pos) block_db_env \<Rightarrow> int \<Rightarrow> 'h \<Rightarrow> ('h, 'pos) block_state \<Rightarrow>
    (('h, 'pos) block_state \<times> bool) option" where
  "WriteGlobalFinBlock E height hash s = do { (s, _) \<leftarrow> S_SetData (final_t E) (height, hash) s; Some (s, True) }"

definition ReadGlobalFinBlock :: "('h::linorder, 'pos) block_db_env \<Rightarrow> ('h, 'pos) block_state \<Rightarrow>
    (('h, 'pos) block_state \<times> (int \<times> 'h) option) option" where
  "ReadGlobalFinBlock E s = S_GetData (final_t E) s"

definition GetBlockInflatedReward :: "('h::linorder, 'pos) block_db_env \<Rightarrow> ('h, 'pos) block_state \<Rightarrow>
    (('h, 'pos) block_state \<times> IneryBlockInflatedReward option) option" where
  "GetBlockInflatedReward E s = S_GetData (reward_t E) s"

definition SetBlockInflatedReward :: "('h::linorder, 'pos) block_db_env \<Rightarrow> IneryBlockInflatedReward \<Rightarrow> ('h, 'pos) block_state \<Rightarrow>
    (('h, 'pos) block_state \<times> bool) option" where
  "SetBlockInflatedReward E value s = S_SetData (reward_t E) value s"

text \<open>The block database asserts that it is opened on its own database.\<close>

definition BlockDBCache_make :: "('h::linorder, 'pos) block_db_env \<Rightarrow> ('h, 'pos) block_db option" where
  "BlockDBCache_make E =
     do { pos \<leftarrow> new_on_db (bl_pos_ops E) (bl_db E);
          flag \<leftarrow> new_on_db (bl_flag_ops E) (bl_db E);
          if dbNameType (bl_db E) \<noteq> DB_BLOCK then None
          else Some \<lparr>tx_diskpos_cache = pos, flag_cache = flag,
            best_block_hash_cache = simple_new_on_db, last_block_file_cache = simple_new_on_db,
            reindex_cache = simple_new_on_db, finality_block_cache = simple_new_on_db,
            block_inflated_reward_cache = simple_new_on_db\<rparr> }"

end
