(* ===== verification/Block_Db_Laws.thy ===== *)
theory Block_Db_Laws
  imports Block_Db
begin

text \<open>
  What the block index database and the block tables promise: the indexes written before a
  restart are loaded back, linked by their hashes, and the table operations read what they
  wrote.
\<close>

declare split_paired_Ex [simp del] split_paired_All [simp del]

section \<open>Loading\<close>

text \<open>One step of the loop, for an index with a hash.\<close>

definition load_one ::
  "('h, 'tx, 'uid, 'pm, 'cord) block_env \<Rightarrow> ('h, 'r) IneryDiskBlockIndex \<Rightarrow> 'h block_map \<Rightarrow> 'h block_map" where
  "load_one E d M =
     (let M = snd (InsertBlockIndex E (DiskBlockIndex_GetBlockHash E d) M);
          (prev, M) = InsertBlockIndex E (hashPrev d) M
      in sm_set (DiskBlockIndex_GetBlockHash E d)
        (fill_index d prev (the (sm_find M (DiskBlockIndex_GetBlockHash E d)))) M)"

lemma Insert_find:
  "sm_find (snd (InsertBlockIndex E h M)) k =
     (case sm_find M k of Some i \<Rightarrow> Some i
      | None \<Rightarrow> if k = h \<and> h \<noteq> uint256_null E then Some (BlockIndex_default\<lparr>pBlockHash := Some h\<rparr>) else None)"
  by (auto simp: InsertBlockIndex_def split: option.splits)

lemma Insert_ptr: "fst (InsertBlockIndex E h M) = (if h = uint256_null E then None else Some h)"
  by (simp add: InsertBlockIndex_def)

definition prev_ptr :: "('h, 'tx, 'uid, 'pm, 'cord) block_env \<Rightarrow> ('h, 'r) IneryDiskBlockIndex \<Rightarrow> 'h option" where
  "prev_ptr E d = (if hashPrev d = uint256_null E then None else Some (hashPrev d))"

text \<open>The object of hash \<open>h\<close> after the indexes \<open>T\<close> are loaded.\<close>

definition fresh_index :: "'h \<Rightarrow> 'h IneryBlockIndex" where
  "fresh_index h = BlockIndex_default\<lparr>pBlockHash := Some h\<rparr>"

definition loaded_index ::
  "('h, 'tx, 'uid, 'pm, 'cord) block_env \<Rightarrow> ('h \<Rightarrow> ('h, 'r) IneryDiskBlockIndex option) \<Rightarrow> 'h \<Rightarrow> 'h IneryBlockIndex option" where
  "loaded_index E T h =
     (case T h of
        Some d \<Rightarrow> Some (fill_index d (prev_ptr E d) (fresh_index h))
      | None \<Rightarrow> if h \<noteq> uint256_null E \<and> (\<exists>k d. T k = Some d \<and> hashPrev d = h) then Some (fresh_index h) else None)"

lemma load_one_eq:
  assumes M: "\<And>h. sm_find M h = loaded_index E T h" and d: "DiskBlockIndex_GetBlockHash E d = k" "k \<noteq> uint256_null E" "T k = None"
  shows "sm_find (load_one E d M) h = loaded_index E (T(k \<mapsto> d)) h"
proof -
  obtain M1 where M1: "snd (InsertBlockIndex E k M) = M1" by blast
  obtain p M2 where M2: "InsertBlockIndex E (hashPrev d) M1 = (p, M2)" by (cases "InsertBlockIndex E (hashPrev d) M1")
  have p: "p = prev_ptr E d"
    using Insert_ptr [of E "hashPrev d" M1] M2 by (simp add: prev_ptr_def)
  have f1: "sm_find M1 h = (if h = k then Some (fresh_index k) else loaded_index E T h)" for h
    unfolding M1 [symmetric] Insert_find M using d by (auto simp: loaded_index_def fresh_index_def split: option.split)
  have f2: "sm_find M2 h = (case sm_find M1 h of Some i \<Rightarrow> Some i
      | None \<Rightarrow> if h = hashPrev d \<and> hashPrev d \<noteq> uint256_null E then Some (fresh_index h) else None)" for h
    using Insert_find [of E "hashPrev d" M1 h] M2 by (auto simp: fresh_index_def split: option.split)
  have "load_one E d M = sm_set k (fill_index d p (the (sm_find M2 k))) M2"
    using d(1) M1 M2 by (simp add: load_one_def Let_def)
  moreover have "sm_find M2 k = Some (fresh_index k)"
    by (simp add: f2 f1)
  ultimately have find: "sm_find (load_one E d M) h =
      (if h = k then Some (fill_index d p (fresh_index k)) else sm_find M2 h)"
    by simp
  show ?thesis
  proof (cases "h = k")
    case True
    then show ?thesis
      unfolding find by (simp add: loaded_index_def p)
  next
    case False
    have ex: "(\<exists>j e. (T(k \<mapsto> d)) j = Some e \<and> hashPrev e = h) \<longleftrightarrow> hashPrev d = h \<or> (\<exists>j e. T j = Some e \<and> hashPrev e = h)"
      using d(3) by (auto split: if_splits) (metis option.distinct(1))
    from False show ?thesis
      unfolding find f2 f1 loaded_index_def ex by (auto split: option.splits)
  qed
qed

text \<open>A list of disk indexes with different hashes, as a table.\<close>

definition table_of ::
  "('h, 'tx, 'uid, 'pm, 'cord) block_env \<Rightarrow> ('h, 'r) IneryDiskBlockIndex list \<Rightarrow> 'h \<Rightarrow> ('h, 'r) IneryDiskBlockIndex option" where
  "table_of E ds = map_of (map (\<lambda>d. (DiskBlockIndex_GetBlockHash E d, d)) ds)"

lemma load_fold:
  assumes "distinct (map (DiskBlockIndex_GetBlockHash E) ds)" and "uint256_null E \<notin> DiskBlockIndex_GetBlockHash E ` set ds"
  shows "sm_find (fold (load_one E) ds sm_empty) h = loaded_index E (table_of E ds) h"
  using assms
proof (induction ds arbitrary: h rule: rev_induct)
  case Nil
  then show ?case by (simp add: loaded_index_def table_of_def)
next
  case (snoc d ds)
  let ?k = "DiskBlockIndex_GetBlockHash E d"
  have none: "table_of E ds ?k = None"
    using snoc.prems(1) by (auto simp: table_of_def map_of_eq_None_iff)
  have upd: "table_of E (ds @ [d]) = (table_of E ds)(?k \<mapsto> d)"
    using none by (auto simp: table_of_def map_add_def fun_eq_iff split: option.split)
  have "sm_find (load_one E d (fold (load_one E) ds sm_empty)) h = loaded_index E ((table_of E ds)(?k \<mapsto> d)) h"
    by (rule load_one_eq) (use snoc none in auto)
  then show ?case
    unfolding upd by (simp only: fold_append fold.simps comp_def id_apply)
qed

lemma load_loop_step:
  assumes own: "prefix (GetKeyPrefix BLOCK_INDEX) k" and d: "dec_index C v = Some d"
    and null: "DiskBlockIndex_GetBlockHash E d \<noteq> uint256_null E"
  shows "load_loop E C ((k, v) # xs) M = load_loop E C xs (load_one E d M)"
proof -
  let ?h = "DiskBlockIndex_GetBlockHash E d"
  obtain M1 where M1: "InsertBlockIndex E ?h M = (Some ?h, M1)"
    using null Insert_ptr [of E ?h M] by (cases "InsertBlockIndex E ?h M") auto
  obtain p M2 where M2: "InsertBlockIndex E (hashPrev d) M1 = (p, M2)" by (cases "InsertBlockIndex E (hashPrev d) M1")
  have "\<exists>i. sm_find M1 ?h = Some i"
    using Insert_find [of E ?h M ?h] M1 null by (auto split: option.splits)
  then have "\<exists>i. sm_find M2 ?h = Some i"
    using Insert_find [of E "hashPrev d" M1 ?h] M2 by (auto split: option.splits)
  then obtain i where i: "sm_find M2 ?h = Some i" by blast
  show ?thesis
    using own d M1 M2 i by (simp add: load_one_def CheckIndex_def)
qed

lemma load_loop_eq:
  assumes "\<And>e. e \<in> set (takeWhile (\<lambda>e. prefix (GetKeyPrefix BLOCK_INDEX) (fst e)) xs) \<Longrightarrow>
    \<exists>d. dec_index C (snd e) = Some d \<and> DiskBlockIndex_GetBlockHash E d \<noteq> uint256_null E"
  shows "load_loop E C xs M = Some (True,
    fold (load_one E) (map (\<lambda>e. the (dec_index C (snd e))) (takeWhile (\<lambda>e. prefix (GetKeyPrefix BLOCK_INDEX) (fst e)) xs)) M)"
  using assms
proof (induction xs arbitrary: M)
  case (Cons e xs)
  obtain k v where e: "e = (k, v)" by (cases e)
  show ?case
  proof (cases "prefix (GetKeyPrefix BLOCK_INDEX) k")
    case True
    then obtain d where d: "dec_index C v = Some d" "DiskBlockIndex_GetBlockHash E d \<noteq> uint256_null E"
      using Cons.prems [of e] e by auto
    then have "load_loop E C (e # xs) M = load_loop E C xs (load_one E d M)"
      using True e by (simp add: load_loop_step del: load_loop.simps)
    with Cons.IH [of "load_one E d M"] Cons.prems True d e show ?thesis by simp
  next
    case False
    with e show ?thesis by simp
  qed
qed simp

lemma load_loop_corrupt:
  assumes "dec_index C v = None"
    and "(k, v) \<in> set (takeWhile (\<lambda>e. prefix (GetKeyPrefix BLOCK_INDEX) (fst e)) xs)"
    and "\<forall>e d. e \<in> set xs \<and> dec_index C (snd e) = Some d \<longrightarrow> DiskBlockIndex_GetBlockHash E d \<noteq> uint256_null E"
  shows "\<exists>M'. load_loop E C xs M = Some (False, M')"
  using assms(2,3)
proof (induction xs arbitrary: M)
  case (Cons e xs)
  have own: "prefix (GetKeyPrefix BLOCK_INDEX) (fst e)"
    using Cons.prems(1) by (auto split: if_splits)
  show ?case
  proof (cases "dec_index C (snd e)")
    case None
    with own show ?thesis by (cases e) simp
  next
    case (Some d)
    then have "DiskBlockIndex_GetBlockHash E d \<noteq> uint256_null E"
      using Cons.prems(2) by auto
    then have "load_loop E C (e # xs) M = load_loop E C xs (load_one E d M)"
      using own Some by (cases e) (simp add: load_loop_step del: load_loop.simps)
    moreover have "(k, v) \<in> set (takeWhile (\<lambda>e. prefix (GetKeyPrefix BLOCK_INDEX) (fst e)) xs)"
      using Cons.prems(1) own Some assms(1) by auto
    ultimately show ?thesis
      using Cons.IH [of "load_one E d M"] Cons.prems(2) by auto
  qed
qed simp

section \<open>Histories\<close>

datatype ('h, 'r) index_op =
  Write_Index "('h, 'r) IneryDiskBlockIndex"
| Erase_Index 'h
| Write_Info int IneryBlockFileInfo

fun index_run ::
  "('h, 'tx, 'uid, 'pm, 'cord) block_env \<Rightarrow> ('h, 'r) index_codec \<Rightarrow> ('h, 'r) index_op list \<Rightarrow> leveldb \<Rightarrow> leveldb option" where
  "index_run E C [] db = Some db"
| "index_run E C (Write_Index d # ops) db = do { db \<leftarrow> WriteBlockIndex E C d db; index_run E C ops db }"
| "index_run E C (Erase_Index h # ops) db = do { db \<leftarrow> EraseBlockIndex C h db; index_run E C ops db }"
| "index_run E C (Write_Info n i # ops) db = do { db \<leftarrow> WriteBlockFileInfo C n i db; index_run E C ops db }"

fun index_table ::
  "('h, 'tx, 'uid, 'pm, 'cord) block_env \<Rightarrow> ('h, 'r) index_op list \<Rightarrow> ('h \<Rightarrow> ('h, 'r) IneryDiskBlockIndex option) \<Rightarrow>
     'h \<Rightarrow> ('h, 'r) IneryDiskBlockIndex option" where
  "index_table E [] T = T"
| "index_table E (Write_Index d # ops) T = index_table E ops (T(DiskBlockIndex_GetBlockHash E d \<mapsto> d))"
| "index_table E (Erase_Index h # ops) T = index_table E ops (T(h := None))"
| "index_table E (Write_Info _ _ # ops) T = index_table E ops T"

definition index_codec_ok :: "('h, 'r) index_codec \<Rightarrow> bool" where
  "index_codec_ok C \<longleftrightarrow> inj (enc_hash C) \<and> (\<forall>d. dec_index C (enc_index C d) = Some d) \<and>
     (\<forall>i. dec_info C (enc_info C i) = Some i)"

definition index_key :: "('h, 'r) index_codec \<Rightarrow> 'h \<Rightarrow> string" where
  "index_key C h = GetKeyPrefix BLOCK_INDEX @ enc_hash C h"

text \<open>The database holds exactly the indexes \<open>T\<close>, and no other entry under their prefix.\<close>

definition holds_index ::
  "('h, 'tx, 'uid, 'pm, 'cord) block_env \<Rightarrow> ('h, 'r) index_codec \<Rightarrow> ('h \<Rightarrow> ('h, 'r) IneryDiskBlockIndex option) \<Rightarrow>
     leveldb \<Rightarrow> bool" where
  "holds_index E C T db \<longleftrightarrow> ldb_healthy db \<and>
     (\<forall>h. sm_find (ldb_data db) (index_key C h) = map_option (enc_index C) (T h)) \<and>
     (\<forall>k v. sm_find (ldb_data db) k = Some v \<and> prefix (GetKeyPrefix BLOCK_INDEX) k \<longrightarrow> (\<exists>h. k = index_key C h)) \<and>
     (\<forall>h d. T h = Some d \<longrightarrow> DiskBlockIndex_GetBlockHash E d = h \<and> h \<noteq> uint256_null E)"

lemma data_prefixes [simp]: "is_data_prefix BLOCK_INDEX" "is_data_prefix BLOCKFILE_NUM_INFO"
  by (simp_all add: is_data_prefix_def)

lemma index_key_inj: "index_codec_ok C \<Longrightarrow> index_key C h = index_key C k \<longleftrightarrow> h = k"
  by (auto simp: index_codec_ok_def index_key_def dest: injD)

lemma info_key_other: "index_key C h \<noteq> GetKeyPrefix BLOCKFILE_NUM_INFO @ s" "\<not> prefix (GetKeyPrefix BLOCK_INDEX) (GetKeyPrefix BLOCKFILE_NUM_INFO @ s)"
  by (simp_all add: index_key_def GetKeyPrefix_def)

lemma wrapper_put:
  "ldb_healthy db \<Longrightarrow> Wrapper_Write ser db k v = Some (db\<lparr>ldb_data := sm_set k (ser v) (ldb_data db)\<rparr>)"
  "ldb_healthy db \<Longrightarrow> Wrapper_Erase db k = Some (db\<lparr>ldb_data := sm_erase k (ldb_data db)\<rparr>)"
  by (simp_all add: Wrapper_Write_def Wrapper_Erase_def WriteBatch_healthy Batch_Write_def Batch_Erase_def apply_batch_def)

lemma holds_write:
  assumes "index_codec_ok C" and "holds_index E C T db" and "DiskBlockIndex_GetBlockHash E d = h" and "h \<noteq> uint256_null E"
  shows "\<exists>db'. WriteBlockIndex E C d db = Some db' \<and> holds_index E C (T(h \<mapsto> d)) db'"
  using assms by (auto simp: WriteBlockIndex_def wrapper_put holds_index_def index_key_inj simp flip: index_key_def)

lemma holds_erase:
  assumes "index_codec_ok C" and "holds_index E C T db"
  shows "\<exists>db'. EraseBlockIndex C h db = Some db' \<and> holds_index E C (T(h := None)) db'"
  using assms by (auto simp: EraseBlockIndex_def wrapper_put holds_index_def index_key_inj simp flip: index_key_def split: if_splits)

lemma holds_info:
  assumes "holds_index E C T db"
  shows "\<exists>db'. WriteBlockFileInfo C n i db = Some db' \<and> holds_index E C T db'"
  using assms by (auto simp: WriteBlockFileInfo_def wrapper_put holds_index_def info_key_other)

lemma holds_run:
  assumes "index_codec_ok C" and "holds_index E C T db"
    and "\<And>d. Write_Index d \<in> set ops \<Longrightarrow> DiskBlockIndex_GetBlockHash E d \<noteq> uint256_null E"
  shows "\<exists>db'. index_run E C ops db = Some db' \<and> holds_index E C (index_table E ops T) db'"
  using assms(2,3)
proof (induction E ops T arbitrary: db rule: index_table.induct)
  case (2 E d ops T)
  then show ?case
    using holds_write [OF assms(1) "2.prems"(1) refl, of d] by fastforce
next
  case (3 E h ops T)
  then show ?case
    using holds_erase [OF assms(1) "3.prems"(1), of h] by fastforce
next
  case (4 E n i ops T)
  then show ?case
    using holds_info [OF "4.prems"(1), of n i] by fastforce
qed simp

lemma option_eqI: "(\<And>d. x = Some d \<longleftrightarrow> y = Some d) \<Longrightarrow> x = y"
  by (cases x; cases y) auto

lemma holds_load:
  fixes E :: "('h, 'tx, 'uid, 'pm, 'cord) block_env" and C :: "('h, 'r) index_codec"
  assumes "index_codec_ok C" and holds: "holds_index E C T db"
  shows "\<exists>M. LoadBlockIndexes E C db sm_empty = Some (True, M) \<and> (\<forall>h. sm_find M h = loaded_index E T h)"
proof -
  let ?p = "GetKeyPrefix BLOCK_INDEX" and ?xs = "NewIterator db" and ?hash = "DiskBlockIndex_GetBlockHash E"
  define ys where "ys = filter (\<lambda>e. prefix ?p (fst e) \<and> ?p \<le> fst e) ?xs"
  define ds where "ds = map (\<lambda>e. the (dec_index C (snd e))) ys"
  have sorted: "sorted_keys ?xs" by (simp add: NewIterator_def)
  have ys: "takeWhile (\<lambda>e. prefix ?p (fst e)) (dropWhile (\<lambda>kv. fst kv < ?p) ?xs) = ys"
    unfolding dropWhile_lt_eq_filter [OF sorted] ys_def by (rule takeWhile_own [OF sorted]) simp
  have entry: "\<exists>d. dec_index C (snd e) = Some d \<and> T (?hash d) = Some d \<and> fst e = index_key C (?hash d) \<and> ?hash d \<noteq> uint256_null E"
    if e: "e \<in> set ys" for e
  proof -
    have f: "sm_find (ldb_data db) (fst e) = Some (snd e)" and p: "prefix ?p (fst e)"
      using e in_sm_items_iff [of "fst e" "snd e" "ldb_data db"] by (simp_all add: ys_def NewIterator_def)
    then obtain h where h: "fst e = index_key C h"
      using holds by (auto simp: holds_index_def)
    with f holds obtain d where d: "T h = Some d" "snd e = enc_index C d"
      by (auto simp: holds_index_def)
    with holds h assms(1) show ?thesis
      by (auto simp: holds_index_def index_codec_ok_def)
  qed
  have stored: "\<exists>e \<in> set ys. dec_index C (snd e) = Some d" if "T h = Some d" for h d
  proof -
    have "(index_key C h, enc_index C d) \<in> set ?xs"
      using holds that by (simp add: holds_index_def NewIterator_def in_sm_items_iff)
    moreover have "prefix ?p (index_key C h)" "?p \<le> index_key C h"
      by (simp_all add: index_key_def le_append_self)
    ultimately show ?thesis
      using assms(1) by (force simp: ys_def index_codec_ok_def)
  qed
  have "fst e = index_key C (?hash (the (dec_index C (snd e))))" if "e \<in> set ys" for e
    using entry [OF that] by (metis option.sel)
  then have "map fst ys = map (index_key C) (map ?hash ds)"
    by (simp add: ds_def)
  moreover have "distinct (map fst ys)"
    using sorted_keys_distinct [OF sorted] by (simp add: ys_def distinct_map_filter)
  ultimately have dist: "distinct (map ?hash ds)"
    by (metis distinct_map)
  have null: "uint256_null E \<notin> ?hash ` set ds"
    using entry by (fastforce simp: ds_def)
  have in_T: "T (?hash (the (dec_index C (snd e)))) = Some (the (dec_index C (snd e)))" if "e \<in> set ys" for e
    using entry [OF that] by (elim exE conjE) simp
  have in_ds: "d \<in> set ds \<and> ?hash d = h" if T: "T h = Some d" for h d
  proof -
    obtain e where "e \<in> set ys" "dec_index C (snd e) = Some d"
      using stored [OF T] by blast
    then have "d \<in> set ds"
      unfolding ds_def by force
    moreover have "?hash d = h"
      using holds T by (simp add: holds_index_def)
    ultimately show ?thesis by blast
  qed
  have same: "table_of E ds h = Some d \<longleftrightarrow> T h = Some d" for h d
  proof -
    have "table_of E ds h = Some d \<longleftrightarrow> d \<in> set ds \<and> ?hash d = h"
      using dist by (auto simp: table_of_def comp_def)
    also have "\<dots> \<longleftrightarrow> T h = Some d"
      using in_T in_ds [of h d] by (auto simp: ds_def)
    finally show ?thesis .
  qed
  have table: "table_of E ds h = T h" for h
    by (rule option_eqI) (rule same)
  let ?zs = "dropWhile (\<lambda>kv. fst kv < ?p) ?xs"
  have "load_loop E C ?zs sm_empty = Some (True,
      fold (load_one E) (map (\<lambda>e. the (dec_index C (snd e))) (takeWhile (\<lambda>e. prefix ?p (fst e)) ?zs)) sm_empty)"
    by (rule load_loop_eq) (use entry in \<open>auto simp only: ys\<close>)
  then have "LoadBlockIndexes E C db sm_empty = Some (True, fold (load_one E) ds sm_empty)"
    unfolding LoadBlockIndexes_def ys ds_def .
  moreover have "sm_find (fold (load_one E) ds sm_empty) h = loaded_index E T h" for h
    using load_fold [OF dist null, of h] by (simp add: table [abs_def])
  ultimately show ?thesis by blast
qed

section \<open>The tables\<close>

definition block_db_ok :: "('h::linorder, 'pos) block_db_env \<Rightarrow> bool" where
  "block_db_ok E \<longleftrightarrow> access_ok (bl_pos_ops E) (bl_db E) \<and> access_ok (bl_flag_ops E) (bl_db E) \<and>
     simple_ok (bl_best_ops E) (bl_db E) \<and> simple_ok (bl_file_ops E) (bl_db E) \<and> simple_ok (bl_reindex_ops E) (bl_db E) \<and>
     simple_ok (bl_final_ops E) (bl_db E) \<and> simple_ok (bl_reward_ops E) (bl_db E) \<and>
     val_empty (bl_flag_ops E) = Not \<and> val_empty (bl_reindex_ops E) = Not \<and>
     val_empty (bl_file_ops E) = (\<lambda>n. n = 0) \<and> val_empty (bl_best_ops E) = (\<lambda>h. h = bl_null_hash E)"

lemmas block_tables = pos_t_def flag_t_def best_t_def file_t_def reindex_t_def final_t_def reward_t_def

lemma block_tables_ok [simp]:
  assumes "block_db_ok E"
  shows "table_ok (pos_t E)" "table_ok (flag_t E)" "cell_ok (best_t E)" "cell_ok (file_t E)" "cell_ok (reindex_t E)"
    "cell_ok (final_t E)" "cell_ok (reward_t E)" "val_empty (bl_flag_ops E) = Not" "val_empty (bl_reindex_ops E) = Not"
    "val_empty (bl_file_ops E) = (\<lambda>n. n = 0)" "val_empty (bl_best_ops E) = (\<lambda>h. h = bl_null_hash E)"
  using assms by (simp_all add: block_db_ok_def table_ok_def cell_ok_def block_tables)

lemma block_ops [simp]:
  "tops (pos_t E) = bl_pos_ops E" "tops (flag_t E) = bl_flag_ops E" "cops (best_t E) = bl_best_ops E"
  "cops (file_t E) = bl_file_ops E" "cops (reindex_t E) = bl_reindex_ops E" "cops (final_t E) = bl_final_ops E"
  "cops (reward_t E) = bl_reward_ops E"
  by (simp_all add: block_tables)

lemma WriteTxIndexes_eq:
  assumes "block_db_ok E" and "\<forall>x \<in> fst ` set xs. \<not> key_empty (bl_pos_ops E) x"
  shows "\<exists>s'. WriteTxIndexes E xs s = Some (s', True) \<and>
    (\<forall>x. lookup (pos_t E) s' x = (case map_of (rev xs) x of
       Some v \<Rightarrow> if val_empty (bl_pos_ops E) v then None else Some v | None \<Rightarrow> lookup (pos_t E) s x))"
  using assms(2)
proof (induction xs arbitrary: s)
  case (Cons e xs)
  let ?s = "after_set (pos_t E) (fst e) (snd e) s"
  obtain s' where s': "WriteTxIndexes E xs ?s = Some (s', True)"
    "\<And>x. lookup (pos_t E) s' x = (case map_of (rev xs) x of
       Some v \<Rightarrow> if val_empty (bl_pos_ops E) v then None else Some v | None \<Rightarrow> lookup (pos_t E) ?s x)"
    using Cons.IH [of ?s] Cons.prems by auto
  have "WriteTxIndexes E (e # xs) s = Some (s', True)"
    using assms(1) Cons.prems s'(1) by simp
  moreover have "lookup (pos_t E) s' x = (case map_of (rev (e # xs)) x of
       Some v \<Rightarrow> if val_empty (bl_pos_ops E) v then None else Some v | None \<Rightarrow> lookup (pos_t E) s x)" for x
    using assms(1) Cons.prems by (cases e) (auto simp: s'(2) map_add_def split: option.splits)
  ultimately show ?case by blast
qed simp

section \<open>A concrete instance\<close>

definition index_c :: "(nat, nat) IneryDiskBlockIndex coder" where
  "index_c = iso_c
     (\<lambda>d. (pBlockHash d, pprev d, pskip d, bi_height d, bi_nFile d, nDataPos d, nUndoPos d, nStatus d, nSequenceId d,
      bi_nVersion d, bi_nTime d, bi_nFuelFee d, bi_nFuelRate d, hashPrev d, bi_merkleRootHash d, nBits d, bi_nNonce d,
      bp_regid d, nTx d, bi_vSignature d, nChainTx d))
     (\<lambda>(p, v, k, h, f, dp, up, st, sq, vr, t, ff, fr, hp, mr, nb, nn, rg, nt, sg, ct).
     \<lparr>pBlockHash = p, pprev = v, pskip = k, bi_height = h, bi_nFile = f, nDataPos = dp, nUndoPos = up, nStatus = st,
      nSequenceId = sq, bi_nVersion = vr, bi_nTime = t, bi_nFuelFee = ff, bi_nFuelRate = fr, hashPrev = hp,
      bi_merkleRootHash = mr, nBits = nb, bi_nNonce = nn, bp_regid = rg, nTx = nt, bi_vSignature = sg, nChainTx = ct\<rparr>)
     (pair_c (option_c nat_c) (pair_c (option_c nat_c) (pair_c (option_c nat_c) (pair_c int_c (pair_c int_c
     (pair_c word_c (pair_c word_c (pair_c word_c (pair_c word_c (pair_c int_c (pair_c word_c (pair_c word_c (pair_c word_c
     (pair_c nat_c (pair_c nat_c (pair_c word_c (pair_c word_c (pair_c nat_c (pair_c word_c (pair_c string_c word_c))))))))))))))))))))"

lemma coder_index [simp]: "coder_ok index_c"
  unfolding index_c_def by (intro coder_iso coder_pair) simp_all

definition info_c :: "IneryBlockFileInfo coder" where
  "info_c = iso_c (\<lambda>i. (nBlocks i, nSize i, nUndoSize i, nHeightFirst i, nHeightLast i, nTimeFirst i, nTimeLast i))
     (\<lambda>(b, s, u, hf, hl, tf, tl). \<lparr>nBlocks = b, nSize = s, nUndoSize = u, nHeightFirst = hf, nHeightLast = hl,
        nTimeFirst = tf, nTimeLast = tl\<rparr>)
     (pair_c word_c (pair_c word_c (pair_c word_c (pair_c word_c (pair_c word_c (pair_c word_c word_c))))))"

lemma coder_info [simp]: "coder_ok info_c"
  unfolding info_c_def by (intro coder_iso coder_pair) simp_all

definition sample_index_codec :: "(nat, nat) index_codec" where
  "sample_index_codec = \<lparr>enc_hash = enc nat_c, enc_index = enc index_c, dec_index = dec index_c, enc_nFile = enc int_c,
     enc_info = enc info_c, dec_info = dec info_c\<rparr>"

lemma coder_inj: "coder_ok c \<Longrightarrow> inj (enc c)"
  by (rule injI) (metis coder_okD option.inject)

lemma sample_index_codec_ok [simp]: "index_codec_ok sample_index_codec"
  by (simp add: index_codec_ok_def sample_index_codec_def coder_inj)

definition sample_disk_index :: "nat \<Rightarrow> int \<Rightarrow> (nat, nat) IneryDiskBlockIndex" where
  "sample_disk_index prv h = IneryBlockIndex.extend (BlockIndex_default\<lparr>bi_height := h\<rparr>)
     \<lparr>hashPrev = prv, bi_merkleRootHash = 4, nBits = 0, bi_nNonce = 0, bp_regid = 3, nTx = 1, bi_vSignature = [], nChainTx = 0\<rparr>"

definition reward_c :: "IneryBlockInflatedReward coder" where
  "reward_c = iso_c (\<lambda>r. (start_height r, new_rewards r, total_minted r, last_minted r, last_minted_height r))
     (\<lambda>(a, b, c, d, e). \<lparr>start_height = a, new_rewards = b, total_minted = c, last_minted = d, last_minted_height = e\<rparr>)
     (pair_c word_c (pair_c word_c (pair_c word_c (pair_c word_c word_c))))"

lemma coder_reward [simp]: "coder_ok reward_c"
  unfolding reward_c_def by (intro coder_iso coder_pair) simp_all

lemma reward_simps [simp]: "lawful reward_db" "IsEmpty reward_db InflatedReward_EMPTY"
  by (simp_all add: canonical_lawful) (simp add: reward_db_def InflatedReward_IsEmpty_def InflatedReward_EMPTY_def)

definition sample_block_db_env :: "(uint64, uint64) block_db_env" where
  "sample_block_db_env = \<lparr>bl_db = empty_db DB_BLOCK,
     bl_pos_ops = sample_ops TXID_DISKINDEX uint_db uint_db 0 word_c word_c,
     bl_flag_ops = sample_ops FLAG string_db bool_db False string_c bool_c,
     bl_best_ops = sample_ops BEST_BLOCKHASH (plain_db ()) uint_db 0 unit_c word_c,
     bl_file_ops = sample_ops LAST_BLOCKFILE (plain_db ()) (plain_db 0) 0 unit_c int_c,
     bl_reindex_ops = sample_ops REINDEX (plain_db ()) bool_db False unit_c bool_c,
     bl_final_ops = sample_ops FINALITY_BLOCK (plain_db ()) (pair_db (plain_db 0) uint_db) (0, 0) unit_c (pair_c int_c word_c),
     bl_reward_ops = sample_ops BLOCK_INFLATED_REWARD (plain_db ()) reward_db InflatedReward_EMPTY unit_c reward_c,
     bl_null_hash = 0\<rparr>"

lemma sample_block_db_ok [simp]: "block_db_ok sample_block_db_env"
  by (simp add: block_db_ok_def sample_block_db_env_def sample_access_ok sample_simple_ok is_data_prefix_def fun_eq_iff)

definition sample_block_db :: "(uint64, uint64) block_db" where
  "sample_block_db = the (BlockDBCache_make sample_block_db_env)"

section \<open>Properties\<close>



text \<open>
  Loading reports a damaged database: when a value under the prefix of the indexes does
  not deserialise, and no index before it has the null hash, \<open>LoadBlockIndexes\<close> returns false
  and does not crash.
\<close>

theorem load_corrupt:
  assumes "ldb_healthy db" and "(k, v) \<in> set (NewIterator db)" and "prefix (GetKeyPrefix BLOCK_INDEX) k"
    and "dec_index C v = None"
    and "\<forall>e d. e \<in> set (NewIterator db) \<and> dec_index C (snd e) = Some d \<longrightarrow> DiskBlockIndex_GetBlockHash E d \<noteq> uint256_null E"
  shows "\<exists>M'. LoadBlockIndexes E C db M = Some (False, M')"
proof -
  let ?p = "GetKeyPrefix BLOCK_INDEX"
  let ?xs = "dropWhile (\<lambda>kv. fst kv < ?p) (NewIterator db)"
  have sorted: "sorted_keys (NewIterator db)" by (simp add: NewIterator_def)
  have "?p \<le> k"
    using assms(3) by (auto simp: prefix_def le_append_self)
  then have "(k, v) \<in> set (takeWhile (\<lambda>e. prefix ?p (fst e)) ?xs)"
    unfolding dropWhile_lt_eq_filter [OF sorted] using assms(2,3)
    by (subst takeWhile_own [OF sorted]) auto
  moreover have "\<forall>e d. e \<in> set ?xs \<and> dec_index C (snd e) = Some d \<longrightarrow> DiskBlockIndex_GetBlockHash E d \<noteq> uint256_null E"
    using assms(5) set_dropWhileD by metis
  ultimately show ?thesis
    unfolding LoadBlockIndexes_def using load_loop_corrupt [OF assms(4)] by blast
qed

definition sample_damaged_codec :: "(nat, nat) index_codec" where
  "sample_damaged_codec = sample_index_codec\<lparr>dec_index := (\<lambda>s. if s = ''damaged'' then None else dec index_c s)\<rparr>"

theorem load_corrupt_witness:
  "\<exists>M. LoadBlockIndexes sample_block_env sample_damaged_codec
      \<lparr>ldb_data = sm_of [(''bidx1'', ''damaged'')], ldb_read_fault = (\<lambda>_. None), ldb_write_fault = None\<rparr> sm_empty = Some (False, M)"
  by (rule load_corrupt [where k = "''bidx1''" and v = "''damaged''"])
    (simp_all add: ldb_healthy_def NewIterator_def sm_items_set sample_damaged_codec_def GetKeyPrefix_def)

text \<open>
  The positions of a block's transactions: writing the list succeeds, and afterwards
  every transaction is found at the position the list gives last, all others where they were.
\<close>

theorem write_tx_indexes:
  assumes "block_db_ok E" and "\<forall>x \<in> fst ` set xs. \<not> key_empty (bl_pos_ops E) x"
  shows "\<exists>s'. WriteTxIndexes E xs s = Some (s', True) \<and>
    (\<forall>x. \<exists>s''. ReadTxIndex E x s' = Some (s'', case map_of (rev xs) x of
       Some v \<Rightarrow> if val_empty (bl_pos_ops E) v then None else Some v | None \<Rightarrow> lookup (pos_t E) s x))"
  using WriteTxIndexes_eq [OF assms, of s] assms(1) by (auto simp: ReadTxIndex_def)

theorem write_tx_indexes_witness:
  "\<exists>s1 s2. WriteTxIndexes sample_block_db_env [(5, 40), (6, 50), (5, 60)] (sample_block_db, None) = Some (s1, True) \<and>
    ReadTxIndex sample_block_db_env 5 s1 = Some (s2, Some 60)"
proof -
  let ?xs = "[(5, 40), (6, 50), (5, 60)] :: (uint64 \<times> uint64) list"
  have "\<forall>x \<in> fst ` set ?xs. \<not> key_empty (bl_pos_ops sample_block_db_env) x" "\<not> val_empty (bl_pos_ops sample_block_db_env) 60"
    by (simp_all add: sample_block_db_env_def)
  with write_tx_indexes [OF sample_block_db_ok, of ?xs "(sample_block_db, None)"] show ?thesis
    by (auto simp del: WriteTxIndexes.simps dest!: spec [of _ 5])
qed

text \<open>
  The switches of the block database.  A flag that is set to true and reindexing that
  is started read back; one set to false and a last block file of number zero cannot be told from
  one never written, and the best block hash reads as null then too.
\<close>

theorem block_switches:
  assumes "block_db_ok E"
  shows "(\<forall>b. \<exists>s1 s2. WriteReindexing E b s = Some (s1, True) \<and> ReadReindexing E s1 = Some (s2, if b then Some True else None)) \<and>
    (\<forall>name b. \<not> key_empty (bl_flag_ops E) name \<longrightarrow> (\<exists>s1 s2. WriteFlag E name b s = Some (s1, True) \<and>
       ReadFlag E name s1 = Some (s2, if b then Some True else None))) \<and>
    (\<forall>n. \<exists>s1 s2. WriteLastBlockFile E n s = Some (s1, True) \<and>
       ReadLastBlockFile E s1 = Some (s2, if n = 0 then None else Some n)) \<and>
    (\<forall>h. \<exists>s1 s2. SetBestBlock E h s = Some (s1, True) \<and> GetBestBlockHash E s1 = Some (s2, h)) \<and>
    (\<forall>r. \<exists>s1 s2. SetBlockInflatedReward E r s = Some (s1, True) \<and>
       GetBlockInflatedReward E s1 = Some (s2, if val_empty (bl_reward_ops E) r then None else Some r))"
  using assms
  by (simp add: WriteReindexing_def ReadReindexing_def WriteFlag_def ReadFlag_def WriteLastBlockFile_def
      ReadLastBlockFile_def SetBestBlock_def GetBestBlockHash_def SetBlockInflatedReward_def GetBlockInflatedReward_def
      split: option.split)

theorem block_switches_witness:
  "\<exists>s1 s2. WriteFlag sample_block_db_env ''txindex'' True (sample_block_db, None) = Some (s1, True) \<and>
    ReadFlag sample_block_db_env ''txindex'' s1 = Some (s2, Some True)"
proof -
  have "\<not> key_empty (bl_flag_ops sample_block_db_env) ''txindex''"
    by (simp add: sample_block_db_env_def)
  then have "\<exists>s1 s2. WriteFlag sample_block_db_env ''txindex'' True (sample_block_db, None) = Some (s1, True) \<and>
      ReadFlag sample_block_db_env ''txindex'' s1 = Some (s2, if True then Some True else None)"
    by (rule block_switches [OF sample_block_db_ok, THEN conjunct2, THEN conjunct1, rule_format])
  then show ?thesis by simp
qed

end
