(* ===== verification/Cache_Manager.thy ===== *)
theory Cache_Manager
  imports Block_Undo
begin

text \<open>
  \<open>CCacheDBManager\<close> of \<open>cachewrapper.h\<close> and \<open>cachewrapper.cpp\<close> as a whole: it opens one
  database per class, builds the caches of the class on it, and flushes them.  Several tables
  share a database, so that a flush of one must not disturb the others.  The caches are those of
  \<open>Block_Undo\<close>, by prefix and in serialised form.  The index database takes no part: its
  \<open>Flush\<close> does nothing.
\<close>

declare split_paired_Ex [simp del] split_paired_All [simp del]

section \<open>The manager\<close>

record cm_env =
  cm_ops :: "PrefixType \<Rightarrow> (string, string) kvops"
  cm_ops1 :: "PrefixType \<Rightarrow> (unit, string) kvops"

record CCacheDBManager =
  cm_caches :: CCacheWrapper
  cm_dbs :: "DBNameType \<Rightarrow> CDBAccess"

text \<open>The tables of the classes the constructor builds, with the database of each.\<close>

definition dbm_tables :: "(PrefixType \<times> DBNameType \<times> member_kind) list" where
  "dbm_tables = concat (map (\<lambda>(t, c). map (\<lambda>(p, k). (p, t, k)) (members c)) dbm_open)"

definition empty_wrapper :: CCacheWrapper where
  "empty_wrapper = \<lparr>cw_comp = (\<lambda>_. new_free), cw_simp = (\<lambda>_. simple_new_free)\<rparr>"

fun open_table ::
  "cm_env \<Rightarrow> (DBNameType \<Rightarrow> CDBAccess) \<Rightarrow> PrefixType \<times> DBNameType \<times> member_kind \<Rightarrow> CCacheWrapper \<Rightarrow> CCacheWrapper option" where
  "open_table E D (p, t, Composite) cw =
     do { c \<leftarrow> new_on_db (cm_ops E p) (D t); Some (cw\<lparr>cw_comp := (cw_comp cw)(p := c)\<rparr>) }"
| "open_table E D (p, t, Simple) cw = Some (cw\<lparr>cw_simp := (cw_simp cw)(p := simple_new_on_db)\<rparr>)"

definition CCacheDBManager_make :: "cm_env \<Rightarrow> (DBNameType \<Rightarrow> CDBAccess) \<Rightarrow> CCacheDBManager option" where
  "CCacheDBManager_make E D =
     do { cw \<leftarrow> fold_opt (open_table E D) dbm_tables empty_wrapper; Some \<lparr>cm_caches = cw, cm_dbs = D\<rparr> }"

text \<open>\<open>Flush\<close> of one cache of the manager writes to the database the cache was built on.\<close>

definition flush_table :: "cm_env \<Rightarrow> PrefixType \<Rightarrow> CCacheDBManager \<Rightarrow> CCacheDBManager option" where
  "flush_table E p m =
     (case map_of dbm_tables p of
        None \<Rightarrow> None
      | Some (t, Composite) \<Rightarrow>
          do { (d, c) \<leftarrow> Flush (cm_ops E p) (cm_dbs m t) (cw_comp (cm_caches m) p);
               Some (m\<lparr>cm_dbs := (cm_dbs m)(t := d),
                 cm_caches := (cm_caches m)\<lparr>cw_comp := (cw_comp (cm_caches m))(p := c)\<rparr>\<rparr>) }
      | Some (t, Simple) \<Rightarrow>
          do { (d, c) \<leftarrow> Simple_Flush (cm_ops1 E p) (cm_dbs m t) (cw_simp (cm_caches m) p);
               Some (m\<lparr>cm_dbs := (cm_dbs m)(t := d),
                 cm_caches := (cm_caches m)\<lparr>cw_simp := (cw_simp (cm_caches m))(p := c)\<rparr>\<rparr>) })"

definition CCacheDBManager_Flush :: "cm_env \<Rightarrow> CCacheDBManager \<Rightarrow> (CCacheDBManager \<times> bool) option" where
  "CCacheDBManager_Flush E m =
     do { m \<leftarrow> fold_opt (flush_table E) (concat (map flushes dbm_Flush)) m; Some (m, True) }"

section \<open>What the tables show\<close>

definition cm_view :: "cm_env \<Rightarrow> CCacheDBManager \<Rightarrow> PrefixType \<Rightarrow> string \<Rightarrow> string option" where
  "cm_view E m p =
     (case map_of dbm_tables p of
        None \<Rightarrow> (\<lambda>_. None)
      | Some (t, Composite) \<Rightarrow> view (cm_ops E p) (cm_dbs m t) (cw_comp (cm_caches m) p)
      | Some (t, Simple) \<Rightarrow> (\<lambda>_. sview (cm_ops1 E p) (cm_dbs m t) (cw_simp (cm_caches m) p)))"

text \<open>The types of a table fit its database, and its cache stands on it.\<close>

definition table_fit :: "cm_env \<Rightarrow> CCacheDBManager \<Rightarrow> PrefixType \<Rightarrow> bool" where
  "table_fit E m p \<longleftrightarrow>
     (case map_of dbm_tables p of
        None \<Rightarrow> True
      | Some (t, Composite) \<Rightarrow> prefix_type (cm_ops E p) = p \<and> access_ok (cm_ops E p) (cm_dbs m t) \<and>
          (\<exists>n. cw_comp (cm_caches m) p = DbCache n)
      | Some (t, Simple) \<Rightarrow> prefix_type (cm_ops1 E p) = p \<and> simple_ok (cm_ops1 E p) (cm_dbs m t) \<and>
          (\<exists>v. cw_simp (cm_caches m) p = SDb v))"

definition manager_ok :: "cm_env \<Rightarrow> CCacheDBManager \<Rightarrow> bool" where
  "manager_ok E m \<longleftrightarrow> (\<forall>t. dbNameType (cm_dbs m t) = t) \<and> (\<forall>p. table_fit E m p)"

text \<open>The cache of a table is empty.\<close>

definition table_clean :: "CCacheDBManager \<Rightarrow> PrefixType \<Rightarrow> bool" where
  "table_clean m p \<longleftrightarrow>
     (case map_of dbm_tables p of
        None \<Rightarrow> True
      | Some (t, Composite) \<Rightarrow> (\<exists>n. cw_comp (cm_caches m) p = DbCache n \<and> mapData n = sm_empty)
      | Some (t, Simple) \<Rightarrow> cw_simp (cm_caches m) p = SDb None)"

lemma dbm_tables_facts:
  "distinct (map fst dbm_tables)"
  "list_all (\<lambda>(p, t, k). is_data_prefix p \<and> GetDbNameEnumByPrefix p = Some t) dbm_tables"
  "set (concat (map flushes dbm_Flush)) = fst ` set dbm_tables"
  by (simp_all add: dbm_tables_def dbm_open_def dbm_Flush_def class_defs GetDbNameEnumByPrefix_def is_data_prefix_def
      insert_commute)

lemma distinct_dbm_Flush: "distinct (concat (map flushes dbm_Flush))"
  by (simp add: dbm_Flush_def class_defs)

lemma table_facts:
  assumes "map_of dbm_tables p = Some (t, k)"
  shows "is_data_prefix p" "GetDbNameEnumByPrefix p = Some t"
  using map_of_SomeD [OF assms] dbm_tables_facts(2) by (auto simp: list_all_iff)

section \<open>Tables that share a database\<close>

text \<open>A change of the database that leaves the keys of every prefix but \<open>p\<close> alone.\<close>

definition only_prefix :: "PrefixType \<Rightarrow> CDBAccess \<Rightarrow> CDBAccess \<Rightarrow> bool" where
  "only_prefix p d d' \<longleftrightarrow> ldb_healthy (ldb d') \<and> dbNameType d' = dbNameType d \<and>
     (\<forall>q key. is_data_prefix q \<and> q \<noteq> p \<longrightarrow>
        sm_find (ldb_data (ldb d')) (GetKeyPrefix q @ key) = sm_find (ldb_data (ldb d)) (GetKeyPrefix q @ key))"

lemma raw_same: "db_val T d' = db_val T d \<Longrightarrow> raw T d' c = raw T d c"
  by (induction c) (simp_all add: fun_eq_iff split: option.split)

lemma sraw_same: "sdb_val T d' = sdb_val T d \<Longrightarrow> sraw T d' c = sraw T d c"
  by (induction c) (simp_all split: option.split)

lemma only_prefixD:
  assumes "only_prefix p d d'" and "is_data_prefix q" and "q \<noteq> p"
  shows "sm_find (ldb_data (ldb d')) (GetKeyPrefix q @ key) = sm_find (ldb_data (ldb d)) (GetKeyPrefix q @ key)"
  using assms unfolding only_prefix_def by blast

lemma only_prefix_composite:
  assumes "only_prefix p d d'" and "prefix_type T \<noteq> p" and "access_ok T d"
  shows "access_ok T d'" "view T d' c = view T d c"
proof -
  have wf: "kv_wf T" and data: "is_data_prefix (prefix_type T)"
    using access_okD(1) [OF assms(3)] kv_wfD(1) by blast+
  have same: "db_val T d' = db_val T d"
    unfolding db_val_def only_prefixD [OF assms(1) data assms(2)] by (rule refl)
  show "view T d' c = view T d c"
    unfolding view_def raw_same [OF same] by (rule refl)
  show "access_ok T d'"
    using assms(1) wf unfolding access_ok_def only_prefix_def by blast
qed

lemma only_prefix_simple:
  assumes "only_prefix p d d'" and "prefix_type T \<noteq> p" and "simple_ok T d"
  shows "simple_ok T d'" "sview T d' c = sview T d c"
proof -
  have ok: "access_ok T d"
    by (rule simple_okD(1) [OF assms(3)])
  have data: "is_data_prefix (prefix_type T)"
    by (rule kv_wfD(1) [OF simple_okD(2) [OF assms(3)]])
  have same: "sdb_val T d' = sdb_val T d"
    unfolding sdb_val_def using only_prefixD [OF assms(1) data assms(2), of "[]"] by (simp only: append_Nil2)
  show "sview T d' c = sview T d c"
    unfolding sview_def sraw_same [OF same] by (rule refl)
  show "simple_ok T d'"
    using only_prefix_composite(1) [OF assms(1,2) ok] assms(3) unfolding simple_ok_def same by blast
qed

lemma flush_composite_only:
  assumes "access_ok T d"
  shows "\<exists>d'. Flush T d (DbCache n) = Some (d', DbCache (Clear_node n)) \<and> access_ok T d' \<and>
    only_prefix (prefix_type T) d d' \<and> view T d' (DbCache (Clear_node n)) = view T d (DbCache n)"
proof -
  obtain d1 where d1: "Flush T d (DbCache n) = Some (d1, DbCache (Clear_node n))" "access_ok T d1"
    "dbNameType d1 = dbNameType d"
    using flush_db [OF assms, of n] by metis
  obtain d2 where d2: "Flush T d (DbCache n) = Some (d2, DbCache (Clear_node n))"
    "view T d2 (DbCache (Clear_node n)) = view T d (DbCache n)"
    "\<forall>q key. is_data_prefix q \<and> q \<noteq> prefix_type T \<longrightarrow>
       sm_find (ldb_data (ldb d2)) (GetKeyPrefix q @ key) = sm_find (ldb_data (ldb d)) (GetKeyPrefix q @ key)"
    using composite_flush_db [OF assms, of n] by blast
  have "d2 = d1" using d1(1) d2(1) by simp
  with d1 d2 show ?thesis
    by (intro exI [of _ d1]) (simp add: only_prefix_def)
qed

lemma simple_flush_name: "Simple_Flush T d (SDb v) = Some (d', c') \<Longrightarrow> dbNameType d' = dbNameType d"
  by (auto simp: DbAccess_WriteBatch1_def DbAccess_WriteBatch_def Let_def split: option.splits bind_splits if_splits)

lemma flush_simple_only:
  assumes "simple_ok T d"
  shows "\<exists>d'. Simple_Flush T d (SDb v) = Some (d', SDb None) \<and> simple_ok T d' \<and>
    only_prefix (prefix_type T) d d' \<and> sview T d' (SDb None) = sview T d (SDb v)"
proof -
  obtain d' where d': "Simple_Flush T d (SDb v) = Some (d', SDb None)" "simple_ok T d'"
    "sdb_val T d' = sview T d (SDb v)"
    "\<forall>key. key \<noteq> GetKeyPrefix (prefix_type T) \<longrightarrow> sm_find (ldb_data (ldb d')) key = sm_find (ldb_data (ldb d)) key"
    using simple_flush_db [OF assms, of v] by blast
  have p: "is_data_prefix (prefix_type T)"
    by (rule kv_wfD(1) [OF simple_okD(2) [OF assms]])
  have "GetKeyPrefix q @ key \<noteq> GetKeyPrefix (prefix_type T)" if "is_data_prefix q" "q \<noteq> prefix_type T" for q key
    using that prefix_free [OF that(1) p, of key "[]"] by auto
  then have "only_prefix (prefix_type T) d d'"
    using d'(4) simple_flush_name [OF d'(1)] access_okD(2) [OF simple_okD(1) [OF d'(2)]]
    unfolding only_prefix_def by blast
  moreover have "sview T d' (SDb None) = sview T d (SDb v)"
    unfolding sview_def sraw.simps option.case d'(3) by (simp add: nonempty_def split: option.split)
  ultimately show ?thesis
    using d'(1,2) by blast
qed

section \<open>Flushing one table\<close>

lemma flush_table_step:
  assumes ok: "manager_ok E m" and p: "map_of dbm_tables p = Some (t, k)"
  shows "\<exists>m'. flush_table E p m = Some m' \<and> manager_ok E m' \<and> cm_view E m' = cm_view E m \<and> table_clean m' p \<and>
    (\<forall>q. table_clean m q \<longrightarrow> table_clean m' q)"
proof -
  let ?d = "cm_dbs m t"
  have fit: "table_fit E m q" for q
    using ok by (simp add: manager_ok_def)
  have name: "dbNameType (cm_dbs m u) = u" for u
    using ok by (simp add: manager_ok_def)
  have other: "table_fit E m' q \<and> cm_view E m' q = cm_view E m q \<and> table_clean m' q = table_clean m q"
    if only: "only_prefix p ?d d'" and q: "q \<noteq> p" and dbs: "cm_dbs m' = (cm_dbs m)(t := d')"
      and same: "cw_comp (cm_caches m') q = cw_comp (cm_caches m) q" "cw_simp (cm_caches m') q = cw_simp (cm_caches m) q"
    for m' d' q
  proof (cases "map_of dbm_tables q")
    case None
    then show ?thesis by (simp add: table_fit_def cm_view_def table_clean_def)
  next
    case (Some e)
    then obtain u l where e: "map_of dbm_tables q = Some (u, l)" by (cases e) auto
    show ?thesis
    proof (cases l)
      case Composite
      then have f: "prefix_type (cm_ops E q) = q" "access_ok (cm_ops E q) (cm_dbs m u)" "\<exists>n. cw_comp (cm_caches m) q = DbCache n"
        using fit [of q] e by (simp_all add: table_fit_def)
      have "access_ok (cm_ops E q) (cm_dbs m' u)" "view (cm_ops E q) (cm_dbs m' u) c = view (cm_ops E q) (cm_dbs m u) c" for c
        using f(2) only_prefix_composite [OF only, of "cm_ops E q"] f(1) q unfolding dbs by (cases "u = t"; simp)+
      with f same e Composite show ?thesis
        by (simp add: table_fit_def cm_view_def table_clean_def)
    next
      case Simple
      then have f: "prefix_type (cm_ops1 E q) = q" "simple_ok (cm_ops1 E q) (cm_dbs m u)" "\<exists>v. cw_simp (cm_caches m) q = SDb v"
        using fit [of q] e by (simp_all add: table_fit_def)
      have "simple_ok (cm_ops1 E q) (cm_dbs m' u)" "sview (cm_ops1 E q) (cm_dbs m' u) c = sview (cm_ops1 E q) (cm_dbs m u) c" for c
        using f(2) only_prefix_simple [OF only, of "cm_ops1 E q"] f(1) q unfolding dbs by (cases "u = t"; simp)+
      with f same e Simple show ?thesis
        by (simp add: table_fit_def cm_view_def table_clean_def)
    qed
  qed
  have finish: ?thesis
    if step: "flush_table E p m = Some m'" and only: "only_prefix p ?d d'" and dbs: "cm_dbs m' = (cm_dbs m)(t := d')"
      and same: "\<And>q. q \<noteq> p \<Longrightarrow> cw_comp (cm_caches m') q = cw_comp (cm_caches m) q"
        "\<And>q. q \<noteq> p \<Longrightarrow> cw_simp (cm_caches m') q = cw_simp (cm_caches m) q"
      and self: "table_fit E m' p" "cm_view E m' p = cm_view E m p" "table_clean m' p"
    for m' d'
  proof -
    note o = other [OF only _ dbs same]
    have "table_fit E m' q" "cm_view E m' q = cm_view E m q" "table_clean m q \<Longrightarrow> table_clean m' q" for q
      using self o [of q] by (cases "q = p"; blast)+
    moreover have "dbNameType (cm_dbs m' u) = u" for u
      using name only by (simp add: dbs only_prefix_def)
    ultimately show ?thesis
      using step self(3) by (intro exI [of _ m']) (simp add: manager_ok_def fun_eq_iff)
  qed
  show ?thesis
  proof (cases k)
    case Composite
    then obtain n where f: "prefix_type (cm_ops E p) = p" "access_ok (cm_ops E p) ?d" "cw_comp (cm_caches m) p = DbCache n"
      using fit [of p] p by (auto simp: table_fit_def)
    obtain d' where d': "Flush (cm_ops E p) ?d (DbCache n) = Some (d', DbCache (Clear_node n))" "access_ok (cm_ops E p) d'"
      "only_prefix p ?d d'" "view (cm_ops E p) d' (DbCache (Clear_node n)) = view (cm_ops E p) ?d (DbCache n)"
      using flush_composite_only [OF f(2), of n] f(1) by auto
    show ?thesis
      by (rule finish [where d' = d' and m' = "m\<lparr>cm_dbs := (cm_dbs m)(t := d'), cm_caches := (cm_caches m)
          \<lparr>cw_comp := (cw_comp (cm_caches m))(p := DbCache (Clear_node n))\<rparr>\<rparr>"])
        (use p Composite f d' in \<open>simp_all add: flush_table_def table_fit_def cm_view_def table_clean_def Clear_node_def del: Flush.simps\<close>)
  next
    case Simple
    then obtain v where f: "prefix_type (cm_ops1 E p) = p" "simple_ok (cm_ops1 E p) ?d" "cw_simp (cm_caches m) p = SDb v"
      using fit [of p] p by (auto simp: table_fit_def)
    obtain d' where d': "Simple_Flush (cm_ops1 E p) ?d (SDb v) = Some (d', SDb None)" "simple_ok (cm_ops1 E p) d'"
      "only_prefix p ?d d'" "sview (cm_ops1 E p) d' (SDb None) = sview (cm_ops1 E p) ?d (SDb v)"
      using flush_simple_only [OF f(2), of v] f(1) by auto
    show ?thesis
      by (rule finish [where d' = d' and m' = "m\<lparr>cm_dbs := (cm_dbs m)(t := d'), cm_caches := (cm_caches m)
          \<lparr>cw_simp := (cw_simp (cm_caches m))(p := SDb None)\<rparr>\<rparr>"])
        (use p Simple f d' in \<open>simp_all add: flush_table_def table_fit_def cm_view_def table_clean_def del: Simple_Flush.simps\<close>)
  qed
qed

lemma flush_tables:
  assumes "manager_ok E m" and "set ps \<subseteq> fst ` set dbm_tables"
  shows "\<exists>m'. fold_opt (flush_table E) ps m = Some m' \<and> manager_ok E m' \<and> cm_view E m' = cm_view E m \<and>
    (\<forall>p \<in> set ps. table_clean m' p) \<and> (\<forall>q. table_clean m q \<longrightarrow> table_clean m' q)"
  using assms
proof (induction ps arbitrary: m)
  case (Cons p ps)
  then obtain t k where "map_of dbm_tables p = Some (t, k)"
    by (cases "map_of dbm_tables p") (auto simp: map_of_eq_None_iff)
  then obtain m1 where m1: "flush_table E p m = Some m1" "manager_ok E m1" "cm_view E m1 = cm_view E m" "table_clean m1 p"
    "\<forall>q. table_clean m q \<longrightarrow> table_clean m1 q"
    using flush_table_step [OF Cons.prems(1)] by blast
  obtain m' where "fold_opt (flush_table E) ps m1 = Some m'" "manager_ok E m'" "cm_view E m' = cm_view E m1"
    "\<forall>p \<in> set ps. table_clean m' p" "\<forall>q. table_clean m1 q \<longrightarrow> table_clean m' q"
    using Cons.IH [OF m1(2)] Cons.prems(2) by auto
  with m1 show ?case
    by (intro exI [of _ m']) auto
qed simp

section \<open>Opening again\<close>

text \<open>The types have the prefixes of their tables.\<close>

definition env_prefixes :: "cm_env \<Rightarrow> bool" where
  "env_prefixes E \<longleftrightarrow>
     (\<forall>p t. map_of dbm_tables p = Some (t, Composite) \<longrightarrow> prefix_type (cm_ops E p) = p) \<and>
     (\<forall>p t. map_of dbm_tables p = Some (t, Simple) \<longrightarrow> prefix_type (cm_ops1 E p) = p)"

lemma open_table_ok:
  assumes "\<And>t. dbNameType (D t) = t" and "env_prefixes E" and "map_of dbm_tables p = Some (t, k)"
  shows "\<exists>cw'. open_table E D (p, t, k) cw = Some cw' \<and> (k = Composite \<longrightarrow> cw_comp cw' p = DbCache (empty_node True)) \<and>
    (k = Simple \<longrightarrow> cw_simp cw' p = SDb None) \<and>
    (\<forall>q. q \<noteq> p \<longrightarrow> cw_comp cw' q = cw_comp cw q \<and> cw_simp cw' q = cw_simp cw q)"
proof (cases k)
  case Composite
  then have "prefix_type (cm_ops E p) = p"
    using assms(2,3) by (auto simp: env_prefixes_def)
  with Composite table_facts(2) [OF assms(3)] assms(1) show ?thesis
    by (simp add: new_on_db_def)
next
  case Simple
  then show ?thesis by (simp add: simple_new_on_db_def)
qed

lemma open_tables:
  assumes D: "\<And>t. dbNameType (D t) = t" and E: "env_prefixes E"
    and "distinct (map fst xs)" and "\<forall>(p, e) \<in> set xs. map_of dbm_tables p = Some e"
  shows "\<exists>cw'. fold_opt (open_table E D) xs cw = Some cw' \<and>
    (\<forall>p t k. (p, t, k) \<in> set xs \<longrightarrow> (k = Composite \<longrightarrow> cw_comp cw' p = DbCache (empty_node True)) \<and>
       (k = Simple \<longrightarrow> cw_simp cw' p = SDb None)) \<and>
    (\<forall>q. q \<notin> fst ` set xs \<longrightarrow> cw_comp cw' q = cw_comp cw q \<and> cw_simp cw' q = cw_simp cw q)"
  using assms(3,4)
proof (induction xs arbitrary: cw)
  case (Cons x xs)
  obtain p t k where x: "x = (p, t, k)" by (cases x)
  obtain c1 where c1: "open_table E D (p, t, k) cw = Some c1" "k = Composite \<longrightarrow> cw_comp c1 p = DbCache (empty_node True)"
    "k = Simple \<longrightarrow> cw_simp c1 p = SDb None"
    "\<forall>q. q \<noteq> p \<longrightarrow> cw_comp c1 q = cw_comp cw q \<and> cw_simp c1 q = cw_simp cw q"
    using open_table_ok [OF D E, of p t k cw] Cons.prems(2) x by auto
  obtain c2 where c2: "fold_opt (open_table E D) xs c1 = Some c2"
    "\<forall>p t k. (p, t, k) \<in> set xs \<longrightarrow> (k = Composite \<longrightarrow> cw_comp c2 p = DbCache (empty_node True)) \<and>
       (k = Simple \<longrightarrow> cw_simp c2 p = SDb None)"
    "\<forall>q. q \<notin> fst ` set xs \<longrightarrow> cw_comp c2 q = cw_comp c1 q \<and> cw_simp c2 q = cw_simp c1 q"
    using Cons.IH [of c1] Cons.prems by auto
  have p: "p \<notin> fst ` set xs"
    using Cons.prems(1) x by simp
  show ?case
    using c1 c2 p x by (intro exI [of _ c2]) auto
qed simp

lemma clean_view:
  assumes "mapData n = sm_empty"
  shows "view T d (DbCache n) = view T d (DbCache (empty_node True))"
proof -
  have "raw T d (DbCache n) = raw T d (DbCache (empty_node True))"
    using assms by (simp add: fun_eq_iff empty_node_def)
  then show ?thesis
    by (simp only: view_def)
qed

lemma reopen:
  assumes ok: "manager_ok E m" and clean: "\<And>p. table_clean m p"
  shows "\<exists>m'. CCacheDBManager_make E (cm_dbs m) = Some m' \<and> cm_view E m' = cm_view E m"
proof -
  have D: "dbNameType (cm_dbs m t) = t" for t
    using ok by (simp add: manager_ok_def)
  have fit: "table_fit E m p" for p
    using ok by (simp add: manager_ok_def)
  have "prefix_type (cm_ops E p) = p" if "map_of dbm_tables p = Some (t, Composite)" for p t
    using fit [of p] that by (simp add: table_fit_def)
  moreover have "prefix_type (cm_ops1 E p) = p" if "map_of dbm_tables p = Some (t, Simple)" for p t
    using fit [of p] that by (simp add: table_fit_def)
  ultimately have E: "env_prefixes E"
    unfolding env_prefixes_def by blast
  have "\<forall>(p, e) \<in> set dbm_tables. map_of dbm_tables p = Some e"
    using dbm_tables_facts(1) by auto
  then obtain cw where cw: "fold_opt (open_table E (cm_dbs m)) dbm_tables empty_wrapper = Some cw"
    "\<And>p t k. (p, t, k) \<in> set dbm_tables \<Longrightarrow> (k = Composite \<longrightarrow> cw_comp cw p = DbCache (empty_node True)) \<and>
       (k = Simple \<longrightarrow> cw_simp cw p = SDb None)"
    using open_tables [of "cm_dbs m" E dbm_tables empty_wrapper] D E dbm_tables_facts(1) by auto
  let ?m = "\<lparr>cm_caches = cw, cm_dbs = cm_dbs m\<rparr>"
  have "cm_view E ?m p = cm_view E m p" for p
  proof (cases "map_of dbm_tables p")
    case None
    then show ?thesis by (simp add: cm_view_def)
  next
    case (Some e)
    then obtain t k where e: "map_of dbm_tables p = Some (t, k)" by (cases e) auto
    then have "(p, t, k) \<in> set dbm_tables" by (rule map_of_SomeD)
    then show ?thesis
      using cw(2) [of p t k] clean [of p] e
      by (cases k) (auto simp: cm_view_def table_clean_def intro: clean_view [symmetric])
  qed
  then show ?thesis
    using cw(1) by (auto simp: CCacheDBManager_make_def fun_eq_iff)
qed

lemma flush_reopen:
  assumes "manager_ok E m"
  shows "\<exists>m' m''. CCacheDBManager_Flush E m = Some (m', True) \<and> cm_view E m' = cm_view E m \<and> (\<forall>p. table_clean m' p) \<and>
    CCacheDBManager_make E (cm_dbs m') = Some m'' \<and> cm_view E m'' = cm_view E m"
proof -
  obtain m' where m': "fold_opt (flush_table E) (concat (map flushes dbm_Flush)) m = Some m'" "manager_ok E m'"
    "cm_view E m' = cm_view E m" "\<forall>p \<in> set (concat (map flushes dbm_Flush)). table_clean m' p"
    using flush_tables [OF assms, of "concat (map flushes dbm_Flush)"] dbm_tables_facts(3) by blast
  have clean: "table_clean m' p" for p
  proof (cases "map_of dbm_tables p")
    case None
    then show ?thesis by (simp add: table_clean_def)
  next
    case (Some e)
    then have "(p, e) \<in> set dbm_tables" by (rule map_of_SomeD)
    then have "p \<in> set (concat (map flushes dbm_Flush))"
      unfolding dbm_tables_facts(3) by force
    with m'(4) show ?thesis by blast
  qed
  from reopen [OF m'(2) clean] m'(1,3) clean show ?thesis
    by (auto simp: CCacheDBManager_Flush_def)
qed

section \<open>A concrete instance\<close>

definition sample_cm_env :: cm_env where
  "sample_cm_env = \<lparr>cm_ops = bytes_ops, cm_ops1 = bytes1_ops\<rparr>"

text \<open>One account is in its cache and not in the database yet.\<close>

definition sample_manager :: CCacheDBManager where
  "sample_manager = \<lparr>cm_caches =
     \<lparr>cw_comp = (\<lambda>p. if p = KEYID_ACCOUNT then DbCache ((empty_node True)\<lparr>mapData := sm_set ''k'' ''v'' sm_empty\<rparr>)
        else DbCache (empty_node True)), cw_simp = (\<lambda>_. SDb None)\<rparr>, cm_dbs = empty_db\<rparr>"

lemma bytes1_simple_ok: "is_data_prefix p \<Longrightarrow> simple_ok (bytes1_ops p) (empty_db t)"
  by (simp add: simple_ok_def access_ok_def kv_wf_def bytes1_ops_def sdb_val_def empty_db_def ldb_healthy_def)

lemma sample_manager_ok: "manager_ok sample_cm_env sample_manager"
proof -
  have "table_fit sample_cm_env sample_manager p" for p
  proof (cases "map_of dbm_tables p")
    case None
    then show ?thesis by (simp add: table_fit_def)
  next
    case (Some e)
    then obtain t k where e: "map_of dbm_tables p = Some (t, k)" by (cases e) auto
    then show ?thesis
      using table_facts(1) [OF e] bytes1_simple_ok [of p t]
      by (cases k) (simp_all add: table_fit_def sample_cm_env_def sample_manager_def)
  qed
  then show ?thesis
    by (simp add: manager_ok_def sample_manager_def)
qed

section \<open>Properties\<close>

text \<open>
  Claim C9: Nothing is lost when the node stops.  A flush of the manager succeeds, changes
  what no table of no class shows, though tables share databases, and empties every cache; and a
  manager opened afterwards on the same databases shows in every table exactly what the manager
  before showed.
\<close>

theorem manager_restart:
  assumes "manager_ok E m"
  shows "\<exists>m' m''. CCacheDBManager_Flush E m = Some (m', True) \<and> cm_view E m' = cm_view E m \<and> (\<forall>p. table_clean m' p) \<and>
    CCacheDBManager_make E (cm_dbs m') = Some m'' \<and> cm_view E m'' = cm_view E m"
  using flush_reopen [OF assms] .

theorem manager_restart_witness:
  "\<exists>m' m''. CCacheDBManager_Flush sample_cm_env sample_manager = Some (m', True) \<and>
    CCacheDBManager_make sample_cm_env (cm_dbs m') = Some m'' \<and> cm_view sample_cm_env m'' KEYID_ACCOUNT ''k'' = Some ''v''"
proof -
  have "map_of dbm_tables KEYID_ACCOUNT = Some (DB_ACCOUNT, Composite)"
    by (simp add: dbm_tables_def dbm_open_def class_defs)
  then have "cm_view sample_cm_env sample_manager KEYID_ACCOUNT ''k'' = Some ''v''"
    by (simp add: cm_view_def sample_manager_def sample_cm_env_def view_def visible_def)
  with manager_restart [OF sample_manager_ok] show ?thesis
    by metis
qed

end
