(* ===== verification/Wrapper_Layer.thy ===== *)
theory Wrapper_Layer
  imports Cache_Manager
begin

text \<open>
  \<open>CCacheWrapper\<close> of \<open>cachewrapper.cpp\<close> as a layer: a wrapper is built on another one or on the
  manager, transactions write to it, and its \<open>Flush\<close> publishes what they wrote.  What the wrapper
  was built on is inside the value of its caches; \<open>below\<close> takes it out.
\<close>

declare split_paired_Ex [simp del] split_paired_All [simp del]

section \<open>Operations\<close>

definition set_base_table :: "CCacheWrapper \<Rightarrow> PrefixType \<Rightarrow> CCacheWrapper \<Rightarrow> CCacheWrapper option" where
  "set_base_table base p cw =
     (case kind_of p of
        None \<Rightarrow> None
      | Some Composite \<Rightarrow>
          do { c \<leftarrow> SetBase (cw_comp base p) (cw_comp cw p); Some (cw\<lparr>cw_comp := (cw_comp cw)(p := c)\<rparr>) }
      | Some Simple \<Rightarrow>
          do { c \<leftarrow> Simple_SetBase (cw_simp base p) (cw_simp cw p); Some (cw\<lparr>cw_simp := (cw_simp cw)(p := c)\<rparr>) })"

text \<open>The two constructors with an argument make the same calls, on a wrapper and on the caches of the manager.\<close>

definition CCacheWrapper_on_wrapper :: "CCacheWrapper \<Rightarrow> CCacheWrapper option" where
  "CCacheWrapper_on_wrapper cwIn = fold_opt (set_base_table cwIn) based_prefixes empty_wrapper"

definition CCacheWrapper_on_manager :: "CCacheDBManager \<Rightarrow> CCacheWrapper option" where
  "CCacheWrapper_on_manager m = fold_opt (set_base_table (cm_caches m)) based_prefixes empty_wrapper"

text \<open>\<open>Flush\<close>, with the databases: a wrapper that is a copy of the manager's caches stands on them itself.\<close>

definition CCacheWrapper_Flush :: "cm_env \<Rightarrow> CCacheDBManager \<Rightarrow> CCacheDBManager option" where
  "CCacheWrapper_Flush E s = fold_opt (flush_table E) flushed_prefixes s"

text \<open>\<open>CopyFrom\<close> and the assignment copy every member, the layers below being shared.\<close>

definition copy_table :: "CCacheWrapper \<Rightarrow> PrefixType \<Rightarrow> CCacheWrapper \<Rightarrow> CCacheWrapper" where
  "copy_table other p cw =
     (case kind_of p of
        None \<Rightarrow> cw
      | Some Composite \<Rightarrow> cw\<lparr>cw_comp := (cw_comp cw)(p := cw_comp other p)\<rparr>
      | Some Simple \<Rightarrow> cw\<lparr>cw_simp := (cw_simp cw)(p := cw_simp other p)\<rparr>)"

definition cw_CopyFrom :: "cw_member list" where
  "cw_CopyFrom = [Table InerySysParamDBCache, Table IneryBlockDBCache, Table IneryAccountDBCache,
     Table CAssetDbCache, Table CContractDBCache, Table IneryDelegateDBCache, Table IneryCdpDBCache,
     Table CClosedCdpDBCache, Table CDexDBCache, Table IneryTxReceiptDBCache, Table IneryTxUTXODBCache,
     Table CAxcDBCache, TxMem, PricePointMem, Table InerySysGovernDBCache, Table IneryPriceFeedCache]"

definition cw_assign :: "cw_member list" where
  "cw_assign = [Table InerySysParamDBCache, Table IneryBlockDBCache, Table IneryAccountDBCache,
     Table CAssetDbCache, Table CContractDBCache, Table IneryDelegateDBCache, Table IneryCdpDBCache,
     Table CClosedCdpDBCache, Table CDexDBCache, Table IneryTxReceiptDBCache, Table IneryTxUTXODBCache,
     TxMem, Table CAxcDBCache, PricePointMem, Table InerySysGovernDBCache, Table IneryPriceFeedCache]"

definition member_prefixes :: "cw_member list \<Rightarrow> PrefixType list" where
  "member_prefixes ms = concat (map (\<lambda>m. case m of Table c \<Rightarrow> map fst (members c) | _ \<Rightarrow> []) ms)"

definition CopyFrom :: "CCacheDBManager \<Rightarrow> CCacheWrapper \<Rightarrow> CCacheWrapper" where
  "CopyFrom m cw = fold (copy_table (cm_caches m)) (member_prefixes cw_CopyFrom) cw"

definition NewCopyFrom :: "CCacheDBManager \<Rightarrow> CCacheWrapper" where
  "NewCopyFrom m = CopyFrom m empty_wrapper"

text \<open>Assigning a wrapper to itself changes nothing, so the test of the code for it needs no branch.\<close>

definition assign :: "CCacheWrapper \<Rightarrow> CCacheWrapper \<Rightarrow> CCacheWrapper" where
  "assign other cw = fold (copy_table other) (member_prefixes cw_assign) cw"

section \<open>Below a wrapper\<close>

fun base_of :: "('k::linorder, 'v) kvcache \<Rightarrow> ('k, 'v) kvcache" where
  "base_of (SubCache n b) = b"
| "base_of (DbCache n) = DbCache n"
| "base_of (FreeCache n) = FreeCache n"

fun simple_base_of :: "'v simple_cache \<Rightarrow> 'v simple_cache" where
  "simple_base_of (SSub v b) = b"
| "simple_base_of (SDb v) = SDb v"
| "simple_base_of (SFree v) = SFree v"

text \<open>The manager once the caches of the wrapper have changed it.\<close>

definition below :: "CCacheWrapper \<Rightarrow> CCacheDBManager \<Rightarrow> CCacheDBManager" where
  "below cw m = m\<lparr>cm_caches := \<lparr>
     cw_comp = (\<lambda>p. if kind_of p = Some Composite then base_of (cw_comp cw p) else cw_comp (cm_caches m) p),
     cw_simp = (\<lambda>p. if kind_of p = Some Simple then simple_base_of (cw_simp cw p) else cw_simp (cm_caches m) p)\<rparr>\<rparr>"

definition layered :: "CCacheWrapper \<Rightarrow> bool" where
  "layered cw \<longleftrightarrow> (\<forall>p. case kind_of p of
       Some Composite \<Rightarrow> (\<exists>n b. cw_comp cw p = SubCache n b)
     | Some Simple \<Rightarrow> (\<exists>v b. cw_simp cw p = SSub v b)
     | None \<Rightarrow> True)"

definition table_db :: "PrefixType \<Rightarrow> DBNameType" where
  "table_db p = (case map_of dbm_tables p of Some (t, _) \<Rightarrow> t | None \<Rightarrow> DB_NAME_COUNT)"

definition cw_env_of :: "cm_env \<Rightarrow> (DBNameType \<Rightarrow> CDBAccess) \<Rightarrow> cw_env" where
  "cw_env_of E D = \<lparr>ops = cm_ops E, ops1 = cm_ops1 E, dbs = (\<lambda>p. D (table_db p))\<rparr>"

text \<open>What a write does to the tables, and a sequence of writes.\<close>

fun table_write :: "cm_env \<Rightarrow> cw_write \<Rightarrow> (PrefixType \<Rightarrow> string \<Rightarrow> string option) \<Rightarrow> PrefixType \<Rightarrow> string \<Rightarrow> string option" where
  "table_write E (CWrite p w) V = V(p := after_write (cm_ops E p) w (V p))"
| "table_write E (SWrite p (SSet v)) V = V(p := (\<lambda>_. nonempty (cm_ops1 E p) (Some v)))"
| "table_write E (SWrite p SErase) V = V(p := (\<lambda>_. None))"

lemma kind_table: "kind_of p = Some k \<Longrightarrow> map_of dbm_tables p = Some (table_db p, k)"
proof -
  have "list_all (\<lambda>(p, k). map_option snd (map_of dbm_tables p) = Some k) all_tables"
    by (simp add: dbm_tables_def dbm_open_def all_tables_def cw_SetDbOpLogMap_def class_defs)
  moreover assume "kind_of p = Some k"
  then have "(p, k) \<in> set all_tables"
    unfolding kind_of_def by (rule map_of_SomeD)
  ultimately have "map_option snd (map_of dbm_tables p) = Some k"
    by (auto simp: list_all_iff)
  then show ?thesis
    by (auto simp: table_db_def)
qed

lemma set_based: "set based_prefixes = fst ` set all_tables" "distinct based_prefixes"
  by (simp_all add: all_tables_def based_prefixes_def cw_SetDbOpLogMap_def cw_SetBaseViewPtr_def class_defs insert_commute)

lemma kind_of_iff: "kind_of p \<noteq> None \<longleftrightarrow> p \<in> fst ` set all_tables"
  by (simp add: kind_of_def map_of_eq_None_iff)

section \<open>Building a wrapper\<close>

lemma set_base_tables:
  assumes "set ps \<subseteq> fst ` set all_tables" and "distinct ps"
    and "\<forall>p \<in> set ps. cw_comp cw p = new_free \<and> cw_simp cw p = simple_new_free"
  shows "\<exists>cw'. fold_opt (set_base_table base) ps cw = Some cw' \<and>
    (\<forall>p \<in> set ps. (kind_of p = Some Composite \<longrightarrow> cw_comp cw' p = SubCache (empty_node False) (cw_comp base p)) \<and>
       (kind_of p = Some Simple \<longrightarrow> cw_simp cw' p = SSub None (cw_simp base p))) \<and>
    (\<forall>p. p \<notin> set ps \<longrightarrow> cw_comp cw' p = cw_comp cw p \<and> cw_simp cw' p = cw_simp cw p)"
  using assms
proof (induction ps arbitrary: cw)
  case (Cons p ps)
  have "kind_of p \<noteq> None"
    using Cons.prems(1) kind_of_iff [of p] by simp
  then obtain k where k: "kind_of p = Some k"
    by blast
  then obtain c1 where c1: "set_base_table base p cw = Some c1"
    "kind_of p = Some Composite \<longrightarrow> cw_comp c1 p = SubCache (empty_node False) (cw_comp base p)"
    "kind_of p = Some Simple \<longrightarrow> cw_simp c1 p = SSub None (cw_simp base p)"
    "\<forall>q. q \<noteq> p \<longrightarrow> cw_comp c1 q = cw_comp cw q \<and> cw_simp c1 q = cw_simp cw q"
    using Cons.prems(3)
    by (cases k) (auto simp: set_base_table_def new_free_def simple_new_free_def empty_node_def)
  have "\<forall>q \<in> set ps. cw_comp c1 q = new_free \<and> cw_simp c1 q = simple_new_free"
    using c1(4) Cons.prems(2,3) by auto
  then obtain c2 where c2: "fold_opt (set_base_table base) ps c1 = Some c2"
    "\<forall>p \<in> set ps. (kind_of p = Some Composite \<longrightarrow> cw_comp c2 p = SubCache (empty_node False) (cw_comp base p)) \<and>
       (kind_of p = Some Simple \<longrightarrow> cw_simp c2 p = SSub None (cw_simp base p))"
    "\<forall>p. p \<notin> set ps \<longrightarrow> cw_comp c2 p = cw_comp c1 p \<and> cw_simp c2 p = cw_simp c1 p"
    using Cons.IH [of c1] Cons.prems(1,2) by auto
  have "p \<notin> set ps"
    using Cons.prems(2) by simp
  with c1 c2 show ?case
    by (intro exI [of _ c2]) auto
qed simp

lemma wrapper_made:
  obtains cw where "fold_opt (set_base_table base) based_prefixes empty_wrapper = Some cw"
    "\<And>p. kind_of p = Some Composite \<Longrightarrow> cw_comp cw p = SubCache (empty_node False) (cw_comp base p)"
    "\<And>p. kind_of p = Some Simple \<Longrightarrow> cw_simp cw p = SSub None (cw_simp base p)"
proof -
  have fresh: "\<forall>p \<in> set based_prefixes. cw_comp empty_wrapper p = new_free \<and> cw_simp empty_wrapper p = simple_new_free"
    by (simp add: empty_wrapper_def)
  obtain cw where cw: "fold_opt (set_base_table base) based_prefixes empty_wrapper = Some cw"
    "\<forall>p \<in> set based_prefixes. (kind_of p = Some Composite \<longrightarrow> cw_comp cw p = SubCache (empty_node False) (cw_comp base p)) \<and>
       (kind_of p = Some Simple \<longrightarrow> cw_simp cw p = SSub None (cw_simp base p))"
    using set_base_tables [OF eq_refl [OF set_based(1)] set_based(2) fresh] by blast
  have "p \<in> set based_prefixes" if "kind_of p = Some k" for p k
    using that kind_of_iff [of p] set_based(1) by simp
  with cw that show thesis
    by blast
qed

lemma wrapper_made_ex:
  "\<exists>cw. fold_opt (set_base_table base) based_prefixes empty_wrapper = Some cw \<and>
    (\<forall>p. kind_of p = Some Composite \<longrightarrow> cw_comp cw p = SubCache (empty_node False) (cw_comp base p)) \<and>
    (\<forall>p. kind_of p = Some Simple \<longrightarrow> cw_simp cw p = SSub None (cw_simp base p))"
  by (rule wrapper_made [of base]) blast

lemma wrapper_on: "\<exists>cw. CCacheWrapper_on_manager m = Some cw"
  unfolding CCacheWrapper_on_manager_def by (rule wrapper_made [of "cm_caches m"]) (rule exI)

section \<open>Writing through a layer\<close>

fun on_db :: "('k::linorder, 'v) kvcache \<Rightarrow> bool" where
  "on_db (DbCache n) = True"
| "on_db (SubCache n b) = False"
| "on_db (FreeCache n) = False"

fun simple_on_db :: "'v simple_cache \<Rightarrow> bool" where
  "simple_on_db (SDb v) = True"
| "simple_on_db (SSub v b) = False"
| "simple_on_db (SFree v) = False"

lemma on_db_iff: "on_db c \<longleftrightarrow> (\<exists>n. c = DbCache n)" "simple_on_db s \<longleftrightarrow> (\<exists>v. s = SDb v)"
  by (cases c; simp) (cases s; simp)

lemma on_db_with_node [simp]: "on_db (with_node c n) = on_db c"
  by (cases c) simp_all

lemma on_db_get: "GetDataIt T d k c = Some (c', r) \<Longrightarrow> on_db c' = on_db c"
  by (cases c) (auto split: option.splits Option.bind_splits)

lemma on_db_memo: "access_ok T d \<Longrightarrow> on_db (memo T d k c) = on_db c"
  by (rule on_db_get [OF GetDataIt_eq])

text \<open>An operation on a layer leaves a layer, and what it stands on shows the same.\<close>

definition stays :: "('k, 'v) kvops \<Rightarrow> CDBAccess \<Rightarrow> ('k::linorder, 'v) kvcache \<Rightarrow> ('k, 'v) kvcache \<Rightarrow> bool" where
  "stays T d b c' \<longleftrightarrow> (\<exists>n' b'. c' = SubCache n' b' \<and> raw T d b' = raw T d b \<and> on_db b' = on_db b)"

lemma stays_memo:
  assumes "access_ok T d"
  shows "stays T d b (memo T d k (SubCache n b))"
proof -
  have "stays T d b c'" if "GetDataIt T d k (SubCache n b) = Some (c', r)" for c' r
    using that GetDataIt_eq [OF assms, of k b] memo_simps(1) [OF assms, of k b] on_db_memo [OF assms, of k b]
    by (auto simp: stays_def split: option.splits Option.bind_splits)
  with GetDataIt_eq [OF assms] show ?thesis
    by blast
qed

lemma stays_node: "stays T d b c \<Longrightarrow> stays T d b (with_node c n)"
  by (auto simp: stays_def)

lemma stays_write:
  assumes ok: "access_ok T d"
  shows "stays T d b (write_result T d w (SubCache n b))"
proof -
  note m = stays_memo [OF ok]
  have put: "stays T d b c'" if "SetData T d k v (SubCache n b) None = Some (True, c', lg)" "\<not> key_empty T k" for k v c' lg
    using that m [of b k n] ok
    by (auto simp: SetData_def GetDataIt_eq [OF ok] AddOpLog_eq Let_def stays_node simp del: GetDataIt.simps
        split: option.splits Option.bind_splits)
  have del: "stays T d b c'" if "EraseData T d k (SubCache n b) None = Some (True, c', lg)" "\<not> key_empty T k" for k c' lg
    using that m [of b k n] ok
    by (auto simp: EraseData_def GetDataIt_eq [OF ok] AddOpLog_eq Let_def stays_node simp del: GetDataIt.simps
        split: option.splits Option.bind_splits if_splits)
  have same: "stays T d b (SubCache n b)"
    by (simp add: stays_def)
  show ?thesis
    using put [OF SetData_eq [OF ok]] del [OF EraseData_eq [OF ok]] same by (cases w) auto
qed

definition sstays :: "(unit, 'v) kvops \<Rightarrow> CDBAccess \<Rightarrow> 'v simple_cache \<Rightarrow> 'v simple_cache \<Rightarrow> bool" where
  "sstays T d b c' \<longleftrightarrow> (\<exists>v' b'. c' = SSub v' b' \<and> sraw T d b' = sraw T d b \<and> simple_on_db b' = simple_on_db b)"

lemma simple_on_db_set [simp]: "simple_on_db (set_ptrData p c) = simple_on_db c"
  by (cases c) simp_all

lemma simple_on_db_get:
  "GetDataPtr T d c = Some (c', r) \<Longrightarrow> simple_on_db c' = simple_on_db c"
  by (cases c) (auto split: option.splits Option.bind_splits if_splits)

lemma sstays_get:
  assumes "simple_ok T d" and "GetDataPtr T d (SSub v b) = Some (c', r)"
  shows "sstays T d b c'"
proof -
  obtain b' where b': "GetDataPtr T d b = Some (b', sraw T d b)" "sraw T d b' = sraw T d b"
    using GetDataPtr_obtain [OF assms(1)] by metis
  with assms(2) simple_on_db_get [OF b'(1)] show ?thesis
    by (auto simp: sstays_def split: option.splits)
qed

lemma sstays_set: "sstays T d b c \<Longrightarrow> sstays T d b (set_ptrData p c)"
  by (auto simp: sstays_def)

lemma sstays_run:
  assumes ok: "simple_ok T d" and run: "simple_run T d w (SSub v b, lg) = Some (c', lg')"
  shows "sstays T d b c'"
proof -
  obtain c1 where c1: "GetDataPtr T d (SSub v b) = Some (c1, sraw T d (SSub v b))"
    using GetDataPtr_obtain [OF ok] by metis
  from sstays_get [OF ok this] run c1 show ?thesis
    by (cases w) (auto simp: Simple_SetData_def Simple_EraseData_def Let_def sstays_set simp del: GetDataPtr.simps
        split: option.splits Option.bind_splits if_splits)
qed

text \<open>The tables of a wrapper, and of what is below it, on the databases of a manager.\<close>

definition wrapper_view :: "cm_env \<Rightarrow> (DBNameType \<Rightarrow> CDBAccess) \<Rightarrow> CCacheWrapper \<Rightarrow> PrefixType \<Rightarrow> string \<Rightarrow> string option" where
  "wrapper_view E D cw = cm_view E \<lparr>cm_caches = cw, cm_dbs = D\<rparr>"

lemma wrapper_view_simps:
  "kind_of p = Some Composite \<Longrightarrow> wrapper_view E D cw p = view (cm_ops E p) (D (table_db p)) (cw_comp cw p)"
  "kind_of p = Some Simple \<Longrightarrow> wrapper_view E D cw p = (\<lambda>_. sview (cm_ops1 E p) (D (table_db p)) (cw_simp cw p))"
  by (simp_all add: wrapper_view_def cm_view_def kind_table)

lemma manager_view_simps:
  "kind_of p = Some Composite \<Longrightarrow> cm_view E m p = view (cm_ops E p) (cm_dbs m (table_db p)) (cw_comp (cm_caches m) p)"
  "kind_of p = Some Simple \<Longrightarrow> cm_view E m p = (\<lambda>_. sview (cm_ops1 E p) (cm_dbs m (table_db p)) (cw_simp (cm_caches m) p))"
  by (simp_all add: cm_view_def kind_table)

text \<open>What the wrapper below keeps: the manager's databases and types fit, and so do its caches.\<close>

definition on_manager :: "cm_env \<Rightarrow> CCacheDBManager \<Rightarrow> CCacheWrapper \<Rightarrow> bool" where
  "on_manager E m cw \<longleftrightarrow> manager_ok E m \<and> layered cw \<and> manager_ok E (below cw m)"

lemma manager_fit:
  assumes "manager_ok E m"
  shows "kind_of p = Some Composite \<Longrightarrow> access_ok (cm_ops E p) (cm_dbs m (table_db p))"
    "kind_of p = Some Simple \<Longrightarrow> simple_ok (cm_ops1 E p) (cm_dbs m (table_db p))"
    "kind_of p = Some Composite \<Longrightarrow> on_db (cw_comp (cm_caches m) p)"
    "kind_of p = Some Simple \<Longrightarrow> simple_on_db (cw_simp (cm_caches m) p)"
proof -
  have "table_fit E m p"
    using assms by (simp add: manager_ok_def)
  then show "kind_of p = Some Composite \<Longrightarrow> access_ok (cm_ops E p) (cm_dbs m (table_db p))"
    "kind_of p = Some Simple \<Longrightarrow> simple_ok (cm_ops1 E p) (cm_dbs m (table_db p))"
    "kind_of p = Some Composite \<Longrightarrow> on_db (cw_comp (cm_caches m) p)"
    "kind_of p = Some Simple \<Longrightarrow> simple_on_db (cw_simp (cm_caches m) p)"
    by (simp_all add: table_fit_def kind_table on_db_iff)
qed

lemma below_put_composite:
  assumes m: "on_manager E m cw" and k: "kind_of p = Some Composite" and b': "on_db b'"
  shows "on_manager E m (cw\<lparr>cw_comp := (cw_comp cw)(p := SubCache n' b')\<rparr>)"
    "cm_view E (below (cw\<lparr>cw_comp := (cw_comp cw)(p := SubCache n' b')\<rparr>) m) =
       (cm_view E (below cw m))(p := view (cm_ops E p) (cm_dbs m (table_db p)) b')"
proof -
  let ?cw = "cw\<lparr>cw_comp := (cw_comp cw)(p := SubCache n' b')\<rparr>"
  have lay: "layered ?cw"
    using m k unfolding on_manager_def layered_def by (auto split: option.splits member_kind.splits)
  have fit: "table_fit E (below ?cw m) q" for q
  proof -
    have "table_fit E (below cw m) q"
      using m by (simp add: on_manager_def manager_ok_def)
    then show ?thesis
      using b' k kind_table [OF k]
      by (cases "q = p") (auto simp: table_fit_def below_def on_db_iff split: option.splits member_kind.splits)
  qed
  show "on_manager E m ?cw"
    using m lay fit by (simp add: on_manager_def manager_ok_def below_def)
  show "cm_view E (below ?cw m) = (cm_view E (below cw m))(p := view (cm_ops E p) (cm_dbs m (table_db p)) b')"
  proof
    fix q
    show "cm_view E (below ?cw m) q = ((cm_view E (below cw m))(p := view (cm_ops E p) (cm_dbs m (table_db p)) b')) q"
      using k kind_table [OF k]
      by (cases "q = p") (simp_all add: cm_view_def below_def split: option.split prod.split member_kind.split)
  qed
qed

lemma below_put_simple:
  assumes m: "on_manager E m cw" and k: "kind_of p = Some Simple" and b': "simple_on_db b'"
  shows "on_manager E m (cw\<lparr>cw_simp := (cw_simp cw)(p := SSub v' b')\<rparr>)"
    "cm_view E (below (cw\<lparr>cw_simp := (cw_simp cw)(p := SSub v' b')\<rparr>) m) =
       (cm_view E (below cw m))(p := (\<lambda>_. sview (cm_ops1 E p) (cm_dbs m (table_db p)) b'))"
proof -
  let ?cw = "cw\<lparr>cw_simp := (cw_simp cw)(p := SSub v' b')\<rparr>"
  have lay: "layered ?cw"
    using m k unfolding on_manager_def layered_def by (auto split: option.splits member_kind.splits)
  have fit: "table_fit E (below ?cw m) q" for q
  proof -
    have "table_fit E (below cw m) q"
      using m by (simp add: on_manager_def manager_ok_def)
    then show ?thesis
      using b' k kind_table [OF k]
      by (cases "q = p") (auto simp: table_fit_def below_def on_db_iff split: option.splits member_kind.splits)
  qed
  show "on_manager E m ?cw"
    using m lay fit by (simp add: on_manager_def manager_ok_def below_def)
  show "cm_view E (below ?cw m) = (cm_view E (below cw m))(p := (\<lambda>_. sview (cm_ops1 E p) (cm_dbs m (table_db p)) b'))"
  proof
    fix q
    show "cm_view E (below ?cw m) q = ((cm_view E (below cw m))(p := (\<lambda>_. sview (cm_ops1 E p) (cm_dbs m (table_db p)) b'))) q"
      using k kind_table [OF k]
      by (cases "q = p") (simp_all add: cm_view_def below_def split: option.split prod.split member_kind.split)
  qed
qed

text \<open>What is below a table, and that it is on its database.\<close>

lemma below_table:
  "kind_of p = Some Composite \<Longrightarrow> cw_comp cw p = SubCache n b \<Longrightarrow>
     cm_view E (below cw m) p = view (cm_ops E p) (cm_dbs m (table_db p)) b"
  "kind_of p = Some Simple \<Longrightarrow> cw_simp cw p = SSub v b1 \<Longrightarrow>
     cm_view E (below cw m) p = (\<lambda>_. sview (cm_ops1 E p) (cm_dbs m (table_db p)) b1)"
  by (simp_all add: manager_view_simps below_def)

lemma below_on_db:
  assumes "on_manager E m cw"
  shows "kind_of p = Some Composite \<Longrightarrow> cw_comp cw p = SubCache n b \<Longrightarrow> on_db b"
    "kind_of p = Some Simple \<Longrightarrow> cw_simp cw p = SSub v b1 \<Longrightarrow> simple_on_db b1"
  using manager_fit(3,4) [of E "below cw m" p] assms by (auto simp: on_manager_def below_def)

lemma below_step_composite:
  assumes m: "on_manager E m cw" and k: "kind_of p = Some Composite" and c: "cw_comp cw p = SubCache n b"
    and s: "stays (cm_ops E p) (cm_dbs m (table_db p)) b c'"
  shows "on_manager E m (cw\<lparr>cw_comp := (cw_comp cw)(p := c')\<rparr>)"
    "cm_view E (below (cw\<lparr>cw_comp := (cw_comp cw)(p := c')\<rparr>) m) = cm_view E (below cw m)"
proof -
  obtain n' b' where c': "c' = SubCache n' b'" "raw (cm_ops E p) (cm_dbs m (table_db p)) b' = raw (cm_ops E p) (cm_dbs m (table_db p)) b"
    "on_db b'"
    using s below_on_db(1) [OF m k c] by (auto simp: stays_def)
  note put = below_put_composite [OF m k c'(3), of n']
  show "on_manager E m (cw\<lparr>cw_comp := (cw_comp cw)(p := c')\<rparr>)"
    using put(1) c'(1) by simp
  show "cm_view E (below (cw\<lparr>cw_comp := (cw_comp cw)(p := c')\<rparr>) m) = cm_view E (below cw m)"
    using put(2) c'(1,2) below_table(1) [OF k c] by (simp add: view_def fun_upd_idem)
qed

lemma below_step_simple:
  assumes m: "on_manager E m cw" and k: "kind_of p = Some Simple" and c: "cw_simp cw p = SSub v b"
    and s: "sstays (cm_ops1 E p) (cm_dbs m (table_db p)) b c'"
  shows "on_manager E m (cw\<lparr>cw_simp := (cw_simp cw)(p := c')\<rparr>)"
    "cm_view E (below (cw\<lparr>cw_simp := (cw_simp cw)(p := c')\<rparr>) m) = cm_view E (below cw m)"
proof -
  obtain v' b' where c': "c' = SSub v' b'" "sraw (cm_ops1 E p) (cm_dbs m (table_db p)) b' = sraw (cm_ops1 E p) (cm_dbs m (table_db p)) b"
    "simple_on_db b'"
    using s below_on_db(2) [OF m k c] by (auto simp: sstays_def)
  note put = below_put_simple [OF m k c'(3), of v']
  show "on_manager E m (cw\<lparr>cw_simp := (cw_simp cw)(p := c')\<rparr>)"
    using put(1) c'(1) by simp
  show "cm_view E (below (cw\<lparr>cw_simp := (cw_simp cw)(p := c')\<rparr>) m) = cm_view E (below cw m)"
    using put(2) c'(1,2) below_table(2) [OF k c] by (simp add: sview_def fun_upd_idem)
qed

text \<open>One write, and a sequence of them.\<close>

lemma layeredD:
  assumes "layered cw"
  shows "kind_of p = Some Composite \<Longrightarrow> \<exists>n b. cw_comp cw p = SubCache n b"
    "kind_of p = Some Simple \<Longrightarrow> \<exists>v b. cw_simp cw p = SSub v b"
  using assms [unfolded layered_def, THEN spec, of p] by simp_all

lemma view_empty_layer: "view T d (SubCache (empty_node f) b) = view T d b"
proof -
  have "raw T d (SubCache (empty_node f) b) = raw T d b"
    by (intro ext) (simp add: empty_node_def)
  then show ?thesis
    by (simp only: view_def)
qed

lemma below_fresh:
  assumes "manager_ok E m" and "fold_opt (set_base_table (cm_caches m)) based_prefixes empty_wrapper = Some cw"
  shows "on_manager E m cw" "cm_view E (below cw m) = cm_view E m"
    "\<And>p. kind_of p \<noteq> None \<Longrightarrow> wrapper_view E (cm_dbs m) cw p = cm_view E m p"
proof -
  have c: "cw_comp cw p = SubCache (empty_node False) (cw_comp (cm_caches m) p)" if "kind_of p = Some Composite" for p
    using wrapper_made [of "cm_caches m"] assms(2) that by (metis option.inject)
  have s: "cw_simp cw p = SSub None (cw_simp (cm_caches m) p)" if "kind_of p = Some Simple" for p
    using wrapper_made [of "cm_caches m"] assms(2) that by (metis option.inject)
  have b: "below cw m = m"
    using c s by (cases m; cases "cm_caches m") (auto simp: below_def fun_eq_iff)
  have "layered cw"
    unfolding layered_def using c s by (auto split: option.split prod.split member_kind.split)
  then show "on_manager E m cw" "cm_view E (below cw m) = cm_view E m"
    using assms(1) b by (simp_all add: on_manager_def)
  show "wrapper_view E (cm_dbs m) cw p = cm_view E m p" if k: "kind_of p \<noteq> None" for p
  proof -
    obtain k where "kind_of p = Some k"
      using k by blast
    then show ?thesis
    proof (cases k)
      case Composite
      with \<open>kind_of p = Some k\<close> c [of p] show ?thesis
        by (simp add: wrapper_view_simps manager_view_simps view_empty_layer)
    next
      case Simple
      with \<open>kind_of p = Some k\<close> s [of p] show ?thesis
        by (simp add: wrapper_view_simps manager_view_simps sview_def)
    qed
  qed
qed

lemma write_layer:
  assumes m: "on_manager E m cw" and w: "write_ok w"
  shows "\<exists>cw' lg'. cw_run_write (cw_env_of E (cm_dbs m)) w (cw, lg) = Some (cw', lg') \<and> on_manager E m cw' \<and>
    cm_view E (below cw' m) = cm_view E (below cw m) \<and>
    wrapper_view E (cm_dbs m) cw' = table_write E w (wrapper_view E (cm_dbs m) cw)"
proof (cases w)
  case (CWrite p x)
  then have k: "kind_of p = Some Composite"
    using w by (simp add: write_ok_def)
  let ?T = "cm_ops E p" and ?d = "cm_dbs m (table_db p)"
  have ok: "access_ok ?T ?d"
    using m k manager_fit(1) by (simp add: on_manager_def)
  obtain n b where c: "cw_comp cw p = SubCache n b"
    using m layeredD(1) [OF _ k] unfolding on_manager_def by blast
  let ?c' = "write_result ?T ?d x (SubCache n b)"
  let ?cw' = "cw\<lparr>cw_comp := (cw_comp cw)(p := ?c')\<rparr>"
  obtain lg' where "cw_run_write (cw_env_of E (cm_dbs m)) w (cw, lg) = Some (?cw', lg')"
    using CWrite c by (simp add: cw_env_of_def run_write_eq [OF ok])
  moreover have "wrapper_view E (cm_dbs m) ?cw' = table_write E w (wrapper_view E (cm_dbs m) cw)"
  proof
    fix q
    show "wrapper_view E (cm_dbs m) ?cw' q = table_write E w (wrapper_view E (cm_dbs m) cw) q"
      using CWrite c k kind_table [OF k]
      by (cases "q = p") (simp_all add: wrapper_view_def cm_view_def view_write_result [OF ok] split: option.split prod.split member_kind.split)
  qed
  ultimately show ?thesis
    using below_step_composite [OF m k c stays_write [OF ok]] by blast
next
  case (SWrite p x)
  then have k: "kind_of p = Some Simple"
    using w by (simp add: write_ok_def)
  let ?T = "cm_ops1 E p" and ?d = "cm_dbs m (table_db p)"
  have ok: "simple_ok ?T ?d"
    using m k manager_fit(2) by (simp add: on_manager_def)
  obtain v b where c: "cw_simp cw p = SSub v b"
    using m layeredD(2) [OF _ k] unfolding on_manager_def by blast
  obtain c' es where run: "\<forall>lg. simple_run ?T ?d x (SSub v b, lg) = Some (c', map_option (append_logs (prefix_type ?T) es) lg)"
    using simple_run_spec [OF ok, of x "SSub v b"] by blast
  have val: "sview ?T ?d c' = (case x of SSet v \<Rightarrow> nonempty ?T (Some v) | SErase \<Rightarrow> None)"
    using run Simple_SetData_spec [OF ok, of _ "SSub v b"] Simple_EraseData_spec [OF ok, of "SSub v b"]
    by (cases x) (auto dest!: spec [of _ None], (metis option.inject prod.inject)+)
  let ?cw' = "cw\<lparr>cw_simp := (cw_simp cw)(p := c')\<rparr>"
  obtain lg' where "cw_run_write (cw_env_of E (cm_dbs m)) w (cw, lg) = Some (?cw', lg')"
    using SWrite c run by (simp add: cw_env_of_def)
  moreover have "wrapper_view E (cm_dbs m) ?cw' = table_write E w (wrapper_view E (cm_dbs m) cw)"
  proof
    fix q
    show "wrapper_view E (cm_dbs m) ?cw' q = table_write E w (wrapper_view E (cm_dbs m) cw) q"
      using SWrite c k kind_table [OF k] val
      by (cases "q = p"; cases x) (simp_all add: wrapper_view_def cm_view_def split: option.split prod.split member_kind.split)
  qed
  ultimately show ?thesis
    using below_step_simple [OF m k c sstays_run [OF ok run [THEN spec]]] by blast
qed

section \<open>Publishing\<close>

lemma on_db_self: "SetDataToSelf T k v c = Some c' \<Longrightarrow> on_db c' = on_db c"
  by (auto simp: SetDataToSelf_def Let_def split: option.splits Option.bind_splits)

lemma on_db_selfs: "fold_opt (\<lambda>(k, v). SetDataToSelf T k v) xs c = Some c' \<Longrightarrow> on_db c' = on_db c"
  by (induction xs arbitrary: c) (auto dest: on_db_self split: option.splits Option.bind_splits)

lemma flush_layer:
  assumes m: "on_manager E m cw" and k: "kind_of p \<noteq> None"
  shows "\<exists>cw'. flush_table E p \<lparr>cm_caches = cw, cm_dbs = cm_dbs m\<rparr> = Some \<lparr>cm_caches = cw', cm_dbs = cm_dbs m\<rparr> \<and>
    on_manager E m cw' \<and> wrapper_view E (cm_dbs m) cw' = wrapper_view E (cm_dbs m) cw \<and>
    cm_view E (below cw' m) = (cm_view E (below cw m))(p := wrapper_view E (cm_dbs m) cw p)"
proof -
  obtain k where k: "kind_of p = Some k"
    using k by blast
  show ?thesis
  proof (cases k)
    case Composite
    note k = k [unfolded this]
    let ?T = "cm_ops E p" and ?d = "cm_dbs m (table_db p)"
    have ok: "access_ok ?T ?d"
      using m k manager_fit(1) by (simp add: on_manager_def)
    obtain n b where c: "cw_comp cw p = SubCache n b"
      using m layeredD(1) [OF _ k] unfolding on_manager_def by blast
    obtain b' where b': "Flush ?T ?d (SubCache n b) = Some (?d, SubCache (Clear_node n) b')" "raw ?T ?d b' = raw ?T ?d (SubCache n b)"
      using flush_sub by blast
    have "on_db b'"
      using b'(1) below_on_db(1) [OF m k c] by (auto split: Option.bind_splits dest: on_db_selfs)
    note put = below_put_composite [OF m k this, of "Clear_node n"]
    let ?cw' = "cw\<lparr>cw_comp := (cw_comp cw)(p := SubCache (Clear_node n) b')\<rparr>"
    have "raw ?T ?d (SubCache (Clear_node n) b') = raw ?T ?d b'"
      by (intro ext) simp
    then have v: "view ?T ?d (SubCache (Clear_node n) b') = view ?T ?d (SubCache n b)" "view ?T ?d b' = view ?T ?d (SubCache n b)"
      using b'(2) by (simp_all only: view_def)
    have "wrapper_view E (cm_dbs m) ?cw' = wrapper_view E (cm_dbs m) cw"
    proof
      fix q
      show "wrapper_view E (cm_dbs m) ?cw' q = wrapper_view E (cm_dbs m) cw q"
        using c k kind_table [OF k] v(1)
        by (cases "q = p") (simp_all add: wrapper_view_def cm_view_def split: option.split prod.split member_kind.split)
    qed
    moreover have "flush_table E p \<lparr>cm_caches = cw, cm_dbs = cm_dbs m\<rparr> = Some \<lparr>cm_caches = ?cw', cm_dbs = cm_dbs m\<rparr>"
      using kind_table [OF k] c b'(1) by (simp add: flush_table_def del: Flush.simps)
    moreover have "wrapper_view E (cm_dbs m) cw p = view ?T ?d b'"
      using v(2) c by (simp add: wrapper_view_simps k)
    ultimately show ?thesis
      using put by (intro exI [of _ ?cw']) simp
  next
    case Simple
    note k = k [unfolded this]
    let ?T = "cm_ops1 E p" and ?d = "cm_dbs m (table_db p)"
    obtain v b where c: "cw_simp cw p = SSub v b"
      using m layeredD(2) [OF _ k] unfolding on_manager_def by blast
    obtain b' where b': "Simple_Flush ?T ?d (SSub v b) = Some (?d, SSub None b')" "sraw ?T ?d b' = sraw ?T ?d (SSub v b)"
      "simple_on_db b' = simple_on_db b"
      by (cases v) simp_all
    have "simple_on_db b'"
      using b'(3) below_on_db(2) [OF m k c] by simp
    note put = below_put_simple [OF m k this, of None]
    let ?cw' = "cw\<lparr>cw_simp := (cw_simp cw)(p := SSub None b')\<rparr>"
    have v: "sview ?T ?d (SSub None b') = sview ?T ?d (SSub v b)" "sview ?T ?d b' = sview ?T ?d (SSub v b)"
      using b'(2) by (simp_all add: sview_def)
    have "wrapper_view E (cm_dbs m) ?cw' = wrapper_view E (cm_dbs m) cw"
    proof
      fix q
      show "wrapper_view E (cm_dbs m) ?cw' q = wrapper_view E (cm_dbs m) cw q"
        using c k kind_table [OF k] v(1)
        by (cases "q = p") (simp_all add: wrapper_view_def cm_view_def split: option.split prod.split member_kind.split)
    qed
    moreover have "flush_table E p \<lparr>cm_caches = cw, cm_dbs = cm_dbs m\<rparr> = Some \<lparr>cm_caches = ?cw', cm_dbs = cm_dbs m\<rparr>"
      using kind_table [OF k] c b'(1) by (simp add: flush_table_def del: Simple_Flush.simps)
    moreover have "wrapper_view E (cm_dbs m) cw p = (\<lambda>_. sview ?T ?d b')"
      using v(2) c by (simp add: wrapper_view_simps k)
    ultimately show ?thesis
      using put by (intro exI [of _ ?cw']) simp
  qed
qed

lemma flush_layers:
  assumes "on_manager E m cw" and "\<forall>p \<in> set ps. kind_of p \<noteq> None"
  shows "\<exists>cw'. fold_opt (flush_table E) ps \<lparr>cm_caches = cw, cm_dbs = cm_dbs m\<rparr> = Some \<lparr>cm_caches = cw', cm_dbs = cm_dbs m\<rparr> \<and>
    on_manager E m cw' \<and> wrapper_view E (cm_dbs m) cw' = wrapper_view E (cm_dbs m) cw \<and>
    cm_view E (below cw' m) = (\<lambda>p. if p \<in> set ps then wrapper_view E (cm_dbs m) cw p else cm_view E (below cw m) p)"
  using assms
proof (induction ps arbitrary: cw)
  case (Cons p ps)
  then have p: "kind_of p \<noteq> None"
    by simp
  obtain c1 where c1: "flush_table E p \<lparr>cm_caches = cw, cm_dbs = cm_dbs m\<rparr> = Some \<lparr>cm_caches = c1, cm_dbs = cm_dbs m\<rparr>"
    "on_manager E m c1" "wrapper_view E (cm_dbs m) c1 = wrapper_view E (cm_dbs m) cw"
    "cm_view E (below c1 m) = (cm_view E (below cw m))(p := wrapper_view E (cm_dbs m) cw p)"
    using flush_layer [OF Cons.prems(1) p] by blast
  obtain c2 where c2: "fold_opt (flush_table E) ps \<lparr>cm_caches = c1, cm_dbs = cm_dbs m\<rparr> = Some \<lparr>cm_caches = c2, cm_dbs = cm_dbs m\<rparr>"
    "on_manager E m c2" "wrapper_view E (cm_dbs m) c2 = wrapper_view E (cm_dbs m) c1"
    "cm_view E (below c2 m) = (\<lambda>p. if p \<in> set ps then wrapper_view E (cm_dbs m) c1 p else cm_view E (below c1 m) p)"
    using Cons.IH [OF c1(2)] Cons.prems(2) by auto
  show ?case
    using c1 c2 by (intro exI [of _ c2]) (simp add: fun_eq_iff)
qed simp

text \<open>A flush publishes the tables of the wrapper, and leaves the others of the manager alone.\<close>

lemma wrapper_flush:
  assumes "on_manager E m cw"
  obtains cw' where "CCacheWrapper_Flush E \<lparr>cm_caches = cw, cm_dbs = cm_dbs m\<rparr> = Some \<lparr>cm_caches = cw', cm_dbs = cm_dbs m\<rparr>"
    "on_manager E m cw'"
    "cm_view E (below cw' m) = (\<lambda>p. if kind_of p \<noteq> None then wrapper_view E (cm_dbs m) cw p else cm_view E m p)"
proof -
  have f: "p \<in> set flushed_prefixes \<longleftrightarrow> kind_of p \<noteq> None" for p
    using kind_of_iff [of p] set_flushed by simp
  have other: "cm_view E (below cw m) p = cm_view E m p" if "kind_of p = None" for p
    using that by (simp add: cm_view_def below_def split: option.split prod.split member_kind.split)
  show thesis
    using flush_layers [OF assms, of flushed_prefixes] f other that
    unfolding CCacheWrapper_Flush_def by (auto simp: fun_eq_iff cong: if_cong)
qed

lemma table_write_at:
  "table_write E w V p = (case w of
      CWrite q x \<Rightarrow> if p = q then after_write (cm_ops E p) x (V p) else V p
    | SWrite q x \<Rightarrow> if p = q then (case x of SSet v \<Rightarrow> \<lambda>_. nonempty (cm_ops1 E p) (Some v) | SErase \<Rightarrow> \<lambda>_. None) else V p)"
  by (induction E w V rule: table_write.induct) simp_all

lemma table_write_local: "V p = V' p \<Longrightarrow> table_write E w V p = table_write E w V' p"
  unfolding table_write_at by (simp split: cw_write.split)

lemma table_write_other: "write_ok w \<Longrightarrow> kind_of p = None \<Longrightarrow> table_write E w V p = V p"
  unfolding table_write_at write_ok_def by (cases w) auto

lemma table_writes_local:
  "V p = V' p \<Longrightarrow> fold (table_write E) ws V p = fold (table_write E) ws V' p"
  by (induction ws arbitrary: V V') (simp, metis fold_simps(2) table_write_local)

lemma table_writes_other:
  "list_all write_ok ws \<Longrightarrow> kind_of p = None \<Longrightarrow> fold (table_write E) ws V p = V p"
  by (induction ws arbitrary: V) (auto simp: table_write_other)

lemma write_layers:
  assumes "on_manager E m cw" and "list_all write_ok ws"
  shows "\<exists>cw' lg'. fold_opt (cw_run_write (cw_env_of E (cm_dbs m))) ws (cw, lg) = Some (cw', lg') \<and> on_manager E m cw' \<and>
    cm_view E (below cw' m) = cm_view E (below cw m) \<and>
    wrapper_view E (cm_dbs m) cw' = fold (table_write E) ws (wrapper_view E (cm_dbs m) cw)"
  using assms
proof (induction ws arbitrary: cw lg)
  case (Cons w ws)
  then have w: "write_ok w" "list_all write_ok ws"
    by auto
  obtain c1 lg1 where c1: "cw_run_write (cw_env_of E (cm_dbs m)) w (cw, lg) = Some (c1, lg1)" "on_manager E m c1"
    "cm_view E (below c1 m) = cm_view E (below cw m)"
    "wrapper_view E (cm_dbs m) c1 = table_write E w (wrapper_view E (cm_dbs m) cw)"
    using write_layer [OF Cons.prems(1) w(1)] by blast
  obtain c2 lg2 where "fold_opt (cw_run_write (cw_env_of E (cm_dbs m))) ws (c1, lg1) = Some (c2, lg2)" "on_manager E m c2"
    "cm_view E (below c2 m) = cm_view E (below c1 m)"
    "wrapper_view E (cm_dbs m) c2 = fold (table_write E) ws (wrapper_view E (cm_dbs m) c1)"
    using Cons.IH [OF c1(2) w(2)] by blast
  with c1 show ?case
    by (intro exI [of _ c2] exI [of _ lg2]) simp
qed simp

section \<open>A block\<close>

lemma env_of_ok:
  assumes "manager_ok E m"
  shows "env_ok (cw_env_of E (cm_dbs m))"
  unfolding env_ok_def
proof
  fix p
  have "table_fit E m p"
    using assms by (simp add: manager_ok_def)
  then show "case kind_of p of
       Some Composite \<Rightarrow> prefix_type (ops (cw_env_of E (cm_dbs m)) p) = p \<and>
         access_ok (ops (cw_env_of E (cm_dbs m)) p) (dbs (cw_env_of E (cm_dbs m)) p)
     | Some Simple \<Rightarrow> prefix_type (ops1 (cw_env_of E (cm_dbs m)) p) = p \<and>
         simple_ok (ops1 (cw_env_of E (cm_dbs m)) p) (dbs (cw_env_of E (cm_dbs m)) p)
     | None \<Rightarrow> True"
    by (auto simp: cw_env_of_def table_fit_def kind_table split: option.split member_kind.split)
qed

lemma view_of_env:
  assumes "kind_of p \<noteq> None"
  shows "cw_view (cw_env_of E D) cw p = wrapper_view E D cw p"
proof -
  obtain k where "kind_of p = Some k"
    using assms by blast
  then show ?thesis
    by (cases k) (simp_all add: cw_view_def cw_env_of_def wrapper_view_simps)
qed

definition block_writes :: "('txid \<times> cw_write list) list \<Rightarrow> cw_write list" where
  "block_writes txs = concat (map snd txs)"

lemma block_layers:
  assumes "on_manager E m cw" and "list_all (\<lambda>(txid, ws). list_all write_ok ws) txs"
  shows "\<exists>cw' u'. run_block (cw_env_of E (cm_dbs m)) txs (cw, u) = Some (cw', u') \<and> on_manager E m cw' \<and>
    cm_view E (below cw' m) = cm_view E (below cw m) \<and>
    wrapper_view E (cm_dbs m) cw' = fold (table_write E) (block_writes txs) (wrapper_view E (cm_dbs m) cw)"
  using assms
proof (induction txs arbitrary: cw u)
  case Nil
  then show ?case
    by (simp add: block_writes_def)
next
  case (Cons x txs)
  obtain txid ws where x: "x = (txid, ws)"
    by (cases x)
  let ?E = "cw_env_of E (cm_dbs m)"
  have ws: "list_all write_ok ws" and txs: "list_all (\<lambda>(txid, ws). list_all write_ok ws) txs"
    using Cons.prems(2) x by auto
  have env: "env_ok ?E"
    using Cons.prems(1) env_of_ok by (simp add: on_manager_def)
  obtain c1 lg where c1: "fold_opt (cw_run_write ?E) ws (cw, Some sm_empty) = Some (c1, lg)" "on_manager E m c1"
    "cm_view E (below c1 m) = cm_view E (below cw m)"
    "wrapper_view E (cm_dbs m) c1 = fold (table_write E) ws (wrapper_view E (cm_dbs m) cw)"
    using write_layers [OF Cons.prems(1) ws] by blast
  obtain m1 where "lg = Some m1"
    using run_writes_ok [OF env ws, of cw sm_empty] c1(1) by auto
  with c1(1) have step: "IneryTxUndoOpLogger ?E txid ws (cw, u) =
      Some (c1, u\<lparr>vtxundo := vtxundo u @ [\<lparr>tx_id = txid, dbOpLogMap = m1\<rparr>]\<rparr>)"
    by (simp add: IneryTxUndoOpLogger_def Let_def)
  obtain c2 u2 where c2: "run_block ?E txs (c1, u\<lparr>vtxundo := vtxundo u @ [\<lparr>tx_id = txid, dbOpLogMap = m1\<rparr>]\<rparr>) = Some (c2, u2)"
    "on_manager E m c2" "cm_view E (below c2 m) = cm_view E (below c1 m)"
    "wrapper_view E (cm_dbs m) c2 = fold (table_write E) (block_writes txs) (wrapper_view E (cm_dbs m) c1)"
    using Cons.IH [OF c1(2) txs] by blast
  have "block_writes (x # txs) = ws @ block_writes txs"
    by (simp add: block_writes_def x)
  with step c1 c2 x show ?case
    by (intro exI [of _ c2] exI [of _ u2]) simp
qed

text \<open>Executing undo data writes to the layer itself only.\<close>

lemma undo_data_sub: "fold_opt (UndoData T) es (SubCache n b) = Some c' \<Longrightarrow> \<exists>n'. c' = SubCache n' b"
proof (induction es arbitrary: n)
  case (Cons e es)
  then obtain c1 where c1: "UndoData T e (SubCache n b) = Some c1" "fold_opt (UndoData T) es c1 = Some c'"
    by (auto split: Option.bind_splits option.splits)
  then obtain n1 where "c1 = SubCache n1 b"
    by (auto simp: UndoData_def SetDataToSelf_def Let_def split: option.splits Option.bind_splits)
  with Cons.IH c1(2) show ?case
    by blast
qed auto

lemma undo_simple_sub: "fold_opt (Simple_UndoData T) es (SSub v b) = Some c' \<Longrightarrow> \<exists>v'. c' = SSub v' b"
proof (induction es arbitrary: v)
  case (Cons e es)
  then obtain c1 where c1: "Simple_UndoData T e (SSub v b) = Some c1" "fold_opt (Simple_UndoData T) es c1 = Some c'"
    by (auto split: Option.bind_splits option.splits)
  then obtain v1 where "c1 = SSub v1 b"
    by (auto simp: Simple_UndoData_def split: Option.bind_splits)
  with Cons.IH c1(2) show ?case
    by blast
qed auto

definition same_below :: "CCacheWrapper \<Rightarrow> CCacheWrapper \<Rightarrow> bool" where
  "same_below cw cw' \<longleftrightarrow> layered cw' \<and> (\<forall>m. below cw' m = below cw m)"

lemma undo_func_below:
  assumes f: "GetUndoDataFuncMap E p = Some f" "f logs cw = Some cw'" and lay: "layered cw"
  shows "same_below cw cw'"
proof -
  have "p \<in> set undo_prefixes"
    using f(1) by (auto simp: GetUndoDataFuncMap_def split: if_splits)
  then have "kind_of p \<noteq> None"
    using kind_of_iff [of p] set_undo by simp
  then obtain k where k: "kind_of p = Some k"
    by blast
  show ?thesis
  proof (cases k)
    case Composite
    note k = k [unfolded this]
    obtain n b where c: "cw_comp cw p = SubCache n b"
      using layeredD(1) [OF lay k] by blast
    obtain c' where c': "UndoDataList (ops E p) logs (SubCache n b) = Some c'" "cw' = cw\<lparr>cw_comp := (cw_comp cw)(p := c')\<rparr>"
      using f k c by (auto simp: GetUndoDataFuncMap_def split: if_splits Option.bind_splits)
    obtain n' where "c' = SubCache n' b"
      using c'(1) undo_data_sub unfolding UndoDataList_def by blast
    with c' c k lay show ?thesis
      unfolding same_below_def layered_def below_def by (auto simp: fun_eq_iff split: option.splits member_kind.splits)
  next
    case Simple
    note k = k [unfolded this]
    obtain v b where c: "cw_simp cw p = SSub v b"
      using layeredD(2) [OF lay k] by blast
    obtain c' where c': "Simple_UndoDataList (ops1 E p) logs (SSub v b) = Some c'" "cw' = cw\<lparr>cw_simp := (cw_simp cw)(p := c')\<rparr>"
      using f k c by (auto simp: GetUndoDataFuncMap_def split: if_splits Option.bind_splits)
    obtain v' where "c' = SSub v' b"
      using c'(1) undo_simple_sub unfolding Simple_UndoDataList_def by blast
    with c' c k lay show ?thesis
      unfolding same_below_def layered_def below_def by (auto simp: fun_eq_iff split: option.splits member_kind.splits)
  qed
qed

lemma undo_tx_below:
  "undo_tx (GetUndoDataFuncMap E) xs cw = Some (r, cw') \<Longrightarrow> layered cw \<Longrightarrow> same_below cw cw'"
proof (induction xs arbitrary: cw)
  case (Cons x xs)
  obtain pre logs where x: "x = (pre, logs)"
    by (cases x)
  show ?case
  proof (cases "r \<and> ParseKeyPrefixType pre \<noteq> EMPTY \<or> cw' \<noteq> cw")
    case False
    with Cons.prems(2) show ?thesis
      by (simp add: same_below_def)
  next
    case True
    then obtain f c1 where c1: "GetUndoDataFuncMap E (ParseKeyPrefixType pre) = Some f" "f logs cw = Some c1"
      "undo_tx (GetUndoDataFuncMap E) xs c1 = Some (r, cw')"
      using Cons.prems(1) x by (auto simp: Let_def split: if_splits option.splits Option.bind_splits)
    have "same_below cw c1"
      using undo_func_below [OF c1(1,2) Cons.prems(2)] .
    with Cons.IH [OF c1(3)] show ?thesis
      by (simp add: same_below_def)
  qed
qed (simp add: same_below_def)

lemma undo_txs_below:
  "undo_txs (GetUndoDataFuncMap E) us cw = Some (r, cw') \<Longrightarrow> layered cw \<Longrightarrow> same_below cw cw'"
proof (induction us arbitrary: cw)
  case (Cons u us)
  then obtain ok c1 where c1: "undo_tx (GetUndoDataFuncMap E) (sm_items (dbOpLogMap u)) cw = Some (ok, c1)"
    "if ok then undo_txs (GetUndoDataFuncMap E) us c1 = Some (r, cw') else cw' = c1"
    by (auto split: Option.bind_splits if_splits)
  have "same_below cw c1"
    using undo_tx_below [OF c1(1) Cons.prems(2)] .
  with Cons.IH [of c1] c1(2) show ?case
    by (auto simp: same_below_def split: if_splits)
qed (simp add: same_below_def)

section \<open>Connecting and disconnecting\<close>

text \<open>A wrapper on the manager, its writes, and its flush, as they change the manager's tables.\<close>

lemma connect:
  assumes m: "manager_ok E m" and txs: "list_all (\<lambda>(txid, ws). list_all write_ok ws) txs"
  obtains cw cw1 u cw2 where "CCacheWrapper_on_manager m = Some cw"
    "run_block (cw_env_of E (cm_dbs m)) txs (cw, \<lparr>vtxundo = []\<rparr>) = Some (cw1, u)"
    "cm_view E (below cw1 m) = cm_view E m"
    "CCacheWrapper_Flush E \<lparr>cm_caches = cw1, cm_dbs = cm_dbs m\<rparr> = Some \<lparr>cm_caches = cw2, cm_dbs = cm_dbs m\<rparr>"
    "manager_ok E (below cw2 m)"
    "cm_view E (below cw2 m) = fold (table_write E) (block_writes txs) (cm_view E m)"
    "\<And>t. same_views (cw_env_of E (cm_dbs m)) t cw1 \<Longrightarrow>
       \<exists>t'. Execute (cw_env_of E (cm_dbs m)) u t = Some (True, t') \<and> same_views (cw_env_of E (cm_dbs m)) t' cw"
    "\<And>p. kind_of p \<noteq> None \<Longrightarrow> cw_view (cw_env_of E (cm_dbs m)) cw p = cm_view E m p"
    "\<And>p. kind_of p \<noteq> None \<Longrightarrow> cw_view (cw_env_of E (cm_dbs m)) cw1 p = cm_view E (below cw2 m) p"
proof -
  let ?E = "cw_env_of E (cm_dbs m)"
  obtain cw where cw: "CCacheWrapper_on_manager m = Some cw"
    using wrapper_on by blast
  note fresh = below_fresh [OF m cw [unfolded CCacheWrapper_on_manager_def]]
  obtain cw1 u where cw1: "run_block ?E txs (cw, \<lparr>vtxundo = []\<rparr>) = Some (cw1, u)" "on_manager E m cw1"
    "cm_view E (below cw1 m) = cm_view E (below cw m)"
    "wrapper_view E (cm_dbs m) cw1 = fold (table_write E) (block_writes txs) (wrapper_view E (cm_dbs m) cw)"
    using block_layers [OF fresh(1) txs] by blast
  obtain cw2 where cw2: "CCacheWrapper_Flush E \<lparr>cm_caches = cw1, cm_dbs = cm_dbs m\<rparr> = Some \<lparr>cm_caches = cw2, cm_dbs = cm_dbs m\<rparr>"
    "on_manager E m cw2"
    "cm_view E (below cw2 m) = (\<lambda>p. if kind_of p \<noteq> None then wrapper_view E (cm_dbs m) cw1 p else cm_view E m p)"
    using wrapper_flush [OF cw1(2)] by blast
  have ws: "list_all write_ok (block_writes txs)"
    using txs by (auto simp: block_writes_def list_all_iff)
  have "cm_view E (below cw2 m) p = fold (table_write E) (block_writes txs) (cm_view E m) p" for p
    using table_writes_local [where V = "wrapper_view E (cm_dbs m) cw" and V' = "cm_view E m" and p = p and E = E
        and ws = "block_writes txs"] fresh(3) [of p]
      table_writes_other [OF ws, where p = p and E = E and V = "cm_view E m"]
    unfolding cw2(3) cw1(4) by auto
  then have v: "cm_view E (below cw2 m) = fold (table_write E) (block_writes txs) (cm_view E m)"
    by blast
  obtain new where new: "run_block ?E txs (cw, \<lparr>vtxundo = []\<rparr>) = Some (cw1, \<lparr>vtxundo = new\<rparr>)"
    "\<forall>t. same_views ?E t cw1 \<longrightarrow> (\<exists>t'. undo_txs (GetUndoDataFuncMap ?E) (rev new) t = Some (True, t') \<and> same_views ?E t' cw)"
    using run_block_ok [OF env_of_ok [OF m] txs, of cw "\<lparr>vtxundo = []\<rparr>"] cw1(1) by auto
  have undo: "\<exists>t'. Execute ?E u t = Some (True, t') \<and> same_views ?E t' cw" if "same_views ?E t cw1" for t
    using new cw1(1) that unfolding Execute_def by auto
  show thesis
  proof (rule that [OF cw cw1(1) _ cw2(1) _ v undo])
    show "cm_view E (below cw1 m) = cm_view E m"
      using cw1(3) fresh(2) by simp
    show "manager_ok E (below cw2 m)"
      using cw2(2) by (simp add: on_manager_def)
    show "cw_view ?E cw p = cm_view E m p" "cw_view ?E cw1 p = cm_view E (below cw2 m) p" if "kind_of p \<noteq> None" for p
      using that fresh(3) [OF that] by (simp_all add: view_of_env cw2(3))
  qed
qed

text \<open>
  Claim C7: Connecting a block is atomic and durable.  While the transactions of a block run in a
  wrapper on the manager, the manager shows nothing of them; when the wrapper is flushed, every table
  of the manager shows the writes of the block applied in their order; and after the manager is flushed
  and opened again on its databases, it still shows exactly that.  No step fails.
\<close>

theorem block_commit:
  assumes "manager_ok E m" and "list_all (\<lambda>(txid, ws). list_all write_ok ws) txs"
  shows "\<exists>cw cw1 u cw2 m' m''. CCacheWrapper_on_manager m = Some cw \<and>
    run_block (cw_env_of E (cm_dbs m)) txs (cw, \<lparr>vtxundo = []\<rparr>) = Some (cw1, u) \<and>
    cm_view E (below cw1 m) = cm_view E m \<and>
    CCacheWrapper_Flush E \<lparr>cm_caches = cw1, cm_dbs = cm_dbs m\<rparr> = Some \<lparr>cm_caches = cw2, cm_dbs = cm_dbs m\<rparr> \<and>
    cm_view E (below cw2 m) = fold (table_write E) (block_writes txs) (cm_view E m) \<and>
    CCacheDBManager_Flush E (below cw2 m) = Some (m', True) \<and> CCacheDBManager_make E (cm_dbs m') = Some m'' \<and>
    cm_view E m'' = fold (table_write E) (block_writes txs) (cm_view E m)"
proof -
  obtain cw cw1 u cw2 where c: "CCacheWrapper_on_manager m = Some cw"
    "run_block (cw_env_of E (cm_dbs m)) txs (cw, \<lparr>vtxundo = []\<rparr>) = Some (cw1, u)"
    "cm_view E (below cw1 m) = cm_view E m"
    "CCacheWrapper_Flush E \<lparr>cm_caches = cw1, cm_dbs = cm_dbs m\<rparr> = Some \<lparr>cm_caches = cw2, cm_dbs = cm_dbs m\<rparr>"
    "manager_ok E (below cw2 m)" "cm_view E (below cw2 m) = fold (table_write E) (block_writes txs) (cm_view E m)"
    using connect [OF assms] by metis
  obtain m' m'' where "CCacheDBManager_Flush E (below cw2 m) = Some (m', True)"
    "CCacheDBManager_make E (cm_dbs m') = Some m''" "cm_view E m'' = cm_view E (below cw2 m)"
    using flush_reopen [OF c(5)] by blast
  with c show ?thesis
    by metis
qed

definition sample_txs :: "(nat \<times> cw_write list) list" where
  "sample_txs = [(1, [CWrite KEYID_ACCOUNT (WSet ''k'' ''w''), SWrite BEST_BLOCKHASH (SSet ''h'')]),
     (2, [CWrite KEYID_ACCOUNT (WErase ''k'')])]"

lemma sample_kinds: "kind_of KEYID_ACCOUNT = Some Composite" "kind_of BEST_BLOCKHASH = Some Simple"
  by (simp_all add: kind_of_def all_tables_def cw_SetDbOpLogMap_def class_defs)

lemma sample_txs_ok: "list_all (\<lambda>(txid, ws). list_all write_ok ws) sample_txs"
  by (simp add: sample_txs_def write_ok_def sample_kinds)

lemma sample_account: "cm_view sample_cm_env sample_manager KEYID_ACCOUNT ''k'' = Some ''v''"
  by (simp add: manager_view_simps sample_kinds sample_manager_def sample_cm_env_def view_def visible_def)

text \<open>The block changes the account, sets the best hash, and erases the account again.\<close>

theorem block_commit_witness:
  "\<exists>cw cw1 u (m' :: CCacheDBManager) m''. CCacheWrapper_on_manager sample_manager = Some cw \<and>
    run_block (cw_env_of sample_cm_env (cm_dbs sample_manager)) sample_txs (cw, \<lparr>vtxundo = []\<rparr>) = Some (cw1, u) \<and>
    cm_view sample_cm_env (below cw1 sample_manager) KEYID_ACCOUNT ''k'' = Some ''v'' \<and>
    CCacheDBManager_make sample_cm_env (cm_dbs m') = Some m'' \<and>
    cm_view sample_cm_env m'' KEYID_ACCOUNT ''k'' = None \<and> cm_view sample_cm_env m'' BEST_BLOCKHASH [] = Some ''h''"
proof -
  let ?V = "fold (table_write sample_cm_env) (block_writes sample_txs) (cm_view sample_cm_env sample_manager)"
  have "?V KEYID_ACCOUNT ''k'' = None" "?V BEST_BLOCKHASH [] = Some ''h''"
    by (simp_all add: block_writes_def sample_txs_def sample_cm_env_def nonempty_def)
  note V = this
  obtain cw cw1 u cw2 m' m'' where c: "CCacheWrapper_on_manager sample_manager = Some cw"
    "run_block (cw_env_of sample_cm_env (cm_dbs sample_manager)) sample_txs (cw, \<lparr>vtxundo = []\<rparr>) = Some (cw1, u)"
    "cm_view sample_cm_env (below cw1 sample_manager) = cm_view sample_cm_env sample_manager"
    "CCacheWrapper_Flush sample_cm_env \<lparr>cm_caches = cw1, cm_dbs = cm_dbs sample_manager\<rparr> =
       Some \<lparr>cm_caches = cw2, cm_dbs = cm_dbs sample_manager\<rparr>"
    "cm_view sample_cm_env (below cw2 sample_manager) = ?V"
    "CCacheDBManager_Flush sample_cm_env (below cw2 sample_manager) = Some (m', True)"
    "CCacheDBManager_make sample_cm_env (cm_dbs m') = Some m''" "cm_view sample_cm_env m'' = ?V"
    using block_commit [OF sample_manager_ok sample_txs_ok] by - (elim exE conjE, rule that)
  show ?thesis
    by (rule exI [of _ cw], rule exI [of _ cw1], rule exI [of _ u], rule exI [of _ m'], rule exI [of _ m''])
      (simp only: c V sample_account simp_thms)
qed

text \<open>
  Claim C8: Disconnecting a block undoes it.  A block is run in a wrapper and published to the
  manager; executing its undo data in a new wrapper on the manager succeeds, shows nothing of it
  outside, and its flush makes every table of the manager show what it showed before the block.
\<close>

theorem block_disconnect:
  assumes "manager_ok E m" and "list_all (\<lambda>(txid, ws). list_all write_ok ws) txs"
  shows "\<exists>cw cw1 u cw2 cw3 cw4 cw5. CCacheWrapper_on_manager m = Some cw \<and>
    run_block (cw_env_of E (cm_dbs m)) txs (cw, \<lparr>vtxundo = []\<rparr>) = Some (cw1, u) \<and>
    CCacheWrapper_Flush E \<lparr>cm_caches = cw1, cm_dbs = cm_dbs m\<rparr> = Some \<lparr>cm_caches = cw2, cm_dbs = cm_dbs m\<rparr> \<and>
    CCacheWrapper_on_manager (below cw2 m) = Some cw3 \<and>
    Execute (cw_env_of E (cm_dbs m)) u cw3 = Some (True, cw4) \<and>
    cm_view E (below cw4 (below cw2 m)) = cm_view E (below cw2 m) \<and>
    CCacheWrapper_Flush E \<lparr>cm_caches = cw4, cm_dbs = cm_dbs m\<rparr> = Some \<lparr>cm_caches = cw5, cm_dbs = cm_dbs m\<rparr> \<and>
    cm_view E (below cw5 (below cw2 m)) = cm_view E m"
proof -
  let ?E = "cw_env_of E (cm_dbs m)"
  obtain cw cw1 u cw2 where c: "CCacheWrapper_on_manager m = Some cw"
    "run_block ?E txs (cw, \<lparr>vtxundo = []\<rparr>) = Some (cw1, u)"
    "CCacheWrapper_Flush E \<lparr>cm_caches = cw1, cm_dbs = cm_dbs m\<rparr> = Some \<lparr>cm_caches = cw2, cm_dbs = cm_dbs m\<rparr>"
    "manager_ok E (below cw2 m)" "cm_view E (below cw2 m) = fold (table_write E) (block_writes txs) (cm_view E m)"
    "\<And>t. same_views ?E t cw1 \<Longrightarrow> \<exists>t'. Execute ?E u t = Some (True, t') \<and> same_views ?E t' cw"
    "\<And>p. kind_of p \<noteq> None \<Longrightarrow> cw_view ?E cw p = cm_view E m p"
    "\<And>p. kind_of p \<noteq> None \<Longrightarrow> cw_view ?E cw1 p = cm_view E (below cw2 m) p"
    using connect [OF assms] by metis
  let ?m = "below cw2 m"
  have D: "cm_dbs ?m = cm_dbs m"
    by (simp add: below_def)
  obtain cw3 where cw3: "CCacheWrapper_on_manager ?m = Some cw3"
    using wrapper_on by blast
  note fresh = below_fresh [OF c(4) cw3 [unfolded CCacheWrapper_on_manager_def], unfolded D]
  have "same_views ?E cw3 cw1"
    unfolding same_views_def using fresh(3) c(8) by (simp add: view_of_env)
  then obtain cw4 where cw4: "Execute ?E u cw3 = Some (True, cw4)" "same_views ?E cw4 cw"
    using c(6) by blast
  have sb: "same_below cw3 cw4"
    using undo_txs_below [OF cw4(1) [unfolded Execute_def]] fresh(1) by (simp add: on_manager_def)
  then have on: "on_manager E ?m cw4"
    using fresh(1) by (simp add: on_manager_def same_below_def)
  obtain cw5 where cw5: "CCacheWrapper_Flush E \<lparr>cm_caches = cw4, cm_dbs = cm_dbs m\<rparr> = Some \<lparr>cm_caches = cw5, cm_dbs = cm_dbs m\<rparr>"
    "cm_view E (below cw5 ?m) = (\<lambda>p. if kind_of p \<noteq> None then wrapper_view E (cm_dbs m) cw4 p else cm_view E ?m p)"
    using wrapper_flush [OF on, unfolded D] by blast
  have "cm_view E (below cw5 ?m) p = cm_view E m p" for p
  proof (cases "kind_of p = None")
    case True
    have "list_all write_ok (block_writes txs)"
      using assms(2) by (auto simp: block_writes_def list_all_iff)
    with True show ?thesis
      unfolding cw5(2) c(5) by (simp add: table_writes_other)
  next
    case False
    with cw4(2) c(7) view_of_env [of p E "cm_dbs m" cw4] show ?thesis
      unfolding cw5(2) same_views_def by simp
  qed
  moreover have "cm_view E (below cw4 ?m) = cm_view E ?m"
    using sb fresh(2) by (simp add: same_below_def)
  ultimately show ?thesis
    using c(1-3) cw3 cw4(1) cw5(1) by blast
qed

theorem block_disconnect_witness:
  "\<exists>cw cw1 u cw2 cw3 cw4 cw5. CCacheWrapper_on_manager sample_manager = Some cw \<and>
    run_block (cw_env_of sample_cm_env (cm_dbs sample_manager)) sample_txs (cw, \<lparr>vtxundo = []\<rparr>) = Some (cw1, u) \<and>
    CCacheWrapper_on_manager (below cw2 sample_manager) = Some cw3 \<and>
    Execute (cw_env_of sample_cm_env (cm_dbs sample_manager)) u cw3 = Some (True, cw4) \<and>
    CCacheWrapper_Flush sample_cm_env \<lparr>cm_caches = cw4, cm_dbs = cm_dbs sample_manager\<rparr> =
      Some \<lparr>cm_caches = cw5, cm_dbs = cm_dbs sample_manager\<rparr> \<and>
    cm_view sample_cm_env (below cw5 (below cw2 sample_manager)) KEYID_ACCOUNT ''k'' = Some ''v''"
  using block_disconnect [OF sample_manager_ok sample_txs_ok] sample_account by metis

section \<open>Copies\<close>

lemma copy_tables:
  "set ps \<subseteq> fst ` set all_tables \<Longrightarrow>
     (p \<in> set ps \<longrightarrow> kind_of p = Some Composite \<longrightarrow> cw_comp (fold (copy_table other) ps cw) p = cw_comp other p) \<and>
     (p \<in> set ps \<longrightarrow> kind_of p = Some Simple \<longrightarrow> cw_simp (fold (copy_table other) ps cw) p = cw_simp other p) \<and>
     (p \<notin> set ps \<longrightarrow> cw_comp (fold (copy_table other) ps cw) p = cw_comp cw p \<and> cw_simp (fold (copy_table other) ps cw) p = cw_simp cw p)"
proof (induction ps rule: rev_induct)
  case (snoc q ps)
  then show ?case
    by (auto simp: copy_table_def split: option.split member_kind.split)
qed simp

lemma set_copied:
  "set (member_prefixes cw_CopyFrom) = fst ` set all_tables" "set (member_prefixes cw_assign) = fst ` set all_tables"
  by (simp_all add: all_tables_def member_prefixes_def cw_CopyFrom_def cw_assign_def cw_SetDbOpLogMap_def class_defs
      insert_commute)

lemma copied_view:
  assumes "set ps = fst ` set all_tables" and "kind_of p \<noteq> None"
  shows "wrapper_view E D (fold (copy_table other) ps cw) p = wrapper_view E D other p"
proof -
  obtain k where k: "kind_of p = Some k"
    using assms(2) by blast
  have p: "p \<in> set ps"
    using assms kind_of_iff [of p] by simp
  show ?thesis
    using copy_tables [OF eq_refl [OF assms(1)], of p other cw] p k by (cases k) (simp_all add: wrapper_view_simps)
qed

text \<open>
  Every way to get a wrapper from another state gives one that shows the same: a wrapper
  built on another wrapper, a copy of the manager's caches, and an assigned wrapper show, in every table
  and on any databases, exactly what the original shows.
\<close>

theorem wrapper_copies:
  "kind_of p \<noteq> None \<longrightarrow>
    (\<exists>cw'. CCacheWrapper_on_wrapper other = Some cw' \<and> wrapper_view E D cw' p = wrapper_view E D other p) \<and>
    wrapper_view E D (NewCopyFrom \<lparr>cm_caches = other, cm_dbs = D\<rparr>) p = wrapper_view E D other p \<and>
    wrapper_view E D (assign other cw) p = wrapper_view E D other p"
proof
  assume k: "kind_of p \<noteq> None"
  then obtain k where k': "kind_of p = Some k"
    by blast
  obtain cw' where cw': "fold_opt (set_base_table other) based_prefixes empty_wrapper = Some cw'"
    "\<And>p. kind_of p = Some Composite \<Longrightarrow> cw_comp cw' p = SubCache (empty_node False) (cw_comp other p)"
    "\<And>p. kind_of p = Some Simple \<Longrightarrow> cw_simp cw' p = SSub None (cw_simp other p)"
    using wrapper_made_ex [of other] by blast
  have "wrapper_view E D cw' p = wrapper_view E D other p"
    using k' cw'(2,3) [of p] by (cases k) (simp_all add: wrapper_view_simps view_empty_layer sview_def)
  then show "(\<exists>cw'. CCacheWrapper_on_wrapper other = Some cw' \<and> wrapper_view E D cw' p = wrapper_view E D other p) \<and>
    wrapper_view E D (NewCopyFrom \<lparr>cm_caches = other, cm_dbs = D\<rparr>) p = wrapper_view E D other p \<and>
    wrapper_view E D (assign other cw) p = wrapper_view E D other p"
    using cw'(1) copied_view [OF set_copied(1) k] copied_view [OF set_copied(2) k]
    by (simp add: CCacheWrapper_on_wrapper_def NewCopyFrom_def CopyFrom_def assign_def)
qed

theorem wrapper_copies_witness:
  "wrapper_view sample_cm_env empty_db (NewCopyFrom sample_manager) KEYID_ACCOUNT ''k'' = Some ''v''"
  using wrapper_copies [of KEYID_ACCOUNT "cm_caches sample_manager" sample_cm_env empty_db empty_wrapper] sample_account sample_kinds
  by (simp add: wrapper_view_def sample_manager_def)

end
