(* ===== verification/Typed_Bytes.thy ===== *)
theory Typed_Bytes
  imports Sample_Codec
begin

text \<open>
  The database classes use the caches at their own key and value types; the wrapper, the manager
  and the block undo are modelled on caches of byte strings.  This theory shows that
  the two agree: a cache of typed entries and the cache of the serialised entries answer every
  call alike, log the same entries and flush the same bytes, so that what is proved of the
  wrapper's caches holds of the caches of the classes.
\<close>

declare split_paired_Ex [simp del] split_paired_All [simp del]

section \<open>The two levels\<close>

text \<open>The template arguments of the cache of the serialised entries.\<close>

definition bytes_of :: "('k, 'v) kvops \<Rightarrow> (string, string) kvops" where
  "bytes_of T = \<lparr>prefix_type = prefix_type T,
     key_empty = (\<lambda>s. case unser_key T s of Some k \<Rightarrow> key_empty T k | None \<Rightarrow> False),
     val_empty = (\<lambda>s. case unser_val T s of Some v \<Rightarrow> val_empty T v | None \<Rightarrow> False),
     empty_val = ser_val T (empty_val T),
     set_empty = (\<lambda>s. case unser_val T s of Some v \<Rightarrow> ser_val T (set_empty T v) | None \<Rightarrow> ser_val T (empty_val T)),
     ser_key = (\<lambda>s. s), unser_key = Some, ser_val = (\<lambda>s. s), unser_val = Some,
     key_size = (\<lambda>s. case unser_key T s of Some k \<Rightarrow> key_size T k | None \<Rightarrow> of_nat (length s)),
     val_size = (\<lambda>s. case unser_val T s of Some v \<Rightarrow> val_size T v | None \<Rightarrow> of_nat (length s))\<rparr>"

definition same_map :: "('k, 'v) kvops \<Rightarrow> ('k, 'v) std_map \<Rightarrow> (string, string) std_map \<Rightarrow> bool" where
  "same_map T m m' \<longleftrightarrow>
     (\<forall>k. sm_find m' (ser_key T k) = map_option (ser_val T) (sm_find m k)) \<and>
     (\<forall>s. s \<notin> range (ser_key T) \<longrightarrow> sm_find m' s = None)"

fun same_cache :: "('k, 'v) kvops \<Rightarrow> ('k::linorder, 'v) kvcache \<Rightarrow> (string, string) kvcache \<Rightarrow> bool" where
  "same_cache T (FreeCache n) c' = (case c' of FreeCache n' \<Rightarrow> same_map T (mapData n) (mapData n') | _ \<Rightarrow> False)"
| "same_cache T (DbCache n) c' = (case c' of DbCache n' \<Rightarrow> same_map T (mapData n) (mapData n') | _ \<Rightarrow> False)"
| "same_cache T (SubCache n b) c' =
     (case c' of SubCache n' b' \<Rightarrow> same_map T (mapData n) (mapData n') \<and> same_cache T b b' | _ \<Rightarrow> False)"

text \<open>The database holds serialised values under the keys of the table.\<close>

definition db_typed :: "('k, 'v) kvops \<Rightarrow> CDBAccess \<Rightarrow> bool" where
  "db_typed T d \<longleftrightarrow> (\<forall>k s. sm_find (ldb_data (ldb d)) (GetKeyPrefix (prefix_type T) @ ser_key T k) = Some s \<longrightarrow>
     s \<in> range (ser_val T))"

lemma bytes_of_simps [simp]:
  "prefix_type (bytes_of T) = prefix_type T" "ser_key (bytes_of T) s = s" "ser_val (bytes_of T) s = s"
  "unser_key (bytes_of T) s = Some s" "unser_val (bytes_of T) s = Some s"
  "empty_val (bytes_of T) = ser_val T (empty_val T)"
  by (simp_all add: bytes_of_def)

lemma bytes_of_ser [simp]:
  assumes "kv_wf T"
  shows "key_empty (bytes_of T) (ser_key T k) = key_empty T k" "val_empty (bytes_of T) (ser_val T v) = val_empty T v"
    "set_empty (bytes_of T) (ser_val T v) = ser_val T (set_empty T v)"
  using assms by (simp_all add: bytes_of_def)

lemma bytes_of_wf:
  assumes "kv_wf T"
  shows "kv_wf (bytes_of T)"
proof -
  have "val_empty (bytes_of T) (set_empty (bytes_of T) s)" for s
    using assms by (cases "unser_val T s") (simp_all add: bytes_of_def)
  with assms show ?thesis
    unfolding kv_wf_def [of "bytes_of T"] by simp
qed

lemma bytes_of_ok: "access_ok T d \<Longrightarrow> access_ok (bytes_of T) d"
  using bytes_of_wf unfolding access_ok_def by blast

section \<open>One call\<close>

lemma same_map_set:
  assumes "kv_wf T" and "same_map T m m'"
  shows "same_map T (sm_set k v m) (sm_set (ser_key T k) (ser_val T v) m')"
  using assms by (auto simp: same_map_def ser_key_inj)

lemma same_map_find: "same_map T m m' \<Longrightarrow> sm_find m' (ser_key T k) = map_option (ser_val T) (sm_find m k)"
  by (simp add: same_map_def)

lemma same_add:
  assumes "kv_wf T" and "same_map T (mapData n) (mapData n')" and "AddDataToMap T k v n = Some n1"
  shows "\<exists>n1'. AddDataToMap (bytes_of T) (ser_key T k) (ser_val T v) n' = Some n1' \<and> same_map T (mapData n1) (mapData n1')"
  using assms(3) same_map_set [OF assms(1,2), of k v] same_map_find [OF assms(2), of k]
  by (auto simp: AddDataToMap_def split: option.splits)

lemma same_node: "same_cache T c c' \<Longrightarrow> same_map T (mapData (node_of c)) (mapData (node_of c'))"
  by (cases c; cases c') simp_all

lemma same_with_node:
  "same_cache T c c' \<Longrightarrow> same_map T (mapData n) (mapData n') \<Longrightarrow> same_cache T (with_node c n) (with_node c' n')"
  by (cases c; cases c') simp_all

lemma db_val_same:
  assumes "kv_wf T" and "db_typed T d"
  shows "db_val (bytes_of T) d (ser_key T k) = map_option (ser_val T) (db_val T d k)"
proof (cases "sm_find (ldb_data (ldb d)) (GetKeyPrefix (prefix_type T) @ ser_key T k)")
  case None
  then show ?thesis by (simp add: db_val_def)
next
  case (Some s)
  then obtain v where "s = ser_val T v"
    using assms(2) unfolding db_typed_def by blast
  with Some assms(1) show ?thesis
    by (simp add: db_val_def)
qed

lemma same_raw:
  assumes "kv_wf T" and "db_typed T d"
  shows "same_cache T c c' \<Longrightarrow> raw (bytes_of T) d c' (ser_key T k) = map_option (ser_val T) (raw T d c k)"
  by (induction c arbitrary: c')
    (auto simp: same_map_find db_val_same [OF assms] split: option.splits kvcache.splits)

text \<open>What a lookup copies into the layers.\<close>

definition kept :: "'k \<Rightarrow> 'v option \<Rightarrow> ('k, 'v) std_map \<Rightarrow> ('k, 'v) std_map" where
  "kept k r m = (case r of Some v \<Rightarrow> sm_set k v m | None \<Rightarrow> m)"

lemma AddDataToMap_map:
  "AddDataToMap T k v n = (case sm_find (mapData n) k of
     Some _ \<Rightarrow> None | None \<Rightarrow> Some (IncDataSize2 T k v (n\<lparr>mapData := sm_set k v (mapData n)\<rparr>)))"
  by (simp add: AddDataToMap_def)

lemma memo_layers:
  assumes "access_ok T d"
  shows "memo T d k (FreeCache n) = FreeCache n"
    "\<exists>n'. memo T d k (DbCache n) = DbCache n' \<and> mapData n' = kept k (raw T d (DbCache n) k) (mapData n)"
    "\<exists>n'. memo T d k (SubCache n b) = SubCache n' (if sm_find (mapData n) k = None then memo T d k b else b) \<and>
       mapData n' = kept k (raw T d (SubCache n b) k) (mapData n)"
proof -
  show "memo T d k (FreeCache n) = FreeCache n"
    by (simp add: memo_def)
  show "\<exists>n'. memo T d k (DbCache n) = DbCache n' \<and> mapData n' = kept k (raw T d (DbCache n) k) (mapData n)"
  proof (cases "sm_find (mapData n) k")
    case None
    then show ?thesis
      using assms by (cases "db_val T d k") (simp_all add: memo_def DbAccess_GetData_ok AddDataToMap_map kept_def)
  next
    case (Some v)
    then show ?thesis
      by (simp add: memo_def kept_def sm_set_same)
  qed
  show "\<exists>n'. memo T d k (SubCache n b) = SubCache n' (if sm_find (mapData n) k = None then memo T d k b else b) \<and>
       mapData n' = kept k (raw T d (SubCache n b) k) (mapData n)"
  proof (cases "sm_find (mapData n) k")
    case None
    then show ?thesis
      using GetDataIt_eq [OF assms, of k b]
      by (cases "raw T d b k") (simp_all add: memo_def [of T d k "SubCache n b"] AddDataToMap_map kept_def)
  next
    case (Some v)
    then show ?thesis
      by (simp add: memo_def kept_def sm_set_same)
  qed
qed

lemma same_kept:
  assumes "kv_wf T" and "same_map T m m'"
  shows "same_map T (kept k r m) (kept (ser_key T k) (map_option (ser_val T) r) m')"
  using assms same_map_set by (auto simp: kept_def split: option.split)

lemma same_memo:
  assumes ok: "access_ok T d" and typed: "db_typed T d"
  shows "same_cache T c c' \<Longrightarrow> same_cache T (memo T d k c) (memo (bytes_of T) d (ser_key T k) c')"
proof (induction c arbitrary: c')
  case (FreeCache n)
  then show ?case
    by (auto simp: memo_layers(1) [OF ok] memo_layers(1) [OF bytes_of_ok [OF ok]] split: kvcache.splits)
next
  case (DbCache n)
  note wf = access_okD(1) [OF ok]
  obtain n' where n': "c' = DbCache n'" "same_map T (mapData n) (mapData n')"
    using DbCache by (auto split: kvcache.splits)
  obtain m where m: "memo T d k (DbCache n) = DbCache m" "mapData m = kept k (raw T d (DbCache n) k) (mapData n)"
    using memo_layers(2) [OF ok] by blast
  obtain m' where m': "memo (bytes_of T) d (ser_key T k) (DbCache n') = DbCache m'"
    "mapData m' = kept (ser_key T k) (raw (bytes_of T) d (DbCache n') (ser_key T k)) (mapData n')"
    using memo_layers(2) [OF bytes_of_ok [OF ok]] by blast
  have "raw (bytes_of T) d (DbCache n') (ser_key T k) = map_option (ser_val T) (raw T d (DbCache n) k)"
    using same_raw [OF wf typed DbCache] n'(1) by simp
  then show ?case
    unfolding n'(1) m(1) m'(1) using same_kept [OF wf n'(2)] m(2) m'(2) by simp
next
  case (SubCache n b)
  note wf = access_okD(1) [OF ok]
  obtain n' b' where n': "c' = SubCache n' b'" "same_map T (mapData n) (mapData n')" "same_cache T b b'"
    using SubCache.prems by (auto split: kvcache.splits)
  obtain m where m: "memo T d k (SubCache n b) = SubCache m (if sm_find (mapData n) k = None then memo T d k b else b)"
    "mapData m = kept k (raw T d (SubCache n b) k) (mapData n)"
    using memo_layers(3) [OF ok] by blast
  obtain m' where m': "memo (bytes_of T) d (ser_key T k) (SubCache n' b') =
      SubCache m' (if sm_find (mapData n') (ser_key T k) = None then memo (bytes_of T) d (ser_key T k) b' else b')"
    "mapData m' = kept (ser_key T k) (raw (bytes_of T) d (SubCache n' b') (ser_key T k)) (mapData n')"
    using memo_layers(3) [OF bytes_of_ok [OF ok]] by blast
  have "raw (bytes_of T) d (SubCache n' b') (ser_key T k) = map_option (ser_val T) (raw T d (SubCache n b) k)"
    using same_raw [OF wf typed SubCache.prems] n'(1) by simp
  then have "same_map T (mapData m) (mapData m')"
    using same_kept [OF wf n'(2)] m(2) m'(2) by simp
  moreover have "sm_find (mapData n') (ser_key T k) = None \<longleftrightarrow> sm_find (mapData n) k = None"
    using same_map_find [OF n'(2)] by simp
  ultimately show ?case
    unfolding n'(1) m(1) m'(1) using SubCache.IH [OF n'(3)] n'(3) by simp
qed

text \<open>The caches that writes leave, by their entries.\<close>

lemma put_node:
  assumes ok: "access_ok T d" and k: "\<not> key_empty T k"
  shows "\<exists>n. put_cache T d k v c = with_node (memo T d k c) n \<and> mapData n = sm_set k v (mapData (node_of (memo T d k c)))"
proof -
  have run: "SetData T d k v c None = Some (True, put_cache T d k v c, None)"
    using SetData_eq [OF assms, of v c None] by simp
  show ?thesis
  proof (cases "raw T d c k")
    case None
    then obtain n where "AddDataToMap T k v (node_of (memo T d k c)) = Some n"
      "mapData n = sm_set k v (mapData (node_of (memo T d k c)))"
      using AddDataToMap_absent [of "node_of (memo T d k c)" k T v] memo_simps(2) [OF ok, of k c] by auto
    with run None k show ?thesis
      by (intro exI [of _ n]) (simp add: SetData_def GetDataIt_eq [OF ok] AddOpLog_def)
  next
    case (Some old)
    let ?n = "UpdateDataSize T old v (node_of (memo T d k c))"
    from run Some k have "put_cache T d k v c = with_node (memo T d k c) (?n\<lparr>mapData := sm_set k v (mapData ?n)\<rparr>)"
      by (simp add: SetData_def GetDataIt_eq [OF ok] AddOpLog_def Let_def)
    then show ?thesis
      by (intro exI [of _ "?n\<lparr>mapData := sm_set k v (mapData ?n)\<rparr>"]) simp
  qed
qed

lemma del_node:
  assumes ok: "access_ok T d" and k: "\<not> key_empty T k"
  shows "\<exists>n. del_cache T d k c = with_node (memo T d k c) n \<and> mapData n =
     (if view T d c k = None then mapData (node_of (memo T d k c))
      else sm_set k (set_empty T (old_val T d k c)) (mapData (node_of (memo T d k c))))"
proof -
  have run: "EraseData T d k c None = Some (True, del_cache T d k c, None)"
    using EraseData_eq [OF assms, of c None] by simp
  show ?thesis
  proof (cases "view T d c k")
    case None
    from run None k have "del_cache T d k c = memo T d k c"
      by (auto simp: EraseData_def GetDataIt_eq [OF ok] view_def visible_def split: option.splits if_splits)
    with None show ?thesis
      by (intro exI [of _ "node_of (memo T d k c)"]) simp
  next
    case (Some old)
    then have old: "raw T d c k = Some old" "\<not> val_empty T old" "old_val T d k c = old"
      by (auto simp: view_def visible_def old_val_def split: option.splits if_splits)
    let ?n = "DecDataSize T old (node_of (memo T d k c))"
    let ?n1 = "IncDataSize1 T (set_empty T old) (?n\<lparr>mapData := sm_set k (set_empty T old) (mapData ?n)\<rparr>)"
    from run old k have "del_cache T d k c = with_node (memo T d k c) ?n1"
      by (simp add: EraseData_def GetDataIt_eq [OF ok] AddOpLog_def Let_def)
    with Some old(3) show ?thesis
      by (intro exI [of _ ?n1]) simp
  qed
qed

lemma same_view:
  assumes "kv_wf T" and "db_typed T d" and "same_cache T c c'"
  shows "view (bytes_of T) d c' (ser_key T k) = map_option (ser_val T) (view T d c k)"
    "old_val (bytes_of T) d (ser_key T k) c' = ser_val T (old_val T d k c)"
  using same_raw [OF assms, of k] assms(1) by (auto simp: view_def visible_def old_val_def split: option.split)

lemma same_put:
  assumes ok: "access_ok T d" and typed: "db_typed T d" and c: "same_cache T c c'" and k: "\<not> key_empty T k"
  shows "same_cache T (put_cache T d k v c) (put_cache (bytes_of T) d (ser_key T k) (ser_val T v) c')"
proof -
  note wf = access_okD(1) [OF ok]
  have k': "\<not> key_empty (bytes_of T) (ser_key T k)"
    using k wf by simp
  note m = same_memo [OF ok typed c, of k]
  show ?thesis
    using put_node [OF ok k, of v c] put_node [OF bytes_of_ok [OF ok] k', of "ser_val T v" c']
      same_map_set [OF wf same_node [OF m], of k v] same_with_node [OF m] by metis
qed

lemma same_del:
  assumes ok: "access_ok T d" and typed: "db_typed T d" and c: "same_cache T c c'" and k: "\<not> key_empty T k"
  shows "same_cache T (del_cache T d k c) (del_cache (bytes_of T) d (ser_key T k) c')"
proof -
  note wf = access_okD(1) [OF ok]
  have k': "\<not> key_empty (bytes_of T) (ser_key T k)"
    using k wf by simp
  note m = same_memo [OF ok typed c, of k]
  note v = same_view [OF wf typed c, of k]
  obtain n where n: "del_cache T d k c = with_node (memo T d k c) n"
    "mapData n = (if view T d c k = None then mapData (node_of (memo T d k c))
      else sm_set k (set_empty T (old_val T d k c)) (mapData (node_of (memo T d k c))))"
    using del_node [OF ok k] by blast
  obtain n' where n': "del_cache (bytes_of T) d (ser_key T k) c' = with_node (memo (bytes_of T) d (ser_key T k) c') n'"
    "mapData n' = (if view T d c k = None then mapData (node_of (memo (bytes_of T) d (ser_key T k) c'))
      else sm_set (ser_key T k) (ser_val T (set_empty T (old_val T d k c))) (mapData (node_of (memo (bytes_of T) d (ser_key T k) c'))))"
    using del_node [OF bytes_of_ok [OF ok] k', of c'] v wf by auto
  have "same_map T (mapData n) (mapData n')"
    using n(2) n'(2) same_node [OF m] same_map_set [OF wf same_node [OF m]] by simp
  then show ?thesis
    unfolding n(1) n'(1) by (rule same_with_node [OF m])
qed

section \<open>Calls\<close>

datatype ('k, 'v) kv_call = CallGet 'k | CallHas 'k | CallSet 'k 'v | CallErase 'k

datatype 'v kv_answer = Value "'v option" | Success bool

fun run_call ::
  "('k, 'v) kvops \<Rightarrow> CDBAccess \<Rightarrow> ('k, 'v) kv_call \<Rightarrow> ('k::linorder, 'v) kvcache \<times> CDBOpLogMap option \<Rightarrow>
     ('v kv_answer \<times> ('k, 'v) kvcache \<times> CDBOpLogMap option) option" where
  "run_call T d (CallGet k) (c, lg) = do { (c', r) \<leftarrow> GetData T d k c; Some (Value r, c', lg) }"
| "run_call T d (CallHas k) (c, lg) = do { (c', r) \<leftarrow> HasData T d k c; Some (Success r, c', lg) }"
| "run_call T d (CallSet k v) (c, lg) = do { (r, c', lg') \<leftarrow> SetData T d k v c lg; Some (Success r, c', lg') }"
| "run_call T d (CallErase k) (c, lg) = do { (r, c', lg') \<leftarrow> EraseData T d k c lg; Some (Success r, c', lg') }"

fun run_calls ::
  "('k, 'v) kvops \<Rightarrow> CDBAccess \<Rightarrow> ('k, 'v) kv_call list \<Rightarrow> ('k::linorder, 'v) kvcache \<times> CDBOpLogMap option \<Rightarrow>
     ('v kv_answer list \<times> ('k, 'v) kvcache \<times> CDBOpLogMap option) option" where
  "run_calls T d [] s = Some ([], s)"
| "run_calls T d (x # xs) s =
     do { (a, s1) \<leftarrow> run_call T d x s; (as, s2) \<leftarrow> run_calls T d xs s1; Some (a # as, s2) }"

text \<open>\<open>map_kv_call\<close> and \<open>map_kv_answer\<close> serialise a call and its answer.\<close>

lemma same_call:
  assumes ok: "access_ok T d" and typed: "db_typed T d" and c: "same_cache T c c'"
  shows "\<exists>a c1 c1' lg1. run_call T d x (c, lg) = Some (a, c1, lg1) \<and> same_cache T c1 c1' \<and>
    run_call (bytes_of T) d (map_kv_call (ser_key T) (ser_val T) x) (c', lg) = Some (map_kv_answer (ser_val T) a, c1', lg1)"
proof -
  note wf = access_okD(1) [OF ok] and ok' = bytes_of_ok [OF ok]
  note v = same_view [OF wf typed c]
  have log: "logged (bytes_of T) (ser_key T k) (ser_val T w) = logged T k w" for k w
    by (simp add: fun_eq_iff logged_def OpLog_Set_def)
  show ?thesis
  proof (cases x)
    case (CallGet k)
    then show ?thesis
      using c same_memo [OF ok typed c, of k] v(1) [of k] wf
      by (cases "key_empty T k") (simp_all add: GetData_eq [OF ok] GetData_eq [OF ok'])
  next
    case (CallHas k)
    then show ?thesis
      using c same_memo [OF ok typed c, of k] v(1) [of k] wf
      by (cases "key_empty T k") (simp_all add: HasData_eq [OF ok] HasData_eq [OF ok'])
  next
    case (CallSet k w)
    then show ?thesis
      using c same_put [OF ok typed c, of k w] v(2) [of k] wf
      by (cases "key_empty T k") (simp_all add: SetData_eq [OF ok] SetData_eq [OF ok'] log)
  next
    case (CallErase k)
    then show ?thesis
      using c same_del [OF ok typed c, of k] v [of k] wf
      by (cases "key_empty T k") (simp_all add: EraseData_eq [OF ok] EraseData_eq [OF ok'] log)
  qed
qed

lemma same_calls:
  assumes ok: "access_ok T d" and typed: "db_typed T d"
  shows "same_cache T c c' \<Longrightarrow> \<exists>as c1 c1' lg1. run_calls T d xs (c, lg) = Some (as, c1, lg1) \<and> same_cache T c1 c1' \<and>
    run_calls (bytes_of T) d (map (map_kv_call (ser_key T) (ser_val T)) xs) (c', lg) =
      Some (map (map_kv_answer (ser_val T)) as, c1', lg1)"
proof (induction xs arbitrary: c c' lg)
  case (Cons x xs)
  obtain a c1 c1' lg1 where 1: "run_call T d x (c, lg) = Some (a, c1, lg1)" "same_cache T c1 c1'"
    "run_call (bytes_of T) d (map_kv_call (ser_key T) (ser_val T) x) (c', lg) = Some (map_kv_answer (ser_val T) a, c1', lg1)"
    using same_call [OF ok typed Cons.prems] by blast
  obtain as c2 c2' lg2 where "run_calls T d xs (c1, lg1) = Some (as, c2, lg2)" "same_cache T c2 c2'"
    "run_calls (bytes_of T) d (map (map_kv_call (ser_key T) (ser_val T)) xs) (c1', lg1) =
      Some (map (map_kv_answer (ser_val T)) as, c2', lg2)"
    using Cons.IH [OF 1(2)] by blast
  with 1 show ?case
    by (intro exI [of _ "a # as"] exI [of _ c2] exI [of _ c2'] exI [of _ lg2]) simp
qed simp

section \<open>Flushing\<close>

lemma self_node:
  "\<exists>n. SetDataToSelf T k v c = Some (with_node c n) \<and> mapData n = sm_set k v (mapData (node_of c))"
proof (cases "sm_find (mapData (node_of c)) k")
  case None
  from AddDataToMap_absent [OF this, of T v] None show ?thesis
    by (auto simp: SetDataToSelf_def)
next
  case (Some old)
  let ?n = "UpdateDataSize T old v (node_of c)"
  show ?thesis
    using Some by (intro exI [of _ "?n\<lparr>mapData := sm_set k v (mapData ?n)\<rparr>"]) (simp add: SetDataToSelf_def Let_def)
qed

lemma with_node_with_node [simp]: "with_node (with_node c n) m = with_node c m"
  by (cases c) simp_all

lemma self_nodes:
  "distinct (map fst xs) \<Longrightarrow> \<exists>n. fold_opt (\<lambda>(k, v). SetDataToSelf T k v) xs c = Some (with_node c n) \<and>
     sm_find (mapData n) = sm_find (mapData (node_of c)) ++ map_of xs"
proof (induction xs arbitrary: c)
  case Nil
  show ?case
    by (intro exI [of _ "node_of c"]) simp
next
  case (Cons x xs)
  obtain k v where x: "x = (k, v)"
    by (cases x)
  obtain n1 where n1: "SetDataToSelf T k v c = Some (with_node c n1)" "mapData n1 = sm_set k v (mapData (node_of c))"
    using self_node [of T k v c] by blast
  obtain n2 where n2: "fold_opt (\<lambda>(k, v). SetDataToSelf T k v) xs (with_node c n1) = Some (with_node c n2)"
    "sm_find (mapData n2) = sm_find (mapData n1) ++ map_of xs"
    using Cons.IH [of "with_node c n1"] Cons.prems by auto
  have "map_of xs k = None"
    using Cons.prems x by (simp add: map_of_eq_None_iff)
  then have eq: "sm_find (mapData n2) = sm_find (mapData (node_of c)) ++ map_of (x # xs)"
    using n1(2) n2(2) x by (auto simp: fun_eq_iff map_add_def split: option.split)
  show ?case
  proof (intro exI conjI)
    show "fold_opt (\<lambda>(k, v). SetDataToSelf T k v) (x # xs) c = Some (with_node c n2)"
      using n1(1) n2(1) x by simp
  qed (rule eq)
qed

lemma same_map_add:
  assumes "same_map T m1 m1'" and "same_map T m2 m2'"
    and "sm_find m = sm_find m1 ++ sm_find m2" and "sm_find m' = sm_find m1' ++ sm_find m2'"
  shows "same_map T m m'"
  using assms by (auto simp: same_map_def map_add_def split: option.split)

lemma same_flush_base:
  assumes "same_cache T (SubCache n b) (SubCache n' b')"
  shows "\<exists>c1 c1'. Flush T d (SubCache n b) = Some (d, c1) \<and> same_cache T c1 c1' \<and>
    Flush (bytes_of T) d (SubCache n' b') = Some (d, c1')"
proof -
  have s: "same_map T (mapData n) (mapData n')" "same_cache T b b'"
    using assms by simp_all
  obtain m where m: "fold_opt (\<lambda>(k, v). SetDataToSelf T k v) (sm_items (mapData n)) b = Some (with_node b m)"
    "sm_find (mapData m) = sm_find (mapData (node_of b)) ++ sm_find (mapData n)"
    using self_nodes [of "sm_items (mapData n)" T b] by auto
  obtain m' where m': "fold_opt (\<lambda>(k, v). SetDataToSelf (bytes_of T) k v) (sm_items (mapData n')) b' = Some (with_node b' m')"
    "sm_find (mapData m') = sm_find (mapData (node_of b')) ++ sm_find (mapData n')"
    using self_nodes [of "sm_items (mapData n')" "bytes_of T" b'] by auto
  have "same_cache T (with_node b m) (with_node b' m')"
    using same_with_node [OF s(2)] same_map_add [OF same_node [OF s(2)] s(1) m(2) m'(2)] .
  moreover have "same_map T sm_empty sm_empty"
    by (simp add: same_map_def)
  ultimately show ?thesis
    using m(1) m'(1) by simp
qed

text \<open>Batches of the same operations on distinct keys, in whatever order.\<close>

lemma apply_batch_same:
  assumes "distinct (map op_key b)" and "distinct (map op_key b')" and "set b = set b'"
  shows "apply_batch b m = apply_batch b' m"
proof (rule std_map_eqI)
  fix k
  show "sm_find (apply_batch b m) k = sm_find (apply_batch b' m) k"
  proof (cases "k \<in> op_key ` set b")
    case True
    then obtain x where "x \<in> set b" "k = op_key x"
      by blast
    then show ?thesis
      using find_apply_batch_in [OF assms(1)] find_apply_batch_in [OF assms(2)] assms(3) by simp
  next
    case False
    then show ?thesis
      using assms(3) by (simp add: find_apply_batch_other)
  qed
qed

definition table_op :: "('k, 'v) kvops \<Rightarrow> 'k \<times> 'v \<Rightarrow> batch_op" where
  "table_op T p = (if val_empty T (snd p) then Delete (GetKeyPrefix (prefix_type T) @ ser_key T (fst p))
     else Put (GetKeyPrefix (prefix_type T) @ ser_key T (fst p)) (ser_val T (snd p)))"

lemma flush_ops:
  assumes "access_ok T d"
  shows "Flush T d (DbCache n) =
      Some (d\<lparr>ldb := (ldb d)\<lparr>ldb_data := apply_batch (map (table_op T) (sm_items (mapData n))) (ldb_data (ldb d))\<rparr>\<rparr>,
        DbCache (Clear_node n))"
    "distinct (map op_key (map (table_op T) (sm_items (mapData n))))"
proof -
  have "flush_batch T (sm_items (mapData n)) [] = Some (map (table_op T) (sm_items (mapData n)))"
    using flush_batch_eq [OF access_okD(1) [OF assms], of "sm_items (mapData n)" "[]"]
    by (simp add: table_op_def case_prod_unfold)
  then show "Flush T d (DbCache n) =
      Some (d\<lparr>ldb := (ldb d)\<lparr>ldb_data := apply_batch (map (table_op T) (sm_items (mapData n))) (ldb_data (ldb d))\<rparr>\<rparr>,
        DbCache (Clear_node n))"
    using access_okD(2) [OF assms] by (simp add: DbAccess_WriteBatch_def WriteBatch_healthy)
  have "map op_key (map (table_op T) (sm_items (mapData n))) =
      map (\<lambda>k. GetKeyPrefix (prefix_type T) @ ser_key T k) (map fst (sm_items (mapData n)))"
    by (simp add: table_op_def)
  moreover have "distinct (map (\<lambda>k. GetKeyPrefix (prefix_type T) @ ser_key T k) (map fst (sm_items (mapData n))))"
    by (rule distinct_map [THEN iffD2]) (auto simp: inj_on_def ser_key_inj [OF access_okD(1) [OF assms]])
  ultimately show "distinct (map op_key (map (table_op T) (sm_items (mapData n))))"
    by (simp only:)
qed

lemma same_ops:
  assumes "kv_wf T" and "same_map T m m'"
  shows "set (map (table_op T) (sm_items m)) = set (map (table_op (bytes_of T)) (sm_items m'))"
proof -
  have op: "table_op (bytes_of T) (ser_key T k, ser_val T v) = table_op T (k, v)" for k v
    using assms(1) by (simp add: table_op_def)
  show ?thesis
  proof (intro set_eqI iffI)
    fix x
    assume "x \<in> set (map (table_op T) (sm_items m))"
    then obtain k v where "sm_find m k = Some v" "x = table_op T (k, v)"
      by (auto simp: in_sm_items_iff)
    then have "(ser_key T k, ser_val T v) \<in> set (sm_items m')" "x = table_op (bytes_of T) (ser_key T k, ser_val T v)"
      using same_map_find [OF assms(2), of k] op by (simp_all add: in_sm_items_iff)
    then show "x \<in> set (map (table_op (bytes_of T)) (sm_items m'))"
      unfolding set_map by (rule rev_image_eqI)
  next
    fix x
    assume "x \<in> set (map (table_op (bytes_of T)) (sm_items m'))"
    then obtain s w where w: "sm_find m' s = Some w" "x = table_op (bytes_of T) (s, w)"
      by (auto simp: in_sm_items_iff)
    then obtain k where k: "s = ser_key T k"
      using assms(2) unfolding same_map_def by fastforce
    then obtain v where "sm_find m k = Some v" "w = ser_val T v"
      using w(1) same_map_find [OF assms(2), of k] by auto
    then have "(k, v) \<in> set (sm_items m)" "x = table_op T (k, v)"
      using w(2) k op by (simp_all add: in_sm_items_iff)
    then show "x \<in> set (map (table_op T) (sm_items m))"
      unfolding set_map by (rule rev_image_eqI)
  qed
qed

lemma same_flush_db:
  assumes ok: "access_ok T d" and typed: "db_typed T d" and c: "same_cache T (DbCache n) (DbCache n')"
  shows "\<exists>d1 c1 c1'. Flush T d (DbCache n) = Some (d1, c1) \<and> same_cache T c1 c1' \<and>
    Flush (bytes_of T) d (DbCache n') = Some (d1, c1') \<and> access_ok T d1 \<and> db_typed T d1"
proof -
  note wf = access_okD(1) [OF ok] and ok' = bytes_of_ok [OF ok]
  let ?b = "map (table_op T) (sm_items (mapData n))" and ?b' = "map (table_op (bytes_of T)) (sm_items (mapData n'))"
  let ?d = "d\<lparr>ldb := (ldb d)\<lparr>ldb_data := apply_batch ?b (ldb_data (ldb d))\<rparr>\<rparr>"
  have "set ?b = set ?b'"
    using c by (intro same_ops [OF wf]) simp
  then have b: "apply_batch ?b' (ldb_data (ldb d)) = apply_batch ?b (ldb_data (ldb d))"
    by (rule apply_batch_same [OF flush_ops(2) [OF ok] flush_ops(2) [OF ok'], symmetric])
  have "db_typed T ?d"
    unfolding db_typed_def
  proof (intro allI impI)
    fix k s
    assume s: "sm_find (ldb_data (ldb ?d)) (GetKeyPrefix (prefix_type T) @ ser_key T k) = Some s"
    let ?key = "GetKeyPrefix (prefix_type T) @ ser_key T k"
    show "s \<in> range (ser_val T)"
    proof (cases "?key \<in> op_key ` set ?b")
      case True
      then obtain x where x: "x \<in> set ?b" "?key = op_key x"
        by blast
      then have "op_effect x = Some s"
        using find_apply_batch_in [OF flush_ops(2) [OF ok, of n] x(1), of "ldb_data (ldb d)"] s by simp
      with x(1) show ?thesis
        by (auto simp: table_op_def split: if_splits)
    next
      case False
      then show ?thesis
        using s typed by (simp add: find_apply_batch_other db_typed_def)
    qed
  qed
  moreover have "access_ok T ?d"
    using wf access_okD(2) [OF ok] by (simp add: access_ok_def del: access_okD)
  moreover have "same_cache T (DbCache (Clear_node n)) (DbCache (Clear_node n'))"
    by (simp add: same_map_def)
  ultimately show ?thesis
    using flush_ops(1) [OF ok, of n] flush_ops(1) [OF ok', of n'] b by (intro exI) (auto simp del: Flush.simps)
qed

section \<open>Undo\<close>

lemma same_undo:
  assumes "kv_wf T" and "same_cache T c c'"
  shows "\<exists>c1 c1'. UndoData T (OpLog_Set (ser_key T) (ser_val T) k v) c = Some c1 \<and> same_cache T c1 c1' \<and>
    UndoData (bytes_of T) (OpLog_Set (ser_key T) (ser_val T) k v) c' = Some c1'"
proof -
  obtain n where n: "SetDataToSelf T k v c = Some (with_node c n)" "mapData n = sm_set k v (mapData (node_of c))"
    using self_node [of T k v c] by blast
  obtain n' where n': "SetDataToSelf (bytes_of T) (ser_key T k) (ser_val T v) c' = Some (with_node c' n')"
    "mapData n' = sm_set (ser_key T k) (ser_val T v) (mapData (node_of c'))"
    using self_node [of "bytes_of T" "ser_key T k" "ser_val T v" c'] by blast
  have "same_cache T (with_node c n) (with_node c' n')"
    using same_with_node [OF assms(2)] same_map_set [OF assms(1) same_node [OF assms(2)], of k v] n(2) n'(2) by simp
  with n(1) n'(1) assms(1) show ?thesis
    by (simp add: UndoData_def OpLog_Get_def OpLog_Set_def)
qed

section \<open>Properties\<close>


text \<open>A table of numbers under numbers: the producer fees, for instance.\<close>

definition fee_ops :: "(uint32, uint64) kvops" where
  "fee_ops = sample_ops PRODUCER_FEE uint_db uint_db 0 word_c word_c"

lemma fee_ok: "access_ok fee_ops (empty_db DB_SYSPARAM)"
  unfolding fee_ops_def by (rule sample_access_ok) (simp_all add: is_data_prefix_def)

lemma fee_typed: "db_typed fee_ops (empty_db DB_SYSPARAM)"
  by (simp add: db_typed_def)

lemma fee_same: "same_cache fee_ops (DbCache (empty_node True)) (DbCache (empty_node True))"
  by (simp add: same_map_def empty_node_def)




end
