(* ===== verification/Ldb_Coding.thy ===== *)
theory Ldb_Coding
  imports Prelude
begin

unbundle bit_operations_syntax

text \<open>
  \<open>coding.h\<close> and \<open>coding.cc\<close> of the vendored leveldb: numbers of fixed and of variable length, and
  slices prefixed by their length.  A buffer is a byte string; a pointer into it and its limit are
  what is left of the string.  A decoder returns the value with the rest, or \<open>None\<close> where the code
  returns a null pointer or \<open>false\<close>.
\<close>

section \<open>Bytes\<close>

text \<open>A byte as a number of any width, and the low byte of a number.\<close>

definition byte :: "'n::len word \<Rightarrow> char" where
  "byte w = char_of (unat w)"

definition unbyte :: "char \<Rightarrow> 'n::len word" where
  "unbyte c = of_nat (of_char c)"

section \<open>Numbers of fixed length\<close>

definition EncodeFixed32 :: "uint32 \<Rightarrow> string" where
  "EncodeFixed32 v = [byte v, byte (drop_bit 8 v), byte (drop_bit 16 v), byte (drop_bit 24 v)]"

definition EncodeFixed64 :: "uint64 \<Rightarrow> string" where
  "EncodeFixed64 v = [byte v, byte (drop_bit 8 v), byte (drop_bit 16 v), byte (drop_bit 24 v),
     byte (drop_bit 32 v), byte (drop_bit 40 v), byte (drop_bit 48 v), byte (drop_bit 56 v)]"

definition PutFixed32 :: "string \<Rightarrow> uint32 \<Rightarrow> string" where
  "PutFixed32 dst v = dst @ EncodeFixed32 v"

definition PutFixed64 :: "string \<Rightarrow> uint64 \<Rightarrow> string" where
  "PutFixed64 dst v = dst @ EncodeFixed64 v"

text \<open>The decoders read without a bounds check; reading past the end is undefined, \<open>None\<close>.\<close>

fun DecodeFixed32 :: "string \<Rightarrow> uint32 option" where
  "DecodeFixed32 (a # b # c # d # _) =
     Some (unbyte a OR push_bit 8 (unbyte b) OR push_bit 16 (unbyte c) OR push_bit 24 (unbyte d))"
| "DecodeFixed32 _ = None"

definition DecodeFixed64 :: "string \<Rightarrow> uint64 option" where
  "DecodeFixed64 ptr =
     do { lo \<leftarrow> DecodeFixed32 ptr; hi \<leftarrow> DecodeFixed32 (drop 4 ptr); Some (push_bit 32 (ucast hi) OR ucast lo) }"

section \<open>Numbers of variable length\<close>

definition EncodeVarint32 :: "uint32 \<Rightarrow> string" where
  "EncodeVarint32 v =
     (if v < 2 ^ 7 then [byte v]
      else if v < 2 ^ 14 then [byte (v OR 128), byte (drop_bit 7 v)]
      else if v < 2 ^ 21 then [byte (v OR 128), byte (drop_bit 7 v OR 128), byte (drop_bit 14 v)]
      else if v < 2 ^ 28 then
        [byte (v OR 128), byte (drop_bit 7 v OR 128), byte (drop_bit 14 v OR 128), byte (drop_bit 21 v)]
      else [byte (v OR 128), byte (drop_bit 7 v OR 128), byte (drop_bit 14 v OR 128), byte (drop_bit 21 v OR 128),
        byte (drop_bit 28 v)])"

definition PutVarint32 :: "string \<Rightarrow> uint32 \<Rightarrow> string" where
  "PutVarint32 dst v = dst @ EncodeVarint32 v"

lemma unat_drop7: "unat (drop_bit 7 (v :: 'n::len word)) = unat v div 128"
  unfolding unat_drop_bit_eq by (simp add: drop_bit_eq_div)

lemma drop_bit_less: "128 \<le> unat v \<Longrightarrow> unat (drop_bit 7 (v :: 'n::len word)) < unat v"
  unfolding unat_drop7 by simp

function EncodeVarint64 :: "uint64 \<Rightarrow> string" where
  "EncodeVarint64 v =
     (if v \<ge> 128 then byte ((v AND 127) OR 128) # EncodeVarint64 (drop_bit 7 v) else [byte v])"
  by pat_completeness auto
termination
  by (relation "measure unat") (auto simp: word_le_nat_alt intro: drop_bit_less)

declare EncodeVarint64.simps [simp del]

definition PutVarint64 :: "string \<Rightarrow> uint64 \<Rightarrow> string" where
  "PutVarint64 dst v = dst @ EncodeVarint64 v"

function VarintLength :: "uint64 \<Rightarrow> nat" where
  "VarintLength v = (if v \<ge> 128 then VarintLength (drop_bit 7 v) + 1 else 1)"
  by pat_completeness auto
termination
  by (relation "measure unat") (auto simp: word_le_nat_alt intro: drop_bit_less)

declare VarintLength.simps [simp del]

text \<open>The loop of the two decoders: \<open>m\<close> is the largest shift, 28 or 63.\<close>

fun varint_loop :: "nat \<Rightarrow> nat \<Rightarrow> 'n::len word \<Rightarrow> string \<Rightarrow> ('n word \<times> string) option" where
  "varint_loop m shift result [] = None"
| "varint_loop m shift result (c # p) =
     (if shift \<le> m then
        let b = (unbyte c :: 'n word) in
        if b AND 128 \<noteq> 0 then varint_loop m (shift + 7) (result OR push_bit shift (b AND 127)) p
        else Some (result OR push_bit shift b, p)
      else None)"

definition GetVarint32PtrFallback :: "string \<Rightarrow> (uint32 \<times> string) option" where
  "GetVarint32PtrFallback p = varint_loop 28 0 0 p"

definition GetVarint32Ptr :: "string \<Rightarrow> (uint32 \<times> string) option" where
  "GetVarint32Ptr p =
     (case p of
        [] \<Rightarrow> GetVarint32PtrFallback p
      | c # rest \<Rightarrow>
          let result = (unbyte c :: uint32) in
          if result AND 128 = 0 then Some (result, rest) else GetVarint32PtrFallback p)"

definition GetVarint32 :: "string \<Rightarrow> (uint32 \<times> string) option" where
  "GetVarint32 input = GetVarint32Ptr input"

definition GetVarint64Ptr :: "string \<Rightarrow> (uint64 \<times> string) option" where
  "GetVarint64Ptr p = varint_loop 63 0 0 p"

definition GetVarint64 :: "string \<Rightarrow> (uint64 \<times> string) option" where
  "GetVarint64 input = GetVarint64Ptr input"

section \<open>Slices\<close>

text \<open>The length of a slice is cast to 32 bits.\<close>

definition PutLengthPrefixedSlice :: "string \<Rightarrow> string \<Rightarrow> string" where
  "PutLengthPrefixedSlice dst value = PutVarint32 dst (of_nat (length value)) @ value"

definition GetLengthPrefixedSlice :: "string \<Rightarrow> (string \<times> string) option" where
  "GetLengthPrefixedSlice input =
     do { (len, rest) \<leftarrow> GetVarint32 input;
          if length rest \<ge> unat len then Some (take (unat len) rest, drop (unat len) rest) else None }"

section \<open>Bytes and bits\<close>

lemma unbyte_byte: "(unbyte (byte w) :: 'n::len word) = take_bit 8 w"
proof -
  have "(unbyte (byte w) :: 'n word) = of_nat (take_bit 8 (unat w))"
    by (simp add: unbyte_def byte_def take_bit_eq_mod)
  also have "\<dots> = take_bit 8 w"
    by (simp add: of_nat_take_bit)
  finally show ?thesis .
qed

lemma byte_eq_iff: "byte v = byte w \<longleftrightarrow> unat v mod 256 = unat w mod 256"
  unfolding byte_def char_of_eq_iff by (simp add: take_bit_eq_mod)

lemma byte_take_bit: "byte (take_bit 8 w) = byte w"
  unfolding byte_eq_iff unsigned_take_bit_eq by (simp add: take_bit_eq_mod)

text \<open>Cutting a number at bit 7, and putting the two parts together again.\<close>

lemma split7: "take_bit 7 v OR push_bit 7 (drop_bit 7 v) = (v :: 'n::len word)"
proof (rule bit_eqI)
  fix n
  assume "possible_bit TYPE('n word) n"
  then show "bit (take_bit 7 v OR push_bit 7 (drop_bit 7 v)) n = bit v n"
    by (cases "n < 7") (auto simp: bit_simps)
qed

lemma and_127: "v AND 127 = take_bit 7 (v :: 'n::len word)"
  by (simp add: take_bit_eq_mask mask_eq_exp_minus_1)

lemma bit_128: "bit (128 :: 'n::len word) n \<longleftrightarrow> n = 7 \<and> n < LENGTH('n)"
proof -
  have "push_bit 7 1 = (128 :: 'n word)"
    by (simp add: push_bit_eq_mult)
  moreover have "bit (push_bit 7 (1 :: 'n word)) n \<longleftrightarrow> n = 7 \<and> n < LENGTH('n)"
    unfolding bit_push_bit_iff bit_1_iff by auto
  ultimately show ?thesis
    by (simp only:)
qed

lemma low_byte:
  fixes v :: "'n::len word"
  assumes "unat v < 128"
  shows "take_bit 7 v = v" and "take_bit 8 v = v" and "v AND 128 = 0"
proof -
  show t7: "take_bit 7 v = v"
    using assms unfolding word_unat_eq_iff unsigned_take_bit_eq by (simp add: take_bit_eq_mod)
  then have n: "bit v n \<Longrightarrow> n < 7" for n
    by (metis bit_take_bit_iff)
  show "take_bit 8 v = v"
    by (rule bit_eqI) (use n in \<open>fastforce simp only: bit_take_bit_iff\<close>)
  have "\<not> bit (v AND 128) i" for i
    unfolding bit_and_iff bit_128 using n by blast
  then show "v AND 128 = 0"
    by (metis bit_eqI bit_0_eq bot_apply bot_bool_def)
qed

lemma more_byte:
  fixes v :: "'n::len word"
  assumes "8 \<le> LENGTH('n)"
  shows "take_bit 8 (v AND 127 OR 128) AND 128 \<noteq> 0"
    and "take_bit 8 (v AND 127 OR 128) AND 127 = take_bit 7 v"
    and "byte (v OR 128) = byte (v AND 127 OR 128)"
proof -
  have "bit (take_bit 8 (v AND 127 OR 128) AND 128) 7"
    using assms by (simp add: bit_take_bit_iff bit_and_iff bit_or_iff bit_128)
  then show "take_bit 8 (v AND 127 OR 128) AND 128 \<noteq> 0"
    by (metis bit_0_eq bot_apply bot_bool_def)
  show "take_bit 8 (v AND 127 OR 128) AND 127 = take_bit 7 v"
    unfolding and_127 by (rule bit_eqI) (auto simp only: bit_take_bit_iff bit_or_iff bit_128)
  have "take_bit 8 (v OR 128) = take_bit 8 (v AND 127 OR 128)"
  proof (rule bit_eqI)
    fix n
    assume "possible_bit TYPE('n word) n"
    then have "n < 8 \<Longrightarrow> n < 7 \<or> n = 7" "n < LENGTH('n)"
      by auto
    then show "bit (take_bit 8 (v OR 128)) n = bit (take_bit 8 (v AND 127 OR 128)) n"
      unfolding and_127 bit_take_bit_iff bit_or_iff bit_128 by auto
  qed
  then show "byte (v OR 128) = byte (v AND 127 OR 128)"
    by (metis byte_take_bit)
qed

section \<open>Decoding what was encoded\<close>

text \<open>One reference for both encoders: seven bits at a time, the last byte below 128.\<close>

function varint :: "'n::len word \<Rightarrow> string" where
  "varint v =
     (if 128 \<le> unat v then byte (v AND 127 OR 128) # varint (drop_bit 7 v) else [byte v])"
  by pat_completeness auto
termination
  by (relation "measure unat") (auto intro: drop_bit_less)

declare varint.simps [simp del]

lemma varint_loop_varint:
  fixes v r :: "'n::len word"
  assumes "8 \<le> LENGTH('n)" and "m = s + 7 * k" and "unat v < 2 ^ (7 * k + 7)"
  shows "varint_loop m s r (varint v @ rest) = Some (r OR push_bit s v, rest)"
  using assms(2,3)
proof (induction k arbitrary: s r v)
  case 0
  then show ?case
    by (simp add: varint.simps [of v] unbyte_byte low_byte)
next
  case (Suc k)
  show ?case
  proof (cases "128 \<le> unat v")
    case True
    have "unat v < 128 * 2 ^ (7 * k + 7)"
      using Suc.prems(2) by (simp add: power_add)
    then have d: "unat (drop_bit 7 v) < 2 ^ (7 * k + 7)"
      unfolding unat_drop7 by (simp add: less_mult_imp_div_less mult.commute)
    have "push_bit s (take_bit 7 v) OR push_bit (s + 7) (drop_bit 7 v) = push_bit s v"
      by (metis split7 push_bit_or push_bit_push_bit)
    moreover have "s \<le> m" and "m = (s + 7) + 7 * k"
      using Suc.prems(1) by simp_all
    ultimately show ?thesis
      using True Suc.IH [OF _ d, of "s + 7"] more_byte [OF assms(1), of v]
      by (subst varint.simps) (simp add: unbyte_byte Let_def or.assoc del: take_bit_numeral_1)
  next
    case False
    then show ?thesis
      using Suc.prems(1) by (subst varint.simps) (simp add: unbyte_byte low_byte)
  qed
qed

lemma EncodeVarint64_varint: "EncodeVarint64 v = varint v"
proof (induction v rule: EncodeVarint64.induct)
  case (1 v)
  then show ?case
    by (subst EncodeVarint64.simps, subst varint.simps) (simp add: word_le_nat_alt)
qed

lemma length_varint: "LENGTH('n::len) \<ge> 8 \<Longrightarrow> unat (v::'n word) < 2 ^ (7 * k + 7) \<Longrightarrow> length (varint v) \<le> k + 1"
proof (induction k arbitrary: v)
  case (Suc k)
  have "unat v < 128 * 2 ^ (7 * k + 7)"
    using Suc.prems(2) by (simp add: power_add)
  then have "unat (drop_bit 7 v) < 2 ^ (7 * k + 7)"
    unfolding unat_drop7 by (simp add: less_mult_imp_div_less mult.commute)
  with Suc show ?case
    by (subst varint.simps) simp
qed (simp add: varint.simps)

lemma VarintLength_varint: "VarintLength v = length (varint v)"
proof (induction v rule: VarintLength.induct)
  case (1 v)
  then show ?case
    by (subst VarintLength.simps, subst varint.simps) (simp add: word_le_nat_alt)
qed

lemma EncodeVarint32_varint: "EncodeVarint32 v = varint v"
proof -
  have "unat v < 2 ^ LENGTH(32)"
    by (rule unsigned_less)
  then have lt: "unat v < 4294967296"
    by simp
  have d: "128 \<le> unat (drop_bit (7 * i) v) \<longleftrightarrow> 128 * 2 ^ (7 * i) \<le> unat v" for i
    unfolding unat_drop_bit_eq by (simp add: drop_bit_eq_div less_eq_div_iff_mult_less_eq)
  have v: "varint (drop_bit i v) =
      (if 128 \<le> unat (drop_bit i v) then byte (drop_bit i v OR 128) # varint (drop_bit (i + 7) v)
       else [byte (drop_bit i v)])" for i
    using more_byte(3) [of "drop_bit i v"] by (subst varint.simps) (simp add: add.commute)
  show ?thesis
    using v [of 0] v [of 7] v [of 14] v [of 21] v [of 28] d [of 0] d [of 1] d [of 2] d [of 3] d [of 4] lt
    unfolding EncodeVarint32_def word_less_nat_alt
    by (simp add: not_le)
qed

lemma unat32: "unat (v :: uint32) < 2 ^ (7 * 4 + 7)"
proof -
  have "unat v < 2 ^ LENGTH(32)"
    by (rule unsigned_less)
  then show ?thesis by simp
qed

lemma unat64: "unat (v :: uint64) < 2 ^ (7 * 9 + 7)"
proof -
  have "unat v < 2 ^ LENGTH(64)"
    by (rule unsigned_less)
  then show ?thesis by simp
qed

lemma length_EncodeVarint32: "length (EncodeVarint32 v) \<le> 5"
  unfolding EncodeVarint32_varint using length_varint [OF _ unat32] by simp

lemma length_EncodeVarint64: "length (EncodeVarint64 v) \<le> 10"
  unfolding EncodeVarint64_varint using length_varint [OF _ unat64] by simp

lemma GetVarint32_Fallback: "p \<noteq> [] \<Longrightarrow> GetVarint32 p = GetVarint32PtrFallback p"
  by (cases p) (simp_all add: GetVarint32_def GetVarint32Ptr_def GetVarint32PtrFallback_def Let_def)

lemma varint_not_Nil [simp]: "varint v \<noteq> []"
  by (subst varint.simps) simp

lemma GetVarint32_Encode: "GetVarint32 (EncodeVarint32 v @ rest) = Some (v, rest)"
  unfolding EncodeVarint32_varint using varint_loop_varint [OF _ _ unat32, of 28 0]
  by (simp add: GetVarint32_Fallback GetVarint32PtrFallback_def)

lemma GetVarint64_Encode: "GetVarint64 (EncodeVarint64 v @ rest) = Some (v, rest)"
  unfolding EncodeVarint64_varint using varint_loop_varint [OF _ _ unat64, of 63 0]
  by (simp add: GetVarint64_def GetVarint64Ptr_def)

text \<open>A number cut short is refused.\<close>

lemma varint_loop_cut:
  fixes v :: "'n::len word"
  assumes "8 \<le> LENGTH('n)" and "varint v = p @ q" and "q \<noteq> []"
  shows "varint_loop m s (r :: 'n word) p = None"
  using assms(2,3)
proof (induction p arbitrary: s r v)
  case (Cons c p)
  then have "128 \<le> unat v"
    by (metis append_Cons append_is_Nil_conv list.inject varint.simps)
  then have "c = byte (v AND 127 OR 128)" "varint (drop_bit 7 v) = p @ q"
    using Cons.prems(1) varint.simps [of v] by simp_all
  with Cons.IH [of "drop_bit 7 v"] Cons.prems(2) more_byte(1) [OF assms(1), of v] show ?case
    by (simp add: unbyte_byte Let_def)
qed simp

lemma GetVarint32_cut: "EncodeVarint32 v = p @ q \<Longrightarrow> q \<noteq> [] \<Longrightarrow> GetVarint32 p = None"
  using varint_loop_cut [of v p q 28 0 0]
  by (cases p) (auto simp: EncodeVarint32_varint GetVarint32_Fallback GetVarint32PtrFallback_def
      GetVarint32_def GetVarint32Ptr_def Let_def split: if_splits)

lemma GetVarint64_cut: "EncodeVarint64 v = p @ q \<Longrightarrow> q \<noteq> [] \<Longrightarrow> GetVarint64 p = None"
  using varint_loop_cut [of v p q 63 0 0]
  by (simp add: EncodeVarint64_varint GetVarint64_def GetVarint64Ptr_def)

lemma GetLengthPrefixedSlice_Put:
  "length value < 2 ^ 32 \<Longrightarrow>
    GetLengthPrefixedSlice (PutLengthPrefixedSlice [] value @ rest) = Some (value, rest)"
  by (simp add: GetLengthPrefixedSlice_def PutLengthPrefixedSlice_def PutVarint32_def GetVarint32_Encode
      unat_of_nat take_bit_eq_mod)

lemma PutLengthPrefixedSlice_append: "PutLengthPrefixedSlice dst value = dst @ PutLengthPrefixedSlice [] value"
  by (simp add: PutLengthPrefixedSlice_def PutVarint32_def)

text \<open>Numbers of fixed length.\<close>

lemma DecodeFixed32_Encode: "DecodeFixed32 (EncodeFixed32 v @ rest) = Some v"
proof -
  have "take_bit 8 v OR push_bit 8 (take_bit 8 (drop_bit 8 v)) OR push_bit 16 (take_bit 8 (drop_bit 16 v)) OR
      push_bit 24 (take_bit 8 (drop_bit 24 v)) = v"
  proof (rule bit_eqI)
    fix n
    assume "possible_bit TYPE(32 word) n"
    then have "n < 8 \<or> 8 \<le> n \<and> n < 16 \<or> 16 \<le> n \<and> n < 24 \<or> 24 \<le> n \<and> n < 32"
      by auto
    then show "bit (take_bit 8 v OR push_bit 8 (take_bit 8 (drop_bit 8 v)) OR
        push_bit 16 (take_bit 8 (drop_bit 16 v)) OR push_bit 24 (take_bit 8 (drop_bit 24 v))) n = bit v n"
      by (elim disjE conjE) (auto simp: bit_take_bit_iff bit_or_iff bit_push_bit_iff bit_drop_bit_eq less_diff_conv2)
  qed
  then show ?thesis
    by (simp add: EncodeFixed32_def unbyte_byte)
qed

lemma byte_bits:
  assumes "\<And>n. n < 8 \<Longrightarrow> bit v n = bit w n"
  shows "byte v = byte w"
proof -
  have "take_bit 8 (unat v) = take_bit 8 (unat w)"
    by (rule bit_eqI) (use assms in \<open>auto simp: bit_take_bit_iff bit_unsigned_iff\<close>)
  then show ?thesis
    unfolding byte_eq_iff by (simp add: take_bit_eq_mod)
qed

lemma EncodeFixed64_32: "EncodeFixed64 v = EncodeFixed32 (ucast v) @ EncodeFixed32 (ucast (drop_bit 32 v))"
proof -
  have "byte (drop_bit (i + j) v) = byte (drop_bit j (ucast (drop_bit i v) :: uint32))" if "j \<le> 24" for i j
    using that by (intro byte_bits) (auto simp: bit_drop_bit_eq bit_ucast_iff ac_simps)
  from this [of 0 0] this [of 8 0] this [of 16 0] this [of 24 0]
    this [of 0 32] this [of 8 32] this [of 16 32] this [of 24 32]
  show ?thesis
    unfolding EncodeFixed64_def EncodeFixed32_def by simp
qed

lemma DecodeFixed64_Encode: "DecodeFixed64 (EncodeFixed64 v @ rest) = Some v"
proof -
  have "push_bit 32 (ucast (ucast (drop_bit 32 v) :: uint32)) OR ucast (ucast v :: uint32) = v"
  proof (rule bit_eqI)
    fix n
    assume "possible_bit TYPE(64 word) n"
    then show "bit (push_bit 32 (ucast (ucast (drop_bit 32 v) :: uint32) :: uint64) OR ucast (ucast v :: uint32)) n = bit v n"
      by (cases "n < 32") (auto simp: bit_or_iff bit_push_bit_iff bit_ucast_iff bit_drop_bit_eq)
  qed
  moreover have "drop 4 (EncodeFixed64 v @ rest) = EncodeFixed32 (ucast (drop_bit 32 v)) @ rest"
    by (simp add: EncodeFixed64_32 EncodeFixed32_def)
  ultimately show ?thesis
    unfolding DecodeFixed64_def by (simp add: EncodeFixed64_32 DecodeFixed32_Encode)
qed



end
