(* ===== verification/Ldb_Format.thy ===== *)
theory Ldb_Format
  imports Ldb_Coding
begin

unbundle bit_operations_syntax

text \<open>
  \<open>slice.h\<close>, \<open>comparator.cc\<close>, \<open>dbformat.h\<close> and \<open>dbformat.cc\<close>: the order of user keys, the internal
  keys, which carry a sequence number and a type behind the user key, and their order.  An internal
  key is the byte string the code keeps.  A failed assertion is \<open>None\<close>.
\<close>

section \<open>Comparators\<close>

text \<open>
  What the code relies on.  The memtable orders its entries by the key inside them, so two entries may
  compare equal: \<open>key_preorder\<close>.  A comparator orders the keys in \<open>ok\<close> totally, a separator lies
  between two keys, a successor is not below its key.
\<close>

locale key_preorder =
  fixes ok :: "'k \<Rightarrow> bool"
    and cmp :: "'k \<Rightarrow> 'k \<Rightarrow> int"
  assumes cmp_refl: "ok a \<Longrightarrow> cmp a a = 0"
    and cmp_swap: "ok a \<Longrightarrow> ok b \<Longrightarrow> cmp a b < 0 \<longleftrightarrow> 0 < cmp b a"
    and cmp_trans: "ok a \<Longrightarrow> ok b \<Longrightarrow> ok c \<Longrightarrow> cmp a b < 0 \<Longrightarrow> cmp b c < 0 \<Longrightarrow> cmp a c < 0"
    and cmp_equiv: "ok a \<Longrightarrow> ok b \<Longrightarrow> ok c \<Longrightarrow> cmp a b = 0 \<Longrightarrow> cmp c a < 0 \<longleftrightarrow> cmp c b < 0"
begin

lemma cmp_not_less: "ok a \<Longrightarrow> ok b \<Longrightarrow> \<not> cmp a b < 0 \<Longrightarrow> cmp b a \<noteq> 0 \<Longrightarrow> cmp b a < 0"
  by (metis cmp_swap not_less_iff_gr_or_eq)

end

locale key_order =
  fixes ok :: "'k \<Rightarrow> bool"
    and cmp :: "'k \<Rightarrow> 'k \<Rightarrow> int"
  assumes cmp_eq: "ok a \<Longrightarrow> ok b \<Longrightarrow> cmp a b = 0 \<longleftrightarrow> a = b"
    and cmp_less_swap: "ok a \<Longrightarrow> ok b \<Longrightarrow> cmp a b < 0 \<longleftrightarrow> 0 < cmp b a"
    and cmp_less_trans: "ok a \<Longrightarrow> ok b \<Longrightarrow> ok c \<Longrightarrow> cmp a b < 0 \<Longrightarrow> cmp b c < 0 \<Longrightarrow> cmp a c < 0"
begin

text \<open>Keys kept inside other objects order these objects.\<close>

lemma preorder_by:
  assumes "\<And>e. okE e \<Longrightarrow> ok (f e)"
  shows "key_preorder okE (\<lambda>a b. cmp (f a) (f b))"
proof
  fix a b c
  assume ab: "okE a" "okE b"
  show "cmp (f a) (f a) = 0"
    using cmp_eq [of "f a" "f a"] assms ab(1) by simp
  show "cmp (f a) (f b) < 0 \<longleftrightarrow> 0 < cmp (f b) (f a)"
    using cmp_less_swap assms ab by blast
  show "okE c \<Longrightarrow> cmp (f a) (f b) < 0 \<Longrightarrow> cmp (f b) (f c) < 0 \<Longrightarrow> cmp (f a) (f c) < 0"
    using cmp_less_trans assms ab by blast
  show "okE c \<Longrightarrow> cmp (f a) (f b) = 0 \<Longrightarrow> cmp (f c) (f a) < 0 \<longleftrightarrow> cmp (f c) (f b) < 0"
    using cmp_eq [of "f a" "f b"] assms ab by simp
qed

end

sublocale key_order \<subseteq> key_preorder
  using preorder_by [of ok "\<lambda>k. k"] by simp

locale comparator = key_order ok cmp
  for ok :: "'k \<Rightarrow> bool" and cmp :: "'k \<Rightarrow> 'k \<Rightarrow> int" +
  fixes sep :: "'k \<Rightarrow> 'k \<Rightarrow> 'k option"
    and successor :: "'k \<Rightarrow> 'k option"
  assumes sep_law: "ok s \<Longrightarrow> ok l \<Longrightarrow> cmp s l < 0 \<Longrightarrow>
      \<exists>t. sep s l = Some t \<and> ok t \<and> cmp s t \<le> 0 \<and> cmp t l < 0"
    and sep_same: "ok s \<Longrightarrow> sep s s = Some s"
    and successor_law: "ok s \<Longrightarrow> \<exists>t. successor s = Some t \<and> ok t \<and> cmp s t \<le> 0"

section \<open>Slices and the bytewise comparator\<close>

text \<open>The sign of \<open>memcmp\<close> of the first \<open>n\<close> bytes.\<close>

fun memcmp :: "string \<Rightarrow> string \<Rightarrow> nat \<Rightarrow> int" where
  "memcmp (a # as) (b # bs) (Suc n) =
     (if a = b then memcmp as bs n else if (of_char a :: nat) < of_char b then -1 else 1)"
| "memcmp _ _ _ = 0"

definition Slice_compare :: "string \<Rightarrow> string \<Rightarrow> int" where
  "Slice_compare a b =
     (let min_len = (if length a < length b then length a else length b);
          r = memcmp a b min_len
      in if r = 0 then
           (if length a < length b then -1 else if length a > length b then 1 else r)
         else r)"

definition Slice_starts_with :: "string \<Rightarrow> string \<Rightarrow> bool" where
  "Slice_starts_with s x \<longleftrightarrow> length s \<ge> length x \<and> memcmp s x (length x) = 0"

definition Slice_eq :: "string \<Rightarrow> string \<Rightarrow> bool" where
  "Slice_eq x y \<longleftrightarrow> length x = length y \<and> memcmp x y (length x) = 0"

definition Bytewise_Compare :: "string \<Rightarrow> string \<Rightarrow> int" where
  "Bytewise_Compare a b = Slice_compare a b"

fun diff_index :: "string \<Rightarrow> string \<Rightarrow> nat" where
  "diff_index (a # as) (b # bs) = (if a = b then Suc (diff_index as bs) else 0)"
| "diff_index _ _ = 0"

definition Bytewise_FindShortestSeparator :: "string \<Rightarrow> string \<Rightarrow> string option" where
  "Bytewise_FindShortestSeparator start limit =
     (let min_length = min (length start) (length limit);
          d = diff_index start limit
      in if d \<ge> min_length then Some start
         else let diff_byte = (of_char (start ! d) :: nat) in
           if diff_byte < 255 \<and> diff_byte + 1 < of_char (limit ! d) then
             let start' = take (d + 1) (start[d := char_of (diff_byte + 1)]) in
             if Bytewise_Compare start' limit < 0 then Some start' else None
           else Some start)"

definition Bytewise_FindShortSuccessor :: "string \<Rightarrow> string option" where
  "Bytewise_FindShortSuccessor key =
     (case find (\<lambda>i. of_char (key ! i) \<noteq> (255 :: nat)) [0 ..< length key] of
        Some i \<Rightarrow> Some (take (i + 1) (key[i := char_of (of_char (key ! i) + 1 :: nat)]))
      | None \<Rightarrow> Some key)"

lemma Slice_compare_Cons:
  "Slice_compare (a # as) (b # bs) =
     (if a = b then Slice_compare as bs else if (of_char a :: nat) < of_char b then -1 else 1)"
  by (auto simp: Slice_compare_def Let_def)

lemma Slice_compare_Nil [simp]:
  "Slice_compare [] b = (if b = [] then 0 else -1)" "Slice_compare a [] = (if a = [] then 0 else 1)"
  by (auto simp: Slice_compare_def)

lemma Slice_compare_refl [simp]: "Slice_compare a a = 0"
  by (induction a) (auto simp: Slice_compare_Cons)

lemma Nil_less_iff: "[] < (xs :: 'a::linorder list) \<longleftrightarrow> xs \<noteq> []"
  by (cases xs) simp_all

lemma Slice_compare_less: "Slice_compare a b < 0 \<longleftrightarrow> a < b"
  by (induction a b rule: diff_index.induct)
    (auto simp: Slice_compare_Cons less_char_def Nil_less_iff split: if_splits)

lemma Slice_compare_zero: "Slice_compare a b = 0 \<longleftrightarrow> a = b"
  by (induction a b rule: diff_index.induct) (auto simp: Slice_compare_Cons split: if_splits)

lemma Slice_compare_pos: "0 < Slice_compare a b \<longleftrightarrow> b < a"
  using Slice_compare_less [of a b] Slice_compare_zero [of a b]
  by (metis linorder_less_linear order_less_asym)

lemma memcmp_zero: "n \<le> length a \<Longrightarrow> n \<le> length b \<Longrightarrow> memcmp a b n = 0 \<longleftrightarrow> take n a = take n b"
  by (induction a b n rule: memcmp.induct) auto

lemma Slice_eq_iff: "Slice_eq x y \<longleftrightarrow> x = y"
  using memcmp_zero [of "length x" x y] by (auto simp: Slice_eq_def)

lemma Slice_starts_with_iff: "Slice_starts_with s x \<longleftrightarrow> (\<exists>y. s = x @ y)"
proof -
  have "take (length x) s = x \<longleftrightarrow> (\<exists>y. s = x @ y)"
    by (metis append_take_drop_id append_eq_conv_conj)
  then show ?thesis
    using memcmp_zero [of "length x" s x] by (auto simp: Slice_starts_with_def)
qed

lemma diff_index_split:
  assumes "diff_index s l < min (length s) (length l)"
  obtains p a s' b l' where "s = p @ a # s'" "l = p @ b # l'" "a \<noteq> b" "diff_index s l = length p"
proof -
  have "\<exists>p a s' b l'. s = p @ a # s' \<and> l = p @ b # l' \<and> a \<noteq> b \<and> diff_index s l = length p"
    using assms
  proof (induction s l rule: diff_index.induct)
    case (1 a as b bs)
    show ?case
    proof (cases "a = b")
      case True
      with 1 obtain p a' s' b' l' where
        "as = p @ a' # s'" "bs = p @ b' # l'" "a' \<noteq> b'" "diff_index as bs = length p"
        by auto
      with True show ?thesis
        by (intro exI [of _ "a # p"]) auto
    next
      case False
      then show ?thesis
        by (intro exI [of _ "[]"]) auto
    qed
  qed auto
  then show ?thesis
    using that by blast
qed

lemma append_less_append [simp]: "(p @ s < p @ t) \<longleftrightarrow> s < (t :: 'a::linorder list)"
  by (induction p) auto

lemma of_char_lt_256: "(of_char c :: nat) < 256"
  by (metis of_char_mod_256 mod_less_divisor zero_less_numeral)

lemma char_of_succ:
  assumes "(of_char c :: nat) < 255"
  shows "of_char (char_of (of_char c + 1 :: nat)) = (of_char c + 1 :: nat)" and "c < char_of (of_char c + 1 :: nat)"
  using assms by (simp_all add: less_char_def take_bit_eq_mod)

lemma Bytewise_sep:
  assumes "Bytewise_Compare s l < 0"
  shows "\<exists>t. Bytewise_FindShortestSeparator s l = Some t \<and> Bytewise_Compare s t \<le> 0 \<and> Bytewise_Compare t l < 0"
proof (cases "diff_index s l \<ge> min (length s) (length l)")
  case True
  then show ?thesis
    using assms by (auto simp: Bytewise_FindShortestSeparator_def Bytewise_Compare_def Slice_compare_zero)
next
  case False
  then obtain p a s' b l' where s: "s = p @ a # s'" "l = p @ b # l'" "a \<noteq> b" "diff_index s l = length p"
    by (meson diff_index_split not_le)
  let ?c = "char_of (of_char a + 1 :: nat) :: char"
  show ?thesis
  proof (cases "(of_char a :: nat) < 255 \<and> of_char a + 1 < (of_char b :: nat)")
    case c: True
    then have "?c < b" "a < ?c"
      using char_of_succ [of a] by (simp_all add: less_char_def)
    then have "s < p @ [?c]" "p @ [?c] < l"
      unfolding s by simp_all
    moreover have "Bytewise_FindShortestSeparator s l = Some (p @ [?c])"
      using False c \<open>p @ [?c] < l\<close> s
      by (simp add: Bytewise_FindShortestSeparator_def Bytewise_Compare_def Slice_compare_less)
    ultimately show ?thesis
      by (auto simp: Bytewise_Compare_def Slice_compare_less intro: less_imp_le)
  next
    case False
    then have "Bytewise_FindShortestSeparator s l = Some s"
      using s by (auto simp: Bytewise_FindShortestSeparator_def Let_def)
    then show ?thesis
      using assms by (simp add: Bytewise_Compare_def Slice_compare_zero)
  qed
qed

lemma Bytewise_succ:
  "\<exists>t. Bytewise_FindShortSuccessor s = Some t \<and> Bytewise_Compare s t \<le> 0"
proof (cases "find (\<lambda>i. of_char (s ! i) \<noteq> (255 :: nat)) [0 ..< length s]")
  case None
  then show ?thesis
    by (simp add: Bytewise_FindShortSuccessor_def Bytewise_Compare_def Slice_compare_zero)
next
  case (Some i)
  then have i: "i < length s" "of_char (s ! i) \<noteq> (255 :: nat)"
    by (auto simp: find_Some_iff)
  let ?c = "char_of (of_char (s ! i) + 1 :: nat) :: char"
  have "of_char (s ! i) < (255 :: nat)"
    using i(2) of_char_lt_256 [of "s ! i"] by linarith
  then have "s ! i < ?c"
    by (rule char_of_succ)
  then have "take i s @ s ! i # drop (Suc i) s < take i s @ [?c]"
    by simp
  moreover have "take (i + 1) (s[i := ?c]) = take i s @ [?c]"
    using i(1) by (simp add: take_Suc_conv_app_nth)
  ultimately show ?thesis
    using Some i(1)
    by (simp add: Bytewise_FindShortSuccessor_def Bytewise_Compare_def id_take_nth_drop [symmetric]
        less_imp_le Slice_compare_less)
qed


text \<open>User keys, ordered by bytes: every string is a key.\<close>

locale user_comparator = comparator "\<lambda>_ :: string. True" cmp sep successor
  for cmp sep successor

interpretation bytewise: user_comparator Bytewise_Compare Bytewise_FindShortestSeparator Bytewise_FindShortSuccessor
proof
  fix a b c s l :: string
  show "Bytewise_Compare a b = 0 \<longleftrightarrow> a = b"
    by (simp add: Bytewise_Compare_def Slice_compare_zero)
  show "Bytewise_Compare a b < 0 \<longleftrightarrow> 0 < Bytewise_Compare b a"
    by (simp add: Bytewise_Compare_def Slice_compare_less Slice_compare_pos)
  show "Bytewise_Compare a b < 0 \<Longrightarrow> Bytewise_Compare b c < 0 \<Longrightarrow> Bytewise_Compare a c < 0"
    by (simp add: Bytewise_Compare_def Slice_compare_less)
  show "Bytewise_Compare s l < 0 \<Longrightarrow> \<exists>t. Bytewise_FindShortestSeparator s l = Some t \<and> True \<and>
      Bytewise_Compare s t \<le> 0 \<and> Bytewise_Compare t l < 0"
    using Bytewise_sep by simp
  have "diff_index s s = length s"
    by (induction s) auto
  then show "Bytewise_FindShortestSeparator s s = Some s"
    by (simp add: Bytewise_FindShortestSeparator_def)
  show "\<exists>t. Bytewise_FindShortSuccessor s = Some t \<and> True \<and> Bytewise_Compare s t \<le> 0"
    using Bytewise_succ by simp
qed

section \<open>Internal keys\<close>

datatype ValueType = kTypeDeletion | kTypeValue

definition kValueTypeForSeek :: ValueType where
  "kValueTypeForSeek = kTypeValue"

fun type_num :: "ValueType \<Rightarrow> uint64" where
  "type_num kTypeDeletion = 0"
| "type_num kTypeValue = 1"

definition kMaxSequenceNumber :: uint64 where
  "kMaxSequenceNumber = push_bit 56 1 - 1"

record ParsedInternalKey =
  user_key :: string
  sequence :: uint64
  vtype :: ValueType

definition PackSequenceAndType :: "uint64 \<Rightarrow> ValueType \<Rightarrow> uint64 option" where
  "PackSequenceAndType seq t =
     (if seq \<le> kMaxSequenceNumber then Some (push_bit 8 seq OR type_num t) else None)"

definition InternalKeyEncodingLength :: "ParsedInternalKey \<Rightarrow> nat" where
  "InternalKeyEncodingLength key = length (user_key key) + 8"

definition AppendInternalKey :: "string \<Rightarrow> ParsedInternalKey \<Rightarrow> string option" where
  "AppendInternalKey result key =
     (case PackSequenceAndType (sequence key) (vtype key) of
        None \<Rightarrow> None
      | Some n \<Rightarrow> Some (PutFixed64 (result @ user_key key) n))"

definition ExtractUserKey :: "string \<Rightarrow> string option" where
  "ExtractUserKey internal_key =
     (if length internal_key \<ge> 8 then Some (take (length internal_key - 8) internal_key) else None)"

text \<open>The type behind the key, from the low byte; a byte that is no type is cast unchecked, \<open>None\<close>.\<close>

fun type_of_byte :: "nat \<Rightarrow> ValueType option" where
  "type_of_byte c = (if c = 0 then Some kTypeDeletion else if c = 1 then Some kTypeValue else None)"

declare type_of_byte.simps [simp del]

definition ExtractValueType :: "string \<Rightarrow> ValueType option" where
  "ExtractValueType internal_key =
     (if length internal_key \<ge> 8 then
        (case DecodeFixed64 (drop (length internal_key - 8) internal_key) of
           None \<Rightarrow> None
         | Some num \<Rightarrow> type_of_byte (unat (num AND 0xff)))
      else None)"

definition ParseInternalKey :: "string \<Rightarrow> ParsedInternalKey option" where
  "ParseInternalKey internal_key =
     (let n = length internal_key in
      if n < 8 then None
      else (case DecodeFixed64 (drop (n - 8) internal_key) of
         None \<Rightarrow> None
       | Some num \<Rightarrow>
           (case type_of_byte (unat (num AND 0xff)) of
              None \<Rightarrow> None
            | Some t \<Rightarrow> Some \<lparr>user_key = take (n - 8) internal_key, sequence = drop_bit 8 num, vtype = t\<rparr>)))"

definition InternalKeyComparator_Compare ::
  "(string \<Rightarrow> string \<Rightarrow> int) \<Rightarrow> string \<Rightarrow> string \<Rightarrow> int option" where
  "InternalKeyComparator_Compare user_cmp akey bkey =
     do { ua \<leftarrow> ExtractUserKey akey;
          ub \<leftarrow> ExtractUserKey bkey;
          let r = user_cmp ua ub in
          if r = 0 then
            do { anum \<leftarrow> DecodeFixed64 (drop (length akey - 8) akey);
                 bnum \<leftarrow> DecodeFixed64 (drop (length bkey - 8) bkey);
                 Some (if anum > bnum then -1 else if anum < bnum then 1 else r) }
          else Some r }"

text \<open>The comparator as the code passes it on, for keys that satisfy its assertion.\<close>

definition internal_cmp :: "(string \<Rightarrow> string \<Rightarrow> int) \<Rightarrow> string \<Rightarrow> string \<Rightarrow> int" where
  "internal_cmp user_cmp a b = the (InternalKeyComparator_Compare user_cmp a b)"

definition is_internal :: "string \<Rightarrow> bool" where
  "is_internal k \<longleftrightarrow> length k \<ge> 8"

definition Internal_FindShortestSeparator ::
  "(string \<Rightarrow> string \<Rightarrow> int) \<Rightarrow> (string \<Rightarrow> string \<Rightarrow> string option) \<Rightarrow> string \<Rightarrow> string \<Rightarrow> string option" where
  "Internal_FindShortestSeparator user_cmp user_sep start limit =
     do { user_start \<leftarrow> ExtractUserKey start;
          user_limit \<leftarrow> ExtractUserKey limit;
          tmp \<leftarrow> user_sep user_start user_limit;
          if length tmp < length user_start \<and> user_cmp user_start tmp < 0 then
            do { n \<leftarrow> PackSequenceAndType kMaxSequenceNumber kValueTypeForSeek;
                 let tmp' = PutFixed64 tmp n in
                 do { c1 \<leftarrow> InternalKeyComparator_Compare user_cmp start tmp';
                      c2 \<leftarrow> InternalKeyComparator_Compare user_cmp tmp' limit;
                      if c1 < 0 \<and> c2 < 0 then Some tmp' else None } }
          else Some start }"

definition Internal_FindShortSuccessor ::
  "(string \<Rightarrow> string \<Rightarrow> int) \<Rightarrow> (string \<Rightarrow> string option) \<Rightarrow> string \<Rightarrow> string option" where
  "Internal_FindShortSuccessor user_cmp user_succ key =
     do { ukey \<leftarrow> ExtractUserKey key;
          tmp \<leftarrow> user_succ ukey;
          if length tmp < length ukey \<and> user_cmp ukey tmp < 0 then
            do { n \<leftarrow> PackSequenceAndType kMaxSequenceNumber kValueTypeForSeek;
                 let tmp' = PutFixed64 tmp n in
                 do { c \<leftarrow> InternalKeyComparator_Compare user_cmp key tmp';
                      if c < 0 then Some tmp' else None } }
          else Some key }"

text \<open>\<open>LookupKey\<close>: the buffer, and where the internal key starts in it.\<close>

record LookupKey =
  lk_start :: string
  lk_kstart :: nat

definition make_LookupKey :: "string \<Rightarrow> uint64 \<Rightarrow> LookupKey option" where
  "make_LookupKey ukey s =
     (let usize = length ukey;
          len = EncodeVarint32 (of_nat (usize + 8))
      in (case PackSequenceAndType s kValueTypeForSeek of
            None \<Rightarrow> None
          | Some n \<Rightarrow> Some \<lparr>lk_start = len @ ukey @ EncodeFixed64 n, lk_kstart = length len\<rparr>))"

definition memtable_key :: "LookupKey \<Rightarrow> string" where
  "memtable_key k = lk_start k"

definition internal_key :: "LookupKey \<Rightarrow> string" where
  "internal_key k = drop (lk_kstart k) (lk_start k)"

definition lookup_user_key :: "LookupKey \<Rightarrow> string" where
  "lookup_user_key k = take (length (internal_key k) - 8) (internal_key k)"

section \<open>Packing and parsing\<close>

lemma bit_unbyte: "bit (unbyte c :: 'n::len word) n \<Longrightarrow> n < 8"
proof -
  assume "bit (unbyte c :: 'n word) n"
  then have "bit (of_char c :: nat) n"
    by (simp add: unbyte_def bit_of_nat_iff)
  moreover have "take_bit 8 (of_char c :: nat) = of_char c"
    by (simp add: take_bit_eq_mod)
  ultimately show "n < 8"
    by (metis bit_take_bit_iff)
qed

lemma byte_unbyte: "8 \<le> LENGTH('n::len) \<Longrightarrow> byte (unbyte c :: 'n word) = c"
proof -
  assume "8 \<le> LENGTH('n)"
  then have "(2::nat) ^ 8 \<le> 2 ^ LENGTH('n)"
    by (intro power_increasing) auto
  then have "of_char c < (2::nat) ^ LENGTH('n)"
    using order.strict_trans2 [OF of_char_lt_256 [of c], of "2 ^ LENGTH('n)"] by simp
  then have "unat (unbyte c :: 'n word) = of_char c"
    by (simp add: unbyte_def unat_of_nat take_bit_eq_mod)
  then show ?thesis
    by (simp add: byte_def)
qed

lemma EncodeFixed32_Decode: "DecodeFixed32 [a, b, c, d] = Some v \<Longrightarrow> EncodeFixed32 v = [a, b, c, d]"
proof -
  assume "DecodeFixed32 [a, b, c, d] = Some v"
  then have v: "v = unbyte a OR push_bit 8 (unbyte b) OR push_bit 16 (unbyte c) OR push_bit 24 (unbyte d)"
    by simp
  note bits = bit_or_iff bit_push_bit_iff bit_drop_bit_eq
  have "byte v = byte (unbyte a :: uint32)" "byte (drop_bit 8 v) = byte (unbyte b :: uint32)"
    "byte (drop_bit 16 v) = byte (unbyte c :: uint32)" "byte (drop_bit 24 v) = byte (unbyte d :: uint32)"
    unfolding v by (rule byte_bits; auto simp: bits dest: bit_unbyte)+
  then show ?thesis
    by (simp add: EncodeFixed32_def byte_unbyte)
qed

lemma DecodeFixed64_inj:
  assumes "DecodeFixed64 s = Some v" "DecodeFixed64 t = Some v" "length s = 8" "length t = 8"
  shows "s = t"
proof -
  have e: "EncodeFixed64 v = r" if r: "DecodeFixed64 r = Some v" "length r = 8" for r
  proof -
    obtain a b c d x where "r = a # b # c # d # x" "length x = 4"
      using r(2) by (auto simp: length_Suc_conv numeral_eq_Suc)
    moreover obtain e f g h where "x = [e, f, g, h]"
      using \<open>length x = 4\<close> by (auto simp: length_Suc_conv numeral_eq_Suc)
    ultimately have rr: "r = [a, b, c, d, e, f, g, h]" by simp
    obtain lo hi where lh: "DecodeFixed32 [a, b, c, d] = Some lo" "DecodeFixed32 [e, f, g, h] = Some hi"
      by simp
    have v: "v = push_bit 32 (ucast hi) OR ucast lo"
      using r(1) lh by (simp add: rr DecodeFixed64_def)
    have "ucast v = lo" "ucast (drop_bit 32 v) = hi"
      unfolding v by (rule bit_eqI; auto simp: bit_ucast_iff bit_or_iff bit_push_bit_iff bit_drop_bit_eq
          dest: bit_imp_le_length)+
    then show ?thesis
      using EncodeFixed32_Decode [OF lh(1)] EncodeFixed32_Decode [OF lh(2)]
      by (simp add: EncodeFixed64_32 rr)
  qed
  show ?thesis
    using e [OF assms(1,3)] e [OF assms(2,4)] by simp
qed

lemma length_EncodeFixed64 [simp]: "length (EncodeFixed64 v) = 8"
  by (simp add: EncodeFixed64_def)

lemma DecodeFixed64_total: "length s \<ge> 8 \<Longrightarrow> \<exists>v. DecodeFixed64 s = Some v"
proof -
  assume "length s \<ge> 8"
  then obtain a b c d x where "s = a # b # c # d # x" "length x \<ge> 4"
    by (auto simp: Suc_le_length_iff numeral_eq_Suc)
  moreover obtain e f g h y where "x = e # f # g # h # y"
    using \<open>length x \<ge> 4\<close> by (auto simp: Suc_le_length_iff numeral_eq_Suc)
  ultimately show ?thesis
    by (simp add: DecodeFixed64_def)
qed

definition seq_type :: "uint64 \<Rightarrow> ValueType \<Rightarrow> uint64" where
  "seq_type s t = push_bit 8 s OR type_num t"

lemma seq_le_max: "s \<le> kMaxSequenceNumber \<longleftrightarrow> unat s < 2 ^ 56"
  by (auto simp: kMaxSequenceNumber_def word_le_nat_alt push_bit_eq_mult)

lemma unat_type_num: "unat (type_num t) < 2"
  by (cases t) simp_all

lemma unat_seq_type:
  assumes "s \<le> kMaxSequenceNumber"
  shows "unat (seq_type s t) = 256 * unat s + unat (type_num t)"
proof -
  have "push_bit 8 s AND type_num t = 0"
    by (rule bit_eqI) (cases t; auto simp: bit_and_iff bit_push_bit_iff bit_1_iff)
  then have "seq_type s t = push_bit 8 s + type_num t"
    by (simp add: seq_type_def disjunctive_add_eq_or)
  moreover have "unat (push_bit 8 s) = 256 * unat s"
    using assms by (simp add: seq_le_max push_bit_eq_mult unat_word_ariths)
  ultimately show ?thesis
    using assms unat_type_num [of t] by (simp add: seq_le_max unat_add_no_wrap)
qed

lemma seq_type_parts:
  assumes "s \<le> kMaxSequenceNumber"
  shows "drop_bit 8 (seq_type s t) = s" and "type_of_byte (unat (seq_type s t AND 0xff)) = Some t"
proof -
  have "unat (drop_bit 8 (seq_type s t)) = unat s"
    unfolding unat_drop_bit_eq using unat_seq_type [OF assms, of t] unat_type_num [of t]
    by (simp add: drop_bit_eq_div)
  then show "drop_bit 8 (seq_type s t) = s"
    by (simp add: word_unat_eq_iff)
  have "seq_type s t AND 0xff = take_bit 8 (seq_type s t)"
    by (simp add: take_bit_eq_mask mask_eq_exp_minus_1)
  then have "unat (seq_type s t AND 0xff) = unat (seq_type s t) mod 256"
    by (simp only: unsigned_take_bit_eq) (simp add: take_bit_eq_mod)
  also have "\<dots> = unat (type_num t)"
    using unat_seq_type [OF assms, of t] unat_type_num [of t] by simp
  finally show "type_of_byte (unat (seq_type s t AND 0xff)) = Some t"
    by (cases t) (simp_all add: type_of_byte.simps)
qed

lemma PackSequenceAndType_iff:
  "PackSequenceAndType s t = (if s \<le> kMaxSequenceNumber then Some (seq_type s t) else None)"
  by (simp add: PackSequenceAndType_def seq_type_def)

text \<open>An internal key is the user key and the number behind it.\<close>

definition make_internal :: "string \<Rightarrow> uint64 \<Rightarrow> string" where
  "make_internal u n = u @ EncodeFixed64 n"

lemma is_internal_make [simp]: "is_internal (make_internal u n)"
  by (simp add: is_internal_def make_internal_def)

lemma ExtractUserKey_make [simp]: "ExtractUserKey (make_internal u n) = Some u"
  by (simp add: ExtractUserKey_def make_internal_def)

lemma decode_make [simp]:
  "DecodeFixed64 (drop (length (make_internal u n) - 8) (make_internal u n)) = Some n"
  using DecodeFixed64_Encode [of n "[]"] by (simp add: make_internal_def)

lemma take_make [simp]: "take (length (make_internal u n) - 8) (make_internal u n) = u"
  by (simp add: make_internal_def)

lemma is_internal_cases:
  assumes "is_internal k"
  obtains u n where "k = make_internal u n"
proof -
  let ?u = "take (length k - 8) k" and ?t = "drop (length k - 8) k"
  have t: "length ?t = 8"
    using assms by (simp add: is_internal_def)
  then obtain n where n: "DecodeFixed64 ?t = Some n"
    using DecodeFixed64_total [of ?t] by auto
  then have "?t = EncodeFixed64 n"
    using DecodeFixed64_inj [OF n _ t, of "EncodeFixed64 n"] DecodeFixed64_Encode [of n "[]"] by simp
  then have "k = make_internal ?u n"
    unfolding make_internal_def by (metis append_take_drop_id)
  then show ?thesis
    by (rule that)
qed

lemma make_internal_inject [simp]: "make_internal u n = make_internal v m \<longleftrightarrow> u = v \<and> n = m"
  by (metis ExtractUserKey_make decode_make option.inject)

lemma AppendInternalKey_make:
  "AppendInternalKey result key =
     (if sequence key \<le> kMaxSequenceNumber
      then Some (result @ make_internal (user_key key) (seq_type (sequence key) (vtype key))) else None)"
  by (simp add: AppendInternalKey_def PackSequenceAndType_iff PutFixed64_def make_internal_def)

lemma ParseInternalKey_make:
  "ParseInternalKey (make_internal u n) =
     (case type_of_byte (unat (n AND 0xff)) of None \<Rightarrow> None
      | Some t \<Rightarrow> Some \<lparr>user_key = u, sequence = drop_bit 8 n, vtype = t\<rparr>)"
  using is_internal_make [of u n]
  by (simp add: ParseInternalKey_def is_internal_def Let_def split: option.split)

lemma Compare_make:
  "InternalKeyComparator_Compare user_cmp (make_internal u n) (make_internal v m) =
     Some (if user_cmp u v = 0 then (if n > m then -1 else if n < m then 1 else 0) else user_cmp u v)"
  by (simp add: InternalKeyComparator_Compare_def Let_def)

lemma internal_cmp_make:
  "internal_cmp user_cmp (make_internal u n) (make_internal v m) =
     (if user_cmp u v = 0 then (if n > m then -1 else if n < m then 1 else 0) else user_cmp u v)"
  by (simp add: internal_cmp_def Compare_make)

section \<open>The order of internal keys\<close>

context user_comparator
begin

lemma internal_less:
  "internal_cmp cmp (make_internal u n) (make_internal v m) < 0 \<longleftrightarrow> cmp u v < 0 \<or> u = v \<and> m < n"
  using cmp_eq [of u v] by (auto simp: internal_cmp_make)

lemma internal_eq:
  "internal_cmp cmp (make_internal u n) (make_internal v m) = 0 \<longleftrightarrow> u = v \<and> n = m"
  using cmp_eq [of u v] by (auto simp: internal_cmp_make)

lemma internal_key_order: "key_order is_internal (internal_cmp cmp)"
proof
  fix a b c
  assume "is_internal a" "is_internal b"
  then obtain u n v m where ab: "a = make_internal u n" "b = make_internal v m"
    by (meson is_internal_cases)
  show "internal_cmp cmp a b = 0 \<longleftrightarrow> a = b"
    by (simp add: ab internal_eq)
  show "internal_cmp cmp a b < 0 \<longleftrightarrow> 0 < internal_cmp cmp b a"
    using cmp_swap [of u v] cmp_eq [of u v] cmp_eq [of v u] unfolding ab internal_less
    by (auto simp: internal_cmp_make)
  show "internal_cmp cmp a c < 0"
    if ic: "is_internal c" "internal_cmp cmp a b < 0" "internal_cmp cmp b c < 0"
  proof -
    obtain w l where c: "c = make_internal w l"
      using ic(1) by (rule is_internal_cases)
    show ?thesis
      using ic(2,3) cmp_trans [of u v w] unfolding ab c internal_less by auto
  qed
qed

text \<open>Neither assertion of the separator can fail, and what it returns lies between the two keys.\<close>

lemma internal_sep:
  assumes "is_internal s" "is_internal l" "internal_cmp cmp s l < 0"
  shows "\<exists>t. Internal_FindShortestSeparator cmp sep s l = Some t \<and> is_internal t \<and>
    internal_cmp cmp s t \<le> 0 \<and> internal_cmp cmp t l < 0"
proof -
  obtain u n v m where sl: "s = make_internal u n" "l = make_internal v m"
    using assms(1,2) by (meson is_internal_cases)
  let ?n = "seq_type kMaxSequenceNumber kValueTypeForSeek"
  obtain t where t: "sep u v = Some t" and tb: "cmp u t < 0 \<Longrightarrow> cmp t v < 0"
  proof (cases "cmp u v < 0")
    case True
    then show ?thesis
      using sep_law [of u v] that by auto
  next
    case False
    then have "u = v"
      using assms(3) unfolding sl internal_less by simp
    then show ?thesis
      using sep_same [of u] cmp_refl [of u] that [of u] by simp
  qed
  show ?thesis
  proof (cases "length t < length u \<and> cmp u t < 0")
    case True
    have "internal_cmp cmp s (make_internal t ?n) < 0" "internal_cmp cmp (make_internal t ?n) l < 0"
      using True tb unfolding sl internal_less by simp_all
    moreover from this have "Internal_FindShortestSeparator cmp sep s l = Some (make_internal t ?n)"
      using True t
      by (simp add: sl Internal_FindShortestSeparator_def PackSequenceAndType_iff PutFixed64_def
          make_internal_def [symmetric] Compare_make internal_cmp_make Let_def)
    ultimately show ?thesis
      by (intro exI [of _ "make_internal t ?n"]) simp
  next
    case False
    then have "Internal_FindShortestSeparator cmp sep s l = Some s"
      using t by (auto simp: sl Internal_FindShortestSeparator_def)
    moreover have "internal_cmp cmp s s = 0"
      unfolding sl internal_eq by simp
    ultimately show ?thesis
      using assms by auto
  qed
qed

lemma internal_succ:
  assumes "is_internal s"
  shows "\<exists>t. Internal_FindShortSuccessor cmp successor s = Some t \<and> is_internal t \<and> internal_cmp cmp s t \<le> 0"
proof -
  obtain u n where s: "s = make_internal u n"
    using assms by (rule is_internal_cases)
  let ?n = "seq_type kMaxSequenceNumber kValueTypeForSeek"
  obtain t where t: "successor u = Some t"
    using successor_law [of u] by auto
  show ?thesis
  proof (cases "length t < length u \<and> cmp u t < 0")
    case True
    have "internal_cmp cmp s (make_internal t ?n) < 0"
      using True unfolding s internal_less by simp
    moreover from this have "Internal_FindShortSuccessor cmp successor s = Some (make_internal t ?n)"
      using True t
      by (simp add: s Internal_FindShortSuccessor_def PackSequenceAndType_iff PutFixed64_def
          make_internal_def [symmetric] Compare_make internal_cmp_make Let_def)
    ultimately show ?thesis
      by (intro exI [of _ "make_internal t ?n"]) simp
  next
    case False
    then have "Internal_FindShortSuccessor cmp successor s = Some s"
      using t by (auto simp: s Internal_FindShortSuccessor_def)
    moreover have "internal_cmp cmp s s = 0"
      unfolding s internal_eq by simp
    ultimately show ?thesis
      using assms by auto
  qed
qed

lemma internal_sep_same:
  assumes "is_internal s"
  shows "Internal_FindShortestSeparator cmp sep s s = Some s"
proof -
  obtain u n where s: "s = make_internal u n"
    using assms by (rule is_internal_cases)
  show ?thesis
    using sep_same [of u] by (simp add: s Internal_FindShortestSeparator_def)
qed

end

sublocale user_comparator \<subseteq> internal: comparator is_internal "internal_cmp cmp"
  "Internal_FindShortestSeparator cmp sep" "Internal_FindShortSuccessor cmp successor"
  by (intro comparator.intro comparator_axioms.intro internal_key_order internal_sep internal_sep_same
      internal_succ)

section \<open>Lookup keys\<close>

lemma make_LookupKey_parts:
  assumes "s \<le> kMaxSequenceNumber"
  shows "\<exists>k. make_LookupKey u s = Some k \<and>
    memtable_key k = EncodeVarint32 (of_nat (length u + 8)) @ internal_key k \<and>
    internal_key k = make_internal u (seq_type s kTypeValue) \<and> lookup_user_key k = u"
  using assms
  by (simp add: make_LookupKey_def Let_def PackSequenceAndType_iff memtable_key_def internal_key_def
      lookup_user_key_def make_internal_def kValueTypeForSeek_def)

section \<open>The order and the separators, for bytewise user keys\<close>

text \<open>
  Claim C39: Internal keys order the versions of a key from young to old.  Two keys whose sequence numbers fit
  56 bits are written and parsed back; comparing their bytes compares the user keys, then prefers the larger
  sequence number, then a value over a deletion, and finds them equal only when they are.
\<close>

theorem internal_keys_versioned:
  assumes "sequence a \<le> kMaxSequenceNumber" and "sequence b \<le> kMaxSequenceNumber"
  shows "\<exists>x y r. AppendInternalKey [] a = Some x \<and> AppendInternalKey [] b = Some y \<and>
    ParseInternalKey x = Some a \<and> ParseInternalKey y = Some b \<and>
    InternalKeyComparator_Compare Bytewise_Compare x y = Some r \<and>
    (r < 0 \<longleftrightarrow> user_key a < user_key b \<or>
      user_key a = user_key b \<and> (sequence b < sequence a \<or>
        sequence a = sequence b \<and> vtype a = kTypeValue \<and> vtype b = kTypeDeletion)) \<and>
    (r = 0 \<longleftrightarrow> a = b)"
proof -
  let ?n = "seq_type (sequence a) (vtype a)" and ?m = "seq_type (sequence b) (vtype b)"
  let ?x = "make_internal (user_key a) ?n" and ?y = "make_internal (user_key b) ?m"
  have num: "?m < ?n \<longleftrightarrow> sequence b < sequence a \<or>
      sequence a = sequence b \<and> vtype a = kTypeValue \<and> vtype b = kTypeDeletion"
    using unat_seq_type [OF assms(1), of "vtype a"] unat_seq_type [OF assms(2), of "vtype b"]
    by (cases "vtype a"; cases "vtype b") (auto simp: word_less_nat_alt word_unat_eq_iff)
  have eq: "?n = ?m \<longleftrightarrow> sequence a = sequence b \<and> vtype a = vtype b"
    using seq_type_parts [OF assms(1), of "vtype a"] seq_type_parts [OF assms(2), of "vtype b"]
    by (metis option.inject)
  have "internal_cmp Bytewise_Compare ?x ?y < 0 \<longleftrightarrow> user_key a < user_key b \<or> user_key a = user_key b \<and> ?m < ?n"
    unfolding bytewise.internal_less by (simp add: Bytewise_Compare_def Slice_compare_less)
  moreover have "internal_cmp Bytewise_Compare ?x ?y = 0 \<longleftrightarrow> a = b"
    unfolding bytewise.internal_eq eq by (cases a; cases b) auto
  ultimately show ?thesis
    using assms num
    by (intro exI [of _ ?x] exI [of _ ?y] exI [of _ "internal_cmp Bytewise_Compare ?x ?y"])
      (simp add: AppendInternalKey_make ParseInternalKey_make seq_type_parts Compare_make internal_cmp_def)
qed

theorem internal_keys_versioned_witness:
  "\<exists>x y r. AppendInternalKey [] \<lparr>user_key = ''k'', sequence = 9, vtype = kTypeDeletion\<rparr> = Some x \<and>
    AppendInternalKey [] \<lparr>user_key = ''k'', sequence = 7, vtype = kTypeValue\<rparr> = Some y \<and>
    InternalKeyComparator_Compare Bytewise_Compare x y = Some r \<and> r < 0"
proof -
  have "(9 :: uint64) \<le> kMaxSequenceNumber" "(7 :: uint64) \<le> kMaxSequenceNumber"
    by (simp_all add: seq_le_max)
  then show ?thesis
    using internal_keys_versioned [of "\<lparr>user_key = ''k'', sequence = 9, vtype = kTypeDeletion\<rparr>"
        "\<lparr>user_key = ''k'', sequence = 7, vtype = kTypeValue\<rparr>"]
    by auto
qed

text \<open>
  Index keys separate.  For internal keys in order, the shortened separator is an internal key not
  below the first and below the second, and the shortened successor is not below its key, so that a block
  index searched with them finds the right block; no assertion on the way fails.
\<close>

theorem internal_separator:
  assumes "is_internal s" and "is_internal l" and "internal_cmp Bytewise_Compare s l < 0"
  shows "(\<exists>t. Internal_FindShortestSeparator Bytewise_Compare Bytewise_FindShortestSeparator s l = Some t \<and>
      is_internal t \<and> internal_cmp Bytewise_Compare s t \<le> 0 \<and> internal_cmp Bytewise_Compare t l < 0) \<and>
    (\<exists>t. Internal_FindShortSuccessor Bytewise_Compare Bytewise_FindShortSuccessor s = Some t \<and>
      is_internal t \<and> internal_cmp Bytewise_Compare s t \<le> 0)"
  using bytewise.internal.sep_law [OF assms] bytewise.internal.successor_law [OF assms(1)] by blast

theorem internal_separator_witness:
  "\<exists>t. Internal_FindShortestSeparator Bytewise_Compare Bytewise_FindShortestSeparator
      (make_internal ''abcdef'' 7) (make_internal ''abz'' 3) = Some t \<and>
    internal_cmp Bytewise_Compare (make_internal ''abcdef'' 7) t \<le> 0 \<and>
    internal_cmp Bytewise_Compare t (make_internal ''abz'' 3) < 0"
proof -
  have "internal_cmp Bytewise_Compare (make_internal ''abcdef'' 7) (make_internal ''abz'' 3) < 0"
    unfolding bytewise.internal_less by (simp add: Bytewise_Compare_def Slice_compare_Cons)
  from internal_separator [OF _ _ this] show ?thesis
    by auto
qed

end
