(* ===== verification/Ldb_Batch.thy ===== *)
theory Ldb_Batch
  imports Op_Log Ldb_Format
begin

text \<open>
  \<open>write_batch.h\<close> and \<open>write_batch.cc\<close>: a batch is one byte string, a header of a sequence number and a
  count, and the records one after another.  A handler is a state with the effect of its two methods;
  a method that fails an assertion gives \<open>None\<close>.  The operations of the contract are \<open>Put\<close> and \<open>Delete\<close>
  of \<open>Op_Log\<close>.
\<close>

section \<open>The batch\<close>

type_synonym WriteBatch = string

definition kHeader :: nat where
  "kHeader = 12"

definition WriteBatch_Clear :: WriteBatch where
  "WriteBatch_Clear = replicate kHeader (char_of (0 :: nat))"

definition Batch_Count :: "WriteBatch \<Rightarrow> int option" where
  "Batch_Count b = map_option sint (DecodeFixed32 (drop 8 b))"

definition SetCount :: "int \<Rightarrow> WriteBatch \<Rightarrow> WriteBatch" where
  "SetCount n b = take 8 b @ EncodeFixed32 (word_of_int n) @ drop 12 b"

definition Batch_Sequence :: "WriteBatch \<Rightarrow> uint64 option" where
  "Batch_Sequence b = DecodeFixed64 b"

definition SetSequence :: "uint64 \<Rightarrow> WriteBatch \<Rightarrow> WriteBatch" where
  "SetSequence seq b = EncodeFixed64 seq @ drop 8 b"

definition SetContents :: "string \<Rightarrow> WriteBatch option" where
  "SetContents contents = (if length contents \<ge> kHeader then Some contents else None)"

definition ByteSize :: "WriteBatch \<Rightarrow> nat" where
  "ByteSize b = length b"

definition type_char :: "ValueType \<Rightarrow> char" where
  "type_char t = byte (type_num t)"

definition WriteBatch_Put :: "string \<Rightarrow> string \<Rightarrow> WriteBatch \<Rightarrow> WriteBatch option" where
  "WriteBatch_Put key value b =
     (case Batch_Count b of
        None \<Rightarrow> None
      | Some n \<Rightarrow> Some (PutLengthPrefixedSlice (PutLengthPrefixedSlice
          (SetCount (n + 1) b @ [type_char kTypeValue]) key) value))"

definition WriteBatch_Delete :: "string \<Rightarrow> WriteBatch \<Rightarrow> WriteBatch option" where
  "WriteBatch_Delete key b =
     (case Batch_Count b of
        None \<Rightarrow> None
      | Some n \<Rightarrow> Some (PutLengthPrefixedSlice (SetCount (n + 1) b @ [type_char kTypeDeletion]) key))"

definition Batch_Append :: "WriteBatch \<Rightarrow> WriteBatch \<Rightarrow> WriteBatch option" where
  "Batch_Append dst src =
     do { n \<leftarrow> Batch_Count dst;
          m \<leftarrow> Batch_Count src;
          if length src \<ge> kHeader then Some (SetCount (n + m) dst @ drop kHeader src) else None }"

section \<open>Replaying a batch\<close>

lemma varint_loop_shorter: "varint_loop m s r p = Some (v, rest) \<Longrightarrow> length rest < length p"
  by (induction m s r p rule: varint_loop.induct) (force simp: Let_def split: if_splits)+

lemma GetVarint32_shorter: "GetVarint32 p = Some (v, rest) \<Longrightarrow> length rest < length p"
  by (cases p) (auto simp: GetVarint32_def GetVarint32Ptr_def GetVarint32PtrFallback_def Let_def
      split: if_splits dest!: varint_loop_shorter)

lemma GetLengthPrefixedSlice_shorter:
  "GetLengthPrefixedSlice p = Some (v, rest) \<Longrightarrow> length rest < length p"
  by (auto simp: GetLengthPrefixedSlice_def split: bind_splits if_splits dest!: GetVarint32_shorter)

text \<open>
  \<open>Iterate\<close>: a byte that is no type tag, a record cut short and a wrong count are corruption; what the
  handler did earlier is kept.
\<close>

function Iterate_loop ::
  "(string \<Rightarrow> string \<Rightarrow> 's \<Rightarrow> 's option) \<Rightarrow> (string \<Rightarrow> 's \<Rightarrow> 's option) \<Rightarrow> int \<Rightarrow> string \<Rightarrow> int \<Rightarrow> 's \<Rightarrow>
   (Status \<times> 's) option" where
  "Iterate_loop hput hdel count [] found s = Some (if found \<noteq> count then Corruption else OK, s)"
| "Iterate_loop hput hdel count (tag # input) found s =
     (case type_of_byte (of_char tag) of
        Some kTypeValue \<Rightarrow>
          (case GetLengthPrefixedSlice input of
             None \<Rightarrow> Some (Corruption, s)
           | Some (key, input1) \<Rightarrow>
               (case GetLengthPrefixedSlice input1 of
                  None \<Rightarrow> Some (Corruption, s)
                | Some (value, input2) \<Rightarrow>
                    (case hput key value s of
                       None \<Rightarrow> None
                     | Some s' \<Rightarrow> Iterate_loop hput hdel count input2 (found + 1) s')))
      | Some kTypeDeletion \<Rightarrow>
          (case GetLengthPrefixedSlice input of
             None \<Rightarrow> Some (Corruption, s)
           | Some (key, input1) \<Rightarrow>
               (case hdel key s of
                  None \<Rightarrow> None
                | Some s' \<Rightarrow> Iterate_loop hput hdel count input1 (found + 1) s'))
      | None \<Rightarrow> Some (Corruption, s))"
  by pat_completeness auto
termination
  by (relation "measure (\<lambda>(_, _, _, input, _, _). length input)")
    (auto dest!: GetLengthPrefixedSlice_shorter)

definition Batch_Iterate ::
  "(string \<Rightarrow> string \<Rightarrow> 's \<Rightarrow> 's option) \<Rightarrow> (string \<Rightarrow> 's \<Rightarrow> 's option) \<Rightarrow> WriteBatch \<Rightarrow> 's \<Rightarrow> (Status \<times> 's) option" where
  "Batch_Iterate hput hdel b s =
     (if length b < kHeader then Some (Corruption, s)
      else case Batch_Count b of
             None \<Rightarrow> None
           | Some count \<Rightarrow> Iterate_loop hput hdel count (drop kHeader b) 0 s)"

section \<open>What a batch means\<close>

text \<open>The record of an operation, and the batch that holds a list of them.\<close>

fun record_of :: "batch_op \<Rightarrow> string" where
  "record_of (Put k v) = type_char kTypeValue # PutLengthPrefixedSlice [] k @ PutLengthPrefixedSlice [] v"
| "record_of (Delete k) = type_char kTypeDeletion # PutLengthPrefixedSlice [] k"

fun small_op :: "batch_op \<Rightarrow> bool" where
  "small_op (Put k v) \<longleftrightarrow> length k < 2 ^ 32 \<and> length v < 2 ^ 32"
| "small_op (Delete k) \<longleftrightarrow> length k < 2 ^ 32"

definition batch_holds :: "uint64 \<Rightarrow> batch_op list \<Rightarrow> WriteBatch \<Rightarrow> bool" where
  "batch_holds seq ops b \<longleftrightarrow>
     b = EncodeFixed64 seq @ EncodeFixed32 (of_nat (length ops)) @ concat (map record_of ops)"

fun run_op ::
  "(string \<Rightarrow> string \<Rightarrow> 's \<Rightarrow> 's option) \<Rightarrow> (string \<Rightarrow> 's \<Rightarrow> 's option) \<Rightarrow> batch_op \<Rightarrow> 's \<Rightarrow> 's option" where
  "run_op hput hdel (Put k v) s = hput k v s"
| "run_op hput hdel (Delete k) s = hdel k s"

lemma length_EncodeFixed32 [simp]: "length (EncodeFixed32 v) = 4"
  by (simp add: EncodeFixed32_def)

lemma batch_holds_Clear: "batch_holds 0 [] WriteBatch_Clear"
  by (simp add: batch_holds_def WriteBatch_Clear_def kHeader_def EncodeFixed64_def EncodeFixed32_def byte_def
      numeral_eq_Suc)

lemma batch_holds_Count: "batch_holds seq ops b \<Longrightarrow> Batch_Count b = Some (sint (of_nat (length ops) :: uint32))"
  by (simp add: batch_holds_def Batch_Count_def DecodeFixed32_Encode)

lemma batch_holds_Sequence: "batch_holds seq ops b \<Longrightarrow> Batch_Sequence b = Some seq"
  by (simp add: batch_holds_def Batch_Sequence_def DecodeFixed64_Encode)

lemma batch_holds_SetSequence: "batch_holds seq ops b \<Longrightarrow> batch_holds seq' ops (SetSequence seq' b)"
  by (simp add: batch_holds_def SetSequence_def)

lemma SetCount_holds:
  "batch_holds seq ops b \<Longrightarrow> SetCount n b = EncodeFixed64 seq @ EncodeFixed32 (word_of_int n) @ concat (map record_of ops)"
  by (simp add: batch_holds_def SetCount_def)

lemma batch_holds_Put:
  "batch_holds seq ops b \<Longrightarrow> \<exists>b'. WriteBatch_Put k v b = Some b' \<and> batch_holds seq (ops @ [Put k v]) b'"
  using SetCount_holds [of seq ops b]
  by (simp add: WriteBatch_Put_def batch_holds_Count batch_holds_def [of seq "ops @ [Put k v]"]
      PutLengthPrefixedSlice_append [of "_ @ _"] ac_simps)

lemma batch_holds_Delete:
  "batch_holds seq ops b \<Longrightarrow> \<exists>b'. WriteBatch_Delete k b = Some b' \<and> batch_holds seq (ops @ [Delete k]) b'"
  using SetCount_holds [of seq ops b]
  by (simp add: WriteBatch_Delete_def batch_holds_Count batch_holds_def [of seq "ops @ [Delete k]"]
      PutLengthPrefixedSlice_append [of "_ @ _"] ac_simps)

lemma batch_holds_Append:
  "batch_holds seq ops b \<Longrightarrow> batch_holds seq' ops' b' \<Longrightarrow>
    \<exists>r. Batch_Append b b' = Some r \<and> batch_holds seq (ops @ ops') r"
  using SetCount_holds [of seq ops b]
  by (simp add: Batch_Append_def batch_holds_Count kHeader_def batch_holds_def [of seq "ops @ ops'"])
    (simp add: batch_holds_def)

lemma type_of_type_char: "type_of_byte (of_char (type_char t)) = Some t"
  by (cases t) (simp_all add: type_char_def byte_def type_of_byte.simps)

lemma Iterate_loop_record:
  assumes "small_op op"
  shows "Iterate_loop hput hdel count (record_of op @ rest) found s =
    (case run_op hput hdel op s of None \<Rightarrow> None | Some s' \<Rightarrow> Iterate_loop hput hdel count rest (found + 1) s')"
  using assms by (cases op) (simp_all add: type_of_type_char GetLengthPrefixedSlice_Put split: option.split)

lemma Iterate_loop_records:
  assumes "\<forall>op \<in> set ops. small_op op"
  shows "Iterate_loop hput hdel count (concat (map record_of ops) @ rest) found s =
    (case fold_opt (run_op hput hdel) ops s of None \<Rightarrow> None
     | Some s' \<Rightarrow> Iterate_loop hput hdel count rest (found + int (length ops)) s')"
  using assms
proof (induction ops arbitrary: found s)
  case (Cons op ops)
  then show ?case
    by (cases "run_op hput hdel op s")
      (simp_all add: Iterate_loop_record ac_simps split: option.split)
qed simp

lemma sint_count: "n < 2 ^ 31 \<Longrightarrow> sint (of_nat n :: uint32) = int n"
  by (simp add: sint_uint unsigned_of_nat signed_take_bit_int_eq_self take_bit_nat_eq_self)

lemma Batch_Iterate_holds:
  assumes "batch_holds seq ops b" and "\<forall>op \<in> set ops. small_op op" and "length ops < 2 ^ 31"
  shows "Batch_Iterate hput hdel b s = map_option (\<lambda>s'. (OK, s')) (fold_opt (run_op hput hdel) ops s)"
proof -
  have "drop kHeader b = concat (map record_of ops) @ []" "\<not> length b < kHeader"
    using assms(1) by (simp_all add: batch_holds_def kHeader_def)
  then show ?thesis
    using batch_holds_Count [OF assms(1)] sint_count [OF assms(3)] Iterate_loop_records [OF assms(2), of hput hdel "int (length ops)" "[]" 0 s]
    by (simp add: Batch_Iterate_def split: option.splits)
qed

section \<open>Batches cut short\<close>

lemma cut_append:
  assumes "x @ y = p @ q"
  obtains (short) r where "r \<noteq> []" "x = p @ r" | (rest) r where "p = x @ r" "y = r @ q"
proof (cases "length p < length x")
  case True
  then have "x = p @ drop (length p) x" "drop (length p) x \<noteq> []"
    using assms by (auto simp: append_eq_append_conv2)
  then show ?thesis
    using short by blast
next
  case False
  then have "p = x @ drop (length x) p" "y = drop (length x) p @ q"
    using assms by (auto simp: append_eq_append_conv2)
  then show ?thesis
    using rest by blast
qed

lemma GetLengthPrefixedSlice_cut:
  assumes "PutLengthPrefixedSlice [] v = p @ q" and "q \<noteq> []" and "length v < 2 ^ 32"
  shows "GetLengthPrefixedSlice p = None"
proof -
  let ?e = "EncodeVarint32 (of_nat (length v))"
  have "?e @ v = p @ q"
    using assms(1) by (simp add: PutLengthPrefixedSlice_def PutVarint32_def)
  then consider (short) r where "r \<noteq> []" "?e = p @ r" | (rest) r where "p = ?e @ r" "v = r @ q"
    by (rule cut_append)
  then show ?thesis
  proof cases
    case short
    then show ?thesis
      using GetVarint32_cut [of "of_nat (length v)" p r] by (simp add: GetLengthPrefixedSlice_def)
  next
    case rest
    have "unat (of_nat (length v) :: uint32) = length v"
      using assms(3) by (simp add: unat_of_nat take_bit_eq_mod)
    moreover have "length r < length v"
      using rest(2) assms(2) by simp
    ultimately show ?thesis
      unfolding rest(1) by (simp add: GetLengthPrefixedSlice_def GetVarint32_Encode)
  qed
qed

lemma Iterate_loop_cut_record:
  assumes "small_op op" and "record_of op = t @ q" and "q \<noteq> []" and "t \<noteq> []"
  shows "Iterate_loop hput hdel count t found s = Some (Corruption, s)"
proof (cases op)
  case (Delete k)
  then obtain u where "t = type_char kTypeDeletion # u" "PutLengthPrefixedSlice [] k = u @ q"
    using assms(2,4) by (cases t) auto
  then show ?thesis
    using GetLengthPrefixedSlice_cut [of k u q] assms(1,3) Delete by (simp add: type_of_type_char)
next
  case (Put k v)
  then obtain u where u: "t = type_char kTypeValue # u"
      "PutLengthPrefixedSlice [] k @ PutLengthPrefixedSlice [] v = u @ q"
    using assms(2,4) by (cases t) auto
  then consider (short) r where "r \<noteq> []" "PutLengthPrefixedSlice [] k = u @ r"
    | (rest) r where "u = PutLengthPrefixedSlice [] k @ r" "PutLengthPrefixedSlice [] v = r @ q"
    by (elim cut_append)
  then show ?thesis
  proof cases
    case short
    then show ?thesis
      using GetLengthPrefixedSlice_cut [of k u r] assms(1) Put u(1) by (simp add: type_of_type_char)
  next
    case rest
    then show ?thesis
      using GetLengthPrefixedSlice_cut [of v r q] assms(1,3) Put u(1)
      by (simp add: type_of_type_char GetLengthPrefixedSlice_Put)
  qed
qed

lemma cut_records:
  assumes "concat (map record_of ops) = t @ q" and "q \<noteq> []"
  shows "\<exists>before op later u v. ops = before @ op # later \<and> t = concat (map record_of before) @ u \<and>
    record_of op = u @ v \<and> v \<noteq> []"
  using assms
proof (induction ops arbitrary: t)
  case (Cons op ops)
  then have "record_of op @ concat (map record_of ops) = t @ q"
    by simp
  then consider (here) r where "r \<noteq> []" "record_of op = t @ r"
    | (later) r where "t = record_of op @ r" "concat (map record_of ops) = r @ q"
    by (rule cut_append)
  then show ?case
  proof cases
    case here
    then show ?thesis
      by (intro exI [of _ "[]"] exI [of _ op] exI [of _ ops] exI [of _ t] exI [of _ r]) simp
  next
    case later
    obtain before op' rest u v where "ops = before @ op' # rest" "r = concat (map record_of before) @ u"
        "record_of op' = u @ v" "v \<noteq> []"
      using Cons.IH [OF later(2) Cons.prems(2)] by blast
    then show ?thesis
      using later(1)
      by (intro exI [of _ "op # before"] exI [of _ op'] exI [of _ rest] exI [of _ u] exI [of _ v]) simp
  qed
qed simp

lemma Batch_Iterate_cut:
  assumes b: "batch_holds seq ops b" and small: "\<forall>op \<in> set ops. small_op op" and n: "length ops < 2 ^ 31"
    and cut: "b = p @ q" "q \<noteq> []" and run: "fold_opt (run_op hput hdel) ops s \<noteq> None"
  shows "\<exists>k s'. k \<le> length ops \<and> fold_opt (run_op hput hdel) (take k ops) s = Some s' \<and>
    Batch_Iterate hput hdel p s = Some (Corruption, s')"
proof (cases "length p < kHeader")
  case True
  then show ?thesis
    by (intro exI [of _ 0] exI [of _ s]) (simp add: Batch_Iterate_def)
next
  case False
  define t where "t = drop kHeader p"
  let ?h = "EncodeFixed64 seq @ EncodeFixed32 (of_nat (length ops))"
  have h: "length ?h = kHeader"
    by (simp add: kHeader_def)
  have "?h @ concat (map record_of ops) = p @ q"
    using b cut(1) by (simp add: batch_holds_def)
  then obtain r where r: "p = ?h @ r" "concat (map record_of ops) = r @ q"
  proof (cases rule: cut_append)
    case (short r)
    have "length p < kHeader"
      unfolding h [symmetric] using short by (metis append.assoc length_append less_add_same_cancel1 length_greater_0_conv)
    with False show ?thesis by simp
  qed (rule that)
  moreover have "t = r"
    using h unfolding t_def r(1) by (metis append_eq_conv_conj)
  ultimately have p: "p = ?h @ t" and tq: "concat (map record_of ops) = t @ q"
    by simp_all
  obtain before op later u v where ops: "ops = before @ op # later" and t: "t = concat (map record_of before) @ u"
      and uv: "record_of op = u @ v" "v \<noteq> []"
    using cut_records [OF tq cut(2)] by blast
  obtain s' where s': "fold_opt (run_op hput hdel) before s = Some s'"
    using run unfolding ops fold_opt_append by (cases "fold_opt (run_op hput hdel) before s") auto
  have "Batch_Count p = Some (int (length ops))"
    using sint_count [OF n] by (simp add: p Batch_Count_def DecodeFixed32_Encode)
  then have "Batch_Iterate hput hdel p s = Iterate_loop hput hdel (int (length ops)) u (int (length before)) s'"
    using False small s' Iterate_loop_records [of before hput hdel "int (length ops)" u 0 s]
    by (simp add: Batch_Iterate_def t_def [symmetric] t ops)
  also have "\<dots> = Some (Corruption, s')"
  proof (cases "u = []")
    case True
    then show ?thesis by (simp add: ops)
  next
    case False
    then show ?thesis
      using Iterate_loop_cut_record [OF _ uv(1,2) False] small ops by simp
  qed
  finally show ?thesis
    using s' by (intro exI [of _ "length before"] exI [of _ s']) (simp add: ops)
qed

section \<open>Replaying, whole and cut short\<close>

text \<open>
  Claim C37: Replaying a batch runs its operations.  A batch that holds a list of operations, as every
  batch built with \<open>Put\<close>, \<open>Delete\<close> and \<open>Append\<close> does, gives them to the handler in order and reports
  success; nothing is lost between building the bytes and reading them back.
\<close>

theorem batch_replay:
  assumes "batch_holds seq ops b" and "batch_holds seq' ops' b'"
    and "\<forall>op \<in> set (ops @ [Put k v, Delete k'] @ ops'). small_op op" and "length ops + length ops' + 2 < 2 ^ 31"
  shows "\<exists>b1 b2 b3. WriteBatch_Put k v b = Some b1 \<and> WriteBatch_Delete k' b1 = Some b2 \<and>
    Batch_Append b2 b' = Some b3 \<and> Batch_Sequence b3 = Some seq \<and>
    Batch_Iterate hput hdel b3 s =
      map_option (\<lambda>s'. (OK, s')) (fold_opt (run_op hput hdel) (ops @ [Put k v, Delete k'] @ ops') s)"
proof -
  obtain b1 where b1: "WriteBatch_Put k v b = Some b1" "batch_holds seq (ops @ [Put k v]) b1"
    using batch_holds_Put [OF assms(1)] by blast
  obtain b2 where b2: "WriteBatch_Delete k' b1 = Some b2" "batch_holds seq ((ops @ [Put k v]) @ [Delete k']) b2"
    using batch_holds_Delete [OF b1(2)] by blast
  obtain b3 where b3: "Batch_Append b2 b' = Some b3" "batch_holds seq (ops @ [Put k v, Delete k'] @ ops') b3"
    using batch_holds_Append [OF b2(2) assms(2)] by auto
  have "length (ops @ [Put k v, Delete k'] @ ops') < 2 ^ 31"
    using assms(4) by simp
  note replay = Batch_Iterate_holds [OF b3(2) assms(3) this]
  show ?thesis
    by (intro exI [of _ b1] exI [of _ b2] exI [of _ b3] conjI b1(1) b2(1) b3(1)
        batch_holds_Sequence [OF b3(2)] replay)
qed

theorem batch_replay_witness:
  "\<exists>b1 b2 b3. WriteBatch_Put ''k'' ''v'' WriteBatch_Clear = Some b1 \<and> WriteBatch_Delete ''d'' b1 = Some b2 \<and>
    Batch_Append b2 WriteBatch_Clear = Some b3 \<and> Batch_Sequence b3 = Some 0 \<and>
    Batch_Iterate (\<lambda>k v s. Some (s @ [Put k v])) (\<lambda>k s. Some (s @ [Delete k])) b3 [] =
      Some (OK, [Put ''k'' ''v'', Delete ''d''])"
  using batch_replay [OF batch_holds_Clear batch_holds_Clear, of "''k''" "''v''" "''d''"
      "\<lambda>k v s. Some (s @ [Put k v])" "\<lambda>k s. Some (s @ [Delete k])" "[]"]
  by simp

text \<open>
  Claim C38: A damaged batch is noticed.  When a batch is cut anywhere, in the header, inside a record or
  between two records, replaying what is left reports corruption; the handler has then seen a prefix of
  the operations, in order, and nothing else.
\<close>

theorem batch_cut:
  assumes "batch_holds seq ops (p @ q)" and "q \<noteq> []" and "\<forall>op \<in> set ops. small_op op" and "length ops < 2 ^ 31"
  shows "\<exists>n \<le> length ops. Batch_Iterate (\<lambda>k v s. Some (s @ [Put k v])) (\<lambda>k s. Some (s @ [Delete k])) p [] =
    Some (Corruption, take n ops)"
proof -
  let ?hp = "\<lambda>k v s. Some (s @ [Put k v])" and ?hd = "\<lambda>k s. Some (s @ [Delete k])"
  have run: "fold_opt (run_op ?hp ?hd) xs s = Some (s @ xs)" for xs s
  proof (induction xs arbitrary: s)
    case (Cons x xs)
    then show ?case by (cases x) simp_all
  qed simp
  then show ?thesis
    using Batch_Iterate_cut [OF assms(1,3,4) refl assms(2), of ?hp ?hd "[]"] by auto
qed

theorem batch_cut_witness:
  "\<exists>n \<le> 1. Batch_Iterate (\<lambda>k v s. Some (s @ [Put k v])) (\<lambda>k s. Some (s @ [Delete k]))
      (EncodeFixed64 7 @ EncodeFixed32 1 @ [type_char kTypeValue]) [] =
    Some (Corruption, take n [Put ''k'' ''v''])"
  using batch_cut [of 7 "[Put ''k'' ''v'']" "EncodeFixed64 7 @ EncodeFixed32 1 @ [type_char kTypeValue]"
      "PutLengthPrefixedSlice [] ''k'' @ PutLengthPrefixedSlice [] ''v''"]
  by (simp add: batch_holds_def PutLengthPrefixedSlice_def)

end
