(* ===== verification/Ldb_Skiplist.thy ===== *)
theory Ldb_Skiplist
  imports Ldb_Format
begin

unbundle bit_operations_syntax

text \<open>
  \<open>random.h\<close> and \<open>skiplist.h\<close>.  Nodes live in the arena and are never freed: a pointer is an index into
  the list of nodes, \<open>head_\<close> is node 0 and \<open>NULL\<close> is \<open>None\<close>.  A node has one link per level below its
  height.  A link outside a node is undefined behaviour, and with a failed assertion the outer \<open>None\<close> of
  a result.  The walks are loops that end only on a well-formed list: \<open>partial_function\<close>, with proofs
  that they return.
\<close>

section \<open>Random numbers\<close>

definition Random_new :: "uint32 \<Rightarrow> uint32" where
  "Random_new s =
     (let seed = s AND 0x7fffffff in if seed = 0 \<or> seed = 2147483647 then 1 else seed)"

definition Random_Next :: "uint32 \<Rightarrow> uint32" where
  "Random_Next seed =
     (let M = (2147483647 :: uint32); A = (16807 :: uint64);
          product = ucast seed * A;
          seed' = ucast (drop_bit 31 product + (product AND ucast M)) :: uint32
      in if seed' > M then seed' - M else seed')"

definition Random_Uniform :: "nat \<Rightarrow> uint32 \<Rightarrow> uint32 \<times> uint32" where
  "Random_Uniform n seed = (let s = Random_Next seed in (s mod of_nat n, s))"

section \<open>The list\<close>

record 'k sl_node =
  nkey :: 'k
  nnext :: "nat option list"

record 'k skiplist =
  sl_nodes :: "'k sl_node list"
  sl_max_height :: nat
  sl_rnd :: uint32

definition kMaxHeight :: nat where
  "kMaxHeight = 12"

definition head_ptr :: nat where
  "head_ptr = 0"

definition node_key :: "'k skiplist \<Rightarrow> nat \<Rightarrow> 'k" where
  "node_key sl x = nkey (sl_nodes sl ! x)"

definition node_Next :: "'k skiplist \<Rightarrow> nat \<Rightarrow> nat \<Rightarrow> nat option option" where
  "node_Next sl x n =
     (if x < length (sl_nodes sl) \<and> n < length (nnext (sl_nodes sl ! x))
      then Some (nnext (sl_nodes sl ! x) ! n) else None)"

definition node_SetNext :: "'k skiplist \<Rightarrow> nat \<Rightarrow> nat \<Rightarrow> nat option \<Rightarrow> 'k skiplist option" where
  "node_SetNext sl x n y =
     (if x < length (sl_nodes sl) \<and> n < length (nnext (sl_nodes sl ! x))
      then Some (sl\<lparr>sl_nodes := (sl_nodes sl)[x := (sl_nodes sl ! x)\<lparr>nnext := (nnext (sl_nodes sl ! x))[n := y]\<rparr>]\<rparr>)
      else None)"

text \<open>A new node; its links are written before anything points to it.\<close>

definition NewNode :: "'k skiplist \<Rightarrow> 'k \<Rightarrow> nat \<Rightarrow> nat \<times> 'k skiplist" where
  "NewNode sl key height =
     (length (sl_nodes sl), sl\<lparr>sl_nodes := sl_nodes sl @ [\<lparr>nkey = key, nnext = replicate height None\<rparr>]\<rparr>)"

text \<open>The constructor; \<open>key0\<close> is the key of the head, which nothing compares.\<close>

definition SkipList_new :: "'k \<Rightarrow> 'k skiplist" where
  "SkipList_new key0 =
     snd (NewNode \<lparr>sl_nodes = [], sl_max_height = 1, sl_rnd = Random_new 0xdeadbeef\<rparr> key0 kMaxHeight)"

definition KeyIsAfterNode :: "('k \<Rightarrow> 'k \<Rightarrow> int) \<Rightarrow> 'k skiplist \<Rightarrow> 'k \<Rightarrow> nat option \<Rightarrow> bool" where
  "KeyIsAfterNode cmp sl key n = (case n of None \<Rightarrow> False | Some i \<Rightarrow> cmp (node_key sl i) key < 0)"

text \<open>\<open>RandomHeight\<close>: the height, and the state of the generator.\<close>

function height_loop :: "nat \<Rightarrow> uint32 \<Rightarrow> nat \<times> uint32" where
  "height_loop height seed =
     (if height < kMaxHeight then
        let s = Random_Next seed in
        if s mod 4 = 0 then height_loop (height + 1) s else (height, s)
      else (height, seed))"
  by pat_completeness auto
termination
  by (relation "measure (\<lambda>(h, s). kMaxHeight - h)") auto

declare height_loop.simps [simp del]

definition RandomHeight :: "'k skiplist \<Rightarrow> nat \<times> 'k skiplist" where
  "RandomHeight sl = (let (h, s) = height_loop 1 (sl_rnd sl) in (h, sl\<lparr>sl_rnd := s\<rparr>))"

text \<open>The searches.  \<open>prev\<close> is the caller's array, \<open>None\<close> for a null pointer; its entries start unset.\<close>

partial_function (option) FindGE_loop ::
  "('k \<Rightarrow> 'k \<Rightarrow> int) \<Rightarrow> 'k skiplist \<Rightarrow> 'k \<Rightarrow> nat \<Rightarrow> nat \<Rightarrow> nat option list option \<Rightarrow>
   (nat option \<times> nat option list option) option" where
  "FindGE_loop cmp sl key x level prev =
     (case node_Next sl x level of
        None \<Rightarrow> None
      | Some nx \<Rightarrow>
          if KeyIsAfterNode cmp sl key nx then FindGE_loop cmp sl key (the nx) level prev
          else
            let prev' = map_option (\<lambda>p. p[level := Some x]) prev in
            if level = 0 then Some (nx, prev')
            else FindGE_loop cmp sl key x (level - 1) prev')"

definition FindGreaterOrEqual ::
  "('k \<Rightarrow> 'k \<Rightarrow> int) \<Rightarrow> 'k skiplist \<Rightarrow> 'k \<Rightarrow> nat option list option \<Rightarrow> (nat option \<times> nat option list option) option" where
  "FindGreaterOrEqual cmp sl key prev = FindGE_loop cmp sl key head_ptr (sl_max_height sl - 1) prev"

partial_function (option) FindLT_loop ::
  "('k \<Rightarrow> 'k \<Rightarrow> int) \<Rightarrow> 'k skiplist \<Rightarrow> 'k \<Rightarrow> nat \<Rightarrow> nat \<Rightarrow> nat option" where
  "FindLT_loop cmp sl key x level =
     (if x = head_ptr \<or> cmp (node_key sl x) key < 0 then
        (case node_Next sl x level of
           None \<Rightarrow> None
         | Some nx \<Rightarrow>
             if (case nx of None \<Rightarrow> True | Some n \<Rightarrow> cmp (node_key sl n) key \<ge> 0)
             then (if level = 0 then Some x else FindLT_loop cmp sl key x (level - 1))
             else FindLT_loop cmp sl key (the nx) level)
      else None)"

definition FindLessThan :: "('k \<Rightarrow> 'k \<Rightarrow> int) \<Rightarrow> 'k skiplist \<Rightarrow> 'k \<Rightarrow> nat option" where
  "FindLessThan cmp sl key = FindLT_loop cmp sl key head_ptr (sl_max_height sl - 1)"

partial_function (option) FindLast_loop :: "'k skiplist \<Rightarrow> nat \<Rightarrow> nat \<Rightarrow> nat option" where
  "FindLast_loop sl x level =
     (case node_Next sl x level of
        None \<Rightarrow> None
      | Some nx \<Rightarrow>
          (case nx of
             None \<Rightarrow> if level = 0 then Some x else FindLast_loop sl x (level - 1)
           | Some n \<Rightarrow> FindLast_loop sl n level))"

definition FindLast :: "'k skiplist \<Rightarrow> nat option" where
  "FindLast sl = FindLast_loop sl head_ptr (sl_max_height sl - 1)"

text \<open>The loop of \<open>Insert\<close> that links the new node at one level after another.\<close>

fun link_levels :: "nat option list \<Rightarrow> nat \<Rightarrow> nat list \<Rightarrow> 'k skiplist \<Rightarrow> 'k skiplist option" where
  "link_levels prev x [] sl = Some sl"
| "link_levels prev x (i # is) sl =
     (case prev ! i of
        None \<Rightarrow> None
      | Some p \<Rightarrow>
          (case node_Next sl p i of
             None \<Rightarrow> None
           | Some nx \<Rightarrow>
               (case node_SetNext sl x i nx of
                  None \<Rightarrow> None
                | Some sl1 \<Rightarrow>
                    (case node_SetNext sl1 p i (Some x) of
                       None \<Rightarrow> None
                     | Some sl2 \<Rightarrow> link_levels prev x is sl2))))"

definition SkipList_Insert :: "('k \<Rightarrow> 'k \<Rightarrow> int) \<Rightarrow> 'k skiplist \<Rightarrow> 'k \<Rightarrow> 'k skiplist option" where
  "SkipList_Insert cmp sl key =
     (case FindGreaterOrEqual cmp sl key (Some (replicate kMaxHeight None)) of
        Some (x, Some prev) \<Rightarrow>
          if (case x of None \<Rightarrow> True | Some n \<Rightarrow> cmp key (node_key sl n) \<noteq> 0) then
            let (height, sl1) = RandomHeight sl;
                (prev', sl2) =
                  (if height > sl_max_height sl1
                   then (map (\<lambda>i. if sl_max_height sl1 \<le> i \<and> i < height then Some head_ptr else prev ! i)
                           [0 ..< length prev],
                         sl1\<lparr>sl_max_height := height\<rparr>)
                   else (prev, sl1));
                (n, sl3) = NewNode sl2 key height
            in link_levels prev' n [0 ..< height] sl3
          else None
      | _ \<Rightarrow> None)"

definition SkipList_Contains :: "('k \<Rightarrow> 'k \<Rightarrow> int) \<Rightarrow> 'k skiplist \<Rightarrow> 'k \<Rightarrow> bool option" where
  "SkipList_Contains cmp sl key =
     (case FindGreaterOrEqual cmp sl key None of
        None \<Rightarrow> None
      | Some (x, _) \<Rightarrow> Some (case x of None \<Rightarrow> False | Some n \<Rightarrow> cmp key (node_key sl n) = 0))"

section \<open>Iterators\<close>

text \<open>An iterator is the node it stands on.\<close>

type_synonym sl_iter = "nat option"

definition sl_new_iter :: sl_iter where
  "sl_new_iter = None"

definition sl_Valid :: "sl_iter \<Rightarrow> bool" where
  "sl_Valid it \<longleftrightarrow> it \<noteq> None"

definition sl_key :: "'k skiplist \<Rightarrow> sl_iter \<Rightarrow> 'k option" where
  "sl_key sl it = (case it of None \<Rightarrow> None | Some n \<Rightarrow> Some (node_key sl n))"

definition sl_Next :: "'k skiplist \<Rightarrow> sl_iter \<Rightarrow> sl_iter option" where
  "sl_Next sl it = (case it of None \<Rightarrow> None | Some n \<Rightarrow> node_Next sl n 0)"

definition sl_Prev :: "('k \<Rightarrow> 'k \<Rightarrow> int) \<Rightarrow> 'k skiplist \<Rightarrow> sl_iter \<Rightarrow> sl_iter option" where
  "sl_Prev cmp sl it =
     (case it of
        None \<Rightarrow> None
      | Some n \<Rightarrow>
          (case FindLessThan cmp sl (node_key sl n) of
             None \<Rightarrow> None
           | Some p \<Rightarrow> Some (if p = head_ptr then None else Some p)))"

definition sl_Seek :: "('k \<Rightarrow> 'k \<Rightarrow> int) \<Rightarrow> 'k skiplist \<Rightarrow> 'k \<Rightarrow> sl_iter option" where
  "sl_Seek cmp sl target =
     (case FindGreaterOrEqual cmp sl target None of None \<Rightarrow> None | Some (x, _) \<Rightarrow> Some x)"

definition sl_SeekToFirst :: "'k skiplist \<Rightarrow> sl_iter option" where
  "sl_SeekToFirst sl = node_Next sl head_ptr 0"

definition sl_SeekToLast :: "'k skiplist \<Rightarrow> sl_iter option" where
  "sl_SeekToLast sl =
     (case FindLast sl of None \<Rightarrow> None | Some p \<Rightarrow> Some (if p = head_ptr then None else Some p))"

section \<open>The generator\<close>

text \<open>The reduction by shifting and adding is the remainder modulo \<open>2 ^ 31 - 1\<close>.\<close>

lemma mersenne_step:
  fixes p :: nat
  assumes "p < 2147483648 * 16807"
  shows "p mod 2147483647 = (p div 2147483648 + p mod 2147483648) mod 2147483647"
    and "p div 2147483648 + p mod 2147483648 < 2147483648 + 16807"
proof -
  have "p = 2147483647 * (p div 2147483648) + (p div 2147483648 + p mod 2147483648)"
    using mult_div_mod_eq [of 2147483648 p] by linarith
  then show "p mod 2147483647 = (p div 2147483648 + p mod 2147483648) mod 2147483647"
    by (metis mod_mult_self4)
  have "p div 2147483648 < 16807"
    using assms by (simp add: less_mult_imp_div_less mult.commute)
  moreover have "p mod 2147483648 < 2147483648"
    by simp
  ultimately show "p div 2147483648 + p mod 2147483648 < 2147483648 + 16807"
    by linarith
qed

lemma multiplier_coprime: "coprime (2147483647 :: nat) 16807"
  by (simp add: coprime_iff_gcd_eq_1 gcd_non_0_nat)

lemma Random_Next_mod:
  assumes "0 < unat seed" and "unat seed < 2147483647"
  shows "unat (Random_Next seed) = unat seed * 16807 mod 2147483647"
    and "0 < unat (Random_Next seed)" and "unat (Random_Next seed) < 2147483647"
proof -
  let ?p = "unat seed * 16807" and ?M = "2147483647 :: nat"
  let ?w = "ucast seed * 16807 :: uint64"
  have p: "?p < 2147483648 * 16807"
    using assms(2) by simp
  have up: "unat ?w = ?p"
    using p by (simp add: unat_word_ariths unsigned_ucast_eq take_bit_eq_mod)
  have m: "?w AND ucast (2147483647 :: uint32) = take_bit 31 ?w"
    by (simp add: take_bit_eq_mask mask_eq_exp_minus_1)
  have parts: "unat (drop_bit 31 ?w) = ?p div 2147483648" "unat (take_bit 31 ?w) = ?p mod 2147483648"
    unfolding unat_drop_bit_eq unsigned_take_bit_eq up by (simp_all add: drop_bit_eq_div take_bit_eq_mod)
  define t where "t = ?p div 2147483648 + ?p mod 2147483648"
  note t = mersenne_step [OF p, folded t_def]
  have "unat (drop_bit 31 ?w + take_bit 31 ?w) = t"
    using t(2) parts by (subst unat_add_no_wrap) (simp_all add: t_def)
  then have u: "unat (ucast (drop_bit 31 ?w + take_bit 31 ?w) :: uint32) = t"
    using t(2) by (simp add: unsigned_ucast_eq take_bit_eq_mod)
  have not_M: "t \<noteq> ?M"
  proof
    assume "t = ?M"
    then have "?M dvd ?p"
      using t(1) by (simp add: dvd_eq_mod_eq_0)
    then have "?M dvd unat seed"
      using multiplier_coprime coprime_dvd_mult_left_iff by blast
    then show False
      using assms nat_dvd_not_less by blast
  qed
  have r: "unat (Random_Next seed) = (if t > ?M then t - ?M else t)"
    using u unfolding Random_Next_def Let_def m
    by (auto simp: word_less_nat_alt unat_sub_le)
  also have "\<dots> = t mod ?M"
    using not_M t(2) by (auto simp: le_mod_geq)
  finally show eq: "unat (Random_Next seed) = ?p mod ?M"
    using t(1) by simp
  show "unat (Random_Next seed) < ?M"
    unfolding eq by simp
  have "?p mod ?M \<noteq> 0"
    using multiplier_coprime coprime_dvd_mult_left_iff assms nat_dvd_not_less
    by (metis dvd_eq_mod_eq_0)
  then show "0 < unat (Random_Next seed)"
    unfolding eq by simp
qed

end
