(* ===== verification/Ldb_Skiplist_Laws.thy ===== *)
theory Ldb_Skiplist_Laws
  imports Ldb_Skiplist
begin

text \<open>
  Correctness of the skip list.  A well-formed list is a chain of nodes in key order in which every link
  leads to the next node that is high enough; the searches end on such a list and find what a search
  of the sorted list of keys finds, insertion keeps it well-formed, and the iterators move over the keys.
\<close>

section \<open>Well-formed lists\<close>

definition sl_height :: "'k skiplist \<Rightarrow> nat \<Rightarrow> nat" where
  "sl_height sl x = length (nnext (sl_nodes sl ! x))"

text \<open>The link of a node at a level is the first node behind it that is high enough.\<close>

fun chain_ok :: "'k skiplist \<Rightarrow> nat list \<Rightarrow> bool" where
  "chain_ok sl [] \<longleftrightarrow> True"
| "chain_ok sl (x # post) \<longleftrightarrow>
     (\<forall>l < sl_height sl x. nnext (sl_nodes sl ! x) ! l = find (\<lambda>j. l < sl_height sl j) post) \<and>
     chain_ok sl post"

definition sl_wf :: "('k \<Rightarrow> bool) \<Rightarrow> ('k \<Rightarrow> 'k \<Rightarrow> int) \<Rightarrow> 'k skiplist \<Rightarrow> nat list \<Rightarrow> bool" where
  "sl_wf ok cmp sl ids \<longleftrightarrow>
     distinct (head_ptr # ids) \<and> set (head_ptr # ids) = {..< length (sl_nodes sl)} \<and>
     sl_height sl head_ptr = kMaxHeight \<and> 1 \<le> sl_max_height sl \<and> sl_max_height sl \<le> kMaxHeight \<and>
     (\<forall>i \<in> set ids. 1 \<le> sl_height sl i \<and> sl_height sl i \<le> sl_max_height sl \<and> ok (node_key sl i)) \<and>
     sorted_wrt (\<lambda>i j. cmp (node_key sl i) (node_key sl j) < 0) ids \<and>
     chain_ok sl (head_ptr # ids)"

text \<open>A list holds the keys \<open>ks\<close>, in increasing order.\<close>

definition sl_holds :: "('k \<Rightarrow> bool) \<Rightarrow> ('k \<Rightarrow> 'k \<Rightarrow> int) \<Rightarrow> 'k skiplist \<Rightarrow> 'k list \<Rightarrow> bool" where
  "sl_holds ok cmp sl ks \<longleftrightarrow> (\<exists>ids. sl_wf ok cmp sl ids \<and> ks = map (node_key sl) ids)"

lemma find_append: "find P (xs @ ys) = (case find P xs of None \<Rightarrow> find P ys | Some x \<Rightarrow> Some x)"
  by (induction xs) auto

lemma find_Some_split:
  assumes "find P xs = Some x"
  obtains a b where "xs = a @ x # b" "\<forall>y \<in> set a. \<not> P y" "P x"
proof -
  have "\<exists>a b. xs = a @ x # b \<and> (\<forall>y \<in> set a. \<not> P y) \<and> P x"
    using assms
  proof (induction xs)
    case (Cons y ys)
    show ?case
    proof (cases "P y")
      case True
      then show ?thesis
        using Cons.prems by (intro exI [of _ "[]"] exI [of _ ys]) simp
    next
      case False
      then obtain a b where "ys = a @ x # b" "\<forall>y \<in> set a. \<not> P y" "P x"
        using Cons by auto
      with False show ?thesis
        by (intro exI [of _ "y # a"] exI [of _ b]) simp
    qed
  qed simp
  then show ?thesis
    using that by blast
qed

lemma find_None_all: "find P xs = None \<longleftrightarrow> (\<forall>x \<in> set xs. \<not> P x)"
  by (auto simp: find_None_iff)

lemma chain_ok_append: "chain_ok sl (pre @ post) \<Longrightarrow> chain_ok sl post"
  by (induction pre) auto

lemma node_Next_chain:
  assumes "sl_wf ok cmp sl ids" and "head_ptr # ids = pre @ x # post" and "l < sl_height sl x"
  shows "node_Next sl x l = Some (find (\<lambda>j. l < sl_height sl j) post)"
proof -
  have "chain_ok sl (x # post)"
    using assms(1,2) chain_ok_append [of sl pre "x # post"] by (simp add: sl_wf_def)
  moreover have "x \<in> set (head_ptr # ids)"
    unfolding assms(2) by simp
  then have "x < length (sl_nodes sl)"
    using assms(1) unfolding sl_wf_def by blast
  ultimately show ?thesis
    using assms(3) by (simp add: node_Next_def sl_height_def)
qed

lemma post_nodes:
  assumes "sl_wf ok cmp sl ids" and "head_ptr # ids = pre @ x # post"
  shows "\<forall>j \<in> set post. 0 < sl_height sl j"
proof -
  have "set post \<subseteq> set ids"
    using assms(2) by (cases pre) auto
  then show ?thesis
    using assms(1) by (force simp: sl_wf_def)
qed

text \<open>What a search leaves in \<open>prev\<close> when it goes down from \<open>level\<close> at \<open>x\<close>.\<close>

definition fill_prev ::
  "('k \<Rightarrow> 'k \<Rightarrow> int) \<Rightarrow> 'k skiplist \<Rightarrow> 'k \<Rightarrow> nat \<Rightarrow> nat \<Rightarrow> nat list \<Rightarrow> nat option list \<Rightarrow> nat option list" where
  "fill_prev cmp sl key level x post p =
     map (\<lambda>m. if m \<le> level
       then Some (last (filter (\<lambda>j. m < sl_height sl j) (x # takeWhile (\<lambda>j. cmp (node_key sl j) key < 0) post)))
       else p ! m) [0 ..< length p]"

context key_preorder
begin

lemma search_skip:
  assumes "sl_wf ok cmp sl ids" and "head_ptr # ids = pre @ x # a @ j # b"
    and "ok key" and "cmp (node_key sl j) key < 0"
  shows "\<forall>i \<in> set (a @ [j]). cmp (node_key sl i) key < 0"
proof -
  have ids: "\<exists>pre'. ids = pre' @ a @ j # b"
    using assms(2) by (cases pre) auto
  then have "\<forall>i \<in> set a. cmp (node_key sl i) (node_key sl j) < 0"
    using assms(1) by (auto simp: sl_wf_def sorted_wrt_append)
  moreover have "\<forall>i \<in> set (a @ [j]). ok (node_key sl i)"
    using assms(1) ids by (auto simp: sl_wf_def)
  ultimately have "cmp (node_key sl i) key < 0" if "i \<in> set a" for i
    using cmp_trans [of "node_key sl i" "node_key sl j" key] assms(3,4) that by simp
  then show ?thesis
    using assms(4) by simp
qed

lemma FindGE_loop_wf:
  assumes "sl_wf ok cmp sl ids" and "ok key"
    and "head_ptr # ids = pre @ x # post" and "level < sl_height sl x"
    and "\<And>p. prev = Some p \<Longrightarrow> level < length p"
  shows "FindGE_loop cmp sl key x level prev =
    Some (find (\<lambda>j. \<not> cmp (node_key sl j) key < 0) post, map_option (fill_prev cmp sl key level x post) prev)"
  using assms(3-5)
proof (induction "level + length post" arbitrary: level pre x post prev rule: less_induct)
  case less
  let ?P = "\<lambda>j. cmp (node_key sl j) key < 0"
  let ?nx = "find (\<lambda>j. level < sl_height sl j) post"
  have next_eq: "node_Next sl x level = Some ?nx"
    by (rule node_Next_chain [OF assms(1) less.prems(1,2)])
  show ?case
  proof (cases "KeyIsAfterNode cmp sl key ?nx")
    case True
    then obtain j where j: "?nx = Some j" "?P j"
      by (auto simp: KeyIsAfterNode_def split: option.splits)
    obtain a b where ab: "post = a @ j # b" "\<forall>y \<in> set a. \<not> level < sl_height sl y" "level < sl_height sl j"
      using j(1) by (rule find_Some_split)
    have sk: "\<forall>i \<in> set (a @ [j]). ?P i"
      using search_skip [OF assms(1) _ assms(2) j(2), of pre x a b] less.prems(1) ab(1) by simp
    then have f: "find (\<lambda>j. \<not> ?P j) a = None"
      by (simp add: find_None_all)
    have "takeWhile ?P post = a @ j # takeWhile ?P b"
      using sk by (simp add: ab(1) takeWhile_append2)
    then have "fill_prev cmp sl key level x post = fill_prev cmp sl key level j b"
      using ab(3) by (auto simp: fill_prev_def)
    moreover have "FindGE_loop cmp sl key j level prev =
        Some (find (\<lambda>j. \<not> ?P j) b, map_option (fill_prev cmp sl key level j b) prev)"
      using less.hyps [of level b "pre @ x # a" j prev] less.prems ab by simp
    ultimately show ?thesis
      using True j f sk by (subst FindGE_loop.simps) (simp add: next_eq find_append ab(1))
  next
    case False
    have none: "\<forall>y \<in> set (takeWhile ?P post). \<not> level < sl_height sl y"
    proof (cases ?nx)
      case None
      then show ?thesis
        by (auto simp: find_None_all dest: set_takeWhileD)
    next
      case (Some j)
      then obtain a b where ab: "post = a @ j # b" "\<forall>y \<in> set a. \<not> level < sl_height sl y"
        by (rule find_Some_split)
      have "\<not> ?P j"
        using False Some by (simp add: KeyIsAfterNode_def)
      then have "set (takeWhile ?P post) \<subseteq> set a"
        unfolding ab(1) by (induction a) auto
      with ab(2) show ?thesis by blast
    qed
    let ?prev = "map_option (\<lambda>p. p[level := Some x]) prev"
    have here: "filter (\<lambda>j. level < sl_height sl j) (takeWhile ?P post) = []"
      using none by (simp add: filter_empty_conv)
    show ?thesis
    proof (cases level)
      case 0
      have pos: "\<forall>j \<in> set post. 0 < sl_height sl j"
        by (rule post_nodes [OF assms(1) less.prems(1)])
      have "?nx = find (\<lambda>j. \<not> ?P j) post"
        using False 0 pos by (cases post) (auto simp: KeyIsAfterNode_def)
      moreover have "fill_prev cmp sl key level x post q = q[level := Some x]" for q
        using less.prems(2) here unfolding 0 fill_prev_def
        by (intro nth_equalityI) (auto simp: nth_list_update)
      then have "map_option (fill_prev cmp sl key level x post) prev = ?prev"
        by (cases prev) simp_all
      ultimately show ?thesis
        using False 0 next_eq by (subst FindGE_loop.simps) (simp add: Let_def)
    next
      case (Suc l)
      have "FindGE_loop cmp sl key x l ?prev =
          Some (find (\<lambda>j. \<not> ?P j) post, map_option (fill_prev cmp sl key l x post) ?prev)"
        using less.hyps [of l post pre x ?prev] less.prems Suc by fastforce
      moreover have "fill_prev cmp sl key l x post (q[level := Some x]) = fill_prev cmp sl key level x post q"
        for q
        using less.prems(2) here unfolding Suc fill_prev_def
        by (intro nth_equalityI) (auto simp: nth_list_update le_Suc_eq)
      then have "map_option (fill_prev cmp sl key l x post) ?prev = map_option (fill_prev cmp sl key level x post) prev"
        by (cases prev) simp_all
      ultimately show ?thesis
        using False Suc next_eq by (subst FindGE_loop.simps) (simp add: Let_def)
    qed
  qed
qed

lemma FindGreaterOrEqual_wf:
  assumes "sl_wf ok cmp sl ids" and "ok key" and "\<And>p. prev = Some p \<Longrightarrow> length p = kMaxHeight"
  shows "FindGreaterOrEqual cmp sl key prev =
    Some (find (\<lambda>j. \<not> cmp (node_key sl j) key < 0) ids,
      map_option (fill_prev cmp sl key (sl_max_height sl - 1) head_ptr ids) prev)"
proof -
  have "sl_max_height sl - 1 < kMaxHeight" "sl_height sl head_ptr = kMaxHeight"
    using assms(1) by (auto simp: sl_wf_def)
  then show ?thesis
    unfolding FindGreaterOrEqual_def using assms
    by (intro FindGE_loop_wf [where pre = "[]" and ids = ids]) auto
qed

lemma FindLT_loop_wf:
  assumes "sl_wf ok cmp sl ids" and "ok key"
    and "head_ptr # ids = pre @ x # post" and "level < sl_height sl x"
    and "x = head_ptr \<or> cmp (node_key sl x) key < 0"
  shows "FindLT_loop cmp sl key x level = Some (last (x # takeWhile (\<lambda>j. cmp (node_key sl j) key < 0) post))"
  using assms(3-5)
proof (induction "level + length post" arbitrary: level pre x post rule: less_induct)
  case less
  let ?P = "\<lambda>j. cmp (node_key sl j) key < 0"
  let ?nx = "find (\<lambda>j. level < sl_height sl j) post"
  have next_eq: "node_Next sl x level = Some ?nx"
    by (rule node_Next_chain [OF assms(1) less.prems(1,2)])
  show ?case
  proof (cases "\<exists>j. ?nx = Some j \<and> ?P j")
    case True
    then obtain j where j: "?nx = Some j" "?P j" by blast
    obtain a b where ab: "post = a @ j # b" "level < sl_height sl j"
      using j(1) by (rule find_Some_split)
    have sk: "\<forall>i \<in> set (a @ [j]). ?P i"
      using search_skip [OF assms(1) _ assms(2) j(2), of pre x a b] less.prems(1) ab(1) by simp
    have "takeWhile ?P post = a @ j # takeWhile ?P b"
      using sk by (simp add: ab(1) takeWhile_append2)
    moreover have "FindLT_loop cmp sl key j level = Some (last (j # takeWhile ?P b))"
      using less.hyps [of level b "pre @ x # a" j] less.prems(1) ab j(2) by simp
    ultimately show ?thesis
      using less.prems(3) j by (subst FindLT_loop.simps) (simp add: next_eq)
  next
    case False
    then have stop: "case ?nx of None \<Rightarrow> True | Some n \<Rightarrow> 0 \<le> cmp (node_key sl n) key"
      by (auto split: option.split)
    show ?thesis
    proof (cases level)
      case 0
      have pos: "\<forall>j \<in> set post. 0 < sl_height sl j"
        by (rule post_nodes [OF assms(1) less.prems(1)])
      then have "takeWhile ?P post = []"
        using False 0 by (cases post) auto
      then show ?thesis
        using less.prems(3) stop 0 next_eq by (subst FindLT_loop.simps) simp
    next
      case (Suc l)
      have "FindLT_loop cmp sl key x l = Some (last (x # takeWhile ?P post))"
        using less.hyps [of l post pre x] less.prems Suc by simp
      then show ?thesis
        using less.prems(3) stop Suc next_eq by (subst FindLT_loop.simps) simp
    qed
  qed
qed

lemma FindLast_loop_wf:
  assumes "sl_wf ok cmp sl ids" and "head_ptr # ids = pre @ x # post" and "level < sl_height sl x"
  shows "FindLast_loop sl x level = Some (last (x # post))"
  using assms(2,3)
proof (induction "level + length post" arbitrary: level pre x post rule: less_induct)
  case less
  let ?nx = "find (\<lambda>j. level < sl_height sl j) post"
  have next_eq: "node_Next sl x level = Some ?nx"
    by (rule node_Next_chain [OF assms(1) less.prems])
  show ?case
  proof (cases ?nx)
    case None
    show ?thesis
    proof (cases level)
      case 0
      have "\<forall>j \<in> set post. 0 < sl_height sl j"
        by (rule post_nodes [OF assms(1) less.prems(1)])
      then have "post = []"
        using None 0 by (cases post) auto
      then show ?thesis
        using None 0 next_eq by (subst FindLast_loop.simps) simp
    next
      case (Suc l)
      then show ?thesis
        using None less.hyps [of l post pre x] less.prems next_eq
        by (subst FindLast_loop.simps) simp
    qed
  next
    case (Some j)
    obtain a b where ab: "post = a @ j # b" "level < sl_height sl j"
      using Some by (rule find_Some_split)
    then have "FindLast_loop sl j level = Some (last (j # b))"
      using less.hyps [of level b "pre @ x # a" j] less.prems(1) by simp
    then show ?thesis
      using Some ab(1) by (subst FindLast_loop.simps) (simp add: next_eq)
  qed
qed

end

section \<open>Insertion\<close>

text \<open>The nodes after linking node \<open>n\<close> at the levels \<open>L\<close> behind \<open>pr\<close>.\<close>

definition linked :: "(nat \<Rightarrow> nat) \<Rightarrow> nat \<Rightarrow> nat set \<Rightarrow> 'k sl_node list \<Rightarrow> 'k sl_node list" where
  "linked pr n L ns =
     map (\<lambda>j. (ns ! j)\<lparr>nnext := map (\<lambda>l.
         if l \<in> L \<and> j = n then nnext (ns ! pr l) ! l
         else if l \<in> L \<and> j = pr l then Some n else nnext (ns ! j) ! l) [0 ..< length (nnext (ns ! j))]\<rparr>)
       [0 ..< length ns]"

lemma length_linked [simp]: "length (linked pr n L ns) = length ns"
  by (simp add: linked_def)

lemma linked_nth:
  assumes "j < length ns"
  shows "nkey (linked pr n L ns ! j) = nkey (ns ! j)"
    and "length (nnext (linked pr n L ns ! j)) = length (nnext (ns ! j))"
    and "l < length (nnext (ns ! j)) \<Longrightarrow> nnext (linked pr n L ns ! j) ! l =
      (if l \<in> L \<and> j = n then nnext (ns ! pr l) ! l
       else if l \<in> L \<and> j = pr l then Some n else nnext (ns ! j) ! l)"
proof -
  let ?f = "\<lambda>l. if l \<in> L \<and> j = n then nnext (ns ! pr l) ! l
         else if l \<in> L \<and> j = pr l then Some n else nnext (ns ! j) ! l"
  have node: "linked pr n L ns ! j = (ns ! j)\<lparr>nnext := map ?f [0 ..< length (nnext (ns ! j))]\<rparr>"
    using assms by (simp add: linked_def)
  show "nkey (linked pr n L ns ! j) = nkey (ns ! j)"
    and "length (nnext (linked pr n L ns ! j)) = length (nnext (ns ! j))"
    unfolding node by simp_all
  show "l < length (nnext (ns ! j)) \<Longrightarrow> nnext (linked pr n L ns ! j) ! l = ?f l"
    unfolding node using nth_map_upt [of l "length (nnext (ns ! j))" 0 ?f] by simp
qed

lemma sl_node_eqI: "nkey a = nkey b \<Longrightarrow> nnext a = nnext b \<Longrightarrow> a = (b :: 'k sl_node)"
  by (cases a, cases b) simp

lemma linked_empty: "linked pr n {} ns = ns"
  by (rule nth_equalityI) (auto intro!: sl_node_eqI nth_equalityI simp: linked_nth)

definition can_link :: "(nat \<Rightarrow> nat) \<Rightarrow> nat \<Rightarrow> nat list \<Rightarrow> 'k sl_node list \<Rightarrow> bool" where
  "can_link pr n is ns \<longleftrightarrow> n < length ns \<and> distinct is \<and>
     (\<forall>i \<in> set is. i < length (nnext (ns ! n)) \<and> pr i \<noteq> n \<and> pr i < length ns \<and> i < length (nnext (ns ! pr i)))"

lemma linked_insert:
  assumes "can_link pr n (i # is) ns"
  shows "linked pr n (set is) (linked pr n {i} ns) = linked pr n (set (i # is)) ns"
proof (rule nth_equalityI)
  fix j
  assume "j < length (linked pr n (set is) (linked pr n {i} ns))"
  then have j: "j < length ns" by simp
  show "linked pr n (set is) (linked pr n {i} ns) ! j = linked pr n (set (i # is)) ns ! j"
    using assms j
    by (intro sl_node_eqI nth_equalityI) (auto simp: linked_nth can_link_def)
qed simp

lemma link_levels_linked:
  assumes "can_link pr n is (sl_nodes sl)" and "\<forall>i \<in> set is. prev ! i = Some (pr i)"
  shows "link_levels prev n is sl = Some (sl\<lparr>sl_nodes := linked pr n (set is) (sl_nodes sl)\<rparr>)"
  using assms
proof (induction "is" arbitrary: sl)
  case Nil
  then show ?case by (simp add: linked_empty)
next
  case (Cons i "is")
  let ?ns = "sl_nodes sl"
  let ?sl1 = "sl\<lparr>sl_nodes := linked pr n {i} ?ns\<rparr>"
  have c: "i < length (nnext (?ns ! n))" "pr i \<noteq> n" "pr i < length ?ns" "i < length (nnext (?ns ! pr i))"
      "n < length ?ns"
    using Cons.prems(1) by (auto simp: can_link_def)
  have nodes: "?ns[n := (?ns ! n)\<lparr>nnext := (nnext (?ns ! n))[i := nnext (?ns ! pr i) ! i]\<rparr>,
      pr i := (?ns ! pr i)\<lparr>nnext := (nnext (?ns ! pr i))[i := Some n]\<rparr>] = linked pr n {i} ?ns"
    using c by (intro nth_equalityI sl_node_eqI) (auto simp: linked_nth nth_list_update)
  have "can_link pr n is (linked pr n {i} ?ns)"
    using Cons.prems(1) by (auto simp: can_link_def linked_nth)
  then have "link_levels prev n is ?sl1 = Some (?sl1\<lparr>sl_nodes := linked pr n (set is) (linked pr n {i} ?ns)\<rparr>)"
    using Cons.IH [of ?sl1] Cons.prems(2) by simp
  then show ?case
    using Cons.prems(2) c nodes linked_insert [OF Cons.prems(1)]
    by (simp add: node_Next_def node_SetNext_def)
qed

lemma height_loop_bounds:
  "1 \<le> h \<Longrightarrow> h \<le> kMaxHeight \<Longrightarrow> 1 \<le> fst (height_loop h s) \<and> fst (height_loop h s) \<le> kMaxHeight"
proof (induction h s rule: height_loop.induct)
  case (1 h s)
  show ?case
  proof (cases "h < kMaxHeight \<and> Random_Next s mod 4 = 0")
    case True
    then have "height_loop h s = height_loop (h + 1) (Random_Next s)"
      by (subst height_loop.simps) simp
    moreover have "1 \<le> h + 1" "h + 1 \<le> kMaxHeight"
      using True by simp_all
    ultimately show ?thesis
      using 1 True by metis
  next
    case False
    then show ?thesis
      using 1 by (subst (1 2) height_loop.simps) (auto simp: Let_def)
  qed
qed

text \<open>The last node of a chain that is high enough for a level points past the rest of the chain.\<close>

lemma chain_last:
  assumes "chain_ok sl (vs @ after)" and "filter (\<lambda>j. l < sl_height sl j) vs \<noteq> []"
  shows "nnext (sl_nodes sl ! last (filter (\<lambda>j. l < sl_height sl j) vs)) ! l =
    find (\<lambda>j. l < sl_height sl j) after"
  using assms
proof (induction vs)
  case (Cons v vs)
  show ?case
  proof (cases "filter (\<lambda>j. l < sl_height sl j) vs = []")
    case True
    then have "find (\<lambda>j. l < sl_height sl j) vs = None"
      by (simp add: find_None_all filter_empty_conv)
    moreover have "l < sl_height sl v"
      using Cons.prems(2) True by (simp split: if_splits)
    ultimately show ?thesis
      using Cons.prems(1) True by (simp add: find_append)
  next
    case False
    then show ?thesis
      using Cons by simp
  qed
qed simp

lemma last_filter_suffix:
  "distinct (us @ v # vs) \<Longrightarrow> P v \<Longrightarrow>
    last (filter P (us @ v # vs)) = v \<longleftrightarrow> filter P vs = []"
proof -
  assume d: "distinct (us @ v # vs)" and "P v"
  show ?thesis
  proof (cases "filter P vs = []")
    case False
    then have "last (filter P vs) \<in> set vs"
      using last_in_set [OF False] by simp
    with d False \<open>P v\<close> show ?thesis by auto
  qed (simp add: \<open>P v\<close>)
qed

text \<open>The state after \<open>Insert\<close> has linked node \<open>n\<close> behind the nodes \<open>xs\<close>, before \<open>after\<close>.\<close>

definition inserting ::
  "'k skiplist \<Rightarrow> 'k skiplist \<Rightarrow> nat \<Rightarrow> nat \<Rightarrow> 'k \<Rightarrow> nat list \<Rightarrow> nat list \<Rightarrow> (nat \<Rightarrow> nat) \<Rightarrow> bool" where
  "inserting sl sl' n H k xs after pr \<longleftrightarrow>
     chain_ok sl (xs @ after) \<and> distinct (xs @ n # after) \<and> set (xs @ after) \<subseteq> {..< n} \<and>
     length (sl_nodes sl) = n \<and>
     (\<forall>l < H. pr l = last (filter (\<lambda>j. l < sl_height sl j) xs) \<and> (\<exists>j \<in> set xs. l < sl_height sl j)) \<and>
     sl_nodes sl' = linked pr n {..< H} (sl_nodes sl @ [\<lparr>nkey = k, nnext = replicate H None\<rparr>])"

lemma inserting_heights:
  assumes "inserting sl sl' n H k xs after pr"
  shows "j < n \<Longrightarrow> sl_height sl' j = sl_height sl j" and "sl_height sl' n = H"
  using assms by (simp_all add: inserting_def sl_height_def linked_nth nth_append)

lemma inserting_keys:
  assumes "inserting sl sl' n H k xs after pr"
  shows "j < n \<Longrightarrow> node_key sl' j = node_key sl j" and "node_key sl' n = k"
  using assms by (simp_all add: inserting_def node_key_def linked_nth nth_append)

lemma inserting_pr:
  assumes "inserting sl sl' n H k xs after pr" and "l < H"
  shows "pr l \<in> set xs" and "l < sl_height sl (pr l)"
proof -
  have "filter (\<lambda>j. l < sl_height sl j) xs \<noteq> []" "pr l = last (filter (\<lambda>j. l < sl_height sl j) xs)"
    using assms by (auto simp: inserting_def filter_empty_conv)
  then have "pr l \<in> set (filter (\<lambda>j. l < sl_height sl j) xs)"
    by (metis last_in_set)
  then show "pr l \<in> set xs" "l < sl_height sl (pr l)"
    by auto
qed

lemma inserting_old:
  assumes "inserting sl sl' n H k xs after pr" and "j < n" and "l < sl_height sl j"
  shows "nnext (sl_nodes sl' ! j) ! l = (if l < H \<and> j = pr l then Some n else nnext (sl_nodes sl ! j) ! l)"
  using assms by (simp add: inserting_def linked_nth nth_append sl_height_def)

lemma inserting_new:
  assumes i: "inserting sl sl' n H k xs after pr" and "l < H"
  shows "nnext (sl_nodes sl' ! n) ! l = find (\<lambda>j. l < sl_height sl j) after"
proof -
  have "pr l < n"
    using inserting_pr(1) [OF assms] i by (auto simp: inserting_def)
  moreover have "nnext (sl_nodes sl ! pr l) ! l = find (\<lambda>j. l < sl_height sl j) after"
    using chain_last [of sl xs after l] assms by (force simp: inserting_def filter_empty_conv)
  ultimately show ?thesis
    using assms by (simp add: inserting_def linked_nth nth_append)
qed

lemma inserting_find:
  assumes "inserting sl sl' n H k xs after pr"
  shows "set ys \<subseteq> {..< n} \<Longrightarrow> find (\<lambda>j. l < sl_height sl' j) ys = find (\<lambda>j. l < sl_height sl j) ys"
  by (induction ys) (auto simp: inserting_heights [OF assms])

lemma inserting_after:
  assumes i: "inserting sl sl' n H k xs after pr"
  shows "set ys \<subseteq> set after \<Longrightarrow> chain_ok sl ys \<Longrightarrow> chain_ok sl' ys"
proof (induction ys)
  case (Cons y ys)
  have y: "y < n" "y \<notin> set xs" "set ys \<subseteq> {..< n}"
    using Cons.prems(1) i by (auto simp: inserting_def)
  have "nnext (sl_nodes sl' ! y) ! l = nnext (sl_nodes sl ! y) ! l" if "l < sl_height sl y" for l
    using inserting_old [OF i y(1) that] inserting_pr(1) [OF i, of l] y(2) by auto
  then show ?case
    using Cons y by (auto simp: inserting_heights [OF i] inserting_find [OF i])
qed simp

lemma inserting_before:
  assumes i: "inserting sl sl' n H k xs after pr"
  shows "xs = us @ vs \<Longrightarrow> chain_ok sl (vs @ after) \<Longrightarrow> chain_ok sl' (vs @ n # after)"
proof (induction vs arbitrary: us)
  case Nil
  have "set after \<subseteq> {..< n}"
    using i by (auto simp: inserting_def)
  then show ?case
    using Nil inserting_after [OF i, of after]
    by (auto simp: inserting_heights [OF i] inserting_find [OF i] inserting_new [OF i])
next
  case (Cons v vs)
  have v: "v < n" "set vs \<subseteq> {..< n}" "set after \<subseteq> {..< n}" "distinct (us @ v # vs)"
    using Cons.prems(1) i by (auto simp: inserting_def)
  have pr: "l < H \<Longrightarrow> pr l = v \<longleftrightarrow> filter (\<lambda>j. l < sl_height sl j) vs = []" if "l < sl_height sl v" for l
    using last_filter_suffix [OF v(4), of "\<lambda>j. l < sl_height sl j"] that Cons.prems(1) i
    by (simp add: inserting_def)
  have "nnext (sl_nodes sl' ! v) ! l = find (\<lambda>j. l < sl_height sl' j) (vs @ n # after)"
    if l: "l < sl_height sl v" for l
  proof (cases "filter (\<lambda>j. l < sl_height sl j) vs = []")
    case True
    then have "find (\<lambda>j. l < sl_height sl j) vs = None"
      by (simp add: find_None_all filter_empty_conv)
    then show ?thesis
      using Cons.prems(2) l v pr [OF l] True
      by (auto simp: inserting_old [OF i] find_append inserting_find [OF i] inserting_heights [OF i])
  next
    case False
    then obtain j where "find (\<lambda>j. l < sl_height sl j) vs = Some j"
      by (cases "find (\<lambda>j. l < sl_height sl j) vs") (auto simp: find_None_all filter_empty_conv)
    then show ?thesis
      using Cons.prems(2) l v pr [OF l] False
      by (auto simp: inserting_old [OF i] find_append inserting_find [OF i])
  qed
  then show ?case
    using Cons v by (simp add: inserting_heights [OF i])
qed

lemma inserting_chain:
  assumes i: "inserting sl sl' n H k xs after pr"
  shows "chain_ok sl' (xs @ n # after)"
  by (rule inserting_before [OF i, of "[]"]) (use i in \<open>simp_all add: inserting_def\<close>)

section \<open>The list refines a sorted list of keys\<close>

text \<open>Where a key goes in a sorted list.\<close>

definition sorted_insert :: "('k \<Rightarrow> 'k \<Rightarrow> int) \<Rightarrow> 'k \<Rightarrow> 'k list \<Rightarrow> 'k list" where
  "sorted_insert cmp key ks =
     takeWhile (\<lambda>k. cmp k key < 0) ks @ key # dropWhile (\<lambda>k. cmp k key < 0) ks"

lemma set_sorted_insert [simp]: "set (sorted_insert cmp key ks) = insert key (set ks)"
proof -
  have "set ks = set (takeWhile (\<lambda>k. cmp k key < 0) ks) \<union> set (dropWhile (\<lambda>k. cmp k key < 0) ks)"
    by (metis set_append takeWhile_dropWhile_id)
  then show ?thesis
    by (auto simp: sorted_insert_def)
qed

lemma sl_wf_new: "sl_wf ok cmp (SkipList_new key0) []"
  by (simp add: sl_wf_def SkipList_new_def NewNode_def sl_height_def head_ptr_def kMaxHeight_def
      lessThan_Suc)

lemma sl_holds_new: "sl_holds ok cmp (SkipList_new key0) []"
  using sl_wf_new by (auto simp: sl_holds_def)

context key_preorder
begin

lemma holds_sorted: "sl_holds ok cmp sl ks \<Longrightarrow> sorted_wrt (\<lambda>a b. cmp a b < 0) ks \<and> (\<forall>k \<in> set ks. ok k)"
  by (auto simp: sl_holds_def sl_wf_def sorted_wrt_map)

lemma dropWhile_greater:
  assumes "sorted_wrt (\<lambda>a b. cmp a b < 0) ks" and "\<forall>k \<in> set ks. ok k" and "ok key" and "\<forall>k \<in> set ks. cmp key k \<noteq> 0"
  shows "\<forall>k \<in> set (dropWhile (\<lambda>k. cmp k key < 0) ks). cmp key k < 0"
  using assms(1,2,4)
proof (induction ks)
  case (Cons a ks)
  show ?case
  proof (cases "cmp a key < 0")
    case False
    then have "cmp key a < 0"
      using cmp_not_less [of a key] Cons.prems assms(3) by auto
    moreover from this have "cmp key k < 0" if "k \<in> set ks" for k
      using cmp_trans [of key a k] Cons.prems(1,2) assms(3) that by simp
    ultimately show ?thesis
      using False by simp
  qed (use Cons in simp)
qed simp

lemma sorted_insert_sorted:
  assumes "sorted_wrt (\<lambda>a b. cmp a b < 0) ks" and "\<forall>k \<in> set ks. ok k" and "ok key" and "\<forall>k \<in> set ks. cmp key k \<noteq> 0"
  shows "sorted_wrt (\<lambda>a b. cmp a b < 0) (sorted_insert cmp key ks)"
proof -
  define t where "t = takeWhile (\<lambda>k. cmp k key < 0) ks"
  define d where "d = dropWhile (\<lambda>k. cmp k key < 0) ks"
  have "t @ d = ks"
    by (simp add: t_def d_def)
  then have parts: "sorted_wrt (\<lambda>a b. cmp a b < 0) t" "sorted_wrt (\<lambda>a b. cmp a b < 0) d"
    "\<forall>x \<in> set t. \<forall>y \<in> set d. cmp x y < 0"
    using assms(1) by (metis sorted_wrt_append)+
  have "cmp x key < 0" if "x \<in> set t" for x
    using set_takeWhileD [OF that [unfolded t_def]] by simp
  moreover have "\<forall>y \<in> set d. cmp key y < 0"
    unfolding d_def by (rule dropWhile_greater [OF assms])
  ultimately show ?thesis
    using parts unfolding sorted_insert_def t_def [symmetric] d_def [symmetric]
    by (simp add: sorted_wrt_append)
qed

lemma Insert_wf:
  assumes wf: "sl_wf ok cmp sl ids" and k: "ok key" and fresh: "\<forall>i \<in> set ids. cmp key (node_key sl i) \<noteq> 0"
  shows "\<exists>sl'. SkipList_Insert cmp sl key = Some sl' \<and>
    sl_holds ok cmp sl' (sorted_insert cmp key (map (node_key sl) ids))"
proof -
  let ?P = "\<lambda>j. cmp (node_key sl j) key < 0"
  define n where "n = length (sl_nodes sl)"
  define before where "before = takeWhile ?P ids"
  define after where "after = dropWhile ?P ids"
  define pr where "pr = (\<lambda>l. last (filter (\<lambda>j. l < sl_height sl j) (head_ptr # before)))"
  have ids: "ids = before @ after"
    by (simp add: before_def after_def)
  have w: "distinct (head_ptr # ids)" "set (head_ptr # ids) = {..< n}" "sl_height sl head_ptr = kMaxHeight"
      "1 \<le> sl_max_height sl" "sl_max_height sl \<le> kMaxHeight" "chain_ok sl (head_ptr # ids)"
      "sorted_wrt (\<lambda>i j. cmp (node_key sl i) (node_key sl j) < 0) ids"
    and hs: "\<forall>i \<in> set ids. 1 \<le> sl_height sl i \<and> sl_height sl i \<le> sl_max_height sl \<and> ok (node_key sl i)"
    using wf by (simp_all add: sl_wf_def n_def)
  obtain H s where H: "RandomHeight sl = (H, sl\<lparr>sl_rnd := s\<rparr>)" and Hb: "1 \<le> H" "H \<le> kMaxHeight"
    using height_loop_bounds [of 1 "sl_rnd sl"]
    by (cases "height_loop 1 (sl_rnd sl)") (auto simp: RandomHeight_def kMaxHeight_def)
  let ?init = "replicate kMaxHeight None"
  define prev where "prev = fill_prev cmp sl key (sl_max_height sl - 1) head_ptr ids ?init"
  have search: "FindGreaterOrEqual cmp sl key (Some ?init) = Some (find (\<lambda>j. \<not> ?P j) ids, Some prev)"
    unfolding prev_def using FindGreaterOrEqual_wf [OF wf k, of "Some ?init"] by simp
  have new: "case find (\<lambda>j. \<not> ?P j) ids of None \<Rightarrow> True | Some i \<Rightarrow> cmp key (node_key sl i) \<noteq> 0"
  proof (cases "find (\<lambda>j. \<not> ?P j) ids")
    case (Some i)
    then have "i \<in> set ids"
      by (auto elim: find_Some_split)
    then show ?thesis
      using Some fresh by auto
  qed simp
  define sl2 where "sl2 = sl\<lparr>sl_rnd := s, sl_max_height := max (sl_max_height sl) H\<rparr>"
  define prev' where "prev' = (if H > sl_max_height sl
      then map (\<lambda>i. if sl_max_height sl \<le> i \<and> i < H then Some head_ptr else prev ! i) [0 ..< length prev]
      else prev)"
  define sl3 where "sl3 = snd (NewNode sl2 key H)"
  have ns3: "sl_nodes sl3 = sl_nodes sl @ [\<lparr>nkey = key, nnext = replicate H None\<rparr>]"
    by (simp add: sl3_def sl2_def NewNode_def)
  define sl' where "sl' = sl3\<lparr>sl_nodes := linked pr n {..< H} (sl_nodes sl3)\<rparr>"
  have exec: "SkipList_Insert cmp sl key = link_levels prev' n [0 ..< H] sl3"
    using search new H
    by (cases "H > sl_max_height sl")
      (simp_all add: SkipList_Insert_def prev'_def sl3_def sl2_def NewNode_def n_def Let_def max_def)
  have hi: "l < H \<Longrightarrow> \<exists>j \<in> set (head_ptr # before). l < sl_height sl j" for l
    using w(3) Hb(2) by (intro bexI [of _ head_ptr]) auto
  have before_n: "set (head_ptr # before) \<subseteq> {..< n}"
    using w(2) ids by auto
  have ins: "inserting sl sl' n H key (head_ptr # before) after pr"
    unfolding inserting_def
  proof (intro conjI allI impI)
    show "chain_ok sl ((head_ptr # before) @ after)" "set ((head_ptr # before) @ after) \<subseteq> {..< n}"
      using w(2,6) ids by auto
    show "distinct ((head_ptr # before) @ n # after)"
      using w(1,2) ids by auto
    show "length (sl_nodes sl) = n"
      by (simp add: n_def)
    show "sl_nodes sl' = linked pr n {..< H} (sl_nodes sl @ [\<lparr>nkey = key, nnext = replicate H None\<rparr>])"
      by (simp add: sl'_def ns3)
  qed (use hi in \<open>simp_all add: pr_def\<close>)
  note pr_props = inserting_pr [OF ins]
  have "can_link pr n [0 ..< H] (sl_nodes sl3)"
    using pr_props before_n
    by (force simp: can_link_def ns3 n_def nth_append sl_height_def)
  moreover have "prev' ! i = Some (pr i)" if i: "i < H" for i
  proof (cases "i < sl_max_height sl")
    case True
    then have "prev ! i = Some (pr i)"
      using i Hb(2) by (simp add: prev_def fill_prev_def pr_def before_def)
    then show ?thesis
      using True i Hb(2) by (simp add: prev'_def prev_def fill_prev_def)
  next
    case False
    then have "filter (\<lambda>j. i < sl_height sl j) before = []"
      using hs ids by (force simp: filter_empty_conv)
    then have "pr i = head_ptr"
      using w(3) i Hb(2) by (simp add: pr_def)
    then show ?thesis
      using False i Hb(2) by (simp add: prev'_def prev_def fill_prev_def)
  qed
  ultimately have "link_levels prev' n [0 ..< H] sl3 = Some sl'"
    using link_levels_linked [of pr n "[0 ..< H]" sl3 prev'] by (simp add: sl'_def atLeast0LessThan)
  with exec have run: "SkipList_Insert cmp sl key = Some sl'"
    by simp
  let ?ids = "before @ n # after"
  have old_key: "i \<in> set ids \<Longrightarrow> node_key sl' i = node_key sl i" for i
    using inserting_keys(1) [OF ins] w(2) by auto
  have keys: "map (node_key sl') ?ids = sorted_insert cmp key (map (node_key sl) ids)"
  proof -
    have "sorted_insert cmp key (map (node_key sl) ids) = map (node_key sl) before @ key # map (node_key sl) after"
      by (simp add: sorted_insert_def takeWhile_map dropWhile_map comp_def before_def after_def)
    then show ?thesis
      using old_key inserting_keys(2) [OF ins] by (simp add: ids)
  qed
  have "sl_wf ok cmp sl' ?ids"
    unfolding sl_wf_def
  proof (intro conjI)
    show "distinct (head_ptr # ?ids)"
      using ins by (simp add: inserting_def)
    show "set (head_ptr # ?ids) = {..< length (sl_nodes sl')}"
    proof -
      have "length (sl_nodes sl') = Suc n"
        by (simp add: sl'_def ns3 n_def)
      moreover have "set (head_ptr # ?ids) = insert n (set (head_ptr # ids))"
        unfolding ids by auto
      ultimately show ?thesis
        unfolding w(2) by (simp add: lessThan_Suc)
    qed
    show "sl_height sl' head_ptr = kMaxHeight"
      using inserting_heights(1) [OF ins, of head_ptr] w(2,3) by auto
    show "1 \<le> sl_max_height sl'" "sl_max_height sl' \<le> kMaxHeight"
      using w(4,5) Hb by (simp_all add: sl'_def sl3_def sl2_def NewNode_def)
    have mh: "sl_max_height sl' = max (sl_max_height sl) H"
      by (simp add: sl'_def sl3_def sl2_def NewNode_def)
    have "i < n" if "i \<in> set ids" for i
      using w(2) that by auto
    then show "\<forall>i \<in> set ?ids. 1 \<le> sl_height sl' i \<and> sl_height sl' i \<le> sl_max_height sl' \<and> ok (node_key sl' i)"
      using hs ids Hb(1) k inserting_heights [OF ins] inserting_keys [OF ins] unfolding mh
      by (auto simp: le_max_iff_disj)
    show "sorted_wrt (\<lambda>i j. cmp (node_key sl' i) (node_key sl' j) < 0) ?ids"
      using sorted_insert_sorted [of "map (node_key sl) ids" key] w(7) hs k fresh keys
      unfolding sorted_wrt_map [symmetric, of "\<lambda>a b. cmp a b < 0" "node_key sl'"]
      by (auto simp: sorted_wrt_map)
    show "chain_ok sl' (head_ptr # ?ids)"
      using inserting_chain [OF ins] by simp
  qed
  then show ?thesis
    using run keys by (auto simp: sl_holds_def)
qed

text \<open>The operations on a list that holds the keys \<open>ks\<close>.\<close>

lemma SkipList_Insert_holds:
  assumes "sl_holds ok cmp sl ks" and "ok key" and "\<forall>k \<in> set ks. cmp key k \<noteq> 0"
  shows "\<exists>sl'. SkipList_Insert cmp sl key = Some sl' \<and> sl_holds ok cmp sl' (sorted_insert cmp key ks)"
proof -
  obtain ids where "sl_wf ok cmp sl ids" "ks = map (node_key sl) ids"
    using assms(1) by (auto simp: sl_holds_def)
  with Insert_wf [of sl ids key] assms(2,3) show ?thesis
    by auto
qed

lemma search_key:
  assumes "sl_wf ok cmp sl ids" and "ok key"
  shows "(case find (\<lambda>j. \<not> cmp (node_key sl j) key < 0) ids of None \<Rightarrow> False | Some n \<Rightarrow> cmp key (node_key sl n) = 0)
    \<longleftrightarrow> (\<exists>k \<in> set (map (node_key sl) ids). cmp key k = 0)"
proof -
  have oks: "\<forall>i \<in> set ids. ok (node_key sl i)"
    using assms(1) by (simp add: sl_wf_def)
  have less: "cmp key (node_key sl j) \<noteq> 0" if "j \<in> set ids" "cmp (node_key sl j) key < 0" for j
    using cmp_swap [of "node_key sl j" key] that oks assms(2) by auto
  show ?thesis
  proof (cases "find (\<lambda>j. \<not> cmp (node_key sl j) key < 0) ids")
    case None
    then have "\<forall>j \<in> set ids. cmp (node_key sl j) key < 0"
      by (simp add: find_None_all)
    then show ?thesis
      using None less by simp
  next
    case (Some n)
    then obtain a b where ab: "ids = a @ n # b" "\<forall>j \<in> set a. cmp (node_key sl j) key < 0"
        "\<not> cmp (node_key sl n) key < 0"
      by (auto elim: find_Some_split)
    have later: "\<forall>j \<in> set b. cmp (node_key sl n) (node_key sl j) < 0"
      using assms(1) ab(1) by (auto simp: sl_wf_def sorted_wrt_append)
    have "cmp key (node_key sl j) \<noteq> 0" if "j \<in> set a" for j
      using less ab(1,2) that by simp
    moreover have "cmp key (node_key sl j) \<noteq> 0" if "j \<in> set b" for j
      using cmp_equiv [of key "node_key sl j" "node_key sl n"] later that ab oks assms(2) by auto
    ultimately show ?thesis
      using Some ab(1) by auto
  qed
qed

lemma SkipList_Contains_holds:
  assumes "sl_holds ok cmp sl ks" and "ok key"
  shows "SkipList_Contains cmp sl key = Some (\<exists>k \<in> set ks. cmp key k = 0)"
proof -
  obtain ids where ids: "sl_wf ok cmp sl ids" "ks = map (node_key sl) ids"
    using assms(1) by (auto simp: sl_holds_def)
  then show ?thesis
    using FindGreaterOrEqual_wf [OF ids(1) assms(2), of None] search_key [OF ids(1) assms(2)]
    by (simp add: SkipList_Contains_def)
qed

lemma SkipList_Insert_dup:
  assumes "sl_holds ok cmp sl ks" and "ok key" and "\<exists>k \<in> set ks. cmp key k = 0"
  shows "SkipList_Insert cmp sl key = None"
proof -
  obtain ids where ids: "sl_wf ok cmp sl ids" "ks = map (node_key sl) ids"
    using assms(1) by (auto simp: sl_holds_def)
  then show ?thesis
    using FindGreaterOrEqual_wf [OF ids(1) assms(2), of "Some (replicate kMaxHeight None)"]
      search_key [OF ids(1) assms(2)] assms(3)
    by (auto simp: SkipList_Insert_def split: option.split)
qed

end

section \<open>Iterating\<close>

text \<open>An iterator stands before the keys \<open>rest\<close>, the first of which is its own.\<close>

definition iter_at :: "('k \<Rightarrow> bool) \<Rightarrow> ('k \<Rightarrow> 'k \<Rightarrow> int) \<Rightarrow> 'k skiplist \<Rightarrow> 'k list \<Rightarrow> 'k list \<Rightarrow> sl_iter \<Rightarrow> bool" where
  "iter_at ok cmp sl done rest it \<longleftrightarrow>
     (\<exists>a b. sl_wf ok cmp sl (a @ b) \<and> done = map (node_key sl) a \<and> rest = map (node_key sl) b \<and>
        it = (case b of [] \<Rightarrow> None | n # _ \<Rightarrow> Some n))"

lemma iter_at_key: "iter_at ok cmp sl done rest it \<Longrightarrow>
    sl_key sl it = (case rest of [] \<Rightarrow> None | k # _ \<Rightarrow> Some k) \<and> (sl_Valid it \<longleftrightarrow> rest \<noteq> [])"
  by (auto simp: iter_at_def sl_key_def sl_Valid_def split: list.split)

lemma iter_at_holds: "iter_at ok cmp sl done rest it \<Longrightarrow> sl_holds ok cmp sl (done @ rest)"
  by (auto simp: iter_at_def sl_holds_def)

lemma level0_Next:
  assumes "sl_wf ok cmp sl ids" and "head_ptr # ids = pre @ x # post"
  shows "node_Next sl x 0 = Some (case post of [] \<Rightarrow> None | n # _ \<Rightarrow> Some n)"
proof -
  have "x \<in> set (head_ptr # ids)"
    unfolding assms(2) by simp
  then have "0 < sl_height sl x"
    using assms(1) by (force simp: sl_wf_def kMaxHeight_def)
  then have "node_Next sl x 0 = Some (find (\<lambda>j. 0 < sl_height sl j) post)"
    by (rule node_Next_chain [OF assms])
  moreover have "\<forall>j \<in> set post. 0 < sl_height sl j"
    by (rule post_nodes [OF assms])
  ultimately show ?thesis
    by (cases post) simp_all
qed

lemma sl_SeekToFirst_at:
  assumes "sl_holds ok cmp sl ks"
  shows "\<exists>it. sl_SeekToFirst sl = Some it \<and> iter_at ok cmp sl [] ks it"
proof -
  obtain ids where ids: "sl_wf ok cmp sl ids" "ks = map (node_key sl) ids"
    using assms by (auto simp: sl_holds_def)
  then show ?thesis
    using level0_Next [OF ids(1), of "[]" head_ptr ids]
    by (auto simp: sl_SeekToFirst_def iter_at_def)
qed

lemma sl_Next_at:
  assumes "iter_at ok cmp sl done (k # rest) it"
  shows "\<exists>it'. sl_Next sl it = Some it' \<and> iter_at ok cmp sl (done @ [k]) rest it'"
proof -
  obtain a n b where ab: "sl_wf ok cmp sl (a @ n # b)" "done = map (node_key sl) a" "k = node_key sl n"
      "rest = map (node_key sl) b" "it = Some n"
    using assms by (auto simp: iter_at_def map_eq_Cons_conv)
  have "node_Next sl n 0 = Some (case b of [] \<Rightarrow> None | n # _ \<Rightarrow> Some n)"
    using level0_Next [OF ab(1), of "head_ptr # a" n b] by simp
  moreover have "iter_at ok cmp sl (done @ [k]) rest (case b of [] \<Rightarrow> None | n # _ \<Rightarrow> Some n)"
    unfolding iter_at_def using ab by (intro exI [of _ "a @ [n]"] exI [of _ b]) simp
  ultimately show ?thesis
    using ab(5) by (simp add: sl_Next_def)
qed

context key_preorder
begin

lemma sl_Seek_at:
  assumes "sl_holds ok cmp sl ks" and "ok target"
  shows "\<exists>it. sl_Seek cmp sl target = Some it \<and>
    iter_at ok cmp sl (takeWhile (\<lambda>k. cmp k target < 0) ks) (dropWhile (\<lambda>k. cmp k target < 0) ks) it"
proof -
  obtain ids where ids: "sl_wf ok cmp sl ids" "ks = map (node_key sl) ids"
    using assms(1) by (auto simp: sl_holds_def)
  let ?P = "\<lambda>j. cmp (node_key sl j) target < 0"
  have "find (\<lambda>j. \<not> ?P j) ids = (case dropWhile ?P ids of [] \<Rightarrow> None | n # _ \<Rightarrow> Some n)"
    by (induction ids) simp_all
  then have "sl_Seek cmp sl target = Some (case dropWhile ?P ids of [] \<Rightarrow> None | n # _ \<Rightarrow> Some n)"
    using FindGreaterOrEqual_wf [OF ids(1) assms(2), of None] by (simp add: sl_Seek_def)
  then show ?thesis
    unfolding iter_at_def using ids
    by (intro exI [of _ "case dropWhile ?P ids of [] \<Rightarrow> None | n # _ \<Rightarrow> Some n"] conjI
        exI [of _ "takeWhile ?P ids"] exI [of _ "dropWhile ?P ids"])
      (simp_all add: takeWhile_map dropWhile_map comp_def)
qed

lemma sl_SeekToLast_at:
  assumes "sl_holds ok cmp sl ks"
  shows "\<exists>it. sl_SeekToLast sl = Some it \<and>
    (if ks = [] then it = None else iter_at ok cmp sl (butlast ks) [last ks] it)"
proof -
  obtain ids where ids: "sl_wf ok cmp sl ids" "ks = map (node_key sl) ids"
    using assms by (auto simp: sl_holds_def)
  have "sl_max_height sl - 1 < sl_height sl head_ptr"
    using ids(1) by (auto simp: sl_wf_def)
  then have run: "FindLast sl = Some (last (head_ptr # ids))"
    unfolding FindLast_def using FindLast_loop_wf [OF ids(1), of "[]" head_ptr ids] by simp
  show ?thesis
  proof (cases ids rule: rev_cases)
    case Nil
    then show ?thesis
      using run ids(2) by (simp add: sl_SeekToLast_def)
  next
    case (snoc a n)
    then have "n \<noteq> head_ptr"
      using ids(1) by (auto simp: sl_wf_def)
    moreover have "iter_at ok cmp sl (butlast ks) [last ks] (Some n)"
      unfolding iter_at_def using ids snoc by (intro exI [of _ a] exI [of _ "[n]"]) simp
    ultimately show ?thesis
      using run snoc ids(2) by (simp add: sl_SeekToLast_def)
  qed
qed

lemma sl_Prev_at:
  assumes "iter_at ok cmp sl done (k # rest) it"
  shows "\<exists>it'. sl_Prev cmp sl it = Some it' \<and>
    (if done = [] then it' = None else iter_at ok cmp sl (butlast done) (last done # k # rest) it')"
proof -
  obtain a n b where ab: "sl_wf ok cmp sl (a @ n # b)" "done = map (node_key sl) a" "k = node_key sl n"
      "rest = map (node_key sl) b" "it = Some n"
    using assms by (auto simp: iter_at_def map_eq_Cons_conv)
  let ?P = "\<lambda>j. cmp (node_key sl j) (node_key sl n) < 0"
  have n: "ok (node_key sl n)" and a: "\<forall>j \<in> set a. ?P j"
    using ab(1) by (auto simp: sl_wf_def sorted_wrt_append)
  then have "takeWhile ?P (a @ n # b) = a"
    by (simp add: takeWhile_append2 cmp_refl)
  moreover have "sl_max_height sl - 1 < sl_height sl head_ptr"
    using ab(1) by (auto simp: sl_wf_def)
  ultimately have run: "FindLessThan cmp sl (node_key sl n) = Some (last (head_ptr # a))"
    unfolding FindLessThan_def
    using FindLT_loop_wf [OF ab(1) n, of "[]" head_ptr "a @ n # b"] by simp
  show ?thesis
  proof (cases a rule: rev_cases)
    case Nil
    then show ?thesis
      using run ab by (simp add: sl_Prev_def)
  next
    case (snoc c m)
    then have "m \<noteq> head_ptr"
      using ab(1) by (auto simp: sl_wf_def)
    moreover have "iter_at ok cmp sl (butlast done) (last done # k # rest) (Some m)"
      unfolding iter_at_def using ab snoc by (intro exI [of _ c] exI [of _ "m # n # b"]) simp
    ultimately show ?thesis
      using run snoc ab by (simp add: sl_Prev_def)
  qed
qed

end

section \<open>Insertion and iteration end to end\<close>

text \<open>The keys an iterator visits from where it stands.\<close>

partial_function (option) sl_walk :: "'k skiplist \<Rightarrow> sl_iter \<Rightarrow> 'k list option" where
  "sl_walk sl it =
     (case sl_key sl it of
        None \<Rightarrow> Some []
      | Some k \<Rightarrow>
          (case sl_Next sl it of
             None \<Rightarrow> None
           | Some it' \<Rightarrow> Option.bind (sl_walk sl it') (\<lambda>ks. Some (k # ks))))"

lemma sl_walk_at: "iter_at ok cmp sl before rest it \<Longrightarrow> sl_walk sl it = Some rest"
proof (induction rest arbitrary: before it)
  case Nil
  then have "sl_key sl it = None"
    using iter_at_key by fastforce
  then show ?case
    by (subst sl_walk.simps) simp
next
  case (Cons k rest)
  then have "sl_key sl it = Some k"
    using iter_at_key by fastforce
  moreover obtain it' where "sl_Next sl it = Some it'" "sl_walk sl it' = Some rest"
    using sl_Next_at [OF Cons.prems] Cons.IH by blast
  ultimately show ?case
    by (subst sl_walk.simps) simp
qed

context key_preorder
begin

lemma insert_all:
  assumes "sl_holds ok cmp sl ks" and "\<forall>k \<in> set keys. ok k" and "\<forall>k \<in> set keys. \<forall>j \<in> set ks. cmp k j \<noteq> 0"
    and "sorted_wrt (\<lambda>a b. cmp b a \<noteq> 0) keys"
  shows "\<exists>sl' ks'. fold_opt (\<lambda>k sl. SkipList_Insert cmp sl k) keys sl = Some sl' \<and>
    sl_holds ok cmp sl' ks' \<and> set ks' = set ks \<union> set keys"
  using assms
proof (induction keys arbitrary: sl ks)
  case (Cons k keys)
  have ok: "ok k" and fresh: "\<forall>j \<in> set ks. cmp k j \<noteq> 0"
    using Cons.prems by simp_all
  obtain sl1 where sl1: "SkipList_Insert cmp sl k = Some sl1" "sl_holds ok cmp sl1 (sorted_insert cmp k ks)"
    using SkipList_Insert_holds [OF Cons.prems(1) ok fresh] by blast
  obtain sl' ks' where "fold_opt (\<lambda>k sl. SkipList_Insert cmp sl k) keys sl1 = Some sl'"
      "sl_holds ok cmp sl' ks'" "set ks' = set (sorted_insert cmp k ks) \<union> set keys"
    using Cons.IH [OF sl1(2)] Cons.prems by auto
  then show ?case
    using sl1(1) by (intro exI [of _ sl'] exI [of _ ks']) simp
qed auto

end

text \<open>
  Claim C36: Insertion into the skip list sorts.  Inserting distinct keys in any order into a new list
  succeeds, whatever heights the generator draws; afterwards \<open>Contains\<close> holds for exactly these keys,
  and an iterator from the first node visits them in increasing order and ends.
\<close>

theorem skiplist_sorts:
  assumes "distinct keys"
  shows "\<exists>sl it. fold_opt (\<lambda>k sl. SkipList_Insert Bytewise_Compare sl k) keys (SkipList_new k0) = Some sl \<and>
    (\<forall>k. SkipList_Contains Bytewise_Compare sl k = Some (k \<in> set keys)) \<and>
    sl_SeekToFirst sl = Some it \<and> sl_walk sl it = Some (sort keys)"
proof -
  let ?ok = "\<lambda>_ :: string. True"
  have "sorted_wrt (\<lambda>a b. Bytewise_Compare b a \<noteq> 0) keys"
    using assms by (induction keys) (auto simp: bytewise.cmp_eq)
  then obtain sl ks where sl: "fold_opt (\<lambda>k sl. SkipList_Insert Bytewise_Compare sl k) keys (SkipList_new k0) = Some sl"
      "sl_holds ?ok Bytewise_Compare sl ks" "set ks = set keys"
    using bytewise.insert_all [OF sl_holds_new, of keys k0] by auto
  have "sorted_wrt (<) ks"
    using bytewise.holds_sorted [OF sl(2)] by (simp add: Bytewise_Compare_def Slice_compare_less)
  then have "ks = sort keys"
    using assms sl(3) by (metis distinct_sort set_sort sorted_distinct_set_unique sorted_sort strict_sorted_iff)
  moreover obtain it where it: "sl_SeekToFirst sl = Some it" "iter_at ?ok Bytewise_Compare sl [] ks it"
    using sl_SeekToFirst_at [OF sl(2)] by blast
  ultimately have "sl_walk sl it = Some (sort keys)"
    using sl_walk_at [OF it(2)] by simp
  then show ?thesis
    using sl it(1) bytewise.SkipList_Contains_holds [OF sl(2)] by (auto simp: bytewise.cmp_eq)
qed

theorem skiplist_sorts_witness:
  "\<exists>sl it. fold_opt (\<lambda>k sl. SkipList_Insert Bytewise_Compare sl k) [''b'', ''a'', ''ab''] (SkipList_new []) = Some sl \<and>
    SkipList_Contains Bytewise_Compare sl ''ab'' = Some True \<and> SkipList_Contains Bytewise_Compare sl ''c'' = Some False \<and>
    sl_SeekToFirst sl = Some it \<and> sl_walk sl it = Some (sort [''b'', ''a'', ''ab''])"
  using skiplist_sorts [of "[''b'', ''a'', ''ab'']" "[]"] by auto

end
