(* ===== verification/Ldb_Memtable.thy ===== *)
theory Ldb_Memtable
  imports Ldb_Batch Ldb_Skiplist_Laws
begin

unbundle bit_operations_syntax

text \<open>
  \<open>memtable.h\<close> and \<open>memtable.cc\<close>: the table of recent writes, a skip list of entries.  An entry is the
  buffer the code builds, the internal key and the value, each behind its length; the list orders
  entries by the internal key in them.  Reading past a buffer is undefined, \<open>None\<close>.
\<close>

section \<open>Entries\<close>

text \<open>\<open>GetLengthPrefixedSlice\<close>: the length is in the first five bytes.  The slice, and what follows it.\<close>

definition mem_slice :: "string \<Rightarrow> (string \<times> string) option" where
  "mem_slice data =
     (case GetVarint32Ptr (take 5 data) of
        None \<Rightarrow> None
      | Some (len, q) \<Rightarrow>
          let p = drop (length (take 5 data) - length q) data in
          if unat len \<le> length p then Some (take (unat len) p, drop (unat len) p) else None)"

definition KeyComparator :: "(string \<Rightarrow> string \<Rightarrow> int) \<Rightarrow> string \<Rightarrow> string \<Rightarrow> int option" where
  "KeyComparator user_cmp aptr bptr =
     do { (a, _) \<leftarrow> mem_slice aptr;
          (b, _) \<leftarrow> mem_slice bptr;
          InternalKeyComparator_Compare user_cmp a b }"

text \<open>The comparator as it is handed to the skip list, for entries.\<close>

definition mem_cmp :: "(string \<Rightarrow> string \<Rightarrow> int) \<Rightarrow> string \<Rightarrow> string \<Rightarrow> int" where
  "mem_cmp user_cmp a b = the (KeyComparator user_cmp a b)"

definition EncodeKey :: "string \<Rightarrow> string" where
  "EncodeKey target = PutVarint32 [] (of_nat (length target)) @ target"

section \<open>The table\<close>

record MemTable =
  mt_refs :: int
  mt_table :: "string skiplist"

text \<open>The head of the list holds a null pointer as its key, which nothing reads.\<close>

definition MemTable_new :: MemTable where
  "MemTable_new = \<lparr>mt_refs = 0, mt_table = SkipList_new []\<rparr>"

definition MemTable_Ref :: "MemTable \<Rightarrow> MemTable" where
  "MemTable_Ref mt = mt\<lparr>mt_refs := mt_refs mt + 1\<rparr>"

text \<open>\<open>Unref\<close>: the inner \<open>None\<close> is a table that was deleted.\<close>

definition MemTable_Unref :: "MemTable \<Rightarrow> MemTable option option" where
  "MemTable_Unref mt =
     (let mt' = mt\<lparr>mt_refs := mt_refs mt - 1\<rparr> in
      if mt_refs mt' \<ge> 0 then Some (if mt_refs mt' \<le> 0 then None else Some mt') else None)"

definition MemTable_Add ::
  "(string \<Rightarrow> string \<Rightarrow> int) \<Rightarrow> MemTable \<Rightarrow> uint64 \<Rightarrow> ValueType \<Rightarrow> string \<Rightarrow> string \<Rightarrow> MemTable option" where
  "MemTable_Add user_cmp mt s t key value =
     (let key_size = length key;
          val_size = length value;
          internal_key_size = key_size + 8;
          encoded_len = VarintLength (of_nat internal_key_size) + internal_key_size +
            VarintLength (of_nat val_size) + val_size;
          buf = EncodeVarint32 (of_nat internal_key_size) @ key @
            EncodeFixed64 (push_bit 8 s OR type_num t) @ EncodeVarint32 (of_nat val_size) @ value
      in if length buf = encoded_len then
           (case SkipList_Insert (mem_cmp user_cmp) (mt_table mt) buf of
              None \<Rightarrow> None
            | Some sl \<Rightarrow> Some (mt\<lparr>mt_table := sl\<rparr>))
         else None)"

text \<open>\<open>Get\<close>: whether the key was found, and the caller's value and status afterwards.\<close>

definition MemTable_Get ::
  "(string \<Rightarrow> string \<Rightarrow> int) \<Rightarrow> MemTable \<Rightarrow> LookupKey \<Rightarrow> string \<Rightarrow> Status \<Rightarrow> (bool \<times> string \<times> Status) option" where
  "MemTable_Get user_cmp mt key value s =
     do { iter \<leftarrow> sl_Seek (mem_cmp user_cmp) (mt_table mt) (memtable_key key);
          if sl_Valid iter then
            do { entry \<leftarrow> sl_key (mt_table mt) iter;
                 (ikey, rest) \<leftarrow> mem_slice entry;
                 ukey \<leftarrow> ExtractUserKey ikey;
                 if user_cmp ukey (lookup_user_key key) = 0 then
                   do { tag \<leftarrow> DecodeFixed64 (drop (length ikey - 8) ikey);
                        (case type_of_byte (unat (tag AND 0xff)) of
                           Some kTypeValue \<Rightarrow> do { (v, _) \<leftarrow> mem_slice rest; Some (True, v, s) }
                         | Some kTypeDeletion \<Rightarrow> Some (True, value, NotFound)
                         | None \<Rightarrow> Some (False, value, s)) }
                 else Some (False, value, s) }
          else Some (False, value, s) }"

section \<open>The iterator\<close>

definition MemIter_Seek :: "(string \<Rightarrow> string \<Rightarrow> int) \<Rightarrow> MemTable \<Rightarrow> string \<Rightarrow> sl_iter option" where
  "MemIter_Seek user_cmp mt k = sl_Seek (mem_cmp user_cmp) (mt_table mt) (EncodeKey k)"

definition MemIter_SeekToFirst :: "MemTable \<Rightarrow> sl_iter option" where
  "MemIter_SeekToFirst mt = sl_SeekToFirst (mt_table mt)"

definition MemIter_SeekToLast :: "MemTable \<Rightarrow> sl_iter option" where
  "MemIter_SeekToLast mt = sl_SeekToLast (mt_table mt)"

definition MemIter_Next :: "MemTable \<Rightarrow> sl_iter \<Rightarrow> sl_iter option" where
  "MemIter_Next mt it = sl_Next (mt_table mt) it"

definition MemIter_Prev :: "(string \<Rightarrow> string \<Rightarrow> int) \<Rightarrow> MemTable \<Rightarrow> sl_iter \<Rightarrow> sl_iter option" where
  "MemIter_Prev user_cmp mt it = sl_Prev (mem_cmp user_cmp) (mt_table mt) it"

definition MemIter_key :: "MemTable \<Rightarrow> sl_iter \<Rightarrow> string option" where
  "MemIter_key mt it = do { e \<leftarrow> sl_key (mt_table mt) it; (k, _) \<leftarrow> mem_slice e; Some k }"

definition MemIter_value :: "MemTable \<Rightarrow> sl_iter \<Rightarrow> string option" where
  "MemIter_value mt it =
     do { e \<leftarrow> sl_key (mt_table mt) it; (k, rest) \<leftarrow> mem_slice e; (v, _) \<leftarrow> mem_slice rest; Some v }"

section \<open>Inserting a batch\<close>

text \<open>\<open>MemTableInserter\<close>: the next sequence number and the table.\<close>

type_synonym inserter = "uint64 \<times> MemTable"

definition Inserter_Put :: "(string \<Rightarrow> string \<Rightarrow> int) \<Rightarrow> string \<Rightarrow> string \<Rightarrow> inserter \<Rightarrow> inserter option" where
  "Inserter_Put user_cmp key value st =
     (case st of (seq, mt) \<Rightarrow>
        (case MemTable_Add user_cmp mt seq kTypeValue key value of
           None \<Rightarrow> None | Some mt' \<Rightarrow> Some (seq + 1, mt')))"

definition Inserter_Delete :: "(string \<Rightarrow> string \<Rightarrow> int) \<Rightarrow> string \<Rightarrow> inserter \<Rightarrow> inserter option" where
  "Inserter_Delete user_cmp key st =
     (case st of (seq, mt) \<Rightarrow>
        (case MemTable_Add user_cmp mt seq kTypeDeletion key [] of
           None \<Rightarrow> None | Some mt' \<Rightarrow> Some (seq + 1, mt')))"

definition InsertInto :: "(string \<Rightarrow> string \<Rightarrow> int) \<Rightarrow> WriteBatch \<Rightarrow> MemTable \<Rightarrow> (Status \<times> MemTable) option" where
  "InsertInto user_cmp b memtable =
     do { seq \<leftarrow> Batch_Sequence b;
          (st, (_, mt)) \<leftarrow> Batch_Iterate (Inserter_Put user_cmp) (Inserter_Delete user_cmp) b (seq, memtable);
          Some (st, mt) }"

section \<open>The bytes of an entry\<close>

definition make_entry :: "string \<Rightarrow> uint64 \<Rightarrow> string \<Rightarrow> string" where
  "make_entry u n rest = EncodeVarint32 (of_nat (length u + 8)) @ make_internal u n @ rest"

definition is_entry :: "string \<Rightarrow> bool" where
  "is_entry e \<longleftrightarrow> (\<exists>u n rest. length u + 8 < 2 ^ 32 \<and> e = make_entry u n rest)"

lemma length_make_internal [simp]: "length (make_internal u n) = length u + 8"
  by (simp add: make_internal_def)

lemma decode_tag [simp]: "DecodeFixed64 (drop (length u) (make_internal u n)) = Some n"
  using decode_make [of u n] by simp

lemma unat_of_length: "n < 2 ^ 32 \<Longrightarrow> unat (of_nat n :: uint32) = n"
  by (simp add: unat_of_nat take_bit_eq_mod)

lemma mem_slice_Encode:
  assumes "length x < 2 ^ 32"
  shows "mem_slice (EncodeVarint32 (of_nat (length x)) @ x @ rest) = Some (x, rest)"
proof -
  let ?e = "EncodeVarint32 (of_nat (length x))"
  let ?d = "?e @ x @ rest"
  have "take 5 ?d = ?e @ take (5 - length ?e) (x @ rest)"
    using length_EncodeVarint32 [of "of_nat (length x)"] by simp
  then have "GetVarint32Ptr (take 5 ?d) = Some (of_nat (length x), take (5 - length ?e) (x @ rest))"
    using GetVarint32_Encode by (simp add: GetVarint32_def)
  moreover have "length (take 5 ?d) - length (take (5 - length ?e) (x @ rest)) = length ?e"
    using length_EncodeVarint32 [of "of_nat (length x)"] by simp
  moreover have "drop (length ?e) ?d = x @ rest"
    by simp
  ultimately show ?thesis
    unfolding mem_slice_def using unat_of_length [OF assms] by (simp only: option.case prod.case Let_def) simp
qed

lemma mem_slice_entry: "length u + 8 < 2 ^ 32 \<Longrightarrow> mem_slice (make_entry u n rest) = Some (make_internal u n, rest)"
  using mem_slice_Encode [of "make_internal u n" rest] by (simp add: make_entry_def)

lemma mem_slice_value: "length v < 2 ^ 32 \<Longrightarrow> mem_slice (PutLengthPrefixedSlice [] v) = Some (v, [])"
  using mem_slice_Encode [of v "[]"] by (simp add: PutLengthPrefixedSlice_def PutVarint32_def)

text \<open>The key inside an entry.\<close>

definition entry_key :: "string \<Rightarrow> string" where
  "entry_key e = fst (the (mem_slice e))"

lemma entry_key_make: "length u + 8 < 2 ^ 32 \<Longrightarrow> entry_key (make_entry u n rest) = make_internal u n"
  by (simp add: entry_key_def mem_slice_entry)

lemma mem_cmp_entries:
  "is_entry a \<Longrightarrow> is_entry b \<Longrightarrow> mem_cmp user_cmp a b = internal_cmp user_cmp (entry_key a) (entry_key b)"
  by (auto simp: is_entry_def mem_cmp_def KeyComparator_def mem_slice_entry entry_key_make internal_cmp_def)

lemma is_internal_entry_key: "is_entry e \<Longrightarrow> is_internal (entry_key e)"
  by (auto simp: is_entry_def entry_key_make)

context user_comparator
begin

lemma mem_order: "key_preorder is_entry (mem_cmp cmp)"
proof -
  have p: "key_preorder is_entry (\<lambda>a b. internal_cmp cmp (entry_key a) (entry_key b))"
    by (rule internal.preorder_by) (rule is_internal_entry_key)
  show ?thesis
  proof
    fix a b c
    assume ab: "is_entry a" "is_entry b"
    show "mem_cmp cmp a a = 0"
      using key_preorder.cmp_refl [OF p, of a] ab by (simp add: mem_cmp_entries)
    show "mem_cmp cmp a b < 0 \<longleftrightarrow> 0 < mem_cmp cmp b a"
      using key_preorder.cmp_swap [OF p, of a b] ab by (simp add: mem_cmp_entries)
    show "is_entry c \<Longrightarrow> mem_cmp cmp a b < 0 \<Longrightarrow> mem_cmp cmp b c < 0 \<Longrightarrow> mem_cmp cmp a c < 0"
      using key_preorder.cmp_trans [OF p, of a b c] ab by (simp only: mem_cmp_entries)
    show "is_entry c \<Longrightarrow> mem_cmp cmp a b = 0 \<Longrightarrow> mem_cmp cmp c a < 0 \<longleftrightarrow> mem_cmp cmp c b < 0"
      using key_preorder.cmp_equiv [OF p, of a b c] ab by (simp only: mem_cmp_entries)
  qed
qed

end

sublocale user_comparator \<subseteq> mem: key_preorder is_entry "mem_cmp cmp"
  by (rule mem_order)

section \<open>What a table holds\<close>

text \<open>The writes a table has seen, oldest first, each with its sequence number.\<close>

type_synonym history = "(uint64 \<times> batch_op) list"

fun op_type :: "batch_op \<Rightarrow> ValueType" where
  "op_type (Put k v) = kTypeValue"
| "op_type (Delete k) = kTypeDeletion"

fun op_val :: "batch_op \<Rightarrow> string" where
  "op_val (Put k v) = v"
| "op_val (Delete k) = []"

definition mem_op :: "batch_op \<Rightarrow> bool" where
  "mem_op op \<longleftrightarrow> length (op_key op) + 8 < 2 ^ 32 \<and> length (op_val op) < 2 ^ 32"

definition entry_of :: "uint64 \<times> batch_op \<Rightarrow> string" where
  "entry_of w = make_entry (op_key (snd w)) (seq_type (fst w) (op_type (snd w)))
     (PutLengthPrefixedSlice [] (op_val (snd w)))"

definition hist_ok :: "history \<Rightarrow> bool" where
  "hist_ok h \<longleftrightarrow> sorted_wrt (<) (map fst h) \<and> (\<forall>w \<in> set h. fst w \<le> kMaxSequenceNumber \<and> mem_op (snd w))"

definition mt_holds :: "(string \<Rightarrow> string \<Rightarrow> int) \<Rightarrow> MemTable \<Rightarrow> history \<Rightarrow> bool" where
  "mt_holds cmp mt h \<longleftrightarrow> hist_ok h \<and>
     (\<exists>es. sl_holds is_entry (mem_cmp cmp) (mt_table mt) es \<and> set es = entry_of ` set h)"

text \<open>The write a reader at snapshot \<open>s\<close> sees: the last one on the key that is not younger.\<close>

definition visible :: "history \<Rightarrow> string \<Rightarrow> uint64 \<Rightarrow> batch_op option" where
  "visible h u s =
     (case filter (\<lambda>w. op_key (snd w) = u \<and> fst w \<le> s) h of [] \<Rightarrow> None | ws \<Rightarrow> Some (snd (last ws)))"

lemma mt_holds_new: "mt_holds cmp MemTable_new []"
  using sl_holds_new by (auto simp: mt_holds_def hist_ok_def MemTable_new_def)

lemma seq_type_less:
  assumes "q \<le> kMaxSequenceNumber" and "q' \<le> kMaxSequenceNumber"
  shows "seq_type q t < seq_type q' t' \<longleftrightarrow> q < q' \<or> q = q' \<and> type_num t < type_num t'"
  using unat_seq_type [OF assms(1), of t] unat_seq_type [OF assms(2), of t'] unat_type_num [of t]
    unat_type_num [of t']
  by (auto simp: word_less_nat_alt word_unat_eq_iff)

lemma seq_type_visible:
  assumes "q \<le> kMaxSequenceNumber" and "s \<le> kMaxSequenceNumber"
  shows "seq_type s kTypeValue < seq_type q t \<longleftrightarrow> s < q"
  unfolding seq_type_less [OF assms(2,1)] by (cases t) auto

lemma last_greatest: "sorted_wrt (<) (map f xs) \<Longrightarrow> x \<in> set xs \<Longrightarrow> f x < f (last xs) \<or> x = last xs"
  by (induction xs rule: rev_induct) (auto simp: sorted_wrt_append)

lemma unat_bit: "unat v = unat w \<Longrightarrow> bit v n = bit w n"
  by (metis bit_unsigned_iff possible_bit_nat)

lemma varint_unat:
  fixes v :: "'a::len word" and w :: "'b::len word"
  assumes "8 \<le> LENGTH('a)" and "8 \<le> LENGTH('b)"
  shows "unat v = unat w \<Longrightarrow> varint v = varint w"
proof (induction v arbitrary: w rule: varint.induct)
  case (1 v)
  have b: "bit (v AND 127) n = bit (w AND 127) n" for n
    unfolding and_127 using unat_bit [OF 1(2)] by (simp add: bit_take_bit_iff)
  have "byte (v AND 127 OR 128) = byte (w AND 127 OR 128)"
    using assms by (intro byte_bits) (auto simp: bit_or_iff b bit_128)
  moreover have "byte v = byte w"
    using 1(2) by (simp add: byte_eq_iff)
  ultimately show ?case
    using 1 by (subst (1 2) varint.simps) (simp add: unat_drop7)
qed

lemma entry_of_is_entry: "mem_op (snd w) \<Longrightarrow> is_entry (entry_of w)"
  by (auto simp: is_entry_def entry_of_def mem_op_def)

lemma entry_key_of: "mem_op (snd w) \<Longrightarrow>
    entry_key (entry_of w) = make_internal (op_key (snd w)) (seq_type (fst w) (op_type (snd w)))"
  by (simp add: entry_of_def entry_key_make mem_op_def)

lemma encoded_len:
  assumes "n < 2 ^ 32"
  shows "VarintLength (of_nat n) = length (EncodeVarint32 (of_nat n))"
proof -
  have "unat (of_nat n :: uint64) = n"
    using assms by (simp add: unat_of_nat take_bit_eq_mod)
  then have "varint (of_nat n :: uint64) = varint (of_nat n :: uint32)"
    using unat_of_length [OF assms] by (intro varint_unat) simp_all
  then show ?thesis
    by (simp add: VarintLength_varint EncodeVarint32_varint)
qed

text \<open>The order of two entries is the order of their keys, younger writes first.\<close>

context user_comparator
begin

lemma entry_less:
  assumes "mem_op (snd w)" and "mem_op (snd w')"
  shows "mem_cmp cmp (entry_of w) (entry_of w') < 0 \<longleftrightarrow>
    cmp (op_key (snd w)) (op_key (snd w')) < 0 \<or>
    op_key (snd w) = op_key (snd w') \<and>
      seq_type (fst w') (op_type (snd w')) < seq_type (fst w) (op_type (snd w))"
  using assms by (simp add: mem_cmp_entries entry_of_is_entry entry_key_of internal_less)

lemma MemTable_Add_holds:
  assumes h: "mt_holds cmp mt h" and q: "\<forall>w \<in> set h. fst w < q" "q \<le> kMaxSequenceNumber" and op: "mem_op op"
  shows "\<exists>mt'. MemTable_Add cmp mt q (op_type op) (op_key op) (op_val op) = Some mt' \<and>
    mt_holds cmp mt' (h @ [(q, op)]) \<and> mt_refs mt' = mt_refs mt"
proof -
  obtain es where es: "sl_holds is_entry (mem_cmp cmp) (mt_table mt) es" "set es = entry_of ` set h"
    and ok: "hist_ok h"
    using h by (auto simp: mt_holds_def)
  let ?e = "entry_of (q, op)"
  have e: "is_entry ?e"
    using op by (intro entry_of_is_entry) simp
  have "mem_cmp cmp ?e (entry_of w) \<noteq> 0" if "w \<in> set h" for w
  proof -
    have w: "fst w \<le> kMaxSequenceNumber" "mem_op (snd w)" "fst w < q"
      using that ok q(1) by (auto simp: hist_ok_def)
    then have "seq_type (fst w) (op_type (snd w)) < seq_type q (op_type op)"
      by (simp add: seq_type_less q(2))
    then have "seq_type q (op_type op) \<noteq> seq_type (fst w) (op_type (snd w))"
      by simp
    then show ?thesis
      using op w e by (simp add: mem_cmp_entries entry_of_is_entry entry_key_of internal_eq)
  qed
  then have fresh: "\<forall>k \<in> set es. mem_cmp cmp ?e k \<noteq> 0"
    by (simp add: es(2))
  obtain sl where sl: "SkipList_Insert (mem_cmp cmp) (mt_table mt) ?e = Some sl"
      "sl_holds is_entry (mem_cmp cmp) sl (sorted_insert (mem_cmp cmp) ?e es)"
    using mem.SkipList_Insert_holds [OF es(1) e fresh] by blast
  have "MemTable_Add cmp mt q (op_type op) (op_key op) (op_val op) = Some (mt\<lparr>mt_table := sl\<rparr>)"
  proof -
    have buf: "?e = EncodeVarint32 (of_nat (length (op_key op) + 8)) @ op_key op @
        EncodeFixed64 (push_bit 8 q OR type_num (op_type op)) @ EncodeVarint32 (of_nat (length (op_val op))) @ op_val op"
      by (simp add: entry_of_def make_entry_def make_internal_def seq_type_def PutLengthPrefixedSlice_def
          PutVarint32_def)
    have len: "length ?e = VarintLength (of_nat (length (op_key op) + 8)) + (length (op_key op) + 8) +
        VarintLength (of_nat (length (op_val op))) + length (op_val op)"
      using encoded_len [of "length (op_key op) + 8"] encoded_len [of "length (op_val op)"] op
      unfolding buf mem_op_def by (simp del: of_nat_add)
    show ?thesis
      unfolding MemTable_Add_def Let_def buf [symmetric] using len sl(1) by simp
  qed
  moreover have "mt_holds cmp (mt\<lparr>mt_table := sl\<rparr>) (h @ [(q, op)])"
    using sl(2) es(2) ok q op by (auto simp: mt_holds_def hist_ok_def sorted_wrt_append)
  ultimately show ?thesis
    by simp
qed

text \<open>Where a search for a user key at a snapshot stops.\<close>

lemma search_stop:
  assumes h: "hist_ok h" and w: "w \<in> set h" and s: "s \<le> kMaxSequenceNumber" and u: "length u + 8 < 2 ^ 32"
  shows "mem_cmp cmp (entry_of w) (make_entry u (seq_type s kTypeValue) []) < 0 \<longleftrightarrow>
    cmp (op_key (snd w)) u < 0 \<or> op_key (snd w) = u \<and> s < fst w"
proof -
  have w': "fst w \<le> kMaxSequenceNumber" "mem_op (snd w)"
    using h w by (auto simp: hist_ok_def)
  have "is_entry (make_entry u (seq_type s kTypeValue) [])"
    using u by (auto simp: is_entry_def)
  then show ?thesis
    using w' u s
    by (simp add: mem_cmp_entries entry_of_is_entry entry_key_of entry_key_make internal_less seq_type_visible)
qed

text \<open>The first entry a search leaves is the visible write, if there is one.\<close>

lemma search_visible:
  assumes h: "hist_ok h" and es: "sorted_wrt (\<lambda>a b. mem_cmp cmp a b < 0) es" "set es = entry_of ` set h"
    and s: "s \<le> kMaxSequenceNumber" and u: "length u + 8 < 2 ^ 32"
  shows "(case dropWhile (\<lambda>e. mem_cmp cmp e (make_entry u (seq_type s kTypeValue) []) < 0) es of
      [] \<Rightarrow> visible h u s = None
    | e # _ \<Rightarrow> \<exists>w \<in> set h. e = entry_of w \<and>
        visible h u s = (if op_key (snd w) = u then Some (snd w) else None))"
proof -
  let ?t = "make_entry u (seq_type s kTypeValue) []"
  let ?P = "\<lambda>e. mem_cmp cmp e ?t < 0"
  let ?V = "filter (\<lambda>w. op_key (snd w) = u \<and> fst w \<le> s) h"
  note stop = search_stop [OF h _ s u]
  have split: "es = takeWhile ?P es @ dropWhile ?P es"
    by simp
  have behind: "entry_of w \<in> set (dropWhile ?P es)" if "w \<in> set ?V" for w
  proof -
    have "\<not> ?P (entry_of w)"
      using stop [of w] that cmp_refl by auto
    then have "entry_of w \<notin> set (takeWhile ?P es)"
      by (auto dest: set_takeWhileD)
    moreover have "entry_of w \<in> set es"
      using that es(2) by auto
    ultimately show ?thesis
      by (metis Un_iff set_append split)
  qed
  show ?thesis
  proof (cases "dropWhile ?P es")
    case Nil
    then have no: "w \<notin> set ?V" for w
      using behind [of w] unfolding Nil by (intro notI) simp
    have "?V = []"
      by (rule ccontr) (use no [of "last ?V"] last_in_set [of ?V] in blast)
    then show ?thesis
      unfolding Nil by (simp add: visible_def)
  next
    case (Cons e rest)
    then have "e \<in> set es" and not_P: "\<not> ?P e"
      by (metis in_set_conv_decomp split) (metis Cons dropWhile_eq_Cons_conv)
    then obtain w where w: "w \<in> set h" "e = entry_of w"
      using es(2) by auto
    have first: "mem_cmp cmp e x < 0" if "x \<in> set rest" for x
      using es(1) that Cons split by (metis list.set_intros(1) sorted_wrt.simps(2) sorted_wrt_append)
    have "visible h u s = (if op_key (snd w) = u then Some (snd w) else None)"
    proof (cases "op_key (snd w) = u")
      case False
      have "?V = []"
      proof (rule ccontr)
        assume "?V \<noteq> []"
        then obtain v where v: "v \<in> set ?V"
          by (cases ?V) auto
        have "mem_op (snd w)" "mem_op (snd v)"
          using w v h by (auto simp: hist_ok_def)
        then have "entry_key (entry_of v) \<noteq> entry_key e"
          using False v w(2) by (auto simp: entry_key_of)
        then have "mem_cmp cmp e (entry_of v) < 0"
          using behind [OF v] Cons first by auto
        moreover have "mem_op (snd w)" "mem_op (snd v)"
          using w v h by (auto simp: hist_ok_def)
        ultimately have "cmp (op_key (snd w)) u < 0"
          using False v w(2) by (auto simp: entry_less)
        then show False
          using not_P stop [OF w(1)] w(2) by simp
      qed
      then show ?thesis
        using False by (simp add: visible_def)
    next
      case True
      then have wV: "w \<in> set ?V"
        using not_P stop [OF w(1)] w by (auto simp: not_less)
      define v where "v = last ?V"
      have ne: "?V \<noteq> []"
        by (rule notI) (use wV in \<open>metis empty_iff list.set(1)\<close>)
      have v: "v \<in> set ?V"
        unfolding v_def by (rule last_in_set [OF ne])
      have "sorted_wrt (<) (map fst ?V)"
        using h by (simp add: hist_ok_def sorted_wrt_map sorted_wrt_filter)
      from last_greatest [OF this] have latest: "x \<in> set ?V \<Longrightarrow> fst x < fst v \<or> x = v" for x
        unfolding v_def .
      have "v = w"
      proof (rule ccontr)
        assume "v \<noteq> w"
        then have lt: "fst w < fst v"
          using latest [OF wV] by auto
        have m: "mem_op (snd w)" "mem_op (snd v)" "fst w \<le> kMaxSequenceNumber" "fst v \<le> kMaxSequenceNumber"
          using w(1) v h by (auto simp: hist_ok_def)
        have "mem_cmp cmp (entry_of v) e < 0"
          using lt m v True unfolding w(2) by (simp add: entry_less seq_type_less)
        moreover have "entry_of v \<noteq> e"
          using calculation mem.cmp_refl [of e] entry_of_is_entry [OF m(1)] w(2) by auto
        then have "mem_cmp cmp e (entry_of v) < 0"
          using behind [OF v] Cons first by auto
        ultimately show False
          using mem.cmp_swap [of e "entry_of v"] entry_of_is_entry [OF m(1)] entry_of_is_entry [OF m(2)] w(2)
          by auto
      qed
      moreover have "visible h u s = Some (snd (last ?V))"
        using ne unfolding visible_def by (cases ?V) simp_all
      ultimately show ?thesis
        using True by (simp only: v_def if_True refl)
    qed
    then show ?thesis
      using Cons w by auto
  qed
qed

text \<open>What \<open>Get\<close> answers for a visible write.\<close>

lemma MemTable_Get_visible:
  assumes h: "mt_holds cmp mt h" and s: "s \<le> kMaxSequenceNumber" and u: "length u + 8 < 2 ^ 32"
  shows "\<exists>k. make_LookupKey u s = Some k \<and> MemTable_Get cmp mt k value st =
    Some (case visible h u s of
        None \<Rightarrow> (False, value, st)
      | Some (Put _ v) \<Rightarrow> (True, v, st)
      | Some (Delete _) \<Rightarrow> (True, value, NotFound))"
proof -
  obtain es where es: "sl_holds is_entry (mem_cmp cmp) (mt_table mt) es" "set es = entry_of ` set h"
    and ok: "hist_ok h"
    using h by (auto simp: mt_holds_def)
  obtain k where k: "make_LookupKey u s = Some k" "lookup_user_key k = u"
      "memtable_key k = make_entry u (seq_type s kTypeValue) []"
    using make_LookupKey_parts [OF s, of u] by (auto simp: make_entry_def)
  let ?t = "make_entry u (seq_type s kTypeValue) []"
  let ?after = "dropWhile (\<lambda>e. mem_cmp cmp e ?t < 0) es"
  have t: "is_entry ?t"
    using u by (auto simp: is_entry_def)
  obtain it where it: "sl_Seek (mem_cmp cmp) (mt_table mt) ?t = Some it"
      "sl_key (mt_table mt) it = (case ?after of [] \<Rightarrow> None | e # _ \<Rightarrow> Some e)" "sl_Valid it \<longleftrightarrow> ?after \<noteq> []"
    using mem.sl_Seek_at [OF es(1) t] iter_at_key by blast
  note first = search_visible [OF ok mem.holds_sorted [OF es(1), THEN conjunct1] es(2) s u]
  have "MemTable_Get cmp mt k value st = Some (case visible h u s of
        None \<Rightarrow> (False, value, st)
      | Some (Put _ v) \<Rightarrow> (True, v, st)
      | Some (Delete _) \<Rightarrow> (True, value, NotFound))"
  proof (cases ?after)
    case Nil
    then have "visible h u s = None" "\<not> sl_Valid it"
      using first it(3) unfolding Nil by simp_all
    then show ?thesis
      using it(1) k by (simp add: MemTable_Get_def)
  next
    case (Cons e rest)
    then obtain w where w: "w \<in> set h" "e = entry_of w"
        "visible h u s = (if op_key (snd w) = u then Some (snd w) else None)"
      using first by auto
    have m: "mem_op (snd w)" "fst w \<le> kMaxSequenceNumber"
      using ok w(1) by (auto simp: hist_ok_def)
    have slice: "mem_slice e = Some (make_internal (op_key (snd w)) (seq_type (fst w) (op_type (snd w))),
        PutLengthPrefixedSlice [] (op_val (snd w)))"
      using m(1) by (simp add: w(2) entry_of_def mem_slice_entry mem_op_def)
    have val: "mem_slice (PutLengthPrefixedSlice [] (op_val (snd w))) = Some (op_val (snd w), [])"
      using m(1) by (simp add: mem_slice_value mem_op_def)
    show ?thesis
      using Cons it k slice val w(3) m(2) cmp_eq [of "op_key (snd w)" u]
      by (cases "snd w") (simp_all add: MemTable_Get_def seq_type_parts)
  qed
  with k(1) show ?thesis by blast
qed

end

section \<open>Writing a batch\<close>

text \<open>The writes of a batch, numbered from \<open>seq\<close>.\<close>

fun tag_ops :: "uint64 \<Rightarrow> batch_op list \<Rightarrow> history" where
  "tag_ops seq [] = []"
| "tag_ops seq (op # ops) = (seq, op) # tag_ops (seq + 1) ops"

lemma map_snd_tag_ops [simp]: "map snd (tag_ops seq ops) = ops"
  by (induction seq ops rule: tag_ops.induct) auto

context user_comparator
begin

lemma Inserter_run:
  "run_op (Inserter_Put cmp) (Inserter_Delete cmp) op (seq, mt) =
     (case MemTable_Add cmp mt seq (op_type op) (op_key op) (op_val op) of
        None \<Rightarrow> None | Some mt' \<Rightarrow> Some (seq + 1, mt'))"
  by (cases op) (simp_all add: Inserter_Put_def Inserter_Delete_def)

lemma Inserter_fold:
  assumes "mt_holds cmp mt h" and "\<forall>w \<in> set h. fst w < seq" and "unat seq + length ops \<le> 2 ^ 56"
    and "\<forall>op \<in> set ops. mem_op op"
  shows "\<exists>q mt'. fold_opt (run_op (Inserter_Put cmp) (Inserter_Delete cmp)) ops (seq, mt) = Some (q, mt') \<and>
    mt_holds cmp mt' (h @ tag_ops seq ops) \<and> mt_refs mt' = mt_refs mt"
  using assms
proof (induction ops arbitrary: seq mt h)
  case (Cons op ops)
  have "unat seq < 2 ^ 56"
    using Cons.prems(3) by simp
  then have max: "seq \<le> kMaxSequenceNumber" and s1: "unat (seq + 1) = unat seq + 1"
    by (simp_all add: seq_le_max unat_add_no_wrap)
  obtain mt1 where mt1: "MemTable_Add cmp mt seq (op_type op) (op_key op) (op_val op) = Some mt1"
      "mt_holds cmp mt1 (h @ [(seq, op)])" "mt_refs mt1 = mt_refs mt"
    using MemTable_Add_holds [OF Cons.prems(1,2) max, of op] Cons.prems(4) by auto
  have "\<forall>w \<in> set (h @ [(seq, op)]). fst w < seq + 1"
    using Cons.prems(2) s1 by (fastforce simp: word_less_nat_alt)
  moreover have "unat (seq + 1) + length ops \<le> 2 ^ 56"
    using Cons.prems(3) s1 by simp
  ultimately show ?case
    using Cons.IH [OF mt1(2)] Cons.prems(4) mt1 by (simp add: Inserter_run)
qed simp

lemma InsertInto_holds:
  assumes "mt_holds cmp mt h" and "batch_holds seq ops b" and "\<forall>w \<in> set h. fst w < seq"
    and "unat seq + length ops \<le> 2 ^ 56" and "\<forall>op \<in> set ops. mem_op op" and "length ops < 2 ^ 31"
  shows "\<exists>mt'. InsertInto cmp b mt = Some (OK, mt') \<and> mt_holds cmp mt' (h @ tag_ops seq ops) \<and>
    mt_refs mt' = mt_refs mt"
proof -
  have "small_op op" if "op \<in> set ops" for op
    using assms(5) that by (cases op) (auto simp: mem_op_def)
  then have small: "\<forall>op \<in> set ops. small_op op" by blast
  obtain q mt' where "fold_opt (run_op (Inserter_Put cmp) (Inserter_Delete cmp)) ops (seq, mt) = Some (q, mt')"
      "mt_holds cmp mt' (h @ tag_ops seq ops)" "mt_refs mt' = mt_refs mt"
    using Inserter_fold [OF assms(1,3,4,5)] by blast
  then show ?thesis
    using Batch_Iterate_holds [OF assms(2) small assms(6), of "Inserter_Put cmp" "Inserter_Delete cmp" "(seq, mt)"]
      batch_holds_Sequence [OF assms(2)]
    by (simp add: InsertInto_def)
qed

end

section \<open>The table and the contract\<close>

text \<open>The contents a snapshot shows: the writes up to it, applied in order.\<close>

definition snapshot :: "history \<Rightarrow> uint64 \<Rightarrow> (string, string) std_map" where
  "snapshot h s = apply_batch (map snd (filter (\<lambda>w. fst w \<le> s) h)) sm_empty"

lemma find_apply_batch_last:
  "sm_find (apply_batch ops m) u =
     (let xs = filter (\<lambda>op. op_key op = u) ops in if xs = [] then sm_find m u else op_effect (last xs))"
proof (induction ops rule: rev_induct)
  case (snoc op ops)
  then show ?case
    by (auto simp: apply_batch_def find_apply_op Let_def)
qed (simp add: apply_batch_def)

lemma snapshot_visible:
  "sm_find (snapshot h s) u = (case visible h u s of None \<Rightarrow> None | Some op \<Rightarrow> op_effect op)"
proof -
  let ?V = "filter (\<lambda>w. op_key (snd w) = u \<and> fst w \<le> s) h"
  have "filter (\<lambda>op. op_key op = u) (map snd (filter (\<lambda>w. fst w \<le> s) h)) = map snd ?V"
    by (induction h) auto
  then show ?thesis
    by (cases ?V) (simp_all add: snapshot_def visible_def find_apply_batch_last last_map Let_def)
qed

lemma tag_ops_seqs:
  "unat seq + length ops \<le> 2 ^ 56 \<Longrightarrow> w \<in> set (tag_ops seq ops) \<Longrightarrow>
    seq \<le> fst w \<and> unat (fst w) < unat seq + length ops"
proof (induction seq ops rule: tag_ops.induct)
  case (2 seq op ops)
  then have "unat (seq + 1) = unat seq + 1"
    by (simp add: unat_add_no_wrap)
  then show ?case
    using 2 by (force simp: word_le_nat_alt)
qed simp

text \<open>A batch is visible as a whole to younger snapshots and not at all to older ones.\<close>

lemma snapshot_append:
  assumes "unat seq + length ops \<le> 2 ^ 56" and "\<forall>w \<in> set h. fst w < seq"
  shows "unat seq + length ops \<le> unat s + 1 \<Longrightarrow> ops \<noteq> [] \<Longrightarrow>
      snapshot (h @ tag_ops seq ops) s = apply_batch ops (snapshot h s)"
    and "s < seq \<Longrightarrow> snapshot (h @ tag_ops seq ops) s = snapshot h s"
proof -
  show "snapshot (h @ tag_ops seq ops) s = apply_batch ops (snapshot h s)"
    if "unat seq + length ops \<le> unat s + 1" "ops \<noteq> []"
  proof -
    have "fst w \<le> s" if w: "w \<in> set (tag_ops seq ops)" for w
      using tag_ops_seqs [OF assms(1) w] \<open>unat seq + length ops \<le> unat s + 1\<close>
      by (simp add: word_le_nat_alt)
    then have "filter (\<lambda>w. fst w \<le> s) (tag_ops seq ops) = tag_ops seq ops"
      by (simp add: filter_id_conv)
    then show ?thesis
      by (simp add: snapshot_def apply_batch_def)
  qed
  show "snapshot (h @ tag_ops seq ops) s = snapshot h s" if "s < seq"
  proof -
    have "\<not> fst w \<le> s" if w: "w \<in> set (tag_ops seq ops)" for w
      using tag_ops_seqs [OF assms(1) w] \<open>s < seq\<close> by auto
    then have "filter (\<lambda>w. fst w \<le> s) (tag_ops seq ops) = []"
      by (simp add: filter_empty_conv)
    then show ?thesis
      by (simp add: snapshot_def)
  qed
qed



text \<open>
  Claim C33: The memtable reads a snapshot.  A lookup of a user key at a snapshot finds the youngest write of
  the key that is not younger than the snapshot: it returns the value that the writes up to the snapshot
  left, or that the key was deleted, and it reports not found, changing nothing, exactly when the table
  has no such write, so that the caller looks in older tables.
\<close>

theorem memtable_get:
  assumes "mt_holds Bytewise_Compare mt h" and "s \<le> kMaxSequenceNumber" and "length u + 8 < 2 ^ 32"
  shows "\<exists>k found v st'. make_LookupKey u s = Some k \<and>
    MemTable_Get Bytewise_Compare mt k value st = Some (found, v, st') \<and>
    (found \<longleftrightarrow> (\<exists>w \<in> set h. op_key (snd w) = u \<and> fst w \<le> s)) \<and>
    (v, st') = (if found then
        (case sm_find (snapshot h s) u of Some x \<Rightarrow> (x, st) | None \<Rightarrow> (value, NotFound))
      else (value, st)) \<and>
    (found \<or> sm_find (snapshot h s) u = None)"
proof -
  obtain k where k: "make_LookupKey u s = Some k"
    and get: "MemTable_Get Bytewise_Compare mt k value st =
      Some (case visible h u s of
          None \<Rightarrow> (False, value, st)
        | Some (Put _ v) \<Rightarrow> (True, v, st)
        | Some (Delete _) \<Rightarrow> (True, value, NotFound))"
    using bytewise.MemTable_Get_visible [OF assms, of "value" st] by (elim exE conjE)
  have "visible h u s = None \<longleftrightarrow> filter (\<lambda>w. op_key (snd w) = u \<and> fst w \<le> s) h = []"
    by (simp add: visible_def split: list.split)
  then have "visible h u s \<noteq> None \<longleftrightarrow> (\<exists>w \<in> set h. op_key (snd w) = u \<and> fst w \<le> s)"
    unfolding filter_empty_conv by auto
  with k get show ?thesis
    by (auto simp: snapshot_visible split: option.splits batch_op.splits)
qed

theorem memtable_get_witness:
  "\<exists>mt k k'. InsertInto Bytewise_Compare
      (EncodeFixed64 5 @ EncodeFixed32 2 @ record_of (Put ''a'' ''x'') @ record_of (Delete ''a'')) MemTable_new =
      Some (OK, mt) \<and> make_LookupKey ''a'' 5 = Some k \<and> make_LookupKey ''a'' 6 = Some k' \<and>
    MemTable_Get Bytewise_Compare mt k [] OK = Some (True, ''x'', OK) \<and>
    MemTable_Get Bytewise_Compare mt k' [] OK = Some (True, [], NotFound)"
proof -
  let ?ops = "[Put ''a'' ''x'', Delete ''a'']"
  obtain mt where mt: "InsertInto Bytewise_Compare
      (EncodeFixed64 5 @ EncodeFixed32 2 @ record_of (Put ''a'' ''x'') @ record_of (Delete ''a'')) MemTable_new =
      Some (OK, mt)" "mt_holds Bytewise_Compare mt [(5, Put ''a'' ''x''), (6, Delete ''a'')]"
    using bytewise.InsertInto_holds [OF mt_holds_new, of 5 ?ops] by (auto simp: batch_holds_def mem_op_def)
  have "(5 :: uint64) \<le> kMaxSequenceNumber" "(6 :: uint64) \<le> kMaxSequenceNumber"
    by (simp_all add: seq_le_max)
  from memtable_get [OF mt(2) this(1), of "''a''" "[]" OK] memtable_get [OF mt(2) this(2), of "''a''" "[]" OK]
  show ?thesis
    using mt(1) by (auto simp: snapshot_def apply_batch_def split: if_splits)
qed

end
