(* ===== verification/Ldb_Log.thy ===== *)
theory Ldb_Log
  imports Op_Log Ldb_Coding
begin

unbundle bit_operations_syntax

text \<open>
  \<open>log_format.h\<close>, \<open>log_writer\<close> and \<open>log_reader\<close> of leveldb, with \<open>Mask\<close> and \<open>Unmask\<close> of \<open>crc32c.h\<close>: the
  log that makes writes durable.  A record is cut into fragments that do not cross a block.  The
  checksum \<open>Extend\<close> is a parameter \<open>ext\<close>.  Files are the interfaces of \<open>env.h\<close>.  A failed assertion
  is \<open>None\<close>.
\<close>

section \<open>Format\<close>

datatype RecordType = kZeroType | kFullType | kFirstType | kMiddleType | kLastType

fun rec_num :: "RecordType \<Rightarrow> nat" where
  "rec_num kZeroType = 0"
| "rec_num kFullType = 1"
| "rec_num kFirstType = 2"
| "rec_num kMiddleType = 3"
| "rec_num kLastType = 4"

definition kMaxRecordType :: nat where
  "kMaxRecordType = rec_num kLastType"

definition kBlockSize :: nat where
  "kBlockSize = 32768"

definition kHeaderSize :: nat where
  "kHeaderSize = 4 + 1 + 2"

definition kMaskDelta :: uint32 where
  "kMaskDelta = 0xa282ead8"

definition crc_Mask :: "uint32 \<Rightarrow> uint32" where
  "crc_Mask crc = (drop_bit 15 crc OR push_bit 17 crc) + kMaskDelta"

definition crc_Unmask :: "uint32 \<Rightarrow> uint32" where
  "crc_Unmask masked_crc = (let rot = masked_crc - kMaskDelta in drop_bit 17 rot OR push_bit 15 rot)"

section \<open>Files\<close>

text \<open>
  A file open for writing: its contents, the number of bytes that still fit (an \<open>Append\<close> that does not
  fit writes what does), and whether \<open>Flush\<close> fails.
\<close>

record WritableFile =
  wf_data :: string
  wf_room :: nat
  wf_fault :: bool

definition wf_Append :: "string \<Rightarrow> WritableFile \<Rightarrow> Status \<times> WritableFile" where
  "wf_Append d f =
     (if length d \<le> wf_room f then OK else IOError,
      f\<lparr>wf_data := wf_data f @ take (wf_room f) d, wf_room := wf_room f - length d\<rparr>)"

definition wf_Flush :: "WritableFile \<Rightarrow> Status \<times> WritableFile" where
  "wf_Flush f = (if wf_fault f then IOError else OK, f)"

text \<open>A file open for reading: what is left of it, and the number of calls that still succeed, if not all do.\<close>

record SequentialFile =
  sf_rest :: string
  sf_budget :: "nat option"

definition sf_Read :: "nat \<Rightarrow> SequentialFile \<Rightarrow> Status \<times> string \<times> SequentialFile" where
  "sf_Read n f =
     (case sf_budget f of
        None \<Rightarrow> (OK, take n (sf_rest f), f\<lparr>sf_rest := drop n (sf_rest f)\<rparr>)
      | Some 0 \<Rightarrow> (IOError, [], f)
      | Some (Suc k) \<Rightarrow> (OK, take n (sf_rest f), f\<lparr>sf_rest := drop n (sf_rest f), sf_budget := Some k\<rparr>))"

definition sf_Skip :: "nat \<Rightarrow> SequentialFile \<Rightarrow> Status \<times> SequentialFile" where
  "sf_Skip n f =
     (case sf_budget f of
        None \<Rightarrow> (OK, f\<lparr>sf_rest := drop n (sf_rest f)\<rparr>)
      | Some 0 \<Rightarrow> (IOError, f)
      | Some (Suc k) \<Rightarrow> (OK, f\<lparr>sf_rest := drop n (sf_rest f), sf_budget := Some k\<rparr>))"

section \<open>The writer\<close>

record Writer =
  w_dest :: WritableFile
  w_block_offset :: nat
  w_type_crc :: "uint32 list"

definition Writer_new :: "(uint32 \<Rightarrow> string \<Rightarrow> uint32) \<Rightarrow> WritableFile \<Rightarrow> Writer" where
  "Writer_new ext dest =
     \<lparr>w_dest = dest, w_block_offset = 0,
      w_type_crc = map (\<lambda>i. ext 0 [char_of i]) [0 ..< kMaxRecordType + 1]\<rparr>"

definition EmitPhysicalRecord ::
  "(uint32 \<Rightarrow> string \<Rightarrow> uint32) \<Rightarrow> RecordType \<Rightarrow> string \<Rightarrow> Writer \<Rightarrow> (Status \<times> Writer) option" where
  "EmitPhysicalRecord ext t ptr w =
     (let n = length ptr in
      if n \<le> 0xffff \<and> w_block_offset w + kHeaderSize + n \<le> kBlockSize then
        let crc = crc_Mask (ext (w_type_crc w ! rec_num t) ptr);
            buf = EncodeFixed32 crc @ [char_of (n mod 256), char_of (n div 256), char_of (rec_num t)];
            (s, f) = wf_Append buf (w_dest w);
            (s, f) = (if s = OK then
                let (s, f) = wf_Append ptr f in (if s = OK then wf_Flush f else (s, f))
              else (s, f))
        in Some (s, w\<lparr>w_dest := f, w_block_offset := w_block_offset w + kHeaderSize + n\<rparr>)
      else None)"

text \<open>
  \<open>AddRecord\<close>: the loop over the fragments.  The status of appending a trailer is ignored.
\<close>

definition switch_block :: "Writer \<Rightarrow> Writer" where
  "switch_block w =
     (let leftover = kBlockSize - w_block_offset w in
      if leftover < kHeaderSize then
        let f = (if leftover > 0 then snd (wf_Append (replicate leftover (char_of (0 :: nat))) (w_dest w))
                 else w_dest w)
        in w\<lparr>w_dest := f, w_block_offset := 0\<rparr>
      else w)"

definition fragment_type :: "bool \<Rightarrow> bool \<Rightarrow> RecordType" where
  "fragment_type begin end =
     (if begin \<and> end then kFullType
      else if begin then kFirstType
      else if end then kLastType
      else kMiddleType)"

text \<open>What is left of a block for the payload of a fragment.\<close>

definition room :: "Writer \<Rightarrow> nat" where
  "room w = kBlockSize - w_block_offset w - kHeaderSize"

lemma EmitPhysicalRecord_offset:
  "EmitPhysicalRecord ext t p w = Some (s, w2) \<Longrightarrow>
    w_block_offset w2 = w_block_offset w + kHeaderSize + length p \<and> w_block_offset w2 \<le> kBlockSize"
  by (auto simp: EmitPhysicalRecord_def Let_def split: if_splits prod.splits)

lemma switch_block_offset:
  "w_block_offset (switch_block w) =
    (if kBlockSize - w_block_offset w < kHeaderSize then 0 else w_block_offset w)"
  by (simp add: switch_block_def Let_def)

function AddRecord_loop ::
  "(uint32 \<Rightarrow> string \<Rightarrow> uint32) \<Rightarrow> string \<Rightarrow> bool \<Rightarrow> Writer \<Rightarrow> (Status \<times> Writer) option" where
  "AddRecord_loop ext ptr begin w =
     (if w_block_offset w \<le> kBlockSize then
        let w1 = switch_block w;
            avail = room w1;
            fragment_length = (if length ptr < avail then length ptr else avail);
            t = fragment_type begin (length ptr = fragment_length)
        in (case EmitPhysicalRecord ext t (take fragment_length ptr) w1 of
              None \<Rightarrow> None
            | Some (s, w2) \<Rightarrow>
                if s = OK \<and> length ptr - fragment_length > 0
                then AddRecord_loop ext (drop fragment_length ptr) False w2
                else Some (s, w2))
      else None)"
  by pat_completeness auto
termination
proof (relation "measure (\<lambda>(_, ptr, _, w). 2 * length ptr + (if room (switch_block w) = 0 then 1 else 0))", goal_cases)
  case (2 ext ptr bg w w1 avail fragment_length t sw s w2)
  have e: "EmitPhysicalRecord ext t (take fragment_length ptr) w1 = Some (s, w2)"
    using 2(6,7) by simp
  have fl: "fragment_length \<le> length ptr" "fragment_length \<le> room w1" "fragment_length = 0 \<Longrightarrow> room w1 = 0"
    using 2(3,4,8) by (auto split: if_splits)
  then have off: "w_block_offset w2 = w_block_offset w1 + kHeaderSize + fragment_length" "w_block_offset w2 \<le> kBlockSize"
    using EmitPhysicalRecord_offset [OF e] by auto
  show ?case
  proof (cases "fragment_length = 0")
    case True
    then have "w_block_offset w2 = kBlockSize"
      using off fl(3) by (auto simp: room_def)
    then have "room (switch_block w2) \<noteq> 0"
      by (simp add: room_def switch_block_offset kBlockSize_def kHeaderSize_def)
    then show ?thesis
      using True fl 2(2) by simp
  next
    case False
    then have "2 * (length ptr - fragment_length) + 2 \<le> 2 * length ptr"
      using fl(1) by linarith
    then show ?thesis
      by simp
  qed
qed simp

declare AddRecord_loop.simps [simp del]

definition AddRecord :: "(uint32 \<Rightarrow> string \<Rightarrow> uint32) \<Rightarrow> string \<Rightarrow> Writer \<Rightarrow> (Status \<times> Writer) option" where
  "AddRecord ext rcd w = AddRecord_loop ext rcd True w"

section \<open>The reader\<close>

text \<open>The reporter is the list of what it was told.\<close>

record Reader =
  rd_file :: SequentialFile
  rd_checksum :: bool
  rd_buffer :: string
  rd_eof :: bool
  rd_last_record_offset :: uint64
  rd_end_of_buffer_offset :: uint64
  rd_initial_offset :: uint64
  rd_reports :: "(nat \<times> Status) list"

definition Reader_new :: "SequentialFile \<Rightarrow> bool \<Rightarrow> uint64 \<Rightarrow> Reader" where
  "Reader_new file checksum initial_offset =
     \<lparr>rd_file = file, rd_checksum = checksum, rd_buffer = [], rd_eof = False, rd_last_record_offset = 0,
      rd_end_of_buffer_offset = 0, rd_initial_offset = initial_offset, rd_reports = []\<rparr>"

definition kEof :: nat where
  "kEof = kMaxRecordType + 1"

definition kBadRecord :: nat where
  "kBadRecord = kMaxRecordType + 2"

definition ReportDrop :: "nat \<Rightarrow> Status \<Rightarrow> Reader \<Rightarrow> Reader" where
  "ReportDrop bytes reason r =
     (if rd_end_of_buffer_offset r - of_nat (length (rd_buffer r)) - of_nat bytes \<ge> rd_initial_offset r
      then r\<lparr>rd_reports := rd_reports r @ [(bytes, reason)]\<rparr> else r)"

definition ReportCorruption :: "nat \<Rightarrow> Reader \<Rightarrow> Reader" where
  "ReportCorruption bytes r = ReportDrop bytes Corruption r"

definition SkipToInitialBlock :: "Reader \<Rightarrow> bool \<times> Reader" where
  "SkipToInitialBlock r =
     (let offset_in_block = unat (rd_initial_offset r) mod kBlockSize;
          start = unat (rd_initial_offset r) - offset_in_block;
          start = (if offset_in_block > kBlockSize - 6 then start + kBlockSize else start);
          r = r\<lparr>rd_end_of_buffer_offset := of_nat start\<rparr>
      in if start > 0 then
           let (s, f) = sf_Skip start (rd_file r); r = r\<lparr>rd_file := f\<rparr> in
           if s \<noteq> OK then (False, ReportDrop start s r) else (True, r)
         else (True, r))"

text \<open>
  \<open>ReadPhysicalRecord\<close>: the type of the record or one of the special values, and the fragment.  The
  header is parsed once the buffer holds one.  The type is a \<open>char\<close>, which has a sign, stored in an
  unsigned number.
\<close>

definition sign_extend32 :: "nat \<Rightarrow> nat" where
  "sign_extend32 c = (if c < 128 then c else c + (2 ^ 32 - 2 ^ 8))"

definition parse_header :: "(uint32 \<Rightarrow> string \<Rightarrow> uint32) \<Rightarrow> Reader \<Rightarrow> nat \<times> string \<times> Reader" where
  "parse_header ext r =
     (let header = rd_buffer r;
          len = of_char (header ! 4) + 256 * of_char (header ! 5) :: nat;
          t = sign_extend32 (of_char (header ! 6))
      in if kHeaderSize + len > length header then
           let r1 = r\<lparr>rd_buffer := []\<rparr> in
           if \<not> rd_eof r then (kBadRecord, [], ReportCorruption (length header) r1)
           else (kEof, [], r1)
         else if t = rec_num kZeroType \<and> len = 0 then (kBadRecord, [], r\<lparr>rd_buffer := []\<rparr>)
         else if rd_checksum r \<and>
             ext 0 (take (1 + len) (drop 6 header)) \<noteq> crc_Unmask (the (DecodeFixed32 header)) then
           (kBadRecord, [], ReportCorruption (length header) (r\<lparr>rd_buffer := []\<rparr>))
         else
           let r1 = r\<lparr>rd_buffer := drop (kHeaderSize + len) header\<rparr> in
           if rd_end_of_buffer_offset r1 - of_nat (length (rd_buffer r1)) - of_nat kHeaderSize - of_nat len
               < rd_initial_offset r1
           then (kBadRecord, [], r1)
           else (t, take len (drop kHeaderSize header), r1))"

function ReadPhysicalRecord :: "(uint32 \<Rightarrow> string \<Rightarrow> uint32) \<Rightarrow> Reader \<Rightarrow> nat \<times> string \<times> Reader" where
  "ReadPhysicalRecord ext r =
     (if length (rd_buffer r) < kHeaderSize then
        if \<not> rd_eof r then
          (case sf_Read kBlockSize (rd_file r) of
             (s, data, f) \<Rightarrow>
               let r1 = r\<lparr>rd_file := f, rd_buffer := data,
                   rd_end_of_buffer_offset := rd_end_of_buffer_offset r + of_nat (length data)\<rparr> in
               if s \<noteq> OK then (kEof, [], (ReportDrop kBlockSize s (r1\<lparr>rd_buffer := []\<rparr>))\<lparr>rd_eof := True\<rparr>)
               else if length data < kBlockSize then ReadPhysicalRecord ext (r1\<lparr>rd_eof := True\<rparr>)
               else ReadPhysicalRecord ext r1)
        else (kEof, [], r\<lparr>rd_buffer := []\<rparr>)
      else parse_header ext r)"
  by pat_completeness auto
termination
  by (relation "measure (\<lambda>(_, r). if length (rd_buffer r) < kHeaderSize \<and> \<not> rd_eof r then 1 else 0)")
    (auto simp: kHeaderSize_def kBlockSize_def)

declare ReadPhysicalRecord.simps [simp del]

text \<open>
  The loop of \<open>ReadRecord\<close>: the arguments are whether a record was begun, where it was, and what of it
  has been read.  The result is whether a record was read, and the record.
\<close>

partial_function (option) ReadRecord_loop ::
  "(uint32 \<Rightarrow> string \<Rightarrow> uint32) \<Rightarrow> bool \<Rightarrow> uint64 \<Rightarrow> string \<Rightarrow> Reader \<Rightarrow> (bool \<times> string \<times> Reader) option" where
  "ReadRecord_loop ext in_fragmented offset scratch r =
     (let physical_record_offset = rd_end_of_buffer_offset r - of_nat (length (rd_buffer r)) in
      case ReadPhysicalRecord ext r of
        (t, fragment, r1) \<Rightarrow>
          if t = rec_num kFullType then
            let r2 = (if in_fragmented \<and> scratch \<noteq> [] then ReportCorruption (length scratch) r1 else r1)
            in Some (True, fragment, r2\<lparr>rd_last_record_offset := physical_record_offset\<rparr>)
          else if t = rec_num kFirstType then
            let r2 = (if in_fragmented \<and> scratch \<noteq> [] then ReportCorruption (length scratch) r1 else r1)
            in ReadRecord_loop ext True physical_record_offset fragment r2
          else if t = rec_num kMiddleType then
            if \<not> in_fragmented
            then ReadRecord_loop ext in_fragmented offset scratch (ReportCorruption (length fragment) r1)
            else ReadRecord_loop ext in_fragmented offset (scratch @ fragment) r1
          else if t = rec_num kLastType then
            if \<not> in_fragmented
            then ReadRecord_loop ext in_fragmented offset scratch (ReportCorruption (length fragment) r1)
            else Some (True, scratch @ fragment, r1\<lparr>rd_last_record_offset := offset\<rparr>)
          else if t = kEof then Some (False, [], r1)
          else if t = kBadRecord then
            if in_fragmented
            then ReadRecord_loop ext False offset [] (ReportCorruption (length scratch) r1)
            else ReadRecord_loop ext in_fragmented offset scratch r1
          else
            ReadRecord_loop ext False offset []
              (ReportCorruption (length fragment + (if in_fragmented then length scratch else 0)) r1))"

definition ReadRecord :: "(uint32 \<Rightarrow> string \<Rightarrow> uint32) \<Rightarrow> Reader \<Rightarrow> (bool \<times> string \<times> Reader) option" where
  "ReadRecord ext r =
     (let (ok, r) = (if rd_last_record_offset r < rd_initial_offset r then SkipToInitialBlock r else (True, r))
      in if ok then ReadRecord_loop ext False 0 [] r else Some (False, [], r))"

text \<open>
  The clients: records are added until one fails, with the length of the file after each that was
  acknowledged; and at most \<open>n\<close> records are read.
\<close>

fun AddRecords :: "(uint32 \<Rightarrow> string \<Rightarrow> uint32) \<Rightarrow> string list \<Rightarrow> Writer \<Rightarrow> (nat list \<times> Status \<times> Writer) option" where
  "AddRecords ext [] w = Some ([], OK, w)"
| "AddRecords ext (rcd # rs) w =
     (case AddRecord ext rcd w of
        None \<Rightarrow> None
      | Some (s, w1) \<Rightarrow>
          if s = OK then map_option (\<lambda>(ls, x). (length (wf_data (w_dest w1)) # ls, x)) (AddRecords ext rs w1)
          else Some ([], s, w1))"

fun ReadRecords :: "(uint32 \<Rightarrow> string \<Rightarrow> uint32) \<Rightarrow> nat \<Rightarrow> Reader \<Rightarrow> (string list \<times> Reader) option" where
  "ReadRecords ext 0 r = Some ([], r)"
| "ReadRecords ext (Suc n) r =
     (case ReadRecord ext r of
        None \<Rightarrow> None
      | Some (ok, rcd, r1) \<Rightarrow>
          if ok then map_option (\<lambda>(xs, r2). (rcd # xs, r2)) (ReadRecords ext n r1) else Some ([], r1))"

end
