(* ===== verification/Ldb_Log_Laws.thy ===== *)
theory Ldb_Log_Laws
  imports Ldb_Log
begin

unbundle bit_operations_syntax

text \<open>
  The log is read back: what one fragment is in the file, how the reader finds it behind the trailer and
  across the buffer's end, what it makes of a fragment that is cut short, and by induction over the
  fragments and the records that a log that was cut anywhere gives the records before the cut.
\<close>

section \<open>The bytes of a fragment\<close>

lemma crc_Unmask_Mask: "crc_Unmask (crc_Mask c) = c"
proof -
  let ?r = "drop_bit 15 c OR push_bit 17 c"
  have "drop_bit 17 ?r OR push_bit 15 ?r = c"
  proof (rule bit_eqI)
    fix n
    assume "possible_bit TYPE(32 word) n"
    then have "n < 32" by simp
    then show "bit (drop_bit 17 ?r OR push_bit 15 ?r) n = bit c n"
      by (cases "n < 15")
        (auto simp: bit_or_iff bit_push_bit_iff bit_drop_bit_eq add.commute dest: bit_imp_le_length)
  qed
  then show ?thesis
    by (simp add: crc_Unmask_def crc_Mask_def Let_def)
qed

definition phys :: "(uint32 \<Rightarrow> string \<Rightarrow> uint32) \<Rightarrow> RecordType \<Rightarrow> string \<Rightarrow> string" where
  "phys ext t p =
     EncodeFixed32 (crc_Mask (ext (ext 0 [char_of (rec_num t)]) p)) @
     [char_of (length p mod 256), char_of (length p div 256), char_of (rec_num t)] @ p"

definition trailer :: "nat \<Rightarrow> string" where
  "trailer off = (if kBlockSize - off < kHeaderSize then replicate (kBlockSize - off) (char_of (0 :: nat)) else [])"

definition start_at :: "nat \<Rightarrow> nat" where
  "start_at off = (if kBlockSize - off < kHeaderSize then 0 else off)"

lemma length_phys [simp]: "length (phys ext t p) = kHeaderSize + length p"
  by (simp add: phys_def EncodeFixed32_def kHeaderSize_def)

lemma start_at_room: "start_at off + kHeaderSize + (kBlockSize - start_at off - kHeaderSize) = kBlockSize"
  by (auto simp: start_at_def kBlockSize_def kHeaderSize_def)

definition crcs_ok :: "(uint32 \<Rightarrow> string \<Rightarrow> uint32) \<Rightarrow> Writer \<Rightarrow> bool" where
  "crcs_ok ext w \<longleftrightarrow> w_type_crc w = w_type_crc (Writer_new ext (w_dest w))"

lemma crcs_ok_same: "w_type_crc w2 = w_type_crc w \<Longrightarrow> crcs_ok ext w2 \<longleftrightarrow> crcs_ok ext w"
  by (simp add: crcs_ok_def Writer_new_def)

lemma crcs_ok_nth: "crcs_ok ext w \<Longrightarrow> w_type_crc w ! rec_num t = ext 0 [char_of (rec_num t)]"
  unfolding crcs_ok_def Writer_new_def by (cases t) (simp_all add: kMaxRecordType_def numeral_2_eq_2)

lemma switch_block_effect:
  "w_dest (switch_block w) = (w_dest w)
     \<lparr>wf_data := wf_data (w_dest w) @ take (wf_room (w_dest w)) (trailer (w_block_offset w)),
      wf_room := wf_room (w_dest w) - length (trailer (w_block_offset w))\<rparr>"
  "w_block_offset (switch_block w) = start_at (w_block_offset w)"
  "w_type_crc (switch_block w) = w_type_crc w"
  by (auto simp: switch_block_def Let_def trailer_def start_at_def wf_Append_def)

lemma wf_Append_twice:
  assumes "wf_Append h f = (s1, f1)" and "wf_Append p f1 = (s2, f2)"
  shows "(if s1 = OK then f2 else f1) =
      f\<lparr>wf_data := wf_data f @ take (wf_room f) (h @ p), wf_room := wf_room f - length (h @ p)\<rparr>"
    and "s1 = OK \<and> s2 = OK \<longleftrightarrow> length (h @ p) \<le> wf_room f"
  using assms by (auto simp: wf_Append_def not_le split: if_splits)

lemma EmitPhysicalRecord_effect:
  assumes "crcs_ok ext w" and "w_block_offset w + kHeaderSize + length p \<le> kBlockSize"
  obtains s where "EmitPhysicalRecord ext t p w = Some (s, w
      \<lparr>w_dest := (w_dest w)
        \<lparr>wf_data := wf_data (w_dest w) @ take (wf_room (w_dest w)) (phys ext t p),
         wf_room := wf_room (w_dest w) - length (phys ext t p)\<rparr>,
       w_block_offset := w_block_offset w + kHeaderSize + length p\<rparr>)"
    and "s = OK \<longleftrightarrow> length (phys ext t p) \<le> wf_room (w_dest w) \<and> \<not> wf_fault (w_dest w)"
proof -
  have n: "length p \<le> 65535"
    using assms(2) by (simp add: kBlockSize_def kHeaderSize_def)
  define h where "h = EncodeFixed32 (crc_Mask (ext (ext 0 [char_of (rec_num t)]) p)) @
     [char_of (length p mod 256), char_of (length p div 256), char_of (rec_num t)]"
  have h: "phys ext t p = h @ p"
    by (simp add: phys_def h_def)
  obtain s1 f1 s2 f2 where a: "wf_Append h (w_dest w) = (s1, f1)" "wf_Append p f1 = (s2, f2)"
    by (metis surj_pair)
  have fault: "wf_fault f2 = wf_fault (w_dest w)"
    using a by (auto simp: wf_Append_def)
  have "EmitPhysicalRecord ext t p w = Some (if s1 = OK \<and> s2 = OK then fst (wf_Flush f2) else
        if s1 = OK then s2 else s1,
      w\<lparr>w_dest := if s1 = OK then f2 else f1, w_block_offset := w_block_offset w + kHeaderSize + length p\<rparr>)"
    unfolding EmitPhysicalRecord_def Let_def crcs_ok_nth [OF assms(1)] h_def [symmetric] a
    using n assms(2) a(2) by (simp add: wf_Flush_def)
  then show ?thesis
    unfolding wf_Append_twice(1) [OF a] h [symmetric]
    by (rule that) (use wf_Append_twice(2) [OF a] fault in \<open>auto simp: h [symmetric] wf_Flush_def\<close>)
qed

section \<open>Parsing a fragment\<close>

lemma crc_law_phys:
  assumes "\<And>c a b. ext (ext c a) b = ext c (a @ b)" and "length p \<le> 65535"
    and "rd_buffer rd = phys ext t p @ rest" and "rd_initial_offset rd = 0" and "t \<noteq> kZeroType"
  shows "parse_header ext rd = (rec_num t, p, rd\<lparr>rd_buffer := rest\<rparr>)"
proof -
  define a b c where "a = (char_of (length p mod 256) :: char)" and "b = (char_of (length p div 256) :: char)"
    and "c = (char_of (rec_num t) :: char)"
  have len: "of_char a + 256 * of_char b = length p"
    using assms(2) by (simp add: a_def b_def)
  have t: "of_char c = rec_num t" "sign_extend32 (rec_num t) = rec_num t" "rec_num t \<noteq> 0"
    using assms(5) by (cases t; simp add: c_def sign_extend32_def)+
  define crc where "crc = EncodeFixed32 (crc_Mask (ext (ext 0 [c]) p))"
  have l: "length crc = 4"
    by (simp add: crc_def EncodeFixed32_def)
  have buf: "rd_buffer rd = crc @ a # b # c # p @ rest"
    using assms(3) by (simp add: phys_def crc_def a_def b_def c_def)
  have d: "the (DecodeFixed32 (crc @ a # b # c # p @ rest)) = crc_Mask (ext 0 (c # p))"
    by (simp add: crc_def DecodeFixed32_Encode assms(1))
  have n: "(crc @ a # b # c # p @ rest) ! 4 = a" "(crc @ a # b # c # p @ rest) ! 5 = b"
    "(crc @ a # b # c # p @ rest) ! 6 = c" "drop 6 (crc @ a # b # c # p @ rest) = c # p @ rest"
    "drop 7 (crc @ a # b # c # p @ rest) = p @ rest"
    using l by (simp_all add: nth_append nth_Cons')
  from n(5) have n7: "drop (7 + length p) (crc @ a # b # c # p @ rest) = rest"
    by (metis add.commute append_eq_conv_conj drop_drop)
  show ?thesis
    unfolding parse_header_def buf Let_def n d len t crc_Unmask_Mask
    using l t(3) assms(4) n(5) n7 by (simp add: kHeaderSize_def)
qed

lemma parse_cut:
  assumes "length p \<le> 65535" and "phys ext t p = c @ q" and "q \<noteq> []" and "rd_buffer rd = c" and "rd_eof rd"
  shows "ReadPhysicalRecord ext rd = (kEof, [], rd\<lparr>rd_buffer := []\<rparr>)"
proof (cases "length c < kHeaderSize")
  case False
  define a b where "a = (char_of (length p mod 256) :: char)" and "b = (char_of (length p div 256) :: char)"
  have len: "of_char a + 256 * of_char b = length p"
    using assms(1) by (simp add: a_def b_def)
  have "c ! i = phys ext t p ! i" if "i < 7" for i
    using False that assms(2) by (simp add: nth_append kHeaderSize_def)
  then have "c ! 4 = a" "c ! 5 = b"
    by (simp_all add: phys_def EncodeFixed32_def a_def b_def)
  moreover have "length c < kHeaderSize + length p"
    using assms(3) length_phys [of ext t p] unfolding assms(2) by (cases q) simp_all
  ultimately show ?thesis
    using False assms(4,5) len
    by (subst ReadPhysicalRecord.simps) (simp add: parse_header_def Let_def)
qed (use assms in \<open>simp add: ReadPhysicalRecord.simps [of ext rd]\<close>)

section \<open>Where the reader is\<close>

text \<open>
  \<open>at off rest rd\<close>: the reader is at offset \<open>off\<close> of a block and \<open>rest\<close> is what it has not read.
\<close>

definition at :: "nat \<Rightarrow> string \<Rightarrow> Reader \<Rightarrow> bool" where
  "at off rest rd \<longleftrightarrow>
     rest = rd_buffer rd @ sf_rest (rd_file rd) \<and> sf_budget (rd_file rd) = None \<and>
     rd_initial_offset rd = 0 \<and> off \<le> kBlockSize \<and>
     (if rd_eof rd then sf_rest (rd_file rd) = [] \<and> length (rd_buffer rd) \<le> kBlockSize - off
      else length (rd_buffer rd) = kBlockSize - off)"

text \<open>Reading over a trailer into the next block.\<close>

definition refill :: "Reader \<Rightarrow> Reader" where
  "refill rd =
     (let data = take kBlockSize (sf_rest (rd_file rd)) in
      rd\<lparr>rd_file := (rd_file rd)\<lparr>sf_rest := drop kBlockSize (sf_rest (rd_file rd))\<rparr>, rd_buffer := data,
        rd_end_of_buffer_offset := rd_end_of_buffer_offset rd + of_nat (length data),
        rd_eof := length data < kBlockSize\<rparr>)"

lemma read_refill:
  assumes "\<not> rd_eof rd" and "length (rd_buffer rd) < kHeaderSize" and "sf_budget (rd_file rd) = None"
  shows "ReadPhysicalRecord ext rd = ReadPhysicalRecord ext (refill rd)"
  using assms
  by (subst ReadPhysicalRecord.simps, cases rd, cases "length (sf_rest (rd_file rd)) < kBlockSize")
    (simp_all add: refill_def sf_Read_def Let_def)

lemma at_trailer:
  assumes "at off (trailer off @ rest) rd" and "start_at off = 0" and "off \<noteq> 0" and "\<not> rd_eof rd"
  shows "at 0 rest (refill rd)" and "ReadPhysicalRecord ext rd = ReadPhysicalRecord ext (refill rd)"
    and "rd_reports (refill rd) = rd_reports rd"
proof -
  have off: "kBlockSize - off < kHeaderSize"
    using assms(2,3) by (simp add: start_at_def split: if_splits)
  then have "rd_buffer rd = trailer off" "sf_rest (rd_file rd) = rest"
    using assms by (auto simp: at_def trailer_def append_eq_append_conv)
  then show "at 0 rest (refill rd)" "rd_reports (refill rd) = rd_reports rd"
    using assms off by (auto simp: at_def refill_def Let_def trailer_def)
  show "ReadPhysicalRecord ext rd = ReadPhysicalRecord ext (refill rd)"
    using assms off by (intro read_refill) (auto simp: at_def)
qed

text \<open>A whole fragment is read, and a fragment cut anywhere is the end of the file.\<close>

lemma at_fragment:
  assumes "at off (phys ext t p @ rest) rd" and "off + kHeaderSize + length p \<le> kBlockSize"
  obtains rest1 where "rd_buffer rd = phys ext t p @ rest1" and "kHeaderSize \<le> length (rd_buffer rd)"
    and "at (off + kHeaderSize + length p) rest (rd\<lparr>rd_buffer := rest1\<rparr>)"
proof -
  have *: "phys ext t p @ rest = rd_buffer rd @ sf_rest (rd_file rd)"
    using assms(1) by (simp add: at_def)
  have "length (phys ext t p) \<le> length (rd_buffer rd)"
  proof (cases "rd_eof rd")
    case True
    then have "rd_buffer rd = phys ext t p @ rest"
      using assms(1) by (simp add: at_def)
    then show ?thesis
      by simp
  qed (use assms in \<open>simp add: at_def\<close>)
  then obtain rest1 where r: "rd_buffer rd = phys ext t p @ rest1"
    using * by (metis append_eq_append_conv_if append_take_drop_id)
  then show ?thesis
    using assms * by (intro that [OF r]) (auto simp: at_def)
qed

lemma read_fragment_here:
  assumes "\<And>c a b. ext (ext c a) b = ext c (a @ b)" and "t \<noteq> kZeroType"
    and "at off (phys ext t p @ rest) rd" and "off + kHeaderSize + length p \<le> kBlockSize"
  obtains rd1 where "ReadPhysicalRecord ext rd = (rec_num t, p, rd1)"
    and "at (off + kHeaderSize + length p) rest rd1" and "rd_reports rd1 = rd_reports rd"
proof -
  obtain rest1 where r: "rd_buffer rd = phys ext t p @ rest1" "kHeaderSize \<le> length (rd_buffer rd)"
    "at (off + kHeaderSize + length p) rest (rd\<lparr>rd_buffer := rest1\<rparr>)"
    using at_fragment [OF assms(3,4)] by blast
  have "length p \<le> 65535"
    using assms(4) by (simp add: kBlockSize_def kHeaderSize_def)
  then have "parse_header ext rd = (rec_num t, p, rd\<lparr>rd_buffer := rest1\<rparr>)"
    using crc_law_phys [OF assms(1) _ r(1) _ assms(2)] assms(3) by (simp add: at_def)
  then show ?thesis
    using r(2,3) by (intro that [of "rd\<lparr>rd_buffer := rest1\<rparr>"]) (simp_all add: ReadPhysicalRecord.simps [of ext rd])
qed

lemma read_cut_here:
  assumes "at off c rd" and "phys ext t p = c @ q" and "q \<noteq> []" and "off + kHeaderSize + length p \<le> kBlockSize"
  obtains rd1 where "ReadPhysicalRecord ext rd = (kEof, [], rd1)" and "rd_reports rd1 = rd_reports rd"
proof -
  have "length c < kHeaderSize + length p"
    using assms(3) length_phys [of ext t p] unfolding assms(2) by (cases q) simp_all
  then have "rd_eof rd" "rd_buffer rd = c"
    using assms(1,4) by (auto simp: at_def split: if_splits)
  moreover have "length p \<le> 65535"
    using assms(4) by (simp add: kBlockSize_def kHeaderSize_def)
  ultimately show ?thesis
    using parse_cut [OF _ assms(2,3)] by (intro that [of "rd\<lparr>rd_buffer := []\<rparr>"]) simp_all
qed

text \<open>The same behind a trailer.\<close>

lemma start_at_cases:
  obtains (here) "start_at off = off" and "trailer off = []"
  | (behind) "start_at off = 0" and "off \<noteq> 0" and "kBlockSize - off < kHeaderSize"
      and "length (trailer off) = kBlockSize - off"
  by (cases "kBlockSize - off < kHeaderSize") (auto simp: start_at_def trailer_def kBlockSize_def kHeaderSize_def)

lemma read_fragment:
  assumes "\<And>c a b. ext (ext c a) b = ext c (a @ b)" and "t \<noteq> kZeroType"
    and "at off (trailer off @ phys ext t p @ rest) rd" and "start_at off + kHeaderSize + length p \<le> kBlockSize"
  obtains rd1 where "ReadPhysicalRecord ext rd = (rec_num t, p, rd1)"
    and "at (start_at off + kHeaderSize + length p) rest rd1" and "rd_reports rd1 = rd_reports rd"
proof (cases off rule: start_at_cases)
  case here
  then have "at off (phys ext t p @ rest) rd"
    using assms(3) by simp
  then show ?thesis
    by (rule read_fragment_here [OF assms(1,2)]) (use here assms(4) that in simp_all)
next
  case behind
  have "\<not> rd_eof rd"
  proof
    assume "rd_eof rd"
    then have "rd_buffer rd = trailer off @ phys ext t p @ rest" "length (rd_buffer rd) \<le> kBlockSize - off"
      using assms(3) by (simp_all add: at_def)
    then show False
      using behind by (simp add: kHeaderSize_def)
  qed
  note r = at_trailer [OF assms(3) behind(1,2) this]
  obtain rd1 where "ReadPhysicalRecord ext (refill rd) = (rec_num t, p, rd1)"
    "at (0 + kHeaderSize + length p) rest rd1" "rd_reports rd1 = rd_reports (refill rd)"
    using read_fragment_here [OF assms(1,2) r(1)] assms(4) behind(1) by auto
  then show ?thesis
    using r(2,3) behind(1) by (intro that [of rd1]) simp_all
qed

lemma read_cut:
  assumes "at off c rd" and "trailer off @ phys ext t p = c @ q" and "q \<noteq> []"
    and "start_at off + kHeaderSize + length p \<le> kBlockSize"
  obtains rd1 where "ReadPhysicalRecord ext rd = (kEof, [], rd1)" and "rd_reports rd1 = rd_reports rd"
proof (cases off rule: start_at_cases)
  case here
  then have "phys ext t p = c @ q"
    using assms(2) by simp
  then show ?thesis
    by (rule read_cut_here [OF assms(1) _ assms(3)]) (use here assms(4) that in simp_all)
next
  case behind
  show ?thesis
  proof (cases "rd_eof rd")
    case True
    then have "length (rd_buffer rd) < kHeaderSize"
      using assms(1) behind(3) by (simp add: at_def)
    then show ?thesis
      using True by (intro that [of "rd\<lparr>rd_buffer := []\<rparr>"]) (simp_all add: ReadPhysicalRecord.simps [of ext rd])
  next
    case False
    then have "length (trailer off) \<le> length c"
      using assms(1) behind(4) by (auto simp: at_def)
    then obtain c1 where c: "c = trailer off @ c1" "phys ext t p = c1 @ q"
      using assms(2) by (metis append_eq_append_conv_if append_take_drop_id same_append_eq)
    note r = at_trailer [OF assms(1) [unfolded c(1)] behind(1,2) False]
    obtain rd1 where "ReadPhysicalRecord ext (refill rd) = (kEof, [], rd1)" "rd_reports rd1 = rd_reports (refill rd)"
      using read_cut_here [OF r(1) c(2) assms(3)] assms(4) behind(1) by auto
    then show ?thesis
      using r(2,3) by (intro that [of rd1]) simp_all
  qed
qed

lemma read_end:
  assumes "at off [] rd"
  obtains rd1 where "ReadPhysicalRecord ext rd = (kEof, [], rd1)" and "rd_reports rd1 = rd_reports rd"
proof (rule read_cut [OF assms, of ext kFullType "[]" "trailer off @ phys ext kFullType []"])
  show "trailer off @ phys ext kFullType [] \<noteq> []"
    by (simp add: phys_def)
  show "start_at off + kHeaderSize + length ([] :: string) \<le> kBlockSize"
    using start_at_room [of off] by simp
qed (use that in simp_all)

section \<open>Fragments\<close>

text \<open>
  From offset \<open>off\<close>, inside a record unless \<open>bg\<close>: the reader finds no further record in \<open>c\<close>; it reads
  \<open>ptr\<close> from \<open>bs\<close> and is at \<open>off2\<close> then, and from nothing less.
\<close>

definition cut_ok :: "(uint32 \<Rightarrow> string \<Rightarrow> uint32) \<Rightarrow> nat \<Rightarrow> bool \<Rightarrow> string \<Rightarrow> bool" where
  "cut_ok ext off bg c \<longleftrightarrow>
     (\<forall>rd pos scratch. at off c rd \<longrightarrow>
        (\<exists>rd1. ReadRecord_loop ext (\<not> bg) pos scratch rd = Some (False, [], rd1) \<and>
           rd_reports rd1 = rd_reports rd))"

definition read_ok ::
  "(uint32 \<Rightarrow> string \<Rightarrow> uint32) \<Rightarrow> nat \<Rightarrow> bool \<Rightarrow> string \<Rightarrow> string \<Rightarrow> nat \<Rightarrow> bool" where
  "read_ok ext off bg ptr bs off2 \<longleftrightarrow>
     (\<forall>rd pos scratch rest. at off (bs @ rest) rd \<longrightarrow>
        (\<exists>rd1. ReadRecord_loop ext (\<not> bg) pos scratch rd = Some (True, (if bg then [] else scratch) @ ptr, rd1) \<and>
           at off2 rest rd1 \<and> rd_reports rd1 = rd_reports rd)) \<and>
     (\<forall>c q. bs = c @ q \<longrightarrow> q \<noteq> [] \<longrightarrow> cut_ok ext off bg c)"

lemma cut_okD:
  "cut_ok ext off bg c \<Longrightarrow> at off c rd \<Longrightarrow>
    \<exists>rd1. ReadRecord_loop ext (\<not> bg) pos scratch rd = Some (False, [], rd1) \<and> rd_reports rd1 = rd_reports rd"
  by (simp add: cut_ok_def)

lemma read_okD:
  "read_ok ext off bg ptr bs off2 \<Longrightarrow> at off (bs @ rest) rd \<Longrightarrow>
    \<exists>rd1. ReadRecord_loop ext (\<not> bg) pos scratch rd = Some (True, (if bg then [] else scratch) @ ptr, rd1) \<and>
      at off2 rest rd1 \<and> rd_reports rd1 = rd_reports rd"
  by (simp add: read_ok_def)

lemma rec_num_fragment_type:
  "rec_num (fragment_type True True) = 1" "rec_num (fragment_type True False) = 2"
  "rec_num (fragment_type False False) = 3" "rec_num (fragment_type False True) = 4"
  "fragment_type bg e \<noteq> kZeroType"
  by (simp_all add: fragment_type_def)

lemma loop_more:
  assumes "ReadPhysicalRecord ext rd = (rec_num (fragment_type bg False), p, rd1)"
  obtains pos1 where "ReadRecord_loop ext (\<not> bg) pos scratch rd =
    ReadRecord_loop ext True pos1 ((if bg then [] else scratch) @ p) rd1"
  using assms by (cases bg) (simp_all add: ReadRecord_loop.simps [of ext _ pos scratch rd] rec_num_fragment_type Let_def)

lemma loop_end:
  assumes "ReadPhysicalRecord ext rd = (rec_num (fragment_type bg True), p, rd1)"
  obtains pos1 where "ReadRecord_loop ext (\<not> bg) pos scratch rd =
    Some (True, (if bg then [] else scratch) @ p, rd1\<lparr>rd_last_record_offset := pos1\<rparr>)"
  using assms by (cases bg) (simp_all add: ReadRecord_loop.simps [of ext _ pos scratch rd] rec_num_fragment_type Let_def)

lemma loop_eof:
  "ReadPhysicalRecord ext rd = (kEof, p, rd1) \<Longrightarrow> ReadRecord_loop ext fg pos scratch rd = Some (False, [], rd1)"
  by (simp add: ReadRecord_loop.simps [of ext fg pos] kEof_def kMaxRecordType_def Let_def)

lemma at_last_record_offset [simp]: "at off rest (rd\<lparr>rd_last_record_offset := pos\<rparr>) = at off rest rd"
  by (simp add: at_def)

lemma cut_nothing: "cut_ok ext off bg []"
  unfolding cut_ok_def by (metis read_end loop_eof)

lemma cut_fragment:
  assumes "trailer off @ phys ext t p = c @ q" and "q \<noteq> []" and "start_at off + kHeaderSize + length p \<le> kBlockSize"
  shows "cut_ok ext off bg c"
  unfolding cut_ok_def by (metis read_cut [OF _ assms] loop_eof)

lemma cut_more:
  assumes "\<And>c a b. ext (ext c a) b = ext c (a @ b)" and "start_at off + kHeaderSize + length p \<le> kBlockSize"
    and "cut_ok ext (start_at off + kHeaderSize + length p) False c"
  shows "cut_ok ext off bg (trailer off @ phys ext (fragment_type bg False) p @ c)"
  unfolding cut_ok_def
proof (intro allI impI)
  fix rd pos scratch
  assume "at off (trailer off @ phys ext (fragment_type bg False) p @ c) rd"
  then obtain rd1 where r: "ReadPhysicalRecord ext rd = (rec_num (fragment_type bg False), p, rd1)"
    "at (start_at off + kHeaderSize + length p) c rd1" "rd_reports rd1 = rd_reports rd"
    using read_fragment [OF assms(1) rec_num_fragment_type(5) _ assms(2)] by metis
  obtain pos1 where "ReadRecord_loop ext (\<not> bg) pos scratch rd =
    ReadRecord_loop ext True pos1 ((if bg then [] else scratch) @ p) rd1"
    using loop_more [OF r(1)] by blast
  then show "\<exists>rd1. ReadRecord_loop ext (\<not> bg) pos scratch rd = Some (False, [], rd1) \<and>
      rd_reports rd1 = rd_reports rd"
    using cut_okD [OF assms(3) r(2), of pos1 "(if bg then [] else scratch) @ p"] r(3) by metis
qed

lemma read_whole:
  assumes "\<And>c a b. ext (ext c a) b = ext c (a @ b)" and "start_at off + kHeaderSize + length p \<le> kBlockSize"
  shows "read_ok ext off bg p (trailer off @ phys ext (fragment_type bg True) p) (start_at off + kHeaderSize + length p)"
  unfolding read_ok_def
proof (intro conjI allI impI)
  fix rd pos scratch rest
  assume "at off ((trailer off @ phys ext (fragment_type bg True) p) @ rest) rd"
  then have "at off (trailer off @ phys ext (fragment_type bg True) p @ rest) rd"
    by simp
  then obtain rd1 where r: "ReadPhysicalRecord ext rd = (rec_num (fragment_type bg True), p, rd1)"
    "at (start_at off + kHeaderSize + length p) rest rd1" "rd_reports rd1 = rd_reports rd"
    using read_fragment [OF assms(1) rec_num_fragment_type(5) _ assms(2)] by metis
  obtain pos1 where "ReadRecord_loop ext (\<not> bg) pos scratch rd =
    Some (True, (if bg then [] else scratch) @ p, rd1\<lparr>rd_last_record_offset := pos1\<rparr>)"
    using loop_end [OF r(1)] by blast
  then show "\<exists>rd1. ReadRecord_loop ext (\<not> bg) pos scratch rd = Some (True, (if bg then [] else scratch) @ p, rd1) \<and>
      at (start_at off + kHeaderSize + length p) rest rd1 \<and> rd_reports rd1 = rd_reports rd"
    using r(2,3) by simp
qed (use cut_fragment assms(2) in blast)

lemma read_more:
  assumes "\<And>c a b. ext (ext c a) b = ext c (a @ b)" and "start_at off + kHeaderSize + length p \<le> kBlockSize"
    and "read_ok ext (start_at off + kHeaderSize + length p) False ptr bs off2"
  shows "read_ok ext off bg (p @ ptr) (trailer off @ phys ext (fragment_type bg False) p @ bs) off2"
  unfolding read_ok_def
proof (intro conjI allI impI)
  fix rd pos scratch rest
  assume "at off ((trailer off @ phys ext (fragment_type bg False) p @ bs) @ rest) rd"
  then have "at off (trailer off @ phys ext (fragment_type bg False) p @ bs @ rest) rd"
    by simp
  then obtain rd1 where r: "ReadPhysicalRecord ext rd = (rec_num (fragment_type bg False), p, rd1)"
    "at (start_at off + kHeaderSize + length p) (bs @ rest) rd1" "rd_reports rd1 = rd_reports rd"
    using read_fragment [OF assms(1) rec_num_fragment_type(5) _ assms(2)] by metis
  obtain pos1 where "ReadRecord_loop ext (\<not> bg) pos scratch rd =
    ReadRecord_loop ext True pos1 ((if bg then [] else scratch) @ p) rd1"
    using loop_more [OF r(1)] by blast
  then show "\<exists>rd1. ReadRecord_loop ext (\<not> bg) pos scratch rd =
      Some (True, (if bg then [] else scratch) @ p @ ptr, rd1) \<and> at off2 rest rd1 \<and> rd_reports rd1 = rd_reports rd"
    using read_okD [OF assms(3) r(2), of pos1 "(if bg then [] else scratch) @ p"] r(3) by (metis append.assoc)
next
  fix c q
  assume *: "trailer off @ phys ext (fragment_type bg False) p @ bs = c @ q" "q \<noteq> []"
  then obtain us where us: "trailer off @ phys ext (fragment_type bg False) p = c @ us \<and> us @ bs = q \<or>
      (trailer off @ phys ext (fragment_type bg False) p) @ us = c \<and> bs = us @ q"
    unfolding append.assoc [symmetric] append_eq_append_conv2 by blast
  consider "us \<noteq> []" "trailer off @ phys ext (fragment_type bg False) p = c @ us"
    | c1 where "c = trailer off @ phys ext (fragment_type bg False) p @ c1" "bs = c1 @ q"
    using us that(2) [of us] that(2) [of "[]"] that(1) by (cases "us = []") auto
  then show "cut_ok ext off bg c"
  proof cases
    case 1
    then show ?thesis
      using cut_fragment assms(2) by blast
  next
    case 2
    then show ?thesis
      using cut_more [OF assms(1,2)] assms(3) *(2) unfolding read_ok_def by simp
  qed
qed

section \<open>Records\<close>

text \<open>A fragment and the trailer before it, or what of it fits, was written.\<close>

definition wrote ::
  "(uint32 \<Rightarrow> string \<Rightarrow> uint32) \<Rightarrow> RecordType \<Rightarrow> string \<Rightarrow> Writer \<Rightarrow> Status \<Rightarrow> Writer \<Rightarrow> bool" where
  "wrote ext t p w s w2 \<longleftrightarrow>
     (let off = w_block_offset w; bs = trailer off @ phys ext t p in
      EmitPhysicalRecord ext t p (switch_block w) = Some (s, w2) \<and> crcs_ok ext w2 \<and>
      start_at off + kHeaderSize + length p \<le> kBlockSize \<and>
      wf_data (w_dest w2) = wf_data (w_dest w) @ take (wf_room (w_dest w)) bs \<and>
      wf_room (w_dest w2) = wf_room (w_dest w) - length bs \<and> wf_fault (w_dest w2) = wf_fault (w_dest w) \<and>
      w_block_offset w2 = start_at off + kHeaderSize + length p \<and>
      (s = OK \<longleftrightarrow> length bs \<le> wf_room (w_dest w) \<and> \<not> wf_fault (w_dest w)))"

lemma fragment_written:
  assumes "crcs_ok ext w" and "start_at (w_block_offset w) + kHeaderSize + length p \<le> kBlockSize"
  obtains s w2 where "wrote ext t p w s w2"
proof -
  have "crcs_ok ext (switch_block w)"
    using assms(1) crcs_ok_same [OF switch_block_effect(3)] by simp
  moreover have "w_block_offset (switch_block w) + kHeaderSize + length p \<le> kBlockSize"
    using assms(2) by (simp add: switch_block_effect)
  ultimately obtain s where e: "EmitPhysicalRecord ext t p (switch_block w) = Some (s, (switch_block w)
      \<lparr>w_dest := (w_dest (switch_block w))
        \<lparr>wf_data := wf_data (w_dest (switch_block w)) @ take (wf_room (w_dest (switch_block w))) (phys ext t p),
         wf_room := wf_room (w_dest (switch_block w)) - length (phys ext t p)\<rparr>,
       w_block_offset := w_block_offset (switch_block w) + kHeaderSize + length p\<rparr>)"
    "s = OK \<longleftrightarrow> length (phys ext t p) \<le> wf_room (w_dest (switch_block w)) \<and> \<not> wf_fault (w_dest (switch_block w))"
    by (rule EmitPhysicalRecord_effect)
  have ok: "length (trailer (w_block_offset w) @ phys ext t p) \<le> wf_room (w_dest w) \<longleftrightarrow>
      length (phys ext t p) \<le> wf_room (w_dest (switch_block w))"
    by (simp add: switch_block_effect kHeaderSize_def) linarith
  have "crcs_ok ext (switch_block w\<lparr>w_dest := f, w_block_offset := off\<rparr>)" for f off
    using assms(1) crcs_ok_same [of "switch_block w\<lparr>w_dest := f, w_block_offset := off\<rparr>" w ext]
    by (simp add: switch_block_effect)
  note crcs = this
  show ?thesis
    by (rule that, unfold wrote_def Let_def, intro conjI, rule e(1))
      (use assms(2) in \<open>simp_all only: ok e(2) crcs\<close>, simp_all add: switch_block_effect)
qed

text \<open>
  What one call of \<open>AddRecord\<close> leaves in the file: the whole record, which is read back, or part of it,
  in which no record is found.
\<close>

definition added ::
  "(uint32 \<Rightarrow> string \<Rightarrow> uint32) \<Rightarrow> string \<Rightarrow> bool \<Rightarrow> Writer \<Rightarrow> Status \<Rightarrow> Writer \<Rightarrow> string \<Rightarrow> bool" where
  "added ext ptr bg w s w2 bs \<longleftrightarrow>
     crcs_ok ext w2 \<and> w_block_offset w2 \<le> kBlockSize \<and> wf_data (w_dest w2) = wf_data (w_dest w) @ bs \<and>
     wf_fault (w_dest w2) = wf_fault (w_dest w) \<and>
     (s \<noteq> OK \<longrightarrow> wf_fault (w_dest w) \<or> wf_room (w_dest w2) = 0) \<and>
     (read_ok ext (w_block_offset w) bg ptr bs (w_block_offset w2) \<or>
      s \<noteq> OK \<and> (\<forall>c q. bs = c @ q \<longrightarrow> cut_ok ext (w_block_offset w) bg c))"

lemma cut_upto:
  assumes "\<And>c a b. ext (ext c a) b = ext c (a @ b)" and "start_at off + kHeaderSize + length p \<le> kBlockSize"
    and "\<forall>c q. bs = c @ q \<longrightarrow> cut_ok ext (start_at off + kHeaderSize + length p) False c"
    and "trailer off @ phys ext (fragment_type bg False) p @ bs = c @ q"
  shows "cut_ok ext off bg c"
proof -
  obtain us where us: "trailer off @ phys ext (fragment_type bg False) p = c @ us \<and> us @ bs = q \<or>
      (trailer off @ phys ext (fragment_type bg False) p) @ us = c \<and> bs = us @ q"
    using assms(4) unfolding append.assoc [symmetric] append_eq_append_conv2 by blast
  consider "us \<noteq> []" "trailer off @ phys ext (fragment_type bg False) p = c @ us"
    | c1 q1 where "c = trailer off @ phys ext (fragment_type bg False) p @ c1" "bs = c1 @ q1"
    using us that(2) [of us] that(2) [of "[]"] that(1) by (cases "us = []") auto
  then show ?thesis
  proof cases
    case 1
    then show ?thesis
      using cut_fragment assms(2) by blast
  next
    case 2
    then show ?thesis
      using cut_more [OF assms(1,2)] assms(3) by simp
  qed
qed

lemma added_full:
  assumes "wrote ext t p w s w2" and "wf_room (w_dest w) < length (trailer (w_block_offset w) @ phys ext t p)"
  shows "s \<noteq> OK" and "\<exists>bs. added ext ptr bg w s w2 bs"
proof -
  define bs where "bs = trailer (w_block_offset w) @ phys ext t p"
  note e = assms(1) [unfolded wrote_def Let_def, folded bs_def]
  have l: "wf_room (w_dest w) < length bs"
    using assms(2) unfolding bs_def .
  then show "s \<noteq> OK"
    using e by simp
  have "cut_ok ext (w_block_offset w) bg c" if "take (wf_room (w_dest w)) bs = c @ q" for c q
  proof (rule cut_fragment)
    show "trailer (w_block_offset w) @ phys ext t p = c @ q @ drop (wf_room (w_dest w)) bs"
      using that unfolding bs_def [symmetric] by (metis append.assoc append_take_drop_id)
    show "q @ drop (wf_room (w_dest w)) bs \<noteq> []"
      using l by simp
    show "start_at (w_block_offset w) + kHeaderSize + length p \<le> kBlockSize"
      using e by simp
  qed
  then show "\<exists>bs. added ext ptr bg w s w2 bs"
    using e l by (intro exI [of _ "take (wf_room (w_dest w)) bs"]) (auto simp: added_def)
qed

lemma added_whole:
  assumes "\<And>c a b. ext (ext c a) b = ext c (a @ b)" and "wrote ext (fragment_type bg True) ptr w s w2"
    and "length (trailer (w_block_offset w) @ phys ext (fragment_type bg True) ptr) \<le> wf_room (w_dest w)"
  shows "\<exists>bs. added ext ptr bg w s w2 bs"
proof
  show "added ext ptr bg w s w2 (trailer (w_block_offset w) @ phys ext (fragment_type bg True) ptr)"
    using assms(2,3) read_whole [OF assms(1), of "w_block_offset w" ptr bg]
    unfolding added_def wrote_def Let_def by auto
qed

lemma added_stopped:
  assumes "\<And>c a b. ext (ext c a) b = ext c (a @ b)" and "wrote ext (fragment_type bg False) p w s w2"
    and "length (trailer (w_block_offset w) @ phys ext (fragment_type bg False) p) \<le> wf_room (w_dest w)"
    and "s \<noteq> OK"
  shows "\<exists>bs. added ext ptr bg w s w2 bs"
proof
  show "added ext ptr bg w s w2 (trailer (w_block_offset w) @ phys ext (fragment_type bg False) p)"
    using assms(2,3,4) cut_upto [OF assms(1), of "w_block_offset w" p "[]"] cut_nothing
    unfolding added_def wrote_def Let_def by auto
qed

lemma added_more:
  assumes "\<And>c a b. ext (ext c a) b = ext c (a @ b)" and "wrote ext (fragment_type bg False) p w OK w2"
    and "added ext ptr False w2 s w3 bs"
  shows "\<exists>bs. added ext (p @ ptr) bg w s w3 bs"
proof
  show "added ext (p @ ptr) bg w s w3 (trailer (w_block_offset w) @ phys ext (fragment_type bg False) p @ bs)"
    using assms(2,3) read_more [OF assms(1), of "w_block_offset w" p ptr bs] 
      cut_upto [OF assms(1), of "w_block_offset w" p bs bg]
    unfolding added_def wrote_def Let_def by auto
qed

lemma added_loop:
  assumes "\<And>c a b. ext (ext c a) b = ext c (a @ b)" and "crcs_ok ext w" and "w_block_offset w \<le> kBlockSize"
  shows "\<exists>s w2. AddRecord_loop ext ptr bg w = Some (s, w2) \<and> (\<exists>bs. added ext ptr bg w s w2 bs)"
  using assms
proof (induction ext ptr bg w rule: AddRecord_loop.induct [case_names Loop])
  case (Loop ext ptr bg w)
  define n where "n = (if length ptr < room (switch_block w) then length ptr else room (switch_block w))"
  define t where "t = fragment_type bg (length ptr = n)"
  have n: "n \<le> length ptr" "n \<le> room (switch_block w)"
    by (auto simp: n_def)
  have fits: "start_at (w_block_offset w) + kHeaderSize + length (take n ptr) \<le> kBlockSize"
    using n start_at_room [of "w_block_offset w"] by (simp add: room_def switch_block_effect)
  then obtain s w2 where e: "wrote ext t (take n ptr) w s w2"
    using fragment_written [OF Loop.prems(2)] by metis
  then have step: "AddRecord_loop ext ptr bg w =
      (if s = OK \<and> length ptr - n > 0 then AddRecord_loop ext (drop n ptr) False w2 else Some (s, w2))"
    using Loop.prems(3) by (subst AddRecord_loop.simps) (simp add: Let_def n_def t_def wrote_def)
  show ?case
  proof (cases "length (trailer (w_block_offset w) @ phys ext t (take n ptr)) \<le> wf_room (w_dest w)")
    case False
    then show ?thesis
      using added_full [OF e] unfolding step by (auto simp: not_le)
  next
    case l: True
    show ?thesis
    proof (cases "length ptr = n")
      case True
      then show ?thesis
        using added_whole [OF Loop.prems(1)] e l unfolding step t_def by simp
    next
      case more: False
      then have t: "t = fragment_type bg False"
        by (simp add: t_def)
      show ?thesis
      proof (cases "s = OK")
        case False
        then show ?thesis
          using added_stopped [OF Loop.prems(1)] e l unfolding step t by simp
      next
        case True
        have "\<exists>s3 w3. AddRecord_loop ext (drop n ptr) False w2 = Some (s3, w3) \<and>
            (\<exists>bs. added ext (drop n ptr) False w2 s3 w3 bs)"
          using Loop.IH [OF Loop.prems(3) refl refl refl refl _ refl] e True more n(1) fits Loop.prems(1)
          unfolding n_def t_def wrote_def Let_def by simp
        then obtain s3 w3 where "AddRecord_loop ext (drop n ptr) False w2 = Some (s3, w3)"
          "\<exists>bs. added ext ptr bg w s3 w3 bs"
          using added_more [OF Loop.prems(1), of bg "take n ptr" w w2 "drop n ptr"] e unfolding t True by auto
        then show ?thesis
          using True more n(1) unfolding step by simp
      qed
    qed
  qed
qed

text \<open>What a reader at \<open>rd\<close> reads: these records, then no more, and nothing is reported.\<close>

definition reads :: "(uint32 \<Rightarrow> string \<Rightarrow> uint32) \<Rightarrow> Reader \<Rightarrow> string list \<Rightarrow> bool" where
  "reads ext rd xs \<longleftrightarrow>
     (\<forall>m. \<exists>rd1. ReadRecords ext m rd = Some (take m xs, rd1) \<and> rd_reports rd1 = rd_reports rd)"

lemma ReadRecord_at: "at off rest rd \<Longrightarrow> ReadRecord ext rd = ReadRecord_loop ext (\<not> True) 0 [] rd"
  by (simp add: ReadRecord_def at_def)

lemma reads_Nil:
  assumes "cut_ok ext off True c" and "at off c rd"
  shows "reads ext rd []"
  unfolding reads_def
proof
  fix m
  show "\<exists>rd1. ReadRecords ext m rd = Some (take m [], rd1) \<and> rd_reports rd1 = rd_reports rd"
    using cut_okD [OF assms, of 0 "[]"] ReadRecord_at [OF assms(2), of ext] by (cases m) auto
qed

lemma reads_Cons:
  assumes "read_ok ext off True x bs off2" and "at off (bs @ rest) rd"
  obtains rd1 where "at off2 rest rd1" and "\<And>xs. reads ext rd1 xs \<Longrightarrow> reads ext rd (x # xs)"
proof -
  obtain rd1 where r: "ReadRecord ext rd = Some (True, x, rd1)" "at off2 rest rd1" "rd_reports rd1 = rd_reports rd"
    using read_okD [OF assms(1,2), of 0 "[]"] ReadRecord_at [OF assms(2), of ext] by auto
  have "\<exists>rd2. ReadRecords ext m rd = Some (take m (x # xs), rd2) \<and> rd_reports rd2 = rd_reports rd"
    if xs: "reads ext rd1 xs" for m xs
  proof (cases m)
    case (Suc m1)
    obtain rd2 where "ReadRecords ext m1 rd1 = Some (take m1 xs, rd2)" "rd_reports rd2 = rd_reports rd1"
      using xs unfolding reads_def by blast
    then show ?thesis
      using Suc r by simp
  qed simp
  then show ?thesis
    using r(2) by (intro that [of rd1]) (simp_all add: reads_def [of ext rd])
qed

text \<open>
  All records: cut at any byte, the file gives at least the records that were acknowledged before that byte
  was written.
\<close>

definition logged :: "(uint32 \<Rightarrow> string \<Rightarrow> uint32) \<Rightarrow> string list \<Rightarrow> Writer \<Rightarrow> nat list \<Rightarrow> Status \<Rightarrow> Writer \<Rightarrow> bool" where
  "logged ext rs w ls s w2 \<longleftrightarrow>
     length ls \<le> length rs \<and> (s = OK \<longrightarrow> length ls = length rs) \<and>
     (s \<noteq> OK \<longrightarrow> wf_fault (w_dest w) \<or> wf_room (w_dest w2) = 0) \<and>
     (\<forall>l \<in> set ls. length (wf_data (w_dest w)) \<le> l \<and> l \<le> length (wf_data (w_dest w2))) \<and>
     (\<exists>bs. wf_data (w_dest w2) = wf_data (w_dest w) @ bs \<and>
       (\<forall>c q rd. bs = c @ q \<longrightarrow> at (w_block_offset w) c rd \<longrightarrow>
         (\<exists>k \<le> length rs. length (filter (\<lambda>l. l \<le> length (wf_data (w_dest w)) + length c) ls) \<le> k \<and>
            reads ext rd (take k rs))))"

lemma logged_Nil: "logged ext [] w [] OK w"
  unfolding logged_def using reads_Nil [OF cut_nothing] by auto

lemma logged_stopped:
  assumes "added ext r True w s w1 b1" and "s \<noteq> OK"
  shows "logged ext (r # rs) w [] s w1"
  unfolding logged_def
proof (intro conjI exI [of _ b1] allI impI)
  fix c q rd
  assume c: "b1 = c @ q" "at (w_block_offset w) c rd"
  consider "cut_ok ext (w_block_offset w) True c" | "q = []" "read_ok ext (w_block_offset w) True r c (w_block_offset w1)"
    using assms c unfolding added_def read_ok_def by (cases "q = []") auto
  then show "\<exists>k \<le> length (r # rs). length (filter (\<lambda>l. l \<le> length (wf_data (w_dest w)) + length c) []) \<le> k \<and>
      reads ext rd (take k (r # rs))"
  proof cases
    case 1
    then show ?thesis
      using reads_Nil [OF 1 c(2)] by (intro exI [of _ 0]) simp
  next
    case 2
    then have "reads ext rd [r]"
      using reads_Cons [OF 2(2), of "[]" rd] c reads_Nil [OF cut_nothing] by (metis append_Nil2)
    then show ?thesis
      by (intro exI [of _ 1]) simp
  qed
qed (use assms in \<open>auto simp: added_def\<close>)

lemma logged_Cons:
  assumes "read_ok ext (w_block_offset w) True r b1 (w_block_offset w1)"
    and "wf_data (w_dest w1) = wf_data (w_dest w) @ b1" and "wf_fault (w_dest w1) = wf_fault (w_dest w)"
    and "logged ext rs w1 ls s w2"
  shows "logged ext (r # rs) w (length (wf_data (w_dest w1)) # ls) s w2"
proof -
  obtain b2 where b2: "wf_data (w_dest w2) = wf_data (w_dest w1) @ b2"
    "\<And>c q rd. b2 = c @ q \<Longrightarrow> at (w_block_offset w1) c rd \<Longrightarrow>
         \<exists>k \<le> length rs. length (filter (\<lambda>l. l \<le> length (wf_data (w_dest w1)) + length c) ls) \<le> k \<and>
            reads ext rd (take k rs)"
    using assms(4) unfolding logged_def by blast
  have "\<exists>k \<le> length (r # rs). length (filter (\<lambda>l. l \<le> length (wf_data (w_dest w)) + length c)
        (length (wf_data (w_dest w1)) # ls)) \<le> k \<and> reads ext rd (take k (r # rs))"
    if c: "b1 @ b2 = c @ q" "at (w_block_offset w) c rd" for c q rd
  proof (cases "length c < length b1")
    case True
    then obtain us where us: "b1 = c @ us" "us \<noteq> []"
      using c(1) by (metis append_eq_append_conv2 append_Nil2 length_append less_not_refl not_add_less1)
    then have "reads ext rd []"
      using assms(1) c(2) unfolding read_ok_def by (blast intro: reads_Nil)
    moreover have "\<not> l \<le> length (wf_data (w_dest w)) + length c" if "l \<in> set ls" for l
      using that assms(2,4) True unfolding logged_def by fastforce
    ultimately show ?thesis
      using True assms(2) by (intro exI [of _ 0]) simp
  next
    case False
    then obtain c2 where c2: "c = b1 @ c2" "b2 = c2 @ q"
      using c(1) by (metis append_eq_append_conv_if append_take_drop_id not_less same_append_eq)
    obtain rd1 where rd1: "at (w_block_offset w1) c2 rd1" "\<And>xs. reads ext rd1 xs \<Longrightarrow> reads ext rd (r # xs)"
      using reads_Cons [OF assms(1)] c(2) c2(1) by metis
    obtain k where "k \<le> length rs" "length (filter (\<lambda>l. l \<le> length (wf_data (w_dest w1)) + length c2) ls) \<le> k"
      "reads ext rd1 (take k rs)"
      using b2(2) [OF c2(2) rd1(1)] by blast
    then show ?thesis
      using rd1(2) assms(2) c2(1) by (intro exI [of _ "Suc k"]) (simp add: add.assoc)
  qed
  then have "\<exists>bs. wf_data (w_dest w2) = wf_data (w_dest w) @ bs \<and>
      (\<forall>c q rd. bs = c @ q \<longrightarrow> at (w_block_offset w) c rd \<longrightarrow>
        (\<exists>k \<le> length (r # rs). length (filter (\<lambda>l. l \<le> length (wf_data (w_dest w)) + length c)
          (length (wf_data (w_dest w1)) # ls)) \<le> k \<and> reads ext rd (take k (r # rs))))"
    using b2(1) assms(2) by (intro exI [of _ "b1 @ b2"]) simp
  moreover have "\<forall>l \<in> set (length (wf_data (w_dest w1)) # ls).
      length (wf_data (w_dest w)) \<le> l \<and> l \<le> length (wf_data (w_dest w2))"
    using assms(2,4) b2(1) unfolding logged_def by fastforce
  ultimately show ?thesis
    using assms(3,4) unfolding logged_def by simp
qed

lemma logged_all:
  assumes "\<And>c a b. ext (ext c a) b = ext c (a @ b)" and "crcs_ok ext w" and "w_block_offset w \<le> kBlockSize"
  shows "\<exists>ls s w2. AddRecords ext rs w = Some (ls, s, w2) \<and> logged ext rs w ls s w2"
  using assms(2,3)
proof (induction rs arbitrary: w)
  case Nil
  then show ?case
    by (simp add: logged_Nil)
next
  case (Cons r rs)
  obtain s w1 b1 where a: "AddRecord ext r w = Some (s, w1)" "added ext r True w s w1 b1"
    using added_loop [OF assms(1) Cons.prems] unfolding AddRecord_def by metis
  show ?case
  proof (cases "s = OK")
    case True
    obtain ls s2 w2 where "AddRecords ext rs w1 = Some (ls, s2, w2)" "logged ext rs w1 ls s2 w2"
      using Cons.IH a(2) unfolding added_def by metis
    then show ?thesis
      using a True logged_Cons [of ext w r b1 w1 rs ls s2 w2] unfolding added_def by simp
  next
    case False
    then show ?thesis
      using a logged_stopped by simp
  qed
qed

text \<open>The writer starts at the start of a block, the reader at the end of the one before.\<close>

lemma crcs_ok_new [simp]: "crcs_ok ext (Writer_new ext f\<lparr>w_block_offset := off\<rparr>)"
  by (simp add: crcs_ok_def Writer_new_def)

lemma AddRecord_start:
  assumes "w_block_offset w = 0"
  shows "AddRecord ext r (w\<lparr>w_block_offset := kBlockSize\<rparr>) = AddRecord ext r w"
proof -
  have "switch_block (w\<lparr>w_block_offset := kBlockSize\<rparr>) = switch_block w"
    using assms by (cases w) (simp add: switch_block_def Let_def kBlockSize_def kHeaderSize_def)
  then show ?thesis
    using assms unfolding AddRecord_def by (subst (1 2) AddRecord_loop.simps) simp
qed

lemma AddRecords_start:
  assumes "w_block_offset w = 0" and "AddRecords ext rs (w\<lparr>w_block_offset := kBlockSize\<rparr>) = Some (ls, s, w2)"
  obtains w3 where "AddRecords ext rs w = Some (ls, s, w3)" and "w_dest w3 = w_dest w2"
proof (cases rs)
  case Nil
  then show ?thesis
    using assms that by auto
next
  case (Cons r rs1)
  then show ?thesis
    using assms(2) that [of w2] unfolding Cons AddRecords.simps AddRecord_start [OF assms(1)] by simp
qed

lemma log_recovers_gen:
  assumes "\<And>c a b. ext (ext c a) b = ext c (a @ b)" and "wf_data f = []"
  shows "\<exists>ls s w2. AddRecords ext rs (Writer_new ext f) = Some (ls, s, w2) \<and>
    length ls \<le> length rs \<and> (s = OK \<longrightarrow> length ls = length rs) \<and>
    (s \<noteq> OK \<longrightarrow> wf_fault f \<or> wf_room (w_dest w2) = 0) \<and>
    (\<forall>n b. \<exists>k \<le> length rs. length (filter (\<lambda>l. l \<le> n) ls) \<le> k \<and>
      reads ext (Reader_new \<lparr>sf_rest = take n (wf_data (w_dest w2)), sf_budget = None\<rparr> b 0) (take k rs))"
proof -
  let ?w = "Writer_new ext f\<lparr>w_block_offset := kBlockSize\<rparr>"
  obtain ls s w2 where a: "AddRecords ext rs ?w = Some (ls, s, w2)" "logged ext rs ?w ls s w2"
    using logged_all [OF assms(1), where w = ?w and rs = rs] by auto
  obtain w3 where w3: "AddRecords ext rs (Writer_new ext f) = Some (ls, s, w3)" "w_dest w3 = w_dest w2"
    using AddRecords_start [OF _ a(1)] by (metis Writer_new_def Writer.select_convs(2))
  have dest: "w_dest ?w = f"
    by (simp add: Writer_new_def)
  obtain bs where bs: "wf_data (w_dest w2) = bs" "\<And>c q rd. bs = c @ q \<Longrightarrow> at kBlockSize c rd \<Longrightarrow>
      \<exists>k \<le> length rs. length (filter (\<lambda>l. l \<le> length c) ls) \<le> k \<and> reads ext rd (take k rs)"
    using a(2) assms(2) unfolding logged_def dest by auto
  have "\<exists>k \<le> length rs. length (filter (\<lambda>l. l \<le> n) ls) \<le> k \<and>
      reads ext (Reader_new \<lparr>sf_rest = take n (wf_data (w_dest w3)), sf_budget = None\<rparr> b 0) (take k rs)" for n b
  proof -
    have at: "at kBlockSize (take n bs) (Reader_new \<lparr>sf_rest = take n bs, sf_budget = None\<rparr> b 0)"
      by (simp add: at_def Reader_new_def)
    have "l \<le> length (take n bs) \<longleftrightarrow> l \<le> n" if "l \<in> set ls" for l
      using that a(2) bs(1) unfolding logged_def by auto
    then have f: "filter (\<lambda>l. l \<le> length (take n bs)) ls = filter (\<lambda>l. l \<le> n) ls"
      by (auto intro: filter_cong)
    show ?thesis
      using bs(2) [OF _ at, of "drop n bs"] unfolding f w3(2) bs(1) by simp
  qed
  note k = this
  show ?thesis
    by (intro exI conjI, rule w3(1)) (use k a(2) w3(2) in \<open>auto simp: logged_def dest\<close>)
qed



end
