(* ===== verification/Ldb_Log_Safe.thy ===== *)
theory Ldb_Log_Safe
  imports Ldb_Log_Laws
begin

text \<open>
  The reader on a file of any contents, with reads that fail: it returns, and what it returns was accepted
  by the checks it makes.
\<close>

section \<open>Any file\<close>

text \<open>What the reader has not looked at.\<close>

definition unread :: "Reader \<Rightarrow> string" where
  "unread rd = rd_buffer rd @ sf_rest (rd_file rd)"

lemma unread_reports [simp]: "unread (ReportDrop n s rd) = unread rd" "unread (ReportCorruption n rd) = unread rd"
  by (simp_all add: unread_def ReportDrop_def ReportCorruption_def)

text \<open>
  A fragment found in \<open>u\<close>, with \<open>u1\<close> after it: a header of seven bytes with the checksum of what it
  describes.  A chain is the fragments of a record, in the order they have in the file.
\<close>

definition accepted ::
  "(uint32 \<Rightarrow> string \<Rightarrow> uint32) \<Rightarrow> bool \<Rightarrow> string \<Rightarrow> nat \<times> string \<Rightarrow> string \<Rightarrow> bool" where
  "accepted ext cs u f u1 \<longleftrightarrow>
     (\<exists>pre hd. u = pre @ hd @ snd f @ u1 \<and> length hd = kHeaderSize \<and>
        fst f = sign_extend32 (of_char (hd ! 6)) \<and>
        length (snd f) = of_char (hd ! 4) + 256 * of_char (hd ! 5) \<and>
        (cs \<longrightarrow> crc_Unmask (the (DecodeFixed32 hd)) = ext 0 (hd ! 6 # snd f)))"

fun chain ::
  "(uint32 \<Rightarrow> string \<Rightarrow> uint32) \<Rightarrow> bool \<Rightarrow> string \<Rightarrow> (nat \<times> string) list \<Rightarrow> string \<Rightarrow> bool" where
  "chain ext cs u [] u1 \<longleftrightarrow> (\<exists>pre. u = pre @ u1)"
| "chain ext cs u (f # fs) u1 \<longleftrightarrow> (\<exists>u2. accepted ext cs u f u2 \<and> chain ext cs u2 fs u1)"

lemma accepted_mono: "accepted ext cs u f u1 \<Longrightarrow> accepted ext cs (pre @ u) f u1"
  unfolding accepted_def by (metis append.assoc)

lemma chain_mono: "chain ext cs u fs u1 \<Longrightarrow> chain ext cs (pre @ u) fs u1"
  by (cases fs) (auto intro: accepted_mono)

lemma chain_snoc: "chain ext cs u fs u1 \<Longrightarrow> accepted ext cs u1 f u2 \<Longrightarrow> chain ext cs u (fs @ [f]) u2"
  by (induction fs arbitrary: u) (auto intro: accepted_mono exI [of _ "[]"])

lemma chain_shorter: "chain ext cs u fs u1 \<Longrightarrow> length (concat (map snd fs)) + kHeaderSize * length fs + length u1 \<le> length u"
  by (induction fs arbitrary: u) (fastforce simp: accepted_def)+

lemma parse_header_accepted:
  assumes "parse_header ext rd = (t, p, rd1)" and "kHeaderSize \<le> length (rd_buffer rd)"
  shows "t = kEof \<or> t = kBadRecord \<or> accepted ext (rd_checksum rd) (unread rd) (t, p) (unread rd1)"
    and "t = kEof \<or> length (unread rd1) < length (unread rd)"
    and "t = kEof \<or> (\<exists>pre. unread rd = pre @ unread rd1)" and "rd_checksum rd1 = rd_checksum rd"
proof -
  define h where "h = rd_buffer rd"
  define n where "n = (of_char (h ! 4) + 256 * of_char (h ! 5) :: nat)"
  have h: "kHeaderSize \<le> length h"
    using assms(2) by (simp add: h_def)
  have "h \<noteq> []"
    using h by (cases h) (simp_all add: kHeaderSize_def)
  then have short: "length (sf_rest (rd_file rd)) < length (unread rd)"
    by (simp add: unread_def h_def [symmetric])
  consider (bad) "t = kEof \<or> t = kBadRecord" "unread rd1 = sf_rest (rd_file rd)"
    | (skip) "t = kBadRecord" "kHeaderSize + n \<le> length h" "rd1 = rd\<lparr>rd_buffer := drop (kHeaderSize + n) h\<rparr>"
    | (good) "kHeaderSize + n \<le> length h" "rd1 = rd\<lparr>rd_buffer := drop (kHeaderSize + n) h\<rparr>"
        "t = sign_extend32 (of_char (h ! 6))" "p = take n (drop kHeaderSize h)"
        "rd_checksum rd \<longrightarrow> ext 0 (take (1 + n) (drop 6 h)) = crc_Unmask (the (DecodeFixed32 h))"
    using assms(1) unfolding parse_header_def Let_def h_def [symmetric] n_def [symmetric]
    by (auto simp: unread_def [of "rd\<lparr>rd_buffer := []\<rparr>"] split: if_splits)
  note cases = this
  show "t = kEof \<or> length (unread rd1) < length (unread rd)"
    by (cases rule: cases)
      (use short \<open>h \<noteq> []\<close> in \<open>auto simp: unread_def h_def [symmetric] kHeaderSize_def\<close>)
  have "\<exists>pre. h @ sf_rest (rd_file rd) = pre @ drop n1 h @ sf_rest (rd_file rd)" for n1
    by (rule exI [of _ "take n1 h"]) simp
  then show "t = kEof \<or> (\<exists>pre. unread rd = pre @ unread rd1)"
    by (cases rule: cases) (auto simp: unread_def h_def [symmetric])
  show "rd_checksum rd1 = rd_checksum rd"
    using assms(1) by (auto simp: parse_header_def Let_def ReportDrop_def ReportCorruption_def split: if_splits)
  show "t = kEof \<or> t = kBadRecord \<or> accepted ext (rd_checksum rd) (unread rd) (t, p) (unread rd1)"
  proof (cases rule: cases)
    case good
    obtain a b c d e f g r where hs: "h = [a, b, c, d, e, f, g] @ r"
      using h by (auto simp: kHeaderSize_def numeral_eq_Suc Suc_le_length_iff)
    have "drop (kHeaderSize + n) h = drop n (drop 7 h)"
      by (simp add: kHeaderSize_def add.commute)
    then have d: "drop (kHeaderSize + n) h = drop n r"
      by (simp add: hs)
    have "accepted ext (rd_checksum rd) (unread rd) (t, p) (unread rd1)"
      unfolding accepted_def
      by (rule exI [of _ "[]"], rule exI [of _ "[a, b, c, d, e, f, g]"])
        (use good [unfolded d] in \<open>auto simp: unread_def h_def [symmetric] hs n_def kHeaderSize_def\<close>)
    then show ?thesis
      by simp
  qed auto
qed

lemma ReadPhysicalRecord_full:
  "kHeaderSize \<le> length (rd_buffer rd) \<Longrightarrow> ReadPhysicalRecord ext rd = parse_header ext rd"
  "length (rd_buffer rd) < kHeaderSize \<Longrightarrow> rd_eof rd \<Longrightarrow>
    ReadPhysicalRecord ext rd = (kEof, [], rd\<lparr>rd_buffer := []\<rparr>)"
  by (simp_all add: ReadPhysicalRecord.simps [of ext rd])

lemma ReadPhysicalRecord_cases:
  obtains (parse) rd2 pre where "unread rd = pre @ unread rd2" "rd_checksum rd2 = rd_checksum rd"
      "kHeaderSize \<le> length (rd_buffer rd2)" "ReadPhysicalRecord ext rd = parse_header ext rd2"
  | (eof) rd1 where "ReadPhysicalRecord ext rd = (kEof, [], rd1)"
proof (cases "length (rd_buffer rd) < kHeaderSize \<and> \<not> rd_eof rd")
  case True
  obtain s data f where r: "sf_Read kBlockSize (rd_file rd) = (s, data, f)"
    by (metis surj_pair)
  define rd2 where "rd2 = rd\<lparr>rd_file := f, rd_buffer := data,
      rd_end_of_buffer_offset := rd_end_of_buffer_offset rd + of_nat (length data)\<rparr>"
  define rd3 where "rd3 = (if length data < kBlockSize then rd2\<lparr>rd_eof := True\<rparr> else rd2)"
  have step: "ReadPhysicalRecord ext rd =
      (if s \<noteq> OK then (kEof, [], (ReportDrop kBlockSize s (rd2\<lparr>rd_buffer := []\<rparr>))\<lparr>rd_eof := True\<rparr>)
       else ReadPhysicalRecord ext rd3)"
    using True r by (simp add: ReadPhysicalRecord.simps [of ext rd] rd3_def rd2_def)
  have u: "s = OK \<Longrightarrow> unread rd = rd_buffer rd @ unread rd3"
    using r by (auto simp: sf_Read_def unread_def rd3_def rd2_def split: option.splits nat.splits)
  have "rd_eof rd3 \<or> kHeaderSize \<le> length (rd_buffer rd3)"
    by (simp add: rd3_def rd2_def kBlockSize_def kHeaderSize_def)
  then consider "s \<noteq> OK" | "s = OK" "length (rd_buffer rd3) < kHeaderSize" "rd_eof rd3"
    | "s = OK" "kHeaderSize \<le> length (rd_buffer rd3)"
    by fastforce
  then show ?thesis
    by cases (use u step ReadPhysicalRecord_full in \<open>auto simp: rd3_def rd2_def intro: eof parse split: if_splits\<close>)
next
  case False
  then consider "length (rd_buffer rd) < kHeaderSize" "rd_eof rd" | "kHeaderSize \<le> length (rd_buffer rd)"
    by fastforce
  then show ?thesis
    by cases (use ReadPhysicalRecord_full eof in \<open>auto intro: parse [of "[]" rd]\<close>)
qed

lemma ReadPhysicalRecord_accepted:
  assumes "ReadPhysicalRecord ext rd = (t, p, rd1)" and "t \<noteq> kEof"
  shows "t = kBadRecord \<or> accepted ext (rd_checksum rd) (unread rd) (t, p) (unread rd1)"
    and "length (unread rd1) < length (unread rd)"
    and "\<exists>pre. unread rd = pre @ unread rd1" and "rd_checksum rd1 = rd_checksum rd"
proof -
  obtain rd2 pre where r: "unread rd = pre @ unread rd2" "rd_checksum rd2 = rd_checksum rd"
    "kHeaderSize \<le> length (rd_buffer rd2)" "parse_header ext rd2 = (t, p, rd1)"
    using assms by (cases rd rule: ReadPhysicalRecord_cases [where ext = ext]) auto
  note a = parse_header_accepted [OF r(4,3)]
  show "t = kBadRecord \<or> accepted ext (rd_checksum rd) (unread rd) (t, p) (unread rd1)"
    using a(1) r(1,2) assms(2) by (auto intro: accepted_mono)
  show "length (unread rd1) < length (unread rd)" "\<exists>pre. unread rd = pre @ unread rd1"
    "rd_checksum rd1 = rd_checksum rd"
    using a(2-) r(1,2) assms(2) by auto
qed

text \<open>
  What the loop of \<open>ReadRecord\<close> has when it is at \<open>rd\<close>: nothing, or the fragments of a record that has
  begun.
\<close>

definition gathered :: "(uint32 \<Rightarrow> string \<Rightarrow> uint32) \<Rightarrow> string \<Rightarrow> bool \<Rightarrow> string \<Rightarrow> Reader \<Rightarrow> bool" where
  "gathered ext u fg scratch rd \<longleftrightarrow>
     (\<exists>pre. u = pre @ unread rd) \<and>
     (fg \<longrightarrow> (\<exists>fs n. chain ext (rd_checksum rd) u fs (unread rd) \<and> scratch = concat (map snd fs) \<and>
        map fst fs = 2 # replicate n 3))"

definition whole :: "(uint32 \<Rightarrow> string \<Rightarrow> uint32) \<Rightarrow> bool \<Rightarrow> string \<Rightarrow> string \<Rightarrow> string \<Rightarrow> bool" where
  "whole ext cs u rcd u1 \<longleftrightarrow>
     (\<exists>fs. chain ext cs u fs u1 \<and> rcd = concat (map snd fs) \<and>
        (map fst fs = [1] \<or> (\<exists>n. map fst fs = 2 # replicate n 3 @ [4])))"

lemma gathered_reports [simp]:
  "gathered ext u fg scratch (ReportCorruption n rd) = gathered ext u fg scratch rd"
  "rd_checksum (ReportCorruption n rd) = rd_checksum rd"
  by (simp_all add: gathered_def ReportCorruption_def ReportDrop_def unread_def)

lemma gathered_steps:
  assumes "gathered ext u fg scratch rd" and "ReadPhysicalRecord ext rd = (t, p, rd1)" and "t \<noteq> kEof"
  shows "gathered ext u False s rd1"
    and "t = 2 \<Longrightarrow> gathered ext u True p rd1"
    and "fg \<Longrightarrow> t = 3 \<Longrightarrow> gathered ext u True (scratch @ p) rd1"
    and "fg \<Longrightarrow> t = 4 \<Longrightarrow> whole ext (rd_checksum rd) u (scratch @ p) (unread rd1)"
    and "t = 1 \<Longrightarrow> whole ext (rd_checksum rd) u p (unread rd1)"
proof -
  note a = ReadPhysicalRecord_accepted [OF assms(2,3)]
  obtain pre where u: "u = pre @ unread rd"
    using assms(1) unfolding gathered_def by blast
  have acc: "accepted ext (rd_checksum rd) (unread rd) (t, p) (unread rd1)" if "t \<le> 4"
    using that a(1) by (auto simp: kBadRecord_def kMaxRecordType_def)
  have nil: "gathered ext u False s rd1" for s
    using u a(3) unfolding gathered_def by auto
  then show "gathered ext u False s rd1" .
  have one: "chain ext (rd_checksum rd) u [(t, p)] (unread rd1)" if "t \<le> 4"
    using accepted_mono [OF acc [OF that], of pre] u by (simp, metis append_Nil)
  show "gathered ext u True p rd1" if "t = 2"
    using one nil that a(4) unfolding gathered_def
    by (auto intro!: exI [of _ "[(2, p)]"] exI [of _ 0] simp del: chain.simps)
  show "whole ext (rd_checksum rd) u p (unread rd1)" if "t = 1"
    using one that unfolding whole_def by (auto intro!: exI [of _ "[(1, p)]"] simp del: chain.simps)
  assume fg
  then have "\<exists>fs n. chain ext (rd_checksum rd) u fs (unread rd) \<and> scratch = concat (map snd fs) \<and>
      map fst fs = 2 # replicate n 3"
    using assms(1) by (simp add: gathered_def)
  then obtain fs n where fs: "chain ext (rd_checksum rd) u fs (unread rd)" "scratch = concat (map snd fs)"
    "map fst fs = 2 # replicate n 3"
    by metis
  have more: "chain ext (rd_checksum rd) u (fs @ [(t, p)]) (unread rd1)" if "t \<le> 4"
    using chain_snoc fs(1) acc [OF that] by blast
  show "gathered ext u True (scratch @ p) rd1" if "t = 3"
    using more nil that a(4) fs(2,3) unfolding gathered_def
    by (auto intro!: exI [of _ "fs @ [(3, p)]"] exI [of _ "Suc n"] simp del: chain.simps simp flip: replicate_append_same)
  show "whole ext (rd_checksum rd) u (scratch @ p) (unread rd1)" if "t = 4"
    using more that fs(2,3) unfolding whole_def
    by (auto intro!: exI [of _ "fs @ [(4, p)]"] simp del: chain.simps)
qed

lemma ReadRecord_loop_gathers:
  assumes "gathered ext u fg scratch rd"
  shows "\<exists>ok rcd rd1. ReadRecord_loop ext fg pos scratch rd = Some (ok, rcd, rd1) \<and>
    (ok \<longrightarrow> whole ext (rd_checksum rd) u rcd (unread rd1)) \<and> (\<not> ok \<longrightarrow> rcd = [])"
  using assms
proof (induction "length (unread rd)" arbitrary: fg pos scratch rd rule: less_induct)
  case less
  obtain t p rd1 where r: "ReadPhysicalRecord ext rd = (t, p, rd1)"
    by (metis surj_pair)
  show ?case
  proof (cases "t = kEof")
    case True
    then show ?thesis
      using r loop_eof by blast
  next
    case False
    note a = ReadPhysicalRecord_accepted [OF r False]
    have IH: "\<exists>ok rcd rd3. ReadRecord_loop ext fg2 pos2 scratch2 rd2 = Some (ok, rcd, rd3) \<and>
        (ok \<longrightarrow> whole ext (rd_checksum rd) u rcd (unread rd3)) \<and> (\<not> ok \<longrightarrow> rcd = [])"
      if "gathered ext u fg2 scratch2 rd2" "unread rd2 = unread rd1" "rd_checksum rd2 = rd_checksum rd1"
      for fg2 pos2 scratch2 rd2
      using less.hyps [of rd2 fg2 scratch2 pos2] that a(2,4) by simp
    note g = gathered_steps [OF less.prems r False]
    have last [simp]: "unread (rd2\<lparr>rd_last_record_offset := pos2\<rparr>) = unread rd2" for rd2 pos2
      by (simp add: unread_def)
    consider "t = 1" | "t = 2" | "t = 3" fg | "t = 4" fg | "t = 3 \<or> t = 4" "\<not> fg" | "t \<notin> {1, 2, 3, 4}"
      by auto
    then show ?thesis
    proof cases
      case 1
      then show ?thesis
        using g(5) r by (auto simp add: ReadRecord_loop.simps [of ext _ pos scratch rd] Let_def)
    next
      case 2
      then show ?thesis
        using IH [OF g(2)] IH [of True p] g(2) r a(4) by (simp add: ReadRecord_loop.simps [of ext _ pos scratch rd] Let_def)
    next
      case 3
      then show ?thesis
        using IH [OF g(3)] r a(4) by (simp add: ReadRecord_loop.simps [of ext _ pos scratch rd] Let_def)
    next
      case 4
      then show ?thesis
        using g(4) r by (auto simp add: ReadRecord_loop.simps [of ext _ pos scratch rd] Let_def)
    next
      case 5
      then show ?thesis
        using IH [of False] g(1) r a(4) by (auto simp: ReadRecord_loop.simps [of ext _ pos scratch rd] Let_def)
    next
      case 6
      then show ?thesis
        using IH [of False] g(1) r a(4) False by (auto simp: ReadRecord_loop.simps [of ext _ pos scratch rd] Let_def)
    qed
  qed
qed

lemma SkipToInitialBlock_unread:
  assumes "SkipToInitialBlock rd = (True, rd1)"
  shows "rd_checksum rd1 = rd_checksum rd" and "rd_buffer rd = [] \<Longrightarrow> \<exists>pre. unread rd = pre @ unread rd1"
proof -
  obtain n f where n: "rd_checksum rd1 = rd_checksum rd" "rd_buffer rd1 = rd_buffer rd" "rd_file rd1 = f"
    "sf_rest f = drop n (sf_rest (rd_file rd))"
    using assms
    by (auto simp: SkipToInitialBlock_def Let_def sf_Skip_def split: if_splits option.splits nat.splits
        intro: that [of _ 0])
  then show "rd_checksum rd1 = rd_checksum rd"
    by simp
  show "\<exists>pre. unread rd = pre @ unread rd1" if "rd_buffer rd = []"
    using n that by (intro exI [of _ "take n (sf_rest (rd_file rd))"]) (simp add: unread_def)
qed

lemma whole_mono: "whole ext cs u rcd u1 \<Longrightarrow> whole ext cs (pre @ u) rcd u1"
proof -
  assume "whole ext cs u rcd u1"
  then obtain fs where "chain ext cs u fs u1" "rcd = concat (map snd fs)"
    "map fst fs = [1] \<or> (\<exists>n. map fst fs = 2 # replicate n 3 @ [4])"
    unfolding whole_def by (elim exE conjE)
  then show ?thesis
    unfolding whole_def using chain_mono by (intro exI [of _ fs]) simp
qed

lemma whole_shorter: "whole ext cs u rcd u1 \<Longrightarrow> length rcd + kHeaderSize + length u1 \<le> length u"
proof -
  assume "whole ext cs u rcd u1"
  then obtain fs where fs: "chain ext cs u fs u1" "rcd = concat (map snd fs)" "map fst fs \<noteq> []"
    unfolding whole_def by auto
  then have "kHeaderSize \<le> kHeaderSize * length fs"
    by (cases fs) simp_all
  then show ?thesis
    using chain_shorter [OF fs(1)] unfolding fs(2) by linarith
qed

lemma ReadRecord_gathers:
  "\<exists>ok rcd rd1. ReadRecord ext rd = Some (ok, rcd, rd1) \<and> (\<not> ok \<longrightarrow> rcd = []) \<and>
    (ok \<and> (rd_buffer rd = [] \<or> rd_initial_offset rd \<le> rd_last_record_offset rd) \<longrightarrow>
      whole ext (rd_checksum rd) (unread rd) rcd (unread rd1))"
proof -
  have here: "\<exists>ok rcd rd1. ReadRecord_loop ext False 0 [] rd2 = Some (ok, rcd, rd1) \<and> (\<not> ok \<longrightarrow> rcd = []) \<and>
      (ok \<longrightarrow> whole ext (rd_checksum rd2) (unread rd2) rcd (unread rd1))" for rd2
    using ReadRecord_loop_gathers [of ext "unread rd2" False "[]" rd2 0] by (auto simp: gathered_def)
  show ?thesis
  proof (cases "rd_last_record_offset rd < rd_initial_offset rd")
    case True
    obtain ok rd2 where s: "SkipToInitialBlock rd = (ok, rd2)"
      by (metis surj_pair)
    show ?thesis
    proof (cases ok)
      case ok: True
      then have "SkipToInitialBlock rd = (True, rd2)"
        using s by simp
      note k = SkipToInitialBlock_unread [OF this]
      have "rd_buffer rd = [] \<Longrightarrow> whole ext (rd_checksum rd2) (unread rd2) rcd u1 \<Longrightarrow>
          whole ext (rd_checksum rd) (unread rd) rcd u1" for rcd u1
        using k whole_mono [of ext "rd_checksum rd" "unread rd2" rcd u1] by auto
      then show ?thesis
        using here [of rd2] True s ok by (fastforce simp: ReadRecord_def not_le)
    qed (use True s in \<open>auto simp: ReadRecord_def\<close>)
  next
    case False
    obtain ok rcd rd1 where "ReadRecord_loop ext False 0 [] rd = Some (ok, rcd, rd1)" "\<not> ok \<longrightarrow> rcd = []"
      "ok \<longrightarrow> whole ext (rd_checksum rd) (unread rd) rcd (unread rd1)"
      using here [of rd] by (elim exE conjE)
    then show ?thesis
      using False by (simp add: ReadRecord_def)
  qed
qed

text \<open>
  Claim C35: The reader can be trusted on any file.  Whatever the bytes and whichever reads fail, \<open>ReadRecord\<close>
  returns.  What it returns is the payload of one FULL fragment, or of a FIRST fragment, any number of
  MIDDLE ones and a LAST one, which the file holds in this order, each behind a header that gives its length
  and its type; with the checksum on, each has the checksum its header gives.  The record was ahead of
  the reader and is behind it.
\<close>

theorem log_reader_safe:
  "\<exists>ok rcd rd1. ReadRecord ext rd = Some (ok, rcd, rd1) \<and> (\<not> ok \<longrightarrow> rcd = []) \<and>
    (ok \<and> (rd_buffer rd = [] \<or> rd_initial_offset rd \<le> rd_last_record_offset rd) \<longrightarrow>
      (\<exists>fs. chain ext (rd_checksum rd) (unread rd) fs (unread rd1) \<and> rcd = concat (map snd fs) \<and>
         (map fst fs = [1] \<or> (\<exists>n. map fst fs = 2 # replicate n 3 @ [4]))) \<and>
      length rcd + kHeaderSize + length (unread rd1) \<le> length (unread rd))"
proof -
  obtain ok rcd rd1 where r: "ReadRecord ext rd = Some (ok, rcd, rd1)" "\<not> ok \<longrightarrow> rcd = []"
    "ok \<and> (rd_buffer rd = [] \<or> rd_initial_offset rd \<le> rd_last_record_offset rd) \<longrightarrow>
      whole ext (rd_checksum rd) (unread rd) rcd (unread rd1)"
    using ReadRecord_gathers [of ext rd] by (elim exE conjE)
  then show ?thesis
    using whole_shorter [of ext "rd_checksum rd" "unread rd" rcd "unread rd1"]
    by (intro exI [of _ ok] exI [of _ rcd] exI [of _ rd1] conjI impI) (simp_all add: whole_def)
qed

theorem log_reader_safe_witness:
  "\<exists>rd1 fs. ReadRecord (\<lambda>c s. c + of_nat (length s))
      (Reader_new \<lparr>sf_rest = phys (\<lambda>c s. c + of_nat (length s)) kFullType ''ab'', sf_budget = None\<rparr> True 0) =
        Some (True, ''ab'', rd1) \<and> ''ab'' = concat (map snd fs) \<and>
      chain (\<lambda>c s. c + of_nat (length s)) True (phys (\<lambda>c s. c + of_nat (length s)) kFullType ''ab'') fs (unread rd1)"
proof -
  let ?ext = "\<lambda>c s. c + of_nat (length s) :: uint32"
  define rd where "rd = Reader_new \<lparr>sf_rest = phys ?ext kFullType ''ab'', sf_budget = None\<rparr> True 0"
  have at: "at kBlockSize (phys ?ext kFullType ''ab'' @ []) rd"
    by (simp add: at_def rd_def Reader_new_def)
  have "read_ok ?ext kBlockSize True ''ab'' (phys ?ext kFullType ''ab'') 9"
    using read_whole [of ?ext kBlockSize "''ab''" True]
    by (simp add: trailer_def start_at_def kBlockSize_def kHeaderSize_def fragment_type_def add.assoc)
  then obtain rd1 where r: "ReadRecord ?ext rd = Some (True, ''ab'', rd1)"
    using read_okD [OF _ at, of ?ext True "''ab''" 9 0 "[]"] ReadRecord_at [OF at, of ?ext] by auto
  moreover have "rd_buffer rd = []" "rd_checksum rd" "unread rd = phys ?ext kFullType ''ab''"
    by (simp_all add: rd_def Reader_new_def unread_def)
  ultimately have "\<exists>fs. chain ?ext True (phys ?ext kFullType ''ab'') fs (unread rd1) \<and> ''ab'' = concat (map snd fs) \<and>
      (map fst fs = [1] \<or> (\<exists>n. map fst fs = 2 # replicate n 3 @ [4]))"
    using log_reader_safe [of ?ext rd] unfolding r by (elim exE conjE, simp, elim conjE, simp)
  then obtain fs where "chain ?ext True (phys ?ext kFullType ''ab'') fs (unread rd1)" "''ab'' = concat (map snd fs)"
    by (elim exE conjE)
  then show ?thesis
    using r unfolding rd_def by blast
qed

end
