(* ===== verification/Spec2Isabelle.thy ===== *)
theory Spec2Isabelle
  imports Db_Keys Kv_Cache_Laws Block_Undo Db_Iterate Sys_Param Sys_Govern Account Cdp_Inv
    Dex_Laws Delegate Contract Asset Block Tx_Mem Price_Window Price_Feed Tx_Tables Block_Db_Laws Wrapper_Layer Typed_Bytes
    Ldb_Memtable Ldb_Log_Safe
begin

text \<open>
  Verification of the persistence layer of a blockchain node (\<open>src/persistence\<close>, C++).

  The program.  The node keeps its state in databases: one leveldb per class of data, each with
  several tables told apart by a key prefix (\<open>dbconf.h\<close>).  Over every table stands a cache
  (\<open>dbaccess.h\<close>), and caches stand on caches: the manager's stand on the databases, a wrapper's on
  the manager's or on another wrapper's (\<open>cachewrapper\<close>).  A transaction writes to the caches of a
  wrapper with a log of the old values attached; \<open>Flush\<close> publishes a layer to the one below, and
  the logs of a block, kept in undo files (\<open>blockundo\<close>), put every table back when the block is
  disconnected.  The database classes (accounts, delegates, debt positions, exchange orders, assets,
  contracts, governance, parameters, prices, outputs, receipts, blocks) are operations over these
  tables that keep several of them consistent.

  The theories, each with the files it models.
  \<^item> \<open>Prelude\<close>: byte strings, \<open>std::map\<close> (\<open>std_map\<close>), machine words, folds that may fail.
    A C++ exception, a failed assertion or undefined behaviour is \<open>None\<close> of an option; a returned
    error is a value.
  \<^item> \<open>Db_Conf\<close>, \<open>Db_Keys\<close> (\<open>dbconf.h\<close>): databases, prefixes, keys and their parsing; \<open>Db_Util\<close> and
    \<open>Op_Log\<close> (\<open>dbaccess.h\<close>, \<open>leveldbwrapper\<close>): emptiness and printing of values, logs, batches, and the
    wrapper of leveldb over the record \<open>leveldb\<close>, its documented contract.
  \<^item> \<open>Interfaces\<close>, \<open>Table_Index\<close>: the locales: a key-value store (\<open>kv_store\<close>), a layer that writes
    back (\<open>write_back\<close>), a log that undoes (\<open>undo_log\<close>), and a secondary index (\<open>keyed_index\<close>).  Each is
    interpreted on the model's own operations in the theory that provides them.
  \<^item> \<open>Kv_Cache\<close>, \<open>Kv_Cache_Laws\<close>, \<open>Simple_Cache\<close> (\<open>dbaccess.h\<close>): the cache of a table and the cache of a
    single value, with every layer below inside the value.  \<open>Db_Iterator\<close>, \<open>Db_Iterator_Laws\<close>,
    \<open>Db_Iterate\<close> (\<open>dbiterator.h\<close>): cursors over a database, over a map, and merged over the layers.
  \<^item> \<open>Cache_Wrapper\<close>, \<open>Cache_Manager\<close>, \<open>Wrapper_Layer\<close> (\<open>cachewrapper\<close>) and \<open>Block_Undo\<close>
    (\<open>blockundo\<close>): the wiring of the classes, the manager, wrappers as layers, and undo.
  \<^item> \<open>Typed_Bytes\<close>: the caches of the classes, at their own types, and the wrapper's caches of byte
    strings are the same machine.
  \<^item> \<open>Db_Class\<close>, \<open>Sample_Codec\<close>: the vocabulary in which an operation of a class reads as its code
    does, and a serialisation for concrete examples.
  \<^item> \<open>Sys_Param\<close>, \<open>Sys_Govern\<close>, \<open>Account\<close>, \<open>Cdp\<close> and \<open>Cdp_Inv\<close>, \<open>Dex\<close> and \<open>Dex_Laws\<close>, \<open>Delegate\<close>,
    \<open>Contract\<close>, \<open>Asset\<close>, \<open>Price_Points\<close>, \<open>Price_Laws\<close>, \<open>Price_Window\<close> and \<open>Price_Feed\<close>, \<open>Tx_Mem\<close>,
    \<open>Tx_Tables\<close>, \<open>Disk\<close>, \<open>Block\<close>, \<open>Block_Db\<close> and \<open>Block_Db_Laws\<close>: the classes of the files
    \<open>sysparamdb\<close>, \<open>sysgoverndb\<close>, \<open>accountdb\<close>, \<open>cdpdb\<close>, \<open>dexdb\<close>, \<open>delegatedb\<close>, \<open>contractdb\<close>, \<open>assetdb\<close>,
    \<open>pricefeeddb\<close>, \<open>txdb\<close>, \<open>txutxodb\<close> with \<open>txreceiptdb\<close>, \<open>logdb\<close> and \<open>axcdb\<close>, \<open>disk\<close>, \<open>block\<close> and \<open>blockdb\<close>.

  \<^item> \<open>Ldb_Coding\<close>, \<open>Ldb_Format\<close>, \<open>Ldb_Batch\<close>, \<open>Ldb_Skiplist\<close>, \<open>Ldb_Skiplist_Laws\<close>, \<open>Ldb_Memtable\<close>: the write
    path of the vendored leveldb (\<open>util/coding\<close>, \<open>util/comparator.cc\<close>, \<open>db/dbformat\<close>, \<open>db/write_batch\<close>,
    \<open>util/random.h\<close>, \<open>db/skiplist.h\<close>, \<open>db/memtable\<close>): bytes, internal keys, batches, and the table in memory.
    The locales \<open>key_preorder\<close>, \<open>key_order\<close> and \<open>comparator\<close> are what the skip list and the tables rely on;
    the bytewise comparator provides them, and the internal and the memtable's order inherit them.
  \<^item> \<open>Ldb_Log\<close>, \<open>Ldb_Log_Laws\<close>, \<open>Ldb_Log_Safe\<close> (\<open>db/log_format.h\<close>, \<open>db/log_writer\<close>, \<open>db/log_reader\<close>): the log
    that makes a write durable, over files with faults; the checksum \<open>Extend\<close> is a parameter.

  What is shown.
  \<^item> The caches: reads after writes and deletions through any stack of layers; a flush makes the layer
    or the database below show what the layer showed and nothing else; the logged writes can be
    undone; a merged iteration visits every visible row once, in order, and ends.
  \<^item> The wrapper and the manager: connecting a block is invisible until the flush, applies the writes of
    its transactions in order, and survives a restart; disconnecting it restores every table; the
    wiring reaches every table.
  \<^item> The classes: invariants over several tables (indexes and totals of positions, orders and their block
    index, owners of operators, supply of coins), results of the queries (ranked delegates, positions
    by ratio, median prices, parameters over heights), histories of writes, and what the error branches
    leave behind.
  \<^item> Blocks: Merkle branches against the root, the median time, block and undo files, the loading of
    block indexes, with the corrupt inputs that make it stop.
  \<^item> leveldb: numbers, slices and batches are read back as they were written and a cut is refused; internal
    keys order versions and their separators separate; insertion keeps the skip list well-formed and its
    searches return; the memtable implements the contract of a write and reads at a snapshot.
    A log cut anywhere gives back the records acknowledged before the cut and no part of another; on a
    file of any contents the reader returns, and only what carries its checksum.

  Termination.  Loops are structural recursion, or recursion with a measure.  Two loops of the iterators
  may not end on an arbitrary base, nor the searches of the skip list on an arbitrary graph of nodes; these and the
  loop of the log reader are \<open>partial_function (option)\<close>, and the theorems state that they return.  No fuel is used.

  Numbers.  Integers have the width of the source (\<open>uint32\<close>, \<open>uint64\<close>, heights of a width that is a
  parameter where the type belongs to another module); where a theorem needs a bound, it says so.
  Hypotheses on code outside the sources, such as serialisation that can be read back or a leveldb that
  answers without faults, are named (\<open>kv_wf\<close>, \<open>access_ok\<close>, \<open>simple_ok\<close>, \<open>codecs_ok\<close>), and the
  examples meet them.

  Not modelled.  The rest of leveldb (sorted tables, versions, compaction, recovery, threads) is vendored; the
  wrapper stands on the library's contract, the record \<open>leveldb\<close>.  Opening files and databases,
  logging, printing to JSON and strings, freeing memory, and the order in which a hash table is listed
  are left out.  Account, asset, order and transaction types belong to other modules: what the code
  reads of them is in the record of each theory's environment.  \<open>CheckIsPriceFeeder\<close>,
  \<open>SetPriceFeeders\<close>, \<open>GetPriceFeeders\<close>, \<open>GetAncestor\<close>, \<open>BuildSkip\<close> and \<open>IsSuperMajority\<close> are declared in
  these files and have no body there.
\<close>

end
